(* ===== verification/Maestro_Prelude.thy ===== *)
theory Maestro_Prelude imports Main "HOL-Library.AList" "HOL-Library.Multiset" "HOL-Library.List_Lexorder" "HOL-Library.Char_ord" begin

text \<open>
  Shared vocabulary of the Maestro v2 development: Go maps, timestamps, results, walks over a
  step relation, and the fact collections the component theories add to.

  \<^item> A Go map is an association list. Reading is \<open>map_of\<close>, writing is \<open>AList.update\<close>, \<open>delete\<close> is
    \<open>AList.delete\<close>; the order of the list is one order a \<open>range\<close> loop may visit the keys in. Go
    leaves that order open, so a theorem about a function that ranges over a map is stated for
    every list. A nil map and an empty map are both the empty list: Go reads them alike.
  \<^item> Pointers that may be nil are \<open>option\<close> values.
  \<^item> A function that returns an \<open>error\<close> returns a sum: \<open>Inl\<close> the error, \<open>Inr\<close> the result.
  \<^item> A stored RFC3339 string is kept as the instant it denotes (nanoseconds since the epoch), or
    as the raw string when \<open>time.Parse\<close> rejects it.
\<close>

section \<open>Fact collections\<close>

named_theorems table_defs \<open>transition tables and validators, unfolded to evaluate them\<close>
named_theorems step_defs \<open>the operations of a component, unfolded to follow one step\<close>

section \<open>Go maps\<close>

type_synonym ('k, 'v) gomap = "('k \<times> 'v) list"

text \<open>Reading a key that is absent gives the zero value of the value type.\<close>

definition zget :: "'v \<Rightarrow> ('k, 'v) gomap \<Rightarrow> 'k \<Rightarrow> 'v" where
  "zget z m k = (case map_of m k of None \<Rightarrow> z | Some v \<Rightarrow> v)"

lemma zget_update [simp]: "zget z (AList.update k v m) k' = (if k' = k then v else zget z m k')"
  by (simp add: zget_def update_conv')

lemma zget_Some: "map_of m k = Some v \<Longrightarrow> zget z m k = v"
  by (simp add: zget_def)

lemma zget_None: "map_of m k = None \<Longrightarrow> zget z m k = z"
  by (simp add: zget_def)

lemma map_of_update [simp]: "map_of (AList.update k v m) k' = (if k' = k then Some v else map_of m k')"
  by (simp add: update_conv')

lemma map_of_delete [simp]: "map_of (AList.delete k m) k' = (if k' = k then None else map_of m k')"
  by (simp add: delete_conv')

text \<open>Two association lists of the same map: one is another order of the other's keys.\<close>

lemma map_of_mset_eq:
  assumes "mset xs = mset ys" and "distinct (map fst xs)"
  shows "map_of xs = map_of ys"
proof -
  have "mset (map fst xs) = mset (map fst ys)"
    using assms(1) by simp
  then have "distinct (map fst ys)"
    using assms(2) mset_eq_imp_distinct_iff by blast
  moreover have "set xs = set ys"
    using assms(1) by (rule mset_eq_setD)
  ultimately show ?thesis
    using assms(2) by (metis map_of_inject_set)
qed

section \<open>Timestamps\<close>

datatype stamp = Stamp int | BadStamp string

text \<open>\<open>t.UTC().Format(time.RFC3339)\<close> drops the fraction of the second.\<close>

definition fmt_stamp :: "int \<Rightarrow> stamp" where
  "fmt_stamp t = Stamp (t - t mod 1000000000)"

fun parse_stamp :: "stamp \<Rightarrow> int option" where
  "parse_stamp (Stamp t) = Some t"
| "parse_stamp (BadStamp _) = None"

text \<open>\<open>time.Duration(n) * time.Second\<close>, for \<open>n\<close> inside the range of a Duration.\<close>

definition seconds :: "int \<Rightarrow> int" where
  "seconds n = n * 1000000000"

lemma parse_fmt [simp]: "parse_stamp (fmt_stamp t) = Some (t - t mod 1000000000)"
  by (simp add: fmt_stamp_def)

lemma fmt_stamp_floor: "t - t mod 1000000000 \<le> t" "t < t - t mod 1000000000 + 1000000000" for t :: int
  by simp_all

section \<open>Results\<close>

definition and_then :: "'e + 'a \<Rightarrow> ('a \<Rightarrow> 'e + 'b) \<Rightarrow> 'e + 'b" where
  "and_then r f = (case r of Inl e \<Rightarrow> Inl e | Inr x \<Rightarrow> f x)"

lemma and_then_simps [simp]:
  "and_then (Inl e) f = Inl e"
  "and_then (Inr x) f = f x"
  by (simp_all add: and_then_def)

lemma and_then_Inr: "and_then r f = Inr y \<longleftrightarrow> (\<exists>x. r = Inr x \<and> f x = Inr y)"
  by (cases r) simp_all

lemma and_then_Inl: "and_then r f = Inl e \<longleftrightarrow> r = Inl e \<or> (\<exists>x. r = Inr x \<and> f x = Inl e)"
  by (cases r) simp_all

definition succeeds :: "'e + 'a \<Rightarrow> bool" where
  "succeeds r = (case r of Inl _ \<Rightarrow> False | Inr _ \<Rightarrow> True)"

lemma succeeds_simps [simp]: "\<not> succeeds (Inl e)" "succeeds (Inr x)"
  by (simp_all add: succeeds_def)

lemma succeeds_unit: "succeeds r \<longleftrightarrow> r = Inr ()" for r :: "'e + unit"
  by (cases r) simp_all

section \<open>Walks\<close>

text \<open>\<open>walk R s ts\<close>: the states \<open>ts\<close> can be visited in turn from \<open>s\<close> by steps of \<open>R\<close>.\<close>

fun walk :: "('s \<Rightarrow> 's \<Rightarrow> bool) \<Rightarrow> 's \<Rightarrow> 's list \<Rightarrow> bool" where
  "walk R s [] = True"
| "walk R s (t # ts) = (R s t \<and> walk R t ts)"

lemma walk_append: "walk R s (ts @ us) \<longleftrightarrow> walk R s ts \<and> walk R (last (s # ts)) us"
  by (induction ts arbitrary: s) auto

lemma walk_snoc: "walk R s (ts @ [t]) \<longleftrightarrow> walk R s ts \<and> R (last (s # ts)) t"
  by (simp add: walk_append)

lemma walk_mono: "(\<And>x y. R x y \<Longrightarrow> Q x y) \<Longrightarrow> walk R s ts \<Longrightarrow> walk Q s ts"
  by (induction ts arbitrary: s) auto

lemma walk_invariant:
  assumes "\<And>x y. R x y \<Longrightarrow> P x \<Longrightarrow> P y" and "walk R s ts" and "P s"
  shows "P (last (s # ts))"
  using assms(2,3)
proof (induction ts arbitrary: s)
  case (Cons t ts)
  from Cons.prems have "R s t" "walk R t ts" "P s" by simp_all
  then have "P (last (t # ts))" using Cons.IH [of t] assms(1) by blast
  then show ?case by simp
qed simp

text \<open>A walk that avoids \<open>X\<close> cannot leave a set that every step avoiding \<open>X\<close> preserves.\<close>

lemma walk_avoiding:
  assumes "\<And>x y. x \<in> S \<Longrightarrow> R x y \<Longrightarrow> y \<notin> X \<Longrightarrow> y \<in> S"
    and "walk R s ts" "s \<in> S" "set ts \<inter> X = {}"
  shows "set ts \<subseteq> S"
  using assms(2-4)
proof (induction ts arbitrary: s)
  case (Cons t ts)
  then have "t \<in> S" using assms(1) by auto
  with Cons show ?case by auto
qed simp

text \<open>A walk can be shortened to one that visits no state twice.\<close>

lemma walk_distinct:
  assumes "walk R s ts"
  shows "\<exists>us. walk R s us \<and> last (s # us) = last (s # ts) \<and> distinct (s # us) \<and> set us \<subseteq> set ts"
  using assms
proof (induction ts arbitrary: s rule: length_induct)
  case (1 ts)
  show ?case
  proof (cases ts)
    case (Cons t ts')
    show ?thesis
    proof (cases "s \<in> set ts")
      case True
      then obtain xs ys where ts: "ts = xs @ s # ys" by (meson split_list)
      with "1.prems" have "walk R s ys" by (simp add: walk_append)
      moreover have "length ys < length ts" by (simp add: ts)
      ultimately obtain us where "walk R s us" "last (s # us) = last (s # ys)" "distinct (s # us)" "set us \<subseteq> set ys"
        using "1.IH" by blast
      then show ?thesis using ts by (intro exI [of _ us]) auto
    next
      case False
      with "1.prems" Cons obtain us where us: "walk R t us" "last (t # us) = last (t # ts')" "distinct (t # us)"
        "set us \<subseteq> set ts'"
        using "1.IH" by (metis length_Cons lessI walk.simps(2))
      with "1.prems" Cons False show ?thesis by (intro exI [of _ "t # us"]) auto
    qed
  qed auto
qed

text \<open>Where every state of a finite set has a step inside the set, some walk comes back to its start.\<close>

lemma walk_iterate:
  assumes "\<And>n. n \<in> A \<Longrightarrow> R n (g n) \<and> g n \<in> A" and "x \<in> A"
  shows "walk R x (map (\<lambda>k. (g ^^ Suc k) x) [0..<m])" and "(g ^^ m) x \<in> A"
proof -
  show it: "(g ^^ m) x \<in> A" for m
    by (induction m) (use assms in auto)
  show "walk R x (map (\<lambda>k. (g ^^ Suc k) x) [0..<m])"
  proof (induction m)
    case (Suc m)
    have "last (x # map (\<lambda>k. (g ^^ Suc k) x) [0..<m]) = (g ^^ m) x"
      by (cases m) auto
    with Suc assms(1) [OF it] show ?case by (simp add: walk_snoc)
  qed simp
qed

lemma finite_serial_cycle:
  assumes "finite A" and "A \<noteq> {}" and "\<And>n. n \<in> A \<Longrightarrow> \<exists>k \<in> A. R n k"
  shows "\<exists>n \<in> A. \<exists>ts. ts \<noteq> [] \<and> walk R n ts \<and> last ts = n"
proof -
  from assms(3) obtain g where g: "\<And>n. n \<in> A \<Longrightarrow> R n (g n) \<and> g n \<in> A" by metis
  from assms(2) obtain x where x: "x \<in> A" by blast
  let ?f = "\<lambda>m. (g ^^ m) x"
  have "range ?f \<subseteq> A" using walk_iterate(2) [of A R g, OF g x] by auto
  then have "\<not> inj ?f"
    using assms(1) by (meson finite_imageD finite_subset infinite_UNIV_nat)
  then obtain i j where ij: "i < j" "?f i = ?f j"
    unfolding inj_def by (metis linorder_neqE_nat)
  let ?n = "?f i" and ?m = "j - i"
  have "?n \<in> A" using walk_iterate(2) [of A R g, OF g x] .
  moreover have "walk R ?n (map (\<lambda>k. (g ^^ Suc k) ?n) [0..<?m])"
    using walk_iterate(1) [of A R g, OF g \<open>?n \<in> A\<close>] .
  moreover have "last (map (\<lambda>k. (g ^^ Suc k) ?n) [0..<?m]) = (g ^^ ?m) ?n"
    using ij(1) Suc_diff_Suc [OF ij(1)] by (simp add: last_map flip: funpow.simps(2) comp_apply [of g])
  moreover have "(g ^^ ?m) ?n = ?f j"
    using ij(1) by (metis comp_apply funpow_add le_add_diff_inverse2 less_imp_le)
  ultimately show ?thesis using ij by (intro bexI exI conjI) auto
qed

text \<open>A listing in which every element comes after the ones it depends on.\<close>

definition topo :: "('a \<Rightarrow> 'a set) \<Rightarrow> 'a list \<Rightarrow> bool" where
  "topo f xs = (\<forall>ys y zs. xs = ys @ y # zs \<longrightarrow> f y \<subseteq> set ys)"

lemma topo_Nil [simp]: "topo f []"
  by (simp add: topo_def)

lemma topo_snoc: "topo f (xs @ [x]) \<longleftrightarrow> topo f xs \<and> f x \<subseteq> set xs"
proof
  assume t: "topo f (xs @ [x])"
  then have "f x \<subseteq> set xs" by (simp add: topo_def)
  moreover have "f y \<subseteq> set ys" if "xs = ys @ y # zs" for ys y zs
    using t that unfolding topo_def by (metis append.assoc append_Cons)
  ultimately show "topo f xs \<and> f x \<subseteq> set xs" by (simp add: topo_def)
next
  assume a: "topo f xs \<and> f x \<subseteq> set xs"
  show "topo f (xs @ [x])"
    unfolding topo_def
  proof (intro allI impI)
    fix ys y zs assume e: "xs @ [x] = ys @ y # zs"
    show "f y \<subseteq> set ys"
    proof (cases zs rule: rev_cases)
      case Nil
      with e a show ?thesis by simp
    next
      case (snoc zs' z)
      with e have "xs = ys @ y # zs'" by simp
      with a show ?thesis by (simp add: topo_def)
    qed
  qed
qed

lemma topo_closed: "topo f xs \<Longrightarrow> x \<in> set xs \<Longrightarrow> f x \<subseteq> set xs"
  by (induction xs rule: rev_induct) (auto simp: topo_snoc)

lemma topo_no_cycle:
  "topo f xs \<Longrightarrow> distinct xs \<Longrightarrow> n \<in> set xs \<Longrightarrow> walk (\<lambda>a b. b \<in> f a) n ts \<Longrightarrow> ts \<noteq> [] \<Longrightarrow> last ts \<noteq> n"
proof (induction xs rule: rev_induct)
  case (snoc x xs)
  have closed: "f a \<subseteq> set xs" if "a \<in> set xs" for a
    using snoc.prems(1) that by (simp add: topo_snoc topo_closed)
  show ?case
  proof (cases "n = x")
    case False
    with snoc show ?thesis by (simp add: topo_snoc)
  next
    case True
    from snoc.prems(4,5) obtain t ts' where ts: "ts = t # ts'" "t \<in> f x" "walk (\<lambda>a b. b \<in> f a) t ts'"
      using True by (cases ts) auto
    with snoc.prems(1) have "t \<in> set xs" by (auto simp: topo_snoc)
    moreover have "b \<in> set xs" if "b \<in> f a" "a \<in> set xs" for a b
      using closed that by blast
    ultimately have "last (t # ts') \<in> set xs"
      using walk_invariant [of "\<lambda>a b. b \<in> f a" "\<lambda>a. a \<in> set xs" t ts'] ts(3) by blast
    then have "last ts \<in> set xs" using ts(1) by simp
    with True snoc.prems(2) show ?thesis by auto
  qed
qed simp

section \<open>Lists\<close>

text \<open>Marking an unvisited node leaves fewer nodes to visit.\<close>

lemma card_visit:
  assumes "finite U" and "x \<in> U" and "x \<notin> V"
  shows "card (U - insert x V) < card (U - V)"
  using assms by (intro psubset_card_mono) auto

text \<open>The element at the first index that satisfies a test, as a \<open>for i := range\<close> search with \<open>return\<close>.\<close>

fun find_index :: "('a \<Rightarrow> bool) \<Rightarrow> 'a list \<Rightarrow> nat option" where
  "find_index p [] = None"
| "find_index p (x # xs) = (if p x then Some 0 else map_option Suc (find_index p xs))"

lemma find_index_Some: "find_index p xs = Some i \<Longrightarrow> i < length xs \<and> p (xs ! i)"
  by (induction xs arbitrary: i) (auto split: if_splits)

lemma find_index_None: "find_index p xs = None \<longleftrightarrow> (\<forall>x \<in> set xs. \<not> p x)"
  by (induction xs) auto

lemma find_index_first: "find_index p xs = Some i \<Longrightarrow> j < i \<Longrightarrow> \<not> p (xs ! j)"
  by (induction xs arbitrary: i j) (auto split: if_splits simp: nth_Cons split: nat.splits)

lemma find_cases: "find P xs = Some x \<Longrightarrow> x \<in> set xs \<and> P x"
  by (induction xs) (auto split: if_splits)

text \<open>\<open>strings.HasPrefix\<close> and \<open>strings.TrimPrefix\<close>.\<close>

definition has_prefix :: "string \<Rightarrow> string \<Rightarrow> bool" where
  "has_prefix s p = (take (length p) s = p)"

definition has_suffix :: "string \<Rightarrow> string \<Rightarrow> bool" where
  "has_suffix s p = (length p \<le> length s \<and> drop (length s - length p) s = p)"

definition trim_prefix :: "string \<Rightarrow> string \<Rightarrow> string" where
  "trim_prefix s p = (if has_prefix s p then drop (length p) s else s)"

lemma has_prefix_append [simp]: "has_prefix (p @ x) p"
  by (simp add: has_prefix_def)

lemma trim_prefix_append [simp]: "trim_prefix (p @ x) p = x"
  by (simp add: trim_prefix_def)

lemma has_prefix_iff: "has_prefix s p \<longleftrightarrow> (\<exists>x. s = p @ x)"
  by (metis append_take_drop_id has_prefix_append has_prefix_def)

end
