(* ===== verification/Status_Machine.thy ===== *)
theory Status_Machine imports Maestro_Prelude begin

text \<open>
  The status types and transition tables of \<open>internal/model/status.go\<close> and
  \<open>internal/model/worktree.go\<close>, and the interface every lifecycle of the program shares.

  A Go \<open>type Status string\<close> is a datatype with one constructor per declared constant and one for
  any other string, which a state file on disk may hold. \<open>StatusOther\<close> of the empty string is
  also the zero value that a read of an absent map key returns. Each transition table is the
  association list the source writes down.
\<close>

section \<open>Status types\<close>

datatype Status =
    StatusPending | StatusInProgress | StatusCompleted | StatusFailed | StatusCancelled
  | StatusDeadLetter
  | StatusPlanned | StatusReady | StatusDispatched | StatusRunning | StatusVerifyPending
  | StatusRepairPending | StatusPausedForReplan | StatusPausedForHuman | StatusAborted
  | StatusOther string

datatype PlanStatus =
    PlanStatusPlanning | PlanStatusSealed | PlanStatusCompleted | PlanStatusFailed
  | PlanStatusCancelled | PlanStatusOther string

datatype PhaseStatus =
    PhaseStatusPending | PhaseStatusAwaitingFill | PhaseStatusFilling | PhaseStatusActive
  | PhaseStatusCompleted | PhaseStatusFailed | PhaseStatusCancelled | PhaseStatusTimedOut
  | PhaseStatusOther string

datatype WorktreeStatus =
    WorktreeStatusCreated | WorktreeStatusActive | WorktreeStatusCommitted
  | WorktreeStatusIntegrated | WorktreeStatusPublished | WorktreeStatusCleanupDone
  | WorktreeStatusConflict | WorktreeStatusResolving | WorktreeStatusFailed
  | WorktreeStatusCleanupFailed | WorktreeStatusOther string

datatype IntegrationStatus =
    IntegrationStatusCreated | IntegrationStatusMerging | IntegrationStatusMerged
  | IntegrationStatusPublishing | IntegrationStatusPublished | IntegrationStatusConflict
  | IntegrationStatusPartialMerge | IntegrationStatusPublishFailed | IntegrationStatusFailed
  | IntegrationStatusQuarantined | IntegrationStatusOther string

datatype NotificationType =
    NotificationTypeCommandCompleted | NotificationTypeCommandFailed
  | NotificationTypeCommandCancelled | NotificationTypeContinuousPaused
  | NotificationTypeContinuousStopped | NotificationTypeContinuousStalled
  | NotificationTypeUserMessage | NotificationTypeOther string

section \<open>Terminal statuses\<close>

definition terminalStatuses :: "Status list" where
  "terminalStatuses =
     [StatusCompleted, StatusFailed, StatusCancelled, StatusDeadLetter, StatusAborted]"

definition terminalPlanStatuses :: "PlanStatus list" where
  "terminalPlanStatuses = [PlanStatusCompleted, PlanStatusFailed, PlanStatusCancelled]"

definition terminalPhaseStatuses :: "PhaseStatus list" where
  "terminalPhaseStatuses =
     [PhaseStatusCompleted, PhaseStatusFailed, PhaseStatusCancelled, PhaseStatusTimedOut]"

definition terminalWorktreeStatuses :: "WorktreeStatus list" where
  "terminalWorktreeStatuses = [WorktreeStatusCleanupDone]"

definition terminalIntegrationStatuses :: "IntegrationStatus list" where
  "terminalIntegrationStatuses = [IntegrationStatusPublished, IntegrationStatusQuarantined]"

definition validNotificationTypes :: "NotificationType list" where
  "validNotificationTypes =
     [NotificationTypeCommandCompleted, NotificationTypeCommandFailed,
      NotificationTypeCommandCancelled, NotificationTypeContinuousPaused,
      NotificationTypeContinuousStopped, NotificationTypeContinuousStalled,
      NotificationTypeUserMessage]"

definition IsTerminal :: "Status \<Rightarrow> bool" where
  "IsTerminal s = (s \<in> set terminalStatuses)"

definition IsPlanTerminal :: "PlanStatus \<Rightarrow> bool" where
  "IsPlanTerminal s = (s \<in> set terminalPlanStatuses)"

definition IsPhaseTerminal :: "PhaseStatus \<Rightarrow> bool" where
  "IsPhaseTerminal s = (s \<in> set terminalPhaseStatuses)"

definition IsWorktreeTerminal :: "WorktreeStatus \<Rightarrow> bool" where
  "IsWorktreeTerminal s = (s \<in> set terminalWorktreeStatuses)"

definition IsIntegrationTerminal :: "IntegrationStatus \<Rightarrow> bool" where
  "IsIntegrationTerminal s = (s \<in> set terminalIntegrationStatuses)"

lemmas terminal_defs =
  IsTerminal_def terminalStatuses_def IsPlanTerminal_def terminalPlanStatuses_def
  IsPhaseTerminal_def terminalPhaseStatuses_def IsWorktreeTerminal_def
  terminalWorktreeStatuses_def IsIntegrationTerminal_def terminalIntegrationStatuses_def

declare terminal_defs [table_defs]

section \<open>Transition tables\<close>

definition validCommandTaskQueueTransitions :: "(Status, Status list) gomap" where
  "validCommandTaskQueueTransitions =
     [(StatusPending, [StatusInProgress, StatusCancelled, StatusDeadLetter]),
      (StatusInProgress, [StatusPending, StatusCompleted, StatusFailed, StatusCancelled])]"

definition validNotificationQueueTransitions :: "(Status, Status list) gomap" where
  "validNotificationQueueTransitions =
     [(StatusPending, [StatusInProgress, StatusDeadLetter]),
      (StatusInProgress, [StatusPending, StatusCompleted])]"

definition validTaskStateTransitions :: "(Status, Status list) gomap" where
  "validTaskStateTransitions =
     [(StatusPending, [StatusInProgress, StatusPlanned, StatusCancelled, StatusDeadLetter]),
      (StatusInProgress, [StatusCompleted, StatusFailed, StatusCancelled, StatusVerifyPending]),
      (StatusPlanned, [StatusReady, StatusCancelled, StatusPausedForHuman, StatusAborted]),
      (StatusReady, [StatusDispatched, StatusCancelled, StatusPausedForHuman, StatusAborted]),
      (StatusDispatched, [StatusRunning, StatusCancelled, StatusPausedForHuman, StatusAborted]),
      (StatusRunning,
        [StatusVerifyPending, StatusFailed, StatusCancelled, StatusPausedForHuman, StatusAborted]),
      (StatusVerifyPending,
        [StatusCompleted, StatusRepairPending, StatusCancelled, StatusPausedForHuman,
         StatusAborted]),
      (StatusRepairPending,
        [StatusRunning, StatusCancelled, StatusPausedForReplan, StatusPausedForHuman,
         StatusAborted]),
      (StatusPausedForReplan,
        [StatusReady, StatusCancelled, StatusPausedForHuman, StatusAborted]),
      (StatusPausedForHuman, [StatusReady, StatusCancelled, StatusAborted])]"

definition validPhaseTransitions :: "(PhaseStatus, PhaseStatus list) gomap" where
  "validPhaseTransitions =
     [(PhaseStatusPending, [PhaseStatusAwaitingFill, PhaseStatusCancelled, PhaseStatusFailed]),
      (PhaseStatusAwaitingFill, [PhaseStatusFilling, PhaseStatusTimedOut, PhaseStatusFailed]),
      (PhaseStatusFilling, [PhaseStatusActive, PhaseStatusAwaitingFill, PhaseStatusFailed]),
      (PhaseStatusActive, [PhaseStatusCompleted, PhaseStatusFailed, PhaseStatusCancelled])]"

definition validWorktreeTransitions :: "(WorktreeStatus, WorktreeStatus list) gomap" where
  "validWorktreeTransitions =
     [(WorktreeStatusCreated,
        [WorktreeStatusActive, WorktreeStatusCommitted, WorktreeStatusIntegrated,
         WorktreeStatusConflict, WorktreeStatusFailed, WorktreeStatusPublished,
         WorktreeStatusCleanupDone, WorktreeStatusCleanupFailed]),
      (WorktreeStatusActive,
        [WorktreeStatusActive, WorktreeStatusCommitted, WorktreeStatusIntegrated,
         WorktreeStatusConflict, WorktreeStatusFailed, WorktreeStatusPublished,
         WorktreeStatusCleanupDone, WorktreeStatusCleanupFailed]),
      (WorktreeStatusCommitted,
        [WorktreeStatusActive, WorktreeStatusCommitted, WorktreeStatusIntegrated,
         WorktreeStatusConflict, WorktreeStatusFailed, WorktreeStatusPublished,
         WorktreeStatusCleanupDone, WorktreeStatusCleanupFailed]),
      (WorktreeStatusIntegrated,
        [WorktreeStatusActive, WorktreeStatusCommitted, WorktreeStatusPublished,
         WorktreeStatusConflict, WorktreeStatusFailed, WorktreeStatusCleanupDone,
         WorktreeStatusCleanupFailed]),
      (WorktreeStatusPublished, [WorktreeStatusCleanupDone, WorktreeStatusCleanupFailed]),
      (WorktreeStatusConflict,
        [WorktreeStatusActive, WorktreeStatusResolving, WorktreeStatusFailed,
         WorktreeStatusPublished, WorktreeStatusCleanupDone, WorktreeStatusCleanupFailed]),
      (WorktreeStatusResolving,
        [WorktreeStatusActive, WorktreeStatusIntegrated, WorktreeStatusConflict,
         WorktreeStatusFailed, WorktreeStatusCleanupDone, WorktreeStatusCleanupFailed]),
      (WorktreeStatusFailed,
        [WorktreeStatusPublished, WorktreeStatusCleanupDone, WorktreeStatusCleanupFailed]),
      (WorktreeStatusCleanupFailed, [WorktreeStatusCleanupDone])]"

definition validIntegrationTransitions :: "(IntegrationStatus, IntegrationStatus list) gomap" where
  "validIntegrationTransitions =
     [(IntegrationStatusCreated,
        [IntegrationStatusMerging, IntegrationStatusFailed, IntegrationStatusQuarantined]),
      (IntegrationStatusMerging,
        [IntegrationStatusMerged, IntegrationStatusConflict, IntegrationStatusPartialMerge,
         IntegrationStatusFailed, IntegrationStatusQuarantined]),
      (IntegrationStatusMerged,
        [IntegrationStatusMerging, IntegrationStatusPublishing, IntegrationStatusFailed,
         IntegrationStatusQuarantined]),
      (IntegrationStatusPublishing,
        [IntegrationStatusPublished, IntegrationStatusConflict, IntegrationStatusPublishFailed,
         IntegrationStatusFailed, IntegrationStatusQuarantined]),
      (IntegrationStatusPublishFailed,
        [IntegrationStatusPublishing, IntegrationStatusMerged, IntegrationStatusFailed,
         IntegrationStatusQuarantined]),
      (IntegrationStatusPartialMerge,
        [IntegrationStatusMerging, IntegrationStatusFailed, IntegrationStatusQuarantined]),
      (IntegrationStatusConflict,
        [IntegrationStatusMerging, IntegrationStatusFailed, IntegrationStatusQuarantined]),
      (IntegrationStatusFailed,
        [IntegrationStatusFailed, IntegrationStatusMerging, IntegrationStatusQuarantined])]"

declare validCommandTaskQueueTransitions_def [table_defs]
  validNotificationQueueTransitions_def [table_defs]
  validTaskStateTransitions_def [table_defs]
  validPhaseTransitions_def [table_defs]
  validWorktreeTransitions_def [table_defs]
  validIntegrationTransitions_def [table_defs]

section \<open>Validators\<close>

text \<open>The three errors every validator can return.\<close>

datatype 's TransitionError = TerminalStatus 's | UnknownStatus 's | InvalidTransition 's 's

text \<open>
  The lookup the validators end with: the row of the current status, then the flag of the target
  in that row.
\<close>

definition table_lookup :: "('s, 's list) gomap \<Rightarrow> 's \<Rightarrow> 's \<Rightarrow> 's TransitionError + unit" where
  "table_lookup tbl s t =
     (case map_of tbl s of
        None \<Rightarrow> Inl (UnknownStatus s)
      | Some allowed \<Rightarrow> if t \<notin> set allowed then Inl (InvalidTransition s t) else Inr ())"

definition ValidateCommandTaskQueueTransition ::
  "Status \<Rightarrow> Status \<Rightarrow> Status TransitionError + unit" where
  "ValidateCommandTaskQueueTransition s t =
     (if IsTerminal s then Inl (TerminalStatus s)
      else table_lookup validCommandTaskQueueTransitions s t)"

definition ValidateNotificationQueueTransition ::
  "Status \<Rightarrow> Status \<Rightarrow> Status TransitionError + unit" where
  "ValidateNotificationQueueTransition s t =
     (if IsTerminal s then Inl (TerminalStatus s)
      else table_lookup validNotificationQueueTransitions s t)"

definition ValidateTaskStateTransition ::
  "Status \<Rightarrow> Status \<Rightarrow> Status TransitionError + unit" where
  "ValidateTaskStateTransition s t =
     (if IsTerminal s then Inl (TerminalStatus s)
      else if t = StatusPausedForHuman \<or> t = StatusAborted then Inr ()
      else table_lookup validTaskStateTransitions s t)"

definition ValidatePhaseTransition ::
  "PhaseStatus \<Rightarrow> PhaseStatus \<Rightarrow> PhaseStatus TransitionError + unit" where
  "ValidatePhaseTransition s t =
     (if s = PhaseStatusFailed \<and> t = PhaseStatusActive then Inr ()
      else if s = PhaseStatusCancelled \<and> t = PhaseStatusPending then Inr ()
      else if IsPhaseTerminal s then Inl (TerminalStatus s)
      else table_lookup validPhaseTransitions s t)"

definition ValidateWorktreeTransition ::
  "WorktreeStatus \<Rightarrow> WorktreeStatus \<Rightarrow> WorktreeStatus TransitionError + unit" where
  "ValidateWorktreeTransition s t =
     (if IsWorktreeTerminal s then Inl (TerminalStatus s)
      else table_lookup validWorktreeTransitions s t)"

definition ValidateIntegrationTransition ::
  "IntegrationStatus \<Rightarrow> IntegrationStatus \<Rightarrow> IntegrationStatus TransitionError + unit" where
  "ValidateIntegrationTransition s t =
     (if IsIntegrationTerminal s then Inl (TerminalStatus s)
      else table_lookup validIntegrationTransitions s t)"

definition ValidateNotificationType :: "NotificationType \<Rightarrow> NotificationType + unit" where
  "ValidateNotificationType t = (if t \<notin> set validNotificationTypes then Inl t else Inr ())"

declare table_lookup_def [table_defs]
  ValidateCommandTaskQueueTransition_def [table_defs]
  ValidateNotificationQueueTransition_def [table_defs]
  ValidateTaskStateTransition_def [table_defs]
  ValidatePhaseTransition_def [table_defs]
  ValidateWorktreeTransition_def [table_defs]
  ValidateIntegrationTransition_def [table_defs]

section \<open>The lifecycle interface\<close>

text \<open>
  What every client of a status machine relies on: a set of final statuses that the validator
  never leaves. A run is a walk whose steps all pass the validator.
\<close>

locale lifecycle =
  fixes final :: "'s \<Rightarrow> bool"
    and validate :: "'s \<Rightarrow> 's \<Rightarrow> 's TransitionError + unit"
  assumes final_rejects: "final s \<Longrightarrow> \<not> succeeds (validate s t)"
begin

lemma final_absorbing:
  assumes "walk (\<lambda>s t. succeeds (validate s t)) s ts" and "final s"
  shows "ts = []"
  using assms by (cases ts) (auto dest: final_rejects)

lemma final_only_last:
  assumes "walk (\<lambda>s t. succeeds (validate s t)) s ts" and "i < length ts"
  shows "\<not> final ((s # ts) ! i)"
  using assms
proof (induction ts arbitrary: s i)
  case (Cons t ts)
  then show ?case
  proof (cases i)
    case 0
    with Cons.prems show ?thesis by (auto dest: final_rejects)
  next
    case (Suc j)
    with Cons show ?thesis by simp
  qed
qed simp

lemma one_final:
  assumes "walk (\<lambda>s t. succeeds (validate s t)) s ts"
    and "i \<le> length ts" "j \<le> length ts" "final ((s # ts) ! i)" "final ((s # ts) ! j)"
  shows "i = j"
  using assms final_only_last [OF assms(1)] by (metis le_neq_implies_less)

end

text \<open>
  Two lifecycles related by a refinement of statuses: every step the concrete one permits, the
  abstract one permits too, or it leaves the abstract status where it is.
\<close>

locale lifecycle_refines = abs: lifecycle final validate + conc: lifecycle final' validate'
  for final :: "'s \<Rightarrow> bool" and validate and final' :: "'s \<Rightarrow> bool" and validate' +
  assumes step_refines: "succeeds (validate' s t) \<Longrightarrow> succeeds (validate s t)"
begin

lemma run_refines:
  "walk (\<lambda>s t. succeeds (validate' s t)) s ts \<Longrightarrow> walk (\<lambda>s t. succeeds (validate s t)) s ts"
  by (rule walk_mono [where R = "\<lambda>s t. succeeds (validate' s t)"]) (rule step_refines)

end

interpretation queue_life: lifecycle IsTerminal ValidateCommandTaskQueueTransition
  by unfold_locales (simp add: ValidateCommandTaskQueueTransition_def)

interpretation ntf_life: lifecycle IsTerminal ValidateNotificationQueueTransition
  by unfold_locales (simp add: ValidateNotificationQueueTransition_def)

interpretation task_life: lifecycle IsTerminal ValidateTaskStateTransition
  by unfold_locales (simp add: ValidateTaskStateTransition_def)

interpretation worktree_life: lifecycle IsWorktreeTerminal ValidateWorktreeTransition
  by unfold_locales (simp add: ValidateWorktreeTransition_def)

interpretation integration_life: lifecycle IsIntegrationTerminal ValidateIntegrationTransition
  by unfold_locales (simp add: ValidateIntegrationTransition_def)

text \<open>A phase can leave failed and cancelled, so its final statuses are the other two.\<close>

definition phase_final :: "PhaseStatus \<Rightarrow> bool" where
  "phase_final s = (s = PhaseStatusCompleted \<or> s = PhaseStatusTimedOut)"

interpretation phase_life: lifecycle phase_final ValidatePhaseTransition
  by unfold_locales (auto simp: phase_final_def table_defs)

interpretation ntf_refines_queue:
  lifecycle_refines IsTerminal ValidateCommandTaskQueueTransition
    IsTerminal ValidateNotificationQueueTransition
proof unfold_locales
  fix s t
  show "succeeds (ValidateNotificationQueueTransition s t) \<Longrightarrow>
    succeeds (ValidateCommandTaskQueueTransition s t)"
    by (cases s) (auto simp: table_defs split: if_splits)
qed

section \<open>Properties\<close>

abbreviation task_step :: "Status \<Rightarrow> Status \<Rightarrow> bool" where
  "task_step s t \<equiv> succeeds (ValidateTaskStateTransition s t)"

abbreviation phase_step :: "PhaseStatus \<Rightarrow> PhaseStatus \<Rightarrow> bool" where
  "phase_step s t \<equiv> succeeds (ValidatePhaseTransition s t)"

lemma task_step_iff:
  "task_step s t \<longleftrightarrow> \<not> IsTerminal s \<and>
     (t = StatusPausedForHuman \<or> t = StatusAborted
      \<or> (\<exists>row. map_of validTaskStateTransitions s = Some row \<and> t \<in> set row))"
  by (auto simp: ValidateTaskStateTransition_def table_lookup_def split: option.splits)

lemma phase_step_iff:
  "phase_step s t \<longleftrightarrow>
     s = PhaseStatusFailed \<and> t = PhaseStatusActive \<or> s = PhaseStatusCancelled \<and> t = PhaseStatusPending
     \<or> \<not> IsPhaseTerminal s \<and> (\<exists>row. map_of validPhaseTransitions s = Some row \<and> t \<in> set row)"
  by (auto simp: ValidatePhaseTransition_def table_lookup_def split: option.splits)

text \<open>
  A task is finished once: in a run of valid task transitions the terminal statuses
  (completed, failed, cancelled, dead_letter, aborted) occur at one position at most, and a
  terminal status ends the run.
\<close>

theorem task_finishes_once:
  assumes "walk task_step s ts" and "i \<le> length ts" and "IsTerminal ((s # ts) ! i)"
  shows "i = length ts \<and> (\<forall>j \<le> length ts. IsTerminal ((s # ts) ! j) \<longrightarrow> j = i)"
proof -
  have "i = length ts"
    using task_life.final_only_last [OF assms(1)] assms(2,3) le_neq_implies_less by blast
  then show ?thesis
    using task_life.one_final [OF assms(1)] assms(3) by blast
qed

lemma task_finishes_once_witness:
  "let ts = [StatusInProgress, StatusVerifyPending, StatusCompleted] in
   walk task_step StatusPending ts \<and> {j. j \<le> 3 \<and> IsTerminal ((StatusPending # ts) ! j)} = {3}"
proof -
  let ?ts = "[StatusInProgress, StatusVerifyPending, StatusCompleted]"
  have w: "walk task_step StatusPending ?ts" by (simp add: table_defs)
  moreover have t: "IsTerminal ((StatusPending # ?ts) ! 3)" by (simp add: table_defs)
  ultimately show ?thesis using task_finishes_once [OF w, of 3] by auto
qed

text \<open>
  A planned task cannot be completed, by any run of valid transitions, without having been
  ready, dispatched, running and verify_pending on the way.
\<close>

theorem planned_task_is_verified:
  assumes "walk task_step StatusPlanned ts" and "StatusCompleted \<in> set ts"
  shows "{StatusReady, StatusDispatched, StatusRunning, StatusVerifyPending} \<subseteq> set ts"
proof -
  define A where "A = {StatusPlanned, StatusPausedForHuman, StatusCancelled, StatusAborted}"
  have ready: "StatusReady \<in> set ts"
  proof (rule ccontr)
    assume "StatusReady \<notin> set ts"
    then have "set ts \<subseteq> A"
      by (intro walk_avoiding [OF _ assms(1), where X = "{StatusReady}"])
        (auto simp: A_def task_step_iff terminal_defs validTaskStateTransitions_def)
    with assms(2) show False by (auto simp: A_def)
  qed
  have dispatched: "StatusDispatched \<in> set ts"
  proof (rule ccontr)
    assume "StatusDispatched \<notin> set ts"
    then have "set ts \<subseteq> insert StatusReady A"
      by (intro walk_avoiding [OF _ assms(1), where X = "{StatusDispatched}"])
        (auto simp: A_def task_step_iff terminal_defs validTaskStateTransitions_def)
    with assms(2) show False by (auto simp: A_def)
  qed
  have running: "StatusRunning \<in> set ts"
  proof (rule ccontr)
    assume "StatusRunning \<notin> set ts"
    then have "set ts \<subseteq> {StatusReady, StatusDispatched} \<union> A"
      by (intro walk_avoiding [OF _ assms(1), where X = "{StatusRunning}"])
        (auto simp: A_def task_step_iff terminal_defs validTaskStateTransitions_def)
    with assms(2) show False by (auto simp: A_def)
  qed
  have "StatusVerifyPending \<in> set ts"
  proof (rule ccontr)
    assume "StatusVerifyPending \<notin> set ts"
    then have "set ts \<subseteq> {StatusReady, StatusDispatched, StatusRunning, StatusFailed} \<union> A"
      by (intro walk_avoiding [OF _ assms(1), where X = "{StatusVerifyPending}"])
        (auto simp: A_def task_step_iff terminal_defs validTaskStateTransitions_def)
    with assms(2) show False by (auto simp: A_def)
  qed
  with ready dispatched running show ?thesis by simp
qed

lemma planned_task_is_verified_witness:
  "let ts = [StatusReady, StatusDispatched, StatusRunning, StatusVerifyPending, StatusCompleted] in
   walk task_step StatusPlanned ts \<and> StatusVerifyPending \<in> set ts"
proof -
  let ?ts = "[StatusReady, StatusDispatched, StatusRunning, StatusVerifyPending, StatusCompleted]"
  have "walk task_step StatusPlanned ?ts" by (simp add: table_defs)
  with planned_task_is_verified [OF this] show ?thesis by simp
qed

text \<open>
  The life of a phase: completed and timed_out are never left, and the only steps out of the
  other two terminal statuses are the two repairs, failed to active and cancelled to pending.
\<close>

theorem phase_leaves_terminal_only_by_repair:
  assumes "walk phase_step s ts" and "i < length ts" and "IsPhaseTerminal ((s # ts) ! i)"
  shows "(s # ts) ! i = PhaseStatusFailed \<and> ts ! i = PhaseStatusActive
    \<or> (s # ts) ! i = PhaseStatusCancelled \<and> ts ! i = PhaseStatusPending"
proof -
  have "phase_step ((s # ts) ! i) (ts ! i)"
    using assms(1,2)
  proof (induction ts arbitrary: s i)
    case (Cons t ts)
    then show ?case by (cases i) auto
  qed simp
  with assms(3) show ?thesis by (auto simp: phase_step_iff)
qed

lemma phase_leaves_terminal_only_by_repair_witness:
  "walk phase_step PhaseStatusActive [PhaseStatusFailed, PhaseStatusActive, PhaseStatusCompleted]
   \<and> PhaseStatusFailed = [PhaseStatusActive, PhaseStatusFailed, PhaseStatusActive] ! 1"
proof -
  have w: "walk phase_step PhaseStatusActive [PhaseStatusFailed, PhaseStatusActive, PhaseStatusCompleted]"
    by (simp add: table_defs)
  with phase_leaves_terminal_only_by_repair [OF w, of 1] show ?thesis by (simp add: table_defs)
qed

text \<open>
  Dead ends: no live row of the worktree or integration table is stuck. Every live status of
  a worker's worktree has a step to cleanup_done, every live status of the integration
  branch has a step to quarantined, and a terminal status has no step at all.
\<close>

theorem worktree_and_integration_can_finish:
  "(succeeds (ValidateWorktreeTransition w WorktreeStatusCleanupDone)
     \<longleftrightarrow> w \<in> fst ` set validWorktreeTransitions)
   \<and> (succeeds (ValidateIntegrationTransition g IntegrationStatusQuarantined)
     \<longleftrightarrow> g \<in> fst ` set validIntegrationTransitions)"
  by (rule conjI; (cases w; simp add: table_defs)?; (cases g; simp add: table_defs)?)

end
