(* ===== verification/Command_State.thy ===== *)
theory Command_State imports Status_Machine begin

text \<open>
  The command state of \<open>internal/model/state.go\<close> (the file \<open>state/commands/{id}.yaml\<close>) and the
  A/B candidate groups of \<open>internal/model/ab.go\<close>. The structs that Go embeds in
  \<open>CommandState\<close> become record extension, so an operation on \<open>TaskTracking\<close> applies to a whole
  command state, as the promoted methods do.
\<close>

section \<open>Records\<close>

record TaskTracking =
  ExpectedTaskCount :: int
  RequiredTaskIDs :: "string list"
  OptionalTaskIDs :: "string list"
  TaskDependencies :: "(string, string list) gomap"
  TaskStates :: "(string, Status) gomap"
  CancelledReasons :: "(string, string) gomap"
  AppliedResultIDs :: "(string, string) gomap"
  SystemCommitTaskID :: "string option"
  QueueWriteFailed :: "(string, string) gomap"
  IdempotencyKeys :: "(string, string) gomap"
  TaskStatusChangedAt :: "(string, stamp) gomap"

definition SetTaskState ::
  "string \<Rightarrow> Status \<Rightarrow> stamp \<Rightarrow> 'a TaskTracking_scheme \<Rightarrow> 'a TaskTracking_scheme" where
  "SetTaskState taskID st now t =
     t\<lparr>TaskStates := AList.update taskID st (TaskStates t),
       TaskStatusChangedAt := AList.update taskID now (TaskStatusChangedAt t)\<rparr>"

record RetryTracking = TaskTracking +
  RetryLineage :: "(string, string) gomap"
  RetryEnqueueFailed :: "(string, string) gomap"

record PhaseConstraints =
  MaxTasks :: int
  AllowedBloomLevels :: "int list"
  TimeoutMinutes :: int

record Phase =
  ph_PhaseID :: string
  ph_Name :: string
  ph_Type :: string
  ph_Status :: PhaseStatus
  ph_DependsOnPhases :: "string list"
  ph_TaskIDs :: "string list"
  ph_Constraints :: "PhaseConstraints option"
  ph_ActivatedAt :: "stamp option"
  ph_CompletedAt :: "stamp option"
  ph_FillDeadlineAt :: "stamp option"
  ph_FillingStartedAt :: "stamp option"
  ph_ReopenedAt :: "stamp option"
  ph_AwaitingFillSince :: "stamp option"
  ph_AwaitingFillStallNotifiedAt :: "stamp option"
  ph_CancelledReason :: "string option"

record PhaseTracking = RetryTracking +
  Phases :: "Phase list"
  HeavyVerifyOwners :: "(string, string) gomap"

definition PhaseIndex :: "string \<Rightarrow> 'a PhaseTracking_scheme \<Rightarrow> nat option" where
  "PhaseIndex phaseID pt = find_index (\<lambda>p. ph_PhaseID p = phaseID) (Phases pt)"

record CompletionPolicy =
  cp_Mode :: string
  AllowDynamicTasks :: bool
  OnRequiredFailed :: string
  OnRequiredCancelled :: string
  OnOptionalFailed :: string
  DependencyFailurePolicy :: string

record CancelState =
  cn_Requested :: bool
  cn_RequestedAt :: "stamp option"
  cn_RequestedBy :: "string option"
  cn_Reason :: "string option"

record CircuitBreakerState =
  ConsecutiveFailures :: int
  LastProgressAt :: "stamp option"
  Tripped :: bool
  TrippedAt :: "stamp option"
  TripReason :: "string option"
  HalfOpen :: bool
  HalfOpenAt :: "stamp option"
  HalfOpenProbeActive :: bool

datatype ABGroupStatus =
  ABGroupRacing | ABGroupSelecting | ABGroupResolved | ABGroupDegraded | ABGroupOther string

record ABCandidate =
  cd_TaskID :: string
  cd_WorkerID :: string
  cd_Model :: string
  cd_BloomLevel :: int
  cd_Branch :: string

record CandidateGroup =
  cg_Status :: ABGroupStatus
  CanonicalTaskID :: string
  WinnerTaskID :: string
  PendingWinnerTaskID :: string
  Candidates :: "ABCandidate list"
  SelectionEvidence :: "(string, string) gomap"
  cg_CreatedAt :: stamp
  cg_UpdatedAt :: stamp

record CommandState = PhaseTracking +
  SchemaVersion :: int
  FileType :: string
  cs_CommandID :: string
  PlanVersion :: int
  cs_PlanStatus :: PlanStatus
  Policy :: CompletionPolicy
  Cancel :: CancelState
  CircuitBreaker :: CircuitBreakerState
  CandidateGroups :: "(string, CandidateGroup option) gomap"
  LastReconciledAt :: "stamp option"
  cs_CreatedAt :: stamp
  cs_UpdatedAt :: stamp

section \<open>Phase constraints and cascade markers\<close>

datatype ConstraintError = BadMaxTasks int | BadTimeoutMinutes int

definition ValidateConstraints :: "PhaseConstraints \<Rightarrow> ConstraintError list" where
  "ValidateConstraints pc =
     (if MaxTasks pc \<le> 0 then [BadMaxTasks (MaxTasks pc)] else [])
     @ (if TimeoutMinutes pc \<le> 0 then [BadTimeoutMinutes (TimeoutMinutes pc)] else [])"

definition DependencyCascadeCancelPrefix :: string where
  "DependencyCascadeCancelPrefix = ''dependency_phase_cascaded:''"

definition NewDependencyCascadeCancelReason :: "string \<Rightarrow> string" where
  "NewDependencyCascadeCancelReason depID = DependencyCascadeCancelPrefix @ depID"

definition DependencyCascadeDepID :: "string option \<Rightarrow> string option" where
  "DependencyCascadeDepID reason =
     (case reason of
        None \<Rightarrow> None
      | Some r \<Rightarrow>
          if r = [] then None
          else if length r \<le> length DependencyCascadeCancelPrefix then None
          else if take (length DependencyCascadeCancelPrefix) r \<noteq> DependencyCascadeCancelPrefix
          then None
          else Some (drop (length DependencyCascadeCancelPrefix) r))"

text \<open>The marker is read back as the phase it was written for; the empty id is lost.\<close>

lemma cascade_marker_roundtrip:
  "DependencyCascadeDepID (Some (NewDependencyCascadeCancelReason d)) = (if d = [] then None else Some d)"
  by (auto simp: DependencyCascadeDepID_def NewDependencyCascadeCancelReason_def
      DependencyCascadeCancelPrefix_def)

lemma cascade_marker_only:
  "DependencyCascadeDepID (Some r) = Some d \<longleftrightarrow> d \<noteq> [] \<and> r = NewDependencyCascadeCancelReason d"
proof -
  let ?p = DependencyCascadeCancelPrefix
  have "r = take (length ?p) r @ drop (length ?p) r" by simp
  then show ?thesis
    by (auto simp: DependencyCascadeDepID_def NewDependencyCascadeCancelReason_def
        split: if_splits simp del: append_take_drop_id)
qed

section \<open>A/B candidate groups\<close>

definition IsUnresolved :: "ABGroupStatus \<Rightarrow> bool" where
  "IsUnresolved s = (s = ABGroupRacing \<or> s = ABGroupSelecting)"

definition CandidateByTask :: "CandidateGroup option \<Rightarrow> string \<Rightarrow> ABCandidate option" where
  "CandidateByTask g taskID =
     (case g of None \<Rightarrow> None | Some gr \<Rightarrow> find (\<lambda>c. cd_TaskID c = taskID) (Candidates gr))"

definition OtherCandidate :: "CandidateGroup option \<Rightarrow> string \<Rightarrow> ABCandidate option" where
  "OtherCandidate g taskID =
     (case g of None \<Rightarrow> None | Some gr \<Rightarrow> find (\<lambda>c. cd_TaskID c \<noteq> taskID) (Candidates gr))"

definition FindCandidateGroupByTask ::
  "CommandState \<Rightarrow> string \<Rightarrow> (string \<times> CandidateGroup option) option" where
  "FindCandidateGroupByTask cs taskID =
     find (\<lambda>(gid, g). CandidateByTask g taskID \<noteq> None) (CandidateGroups cs)"

definition ABBarrierActive :: "CommandState \<Rightarrow> string \<Rightarrow> bool" where
  "ABBarrierActive cs taskID =
     (case FindCandidateGroupByTask cs taskID of
        Some (gid, Some g) \<Rightarrow> IsUnresolved (cg_Status g)
      | _ \<Rightarrow> False)"

lemma CandidateByTask_None [simp]: "CandidateByTask None taskID = None"
  by (simp add: CandidateByTask_def)

lemma ABBarrierActive_no_groups [simp]: "CandidateGroups cs = [] \<Longrightarrow> \<not> ABBarrierActive cs taskID"
  by (simp add: ABBarrierActive_def FindCandidateGroupByTask_def)

lemma ABBarrierActiveD:
  assumes "ABBarrierActive cs taskID"
  shows "\<exists>gid g. (gid, Some g) \<in> set (CandidateGroups cs) \<and> IsUnresolved (cg_Status g)
    \<and> taskID \<in> cd_TaskID ` set (Candidates g)"
proof -
  from assms obtain gid g where f: "FindCandidateGroupByTask cs taskID = Some (gid, Some g)"
    and u: "IsUnresolved (cg_Status g)"
    by (auto simp: ABBarrierActive_def split: option.splits)
  from f have "(gid, Some g) \<in> set (CandidateGroups cs)" "CandidateByTask (Some g) taskID \<noteq> None"
    by (auto simp: FindCandidateGroupByTask_def dest: find_cases)
  moreover from this(2) have "taskID \<in> cd_TaskID ` set (Candidates g)"
    by (auto simp: CandidateByTask_def dest!: find_cases)
  ultimately show ?thesis using u by blast
qed

section \<open>Reading a task's status\<close>

text \<open>\<open>state.TaskStates[id]\<close> without the presence flag: the empty status when absent.\<close>

abbreviation StatusZero :: Status where
  "StatusZero \<equiv> StatusOther []"

definition task_status :: "'a TaskTracking_scheme \<Rightarrow> string \<Rightarrow> Status" where
  "task_status t taskID = zget StatusZero (TaskStates t) taskID"

lemma SetTaskState_simps [simp]:
  "TaskStates (SetTaskState i s n t) = AList.update i s (TaskStates t)"
  "TaskStatusChangedAt (SetTaskState i s n t) = AList.update i n (TaskStatusChangedAt t)"
  "RequiredTaskIDs (SetTaskState i s n t) = RequiredTaskIDs t"
  "OptionalTaskIDs (SetTaskState i s n t) = OptionalTaskIDs t"
  "ExpectedTaskCount (SetTaskState i s n t) = ExpectedTaskCount t"
  "TaskDependencies (SetTaskState i s n t) = TaskDependencies t"
  "CancelledReasons (SetTaskState i s n t) = CancelledReasons t"
  "AppliedResultIDs (SetTaskState i s n t) = AppliedResultIDs t"
  "SystemCommitTaskID (SetTaskState i s n t) = SystemCommitTaskID t"
  by (simp_all add: SetTaskState_def)

lemma SetTaskState_command [simp]:
  "RetryLineage (SetTaskState i s n c) = RetryLineage c"
  "Phases (SetTaskState i s n c) = Phases c"
  "CandidateGroups (SetTaskState i s n c) = CandidateGroups c"
  "cs_PlanStatus (SetTaskState i s n c) = cs_PlanStatus c"
  "CircuitBreaker (SetTaskState i s n c) = CircuitBreaker c"
  "Cancel (SetTaskState i s n c) = Cancel c"
  "Policy (SetTaskState i s n c) = Policy c"
  "cs_CommandID (SetTaskState i s n c) = cs_CommandID c"
  for c :: CommandState
  by (simp_all add: SetTaskState_def)

lemma task_status_Set [simp]:
  "task_status (SetTaskState i s n t) j = (if j = i then s else task_status t j)"
  by (simp add: task_status_def)

lemma StatusZero_not_terminal [simp]: "\<not> IsTerminal StatusZero"
  by (simp add: terminal_defs)

section \<open>An empty state\<close>

definition zero_Phase :: "string \<Rightarrow> PhaseStatus \<Rightarrow> string list \<Rightarrow> Phase" where
  "zero_Phase i s ids =
     \<lparr>ph_PhaseID = i, ph_Name = i, ph_Type = [], ph_Status = s, ph_DependsOnPhases = [], ph_TaskIDs = ids,
      ph_Constraints = None, ph_ActivatedAt = None, ph_CompletedAt = None, ph_FillDeadlineAt = None,
      ph_FillingStartedAt = None, ph_ReopenedAt = None, ph_AwaitingFillSince = None,
      ph_AwaitingFillStallNotifiedAt = None, ph_CancelledReason = None\<rparr>"

definition zero_CommandState :: "string \<Rightarrow> PlanStatus \<Rightarrow> CommandState" where
  "zero_CommandState i s =
     \<lparr>ExpectedTaskCount = 0, RequiredTaskIDs = [], OptionalTaskIDs = [], TaskDependencies = [],
      TaskStates = [], CancelledReasons = [], AppliedResultIDs = [], SystemCommitTaskID = None,
      QueueWriteFailed = [], IdempotencyKeys = [], TaskStatusChangedAt = [],
      RetryLineage = [], RetryEnqueueFailed = [], Phases = [], HeavyVerifyOwners = [],
      SchemaVersion = 1, FileType = ''state_command'', cs_CommandID = i, PlanVersion = 0, cs_PlanStatus = s,
      Policy = \<lparr>cp_Mode = [], AllowDynamicTasks = False, OnRequiredFailed = [], OnRequiredCancelled = [],
        OnOptionalFailed = [], DependencyFailurePolicy = []\<rparr>,
      Cancel = \<lparr>cn_Requested = False, cn_RequestedAt = None, cn_RequestedBy = None, cn_Reason = None\<rparr>,
      CircuitBreaker = \<lparr>ConsecutiveFailures = 0, LastProgressAt = None, Tripped = False, TrippedAt = None,
        TripReason = None, HalfOpen = False, HalfOpenAt = None, HalfOpenProbeActive = False\<rparr>,
      CandidateGroups = [], LastReconciledAt = None, cs_CreatedAt = BadStamp [], cs_UpdatedAt = BadStamp []\<rparr>"

end
