(* ===== verification/Task_Advance.thy ===== *)
theory Task_Advance imports Command_State begin

text \<open>
  \<open>AdvanceTaskState\<close> and the breadth-first search behind it (\<open>internal/model/state_advance.go\<close>).
  The search ranges over a Go map, so it takes the table as an argument: every association list
  of the same rows in any order is one run of the program.
\<close>

section \<open>The search\<close>

text \<open>
  One visit of a node's neighbours. \<open>Inl\<close> is the path returned from inside the loop; \<open>Inr\<close> is
  the visited set and the nodes appended to the queue.
\<close>

fun bfs_scan ::
  "Status \<Rightarrow> Status list \<Rightarrow> Status list \<Rightarrow> Status list \<Rightarrow>
   Status list + (Status list \<times> (Status \<times> Status list) list)" where
  "bfs_scan target path visited [] = Inr (visited, [])"
| "bfs_scan target path visited (next # rest) =
     (if next \<in> set visited then bfs_scan target path visited rest
      else if next = StatusPausedForHuman \<and> target \<noteq> StatusPausedForHuman
      then bfs_scan target path visited rest
      else if next = StatusAborted \<and> target \<noteq> StatusAborted then bfs_scan target path visited rest
      else if next = target then Inl (path @ [next])
      else if IsTerminal next then bfs_scan target path visited rest
      else (case bfs_scan target path (next # visited) rest of
              Inl p \<Rightarrow> Inl p
            | Inr (v, q) \<Rightarrow> Inr (v, (next, path @ [next]) # q)))"

definition table_range :: "(Status, Status list) gomap \<Rightarrow> Status set" where
  "table_range tbl = (\<Union>row \<in> set (map snd tbl). set row)"

lemma finite_table_range [simp]: "finite (table_range tbl)"
  by (simp add: table_range_def)

text \<open>The nodes the search may enter: the target, and anything neither terminal nor a universal exit.\<close>

definition hop_ok :: "Status \<Rightarrow> Status \<Rightarrow> bool" where
  "hop_ok target n =
     (n = target \<or> n \<noteq> StatusPausedForHuman \<and> n \<noteq> StatusAborted \<and> \<not> IsTerminal n)"

lemma bfs_scan_skip:
  "n \<in> set visited \<or> \<not> hop_ok target n \<Longrightarrow>
   bfs_scan target path visited (n # rest) = bfs_scan target path visited rest"
  by (auto simp: hop_ok_def)

lemma bfs_scan_hit:
  "target \<notin> set visited \<Longrightarrow> bfs_scan target path visited (target # rest) = Inl (path @ [target])"
  by simp

lemma bfs_scan_push:
  "n \<notin> set visited \<Longrightarrow> hop_ok target n \<Longrightarrow> n \<noteq> target \<Longrightarrow>
   bfs_scan target path visited (n # rest) =
     (case bfs_scan target path (n # visited) rest of
        Inl p \<Rightarrow> Inl p
      | Inr (v, q) \<Rightarrow> Inr (v, (n, path @ [n]) # q))"
  by (auto simp: hop_ok_def)

lemma bfs_scan_found:
  "bfs_scan target path visited nexts = Inl p \<Longrightarrow>
   p = path @ [target] \<and> target \<in> set nexts \<and> target \<notin> set visited"
proof (induction nexts arbitrary: visited)
  case (Cons n rest)
  consider "n \<in> set visited \<or> \<not> hop_ok target n" | "n \<notin> set visited" "n = target"
    | "n \<notin> set visited" "hop_ok target n" "n \<noteq> target" by blast
  then show ?case
  proof cases
    case 1 with Cons show ?thesis by (simp add: bfs_scan_skip del: bfs_scan.simps)
  next
    case 2 with Cons.prems show ?thesis by simp
  next
    case 3
    with Cons.prems have "bfs_scan target path (n # visited) rest = Inl p"
      by (auto simp: bfs_scan_push simp del: bfs_scan.simps split: sum.splits)
    from Cons.IH [OF this] show ?thesis by simp
  qed
qed simp

lemma bfs_scan_result:
  "bfs_scan target path visited nexts = Inr (v, q) \<Longrightarrow>
   set v = set visited \<union> fst ` set q \<and> distinct (map fst q)
   \<and> fst ` set q = {n \<in> set nexts. n \<notin> set visited \<and> hop_ok target n}
   \<and> target \<notin> fst ` set q
   \<and> (\<forall>(n, p) \<in> set q. p = path @ [n])"
proof (induction nexts arbitrary: visited q)
  case (Cons n rest)
  consider "n \<in> set visited \<or> \<not> hop_ok target n" | "n \<notin> set visited" "n = target"
    | "n \<notin> set visited" "hop_ok target n" "n \<noteq> target" by blast
  then show ?case
  proof cases
    case 1
    with Cons.prems have "bfs_scan target path visited rest = Inr (v, q)"
      by (simp add: bfs_scan_skip del: bfs_scan.simps)
    from Cons.IH [OF this] 1 show ?thesis by auto
  next
    case 2 with Cons.prems show ?thesis by simp
  next
    case 3
    with Cons.prems obtain q' where r: "bfs_scan target path (n # visited) rest = Inr (v, q')"
      and q: "q = (n, path @ [n]) # q'"
      by (auto simp: bfs_scan_push simp del: bfs_scan.simps split: sum.splits)
    from Cons.IH [OF r] q 3 show ?thesis by auto
  qed
qed simp

lemma bfs_scan_added:
  assumes "bfs_scan target path visited nexts = Inr (v, q)"
  shows "(n, p) \<in> set q \<longleftrightarrow> p = path @ [n] \<and> n \<in> set nexts \<and> n \<notin> set visited \<and> hop_ok target n"
proof -
  from bfs_scan_result [OF assms] have q: "fst ` set q = {n \<in> set nexts. n \<notin> set visited \<and> hop_ok target n}"
    and p: "\<And>n p. (n, p) \<in> set q \<Longrightarrow> p = path @ [n]" by auto
  show ?thesis
  proof
    assume "(n, p) \<in> set q"
    moreover from this have "n \<in> fst ` set q" by force
    ultimately show "p = path @ [n] \<and> n \<in> set nexts \<and> n \<notin> set visited \<and> hop_ok target n"
      using q p by simp
  next
    assume r: "p = path @ [n] \<and> n \<in> set nexts \<and> n \<notin> set visited \<and> hop_ok target n"
    then have "n \<in> fst ` set q" using q by simp
    then obtain p' where "(n, p') \<in> set q" by auto
    with p r show "(n, p) \<in> set q" by simp
  qed
qed

lemma bfs_scan_visited:
  assumes "bfs_scan target path visited nexts = Inr (v, q)"
  shows "n \<in> set v \<longleftrightarrow> n \<in> set visited \<or> n \<in> set nexts \<and> hop_ok target n"
proof -
  from bfs_scan_result [OF assms] have "set v = set visited \<union> fst ` set q"
    and "fst ` set q = {n \<in> set nexts. n \<notin> set visited \<and> hop_ok target n}" by simp_all
  then show ?thesis by auto
qed

lemma bfs_scan_missed:
  assumes "bfs_scan target path visited nexts = Inr (v, q)" and "target \<notin> set visited"
  shows "target \<notin> set nexts"
  using bfs_scan_result [OF assms(1)] assms(2) by (auto simp: hop_ok_def)

lemma bfs_scan_shrinks:
  assumes "bfs_scan target path visited row = Inr (v, q)" and "set row \<subseteq> U" and "finite U"
  shows "card (U - set v) + length q = card (U - set visited)"
proof -
  note res = bfs_scan_result [OF assms(1)]
  have "U - set v = (U - set visited) - fst ` set q"
    using res by blast
  moreover have "fst ` set q \<subseteq> U - set visited"
    using res assms(2) by auto
  moreover have "card (fst ` set q) = length q"
    using distinct_card [of "map fst q"] res by simp
  ultimately show ?thesis
    using assms(3) by (metis card_Diff_subset card_mono finite_Diff finite_subset le_add_diff_inverse2)
qed

function bfs_loop ::
  "(Status, Status list) gomap \<Rightarrow> Status \<Rightarrow> Status list \<Rightarrow> (Status \<times> Status list) list \<Rightarrow>
   Status list option" where
  "bfs_loop tbl target visited [] = None"
| "bfs_loop tbl target visited ((s, path) # queue) =
     (case map_of tbl s of
        None \<Rightarrow> bfs_loop tbl target visited queue
      | Some neighbors \<Rightarrow>
          (case bfs_scan target path visited neighbors of
             Inl p \<Rightarrow> Some p
           | Inr (visited', added) \<Rightarrow> bfs_loop tbl target visited' (queue @ added)))"
  by pat_completeness auto
termination
proof (relation "measure (\<lambda>(tbl, target, visited, queue).
    card (table_range tbl - set visited) + length queue)")
  fix tbl :: "(Status, Status list) gomap" and target visited s path queue neighbors r v' added
  assume row: "map_of tbl s = Some neighbors"
    and r: "bfs_scan target path visited neighbors = Inr r" "(v', added) = r"
  have "set neighbors \<subseteq> table_range tbl"
    using row by (force simp: table_range_def dest: map_of_SomeD)
  with r show "((tbl, target, v', queue @ added), tbl, target, visited, (s, path) # queue)
      \<in> measure (\<lambda>(tbl, target, visited, queue). card (table_range tbl - set visited) + length queue)"
    using bfs_scan_shrinks [of target path visited neighbors v' added "table_range tbl"] by auto
qed auto

definition shortestTaskStatePath ::
  "(Status, Status list) gomap \<Rightarrow> Status \<Rightarrow> Status \<Rightarrow> Status list option" where
  "shortestTaskStatePath tbl source target = bfs_loop tbl target [source] [(source, [])]"

section \<open>The search finds a shortest path\<close>

text \<open>The graph searched: the rows of the table, entering only the nodes \<open>hop_ok\<close> allows.\<close>

definition hop :: "(Status, Status list) gomap \<Rightarrow> Status \<Rightarrow> Status \<Rightarrow> Status \<Rightarrow> bool" where
  "hop tbl target s n =
     (case map_of tbl s of None \<Rightarrow> False | Some row \<Rightarrow> n \<in> set row \<and> hop_ok target n)"

text \<open>
  The loop invariant. The queue holds walks from the source in the order of their lengths, which
  differ by at most one; and every walk to the target can still be finished from the queue: some
  queued node continues to the target over unvisited nodes, in no more steps than the walk has.
\<close>

definition reaches :: "(Status, Status list) gomap \<Rightarrow> Status \<Rightarrow> Status \<Rightarrow> Status list \<Rightarrow> bool" where
  "reaches tbl target s p = (walk (hop tbl target) s p \<and> last (s # p) = target)"

definition queue_ok ::
  "(Status, Status list) gomap \<Rightarrow> Status \<Rightarrow> Status \<Rightarrow> Status list \<Rightarrow> (Status \<times> Status list) list \<Rightarrow> bool" where
  "queue_ok tbl source target visited queue =
     (target \<notin> set visited
      \<and> (\<forall>(s, q) \<in> set queue. s \<in> set visited \<and> walk (hop tbl target) source q \<and> last (source # q) = s)
      \<and> sorted (map (length \<circ> snd) queue)
      \<and> (queue \<noteq> [] \<longrightarrow> (\<forall>(s, q) \<in> set queue. length q \<le> Suc (length (snd (hd queue))))))"

definition open_to ::
  "(Status, Status list) gomap \<Rightarrow> Status \<Rightarrow> Status list \<Rightarrow> (Status \<times> Status list) list \<Rightarrow> nat \<Rightarrow> bool" where
  "open_to tbl target visited queue n =
     (\<exists>(s, q) \<in> set queue. \<exists>r. reaches tbl target s r \<and> set r \<inter> set visited = {} \<and> length q + length r \<le> n)"

lemma queue_okI:
  assumes "target \<notin> set visited"
    and "\<And>s q. (s, q) \<in> set queue \<Longrightarrow> s \<in> set visited \<and> walk (hop tbl target) source q \<and> last (source # q) = s"
    and "sorted (map (length \<circ> snd) queue)"
    and "\<And>s q s' q'. (s, q) \<in> set queue \<Longrightarrow> (s', q') \<in> set queue \<Longrightarrow> length q \<le> Suc (length q')"
  shows "queue_ok tbl source target visited queue"
  unfolding queue_ok_def
proof (intro conjI impI ballI)
  fix x assume "queue \<noteq> []" "x \<in> set queue"
  then show "case x of (s, q) \<Rightarrow> length q \<le> Suc (length (snd (hd queue)))"
    using assms(4) [of "fst x" "snd x" "fst (hd queue)" "snd (hd queue)"] by (simp add: split_beta)
next
  fix x assume "x \<in> set queue"
  then show "case x of (s, q) \<Rightarrow>
      s \<in> set visited \<and> walk (hop tbl target) source q \<and> last (source # q) = s"
    using assms(2) [of "fst x" "snd x"] by (simp add: split_beta)
qed (rule assms)+

lemma reaches_suffix:
  assumes "reaches tbl target s (r1 @ y # r2)"
  shows "reaches tbl target y r2"
  using assms by (auto simp: reaches_def walk_append)

text \<open>A list that meets a set splits at its last element in the set.\<close>

lemma split_at_last:
  assumes "set r \<inter> A \<noteq> {}"
  obtains r1 y r2 where "r = r1 @ y # r2" "y \<in> A" "set r2 \<inter> A = {}"
  using assms split_list_last_prop [of r "\<lambda>x. x \<in> A"] by blast

lemma open_to_step:
  assumes ok: "queue_ok tbl source target visited ((s, q) # queue)"
    and row: "map_of tbl s = Some nexts"
    and scan: "bfs_scan target q visited nexts = Inr (visited', added)"
    and op: "open_to tbl target visited ((s, q) # queue) n"
  shows "open_to tbl target visited' (queue @ added) n"
proof -
  let ?new = "{y \<in> set nexts. y \<notin> set visited \<and> hop_ok target y}"
  have vis: "set visited' = set visited \<union> ?new"
    using bfs_scan_visited [OF scan] by blast
  from op obtain s' q' r where el: "(s', q') \<in> set ((s, q) # queue)" and r: "reaches tbl target s' r"
    and fresh: "set r \<inter> set visited = {}" and len: "length q' + length r \<le> n"
    by (auto simp: open_to_def)
  show ?thesis
  proof (cases "set r \<inter> ?new = {}")
    case False
    then obtain r1 y r2 where split: "r = r1 @ y # r2" "y \<in> ?new" "set r2 \<inter> ?new = {}"
      by (rule split_at_last)
    have "length q \<le> length q'"
      using ok el by (auto simp: queue_ok_def)
    then have "length (q @ [y]) + length r2 \<le> n" using len split(1) by simp
    moreover have "(y, q @ [y]) \<in> set (queue @ added)"
      using split(2) by (simp add: bfs_scan_added [OF scan])
    moreover have "reaches tbl target y r2" using r split(1) reaches_suffix by blast
    moreover have "set r2 \<inter> set visited' = {}" using vis split(1,3) fresh by auto
    ultimately show ?thesis unfolding open_to_def by blast
  next
    case True
    have "(s', q') \<noteq> (s, q)"
    proof
      assume "(s', q') = (s, q)"
      moreover have "target \<noteq> s" using ok by (auto simp: queue_ok_def)
      ultimately obtain x r' where "r = x # r'" using r by (cases r) (auto simp: reaches_def)
      moreover from this \<open>(s', q') = (s, q)\<close> r row have "x \<in> set nexts" "hop_ok target x"
        by (auto simp: reaches_def hop_def)
      ultimately show False using True fresh by auto
    qed
    with el have "(s', q') \<in> set (queue @ added)" by auto
    moreover have "set r \<inter> set visited' = {}" using True fresh vis by auto
    ultimately show ?thesis unfolding open_to_def using r len by blast
  qed
qed

lemma sorted_const: "(\<And>x. x \<in> set xs \<Longrightarrow> f x = (c::nat)) \<Longrightarrow> sorted (map f xs)"
  by (induction xs) auto

lemma queue_ok_step:
  assumes ok: "queue_ok tbl source target visited ((s, q) # queue)"
    and row: "map_of tbl s = Some nexts"
    and scan: "bfs_scan target q visited nexts = Inr (visited', added)"
  shows "queue_ok tbl source target visited' (queue @ added)"
proof -
  have tgt: "target \<notin> set visited" and srt: "sorted (map (length \<circ> snd) queue)"
    and w: "walk (hop tbl target) source q" "last (source # q) = s"
    using ok by (auto simp: queue_ok_def)
  have oldw: "z \<in> set visited' \<and> walk (hop tbl target) source p \<and> last (source # p) = z"
    and oldl: "length q \<le> length p \<and> length p \<le> Suc (length q)" if "(z, p) \<in> set queue" for z p
    using ok that by (auto simp: queue_ok_def bfs_scan_visited [OF scan])
  have neww: "z \<in> set visited' \<and> walk (hop tbl target) source p \<and> last (source # p) = z"
    and newl: "length p = Suc (length q)" if "(z, p) \<in> set added" for z p
    using that w row by (auto simp: bfs_scan_added [OF scan] bfs_scan_visited [OF scan] walk_snoc hop_def)
  have len: "length q \<le> length p \<and> length p \<le> Suc (length q)" if "(z, p) \<in> set (queue @ added)" for z p
    using that oldl [of z p] newl [of z p] by auto
  show ?thesis
  proof (rule queue_okI)
    show "target \<notin> set visited'"
      using tgt bfs_scan_missed [OF scan tgt] by (simp add: bfs_scan_visited [OF scan])
    show "z \<in> set visited' \<and> walk (hop tbl target) source p \<and> last (source # p) = z"
      if "(z, p) \<in> set (queue @ added)" for z p
      using that oldw [of z p] neww [of z p] by (cases "(z, p) \<in> set queue") simp_all
    show "length p \<le> Suc (length p')"
      if "(z, p) \<in> set (queue @ added)" "(z', p') \<in> set (queue @ added)" for z p z' p'
      using len [OF that(1)] len [OF that(2)] by simp
    have "sorted (map (length \<circ> snd) added)"
      by (rule sorted_const [where c = "Suc (length q)"]) (auto dest: newl)
    then show "sorted (map (length \<circ> snd) (queue @ added))"
      using srt by (auto simp: sorted_append newl dest: oldl)
  qed
qed

text \<open>The loop started from an invariant state returns a walk no longer than any other.\<close>

lemma reaches_from_queue:
  assumes "queue_ok tbl source target visited queue" and "open_to tbl target visited queue n"
  shows "queue \<noteq> [] \<and> length (snd (hd queue)) < n"
proof -
  from assms(2) obtain s q r where el: "(s, q) \<in> set queue" and r: "reaches tbl target s r" "length q + length r \<le> n"
    by (auto simp: open_to_def)
  have "s \<noteq> target" using el assms(1) by (auto simp: queue_ok_def)
  then have "0 < length r" using r(1) by (cases r) (auto simp: reaches_def)
  moreover have "length (snd (hd queue)) \<le> length q"
    using el assms(1) by (cases queue) (auto simp: queue_ok_def)
  moreover have "queue \<noteq> []" using el by auto
  ultimately show ?thesis using r(2) by linarith
qed

lemma bfs_loop_spec:
  "queue_ok tbl source target visited queue \<Longrightarrow>
   (\<forall>p. bfs_loop tbl target visited queue = Some p \<longrightarrow> reaches tbl target source p
      \<and> (\<forall>n. open_to tbl target visited queue n \<longrightarrow> length p \<le> n))
   \<and> (bfs_loop tbl target visited queue = None \<longrightarrow> (\<forall>n. \<not> open_to tbl target visited queue n))"
proof (induction tbl target visited queue rule: bfs_loop.induct)
  case (1 tbl target visited)
  then show ?case by (simp add: open_to_def)
next
  case (2 tbl target visited s q queue)
  note ok = "2.prems"
  show ?case
  proof (cases "map_of tbl s")
    case None
    have "open_to tbl target visited queue n" if "open_to tbl target visited ((s, q) # queue) n" for n
    proof -
      have "target \<noteq> s" using ok by (auto simp: queue_ok_def)
      then have "\<not> reaches tbl target s r" for r
        using None by (cases r) (auto simp: reaches_def hop_def)
      with that show ?thesis by (fastforce simp: open_to_def)
    qed
    moreover have "queue_ok tbl source target visited queue"
      by (rule queue_okI) (use ok in \<open>fastforce simp: queue_ok_def\<close>)+
    ultimately show ?thesis using "2.IH"(1) [OF None] None by auto
  next
    case (Some nexts)
    show ?thesis
    proof (cases "bfs_scan target q visited nexts")
      case (Inl p)
      from bfs_scan_found [OF this] have p: "p = q @ [target]" and t: "target \<in> set nexts" by auto
      have "reaches tbl target source p"
        using ok Some t p by (auto simp: reaches_def queue_ok_def walk_snoc hop_def hop_ok_def)
      then show ?thesis
        using Some Inl p reaches_from_queue [OF ok] by fastforce
    next
      case (Inr va)
      obtain visited' added where va: "va = (visited', added)" by fastforce
      note scan = Inr [unfolded va]
      note IH = "2.IH"(2) [OF Some Inr va [symmetric] queue_ok_step [OF ok Some scan]]
      show ?thesis
        using IH open_to_step [OF ok Some scan] Some scan by auto
    qed
  qed
qed

lemma shortestTaskStatePath_spec:
  assumes "source \<noteq> target"
  shows "shortestTaskStatePath tbl source target = Some p \<Longrightarrow>
      reaches tbl target source p \<and> (\<forall>p'. reaches tbl target source p' \<longrightarrow> length p \<le> length p')"
    and "shortestTaskStatePath tbl source target = None \<Longrightarrow> \<not> reaches tbl target source p'"
proof -
  have ok: "queue_ok tbl source target [source] [(source, [])]"
    by (rule queue_okI) (use assms in auto)
  have op: "\<exists>n \<le> length p. open_to tbl target [source] [(source, [])] n" if "reaches tbl target source p" for p
  proof (cases "source \<in> set p")
    case False
    with that show ?thesis by (auto simp: open_to_def)
  next
    case True
    then obtain r1 r2 where "p = r1 @ source # r2" "source \<notin> set r2"
      by (metis split_list_last)
    with that show ?thesis
      using reaches_suffix [of tbl target source r1 source r2] by (fastforce simp: open_to_def)
  qed
  show "shortestTaskStatePath tbl source target = Some p \<Longrightarrow>
      reaches tbl target source p \<and> (\<forall>p'. reaches tbl target source p' \<longrightarrow> length p \<le> length p')"
    using bfs_loop_spec [OF ok] op unfolding shortestTaskStatePath_def by (meson le_trans)
  show "shortestTaskStatePath tbl source target = None \<Longrightarrow> \<not> reaches tbl target source p'"
    using bfs_loop_spec [OF ok] op unfolding shortestTaskStatePath_def by blast
qed

section \<open>Advancing a task\<close>

datatype AdvanceError =
    NotRegistered string
  | AlreadyTerminal string Status Status
  | NoValidPath Status Status
  | ApplyFailed Status Status "Status TransitionError"

text \<open>The loop over the path: each step is validated again and then applied.\<close>

fun apply_path ::
  "string \<Rightarrow> stamp \<Rightarrow> Status list \<Rightarrow> 'a TaskTracking_scheme \<Rightarrow>
   AdvanceError option \<times> 'a TaskTracking_scheme" where
  "apply_path taskID now [] t = (None, t)"
| "apply_path taskID now (next # path) t =
     (case ValidateTaskStateTransition (task_status t taskID) next of
        Inl e \<Rightarrow> (Some (ApplyFailed (task_status t taskID) next e), t)
      | Inr _ \<Rightarrow> apply_path taskID now path (SetTaskState taskID next now t))"

text \<open>
  The tracking struct is mutated in place, so the result is the error (None for nil) together
  with the struct as the call leaves it. A nil map of states has no entry for the task either, so
  both of the first two errors of the source are \<open>NotRegistered\<close>.
\<close>

definition AdvanceTaskState ::
  "(Status, Status list) gomap \<Rightarrow> 'a TaskTracking_scheme \<Rightarrow> string \<Rightarrow> Status \<Rightarrow> stamp \<Rightarrow>
   AdvanceError option \<times> 'a TaskTracking_scheme" where
  "AdvanceTaskState tbl t taskID target now =
     (case map_of (TaskStates t) taskID of
        None \<Rightarrow> (Some (NotRegistered taskID), t)
      | Some current \<Rightarrow>
          if current = target then (None, t)
          else if IsTerminal current then (Some (AlreadyTerminal taskID current target), t)
          else (case ValidateTaskStateTransition current target of
                  Inr _ \<Rightarrow> (None, SetTaskState taskID target now t)
                | Inl _ \<Rightarrow>
                    (case shortestTaskStatePath tbl current target of
                       None \<Rightarrow> (Some (NoValidPath current target), t)
                     | Some path \<Rightarrow> apply_path taskID now path t)))"

section \<open>What an advance does\<close>

text \<open>The table read through another iteration order of its rows.\<close>

definition same_table :: "(Status, Status list) gomap \<Rightarrow> bool" where
  "same_table tbl = (\<forall>s. map_option set (map_of tbl s) = map_option set (map_of validTaskStateTransitions s))"

lemma same_table_self [simp]: "same_table validTaskStateTransitions"
  by (simp add: same_table_def)

lemma hop_is_step:
  assumes "same_table tbl" and "hop tbl target s n"
  shows "task_step s n"
proof -
  from assms(2) obtain row where row: "map_of tbl s = Some row" "n \<in> set row"
    by (auto simp: hop_def split: option.splits)
  from assms(1) row obtain row' where row': "map_of validTaskStateTransitions s = Some row'" "n \<in> set row'"
    unfolding same_table_def by (metis option.map_disc_iff option.map_sel option.sel not_None_eq)
  then have "\<not> IsTerminal s" by (cases s) (auto simp: table_defs)
  with row' show ?thesis by (auto simp: task_step_iff)
qed

lemma apply_path_walk:
  "walk task_step (task_status t taskID) path \<Longrightarrow>
   apply_path taskID now path t = (None, foldl (\<lambda>t s. SetTaskState taskID s now t) t path)"
  by (induction path arbitrary: t) (auto simp: succeeds_unit)

lemma foldl_SetTaskState:
  "task_status (foldl (\<lambda>t s. SetTaskState i s now t) t path) j =
     (if j = i then last (task_status t i # path) else task_status t j)"
  by (induction path arbitrary: t) auto

lemma foldl_SetTaskState_stamp:
  "map_of (TaskStatusChangedAt (foldl (\<lambda>t s. SetTaskState i s now t) t path)) i =
     (if path = [] then map_of (TaskStatusChangedAt t) i else Some now)"
  by (induction path arbitrary: t) auto

lemma foldl_SetTaskState_frame:
  "map_of (TaskStates (foldl (\<lambda>t s. SetTaskState i s now t) t path)) j =
     (if j \<noteq> i \<or> path = [] then map_of (TaskStates t) j else Some (last path))"
  by (induction path arbitrary: t) auto

text \<open>The walk an advance applies, if it applies one.\<close>

definition advance_path ::
  "(Status, Status list) gomap \<Rightarrow> Status \<Rightarrow> Status \<Rightarrow> Status list option" where
  "advance_path tbl current target =
     (if current = target then Some []
      else if IsTerminal current then None
      else if task_step current target then Some [target]
      else shortestTaskStatePath tbl current target)"

lemma advance_path_walk:
  assumes "same_table tbl" and "advance_path tbl current target = Some path"
  shows "walk task_step current path" "last (current # path) = target"
  using assms shortestTaskStatePath_spec(1) [of current target tbl path] walk_mono [OF hop_is_step [OF assms(1)]]
  by (auto simp: advance_path_def reaches_def split: if_splits)

lemma AdvanceTaskState_path:
  assumes "same_table tbl" and "map_of (TaskStates t) taskID = Some current"
  shows "case advance_path tbl current target of
      None \<Rightarrow> AdvanceTaskState tbl t taskID target now =
        (Some (if IsTerminal current then AlreadyTerminal taskID current target else NoValidPath current target), t)
    | Some path \<Rightarrow> AdvanceTaskState tbl t taskID target now =
        (None, foldl (\<lambda>t s. SetTaskState taskID s now t) t path)"
proof -
  have cur: "task_status t taskID = current" using assms(2) by (simp add: task_status_def zget_Some)
  show ?thesis
  proof (cases "current = target \<or> IsTerminal current \<or> task_step current target")
    case True
    then show ?thesis
      using assms(2) by (auto simp: AdvanceTaskState_def advance_path_def succeeds_def split: sum.splits)
  next
    case False
    then have "AdvanceTaskState tbl t taskID target now =
        (case shortestTaskStatePath tbl current target of
           None \<Rightarrow> (Some (NoValidPath current target), t)
         | Some path \<Rightarrow> apply_path taskID now path t)"
      using assms(2) by (auto simp: AdvanceTaskState_def succeeds_def split: sum.splits)
    with False show ?thesis
      using apply_path_walk [of t taskID] advance_path_walk(1) [OF assms(1), of current target] cur
      by (auto simp: advance_path_def split: option.splits)
  qed
qed

lemma advance_spec:
  assumes "same_table tbl"
  shows "case AdvanceTaskState tbl t taskID target now of
      (None, t') \<Rightarrow> task_status t' taskID = target
        \<and> (\<exists>path. walk task_step (task_status t taskID) path \<and> last (task_status t taskID # path) = target)
        \<and> (task_status t taskID = target \<or> map_of (TaskStatusChangedAt t') taskID = Some now)
        \<and> (\<forall>j. j = taskID \<or> map_of (TaskStates t') j = map_of (TaskStates t) j)
    | (Some e, t') \<Rightarrow> t' = t \<and> (\<forall>s n x. e \<noteq> ApplyFailed s n x)"
proof (cases "map_of (TaskStates t) taskID")
  case None
  then show ?thesis by (simp add: AdvanceTaskState_def)
next
  case (Some current)
  then have st: "task_status t taskID = current" by (simp add: task_status_def zget_Some)
  note adv = AdvanceTaskState_path [OF assms Some, of target now]
  show ?thesis
  proof (cases "advance_path tbl current target")
    case None
    with adv show ?thesis by simp
  next
    case (Some path)
    note w = advance_path_walk [OF assms Some]
    let ?t' = "foldl (\<lambda>t s. SetTaskState taskID s now t) t path"
    have "task_status ?t' taskID = target" using w st by (simp add: foldl_SetTaskState)
    moreover have "task_status t taskID = target \<or> map_of (TaskStatusChangedAt ?t') taskID = Some now"
      using w(2) st by (cases path) (auto simp: foldl_SetTaskState_stamp)
    moreover have "\<forall>j. j = taskID \<or> map_of (TaskStates ?t') j = map_of (TaskStates t) j"
      by (simp add: foldl_SetTaskState_frame)
    moreover have "\<exists>path. walk task_step (task_status t taskID) path \<and> last (task_status t taskID # path) = target"
      using w st by blast
    moreover have "AdvanceTaskState tbl t taskID target now = (None, ?t')" using adv Some by simp
    ultimately show ?thesis by (simp del: last.simps)
  qed
qed

text \<open>An advance changes a state by nothing but \<open>SetTaskState\<close> on its task.\<close>

lemma advance_is_sets:
  assumes "same_table tbl"
  shows "\<exists>path. snd (AdvanceTaskState tbl t taskID target now) = foldl (\<lambda>t s. SetTaskState taskID s now t) t path"
proof (cases "map_of (TaskStates t) taskID")
  case None
  then show ?thesis by (intro exI [of _ "[]"]) (simp add: AdvanceTaskState_def)
next
  case (Some current)
  note adv = AdvanceTaskState_path [OF assms Some, of target now]
  show ?thesis
  proof (cases "advance_path tbl current target")
    case None
    then show ?thesis using adv by (intro exI [of _ "[]"]) simp
  next
    case (Some path)
    then show ?thesis using adv by (intro exI [of _ path]) simp
  qed
qed

lemma advance_keeps:
  assumes "same_table tbl" and "\<And>s t. f (SetTaskState taskID s now t) = f t"
  shows "f (snd (AdvanceTaskState tbl t taskID target now)) = f t"
proof -
  have "f (foldl (\<lambda>t s. SetTaskState taskID s now t) t path) = f t" for path
    by (induction path arbitrary: t) (simp_all add: assms(2))
  then show ?thesis using advance_is_sets [OF assms(1), of t taskID target now] by auto
qed

section \<open>Properties\<close>

text \<open>
  C18. The breadth-first search of \<open>shortestTaskStatePath\<close> is correct for every order in which Go
  ranges over the table: it always ends, a path it returns leads to the target through rows of the table
  without passing a terminal status or a universal exit, no such path is shorter, and when it
  returns an error there is no such path.
\<close>

theorem shortest_path_correct:
  assumes "source \<noteq> target"
  shows "case shortestTaskStatePath tbl source target of
      Some p \<Rightarrow> reaches tbl target source p \<and> (\<forall>p'. reaches tbl target source p' \<longrightarrow> length p \<le> length p')
    | None \<Rightarrow> \<not> (\<exists>p. reaches tbl target source p)"
  using shortestTaskStatePath_spec [OF assms, of tbl] by (auto split: option.splits)

lemma shortest_path_correct_witness:
  "shortestTaskStatePath validTaskStateTransitions StatusRepairPending StatusCompleted
     = Some [StatusRunning, StatusVerifyPending, StatusCompleted]
   \<and> \<not> (\<exists>p. reaches validTaskStateTransitions StatusCompleted StatusRepairPending p \<and> length p < 3)"
proof -
  have r: "shortestTaskStatePath validTaskStateTransitions StatusRepairPending StatusCompleted
     = Some [StatusRunning, StatusVerifyPending, StatusCompleted]"
    by (simp add: shortestTaskStatePath_def table_defs)
  show ?thesis
    using shortest_path_correct [of StatusRepairPending StatusCompleted validTaskStateTransitions] r
    by (auto simp: eval_nat_numeral not_less_eq_eq)
qed

text \<open>
  C19. What \<open>AdvanceTaskState\<close> promises. On success the task has the target status, the statuses
  it went through form a run of valid transitions, its change stamp is the given time if anything changed,
  and no other task is touched. On an error the struct is unchanged, and the error is never the defensive one
  about a path step that fails its check.
\<close>

theorem advance_outcome:
  assumes "same_table tbl"
  shows "case AdvanceTaskState tbl t taskID target now of
      (None, t') \<Rightarrow> task_status t' taskID = target
        \<and> (\<exists>path. walk task_step (task_status t taskID) path \<and> last (task_status t taskID # path) = target)
        \<and> (task_status t taskID = target \<or> map_of (TaskStatusChangedAt t') taskID = Some now)
        \<and> (\<forall>j. j = taskID \<or> map_of (TaskStates t') j = map_of (TaskStates t) j)
    | (Some e, t') \<Rightarrow> t' = t \<and> (\<forall>s n x. e \<noteq> ApplyFailed s n x)"
  using assms by (rule advance_spec)

lemma advance_outcome_witness:
  "let t = \<lparr>ExpectedTaskCount = 1, RequiredTaskIDs = [''t1''], OptionalTaskIDs = [], TaskDependencies = [],
      TaskStates = [(''t1'', StatusRunning)], CancelledReasons = [], AppliedResultIDs = [],
      SystemCommitTaskID = None, QueueWriteFailed = [], IdempotencyKeys = [], TaskStatusChangedAt = []\<rparr> in
   AdvanceTaskState validTaskStateTransitions t ''t1'' StatusCompleted (Stamp 5)
     = (None, t\<lparr>TaskStates := [(''t1'', StatusCompleted)], TaskStatusChangedAt := [(''t1'', Stamp 5)]\<rparr>)
   \<and> (\<exists>path. walk task_step StatusRunning path \<and> last (StatusRunning # path) = StatusCompleted)"
proof -
  define t where "t = \<lparr>ExpectedTaskCount = 1, RequiredTaskIDs = [''t1''], OptionalTaskIDs = [],
      TaskDependencies = [],
      TaskStates = [(''t1'', StatusRunning)], CancelledReasons = [], AppliedResultIDs = [],
      SystemCommitTaskID = None, QueueWriteFailed = [], IdempotencyKeys = [], TaskStatusChangedAt = []\<rparr>"
  have r: "AdvanceTaskState validTaskStateTransitions t ''t1'' StatusCompleted (Stamp 5)
     = (None, t\<lparr>TaskStates := [(''t1'', StatusCompleted)], TaskStatusChangedAt := [(''t1'', Stamp 5)]\<rparr>)"
    by (simp add: t_def AdvanceTaskState_def shortestTaskStatePath_def table_defs task_status_def zget_def
        SetTaskState_def)
  have "task_status t ''t1'' = StatusRunning" by (simp add: t_def task_status_def zget_def)
  with advance_outcome [OF same_table_self, where t = t and taskID = "''t1''" and target = StatusCompleted
      and now = "Stamp 5"] r
  show ?thesis unfolding t_def [symmetric] by (simp add: Let_def)
qed

end
