(* ===== verification/Dag.thy ===== *)
theory Dag imports Command_State begin

text \<open>
  The dependency graph checks of \<open>internal/plan/dag.go\<close>. A graph is the Go map from a node to
  the nodes it depends on. \<open>validateDAG\<close> is Kahn's algorithm; on a cycle a depth-first search
  names one.
\<close>

section \<open>Kahn's algorithm\<close>

type_synonym graph = "(string, string list) gomap"

text \<open>The double loop that fills \<open>inDegree\<close> and \<open>forward\<close>; a reference to an unknown node is skipped.\<close>

fun count_deps ::
  "string list \<Rightarrow> string \<Rightarrow> string list \<Rightarrow> (string, int) gomap \<Rightarrow> graph \<Rightarrow> (string, int) gomap \<times> graph" where
  "count_deps nodeNames node [] inDegree forward = (inDegree, forward)"
| "count_deps nodeNames node (dep # deps) inDegree forward =
     (if dep \<notin> set nodeNames then count_deps nodeNames node deps inDegree forward
      else count_deps nodeNames node deps
        (AList.update node (zget 0 inDegree node + 1) inDegree)
        (AList.update dep (zget [] forward dep @ [node]) forward))"

fun count_edges ::
  "string list \<Rightarrow> graph \<Rightarrow> (string, int) gomap \<Rightarrow> graph \<Rightarrow> (string, int) gomap \<times> graph" where
  "count_edges nodeNames [] inDegree forward = (inDegree, forward)"
| "count_edges nodeNames ((node, deps) # edges) inDegree forward =
     (case count_deps nodeNames node deps inDegree forward of
        (inDegree', forward') \<Rightarrow> count_edges nodeNames edges inDegree' forward')"

text \<open>The inner loop of the main loop: the dependents whose in-degree becomes 0 are enqueued.\<close>

fun release :: "(string, int) gomap \<Rightarrow> string list \<Rightarrow> (string, int) gomap \<times> string list" where
  "release inDegree [] = (inDegree, [])"
| "release inDegree (dependent # rest) =
     (let inDegree' = AList.update dependent (zget 0 inDegree dependent - 1) inDegree in
      case release inDegree' rest of
        (inDegree'', added) \<Rightarrow>
          (inDegree'', if zget 0 inDegree' dependent = 0 then dependent # added else added))"

definition positive :: "(string, int) gomap \<Rightarrow> string set" where
  "positive m = {n \<in> fst ` set m. 0 < zget 0 m n}"

lemma finite_positive [simp]: "finite (positive m)"
  by (simp add: positive_def)

lemma positive_iff [simp]: "n \<in> positive m \<longleftrightarrow> 0 < zget 0 m n"
  by (force simp: positive_def zget_def split: option.splits dest: map_of_SomeD)

lemma release_shrinks:
  "release inDegree ds = (inDegree', added) \<Longrightarrow>
   card (positive inDegree') + length added \<le> card (positive inDegree)"
proof (induction ds arbitrary: inDegree added)
  case (Cons d ds)
  let ?m = "AList.update d (zget 0 inDegree d - 1) inDegree"
  obtain added' where r: "release ?m ds = (inDegree', added')"
    and added: "added = (if zget 0 ?m d = 0 then d # added' else added')"
    using Cons.prems by (auto simp: Let_def split: prod.splits)
  from Cons.IH [OF r] have ih: "card (positive inDegree') + length added' \<le> card (positive ?m)" .
  have sub: "positive ?m \<subseteq> positive inDegree" by (auto split: if_splits)
  show ?case
  proof (cases "zget 0 ?m d = 0")
    case True
    then have "positive ?m \<subset> positive inDegree" using sub by (auto split: if_splits)
    then have "card (positive ?m) < card (positive inDegree)" by (intro psubset_card_mono) auto
    with ih added True show ?thesis by simp
  next
    case False
    have "card (positive ?m) \<le> card (positive inDegree)" using sub by (intro card_mono) auto
    with ih added False show ?thesis by simp
  qed
qed simp

function kahn :: "graph \<Rightarrow> (string, int) gomap \<Rightarrow> string list \<Rightarrow> string list \<Rightarrow> string list \<times> (string, int) gomap" where
  "kahn forward inDegree [] sortedNodes = (sortedNodes, inDegree)"
| "kahn forward inDegree (node # queue) sortedNodes =
     (case release inDegree (zget [] forward node) of
        (inDegree', added) \<Rightarrow> kahn forward inDegree' (queue @ added) (sortedNodes @ [node]))"
  by pat_completeness auto
termination
  by (relation "measure (\<lambda>(forward, inDegree, queue, srt). card (positive inDegree) + length queue)")
    (auto dest!: release_shrinks [OF sym] simp del: positive_iff)

section \<open>Naming a cycle\<close>

datatype color = White | Gray | Black

text \<open>The walk up the parent map, from \<open>current\<close> to \<open>dep\<close>. It would not end on a bad parent map.\<close>

partial_function (option) climb :: "(string, string) gomap \<Rightarrow> string \<Rightarrow> string \<Rightarrow> string list option" where
  "climb parent dep current =
     (if current = dep then Some []
      else Option.bind (climb parent dep (zget [] parent current)) (\<lambda>up. Some (current # up)))"

text \<open>
  The search. \<open>Inl\<close> is the cycle path, \<open>Inr\<close> the colors and parents when the call returns false;
  \<open>None\<close> is a recursion deeper than the fuel.
\<close>

fun dfs ::
    "graph \<Rightarrow> nat \<Rightarrow> string \<Rightarrow> (string, color) gomap \<Rightarrow> (string, string) gomap \<Rightarrow>
     (string list + (string, color) gomap \<times> (string, string) gomap) option"
  and dfs_deps ::
    "graph \<Rightarrow> nat \<Rightarrow> string \<Rightarrow> string list \<Rightarrow> (string, color) gomap \<Rightarrow> (string, string) gomap \<Rightarrow>
     (string list + (string, color) gomap \<times> (string, string) gomap) option" where
  "dfs edges 0 node color parent = None"
| "dfs edges (Suc fuel) node color parent =
     (case dfs_deps edges fuel node (zget [] edges node) (AList.update node Gray color) parent of
        None \<Rightarrow> None
      | Some (Inl cycle) \<Rightarrow> Some (Inl cycle)
      | Some (Inr (color', parent')) \<Rightarrow> Some (Inr (AList.update node Black color', parent')))"
| "dfs_deps edges fuel node [] color parent = Some (Inr (color, parent))"
| "dfs_deps edges fuel node (dep # deps) color parent =
     (if zget White color dep = Gray
      then Option.bind (climb parent dep node) (\<lambda>up. Some (Inl (rev (dep # up @ [dep]))))
      else if zget White color dep = White
      then (case dfs edges fuel dep color (AList.update dep node parent) of
              None \<Rightarrow> None
            | Some (Inl cycle) \<Rightarrow> Some (Inl cycle)
            | Some (Inr (color', parent')) \<Rightarrow> dfs_deps edges fuel node deps color' parent')
      else dfs_deps edges fuel node deps color parent)"

fun dfs_roots ::
  "graph \<Rightarrow> (string, int) gomap \<Rightarrow> nat \<Rightarrow> string list \<Rightarrow> (string, color) gomap \<Rightarrow> (string, string) gomap \<Rightarrow>
   string list option" where
  "dfs_roots edges inDegree fuel [] color parent = Some [''(cycle detected)'']"
| "dfs_roots edges inDegree fuel (n # names) color parent =
     (if 0 < zget 0 inDegree n \<and> zget White color n = White
      then (case dfs edges fuel n color parent of
              None \<Rightarrow> None
            | Some (Inl cycle) \<Rightarrow> Some cycle
            | Some (Inr (color', parent')) \<Rightarrow> dfs_roots edges inDegree fuel names color' parent')
      else dfs_roots edges inDegree fuel names color parent)"

definition findCyclePath :: "nat \<Rightarrow> string list \<Rightarrow> graph \<Rightarrow> (string, int) gomap \<Rightarrow> string list option" where
  "findCyclePath fuel nodeNames edges inDegree = dfs_roots edges inDegree fuel nodeNames [] []"

text \<open>The depth of the search is at most the number of names in the graph.\<close>

definition graph_fuel :: "string list \<Rightarrow> graph \<Rightarrow> nat" where
  "graph_fuel nodeNames edges = length nodeNames + length (concat (map snd edges))"

datatype DagError = CircularDependency "string list option"

definition validateDAG :: "string list \<Rightarrow> graph \<Rightarrow> DagError + string list" where
  "validateDAG nodeNames edges =
     (if nodeNames = [] then Inr []
      else case count_edges nodeNames edges (map (\<lambda>n. (n, 0)) nodeNames) [] of
        (inDegree, forward) \<Rightarrow>
          (case kahn forward inDegree (filter (\<lambda>n. zget 0 inDegree n = 0) nodeNames) [] of
             (sortedNodes, inDegree') \<Rightarrow>
               if length sortedNodes = length nodeNames then Inr sortedNodes
               else Inl (CircularDependency
                 (findCyclePath (graph_fuel nodeNames edges) nodeNames edges inDegree'))))"

definition ValidateTaskDAG :: "string list \<Rightarrow> graph \<Rightarrow> DagError + string list" where
  "ValidateTaskDAG names blockedBy = validateDAG names blockedBy"

definition ValidatePhaseDAG :: "string list \<Rightarrow> graph \<Rightarrow> DagError + string list" where
  "ValidatePhaseDAG phaseNames dependsOn = validateDAG phaseNames dependsOn"

section \<open>Reference checks\<close>

text \<open>The errors are the offending references, in the order in which the map is visited.\<close>

definition ValidateNoSelfReference :: "graph \<Rightarrow> string list" where
  "ValidateNoSelfReference blockedBy =
     concat (map (\<lambda>(name, deps). map (\<lambda>_. name) (filter (\<lambda>dep. dep = name) deps)) blockedBy)"

definition ValidateSamePhaseRefs :: "graph \<Rightarrow> string list \<Rightarrow> (string \<times> nat \<times> string) list" where
  "ValidateSamePhaseRefs blockedBy validNames =
     concat (map (\<lambda>(name, deps).
       map (\<lambda>(i, dep). (name, i, dep)) (filter (\<lambda>(i, dep). dep \<notin> set validNames) (enumerate 0 deps))) blockedBy)"

section \<open>Cross-phase references\<close>

text \<open>The two lookup maps; a later phase overwrites an earlier one.\<close>

definition task_phase :: "Phase list \<Rightarrow> (string, nat) gomap" where
  "task_phase phases =
     fold (\<lambda>(i, p) m. fold (\<lambda>tid m. AList.update tid i m) (ph_TaskIDs p) m) (enumerate 0 phases) []"

definition phase_lookup :: "Phase list \<Rightarrow> (string, nat) gomap" where
  "phase_lookup phases =
     fold (\<lambda>(i, p) m.
        let m' = (if ph_Name p \<noteq> [] then AList.update (ph_Name p) i m else m) in
        if ph_PhaseID p \<noteq> [] then AList.update (ph_PhaseID p) i m' else m') (enumerate 0 phases) []"

definition direct_phase_deps :: "Phase list \<Rightarrow> nat list list" where
  "direct_phase_deps phases =
     map (\<lambda>p. remdups (List.map_filter (map_of (phase_lookup phases)) (ph_DependsOnPhases p))) phases"

text \<open>One pass of the closure loop: row \<open>i\<close> takes in the rows of its own members.\<close>

definition close_row :: "nat list list \<Rightarrow> nat \<Rightarrow> nat list list" where
  "close_row reach i =
     reach[i := remdups (reach ! i @ concat (map (\<lambda>j. if j < length reach then reach ! j else []) (reach ! i)))]"

definition close_pass :: "nat list list \<Rightarrow> nat list list" where
  "close_pass reach = fold (\<lambda>i r. close_row r i) [0..<length reach] reach"

text \<open>Rows only grow, and never beyond the members that some row has already.\<close>

definition rows_le :: "nat list list \<Rightarrow> nat list list \<Rightarrow> bool" where
  "rows_le r r' = (length r' = length r \<and> (\<forall>i < length r. set (r ! i) \<subseteq> set (r' ! i)))"

definition members :: "nat list list \<Rightarrow> nat set" where
  "members r = \<Union> (set ` set r)"

lemma rows_le_refl [simp]: "rows_le r r"
  by (simp add: rows_le_def)

lemma rows_le_trans: "rows_le r s \<Longrightarrow> rows_le s t \<Longrightarrow> rows_le r t"
  by (fastforce simp: rows_le_def)

lemma finite_members [simp]: "finite (members r)"
  by (simp add: members_def)

lemma member_row: "i < length r \<Longrightarrow> set (r ! i) \<subseteq> members r"
  unfolding members_def by (metis Union_upper imageI nth_mem)

lemma close_row_set:
  "set (close_row r i ! k) = (if k = i \<and> i < length r
     then set (r ! i) \<union> (\<Union>j \<in> {j \<in> set (r ! i). j < length r}. set (r ! j)) else set (r ! k))"
proof (cases "i < length r")
  case True
  then show ?thesis by (auto simp: close_row_def nth_list_update split: if_splits)
qed (simp add: close_row_def list_update_beyond)

lemma close_row_le: "rows_le r (close_row r i)"
  unfolding rows_le_def by (auto simp: close_row_set) (simp add: close_row_def)

lemma members_close_row: "members (close_row r i) \<subseteq> members r"
proof
  fix x assume "x \<in> members (close_row r i)"
  then obtain row where "row \<in> set (close_row r i)" "x \<in> set row"
    by (auto simp: members_def)
  then obtain k where "k < length (close_row r i)" "x \<in> set (close_row r i ! k)"
    by (metis in_set_conv_nth)
  moreover from this(1) have "k < length r" by (simp add: close_row_def)
  ultimately show "x \<in> members r"
    using member_row by (auto simp: close_row_set split: if_splits)
qed

lemma fold_close_row:
  "rows_le r (fold (\<lambda>i r. close_row r i) is r) \<and> members (fold (\<lambda>i r. close_row r i) is r) \<subseteq> members r"
proof (induction "is" arbitrary: r)
  case (Cons i "is")
  show ?case
    using Cons [of "close_row r i"] close_row_le [of r i] members_close_row [of r i]
    by (auto intro: rows_le_trans)
qed simp

definition missing :: "nat list list \<Rightarrow> nat" where
  "missing r = (\<Sum>row \<leftarrow> r. card (members r - set row))"

lemma missing_decreases:
  assumes "rows_le r r'" and "members r' \<subseteq> members r" and "map set r' \<noteq> map set r"
  shows "missing r' < missing r"
proof -
  have len: "length r' = length r" using assms(1) by (simp add: rows_le_def)
  have sum: "missing s = (\<Sum>i < length s. card (members s - set (s ! i)))" for s
    by (simp add: missing_def sum_list_sum_nth atLeast0LessThan)
  from assms(3) len obtain k where k: "k < length r" "set (r' ! k) \<noteq> set (r ! k)"
    by (metis length_map nth_equalityI nth_map)
  have le: "card (members r' - set (r' ! i)) \<le> card (members r - set (r ! i))" if "i < length r" for i
    using assms that by (intro card_mono) (auto simp: rows_le_def)
  have "members r' - set (r' ! k) \<subset> members r - set (r ! k)"
    using assms k member_row [of k r'] len by (fastforce simp: rows_le_def)
  then have "card (members r' - set (r' ! k)) < card (members r - set (r ! k))"
    by (intro psubset_card_mono) auto
  with k(1) le show ?thesis
    unfolding sum len by (intro sum_strict_mono_ex1) auto
qed

text \<open>The loop repeats the pass until one changes nothing.\<close>

function close_loop :: "nat list list \<Rightarrow> nat list list" where
  "close_loop reach =
     (if map set (close_pass reach) = map set reach then reach else close_loop (close_pass reach))"
  by pat_completeness auto
termination
  by (relation "measure missing")
    (simp_all add: close_pass_def missing_decreases fold_close_row)

declare close_loop.simps [simp del]

datatype CrossPhaseError = CrossPhase string string string string

definition dependency_pairs :: "graph \<Rightarrow> (string \<times> string) list" where
  "dependency_pairs edges = concat (map (\<lambda>(t, deps). map (\<lambda>d. (t, d)) deps) edges)"

definition crosses :: "(string, nat) gomap \<Rightarrow> nat list list \<Rightarrow> string \<Rightarrow> string \<Rightarrow> bool" where
  "crosses taskPhase reachable taskID dep =
     (case map_of taskPhase taskID of
        None \<Rightarrow> False
      | Some tPI \<Rightarrow>
          (case map_of taskPhase dep of
             None \<Rightarrow> False
           | Some dPI \<Rightarrow> dPI \<noteq> tPI \<and> dPI \<notin> set (reachable ! tPI)))"

definition validateCrossPhaseRefs :: "'a PhaseTracking_scheme \<Rightarrow> CrossPhaseError + unit" where
  "validateCrossPhaseRefs state =
     (if length (Phases state) \<le> 1 then Inr ()
      else let taskPhase = task_phase (Phases state);
               reachable = close_loop (direct_phase_deps (Phases state));
               name = (\<lambda>i. ph_Name (Phases state ! i)) in
        case find (\<lambda>(t, d). crosses taskPhase reachable t d) (dependency_pairs (TaskDependencies state)) of
          None \<Rightarrow> Inr ()
        | Some (t, d) \<Rightarrow> Inl (CrossPhase t (name (zget 0 taskPhase t)) d (name (zget 0 taskPhase d))))"

datatype MutationError = MutationCycle DagError | MutationCrossPhase CrossPhaseError

definition ValidateTaskDAGAfterMutation :: "'a PhaseTracking_scheme \<Rightarrow> MutationError + unit" where
  "ValidateTaskDAGAfterMutation state =
     (case ValidateTaskDAG (map fst (TaskStates state)) (TaskDependencies state) of
        Inl e \<Rightarrow> Inl (MutationCycle e)
      | Inr _ \<Rightarrow>
          (case validateCrossPhaseRefs state of
             Inl e \<Rightarrow> Inl (MutationCrossPhase e)
           | Inr _ \<Rightarrow> Inr ()))"

section \<open>Kahn's algorithm is correct\<close>

text \<open>The dependencies that count: those that are nodes.\<close>

definition known :: "string list \<Rightarrow> graph \<Rightarrow> string \<Rightarrow> string list" where
  "known nodeNames edges n = filter (\<lambda>d. d \<in> set nodeNames) (zget [] edges n)"

lemma count_deps_spec:
  "count_deps names node deps inD fwd = (inD', fwd') \<Longrightarrow>
   zget 0 inD' m = zget 0 inD m + (if m = node then int (length (filter (\<lambda>d. d \<in> set names) deps)) else 0)
   \<and> count_list (zget [] fwd' d) m =
       count_list (zget [] fwd d) m + (if m = node \<and> d \<in> set names then count_list deps d else 0)"
proof (induction deps arbitrary: inD fwd)
  case (Cons dep deps)
  show ?case
  proof (cases "dep \<in> set names")
    case True
    with Cons.prems have "count_deps names node deps (AList.update node (zget 0 inD node + 1) inD)
        (AList.update dep (zget [] fwd dep @ [node]) fwd) = (inD', fwd')" by simp
    from Cons.IH [OF this] True show ?thesis by auto
  next
    case False
    with Cons.prems have "count_deps names node deps inD fwd = (inD', fwd')" by simp
    from Cons.IH [OF this] False show ?thesis by auto
  qed
qed simp

lemma zget_Cons: "zget z ((k, v) # m) k' = (if k' = k then v else zget z m k')"
  by (simp add: zget_def)

lemma zget_absent: "k \<notin> fst ` set m \<Longrightarrow> zget z m k = z"
  by (metis map_of_eq_None_iff zget_None)

lemma count_edges_spec:
  "count_edges names edges inD fwd = (inD', fwd') \<Longrightarrow> distinct (map fst edges) \<Longrightarrow>
   zget 0 inD' m = zget 0 inD m + int (length (known names edges m))
   \<and> count_list (zget [] fwd' d) m =
       count_list (zget [] fwd d) m + (if d \<in> set names then count_list (zget [] edges m) d else 0)"
proof (induction edges arbitrary: inD fwd)
  case (Cons e edges)
  obtain node deps where e: "e = (node, deps)" by fastforce
  obtain inD1 fwd1 where c: "count_deps names node deps inD fwd = (inD1, fwd1)" by fastforce
  with Cons.prems e have "count_edges names edges inD1 fwd1 = (inD', fwd')" by simp
  from Cons.IH [OF this] count_deps_spec [OF c, of m d] Cons.prems(2) e
  show ?case by (auto simp: known_def zget_Cons zget_absent)
qed (simp add: known_def zget_def)

lemma release_spec:
  "release inD ds = (inD', added) \<Longrightarrow> (\<And>n. int (count_list ds n) \<le> zget 0 inD n) \<Longrightarrow>
   (\<forall>n. zget 0 inD' n = zget 0 inD n - int (count_list ds n))
   \<and> distinct added \<and> set added = {n \<in> set ds. zget 0 inD n = int (count_list ds n)}"
proof (induction ds arbitrary: inD added)
  case (Cons d ds)
  let ?m = "AList.update d (zget 0 inD d - 1) inD"
  obtain added' where r: "release ?m ds = (inD', added')"
    and added: "added = (if zget 0 ?m d = 0 then d # added' else added')"
    using Cons.prems by (auto simp: Let_def split: prod.splits)
  have le: "int (count_list ds n) \<le> zget 0 ?m n" for n
    using Cons.prems(2) [of n] by (auto split: if_splits)
  note ih = Cons.IH [OF r le]
  have d0: "count_list ds d = 0" if "zget 0 inD d = 1"
    using le [of d] that by simp
  have val: "zget 0 inD' n = zget 0 inD n - int (count_list (d # ds) n)" for n
    using conjunct1 [OF ih, rule_format, of n] by simp
  have mem: "n \<in> set added' \<longleftrightarrow> n \<in> set ds \<and> zget 0 ?m n = int (count_list ds n)" for n
    using conjunct2 [OF conjunct2 [OF ih]] by (metis (mono_tags, lifting) mem_Collect_eq)
  have dst: "distinct added'" using ih by blast
  show ?case
  proof (cases "zget 0 inD d = 1")
    case True
    have a: "added = d # added'" using added True by simp
    have ds: "d \<notin> set ds" using d0 [OF True] by (simp add: count_list_0_iff)
    have "distinct added" using a dst ds mem [of d] by simp
    moreover have "n \<in> set added \<longleftrightarrow> n \<in> set (d # ds) \<and> zget 0 inD n = int (count_list (d # ds) n)" for n
      by (cases "n = d") (use a mem [of n] True d0 ds in simp_all)
    ultimately show ?thesis using val by blast
  next
    case False
    have a: "added = added'" using added False by simp
    have in_ds: "d \<in> set ds" if "zget 0 inD d = 1 + int (count_list ds d)"
      using that False by (metis add.right_neutral count_list_0_iff of_nat_0)
    have "n \<in> set added \<longleftrightarrow> n \<in> set (d # ds) \<and> zget 0 inD n = int (count_list (d # ds) n)" for n
      by (cases "n = d") (use a mem [of n] in_ds in auto)
    then show ?thesis using val a dst by blast
  qed
qed simp

definition kahn_inv :: "string list \<Rightarrow> graph \<Rightarrow> (string, int) gomap \<Rightarrow> string list \<Rightarrow> string list \<Rightarrow> bool" where
  "kahn_inv names edges inD queue srt =
     ((\<forall>n. zget 0 inD n = int (length (filter (\<lambda>d. d \<notin> set srt) (known names edges n))))
      \<and> distinct (srt @ queue)
      \<and> set (srt @ queue) = {n \<in> set names. zget 0 inD n = 0}
      \<and> topo (\<lambda>n. set (known names edges n)) srt)"

lemma kahn_invD:
  assumes "kahn_inv names edges inD queue srt"
  shows "zget 0 inD n = int (length (filter (\<lambda>d. d \<notin> set srt) (known names edges n)))"
    and "distinct (srt @ queue)"
    and "set (srt @ queue) = {n \<in> set names. zget 0 inD n = 0}"
    and "topo (\<lambda>n. set (known names edges n)) srt"
proof -
  note inv = assms [unfolded kahn_inv_def]
  show "zget 0 inD n = int (length (filter (\<lambda>d. d \<notin> set srt) (known names edges n)))"
    by (rule spec [OF conjunct1 [OF inv]])
  show "distinct (srt @ queue)" by (rule conjunct1 [OF conjunct2 [OF inv]])
  show "set (srt @ queue) = {n \<in> set names. zget 0 inD n = 0}"
    by (rule conjunct1 [OF conjunct2 [OF conjunct2 [OF inv]]])
  show "topo (\<lambda>n. set (known names edges n)) srt"
    by (rule conjunct2 [OF conjunct2 [OF conjunct2 [OF inv]]])
qed

lemma filter_insert_length:
  "a \<notin> S \<Longrightarrow> length (filter (\<lambda>d. d \<notin> S) xs) = length (filter (\<lambda>d. d \<notin> insert a S) xs) + count_list xs a"
  by (induction xs) auto

lemma kahn_inv_step:
  assumes inv: "kahn_inv names edges inD (node # queue) srt"
    and keys: "fst ` set edges \<subseteq> set names"
    and fwd: "\<And>m. count_list (zget [] fwd node) m = (if node \<in> set names then count_list (zget [] edges m) node else 0)"
    and rel: "release inD (zget [] fwd node) = (inD', added)"
  shows "kahn_inv names edges inD' (queue @ added) (srt @ [node])"
proof -
  let ?left = "\<lambda>S n. int (length (filter (\<lambda>d. d \<notin> S) (known names edges n)))"
  have node: "node \<in> set names" "node \<notin> set srt" "zget 0 inD node = 0"
    using kahn_invD(2,3) [OF inv] by auto
  have cnt: "count_list (zget [] fwd node) n = count_list (known names edges n) node" for n
    using fwd node(1) by (simp add: known_def count_list_eq_length_filter) (metis (mono_tags, lifting) filter_cong)
  have left: "?left (set srt) n = ?left (insert node (set srt)) n + int (count_list (zget [] fwd node) n)" for n
    using filter_insert_length [OF node(2), of "known names edges n"] by (simp add: cnt)
  have inD: "zget 0 inD n = ?left (set srt) n" for n by (rule kahn_invD(1) [OF inv])
  have le: "int (count_list (zget [] fwd node) n) \<le> zget 0 inD n" for n
    using left [of n] inD [of n] by simp
  note rs = release_spec [OF rel le]
  have inD': "zget 0 inD' n = ?left (insert node (set srt)) n" for n
    using rs left [of n] inD [of n] by simp
  have fwd_names: "n \<in> set names" if "n \<in> set (zget [] fwd node)" for n
  proof -
    have "count_list (zget [] fwd node) n \<noteq> 0" using that by (simp add: count_list_0_iff)
    then have "zget [] edges n \<noteq> []" using fwd node(1) by auto
    then show ?thesis using keys zget_absent by (metis subsetD)
  qed
  have added: "set added = {n \<in> set names. zget 0 inD n \<noteq> 0 \<and> zget 0 inD' n = 0}"
    using rs fwd_names by (auto simp: count_list_0_iff)
  have srtq: "set (srt @ node # queue) = {n \<in> set names. zget 0 inD n = 0}"
    and dst: "distinct (srt @ node # queue)" by (rule kahn_invD(3,2) [OF inv])+
  have mono: "zget 0 inD' n = 0" if "zget 0 inD n = 0" for n
    using rs that le [of n] by simp
  show ?thesis
    unfolding kahn_inv_def
  proof (intro conjI allI)
    show "zget 0 inD' n = int (length (filter (\<lambda>d. d \<notin> set (srt @ [node])) (known names edges n)))" for n
      by (simp add: inD')
    show "distinct ((srt @ [node]) @ queue @ added)"
      using dst rs added srtq by auto
    show "set ((srt @ [node]) @ queue @ added) = {n \<in> set names. zget 0 inD' n = 0}"
      using added srtq mono by auto
    have "known names edges node = [] \<or> set (known names edges node) \<subseteq> set srt"
      using inD [of node] node(3) by (auto simp: filter_empty_conv)
    then show "topo (\<lambda>n. set (known names edges n)) (srt @ [node])"
      using kahn_invD(4) [OF inv] by (auto simp: topo_snoc)
  qed
qed

lemma kahn_correct:
  "kahn_inv names edges inD queue srt \<Longrightarrow> fst ` set edges \<subseteq> set names \<Longrightarrow>
   (\<And>d m. count_list (zget [] fwd d) m = (if d \<in> set names then count_list (zget [] edges m) d else 0)) \<Longrightarrow>
   kahn fwd inD queue srt = (srt', inD') \<Longrightarrow> kahn_inv names edges inD' [] srt'"
proof (induction fwd inD queue srt rule: kahn.induct)
  case (2 fwd inD node queue srt)
  obtain inD1 added where r: "release inD (zget [] fwd node) = (inD1, added)" by fastforce
  have "kahn_inv names edges inD1 (queue @ added) (srt @ [node])"
    by (rule kahn_inv_step [OF 2(2,3) _ r]) (rule 2(4))
  moreover have "kahn fwd inD1 (queue @ added) (srt @ [node]) = (srt', inD')"
    using 2(5) r by simp
  ultimately show ?case using "2.IH" [OF r [symmetric] _ 2(3) 2(4)] by blast
qed simp

text \<open>The run of \<open>validateDAG\<close> up to the choice between the order and the error.\<close>

lemma validateDAG_run:
  assumes "distinct names" "distinct (map fst edges)" "fst ` set edges \<subseteq> set names" "names \<noteq> []"
  obtains srt inD where "kahn_inv names edges inD [] srt"
    and "validateDAG names edges = (if length srt = length names then Inr srt
      else Inl (CircularDependency (findCyclePath (graph_fuel names edges) names edges inD)))"
proof -
  obtain inD0 fwd where c: "count_edges names edges (map (\<lambda>n. (n, 0)) names) [] = (inD0, fwd)" by fastforce
  obtain srt inD where k: "kahn fwd inD0 (filter (\<lambda>n. zget 0 inD0 n = 0) names) [] = (srt, inD)" by fastforce
  have z: "zget 0 (map (\<lambda>n. (n, 0)) names) m = (0::int)" for m
    by (simp add: zget_def map_of_map_restrict restrict_map_def split: option.split)
  have inD0: "zget 0 inD0 m = int (length (known names edges m))" for m
    using count_edges_spec [OF c assms(2), of m] z by simp
  have fwd: "count_list (zget [] fwd d) m = (if d \<in> set names then count_list (zget [] edges m) d else 0)" for d m
    using count_edges_spec [OF c assms(2), of m d] by (simp add: zget_def)
  have "kahn_inv names edges inD0 (filter (\<lambda>n. zget 0 inD0 n = 0) names) []"
    using assms(1) by (auto simp: kahn_inv_def inD0)
  from kahn_correct [OF this assms(3) fwd k]
  have "kahn_inv names edges inD [] srt" .
  moreover have "validateDAG names edges = (if length srt = length names then Inr srt
      else Inl (CircularDependency (findCyclePath (graph_fuel names edges) names edges inD)))"
    using assms(4) c k by (simp add: validateDAG_def)
  ultimately show ?thesis by (rule that)
qed

abbreviation depends :: "graph \<Rightarrow> string \<Rightarrow> string \<Rightarrow> bool" where
  "depends edges a b \<equiv> b \<in> set (zget [] edges a)"

definition cyclic :: "graph \<Rightarrow> bool" where
  "cyclic edges = (\<exists>n ts. ts \<noteq> [] \<and> walk (depends edges) n ts \<and> last ts = n)"

lemma depends_key: "depends edges a b \<Longrightarrow> a \<in> fst ` set edges"
  by (metis empty_iff empty_set zget_absent)

text \<open>A cycle runs through nodes only, because only nodes have dependencies.\<close>

lemma cyclic_known:
  assumes "fst ` set edges \<subseteq> set names" and "ts \<noteq> []" "walk (depends edges) n ts" "last ts = n"
  shows "n \<in> set names \<and> walk (\<lambda>a b. b \<in> set (known names edges a)) n ts"
proof -
  have key: "a \<in> set names" if "depends edges a b" for a b
    using depends_key [OF that] assms(1) by blast
  have n: "n \<in> set names" using assms(2,3) key by (cases ts) auto
  have "walk (\<lambda>a b. b \<in> set (known names edges a)) m us"
    if "walk (depends edges) m us" "last (m # us) \<in> set names" for m us
    using that
  proof (induction us arbitrary: m)
    case (Cons u us)
    then have "u \<in> set names" using key by (cases us) auto
    with Cons show ?case by (auto simp: known_def)
  qed simp
  then show ?thesis using n assms(2-4) by simp
qed

lemma kahn_order_acyclic:
  assumes "kahn_inv names edges inD [] srt" "length srt = length names" "distinct names"
    and "fst ` set edges \<subseteq> set names"
  shows "set srt = set names" "distinct srt" "\<not> cyclic edges"
proof -
  from assms(1) have d: "distinct srt" and sub: "set srt \<subseteq> set names"
    and t: "topo (\<lambda>n. set (known names edges n)) srt"
    using kahn_invD(2,3,4) [OF assms(1)] by auto
  have "card (set srt) = card (set names)"
    using d assms(2,3) by (simp add: distinct_card)
  then show s: "set srt = set names" using sub by (simp add: card_subset_eq)
  show "distinct srt" by (rule d)
  show "\<not> cyclic edges"
    unfolding cyclic_def using cyclic_known [OF assms(4)] topo_no_cycle [OF t d] s by blast
qed

text \<open>Otherwise the nodes left over form a set in which every node has a dependency.\<close>

lemma kahn_rest_cyclic:
  assumes "kahn_inv names edges inD [] srt" "length srt \<noteq> length names" "distinct names"
  shows "\<exists>n \<in> {n \<in> set names. 0 < zget 0 inD n}. \<exists>ts. ts \<noteq> []
    \<and> walk (\<lambda>a b. depends edges a b \<and> 0 < zget 0 inD b \<and> b \<in> set names) n ts \<and> last ts = n"
proof -
  let ?R = "{n \<in> set names. 0 < zget 0 inD n}"
  have inD: "zget 0 inD n = int (length (filter (\<lambda>d. d \<notin> set srt) (known names edges n)))" for n
    by (rule kahn_invD(1) [OF assms(1)])
  have srt: "set srt = {n \<in> set names. zget 0 inD n = 0}" "distinct srt"
    using kahn_invD(2,3) [OF assms(1)] by auto
  have pos: "0 < zget 0 inD n \<longleftrightarrow> zget 0 inD n \<noteq> 0" for n by (subst (1 2) inD) simp
  have rest: "n \<in> ?R \<longleftrightarrow> n \<in> set names \<and> n \<notin> set srt" for n
    by (simp only: srt(1) mem_Collect_eq pos) blast
  have sub: "set srt \<subseteq> set names" unfolding srt(1) by blast
  have "?R \<noteq> {}"
  proof
    assume "?R = {}"
    then have "set srt = set names" using rest sub by blast
    with assms(2,3) srt(2) show False by (metis distinct_card)
  qed
  moreover have "\<exists>k \<in> ?R. depends edges n k \<and> 0 < zget 0 inD k \<and> k \<in> set names" if "n \<in> ?R" for n
  proof -
    from that inD [of n] have "filter (\<lambda>d. d \<notin> set srt) (known names edges n) \<noteq> []" by auto
    then obtain k where k: "k \<in> set (known names edges n)" "k \<notin> set srt"
      by (metis filter_False)
    then have "k \<in> set names" "depends edges n k" by (simp_all add: known_def)
    moreover from this k(2) have "k \<in> ?R" using rest by blast
    ultimately show ?thesis by blast
  qed
  ultimately show ?thesis
    by (intro finite_serial_cycle) auto
qed

section \<open>The search names a cycle\<close>

definition is_cycle :: "graph \<Rightarrow> string list \<Rightarrow> bool" where
  "is_cycle edges c = (c \<noteq> [] \<and> tl c \<noteq> [] \<and> walk (depends edges) (hd c) (tl c) \<and> last c = hd c)"

abbreviation child_of :: "graph \<Rightarrow> (string, string) gomap \<Rightarrow> string \<Rightarrow> string \<Rightarrow> bool" where
  "child_of edges parent x y \<equiv> map_of parent x = Some y \<and> depends edges y x"

lemma walk_rev:
  "successively (\<lambda>x y. R y x) (up @ [d]) \<Longrightarrow> walk R d (rev up)"
proof (induction up)
  case (Cons u us)
  have "last (d # rev us) = hd (us @ [d])" by (cases us) auto
  with Cons show ?case by (auto simp: walk_snoc successively_Cons)
qed simp

lemma climb_found:
  "successively (child_of edges parent) (node # g) \<Longrightarrow> dep \<in> set (node # g) \<Longrightarrow>
   \<exists>up. climb parent dep node = Some up
     \<and> (if up = [] then node = dep else hd up = node)
     \<and> walk (depends edges) dep (rev up)"
proof (induction g arbitrary: node)
  case Nil
  then show ?case by (simp add: climb.simps)
next
  case (Cons p g)
  show ?case
  proof (cases "node = dep")
    case True
    then show ?thesis by (simp add: climb.simps)
  next
    case False
    from Cons.prems have c: "map_of parent node = Some p" "depends edges p node"
      and g: "successively (child_of edges parent) (p # g)" by simp_all
    from Cons.IH [OF g] Cons.prems(2) False obtain up where up: "climb parent dep p = Some up"
      "if up = [] then p = dep else hd up = p" "walk (depends edges) dep (rev up)" by auto
    have "climb parent dep node = Some (node # up)"
      using False c(1) up(1) by (simp add: climb.simps [of parent dep node] zget_Some)
    moreover have "last (dep # rev up) = p"
      using up(2) by (cases up) auto
    ultimately show ?thesis using up(3) c(2) by (auto simp: walk_snoc)
  qed
qed

text \<open>
  The colors tell the path of open calls \<open>g\<close>, deepest first, from the finished nodes \<open>bs\<close>, in the order
  in which they were finished; a finished node comes after everything it depends on.
\<close>

definition dfs_inv ::
  "graph \<Rightarrow> (string, color) gomap \<Rightarrow> (string, string) gomap \<Rightarrow> string list \<Rightarrow> string list \<Rightarrow> bool" where
  "dfs_inv edges color parent g bs =
     ((\<forall>x. (zget White color x = Gray) = (x \<in> set g))
      \<and> (\<forall>x. (zget White color x = Black) = (x \<in> set bs))
      \<and> successively (child_of edges parent) g
      \<and> topo (\<lambda>n. set (zget [] edges n)) bs \<and> distinct bs)"

lemma successively_reparent:
  "dep \<notin> set g \<Longrightarrow> successively (child_of edges parent) g \<Longrightarrow>
   successively (child_of edges (AList.update dep n parent)) g"
  by (induction g) (auto simp: successively_Cons)

lemma dfs_inv_open:
  assumes "dfs_inv edges color parent g bs" and "zget White color node = White"
    and "g = [] \<or> child_of edges parent node (hd g)"
  shows "dfs_inv edges (AList.update node Gray color) parent (node # g) bs"
proof -
  have "node \<notin> set bs" using assms(1,2) unfolding dfs_inv_def by (metis color.distinct(3))
  with assms show ?thesis by (auto simp: dfs_inv_def successively_Cons)
qed

lemma dfs_inv_close:
  assumes "dfs_inv edges color parent (node # g) bs" and "node \<notin> set g"
    and "set (zget [] edges node) \<subseteq> set bs"
  shows "dfs_inv edges (AList.update node Black color) parent g (bs @ [node])"
proof -
  have "zget White color node = Gray" using assms(1) by (simp add: dfs_inv_def)
  then have "node \<notin> set bs" using assms(1) unfolding dfs_inv_def by (metis color.distinct(5))
  with assms show ?thesis by (auto simp: dfs_inv_def successively_Cons topo_snoc)
qed

definition dfs_result ::
  "graph \<Rightarrow> string list \<Rightarrow> string set \<Rightarrow>
   (string list + (string, color) gomap \<times> (string, string) gomap) option \<Rightarrow> bool" where
  "dfs_result edges g done r =
     (case r of None \<Rightarrow> False
      | Some (Inl c) \<Rightarrow> is_cycle edges c
      | Some (Inr (color, parent)) \<Rightarrow> \<exists>bs. dfs_inv edges color parent g bs \<and> done \<subseteq> set bs)"

definition closed_under :: "graph \<Rightarrow> string set \<Rightarrow> bool" where
  "closed_under edges U = (finite U \<and> (\<forall>x y. depends edges x y \<longrightarrow> y \<in> U))"

lemma dfs_spec:
  "dfs_inv edges color parent g bs \<Longrightarrow> zget White color node = White \<Longrightarrow>
      g = [] \<or> child_of edges parent node (hd g) \<Longrightarrow> node \<in> U \<Longrightarrow> closed_under edges U \<Longrightarrow>
      card (U - (set g \<union> set bs)) \<le> fuel \<Longrightarrow>
      dfs_result edges g (insert node (set bs)) (dfs edges fuel node color parent)"
    and "dfs_inv edges color parent (node # g) bs \<Longrightarrow> set deps \<subseteq> set (zget [] edges node) \<Longrightarrow>
      closed_under edges U \<Longrightarrow> card (U - (set (node # g) \<union> set bs)) \<le> fuel \<Longrightarrow>
      dfs_result edges (node # g) (set bs \<union> set deps) (dfs_deps edges fuel node deps color parent)"
proof (induction edges fuel node color parent and edges fuel node deps color parent
    arbitrary: g bs and g bs rule: dfs_dfs_deps.induct)
  case (1 edges node color parent)
  then have "node \<notin> set g \<union> set bs"
    unfolding dfs_inv_def by (metis Un_iff color.distinct(1,3))
  with 1(4) have "U - (set g \<union> set bs) \<noteq> {}" by blast
  moreover have "finite (U - (set g \<union> set bs))" using 1(5) by (simp add: closed_under_def)
  ultimately show ?case using 1(6) by simp
next
  case (2 edges fuel node color parent)
  have fresh: "node \<notin> set g \<union> set bs"
    using 2(2,3) unfolding dfs_inv_def by (metis Un_iff color.distinct(1,3))
  have "card (U - insert node (set g \<union> set bs)) < card (U - (set g \<union> set bs))"
    using 2(5,6) fresh by (intro card_visit) (auto simp: closed_under_def)
  then have fuel: "card (U - (set (node # g) \<union> set bs)) \<le> fuel" using 2(7) by simp
  let ?r = "dfs_deps edges fuel node (zget [] edges node) (AList.update node Gray color) parent"
  have r: "dfs_result edges (node # g) (set bs \<union> set (zget [] edges node)) ?r"
    by (rule "2.IH" [OF dfs_inv_open [OF 2(2,3,4)] order_refl 2(6) fuel])
  show ?case
  proof (cases "?r")
    case None
    with r show ?thesis by (simp add: dfs_result_def)
  next
    case (Some q)
    show ?thesis
    proof (cases q)
      case (Inl c)
      with r Some show ?thesis by (simp add: dfs_result_def)
    next
      case (Inr cp)
      then obtain color' parent' where q: "q = Inr (color', parent')" by (cases cp) auto
      with r Some obtain bs' where bs': "dfs_inv edges color' parent' (node # g) bs'"
        "set bs \<union> set (zget [] edges node) \<subseteq> set bs'" by (auto simp: dfs_result_def)
      have "dfs_inv edges (AList.update node Black color') parent' g (bs' @ [node])"
        using bs' fresh by (intro dfs_inv_close) auto
      moreover have "insert node (set bs) \<subseteq> set (bs' @ [node])" using bs'(2) by auto
      ultimately show ?thesis
        using Some q by (simp add: dfs_result_def) (rule exI [of _ "bs' @ [node]"], simp)
    qed
  qed
next
  case (3 edges fuel node color parent)
  then show ?case by (auto simp: dfs_result_def)
next
  case (4 edges fuel node dep deps color parent)
  have dep: "depends edges node dep" using "4.prems"(2) by simp
  consider (gray) "zget White color dep = Gray" | (white) "zget White color dep = White"
    | (black) "zget White color dep = Black" by (cases "zget White color dep")
  then show ?case
  proof cases
    case gray
    have "successively (child_of edges parent) (node # g)" "dep \<in> set (node # g)"
      using "4.prems"(1) gray unfolding dfs_inv_def by blast+
    from climb_found [OF this] obtain up where up: "climb parent dep node = Some up"
      "if up = [] then node = dep else hd up = node" "walk (depends edges) dep (rev up)" by blast
    have "last (dep # rev up) = node" using up(2) by (cases up) auto
    then have "walk (depends edges) dep (rev up @ [dep])" using up(3) dep by (simp add: walk_snoc)
    then have "is_cycle edges (rev (dep # up @ [dep]))" by (simp add: is_cycle_def)
    with gray up(1) show ?thesis by (simp add: dfs_result_def)
  next
    case white
    let ?r = "dfs edges fuel dep color (AList.update dep node parent)"
    have "dep \<notin> set (node # g)"
      using "4.prems"(1) white unfolding dfs_inv_def by (metis color.distinct(1))
    then have inv: "dfs_inv edges color (AList.update dep node parent) (node # g) bs"
      using "4.prems"(1) successively_reparent [where dep = dep and g = "node # g" and n = node] unfolding dfs_inv_def by blast
    have r: "dfs_result edges (node # g) (insert dep (set bs)) ?r"
      using 4(1) [OF _ white inv white] "4.prems"(3,4) dep white by (simp add: closed_under_def)
    show ?thesis
    proof (cases "?r")
      case None
      with r show ?thesis by (simp add: dfs_result_def)
    next
      case (Some q)
      show ?thesis
      proof (cases q)
        case (Inl c)
        with r Some white show ?thesis by (simp add: dfs_result_def)
      next
        case (Inr cp)
        then obtain color' parent' where q: "q = Inr (color', parent')" and cp: "cp = (color', parent')"
          by (cases cp) auto
        with r Some obtain bs' where bs': "dfs_inv edges color' parent' (node # g) bs'"
          "insert dep (set bs) \<subseteq> set bs'" by (auto simp: dfs_result_def)
        have "card (U - (set (node # g) \<union> set bs')) \<le> card (U - (set (node # g) \<union> set bs))"
          using bs'(2) "4.prems"(3) by (intro card_mono) (auto simp: closed_under_def)
        then have fuel: "card (U - (set (node # g) \<union> set bs')) \<le> fuel" using "4.prems"(4) by simp
        have deps: "set deps \<subseteq> set (zget [] edges node)" using "4.prems"(2) by simp
        have g: "zget White color dep \<noteq> Gray" using white by simp
        have "dfs_result edges (node # g) (set bs' \<union> set deps) (dfs_deps edges fuel node deps color' parent')"
          by (rule 4(2) [OF g white Some Inr cp [symmetric] bs'(1) deps "4.prems"(3) fuel])
        moreover have "set bs \<union> set (dep # deps) \<subseteq> set bs' \<union> set deps" using bs'(2) by auto
        ultimately show ?thesis
          using white Some q by (fastforce simp: dfs_result_def split: option.splits sum.splits)
      qed
    qed
  next
    case black
    then have "dep \<in> set bs" using "4.prems"(1) by (simp add: dfs_inv_def)
    then have "set bs \<union> set (dep # deps) = set bs \<union> set deps" by auto
    moreover have "dfs_result edges (node # g) (set bs \<union> set deps) (dfs_deps edges fuel node deps color parent)"
      using 4 black by simp
    ultimately show ?thesis using black by simp
  qed
qed

lemma dfs_roots_spec:
  "dfs_inv edges color parent [] bs \<Longrightarrow> set names \<subseteq> U \<Longrightarrow> closed_under edges U \<Longrightarrow> card U \<le> fuel \<Longrightarrow>
   \<exists>c. dfs_roots edges inD fuel names color parent = Some c
     \<and> (is_cycle edges c \<or> (\<exists>bs'. topo (\<lambda>n. set (zget [] edges n)) bs' \<and> distinct bs'
          \<and> set bs \<union> {n \<in> set names. 0 < zget 0 inD n} \<subseteq> set bs'))"
proof (induction names arbitrary: color parent bs)
  case Nil
  then show ?case by (auto simp: dfs_inv_def)
next
  case (Cons n names)
  have black: "n \<in> set bs" if "zget White color n \<noteq> White"
    using that Cons.prems(1) by (cases "zget White color n") (auto simp: dfs_inv_def)
  show ?case
  proof (cases "0 < zget 0 inD n \<and> zget White color n = White")
    case False
    then have "dfs_roots edges inD fuel (n # names) color parent = dfs_roots edges inD fuel names color parent"
      by auto
    with Cons.IH [OF Cons.prems(1)] Cons.prems(2-) False black show ?thesis by fastforce
  next
    case True
    have "card (U - (set [] \<union> set bs)) \<le> fuel"
      using Cons.prems(3,4) card_mono [of U "U - set bs"] by (auto simp: closed_under_def)
    then have r: "dfs_result edges [] (insert n (set bs)) (dfs edges fuel n color parent)"
      using Cons.prems True by (intro dfs_spec(1) [where U = U]) auto
    show ?thesis
    proof (cases "dfs edges fuel n color parent")
      case None
      with r show ?thesis by (simp add: dfs_result_def)
    next
      case (Some q)
      show ?thesis
      proof (cases q)
        case (Inl c)
        with r Some True show ?thesis by (auto simp: dfs_result_def)
      next
        case (Inr cp)
        then obtain color' parent' where q: "q = Inr (color', parent')" by (cases cp) auto
        with r Some obtain bs' where bs': "dfs_inv edges color' parent' [] bs'" "insert n (set bs) \<subseteq> set bs'"
          by (auto simp: dfs_result_def)
        from Cons.IH [OF bs'(1)] Cons.prems(2-) obtain c where
          c: "dfs_roots edges inD fuel names color' parent' = Some c"
          and "is_cycle edges c \<or> (\<exists>bs2. topo (\<lambda>n. set (zget [] edges n)) bs2 \<and> distinct bs2
            \<and> set bs' \<union> {n \<in> set names. 0 < zget 0 inD n} \<subseteq> set bs2)" by auto
        with bs'(2) have "is_cycle edges c \<or> (\<exists>bs2. topo (\<lambda>n. set (zget [] edges n)) bs2 \<and> distinct bs2
            \<and> set bs \<union> {m \<in> set (n # names). 0 < zget 0 inD m} \<subseteq> set bs2)" by fastforce
        with c Some q True show ?thesis by simp
      qed
    qed
  qed
qed

lemma findCyclePath_cycle:
  assumes "kahn_inv names edges inD [] srt" "length srt \<noteq> length names" "distinct names"
  shows "\<exists>c. findCyclePath (graph_fuel names edges) names edges inD = Some c \<and> is_cycle edges c"
proof -
  let ?U = "set names \<union> set (concat (map snd edges))"
  have "depends edges x y \<Longrightarrow> y \<in> ?U" for x y
    by (cases "map_of edges x") (force simp: zget_def dest: map_of_SomeD)+
  then have U: "closed_under edges ?U" unfolding closed_under_def by blast
  have "card ?U \<le> length (names @ concat (map snd edges))"
    using card_length [of "names @ concat (map snd edges)"] by simp
  then have fuel: "card ?U \<le> graph_fuel names edges" by (simp add: graph_fuel_def)
  have inv: "dfs_inv edges [] [] [] []" by (simp add: dfs_inv_def zget_def)
  from dfs_roots_spec [OF inv _ U fuel, of names inD] obtain c where
    c: "findCyclePath (graph_fuel names edges) names edges inD = Some c"
    and or: "is_cycle edges c \<or> (\<exists>bs. topo (\<lambda>n. set (zget [] edges n)) bs \<and> distinct bs
      \<and> {n \<in> set names. 0 < zget 0 inD n} \<subseteq> set bs)" by (auto simp: findCyclePath_def)
  from kahn_rest_cyclic [OF assms] obtain n ts where n: "n \<in> {n \<in> set names. 0 < zget 0 inD n}"
    and ts: "ts \<noteq> []" "walk (\<lambda>a b. depends edges a b \<and> 0 < zget 0 inD b \<and> b \<in> set names) n ts" "last ts = n"
    by blast
  have "walk (depends edges) n ts" by (rule walk_mono [OF _ ts(2)]) blast
  from or have "is_cycle edges c"
  proof
    assume "\<exists>bs. topo (\<lambda>n. set (zget [] edges n)) bs \<and> distinct bs
      \<and> {n \<in> set names. 0 < zget 0 inD n} \<subseteq> set bs"
    then obtain bs where "topo (\<lambda>n. set (zget [] edges n)) bs" "distinct bs" "n \<in> set bs" using n by blast
    from topo_no_cycle [OF this \<open>walk (depends edges) n ts\<close> ts(1)] ts(3) show ?thesis by simp
  qed
  with c show ?thesis by blast
qed

lemma is_cycle_cyclic: "is_cycle edges c \<Longrightarrow> cyclic edges"
  unfolding is_cycle_def cyclic_def by (metis last_ConsR list.collapse)

section \<open>The closure of the phase dependencies\<close>

definition phase_dep :: "Phase list \<Rightarrow> (nat \<times> nat) set" where
  "phase_dep phases = {(i, j). i < length phases
     \<and> (\<exists>dep \<in> set (ph_DependsOnPhases (phases ! i)). map_of (phase_lookup phases) dep = Some j)}"

definition closed_at :: "nat list list \<Rightarrow> nat \<Rightarrow> bool" where
  "closed_at r i = (\<forall>j \<in> set (r ! i). j < length r \<longrightarrow> set (r ! j) \<subseteq> set (r ! i))"

lemma same_rows: "rows_le r s \<Longrightarrow> rows_le s t \<Longrightarrow> map set t = map set r \<Longrightarrow> map set s = map set r"
proof (rule nth_equalityI)
  assume le: "rows_le r s" "rows_le s t" and eq: "map set t = map set r"
  show "length (map set s) = length (map set r)" using le by (simp add: rows_le_def)
  fix i assume i: "i < length (map set s)"
  then have "set (t ! i) = set (r ! i)"
    using eq le by (metis length_map nth_map rows_le_def)
  with i le show "map set s ! i = map set r ! i" by (fastforce simp: rows_le_def)
qed

lemma closed_at_cong:
  assumes "map set s = map set r" and "i < length r"
  shows "closed_at s i = closed_at r i"
proof -
  have "length s = length r" using assms(1) by (metis length_map)
  moreover have "set (s ! k) = set (r ! k)" if "k < length r" for k
    using assms(1) that calculation by (metis nth_map)
  ultimately show ?thesis using assms(2) by (simp add: closed_at_def) 
qed

lemma fold_close_fixed:
  "map set (fold (\<lambda>i r. close_row r i) is r) = map set r \<Longrightarrow> i \<in> set is \<Longrightarrow> i < length r \<Longrightarrow> closed_at r i"
proof (induction "is" arbitrary: r)
  case (Cons k "is")
  have same: "map set (close_row r k) = map set r"
    using Cons.prems(1) fold_close_row [of "close_row r k" "is"] close_row_le [of r k]
    by (intro same_rows [of r "close_row r k" "fold (\<lambda>i r. close_row r i) is (close_row r k)"]) auto
  show ?case
  proof (cases "i = k")
    case True
    have "set (close_row r k ! k) = set (r ! k)"
      using same Cons.prems(3) True by (metis length_map nth_map)
    then show ?thesis using Cons.prems(3) True by (auto simp: close_row_set closed_at_def)
  next
    case False
    with Cons same have "closed_at (close_row r k) i"
      by (simp add: close_row_def)
    then show ?thesis using closed_at_cong [OF same Cons.prems(3)] by simp
  qed
qed simp

lemma close_loop_closed: "i < length (close_loop r) \<Longrightarrow> closed_at (close_loop r) i"
proof (induction r rule: close_loop.induct)
  case (1 r)
  then show ?case
    using fold_close_fixed [of "[0..<length r]" r i]
    by (auto simp: close_loop.simps [of r] close_pass_def split: if_splits)
qed

lemma close_loop_le: "rows_le r (close_loop r)"
proof (induction r rule: close_loop.induct)
  case (1 r)
  then show ?case
    using fold_close_row [of r "[0..<length r]"]
    by (auto simp: close_loop.simps [of r] close_pass_def intro: rows_le_trans)
qed

definition within :: "(nat \<times> nat) set \<Rightarrow> nat list list \<Rightarrow> bool" where
  "within R r = (\<forall>i < length r. set (r ! i) \<subseteq> R\<^sup>+ `` {i})"

lemma within_close_row:
  assumes "within R r"
  shows "within R (close_row r i)"
proof -
  have row: "(k, x) \<in> R\<^sup>+" if "k < length r" "x \<in> set (r ! k)" for k x
    using assms that unfolding within_def by blast
  have "(k, x) \<in> R\<^sup>+" if k: "k < length r" and x: "x \<in> set (close_row r i ! k)" for k x
  proof (cases "x \<in> set (r ! k)")
    case False
    with x obtain j where "j \<in> set (r ! k)" "j < length r" "x \<in> set (r ! j)"
      by (auto simp: close_row_set split: if_splits)
    with row k show ?thesis by (meson trancl_trans)
  qed (rule row [OF k])
  then show ?thesis by (auto simp: within_def close_row_def)
qed

lemma within_close_loop: "within R r \<Longrightarrow> within R (close_loop r)"
proof (induction r rule: close_loop.induct)
  case (1 r)
  have "within R (fold (\<lambda>i r. close_row r i) is s)" if "within R s" for "is" s
    using that by (induction "is" arbitrary: s) (auto intro: within_close_row)
  with 1 show ?case by (auto simp: close_loop.simps [of r] close_pass_def)
qed

lemma direct_phase_deps_row:
  "i < length phases \<Longrightarrow> set (direct_phase_deps phases ! i) = phase_dep phases `` {i}"
  by (force simp: direct_phase_deps_def phase_dep_def List.map_filter_def)

lemma reachable_correct:
  assumes "i < length phases"
  shows "set (close_loop (direct_phase_deps phases) ! i) = (phase_dep phases)\<^sup>+ `` {i}"
proof -
  let ?r = "close_loop (direct_phase_deps phases)"
  have len0: "length (direct_phase_deps phases) = length phases" by (simp add: direct_phase_deps_def)
  then have len: "length ?r = length phases"
    using close_loop_le [of "direct_phase_deps phases"] by (simp add: rows_le_def)
  have "within (phase_dep phases) (direct_phase_deps phases)"
    using direct_phase_deps_row [of _ phases] by (fastforce simp: within_def len0)
  then have "set (?r ! i) \<subseteq> (phase_dep phases)\<^sup>+ `` {i}"
    using within_close_loop assms len by (auto simp: within_def)
  moreover have "j \<in> set (?r ! i)" if "(i, j) \<in> (phase_dep phases)\<^sup>+" for j
    using that
  proof induction
    case (base j)
    then have "j \<in> set (direct_phase_deps phases ! i)" using direct_phase_deps_row [OF assms] by simp
    then show ?case
      using close_loop_le [of "direct_phase_deps phases"] assms by (auto simp: rows_le_def len0)
  next
    case (step k j)
    have k: "k < length phases" using step.hyps(2) by (simp add: phase_dep_def)
    have "j \<in> set (direct_phase_deps phases ! k)" using direct_phase_deps_row [OF k] step.hyps(2) by simp
    then have "j \<in> set (?r ! k)"
      using close_loop_le [of "direct_phase_deps phases"] k by (auto simp: rows_le_def len0)
    then show ?case
      using close_loop_closed [of i "direct_phase_deps phases"] step.IH assms k by (auto simp: closed_at_def len)
  qed
  ultimately show ?thesis by blast
qed

lemma task_phase_bound:
  assumes "map_of (task_phase phases) t = Some i"
  shows "i < length phases"
proof -
  have inner: "map_of (fold (\<lambda>tid m. AList.update tid i m) ids m) t \<in> {map_of m t, Some i}" for ids i and m :: "(string, nat) gomap"
  proof (induction ids arbitrary: m)
    case (Cons a ids)
    then show ?case using Cons [of "AList.update a i m"] by (auto split: if_splits)
  qed simp
  have "map_of (fold (\<lambda>(i, p) m. fold (\<lambda>tid m. AList.update tid i m) (ph_TaskIDs p) m) ips m) t
      \<in> insert (map_of m t) (Some ` fst ` set ips)" for ips :: "(nat \<times> Phase) list" and m
  proof (induction ips arbitrary: m)
    case (Cons ip ips)
    obtain i p where ip: "ip = (i, p)" by fastforce
    show ?case using Cons [of "fold (\<lambda>tid m. AList.update tid i m) (ph_TaskIDs p) m"] inner [of i "ph_TaskIDs p" m]
      by (auto simp: ip)
  qed simp
  from this [of "enumerate 0 phases" "[]"] assms show ?thesis
    by (auto simp: task_phase_def in_set_enumerate_eq)
qed

lemma crosses_iff:
  "crosses (task_phase phases) (close_loop (direct_phase_deps phases)) t d \<longleftrightarrow>
     (\<exists>i j. map_of (task_phase phases) t = Some i \<and> map_of (task_phase phases) d = Some j
       \<and> i \<noteq> j \<and> (i, j) \<notin> (phase_dep phases)\<^sup>+)"
proof (cases "map_of (task_phase phases) t")
  case (Some i)
  show ?thesis
  proof (cases "map_of (task_phase phases) d")
    case d: (Some j)
    show ?thesis
      by (auto simp: crosses_def Some d reachable_correct [OF task_phase_bound [OF Some]])
  qed (simp add: crosses_def Some)
qed (simp add: crosses_def)

section \<open>Properties of the graph check\<close>

lemma validateDAG_order:
  assumes "distinct names" and "distinct (map fst edges)" and "fst ` set edges \<subseteq> set names"
    and "validateDAG names edges = Inr order"
  shows "distinct order" and "set order = set names" and "topo (\<lambda>n. set (known names edges n)) order"
    and "\<not> cyclic edges"
proof -
  have "distinct order \<and> set order = set names \<and> topo (\<lambda>n. set (known names edges n)) order \<and> \<not> cyclic edges"
  proof (cases "names = []")
    case True
    then have "edges = []" using assms(3) by simp
    then have "\<not> cyclic edges"
      unfolding cyclic_def by (metis depends_key empty_iff image_empty list.set(1) neq_Nil_conv walk.simps(2))
    then show ?thesis using True assms(4) by (simp add: validateDAG_def)
  next
    case False
    obtain srt inD where k: "kahn_inv names edges inD [] srt"
      and run: "validateDAG names edges = (if length srt = length names then Inr srt
        else Inl (CircularDependency (findCyclePath (graph_fuel names edges) names edges inD)))"
      using validateDAG_run [OF assms(1-3) False] .
    then have l: "length srt = length names" "srt = order" using assms(4) by (simp_all split: if_splits)
    show ?thesis using kahn_order_acyclic [OF k l(1) assms(1,3)] kahn_invD(4) [OF k] l(2) by simp
  qed
  then show "distinct order" "set order = set names" "topo (\<lambda>n. set (known names edges n)) order" "\<not> cyclic edges"
    by blast+
qed

lemma validateDAG_error:
  assumes "distinct names" and "distinct (map fst edges)" and "fst ` set edges \<subseteq> set names"
    and "validateDAG names edges = Inl (CircularDependency path)"
  shows "\<exists>c. path = Some c \<and> is_cycle edges c" and "cyclic edges"
proof -
  have n: "names \<noteq> []" using assms(4) by (auto simp: validateDAG_def)
  obtain srt inD where k: "kahn_inv names edges inD [] srt"
    and run: "validateDAG names edges = (if length srt = length names then Inr srt
      else Inl (CircularDependency (findCyclePath (graph_fuel names edges) names edges inD)))"
    using validateDAG_run [OF assms(1-3) n] .
  then have l: "length srt \<noteq> length names" "path = findCyclePath (graph_fuel names edges) names edges inD"
    using assms(4) by (simp_all split: if_splits)
  show e: "\<exists>c. path = Some c \<and> is_cycle edges c"
    unfolding l(2) using findCyclePath_cycle [OF k l(1) assms(1)] by blast
  then show "cyclic edges" by (auto dest: is_cycle_cyclic)
qed

text \<open>
  C16. \<open>validateDAG\<close> decides acyclicity, when the names are distinct and the map has keys among them only. On success
  it returns the names in an order in which every one comes after the names it depends on, and the graph
  has no cycle; on an error the path it reports is a cycle of the graph. Both searches end, and the
  fallback message without a path is never reported.
\<close>

theorem validateDAG_correct:
  assumes "distinct names" and "distinct (map fst edges)" and "fst ` set edges \<subseteq> set names"
  shows "case validateDAG names edges of
      Inr order \<Rightarrow> distinct order \<and> set order = set names
        \<and> topo (\<lambda>n. set (known names edges n)) order \<and> \<not> cyclic edges
    | Inl (CircularDependency path) \<Rightarrow> (\<exists>c. path = Some c \<and> is_cycle edges c) \<and> cyclic edges"
  using validateDAG_order [OF assms] validateDAG_error [OF assms]
  by (simp split: sum.split DagError.split)

lemma validateDAG_correct_witness:
  "validateDAG [''a'', ''b'', ''c''] [(''a'', []), (''b'', [''a'', ''x'']), (''c'', [''b'', ''a''])] = Inr [''a'', ''b'', ''c'']
   \<and> \<not> cyclic [(''a'', []), (''b'', [''a'', ''x'']), (''c'', [''b'', ''a''])]
   \<and> cyclic [(''a'', [''b'']), (''b'', [''a''])]"
proof -
  let ?e = "[(''a'', []), (''b'', [''a'', ''x'']), (''c'', [''b'', ''a''])]"
  let ?f = "[(''a'', [''b'']), (''b'', [''a''])]"
  have r: "validateDAG [''a'', ''b'', ''c''] ?e = Inr [''a'', ''b'', ''c'']"
    by (simp add: validateDAG_def zget_def)
  have s: "validateDAG [''a'', ''b''] ?f = Inl (CircularDependency (Some [''a'', ''b'', ''a'']))"
    by (simp add: validateDAG_def zget_def findCyclePath_def graph_fuel_def eval_nat_numeral climb.simps)
  show ?thesis
    using validateDAG_correct [of "[''a'', ''b'', ''c'']" ?e] r
      validateDAG_correct [of "[''a'', ''b'']" ?f] s by simp
qed

text \<open>
  C17. The cross-phase check accepts a state exactly when it has at most one phase or every dependency between
  tasks of two different phases follows the transitive phase dependencies; its closure loop ends on every
  state, cyclic phase dependencies included.
\<close>

theorem cross_phase_check_correct:
  "validateCrossPhaseRefs state = Inr () \<longleftrightarrow>
     length (Phases state) \<le> 1 \<or>
     {(i, j). i \<noteq> j \<and> (\<exists>(t, d) \<in> set (dependency_pairs (TaskDependencies state)).
        map_of (task_phase (Phases state)) t = Some i \<and> map_of (task_phase (Phases state)) d = Some j)}
     \<subseteq> (phase_dep (Phases state))\<^sup>+"
proof (cases "length (Phases state) \<le> 1")
  case True
  then show ?thesis by (simp add: validateCrossPhaseRefs_def)
next
  case False
  let ?tp = "task_phase (Phases state)" and ?r = "close_loop (direct_phase_deps (Phases state))"
  let ?pairs = "set (dependency_pairs (TaskDependencies state))" and ?R = "(phase_dep (Phases state))\<^sup>+"
  have "validateCrossPhaseRefs state = Inr () \<longleftrightarrow>
      find (\<lambda>(t, d). crosses ?tp ?r t d) (dependency_pairs (TaskDependencies state)) = None"
    using False by (simp add: validateCrossPhaseRefs_def Let_def split: option.split)
  also have "\<dots> \<longleftrightarrow> (\<forall>(t, d) \<in> ?pairs. \<not> crosses ?tp ?r t d)"
    by (fastforce simp: find_None_iff)
  also have "\<dots> \<longleftrightarrow> (\<forall>(t, d) \<in> ?pairs. \<forall>i j. map_of ?tp t = Some i \<longrightarrow> map_of ?tp d = Some j \<longrightarrow> i \<noteq> j \<longrightarrow> (i, j) \<in> ?R)"
    unfolding crosses_iff by (intro ball_cong refl) (simp add: split_beta, blast)
  also have "\<dots> \<longleftrightarrow> {(i, j). i \<noteq> j \<and> (\<exists>(t, d) \<in> ?pairs. map_of ?tp t = Some i \<and> map_of ?tp d = Some j)} \<subseteq> ?R"
    by blast
  finally show ?thesis using False by simp
qed

end
