(* ===== verification/Queue_Model.thy ===== *)
theory Queue_Model imports Status_Machine begin

text \<open>
  Queue rows (\<open>internal/model/queue.go\<close>) and result rows (\<open>internal/model/result.go\<close>). The
  fields that commands, tasks and notifications share come first, as one record that the three
  row types extend; this is the view the lease manager has of them.
\<close>

section \<open>Queue rows\<close>

record queue_row =
  q_ID :: string
  q_Priority :: int
  q_Status :: Status
  q_Attempts :: int
  q_LastError :: "string option"
  q_DeadLetteredAt :: "stamp option"
  q_DeadLetterReason :: "string option"
  q_LeaseOwner :: "string option"
  q_LeaseExpiresAt :: "stamp option"
  q_LeaseEpoch :: int
  q_CreatedAt :: stamp
  q_UpdatedAt :: stamp

record Command = queue_row +
  cm_DispatchID :: string
  cm_Content :: string
  cm_SkillRefs :: "string list"
  cm_CancelReason :: "string option"
  cm_CancelRequestedAt :: "stamp option"
  cm_CancelRequestedBy :: "string option"

record DefinitionOfAbort =
  MaxRepairCount :: int
  MaxWallClockSec :: int
  ExplicitFailureConditions :: "string list"

definition DefaultDefinitionOfAbort :: DefinitionOfAbort where
  "DefaultDefinitionOfAbort =
     \<lparr>MaxRepairCount = 3, MaxWallClockSec = 1800, ExplicitFailureConditions = []\<rparr>"

record Task = queue_row +
  tk_DispatchID :: string
  tk_CommandID :: string
  tk_Purpose :: string
  tk_Content :: string
  tk_AcceptanceCriteria :: string
  tk_DefinitionOfDone :: "string list"
  tk_Constraints :: "string list"
  tk_BlockedBy :: "string list"
  tk_BloomLevel :: int
  tk_ToolsHint :: "string list"
  tk_PersonaHint :: string
  tk_SkillRefs :: "string list"
  tk_ExpectedPaths :: "string list"
  tk_DefinitionOfAbort :: "DefinitionOfAbort option"
  tk_ExecutionRetries :: int
  tk_OriginalTaskID :: string
  tk_NotBefore :: "stamp option"
  tk_AttemptsChargedEpoch :: int
  tk_LastProgressEpoch :: int
  tk_ProgressInterrupts :: int
  tk_ResumeAttempts :: int
  tk_ResumeRequested :: bool
  tk_InProgressAt :: "stamp option"
  tk_Runtime :: string
  tk_ModelOverride :: string
  tk_ComplexityLevel :: string
  tk_ABGroupID :: string
  tk_RunOnMain :: bool
  tk_RunOnIntegration :: bool
  tk_ResumeHint :: string
  tk_RequiredCapabilities :: "string list"
  tk_PreferredCapabilities :: "string list"
  tk_OperationType :: string

record Notification = queue_row +
  nt_CommandID :: string
  nt_Type :: NotificationType
  nt_SourceResultID :: string
  nt_Content :: string

text \<open>The zero values of the row types, with an id and a status.\<close>

definition zero_Task :: "string \<Rightarrow> Status \<Rightarrow> Task" where
  "zero_Task i s =
     \<lparr>q_ID = i, q_Priority = 0, q_Status = s, q_Attempts = 0, q_LastError = None, q_DeadLetteredAt = None,
      q_DeadLetterReason = None, q_LeaseOwner = None, q_LeaseExpiresAt = None, q_LeaseEpoch = 0,
      q_CreatedAt = BadStamp [], q_UpdatedAt = BadStamp [],
      tk_DispatchID = [], tk_CommandID = [], tk_Purpose = [], tk_Content = [], tk_AcceptanceCriteria = [],
      tk_DefinitionOfDone = [], tk_Constraints = [], tk_BlockedBy = [], tk_BloomLevel = 0, tk_ToolsHint = [],
      tk_PersonaHint = [], tk_SkillRefs = [], tk_ExpectedPaths = [], tk_DefinitionOfAbort = None,
      tk_ExecutionRetries = 0, tk_OriginalTaskID = [], tk_NotBefore = None, tk_AttemptsChargedEpoch = 0,
      tk_LastProgressEpoch = 0, tk_ProgressInterrupts = 0, tk_ResumeAttempts = 0, tk_ResumeRequested = False,
      tk_InProgressAt = None, tk_Runtime = [], tk_ModelOverride = [], tk_ComplexityLevel = [], tk_ABGroupID = [],
      tk_RunOnMain = False, tk_RunOnIntegration = False, tk_ResumeHint = [], tk_RequiredCapabilities = [],
      tk_PreferredCapabilities = [], tk_OperationType = []\<rparr>"

definition zero_Command :: "string \<Rightarrow> Status \<Rightarrow> Command" where
  "zero_Command i s =
     \<lparr>q_ID = i, q_Priority = 0, q_Status = s, q_Attempts = 0, q_LastError = None, q_DeadLetteredAt = None,
      q_DeadLetterReason = None, q_LeaseOwner = None, q_LeaseExpiresAt = None, q_LeaseEpoch = 0,
      q_CreatedAt = BadStamp [], q_UpdatedAt = BadStamp [],
      cm_DispatchID = [], cm_Content = [], cm_SkillRefs = [], cm_CancelReason = None,
      cm_CancelRequestedAt = None, cm_CancelRequestedBy = None\<rparr>"

definition ResumeEligible :: "Task \<Rightarrow> bool" where
  "ResumeEligible t =
     (if tk_ResumeHint t = ''allow'' then True
      else if tk_ResumeHint t = [] then \<not> tk_RunOnIntegration t
      else False)"

definition GetDoneConditions :: "Task \<Rightarrow> string list" where
  "GetDoneConditions t =
     (if tk_DefinitionOfDone t \<noteq> [] then tk_DefinitionOfDone t
      else if tk_AcceptanceCriteria t \<noteq> [] then [tk_AcceptanceCriteria t]
      else [])"

section \<open>Result rows\<close>

record NotifiableBase =
  Notified :: bool
  NotifyAttempts :: int
  NotifyLeaseOwner :: "string option"
  NotifyLeaseExpiresAt :: "stamp option"
  NotifiedAt :: "stamp option"
  NotifyLastError :: "string option"
  NotifyDeadLettered :: bool
  NotifyDeadLetteredAt :: "stamp option"
  NotifyDeadLetterReason :: "string option"

definition AcquireLease :: "string \<Rightarrow> stamp \<Rightarrow> 'a NotifiableBase_scheme \<Rightarrow> 'a NotifiableBase_scheme" where
  "AcquireLease owner expiresAt n =
     n\<lparr>NotifyLeaseOwner := Some owner, NotifyLeaseExpiresAt := Some expiresAt,
       NotifyAttempts := NotifyAttempts n + 1\<rparr>"

definition MarkNotified :: "stamp \<Rightarrow> 'a NotifiableBase_scheme \<Rightarrow> 'a NotifiableBase_scheme" where
  "MarkNotified at n =
     n\<lparr>Notified := True, NotifiedAt := Some at, NotifyLeaseOwner := None, NotifyLeaseExpiresAt := None\<rparr>"

definition MarkNotifyFailure ::
  "string \<Rightarrow> string \<Rightarrow> stamp \<Rightarrow> 'a NotifiableBase_scheme \<Rightarrow> 'a NotifiableBase_scheme" where
  "MarkNotifyFailure errMsg backoffOwner backoffExpiresAt n =
     n\<lparr>NotifyLastError := Some errMsg, NotifyLeaseOwner := Some backoffOwner,
       NotifyLeaseExpiresAt := Some backoffExpiresAt\<rparr>"

definition MarkNotifyDeadLetter ::
  "stamp \<Rightarrow> string \<Rightarrow> 'a NotifiableBase_scheme \<Rightarrow> 'a NotifiableBase_scheme" where
  "MarkNotifyDeadLetter at reason n =
     n\<lparr>NotifyDeadLettered := True, NotifyDeadLetteredAt := Some at,
       NotifyDeadLetterReason := Some reason, NotifyLeaseOwner := None, NotifyLeaseExpiresAt := None\<rparr>"

record CommandResultTask =
  rt_TaskID :: string
  rt_Worker :: string
  rt_Status :: Status
  rt_Summary :: string

record TaskStats =
  Total :: nat
  Completed :: nat
  Failed :: nat
  Cancelled :: nat

record CommandResult = NotifiableBase +
  cr_ID :: string
  cr_CommandID :: string
  cr_Status :: Status
  cr_Summary :: string
  cr_TaskStats :: TaskStats
  cr_Tasks :: "CommandResultTask list"
  cr_CreatedAt :: stamp

text \<open>One pass over the results, counting by status.\<close>

definition ComputeTaskStats :: "CommandResultTask list \<Rightarrow> TaskStats" where
  "ComputeTaskStats tasks =
     fold (\<lambda>t stats.
       if rt_Status t = StatusCompleted then stats\<lparr>Completed := Completed stats + 1\<rparr>
       else if rt_Status t = StatusFailed then stats\<lparr>Failed := Failed stats + 1\<rparr>
       else if rt_Status t = StatusCancelled then stats\<lparr>Cancelled := Cancelled stats + 1\<rparr>
       else stats)
     tasks \<lparr>Total = length tasks, Completed = 0, Failed = 0, Cancelled = 0\<rparr>"

text \<open>The classes never exceed the total; what is left over has another status.\<close>

lemma ComputeTaskStats_counts:
  "ComputeTaskStats tasks =
     \<lparr>Total = length tasks,
      Completed = length (filter (\<lambda>t. rt_Status t = StatusCompleted) tasks),
      Failed = length (filter (\<lambda>t. rt_Status t = StatusFailed) tasks),
      Cancelled = length (filter (\<lambda>t. rt_Status t = StatusCancelled) tasks)\<rparr>"
proof -
  let ?step = "\<lambda>t (stats::TaskStats).
       if rt_Status t = StatusCompleted then stats\<lparr>Completed := Completed stats + 1\<rparr>
       else if rt_Status t = StatusFailed then stats\<lparr>Failed := Failed stats + 1\<rparr>
       else if rt_Status t = StatusCancelled then stats\<lparr>Cancelled := Cancelled stats + 1\<rparr>
       else stats"
  have "fold ?step tasks \<lparr>Total = n, Completed = a, Failed = b, Cancelled = c\<rparr> =
     \<lparr>Total = n,
      Completed = a + length (filter (\<lambda>t. rt_Status t = StatusCompleted) tasks),
      Failed = b + length (filter (\<lambda>t. rt_Status t = StatusFailed) tasks),
      Cancelled = c + length (filter (\<lambda>t. rt_Status t = StatusCancelled) tasks)\<rparr>" for n a b c
    by (induction tasks arbitrary: a b c) auto
  then show ?thesis by (simp add: ComputeTaskStats_def)
qed

end
