(* ===== verification/Lease.thy ===== *)
theory Lease imports Queue_Model begin

text \<open>
  The lease manager (\<open>internal/daemon/lease/manager.go\<close>). The struct \<open>leaseRef\<close> of pointers into
  a command, task or notification is the shared record prefix \<open>queue_row\<close>; its validator and
  hooks are arguments. Times are nanoseconds. An operation that returns an error leaves the row alone.
\<close>

section \<open>Operations\<close>

record Manager =
  dispatchLeaseSec :: int
  maxInProgressMin :: int

definition DefaultMaxInProgressMin :: int where
  "DefaultMaxInProgressMin = 60"

definition EffectiveMaxInProgressMin :: "int option \<Rightarrow> int" where
  "EffectiveMaxInProgressMin w = (case w of Some v \<Rightarrow> v | None \<Rightarrow> DefaultMaxInProgressMin)"

text \<open>\<open>New\<close>, on the two settings of the watcher configuration it reads.\<close>

definition NewManager :: "int \<Rightarrow> int option \<Rightarrow> Manager" where
  "NewManager dispatchLease maxInProgress =
     \<lparr>dispatchLeaseSec = (if dispatchLease \<le> 0 then 300 else dispatchLease),
      maxInProgressMin = EffectiveMaxInProgressMin maxInProgress\<rparr>"

datatype LeaseError =
    CannotAcquire "Status TransitionError"
  | CannotRelease "Status TransitionError"
  | CannotExtend Status

type_synonym validator = "Status \<Rightarrow> Status \<Rightarrow> Status TransitionError + unit"

definition acquireLease ::
  "Manager \<Rightarrow> int \<Rightarrow> validator \<Rightarrow> (stamp \<Rightarrow> 'a queue_row_scheme \<Rightarrow> 'a queue_row_scheme) \<Rightarrow> string \<Rightarrow>
   'a queue_row_scheme \<Rightarrow> LeaseError + 'a queue_row_scheme" where
  "acquireLease lm now validate postAcquire owner row =
     (case validate (q_Status row) StatusInProgress of
        Inl e \<Rightarrow> Inl (CannotAcquire e)
      | Inr _ \<Rightarrow>
          (let expires = now + seconds (dispatchLeaseSec lm); nowStr = fmt_stamp now in
           Inr (postAcquire nowStr
             (row\<lparr>q_Status := StatusInProgress, q_LeaseOwner := Some owner,
                  q_LeaseExpiresAt := Some (fmt_stamp expires), q_LeaseEpoch := q_LeaseEpoch row + 1,
                  q_UpdatedAt := nowStr\<rparr>))))"

definition releaseLease ::
  "int \<Rightarrow> validator \<Rightarrow> ('a queue_row_scheme \<Rightarrow> 'a queue_row_scheme) \<Rightarrow>
   'a queue_row_scheme \<Rightarrow> LeaseError + 'a queue_row_scheme" where
  "releaseLease now validate postRelease row =
     (case validate (q_Status row) StatusPending of
        Inl e \<Rightarrow> Inl (CannotRelease e)
      | Inr _ \<Rightarrow>
          Inr (postRelease
            (row\<lparr>q_Status := StatusPending, q_LeaseOwner := None, q_LeaseExpiresAt := None,
                 q_UpdatedAt := fmt_stamp now\<rparr>)))"

definition extendLeaseExpiry ::
  "int \<Rightarrow> int \<Rightarrow> 'a queue_row_scheme \<Rightarrow> LeaseError + 'a queue_row_scheme" where
  "extendLeaseExpiry now ttl row =
     (if q_Status row \<noteq> StatusInProgress then Inl (CannotExtend (q_Status row))
      else Inr (row\<lparr>q_LeaseExpiresAt := Some (fmt_stamp (now + ttl))\<rparr>))"

text \<open>The hooks of a task: the dispatch time is set once per lease and cleared on release.\<close>

definition task_postAcquire :: "stamp \<Rightarrow> Task \<Rightarrow> Task" where
  "task_postAcquire nowStr task =
     (if tk_InProgressAt task = None then task\<lparr>tk_InProgressAt := Some nowStr\<rparr> else task)"

definition task_postRelease :: "Task \<Rightarrow> Task" where
  "task_postRelease task = task\<lparr>tk_InProgressAt := None\<rparr>"

definition AcquireCommandLease :: "Manager \<Rightarrow> int \<Rightarrow> string \<Rightarrow> Command \<Rightarrow> LeaseError + Command" where
  "AcquireCommandLease lm now owner cmd =
     acquireLease lm now ValidateCommandTaskQueueTransition (\<lambda>_ c. c) owner cmd"

definition AcquireTaskLease :: "Manager \<Rightarrow> int \<Rightarrow> string \<Rightarrow> Task \<Rightarrow> LeaseError + Task" where
  "AcquireTaskLease lm now owner task =
     acquireLease lm now ValidateCommandTaskQueueTransition task_postAcquire owner task"

definition AcquireNotificationLease ::
  "Manager \<Rightarrow> int \<Rightarrow> string \<Rightarrow> Notification \<Rightarrow> LeaseError + Notification" where
  "AcquireNotificationLease lm now owner ntf =
     acquireLease lm now ValidateNotificationQueueTransition (\<lambda>_ n. n) owner ntf"

definition ReleaseCommandLease :: "int \<Rightarrow> Command \<Rightarrow> LeaseError + Command" where
  "ReleaseCommandLease now cmd = releaseLease now ValidateCommandTaskQueueTransition (\<lambda>c. c) cmd"

definition ReleaseTaskLease :: "int \<Rightarrow> Task \<Rightarrow> LeaseError + Task" where
  "ReleaseTaskLease now task =
     releaseLease now ValidateCommandTaskQueueTransition task_postRelease task"

definition ReleaseNotificationLease :: "int \<Rightarrow> Notification \<Rightarrow> LeaseError + Notification" where
  "ReleaseNotificationLease now ntf =
     releaseLease now ValidateNotificationQueueTransition (\<lambda>n. n) ntf"

definition ExtendCommandLease :: "Manager \<Rightarrow> int \<Rightarrow> Command \<Rightarrow> LeaseError + Command" where
  "ExtendCommandLease lm now cmd = extendLeaseExpiry now (seconds (dispatchLeaseSec lm)) cmd"

definition ExtendTaskLease :: "Manager \<Rightarrow> int \<Rightarrow> Task \<Rightarrow> LeaseError + Task" where
  "ExtendTaskLease lm now task = extendLeaseExpiry now (seconds (dispatchLeaseSec lm)) task"

definition ExtendCommandLeaseGrace :: "int \<Rightarrow> int \<Rightarrow> Command \<Rightarrow> LeaseError + Command" where
  "ExtendCommandLeaseGrace now graceTTL cmd = extendLeaseExpiry now graceTTL cmd"

definition ExtendTaskLeaseGrace :: "int \<Rightarrow> int \<Rightarrow> Task \<Rightarrow> LeaseError + Task" where
  "ExtendTaskLeaseGrace now graceTTL task = extendLeaseExpiry now graceTTL task"

text \<open>
  The grace in seconds; \<open>GraceLeaseTTL\<close> multiplies it by a second. Both divisions have a positive
  dividend (\<open>New\<close> makes the lease positive), so Go's truncation is \<open>div\<close>.
\<close>

definition grace_seconds :: "Manager \<Rightarrow> int \<Rightarrow> int" where
  "grace_seconds lm scanIntervalSec =
     (let scan = (if scanIntervalSec \<le> 0 then 10 else scanIntervalSec);
          twoScans = 2 * scan;
          thirdLease = dispatchLeaseSec lm div 3;
          grace1 = (if thirdLease > twoScans then thirdLease else twoScans);
          halfLease = dispatchLeaseSec lm div 2;
          grace2 = (if grace1 > halfLease then halfLease else grace1);
          minGrace = scan + 10;
          grace3 = (if grace2 < minGrace then minGrace else grace2)
      in if grace3 < 1 then 1 else grace3)"

definition GraceLeaseTTL :: "Manager \<Rightarrow> int \<Rightarrow> int" where
  "GraceLeaseTTL lm scanIntervalSec = seconds (grace_seconds lm scanIntervalSec)"

definition IsLeaseExpired :: "int \<Rightarrow> stamp option \<Rightarrow> bool" where
  "IsLeaseExpired now leaseExpiresAt =
     (case leaseExpiresAt of
        None \<Rightarrow> True
      | Some s \<Rightarrow> (case parse_stamp s of None \<Rightarrow> True | Some expires \<Rightarrow> expires < now))"

definition IsLeaseNearExpiry :: "int \<Rightarrow> stamp option \<Rightarrow> int \<Rightarrow> bool" where
  "IsLeaseNearExpiry now leaseExpiresAt bufferSec =
     (case leaseExpiresAt of
        None \<Rightarrow> True
      | Some s \<Rightarrow>
          (case parse_stamp s of None \<Rightarrow> True | Some expires \<Rightarrow> expires < now + seconds bufferSec))"

text \<open>The indices of the rows that satisfy a test, in order.\<close>

definition indices_where :: "('a \<Rightarrow> bool) \<Rightarrow> 'a list \<Rightarrow> nat list" where
  "indices_where p xs = filter (\<lambda>i. p (xs ! i)) [0..<length xs]"

definition expired_row :: "int \<Rightarrow> 'a queue_row_scheme \<Rightarrow> bool" where
  "expired_row now row = (q_Status row = StatusInProgress \<and> IsLeaseExpired now (q_LeaseExpiresAt row))"

definition ExpireCommands :: "int \<Rightarrow> Command list \<Rightarrow> nat list" where
  "ExpireCommands now commands = indices_where (expired_row now) commands"

definition ExpireTasks :: "int \<Rightarrow> Task list \<Rightarrow> nat list" where
  "ExpireTasks now tasks = indices_where (expired_row now) tasks"

definition ExpireNotifications :: "int \<Rightarrow> Notification list \<Rightarrow> nat list" where
  "ExpireNotifications now notifications = indices_where (expired_row now) notifications"

definition RenewableCommands :: "int \<Rightarrow> Command list \<Rightarrow> int \<Rightarrow> nat list" where
  "RenewableCommands now commands bufferSec =
     indices_where (\<lambda>cmd.
       if q_Status cmd \<noteq> StatusInProgress then False
       else if IsLeaseExpired now (q_LeaseExpiresAt cmd) then False
       else IsLeaseNearExpiry now (q_LeaseExpiresAt cmd) bufferSec) commands"

definition IsTaskMaxInProgressTimeout :: "Manager \<Rightarrow> int \<Rightarrow> Task \<Rightarrow> bool" where
  "IsTaskMaxInProgressTimeout lm now task =
     (if maxInProgressMin lm \<le> 0 then False
      else (let timestamp = (case tk_InProgressAt task of
                  Some s \<Rightarrow> if s \<noteq> BadStamp [] then s else q_UpdatedAt task
                | None \<Rightarrow> q_UpdatedAt task) in
            case parse_stamp timestamp of
              None \<Rightarrow> False
            | Some t \<Rightarrow> seconds (60 * maxInProgressMin lm) \<le> now - t))"

section \<open>The lease protocol\<close>

text \<open>
  A run of calls on one row. The calls are the three kinds the manager has; a failing call changes
  nothing. The second result lists the epochs handed out, in order.
\<close>

datatype lease_call = Acquire string | Release | Extend int

fun lease_run ::
  "(int \<Rightarrow> string \<Rightarrow> 'e \<Rightarrow> 'x + 'e) \<Rightarrow> (int \<Rightarrow> 'e \<Rightarrow> 'x + 'e) \<Rightarrow> (int \<Rightarrow> int \<Rightarrow> 'e \<Rightarrow> 'x + 'e) \<Rightarrow> ('e \<Rightarrow> int) \<Rightarrow>
   (int \<times> lease_call) list \<Rightarrow> 'e \<Rightarrow> 'e \<times> int list" where
  "lease_run acq rel ext epoch [] e = (e, [])"
| "lease_run acq rel ext epoch ((now, call) # calls) e =
     (case (case call of Acquire owner \<Rightarrow> acq now owner e | Release \<Rightarrow> rel now e | Extend ttl \<Rightarrow> ext now ttl e) of
        Inl _ \<Rightarrow> lease_run acq rel ext epoch calls e
      | Inr e' \<Rightarrow>
          (case lease_run acq rel ext epoch calls e' of
             (final, epochs) \<Rightarrow>
               (final, (case call of Acquire _ \<Rightarrow> epoch e' # epochs | _ \<Rightarrow> epochs))))"

text \<open>
  What a client of a leased row relies on. The epoch is the fencing token that result writes are
  checked against: it must never be handed out twice.
\<close>

locale lease_protocol =
  fixes status :: "'e \<Rightarrow> Status"
    and owner :: "'e \<Rightarrow> string option"
    and expires :: "'e \<Rightarrow> stamp option"
    and epoch :: "'e \<Rightarrow> int"
    and acq :: "int \<Rightarrow> string \<Rightarrow> 'e \<Rightarrow> 'x + 'e"
    and rel :: "int \<Rightarrow> 'e \<Rightarrow> 'x + 'e"
    and ext :: "int \<Rightarrow> int \<Rightarrow> 'e \<Rightarrow> 'x + 'e"
  assumes acq_law: "acq now w e = Inr e' \<Longrightarrow>
      status e = StatusPending \<and> status e' = StatusInProgress \<and> owner e' = Some w
      \<and> expires e' \<noteq> None \<and> epoch e' = epoch e + 1"
    and rel_law: "rel now e = Inr e' \<Longrightarrow>
      status e = StatusInProgress \<and> status e' = StatusPending \<and> owner e' = None
      \<and> expires e' = None \<and> epoch e' = epoch e"
    and ext_law: "ext now ttl e = Inr e' \<Longrightarrow>
      status e = StatusInProgress \<and> status e' = StatusInProgress \<and> owner e' = owner e
      \<and> expires e' \<noteq> None \<and> epoch e' = epoch e"
begin

lemma epochs_consecutive:
  "lease_run acq rel ext epoch calls e = (e', epochs) \<Longrightarrow>
   epochs = map (\<lambda>k. epoch e + 1 + int k) [0..<length epochs] \<and> epoch e' = epoch e + int (length epochs)"
proof (induction calls arbitrary: e epochs)
  case (Cons c calls)
  obtain now call where c: "c = (now, call)" by fastforce
  let ?r = "case call of Acquire owner \<Rightarrow> acq now owner e | Release \<Rightarrow> rel now e | Extend ttl \<Rightarrow> ext now ttl e"
  show ?case
  proof (cases ?r)
    case (Inl x)
    with Cons show ?thesis by (simp add: c)
  next
    case (Inr e1)
    obtain epochs1 where r: "lease_run acq rel ext epoch calls e1 = (e', epochs1)"
      and ep: "epochs = (case call of Acquire _ \<Rightarrow> epoch e1 # epochs1 | _ \<Rightarrow> epochs1)"
      using Cons.prems Inr by (auto simp: c split: prod.splits)
    note ih = Cons.IH [OF r]
    show ?thesis
    proof (cases call)
      case (Acquire w)
      then have e1: "epoch e1 = epoch e + 1" using Inr acq_law by auto
      have "epochs = epoch e1 # epochs1" using ep Acquire by simp
      moreover have "[0..<Suc (length epochs1)] = 0 # map Suc [0..<length epochs1]"
        by (simp add: upt_conv_Cons map_Suc_upt del: upt_Suc)
      ultimately show ?thesis
        using ih e1 by (simp add: comp_def algebra_simps del: upt_Suc)
    next
      case Release
      then have "epoch e1 = epoch e" using Inr rel_law by auto
      then show ?thesis using ih ep Release by simp
    next
      case (Extend ttl)
      then have "epoch e1 = epoch e" using Inr ext_law by auto
      then show ?thesis using ih ep Extend by simp
    qed
  qed
qed simp

text \<open>The token is never reused, and its holder is the only one.\<close>

lemma epochs_distinct: "lease_run acq rel ext epoch calls e = (e', epochs) \<Longrightarrow> distinct epochs"
  using epochs_consecutive [of calls e e' epochs] by (metis (no_types, lifting) add_left_cancel
      distinct_map distinct_upt inj_onI of_nat_eq_iff)

lemma owned_iff_in_progress:
  assumes "(status e = StatusInProgress) = (owner e \<noteq> None)"
  shows "lease_run acq rel ext epoch calls e = (e', epochs) \<Longrightarrow>
    (status e' = StatusInProgress) = (owner e' \<noteq> None)"
  using assms
proof (induction calls arbitrary: e epochs)
  case (Cons c calls)
  obtain now call where c: "c = (now, call)" by fastforce
  show ?case
    using Cons by (auto simp: c dest!: acq_law rel_law ext_law split: sum.splits prod.splits lease_call.splits)
qed simp

end

text \<open>The three kinds of rows follow the protocol.\<close>

lemma to_in_progress:
  "succeeds (ValidateCommandTaskQueueTransition s StatusInProgress) \<longleftrightarrow> s = StatusPending"
  "succeeds (ValidateNotificationQueueTransition s StatusInProgress) \<longleftrightarrow> s = StatusPending"
  by (cases s; simp add: table_defs)+

lemma to_pending:
  "succeeds (ValidateCommandTaskQueueTransition s StatusPending) \<longleftrightarrow> s = StatusInProgress"
  "succeeds (ValidateNotificationQueueTransition s StatusPending) \<longleftrightarrow> s = StatusInProgress"
  by (cases s; simp add: table_defs)+

lemma acquireLease_Inr:
  "acquireLease lm now validate post w row = Inr row' \<Longrightarrow>
   succeeds (validate (q_Status row) StatusInProgress)
   \<and> row' = post (fmt_stamp now)
      (row\<lparr>q_Status := StatusInProgress, q_LeaseOwner := Some w,
           q_LeaseExpiresAt := Some (fmt_stamp (now + seconds (dispatchLeaseSec lm))),
           q_LeaseEpoch := q_LeaseEpoch row + 1, q_UpdatedAt := fmt_stamp now\<rparr>)"
  by (auto simp: acquireLease_def Let_def succeeds_def split: sum.splits)

lemma releaseLease_Inr:
  "releaseLease now validate post row = Inr row' \<Longrightarrow>
   succeeds (validate (q_Status row) StatusPending)
   \<and> row' = post (row\<lparr>q_Status := StatusPending, q_LeaseOwner := None, q_LeaseExpiresAt := None,
      q_UpdatedAt := fmt_stamp now\<rparr>)"
  by (auto simp: releaseLease_def succeeds_def split: sum.splits)

lemma extendLeaseExpiry_Inr:
  "extendLeaseExpiry now ttl row = Inr row' \<Longrightarrow>
   q_Status row = StatusInProgress \<and> row' = row\<lparr>q_LeaseExpiresAt := Some (fmt_stamp (now + ttl))\<rparr>"
  by (auto simp: extendLeaseExpiry_def split: if_splits)

lemma task_hooks [simp]:
  "q_Status (task_postAcquire s t) = q_Status t" "q_LeaseOwner (task_postAcquire s t) = q_LeaseOwner t"
  "q_LeaseExpiresAt (task_postAcquire s t) = q_LeaseExpiresAt t"
  "q_LeaseEpoch (task_postAcquire s t) = q_LeaseEpoch t"
  "q_Status (task_postRelease t) = q_Status t" "q_LeaseOwner (task_postRelease t) = q_LeaseOwner t"
  "q_LeaseExpiresAt (task_postRelease t) = q_LeaseExpiresAt t"
  "q_LeaseEpoch (task_postRelease t) = q_LeaseEpoch t"
  by (simp_all add: task_postAcquire_def task_postRelease_def)

lemmas lease_ops_defs =
  AcquireCommandLease_def AcquireTaskLease_def AcquireNotificationLease_def
  ReleaseCommandLease_def ReleaseTaskLease_def ReleaseNotificationLease_def
  ExtendCommandLeaseGrace_def ExtendTaskLeaseGrace_def

interpretation command_lease: lease_protocol q_Status q_LeaseOwner q_LeaseExpiresAt q_LeaseEpoch
  "AcquireCommandLease lm" ReleaseCommandLease ExtendCommandLeaseGrace
  by unfold_locales
    (auto simp: lease_ops_defs to_in_progress to_pending
      dest!: acquireLease_Inr releaseLease_Inr extendLeaseExpiry_Inr)

interpretation task_lease: lease_protocol q_Status q_LeaseOwner q_LeaseExpiresAt q_LeaseEpoch
  "AcquireTaskLease lm" ReleaseTaskLease ExtendTaskLeaseGrace
  by unfold_locales
    (auto simp: lease_ops_defs to_in_progress to_pending
      dest!: acquireLease_Inr releaseLease_Inr extendLeaseExpiry_Inr)

interpretation notification_lease: lease_protocol q_Status q_LeaseOwner q_LeaseExpiresAt q_LeaseEpoch
  "AcquireNotificationLease lm" ReleaseNotificationLease extendLeaseExpiry
  by unfold_locales
    (auto simp: lease_ops_defs to_in_progress to_pending
      dest!: acquireLease_Inr releaseLease_Inr extendLeaseExpiry_Inr)

section \<open>Properties\<close>

text \<open>
  C29. The lease epoch is a fencing token: over any sequence of acquire, release and extend calls on a
  task, at any times, the epochs handed out are consecutive and so never repeated, the row ends
  at the last one, and a task that started consistent has an owner exactly while in progress.
\<close>

theorem task_epochs_fence:
  assumes "lease_run (AcquireTaskLease lm) ReleaseTaskLease ExtendTaskLeaseGrace q_LeaseEpoch calls t = (t', epochs)"
    and "(q_Status t = StatusInProgress) = (q_LeaseOwner t \<noteq> None)"
  shows "distinct epochs
    \<and> epochs = map (\<lambda>k. q_LeaseEpoch t + 1 + int k) [0..<length epochs]
    \<and> q_LeaseEpoch t' = q_LeaseEpoch t + int (length epochs)
    \<and> (q_Status t' = StatusInProgress) = (q_LeaseOwner t' \<noteq> None)"
  using task_lease.epochs_distinct [OF assms(1)] task_lease.epochs_consecutive [OF assms(1)]
    task_lease.owned_iff_in_progress [OF assms(2,1)] by blast

lemma task_epochs_fence_witness:
  "let calls = [(0, Acquire ''worker1''), (1, Acquire ''worker2''), (2, Release), (3, Acquire ''worker2'')] in
   snd (lease_run (AcquireTaskLease (NewManager 0 None)) ReleaseTaskLease ExtendTaskLeaseGrace q_LeaseEpoch
     calls (zero_Task ''t1'' StatusPending)) = [1, 2] \<and> distinct [1, 2 :: int]"
proof -
  let ?calls = "[(0, Acquire ''worker1''), (1, Acquire ''worker2''), (2, Release), (3, Acquire ''worker2'')]"
  let ?run = "lease_run (AcquireTaskLease (NewManager 0 None)) ReleaseTaskLease ExtendTaskLeaseGrace q_LeaseEpoch
     ?calls (zero_Task ''t1'' StatusPending)"
  have r: "snd ?run = [1, 2]"
    by (simp add: Let_def lease_ops_defs acquireLease_def releaseLease_def table_defs zero_Task_def NewManager_def
        task_postAcquire_def task_postRelease_def)
  have "distinct (snd ?run)"
    using task_epochs_fence [of "NewManager 0 None" ?calls "zero_Task ''t1'' StatusPending" "fst ?run" "snd ?run"]
    by (simp add: zero_Task_def)
  with r show ?thesis by simp
qed

text \<open>
  A lease lasts as long as it was granted for: the expiry a successful acquire of a task records is not reported
  expired at any time up to the granted end less its fraction of a second, and is from then on. A
  released task is expired at once.
\<close>

theorem lease_lifetime:
  assumes "AcquireTaskLease lm now owner t = Inr t'"
  shows "(IsLeaseExpired later (q_LeaseExpiresAt t') \<longleftrightarrow>
      (now + seconds (dispatchLeaseSec lm)) - (now + seconds (dispatchLeaseSec lm)) mod 1000000000 < later)
    \<and> (\<forall>t''. ReleaseTaskLease later t' = Inr t'' \<longrightarrow> IsLeaseExpired later (q_LeaseExpiresAt t''))"
  using acquireLease_Inr [OF assms [unfolded AcquireTaskLease_def]]
  by (auto simp: IsLeaseExpired_def ReleaseTaskLease_def dest!: releaseLease_Inr)

lemma lease_lifetime_witness:
  "\<exists>t'. AcquireTaskLease (NewManager 60 None) 5 ''worker1'' (zero_Task ''t1'' StatusPending) = Inr t'
     \<and> \<not> IsLeaseExpired 60000000000 (q_LeaseExpiresAt t') \<and> IsLeaseExpired 60000000001 (q_LeaseExpiresAt t')"
proof -
  obtain t' where t': "AcquireTaskLease (NewManager 60 None) 5 ''worker1'' (zero_Task ''t1'' StatusPending) = Inr t'"
    by (simp add: Let_def lease_ops_defs acquireLease_def table_defs zero_Task_def)
  from lease_lifetime [OF t', of 60000000000] lease_lifetime [OF t', of 60000000001]
  show ?thesis using t' by (simp add: NewManager_def seconds_def)
qed

text \<open>
  The grace lease of an undecided probe lasts until the next scan with ten seconds to spare, for every
  scan interval, and unless that floor applies it is at most half the dispatch lease; it is
  never shorter than both two scans and a third of the lease except where the half caps it.
\<close>

theorem grace_bounds:
  "let eff = (if scan \<le> 0 then 10 else scan); ttl = GraceLeaseTTL lm scan in
     seconds (eff + 10) \<le> ttl
     \<and> (ttl = seconds (eff + 10) \<or> ttl \<le> seconds (dispatchLeaseSec lm div 2))
     \<and> (seconds (max (2 * eff) (dispatchLeaseSec lm div 3)) \<le> ttl
        \<or> seconds (dispatchLeaseSec lm div 2) \<le> ttl)"
  by (auto simp: GraceLeaseTTL_def grace_seconds_def seconds_def Let_def)

text \<open>
  The periodic scan treats every command once: the rows it expires and the rows it renews are disjoint, both lists are
  ascending and in range, and they hold exactly the commands in progress whose lease has ended,
  respectively ends within the buffer.
\<close>

theorem expire_renew_partition:
  "set (ExpireCommands now cs) \<inter> set (RenewableCommands now cs buffer) = {}
   \<and> sorted_wrt (<) (ExpireCommands now cs) \<and> sorted_wrt (<) (RenewableCommands now cs buffer)
   \<and> set (ExpireCommands now cs) \<union> set (RenewableCommands now cs buffer) =
      {i. i < length cs \<and> q_Status (cs ! i) = StatusInProgress
        \<and> (IsLeaseExpired now (q_LeaseExpiresAt (cs ! i)) \<or> IsLeaseNearExpiry now (q_LeaseExpiresAt (cs ! i)) buffer)}"
proof -
  have "sorted_wrt (<) (indices_where p xs)" for p and xs :: "Command list"
    by (simp add: indices_where_def sorted_wrt_filter strict_sorted_iff)
  then show ?thesis
    by (auto simp: ExpireCommands_def RenewableCommands_def indices_where_def expired_row_def)
qed

end
