(* ===== verification/Lineage.thy ===== *)
theory Lineage imports Command_State begin

text \<open>
  Retry lineage and the effective status of a task (\<open>internal/plan/lineage.go\<close>). The lineage map
  is keyed by the successor, with the predecessor as value. Both loops of the file are total on
  every map, corrupted ones included, because they stop at an id they have visited.
\<close>

section \<open>Successors\<close>

text \<open>The body of the \<open>range\<close> loop: an equal or greater successor already recorded wins.\<close>

fun build_successor :: "(string, string) gomap \<Rightarrow> (string, string) gomap \<Rightarrow> (string, string) gomap" where
  "build_successor succs [] = succs"
| "build_successor succs ((newID, oldID) # rest) =
     (case map_of succs oldID of
        Some cur \<Rightarrow>
          if newID \<le> cur then build_successor succs rest
          else build_successor (AList.update oldID newID succs) rest
      | None \<Rightarrow> build_successor (AList.update oldID newID succs) rest)"

definition buildSuccessorMap :: "(string, string) gomap \<Rightarrow> (string, string) gomap" where
  "buildSuccessorMap retryLineage = build_successor [] retryLineage"

text \<open>The walk from predecessor to successor, until there is none or it has been visited.\<close>

function descend :: "(string, string) gomap \<Rightarrow> string \<Rightarrow> string list \<Rightarrow> string" where
  "descend succs cur visited =
     (case map_of succs cur of
        None \<Rightarrow> cur
      | Some nxt \<Rightarrow> if nxt \<in> set visited then cur else descend succs nxt (nxt # visited))"
  by pat_completeness auto
termination
proof (relation "measure (\<lambda>(succs, cur, visited). card (snd ` set succs - set visited))")
  fix succs :: "(string, string) gomap" and cur visited nxt
  assume "map_of succs cur = Some nxt" and "nxt \<notin> set visited"
  moreover from this have "nxt \<in> snd ` set succs"
    by (force dest: map_of_SomeD)
  ultimately have "card (snd ` set succs - insert nxt (set visited)) < card (snd ` set succs - set visited)"
    by (intro card_visit) auto
  then show "((succs, nxt, nxt # visited), succs, cur, visited)
      \<in> measure (\<lambda>(succs, cur, visited). card (snd ` set succs - set visited))"
    by (simp only: in_measure prod.case list.set)
qed simp

declare descend.simps [simp del]

definition LatestDescendant :: "string \<Rightarrow> (string, string) gomap \<Rightarrow> string" where
  "LatestDescendant taskID retryLineage =
     (if retryLineage = [] then taskID
      else descend (buildSuccessorMap retryLineage) taskID [taskID])"

definition EffectiveStatus ::
  "string \<Rightarrow> (string, Status) gomap \<Rightarrow> (string, string) gomap \<Rightarrow> Status" where
  "EffectiveStatus taskID taskStates retryLineage =
     (case map_of taskStates (LatestDescendant taskID retryLineage) of
        Some st \<Rightarrow> st
      | None \<Rightarrow> zget StatusZero taskStates taskID)"

section \<open>Unwinding cascade cancellations\<close>

definition CascadeBlockedReasonPrefix :: string where
  "CascadeBlockedReasonPrefix = ''blocked_dependency_terminal:''"

text \<open>
  The upstream task named by the reason on the latest descendant, if that reason is a cascade
  reason with an id.
\<close>

definition cascade_dep :: "'a PhaseTracking_scheme \<Rightarrow> string \<Rightarrow> string option" where
  "cascade_dep state taskID =
     (case map_of (CancelledReasons state) (LatestDescendant taskID (RetryLineage state)) of
        None \<Rightarrow> None
      | Some reason \<Rightarrow>
          if \<not> has_prefix reason CascadeBlockedReasonPrefix then None
          else (let depID = trim_prefix reason CascadeBlockedReasonPrefix in
                if depID = [] then None else Some depID))"

definition cascade_deps :: "'a PhaseTracking_scheme \<Rightarrow> string set" where
  "cascade_deps state =
     (\<lambda>(_, reason). trim_prefix reason CascadeBlockedReasonPrefix) ` set (CancelledReasons state)"

lemma cascade_dep_in: "cascade_dep state taskID = Some d \<Longrightarrow> d \<in> cascade_deps state"
  by (force simp: cascade_dep_def cascade_deps_def Let_def split: option.splits if_splits dest: map_of_SomeD)

lemma finite_cascade_deps [simp]: "finite (cascade_deps state)"
  by (simp add: cascade_deps_def)

function effective_unwound :: "string \<Rightarrow> 'a PhaseTracking_scheme \<Rightarrow> string list \<Rightarrow> Status" where
  "effective_unwound taskID state visited =
     (if taskID \<in> set visited then task_status state taskID
      else let raw = EffectiveStatus taskID (TaskStates state) (RetryLineage state) in
        if raw \<noteq> StatusCancelled then raw
        else (case cascade_dep state taskID of
                None \<Rightarrow> raw
              | Some depID \<Rightarrow>
                  if effective_unwound depID state (taskID # visited) = StatusCompleted
                  then StatusCompleted else raw))"
  by pat_completeness auto
termination
proof (relation "measure (\<lambda>(taskID, state, visited). card (insert taskID (cascade_deps state) - set visited))")
  fix taskID :: string and state :: "'a PhaseTracking_scheme" and visited raw d
  assume t: "taskID \<notin> set visited" and d: "cascade_dep state taskID = Some d"
  have "insert d (cascade_deps state) = cascade_deps state"
    using cascade_dep_in [OF d] by auto
  then have "insert d (cascade_deps state) - set (taskID # visited)
      \<subseteq> insert taskID (cascade_deps state) - insert taskID (set visited)"
    by auto
  then have "card (insert d (cascade_deps state) - set (taskID # visited))
      \<le> card (insert taskID (cascade_deps state) - insert taskID (set visited))"
    by (intro card_mono) auto
  also have "\<dots> < card (insert taskID (cascade_deps state) - set visited)"
    using t by (intro card_visit) auto
  finally show "((d, state, taskID # visited), taskID, state, visited)
      \<in> measure (\<lambda>(taskID, state, visited). card (insert taskID (cascade_deps state) - set visited))"
    by simp
qed simp

declare effective_unwound.simps [simp del]

definition EffectiveStatusForCompletion :: "string \<Rightarrow> CommandState \<Rightarrow> Status" where
  "EffectiveStatusForCompletion taskID state =
     (if ABBarrierActive state taskID then StatusRunning else effective_unwound taskID state [])"

section \<open>Lemmas\<close>

text \<open>The successor recorded for an id is the greatest of the ones offered.\<close>

definition newest :: "string option \<Rightarrow> string set \<Rightarrow> bool" where
  "newest m A = (case m of None \<Rightarrow> A = {} | Some x \<Rightarrow> x \<in> A \<and> (\<forall>y \<in> A. y \<le> x))"

lemma newest_unique: "newest m A \<Longrightarrow> newest m' A \<Longrightarrow> m = m'"
  by (force simp: newest_def split: option.splits intro: antisym)

lemma newest_insert:
  assumes "newest m A"
  shows "newest (case m of None \<Rightarrow> Some n | Some x \<Rightarrow> if n \<le> x then Some x else Some n) (insert n A)"
  using assms by (fastforce simp: newest_def split: option.splits)

lemma build_successor_spec:
  assumes "\<And>q. newest (map_of succs q) (A q)"
  shows "newest (map_of (build_successor succs rl) q) (A q \<union> {n. (n, q) \<in> set rl})"
  using assms
proof (induction rl arbitrary: succs A)
  case (Cons p rest)
  obtain n q' where p: "p = (n, q')" by fastforce
  let ?succs = "case map_of succs q' of Some cur \<Rightarrow> if n \<le> cur then succs else AList.update q' n succs
      | None \<Rightarrow> AList.update q' n succs"
  let ?A = "\<lambda>r. if r = q' then insert n (A r) else A r"
  have "newest (map_of ?succs r) (?A r)" for r
    using newest_insert [of "map_of succs q'" "A q'" n] Cons.prems by (auto split: option.splits)
  from Cons.IH [of ?succs ?A, OF this]
  have "newest (map_of (build_successor ?succs rest) q) (?A q \<union> {n. (n, q) \<in> set rest})" .
  moreover have "build_successor succs (p # rest) = build_successor ?succs rest"
    by (simp add: p split: option.splits)
  moreover have "?A q \<union> {n. (n, q) \<in> set rest} = A q \<union> {n. (n, q) \<in> set (p # rest)}"
    by (auto simp: p)
  ultimately show ?case by simp
qed simp

lemma buildSuccessorMap_newest: "newest (map_of (buildSuccessorMap rl) q) {n. (n, q) \<in> set rl}"
  using build_successor_spec [of "[]" "\<lambda>_. {}" rl q] by (simp add: buildSuccessorMap_def newest_def)

lemma buildSuccessorMap_cong:
  assumes "set rl = set rl'"
  shows "map_of (buildSuccessorMap rl) = map_of (buildSuccessorMap rl')"
proof (rule ext)
  show "map_of (buildSuccessorMap rl) q = map_of (buildSuccessorMap rl') q" for q
    using buildSuccessorMap_newest [of rl q] buildSuccessorMap_newest [of rl' q] assms
    by (simp add: newest_unique)
qed

text \<open>The walk visits new ids only, and stops where no unvisited successor is left.\<close>

abbreviation succ_step :: "(string, string) gomap \<Rightarrow> string \<Rightarrow> string \<Rightarrow> bool" where
  "succ_step succs a b \<equiv> map_of succs a = Some b"

lemma descend_walk:
  "\<exists>path. walk (succ_step succs) cur path \<and> last (cur # path) = descend succs cur visited
     \<and> distinct path \<and> set path \<inter> set visited = {}
     \<and> (\<forall>n. map_of succs (descend succs cur visited) = Some n \<longrightarrow> n \<in> set visited \<union> set path)"
proof (induction succs cur visited rule: descend.induct)
  case (1 succs cur visited)
  show ?case
  proof (cases "map_of succs cur")
    case None
    then show ?thesis by (intro exI [of _ "[]"]) (simp add: descend.simps)
  next
    case (Some nxt)
    show ?thesis
    proof (cases "nxt \<in> set visited")
      case True
      with Some show ?thesis by (intro exI [of _ "[]"]) (simp add: descend.simps)
    next
      case False
      from 1 [OF Some False] obtain path where "walk (succ_step succs) nxt path"
        "last (nxt # path) = descend succs nxt (nxt # visited)" "distinct path"
        "set path \<inter> set (nxt # visited) = {}"
        "\<forall>n. map_of succs (descend succs nxt (nxt # visited)) = Some n \<longrightarrow> n \<in> set (nxt # visited) \<union> set path"
        by blast
      moreover have "descend succs cur visited = descend succs nxt (nxt # visited)"
        using Some False by (simp add: descend.simps [of succs cur])
      ultimately show ?thesis
        using Some False by (intro exI [of _ "nxt # path"]) auto
    qed
  qed
qed

lemma descend_cong:
  "map_of succs = map_of succs' \<Longrightarrow> descend succs cur visited = descend succs' cur visited"
proof (induction succs cur visited rule: descend.induct)
  case (1 succs cur visited)
  then show ?case
    by (simp add: descend.simps [of succs cur] descend.simps [of succs' cur] split: option.splits)
qed

text \<open>
  The tasks an effective status is unwound through: a cancelled lineage names its upstream by its
  cascade reason.
\<close>

definition effective :: "'a PhaseTracking_scheme \<Rightarrow> string \<Rightarrow> Status" where
  "effective state taskID = EffectiveStatus taskID (TaskStates state) (RetryLineage state)"

definition unwinds_to :: "'a PhaseTracking_scheme \<Rightarrow> string \<Rightarrow> string \<Rightarrow> bool" where
  "unwinds_to state t d = (effective state t = StatusCancelled \<and> cascade_dep state t = Some d)"

lemma effective_unwound_visited:
  "t \<in> set visited \<Longrightarrow> effective_unwound t state visited = task_status state t"
  by (simp add: effective_unwound.simps)

lemma effective_unwound_stop:
  assumes "t \<notin> set visited" and "\<And>d. \<not> unwinds_to state t d"
  shows "effective_unwound t state visited = effective state t"
  using assms
  by (auto simp: effective_unwound.simps [of t] unwinds_to_def effective_def Let_def split: option.splits)

lemma effective_unwound_step:
  assumes "t \<notin> set visited" and "unwinds_to state t d"
  shows "effective_unwound t state visited =
    (if effective_unwound d state (t # visited) = StatusCompleted then StatusCompleted else StatusCancelled)"
  using assms
  by (auto simp: effective_unwound.simps [of t] unwinds_to_def effective_def Let_def)

lemma unwinds_det: "unwinds_to state t d \<Longrightarrow> unwinds_to state t d' \<Longrightarrow> d = d'"
  by (simp add: unwinds_to_def)

text \<open>A distinct chain to a completed lineage is followed to its end.\<close>

lemma effective_unwound_chain:
  "walk (unwinds_to state) t ds \<Longrightarrow> distinct (t # ds) \<Longrightarrow> set (t # ds) \<inter> set visited = {} \<Longrightarrow>
   effective state (last (t # ds)) = StatusCompleted \<Longrightarrow>
   effective_unwound t state visited = StatusCompleted"
proof (induction ds arbitrary: t visited)
  case Nil
  then have "\<not> unwinds_to state t d" for d by (simp add: unwinds_to_def)
  with Nil show ?case by (simp add: effective_unwound_stop)
next
  case (Cons d ds)
  then have "effective_unwound d state (t # visited) = StatusCompleted"
    by (intro Cons.IH) auto
  with Cons.prems show ?case by (auto simp: effective_unwound_step)
qed

text \<open>Conversely a result other than the effective status comes from such a chain.\<close>

lemma effective_unwound_sound:
  "effective_unwound t state visited = StatusCompleted \<Longrightarrow> t \<notin> set visited \<Longrightarrow>
   \<exists>ds. walk (unwinds_to state) t ds
     \<and> (effective state (last (t # ds)) = StatusCompleted
        \<or> last (t # ds) \<in> set visited \<union> set (butlast (t # ds)) \<and> task_status state (last (t # ds)) = StatusCompleted)"
proof (induction t state visited rule: effective_unwound.induct)
  case (1 t state visited)
  show ?case
  proof (cases "\<exists>d. unwinds_to state t d")
    case False
    with "1.prems" have "effective state t = StatusCompleted" by (simp add: effective_unwound_stop)
    then show ?thesis by (intro exI [of _ "[]"]) simp
  next
    case True
    then obtain d where d: "unwinds_to state t d" by blast
    with "1.prems" have c: "effective_unwound d state (t # visited) = StatusCompleted"
      by (auto simp: effective_unwound_step split: if_splits)
    show ?thesis
    proof (cases "d \<in> set (t # visited)")
      case True
      with c d show ?thesis by (intro exI [of _ "[d]"]) (auto simp: effective_unwound_visited)
    next
      case False
      from d have "EffectiveStatus t (TaskStates state) (RetryLineage state) = StatusCancelled"
        "cascade_dep state t = Some d"
        by (simp_all add: unwinds_to_def effective_def)
      with 1 False c obtain ds where "walk (unwinds_to state) d ds"
        "effective state (last (d # ds)) = StatusCompleted
         \<or> last (d # ds) \<in> set (t # visited) \<union> set (butlast (d # ds)) \<and> task_status state (last (d # ds)) = StatusCompleted"
        by blast
      with d show ?thesis by (intro exI [of _ "d # ds"]) auto
    qed
  qed
qed

lemma effective_unwound_cases:
  assumes "t \<notin> set visited"
  shows "effective_unwound t state visited = effective state t
    \<or> effective state t = StatusCancelled \<and> effective_unwound t state visited = StatusCompleted"
proof (cases "\<exists>d. unwinds_to state t d")
  case True
  then obtain d where "unwinds_to state t d" by blast
  with assms show ?thesis by (auto simp: effective_unwound_step) (simp_all add: unwinds_to_def)
qed (use assms in \<open>auto simp: effective_unwound_stop\<close>)

section \<open>Properties\<close>

text \<open>
  \<open>LatestDescendant\<close> always ends, on every lineage map, and does not depend on the order in
  which Go ranges over it. It returns an id reached from the task by successor steps without
  visiting any id twice; that id has no successor, or the map has a cycle that leads back to an id
  already visited.
\<close>

theorem latest_descendant_correct:
  assumes "set rl = set rl'"
  shows "LatestDescendant taskID rl = LatestDescendant taskID rl'
    \<and> (let succs = buildSuccessorMap rl; d = LatestDescendant taskID rl in
       \<exists>path. walk (succ_step succs) taskID path \<and> distinct (taskID # path) \<and> last (taskID # path) = d
         \<and> (case map_of succs d of None \<Rightarrow> True | Some n \<Rightarrow> n \<in> set (taskID # path)))"
proof -
  have same: "LatestDescendant taskID rl = LatestDescendant taskID rl'"
    using assms descend_cong [OF buildSuccessorMap_cong [OF assms]]
    by (cases "rl = []") (auto simp: LatestDescendant_def)
  have d: "LatestDescendant taskID rl = descend (buildSuccessorMap rl) taskID [taskID]"
    by (simp add: LatestDescendant_def buildSuccessorMap_def descend.simps)
  from descend_walk [of "buildSuccessorMap rl" taskID "[taskID]"] obtain path
    where "walk (succ_step (buildSuccessorMap rl)) taskID path" "last (taskID # path) = LatestDescendant taskID rl"
      "distinct path" "set path \<inter> {taskID} = {}"
      "\<forall>n. map_of (buildSuccessorMap rl) (LatestDescendant taskID rl) = Some n \<longrightarrow> n \<in> {taskID} \<union> set path"
    by (auto simp: d)
  then have "walk (succ_step (buildSuccessorMap rl)) taskID path \<and> distinct (taskID # path)
      \<and> last (taskID # path) = LatestDescendant taskID rl
      \<and> (case map_of (buildSuccessorMap rl) (LatestDescendant taskID rl) of
            None \<Rightarrow> True | Some n \<Rightarrow> n \<in> set (taskID # path))"
    by (auto split: option.split)
  with same show ?thesis unfolding Let_def by blast
qed

lemma latest_descendant_correct_witness:
  "LatestDescendant ''a'' [(''b'', ''a''), (''d'', ''c''), (''c'', ''a'')] = ''d''
   \<and> LatestDescendant ''a'' [(''c'', ''a''), (''d'', ''c''), (''b'', ''a'')] = ''d''
   \<and> LatestDescendant ''a'' [(''b'', ''a''), (''a'', ''b'')] = ''b''"
proof -
  let ?rl = "[(''b'', ''a''), (''d'', ''c''), (''c'', ''a'')]"
  let ?rl' = "[(''c'', ''a''), (''d'', ''c''), (''b'', ''a'')]"
  have "set ?rl = set ?rl'" by auto
  from latest_descendant_correct [OF this, of "''a''"]
  have "LatestDescendant ''a'' ?rl = LatestDescendant ''a'' ?rl'" by (rule conjunct1)
  then show ?thesis
    by (simp add: LatestDescendant_def buildSuccessorMap_def descend.simps)
qed

text \<open>
  The completion view of a task under no unresolved A/B group is its effective status, except that a cancelled
  lineage counts as completed exactly when its chain of cascade reasons leads to a completed
  lineage. (On a corrupted state whose chain runs into a cycle the raw status of the task at the
  cycle can stand in for the completed lineage.) Under an unresolved group it is running.
\<close>

theorem completion_view_correct:
  "(if ABBarrierActive state t then EffectiveStatusForCompletion t state = StatusRunning
    else if EffectiveStatusForCompletion t state = StatusCompleted
    then \<exists>ds. walk (unwinds_to state) t ds
           \<and> (effective state (last (t # ds)) = StatusCompleted
              \<or> last (t # ds) \<in> set (butlast (t # ds)) \<and> task_status state (last (t # ds)) = StatusCompleted)
    else EffectiveStatusForCompletion t state = effective state t
         \<and> \<not> (\<exists>ds. walk (unwinds_to state) t ds \<and> effective state (last (t # ds)) = StatusCompleted))"
proof -
  have complete: "effective_unwound t state [] = StatusCompleted"
    if "walk (unwinds_to state) t ds" "effective state (last (t # ds)) = StatusCompleted" for ds
  proof -
    from walk_distinct [OF that(1)] obtain us where "walk (unwinds_to state) t us"
      "last (t # us) = last (t # ds)" "distinct (t # us)" by blast
    with that(2) show ?thesis by (intro effective_unwound_chain [of state t us]) simp_all
  qed
  show ?thesis
    using effective_unwound_sound [of t state "[]"] effective_unwound_cases [of t "[]" state] complete
    by (auto simp: EffectiveStatusForCompletion_def simp del: last.simps)
qed

end
