(* ===== verification/Completion.thy ===== *)
theory Completion imports Lineage Queue_Model begin

text \<open>
  When a command may finish and with which status: \<open>CanComplete\<close> and \<open>DeriveStatus\<close>
  (\<open>internal/plan/state.go\<close>), and the two state changes \<open>Complete\<close> makes before it asks
  (\<open>autoCancelPausedForReplanIfBlocking\<close> and \<open>advancePhasesInline\<close>, \<open>internal/plan/complete.go\<close>).
\<close>

section \<open>Deriving the plan status\<close>

datatype CompleteError =
    PlanNotSealed PlanStatus
  | TaskCountMismatch int int
  | CandidateUnresolved string ABGroupStatus
  | PhaseFilling string
  | PhaseAwaitingFill string string
  | PhaseTransitioning string PhaseStatus
  | PhaseNotTerminal string PhaseStatus
  | PhaseTaskNotTerminal string PhaseStatus string Status
  | TasksAwaitingReplan "(string \<times> Status option) list"
  | RequiredNotTerminal "(string \<times> Status option) list"
  | UnsupportedPolicy string string

text \<open>\<open>IsRetryable\<close>: the errors that wrap a \<open>retryableError\<close>.\<close>

fun IsRetryable :: "CompleteError \<Rightarrow> bool" where
  "IsRetryable (CandidateUnresolved _ _) = True"
| "IsRetryable (PhaseFilling _) = True"
| "IsRetryable (PhaseTransitioning _ _) = True"
| "IsRetryable _ = False"

definition hasTaskWithStatusForCompletion :: "string list \<Rightarrow> CommandState \<Rightarrow> Status \<Rightarrow> bool" where
  "hasTaskWithStatusForCompletion taskIDs state target =
     (\<exists>taskID \<in> set taskIDs. EffectiveStatusForCompletion taskID state = target)"

text \<open>An empty policy field stands for its default.\<close>

definition policy_or :: "string \<Rightarrow> string \<Rightarrow> string" where
  "policy_or p d = (if p = [] then d else p)"

text \<open>
  The four checks that follow the timeout check, in order. A check either decides the result
  (an error, or a status) or lets the next one run.
\<close>

type_synonym verdict = "(CompleteError + PlanStatus) option"

definition required_failed_check :: "CommandState \<Rightarrow> verdict" where
  "required_failed_check state =
     (let onFailed = policy_or (OnRequiredFailed (Policy state)) ''fail_command'' in
      if hasTaskWithStatusForCompletion (RequiredTaskIDs state) state StatusFailed
      then if onFailed = ''fail_command'' then Some (Inr PlanStatusFailed)
           else if onFailed = ''ignore'' then None
           else Some (Inl (UnsupportedPolicy ''on_required_failed'' onFailed))
      else None)"

definition required_cancelled_check :: "CommandState \<Rightarrow> verdict" where
  "required_cancelled_check state =
     (let onCancelled = policy_or (OnRequiredCancelled (Policy state)) ''cancel_command'' in
      if hasTaskWithStatusForCompletion (RequiredTaskIDs state) state StatusCancelled
      then if onCancelled = ''cancel_command'' then Some (Inr PlanStatusCancelled)
           else if onCancelled = ''ignore'' then None
           else Some (Inl (UnsupportedPolicy ''on_required_cancelled'' onCancelled))
      else None)"

definition optional_failed_check :: "CommandState \<Rightarrow> verdict" where
  "optional_failed_check state =
     (let onOptionalFailed = policy_or (OnOptionalFailed (Policy state)) ''ignore'' in
      if hasTaskWithStatusForCompletion (OptionalTaskIDs state) state StatusFailed
      then if onOptionalFailed = ''ignore'' \<or> onOptionalFailed = ''warn'' then None
           else if onOptionalFailed = ''fail_command'' then Some (Inr PlanStatusFailed)
           else Some (Inl (UnsupportedPolicy ''on_optional_failed'' onOptionalFailed))
      else None)"

definition dependency_policy_check :: "CommandState \<Rightarrow> verdict" where
  "dependency_policy_check state =
     (let depPolicy = policy_or (DependencyFailurePolicy (Policy state)) ''cancel_dependents'' in
      if depPolicy \<in> {''cancel_dependents'', ''fail_dependents'', ''ignore''} then None
      else Some (Inl (UnsupportedPolicy ''dependency_failure_policy'' depPolicy)))"

definition DeriveStatus :: "CommandState \<Rightarrow> CompleteError + PlanStatus" where
  "DeriveStatus state =
     (if \<exists>phase \<in> set (Phases state). ph_Status phase = PhaseStatusTimedOut then Inr PlanStatusFailed
      else case required_failed_check state of
        Some v \<Rightarrow> v
      | None \<Rightarrow>
          (case required_cancelled_check state of
             Some v \<Rightarrow> v
           | None \<Rightarrow>
               (case optional_failed_check state of
                  Some v \<Rightarrow> v
                | None \<Rightarrow>
                    (case dependency_policy_check state of
                       Some v \<Rightarrow> v
                     | None \<Rightarrow> Inr PlanStatusCompleted))))"

section \<open>When a command can complete\<close>

text \<open>The error the loop over the phases returns for one phase, if any.\<close>

definition phase_error :: "CommandState \<Rightarrow> Phase \<Rightarrow> CompleteError option" where
  "phase_error state phase =
     (if ph_Status phase = PhaseStatusFilling then Some (PhaseFilling (ph_Name phase))
      else if ph_Status phase = PhaseStatusAwaitingFill
      then Some (PhaseAwaitingFill (ph_PhaseID phase) (ph_Name phase))
      else if \<not> IsPhaseTerminal (ph_Status phase)
      then (let allOK = (\<forall>tid \<in> set (ph_TaskIDs phase).
                  EffectiveStatusForCompletion tid state \<in> {StatusCompleted, StatusCancelled}) in
            if allOK \<and> ph_TaskIDs phase \<noteq> []
            then Some (PhaseTransitioning (ph_Name phase) (ph_Status phase))
            else Some (PhaseNotTerminal (ph_Name phase) (ph_Status phase)))
      else (case find (\<lambda>tid. map_of (TaskStates state) tid \<noteq> None
                \<and> \<not> IsTerminal (EffectiveStatusForCompletion tid state)) (ph_TaskIDs phase) of
              None \<Rightarrow> None
            | Some tid \<Rightarrow> Some (PhaseTaskNotTerminal (ph_Name phase) (ph_Status phase) tid
                (EffectiveStatusForCompletion tid state))))"

fun first_error :: "('a \<Rightarrow> 'e option) \<Rightarrow> 'a list \<Rightarrow> 'e option" where
  "first_error f [] = None"
| "first_error f (x # xs) = (case f x of Some e \<Rightarrow> Some e | None \<Rightarrow> first_error f xs)"

text \<open>The required tasks that are not terminal, with their raw status.\<close>

definition open_required :: "'a TaskTracking_scheme \<Rightarrow> (string \<times> Status option) list" where
  "open_required state =
     filter (\<lambda>(_, st). case st of None \<Rightarrow> True | Some s \<Rightarrow> \<not> IsTerminal s)
       (map (\<lambda>taskID. (taskID, map_of (TaskStates state) taskID)) (RequiredTaskIDs state))"

definition CanComplete :: "CommandState \<Rightarrow> CompleteError + PlanStatus" where
  "CanComplete state =
     (if cs_PlanStatus state \<noteq> PlanStatusSealed then Inl (PlanNotSealed (cs_PlanStatus state))
      else (let totalExpected = int (length (RequiredTaskIDs state)) + int (length (OptionalTaskIDs state)) in
      if totalExpected \<noteq> ExpectedTaskCount state
      then Inl (TaskCountMismatch totalExpected (ExpectedTaskCount state))
      else case find (\<lambda>(gid, g). case g of None \<Rightarrow> False | Some gr \<Rightarrow> IsUnresolved (cg_Status gr))
             (CandidateGroups state) of
        Some (gid, Some g) \<Rightarrow> Inl (CandidateUnresolved gid (cg_Status g))
      | _ \<Rightarrow>
          (case first_error (phase_error state) (Phases state) of
             Some e \<Rightarrow> Inl e
           | None \<Rightarrow>
               (let nonTerminal = open_required state in
                if nonTerminal \<noteq> []
                then if \<forall>(_, st) \<in> set nonTerminal. st = Some StatusPausedForReplan
                     then Inl (TasksAwaitingReplan nonTerminal)
                     else Inl (RequiredNotTerminal nonTerminal)
                else DeriveStatus state))))"

section \<open>State changes before completion\<close>

text \<open>The collecting loop: \<open>None\<close> is one of its two early returns.\<close>

fun paused_ids :: "(string, Status) gomap \<Rightarrow> string list \<Rightarrow> string list option" where
  "paused_ids states [] = Some []"
| "paused_ids states (taskID # rest) =
     (case map_of states taskID of
        None \<Rightarrow> None
      | Some ts \<Rightarrow>
          if IsTerminal ts then paused_ids states rest
          else if ts \<noteq> StatusPausedForReplan then None
          else map_option ((#) taskID) (paused_ids states rest))"

definition auto_cancel_reason :: string where
  "auto_cancel_reason = ''auto_cancelled_at_plan_complete:paused_for_replan_unblocked''"

definition cancel_paused :: "stamp \<Rightarrow> string \<Rightarrow> CommandState \<Rightarrow> CommandState" where
  "cancel_paused now taskID state =
     (SetTaskState taskID StatusCancelled now state)
       \<lparr>CancelledReasons := AList.update taskID auto_cancel_reason (CancelledReasons state)\<rparr>"

definition autoCancelPausedForReplanIfBlocking :: "stamp \<Rightarrow> CommandState \<Rightarrow> nat \<times> CommandState" where
  "autoCancelPausedForReplanIfBlocking now state =
     (case paused_ids (TaskStates state) (RequiredTaskIDs state) of
        None \<Rightarrow> (0, state)
      | Some pausedIDs \<Rightarrow> (length pausedIDs, fold (cancel_paused now) pausedIDs state))"

text \<open>One iteration of the phase loop.\<close>

definition advance_phase :: "stamp \<Rightarrow> CommandState \<Rightarrow> Phase \<Rightarrow> Phase" where
  "advance_phase now state phase =
     (if IsPhaseTerminal (ph_Status phase) then phase
      else if ph_TaskIDs phase = [] then phase
      else if \<exists>tid \<in> set (ph_TaskIDs phase). \<not> IsTerminal (EffectiveStatusForCompletion tid state)
      then phase
      else (let required = filter (\<lambda>tid. tid \<in> set (RequiredTaskIDs state)) (ph_TaskIDs phase);
                hasFailed = (\<exists>tid \<in> set required.
                  EffectiveStatusForCompletion tid state \<in> {StatusFailed, StatusDeadLetter});
                hasCancelled = (\<exists>tid \<in> set required.
                  EffectiveStatusForCompletion tid state = StatusCancelled);
                newStatus = (if hasFailed then PhaseStatusFailed
                             else if hasCancelled then PhaseStatusCancelled
                             else PhaseStatusCompleted)
            in phase\<lparr>ph_Status := newStatus, ph_CompletedAt := Some now\<rparr>))"

text \<open>
  The loop writes each phase in place; no effective status depends on the phases
  (\<open>EffectiveStatusForCompletion_Phases\<close> below), so the state read is that of the call.
\<close>

definition advancePhasesInline :: "stamp \<Rightarrow> CommandState \<Rightarrow> CommandState" where
  "advancePhasesInline now state = state\<lparr>Phases := map (advance_phase now state) (Phases state)\<rparr>"

section \<open>Lemmas\<close>

lemma effective_Phases [simp]: "effective (s\<lparr>Phases := p\<rparr>) t = effective s t"
  by (simp add: effective_def)

lemma cascade_dep_Phases [simp]: "cascade_dep (s\<lparr>Phases := p\<rparr>) t = cascade_dep s t"
  by (simp add: cascade_dep_def)

lemma effective_unwound_Phases [simp]:
  "effective_unwound t (s\<lparr>Phases := p\<rparr>) visited = effective_unwound t s visited" for s :: CommandState
proof (induction t s visited rule: effective_unwound.induct)
  case (1 t s visited)
  show ?case
    by (simp add: effective_unwound.simps [of t] task_status_def Let_def 1 cong: if_cong split: option.split)
qed

lemma EffectiveStatusForCompletion_Phases [simp]:
  "EffectiveStatusForCompletion t (s\<lparr>Phases := p\<rparr>) = EffectiveStatusForCompletion t s"
  by (simp add: EffectiveStatusForCompletion_def ABBarrierActive_def FindCandidateGroupByTask_def)

lemma advance_phase_Phases [simp]: "advance_phase now (s\<lparr>Phases := p\<rparr>) = advance_phase now s"
  by (rule ext) (simp add: advance_phase_def)

lemma first_error_None: "first_error f xs = None \<longleftrightarrow> (\<forall>x \<in> set xs. f x = None)"
  by (induction xs) (auto split: option.splits)

lemma phase_error_None:
  "phase_error state phase = None \<Longrightarrow> IsPhaseTerminal (ph_Status phase)
    \<and> (\<forall>tid \<in> set (ph_TaskIDs phase). map_of (TaskStates state) tid = None
        \<or> IsTerminal (EffectiveStatusForCompletion tid state))"
  by (auto simp: phase_error_def Let_def find_None_iff split: if_splits option.splits)

lemma open_required_Nil:
  "open_required state = [] \<longleftrightarrow>
   (\<forall>taskID \<in> set (RequiredTaskIDs state). \<exists>s. map_of (TaskStates state) taskID = Some s \<and> IsTerminal s)"
  by (auto simp: open_required_def filter_empty_conv split: option.splits)

lemma DeriveStatus_terminal: "DeriveStatus state = Inr ps \<Longrightarrow> IsPlanTerminal ps"
  by (auto simp: DeriveStatus_def required_failed_check_def required_cancelled_check_def
      optional_failed_check_def dependency_policy_check_def terminal_defs Let_def
      split: if_splits option.splits)

lemma CanComplete_Inr:
  assumes "CanComplete state = Inr ps"
  shows "cs_PlanStatus state = PlanStatusSealed"
    and "int (length (RequiredTaskIDs state)) + int (length (OptionalTaskIDs state)) = ExpectedTaskCount state"
    and "\<forall>(gid, g) \<in> set (CandidateGroups state). case g of None \<Rightarrow> True | Some gr \<Rightarrow> \<not> IsUnresolved (cg_Status gr)"
    and "\<forall>phase \<in> set (Phases state). phase_error state phase = None"
    and "open_required state = []"
    and "DeriveStatus state = Inr ps"
proof -
  let ?p = "\<lambda>(gid, g). case g of None \<Rightarrow> False | Some gr \<Rightarrow> IsUnresolved (cg_Status gr)"
  have "find ?p (CandidateGroups state) = None"
  proof (cases "find ?p (CandidateGroups state)")
    case (Some x)
    then have "?p x" using find_cases by fastforce
    with assms Some show ?thesis
      by (cases x) (auto simp: CanComplete_def Let_def split: if_splits option.splits)
  qed
  then show "\<forall>(gid, g) \<in> set (CandidateGroups state). case g of None \<Rightarrow> True | Some gr \<Rightarrow> \<not> IsUnresolved (cg_Status gr)"
    by (fastforce simp: find_None_iff split: option.splits)
  show "cs_PlanStatus state = PlanStatusSealed"
    and "int (length (RequiredTaskIDs state)) + int (length (OptionalTaskIDs state)) = ExpectedTaskCount state"
    and "open_required state = []" and "DeriveStatus state = Inr ps"
    using assms by (auto simp: CanComplete_def Let_def split: if_splits option.splits)
  show "\<forall>phase \<in> set (Phases state). phase_error state phase = None"
    using assms by (auto simp: CanComplete_def Let_def first_error_None [symmetric] split: if_splits option.splits)
qed

text \<open>The pauses collected, and the fold over them.\<close>

lemma paused_ids_Some:
  "paused_ids states ids = Some ps \<Longrightarrow>
   ps = filter (\<lambda>i. map_of states i = Some StatusPausedForReplan) ids
   \<and> (\<forall>i \<in> set ids. \<exists>s. map_of states i = Some s \<and> (IsTerminal s \<or> s = StatusPausedForReplan))"
  by (induction ids arbitrary: ps) (auto split: option.splits if_splits simp: terminal_defs)

lemma fold_cancel_paused:
  "map_of (TaskStates (fold (cancel_paused now) ids state)) j =
     (if j \<in> set ids then Some StatusCancelled else map_of (TaskStates state) j)"
  "map_of (CancelledReasons (fold (cancel_paused now) ids state)) j =
     (if j \<in> set ids then Some auto_cancel_reason else map_of (CancelledReasons state) j)"
  "RequiredTaskIDs (fold (cancel_paused now) ids state) = RequiredTaskIDs state"
  "RetryLineage (fold (cancel_paused now) ids state) = RetryLineage state"
  "Phases (fold (cancel_paused now) ids state) = Phases state"
  by (induction ids arbitrary: state) (auto simp: cancel_paused_def)

section \<open>Properties\<close>


text \<open>
  What a completed plan has delivered. If the policy ignores neither failed nor cancelled required tasks and every required task belongs to a
  phase, then a command that completes has every required task effectively completed,
  dead_letter or aborted: failure in the forms failed and cancelled is excluded, but the plan-status
  derivation does not see the other two.
\<close>

theorem completed_plan_delivers:
  assumes "CanComplete state = Inr PlanStatusCompleted"
    and "OnRequiredFailed (Policy state) \<noteq> ''ignore''" "OnRequiredCancelled (Policy state) \<noteq> ''ignore''"
    and "set (RequiredTaskIDs state) \<subseteq> \<Union> (set ` ph_TaskIDs ` set (Phases state))"
    and "t \<in> set (RequiredTaskIDs state)"
  shows "EffectiveStatusForCompletion t state \<in> {StatusCompleted, StatusDeadLetter, StatusAborted}"
proof -
  note c = CanComplete_Inr [OF assms(1)]
  from assms(4,5) obtain phase where "phase \<in> set (Phases state)" "t \<in> set (ph_TaskIDs phase)" by auto
  moreover from assms(5) c(5) have "map_of (TaskStates state) t \<noteq> None"
    by (auto simp: open_required_Nil)
  ultimately have "IsTerminal (EffectiveStatusForCompletion t state)"
    using c(4) phase_error_None [of state phase] by auto
  moreover have "EffectiveStatusForCompletion t state \<noteq> StatusFailed"
    using c(6) assms(2,5)
    by (auto simp: DeriveStatus_def required_failed_check_def hasTaskWithStatusForCompletion_def policy_or_def
        Let_def split: if_splits)
  moreover have "EffectiveStatusForCompletion t state \<noteq> StatusCancelled"
    using c(6) assms(2,3,5)
    by (auto simp: DeriveStatus_def required_failed_check_def required_cancelled_check_def
        hasTaskWithStatusForCompletion_def policy_or_def Let_def split: if_splits)
  ultimately show ?thesis by (auto simp: terminal_defs)
qed

lemma completion_witness_state:
  fixes st :: Status
  defines "s \<equiv> (zero_CommandState ''c'' PlanStatusSealed)\<lparr>ExpectedTaskCount := 1, RequiredTaskIDs := [''t''],
    TaskStates := [(''t'', st)], Phases := [zero_Phase ''p'' PhaseStatusFailed [''t'']]\<rparr>"
  assumes "IsTerminal st" "st \<noteq> StatusFailed" "st \<noteq> StatusCancelled"
  shows "CanComplete s = Inr PlanStatusCompleted" "EffectiveStatusForCompletion ''t'' s = st"
proof -
  show e: "EffectiveStatusForCompletion ''t'' s = st"
    using assms(4) by (simp add: s_def EffectiveStatusForCompletion_def effective_unwound.simps zero_CommandState_def
        ABBarrierActive_def FindCandidateGroupByTask_def EffectiveStatus_def LatestDescendant_def Let_def)
  then show "CanComplete s = Inr PlanStatusCompleted"
    using assms
    by (simp add: CanComplete_def phase_error_def zero_Phase_def IsPhaseTerminal_def terminalPhaseStatuses_def
        open_required_def DeriveStatus_def required_failed_check_def required_cancelled_check_def
        optional_failed_check_def dependency_policy_check_def hasTaskWithStatusForCompletion_def
        policy_or_def zero_CommandState_def Let_def)
qed


lemma completed_plan_delivers_witness:
  "let s = (zero_CommandState ''c'' PlanStatusSealed)\<lparr>ExpectedTaskCount := 1, RequiredTaskIDs := [''t''],
    TaskStates := [(''t'', StatusDeadLetter)], Phases := [zero_Phase ''p'' PhaseStatusFailed [''t'']]\<rparr> in
   CanComplete s = Inr PlanStatusCompleted \<and> EffectiveStatusForCompletion ''t'' s = StatusDeadLetter
   \<and> EffectiveStatusForCompletion ''t'' s \<in> {StatusCompleted, StatusDeadLetter, StatusAborted}"
  using completed_plan_delivers [OF completion_witness_state(1) [of StatusDeadLetter], where t = "''t''"]
    completion_witness_state [of StatusDeadLetter]
  by (simp add: Let_def terminal_defs zero_CommandState_def zero_Phase_def)

text \<open>
  Auto-cancel touches paused work only. The call either cancels nothing and leaves the state as it is, or every
  required task was recorded and was terminal or paused_for_replan, exactly the paused ones become cancelled
  (with the recorded reason), and afterwards no required task is open. No other task changes.
\<close>

theorem auto_cancel_correct:
  "case autoCancelPausedForReplanIfBlocking now state of (n, state') \<Rightarrow>
     if n = 0 then state' = state
     else open_required state' = []
       \<and> (\<forall>j. map_of (TaskStates state') j =
           (if j \<in> set (RequiredTaskIDs state) \<and> map_of (TaskStates state) j = Some StatusPausedForReplan
            then Some StatusCancelled else map_of (TaskStates state) j))
       \<and> (\<forall>j. map_of (CancelledReasons state') j =
           (if j \<in> set (RequiredTaskIDs state) \<and> map_of (TaskStates state) j = Some StatusPausedForReplan
            then Some auto_cancel_reason else map_of (CancelledReasons state) j))"
proof (cases "paused_ids (TaskStates state) (RequiredTaskIDs state)")
  case None
  then show ?thesis by (simp add: autoCancelPausedForReplanIfBlocking_def)
next
  case (Some ps)
  note p = paused_ids_Some [OF Some]
  have c: "IsTerminal StatusCancelled" by (simp add: terminal_defs)
  let ?s = "fold (cancel_paused now) ps state"
  have "\<exists>s. map_of (TaskStates ?s) i = Some s \<and> IsTerminal s" if "i \<in> set (RequiredTaskIDs state)" for i
    using p c that by (auto simp: fold_cancel_paused)
  then show ?thesis
    using Some p
    by (auto simp: autoCancelPausedForReplanIfBlocking_def fold_cancel_paused open_required_Nil)
qed

lemma advance_phase_cases:
  obtains (same) "\<And>n. advance_phase n state phase = phase"
  | (moved) ps where "advance_phase now state phase = phase\<lparr>ph_Status := ps, ph_CompletedAt := Some now\<rparr>"
      "ps \<in> {PhaseStatusFailed, PhaseStatusCancelled, PhaseStatusCompleted}"
      "\<not> IsPhaseTerminal (ph_Status phase)" "ph_TaskIDs phase \<noteq> []"
      "{t \<in> set (ph_TaskIDs phase). \<not> IsTerminal (EffectiveStatusForCompletion t state)} = {}"
proof (cases "IsPhaseTerminal (ph_Status phase) \<or> ph_TaskIDs phase = []
    \<or> (\<exists>tid \<in> set (ph_TaskIDs phase). \<not> IsTerminal (EffectiveStatusForCompletion tid state))")
  case True
  then have "advance_phase n state phase = phase" for n by (auto simp: advance_phase_def)
  then show ?thesis by (rule same)
next
  case False
  then obtain ps where "advance_phase now state phase = phase\<lparr>ph_Status := ps, ph_CompletedAt := Some now\<rparr>"
    "ps \<in> {PhaseStatusFailed, PhaseStatusCancelled, PhaseStatusCompleted}"
    unfolding advance_phase_def Let_def by simp
  with False show ?thesis by (intro moved) auto
qed

definition allowed_advance :: "PhaseStatus \<Rightarrow> PhaseStatus \<Rightarrow> bool" where
  "allowed_advance old new =
     (old = PhaseStatusActive
      \<or> old = PhaseStatusPending \<and> new \<noteq> PhaseStatusCompleted
      \<or> old \<in> {PhaseStatusAwaitingFill, PhaseStatusFilling} \<and> new = PhaseStatusFailed)"

lemma allowed_advance_iff:
  "ps \<in> {PhaseStatusFailed, PhaseStatusCancelled, PhaseStatusCompleted} \<Longrightarrow> \<not> IsPhaseTerminal old \<Longrightarrow>
   succeeds (ValidatePhaseTransition old ps) = allowed_advance old ps"
  by (cases old) (auto simp: table_defs allowed_advance_def)

text \<open>
  Advancing the phases at completion is idempotent and settles exactly the phases whose work is
  done: a phase changes only when it has tasks, is not terminal and all its tasks are effectively
  terminal, and it is terminal then. The change is a transition the phase table allows just when the phase
  was active, or was pending and did not complete, or was awaiting_fill or filling and failed; a
  pending phase whose tasks are finished is completed although no transition allows it.
\<close>

theorem advance_phases_correct:
  "advancePhasesInline now' (advancePhasesInline now state) = advancePhasesInline now state
   \<and> (advance_phase now state phase = phase
      \<or> IsPhaseTerminal (ph_Status (advance_phase now state phase)) \<and> \<not> IsPhaseTerminal (ph_Status phase)
        \<and> ph_TaskIDs phase \<noteq> []
        \<and> {t \<in> set (ph_TaskIDs phase). \<not> IsTerminal (EffectiveStatusForCompletion t state)} = {}
        \<and> (succeeds (ValidatePhaseTransition (ph_Status phase) (ph_Status (advance_phase now state phase)))
            \<longleftrightarrow> allowed_advance (ph_Status phase) (ph_Status (advance_phase now state phase))))"
proof
  have settled: "advance_phase now' state (advance_phase now state phase) = advance_phase now state phase" for phase
    by (cases rule: advance_phase_cases [where now = now and state = state and phase = phase])
      (auto simp: advance_phase_def [of now'] terminal_defs)
  then show "advancePhasesInline now' (advancePhasesInline now state) = advancePhasesInline now state"
    by (simp add: advancePhasesInline_def)
  show "advance_phase now state phase = phase
      \<or> IsPhaseTerminal (ph_Status (advance_phase now state phase)) \<and> \<not> IsPhaseTerminal (ph_Status phase)
        \<and> ph_TaskIDs phase \<noteq> []
        \<and> {t \<in> set (ph_TaskIDs phase). \<not> IsTerminal (EffectiveStatusForCompletion t state)} = {}
        \<and> (succeeds (ValidatePhaseTransition (ph_Status phase) (ph_Status (advance_phase now state phase)))
            \<longleftrightarrow> allowed_advance (ph_Status phase) (ph_Status (advance_phase now state phase)))"
  proof (cases rule: advance_phase_cases [where now = now and state = state and phase = phase])
    case (moved ps)
    have "IsPhaseTerminal ps" using moved(2) by (auto simp: terminal_defs)
    with moved allowed_advance_iff [OF moved(2,3)] show ?thesis by simp
  qed simp
qed

end
