(* ===== verification/Base_Name.thy ===== *)
theory Base_Name imports Maestro_Prelude begin

text \<open>
  The check that guards every path built from an id (\<open>internal/validate/basename.go\<close>), over
  \<open>filepath.Base\<close> of the Go library on a system whose separator is the slash.
\<close>

definition filepath_Base :: "string \<Rightarrow> string" where
  "filepath_Base path =
     (if path = [] then ''.''
      else let stripped = rev (dropWhile (\<lambda>c. c = CHR ''/'') (rev path));
               lastElem = rev (takeWhile (\<lambda>c. c \<noteq> CHR ''/'') (rev stripped)) in
           if lastElem = [] then ''/'' else lastElem)"

definition IsValidBaseName :: "string \<Rightarrow> bool" where
  "IsValidBaseName name = (filepath_Base name = name \<and> name \<noteq> ''.'' \<and> name \<noteq> ''..'')"

lemma filepath_Base_id:
  assumes "name \<noteq> []"
  shows "filepath_Base name = name \<longleftrightarrow> name = ''/'' \<or> CHR ''/'' \<notin> set name"
proof (cases "CHR ''/'' \<in> set name")
  case False
  then have dW: "dropWhile (\<lambda>c. c = CHR ''/'') (rev name) = rev name"
    using assms by (cases "rev name") auto
  have tW: "takeWhile (\<lambda>c. c \<noteq> CHR ''/'') (rev name) = rev name"
    using False by (auto simp: takeWhile_eq_all_conv)
  show ?thesis
    unfolding filepath_Base_def Let_def dW rev_rev_ident tW using assms False by simp
next
  case True
  let ?l = "rev (takeWhile (\<lambda>c. c \<noteq> CHR ''/'') (rev (rev (dropWhile (\<lambda>c. c = CHR ''/'') (rev name)))))"
  have "CHR ''/'' \<notin> set ?l" by (auto dest: set_takeWhileD)
  then have "?l \<noteq> name" using True by metis
  then show ?thesis
    using assms True unfolding filepath_Base_def Let_def by (auto simp del: rev_rev_ident)
qed

text \<open>
  The names the check admits are exactly the non-empty names without a separator other than the two
  dot names, and the single name that is the separator itself.
\<close>

theorem valid_base_name_iff:
  "IsValidBaseName name \<longleftrightarrow>
     name = ''/'' \<or> name \<notin> {[], ''.'', ''..''} \<and> CHR ''/'' \<notin> set name"
proof (cases "name = []")
  case True
  then show ?thesis by (simp add: IsValidBaseName_def filepath_Base_def)
next
  case False
  then show ?thesis unfolding IsValidBaseName_def filepath_Base_id [OF False] by auto
qed

end
