(* ===== verification/Finalize.thy ===== *)
theory Finalize imports Completion Base_Name "HOL-Library.Word" begin

unbundle bit_operations_syntax

text \<open>
  Finishing a command (\<open>Complete\<close>, \<open>executeCompleteSteps\<close> and \<open>replayCompleteIntent\<close> of
  \<open>internal/plan/complete.go\<close> and \<open>complete_intent.go\<close>): three stores are brought to the same
  outcome, under a write-ahead intent that the next call replays after a crash.

  The files a call reads and writes are one record, \<open>Disk\<close>. Each atomic file write is a function on
  it that re-reads what it modifies, as the read-modify-write helpers do, and an operation returns the
  writes it makes in order, so a crash after \<open>k\<close> writes is \<open>take k\<close> of them. Files that cannot
  be read or written (I/O errors other than the modelled ones) are not modelled.
\<close>

section \<open>Task results and their fingerprint\<close>

fun status_string :: "Status \<Rightarrow> string" where
  "status_string StatusPending = ''pending''"
| "status_string StatusInProgress = ''in_progress''"
| "status_string StatusCompleted = ''completed''"
| "status_string StatusFailed = ''failed''"
| "status_string StatusCancelled = ''cancelled''"
| "status_string StatusDeadLetter = ''dead_letter''"
| "status_string StatusPlanned = ''planned''"
| "status_string StatusReady = ''ready''"
| "status_string StatusDispatched = ''dispatched''"
| "status_string StatusRunning = ''running''"
| "status_string StatusVerifyPending = ''verify_pending''"
| "status_string StatusRepairPending = ''repair_pending''"
| "status_string StatusPausedForReplan = ''paused_for_replan''"
| "status_string StatusPausedForHuman = ''paused_for_human''"
| "status_string StatusAborted = ''aborted''"
| "status_string (StatusOther s) = s"

text \<open>FNV-1a of the Go library, on the bytes of a string.\<close>

definition fnv1a :: "64 word \<Rightarrow> string \<Rightarrow> 64 word" where
  "fnv1a h s = fold (\<lambda>c h. (h XOR word_of_nat (of_char c)) * 1099511628211) s h"

text \<open>
  The results are sorted by task id. The sort of the model keeps the order of equal ids; \<open>sort.Slice\<close>
  does so for up to twelve results and may not beyond.
\<close>

definition computeTaskResultsVersion :: "CommandResultTask list \<Rightarrow> 64 word" where
  "computeTaskResultsVersion results =
     fold (\<lambda>r h. fnv1a h
         (rt_TaskID r @ '':'' @ rt_Worker r @ '':'' @ status_string (rt_Status r) @ [CHR 0x0A]))
       (sort_key rt_TaskID results)
       (fnv1a 14695981039346656037 ''task_results_v1'')"

record WorkerResult =
  wr_CommandID :: string
  wr_TaskID :: string
  wr_Status :: Status
  wr_Summary :: string

text \<open>
  A file of the results directory is its name and what parsing gives (\<open>None\<close> when it cannot be
  read or parsed). The result is the tasks of the command and the names that failed.
\<close>

definition aggregateTaskResults ::
  "(string \<times> WorkerResult list option) list \<Rightarrow> string \<Rightarrow> CommandResultTask list \<times> string list" where
  "aggregateTaskResults files commandID =
     (let workers = filter (\<lambda>(name, _). has_prefix name ''worker'' \<and> has_suffix name ''.yaml'') files in
      (concat (map (\<lambda>(name, content).
          case content of
            None \<Rightarrow> []
          | Some rs \<Rightarrow> map (\<lambda>r. \<lparr>rt_TaskID = wr_TaskID r, rt_Worker = take (length name - 5) name,
                rt_Status = wr_Status r, rt_Summary = wr_Summary r\<rparr>)
              (filter (\<lambda>r. wr_CommandID r = commandID) rs)) workers),
       map fst (filter (\<lambda>(_, content). content = None) workers)))"

text \<open>Logged only: the number of logical task slots with a result.\<close>

definition lineageLatestResultCount ::
  "CommandResultTask list \<Rightarrow> (string, string) gomap \<Rightarrow> (string, string) gomap \<Rightarrow> nat" where
  "lineageLatestResultCount results retryLineage cancelledReasons =
     length (filter (\<lambda>r. rt_TaskID r \<notin> snd ` set retryLineage
       \<and> \<not> has_prefix (zget [] cancelledReasons (rt_TaskID r)) ''superseded_by_'') results)"

section \<open>The disk\<close>

record completeIntent =
  in_SchemaVersion :: int
  in_FileType :: string
  in_CommandID :: string
  in_Summary :: string
  in_ResultStatus :: Status
  in_PlanStatus :: PlanStatus
  in_TaskResults :: "CommandResultTask list"
  in_TaskResultsVersion :: "64 word"
  in_CreatedAt :: stamp
  in_ProcessingStartedAt :: "stamp option"

record deferredComplete =
  df_SchemaVersion :: int
  df_FileType :: string
  df_CommandID :: string
  df_Summary :: string
  df_CreatedAt :: stamp

text \<open>The part of a worktree state file the publish guard reads.\<close>

record PublishView =
  pv_IntegrationStatus :: IntegrationStatus
  pv_QuarantineReason :: string
  pv_CommitFailedWorkers :: "string list"

record Disk =
  dk_State :: "CommandState option"
  dk_Results :: "CommandResult list"
  dk_Queue :: "Command list"
  dk_Intent :: "(unit + completeIntent) option"
  dk_Deferred :: "(unit + deferredComplete) option"
  dk_Worktree :: "PublishView option"
  dk_WorkerFiles :: "(string \<times> WorkerResult list option) list"

type_synonym dwrite = "Disk \<Rightarrow> Disk"

definition apply_writes :: "dwrite list \<Rightarrow> Disk \<Rightarrow> Disk" where
  "apply_writes ws d = fold (\<lambda>w d. w d) ws d"

text \<open>
  A file that does not parse is \<open>Inl\<close>; the structural checks that follow the parse reject a bad
  record too.
\<close>

definition intent_ok :: "completeIntent \<Rightarrow> bool" where
  "intent_ok i =
     (in_SchemaVersion i = 1 \<and> in_FileType i = ''intent_plan_complete'' \<and> in_CommandID i \<noteq> []
      \<and> IsTerminal (in_ResultStatus i) \<and> IsPlanTerminal (in_PlanStatus i))"

definition readCompleteIntent :: "Disk \<Rightarrow> unit + completeIntent option" where
  "readCompleteIntent d =
     (case dk_Intent d of
        None \<Rightarrow> Inr None
      | Some (Inl _) \<Rightarrow> Inl ()
      | Some (Inr i) \<Rightarrow> if intent_ok i then Inr (Some i) else Inl ())"

definition writeCompleteIntent :: "completeIntent \<Rightarrow> dwrite" where
  "writeCompleteIntent i d = d\<lparr>dk_Intent := Some (Inr i)\<rparr>"

definition removeCompleteIntent :: dwrite where
  "removeCompleteIntent d = d\<lparr>dk_Intent := None\<rparr>"

definition WriteDeferredComplete :: "string \<Rightarrow> string \<Rightarrow> stamp \<Rightarrow> dwrite" where
  "WriteDeferredComplete commandID summary now d =
     d\<lparr>dk_Deferred := Some (Inr \<lparr>df_SchemaVersion = 1, df_FileType = ''deferred_plan_complete'',
        df_CommandID = commandID, df_Summary = summary, df_CreatedAt = now\<rparr>)\<rparr>"

definition SaveState :: "CommandState \<Rightarrow> dwrite" where
  "SaveState state d = d\<lparr>dk_State := Some state\<rparr>"

section \<open>The helpers\<close>

text \<open>The element a \<open>for i := range\<close> loop modifies before it returns: the first that matches.\<close>

fun update_first :: "('a \<Rightarrow> bool) \<Rightarrow> ('a \<Rightarrow> 'a) \<Rightarrow> 'a list \<Rightarrow> 'a list" where
  "update_first p f [] = []"
| "update_first p f (x # xs) = (if p x then f x # xs else x # update_first p f xs)"

definition new_result ::
  "string \<Rightarrow> stamp \<Rightarrow> string \<Rightarrow> Status \<Rightarrow> string \<Rightarrow> CommandResultTask list \<Rightarrow> CommandResult" where
  "new_result resultID now commandID status summary tasks =
     \<lparr>Notified = False, NotifyAttempts = 0, NotifyLeaseOwner = None, NotifyLeaseExpiresAt = None,
      NotifiedAt = None, NotifyLastError = None, NotifyDeadLettered = False,
      NotifyDeadLetteredAt = None, NotifyDeadLetterReason = None,
      cr_ID = resultID, cr_CommandID = commandID, cr_Status = status, cr_Summary = summary,
      cr_TaskStats = ComputeTaskStats tasks, cr_Tasks = tasks, cr_CreatedAt = now\<rparr>"

definition writeCommandResultLocked ::
  "string \<Rightarrow> stamp \<Rightarrow> string \<Rightarrow> Status \<Rightarrow> string \<Rightarrow> CommandResultTask list \<Rightarrow> dwrite" where
  "writeCommandResultLocked resultID now commandID status summary tasks d =
     (if \<exists>r \<in> set (dk_Results d). cr_CommandID r = commandID then d
      else d\<lparr>dk_Results := dk_Results d @ [new_result resultID now commandID status summary tasks]\<rparr>)"

definition reconcileCommandResultLocked ::
  "string \<Rightarrow> stamp \<Rightarrow> string \<Rightarrow> Status \<Rightarrow> string \<Rightarrow> CommandResultTask list \<Rightarrow> dwrite" where
  "reconcileCommandResultLocked resultID now commandID status summary tasks d =
     (if \<exists>r \<in> set (dk_Results d). cr_CommandID r = commandID
      then d\<lparr>dk_Results := update_first (\<lambda>r. cr_CommandID r = commandID)
               (\<lambda>r. r\<lparr>cr_Status := status, cr_Summary := summary, cr_TaskStats := ComputeTaskStats tasks,
                      cr_Tasks := tasks, Notified := False, cr_CreatedAt := now\<rparr>) (dk_Results d)\<rparr>
      else d\<lparr>dk_Results := dk_Results d @ [new_result resultID now commandID status summary tasks]\<rparr>)"

definition updateCommandQueueEntryLocked :: "stamp \<Rightarrow> string \<Rightarrow> Status \<Rightarrow> dwrite" where
  "updateCommandQueueEntryLocked now commandID status d =
     d\<lparr>dk_Queue := update_first (\<lambda>q. q_ID q = commandID)
        (\<lambda>q. if IsTerminal (q_Status q) then q
             else q\<lparr>q_Status := status, q_LeaseOwner := None, q_LeaseExpiresAt := None, q_UpdatedAt := now\<rparr>)
        (dk_Queue d)\<rparr>"

definition reconcileCommandQueueEntryLocked :: "stamp \<Rightarrow> string \<Rightarrow> Status \<Rightarrow> dwrite" where
  "reconcileCommandQueueEntryLocked now commandID status d =
     d\<lparr>dk_Queue := update_first (\<lambda>q. q_ID q = commandID)
        (\<lambda>q. if q_Status q = status then q
             else q\<lparr>q_Status := status, q_LeaseOwner := None, q_LeaseExpiresAt := None, q_UpdatedAt := now\<rparr>)
        (dk_Queue d)\<rparr>"

section \<open>The completion sequence\<close>

datatype FinishError =
    InvalidCommandID string
  | LoadStateFailed
  | NotATerminalPlanStatus PlanStatus
  | ConflictNoStateEntry string
  | ConflictNonTerminal string Status
  | ConflictPartialResults "string list"
  | StaleTaskResults "64 word" "64 word"
  | RecoveryPartialResults "string list"
  | CannotComplete CompleteError
  | UnexpectedDerivedStatus PlanStatus
  | WorktreeTerminal IntegrationStatus string
  | WorktreeNotPublished IntegrationStatus
  | CommitFailures "string list"
  | PartialResults "string list"

definition planStatusToResultStatus :: "PlanStatus \<Rightarrow> FinishError + Status" where
  "planStatusToResultStatus ps =
     (case ps of
        PlanStatusCompleted \<Rightarrow> Inr StatusCompleted
      | PlanStatusFailed \<Rightarrow> Inr StatusFailed
      | PlanStatusCancelled \<Rightarrow> Inr StatusCancelled
      | _ \<Rightarrow> Inl (NotATerminalPlanStatus ps))"

definition conflict_required_error :: "CommandState \<Rightarrow> FinishError option" where
  "conflict_required_error state =
     first_error (\<lambda>taskID. case map_of (TaskStates state) taskID of
         None \<Rightarrow> Some (ConflictNoStateEntry taskID)
       | Some ts \<Rightarrow> if IsTerminal ts then None else Some (ConflictNonTerminal taskID ts))
       (RequiredTaskIDs state)"

definition stale_error :: "Disk \<Rightarrow> completeIntent \<Rightarrow> FinishError option" where
  "stale_error d intent =
     (if in_TaskResultsVersion intent = 0 then None
      else case aggregateTaskResults (dk_WorkerFiles d) (in_CommandID intent) of
        (freshResults, freshPartialErrs) \<Rightarrow>
          if freshPartialErrs \<noteq> [] then Some (ConflictPartialResults freshPartialErrs)
          else if computeTaskResultsVersion freshResults \<noteq> in_TaskResultsVersion intent
          then Some (StaleTaskResults (in_TaskResultsVersion intent) (computeTaskResultsVersion freshResults))
          else None)"

definition executeCompleteSteps ::
  "string \<Rightarrow> stamp \<Rightarrow> Disk \<Rightarrow> CommandState \<Rightarrow> completeIntent \<Rightarrow> FinishError + dwrite list" where
  "executeCompleteSteps resultID now d state intent =
     (if IsPlanTerminal (cs_PlanStatus state) \<and> cs_PlanStatus state \<noteq> in_PlanStatus intent
      then and_then (planStatusToResultStatus (cs_PlanStatus state)) (\<lambda>actualStatus.
        case conflict_required_error state of
          Some e \<Rightarrow> Inl e
        | None \<Rightarrow>
            (case stale_error d intent of
               Some e \<Rightarrow> Inl e
             | None \<Rightarrow> Inr
                 [reconcileCommandResultLocked resultID now (in_CommandID intent) actualStatus
                    (in_Summary intent) (in_TaskResults intent),
                  reconcileCommandQueueEntryLocked now (in_CommandID intent) actualStatus]))
      else Inr
        ([writeCommandResultLocked resultID now (in_CommandID intent) (in_ResultStatus intent)
            (in_Summary intent) (in_TaskResults intent),
          updateCommandQueueEntryLocked now (in_CommandID intent) (in_ResultStatus intent)]
         @ (if cs_PlanStatus state \<noteq> in_PlanStatus intent
            then [SaveState (state\<lparr>cs_PlanStatus := in_PlanStatus intent, cs_UpdatedAt := now\<rparr>)]
            else [])))"

text \<open>
  The recovery. The plan status it returns reads the state in memory after the steps, which
  the third step has set to that of the intent.
\<close>

definition replayCompleteIntent ::
  "string \<Rightarrow> stamp \<Rightarrow> Disk \<Rightarrow> completeIntent \<Rightarrow> (FinishError + PlanStatus) \<times> dwrite list" where
  "replayCompleteIntent resultID now d intent0 =
     (let intent = intent0\<lparr>in_ProcessingStartedAt := Some now\<rparr>;
          stampw = writeCompleteIntent intent in
      case dk_State d of
        None \<Rightarrow> (Inl LoadStateFailed, [stampw])
      | Some state \<Rightarrow>
          (let final = (if IsPlanTerminal (cs_PlanStatus state) then cs_PlanStatus state else in_PlanStatus intent) in
           case executeCompleteSteps resultID now d state intent of
             Inr ws \<Rightarrow> (Inr final, stampw # ws @ [removeCompleteIntent])
           | Inl (StaleTaskResults v w) \<Rightarrow>
               (case aggregateTaskResults (dk_WorkerFiles d) (in_CommandID intent) of
                  (fresh, errs) \<Rightarrow>
                    if errs \<noteq> [] then (Inl (RecoveryPartialResults errs), [stampw])
                    else (let intent' = intent\<lparr>in_TaskResults := fresh,
                                in_TaskResultsVersion := computeTaskResultsVersion fresh\<rparr>;
                              refreshw = writeCompleteIntent intent' in
                          case executeCompleteSteps resultID now d state intent' of
                            Inl e \<Rightarrow> (Inl e, [stampw, refreshw])
                          | Inr ws \<Rightarrow> (Inr final, stampw # refreshw # ws @ [removeCompleteIntent])))
           | Inl e \<Rightarrow> (Inl e, [stampw])))"

section \<open>Complete\<close>

definition checkWorktreePublished :: "bool \<Rightarrow> PublishView option \<Rightarrow> FinishError + unit" where
  "checkWorktreePublished enabled wcs =
     (if \<not> enabled then Inr ()
      else case wcs of
        None \<Rightarrow> Inr ()
      | Some w \<Rightarrow>
          if pv_IntegrationStatus w = IntegrationStatusCreated then Inr ()
          else if pv_IntegrationStatus w = IntegrationStatusQuarantined
          then Inl (WorktreeTerminal (pv_IntegrationStatus w) (pv_QuarantineReason w))
          else if pv_IntegrationStatus w \<noteq> IntegrationStatusPublished
          then Inl (WorktreeNotPublished (pv_IntegrationStatus w))
          else if pv_CommitFailedWorkers w \<noteq> [] then Inl (CommitFailures (pv_CommitFailedWorkers w))
          else Inr ())"

record CompleteOptions =
  co_CommandID :: string
  co_Summary :: string
  co_WorktreeEnabled :: bool

datatype CompleteResult = Finished PlanStatus | DeferredPublish

text \<open>The last part: aggregate the results, write the intent, run the steps, remove the intent.\<close>

definition finish ::
  "string \<Rightarrow> stamp \<Rightarrow> CompleteOptions \<Rightarrow> Disk \<Rightarrow> CommandState \<Rightarrow> Status \<Rightarrow> PlanStatus \<Rightarrow>
   (FinishError + CompleteResult) \<times> dwrite list" where
  "finish resultID now opts d state resultStatus planStatus =
     (case aggregateTaskResults (dk_WorkerFiles d) (co_CommandID opts) of
        (taskResults, partialErrors) \<Rightarrow>
          if partialErrors \<noteq> [] then (Inl (PartialResults partialErrors), [])
          else (let intent = \<lparr>in_SchemaVersion = 1, in_FileType = ''intent_plan_complete'',
                       in_CommandID = co_CommandID opts, in_Summary = co_Summary opts,
                       in_ResultStatus = resultStatus, in_PlanStatus = planStatus,
                       in_TaskResults = taskResults,
                       in_TaskResultsVersion = computeTaskResultsVersion taskResults,
                       in_CreatedAt = now, in_ProcessingStartedAt = None\<rparr> in
                case executeCompleteSteps resultID now d state intent of
                  Inl e \<Rightarrow> (Inl e, [writeCompleteIntent intent])
                | Inr ws \<Rightarrow> (Inr (Finished planStatus),
                    writeCompleteIntent intent # ws @ [removeCompleteIntent])))"

text \<open>From the can-complete check on.\<close>

definition complete_checked ::
  "string \<Rightarrow> stamp \<Rightarrow> CompleteOptions \<Rightarrow> Disk \<Rightarrow> CommandState \<Rightarrow>
   (FinishError + CompleteResult) \<times> dwrite list" where
  "complete_checked resultID now opts d state =
     (let deferred = WriteDeferredComplete (co_CommandID opts) (co_Summary opts) now in
      case CanComplete state of
        Inl e \<Rightarrow> if IsRetryable e then (Inr DeferredPublish, [deferred]) else (Inl (CannotComplete e), [])
      | Inr derived \<Rightarrow>
          (case planStatusToResultStatus derived of
             Inl _ \<Rightarrow> (Inl (UnexpectedDerivedStatus derived), [])
           | Inr resultStatus \<Rightarrow>
               (case (if resultStatus = StatusCompleted
                      then checkWorktreePublished (co_WorktreeEnabled opts) (dk_Worktree d) else Inr ()) of
                  Inr _ \<Rightarrow> finish resultID now opts d state resultStatus derived
                | Inl (WorktreeTerminal _ _) \<Rightarrow> finish resultID now opts d state StatusFailed PlanStatusFailed
                | Inl (WorktreeNotPublished _) \<Rightarrow> (Inr DeferredPublish, [deferred])
                | Inl e \<Rightarrow> (Inl e, []))))"

text \<open>The auto-cancel step before it, which saves the state when it cancelled anything.\<close>

definition complete_state ::
  "string \<Rightarrow> stamp \<Rightarrow> CompleteOptions \<Rightarrow> Disk \<Rightarrow> CommandState \<Rightarrow>
   (FinishError + CompleteResult) \<times> dwrite list" where
  "complete_state resultID now opts d state0 =
     (case autoCancelPausedForReplanIfBlocking now state0 of
        (autoCancelled, state1) \<Rightarrow>
          if 0 < autoCancelled
          then (let state = advancePhasesInline now (state1\<lparr>cs_UpdatedAt := now\<rparr>) in
                case complete_checked resultID now opts d state of
                  (res, ws) \<Rightarrow> (res, SaveState state # ws))
          else complete_checked resultID now opts d state1)"

definition complete_fresh ::
  "string \<Rightarrow> stamp \<Rightarrow> CompleteOptions \<Rightarrow> Disk \<Rightarrow> (FinishError + CompleteResult) \<times> dwrite list" where
  "complete_fresh resultID now opts d =
     (case dk_State d of
        None \<Rightarrow> (Inl LoadStateFailed, [])
      | Some state \<Rightarrow>
          if cs_PlanStatus state \<in> {PlanStatusCompleted, PlanStatusFailed, PlanStatusCancelled}
          then (Inr (Finished (cs_PlanStatus state)), [])
          else complete_state resultID now opts d state)"

definition Complete ::
  "string \<Rightarrow> stamp \<Rightarrow> CompleteOptions \<Rightarrow> Disk \<Rightarrow> (FinishError + CompleteResult) \<times> dwrite list" where
  "Complete resultID now opts d =
     (if \<not> IsValidBaseName (co_CommandID opts) then (Inl (InvalidCommandID (co_CommandID opts)), [])
      else case readCompleteIntent d of
        Inl _ \<Rightarrow>
          (case complete_fresh resultID now opts d of (res, ws) \<Rightarrow> (res, removeCompleteIntent # ws))
      | Inr None \<Rightarrow> complete_fresh resultID now opts d
      | Inr (Some intent) \<Rightarrow>
          if in_CommandID intent \<noteq> co_CommandID opts
          then (case complete_fresh resultID now opts d of (res, ws) \<Rightarrow> (res, removeCompleteIntent # ws))
          else (case replayCompleteIntent resultID now d intent of
                  (Inl e, ws) \<Rightarrow> (Inl e, ws)
                | (Inr ps, ws) \<Rightarrow> (Inr (Finished ps), ws)))"

section \<open>Lemmas\<close>

lemma apply_writes_simps [simp]:
  "apply_writes [] d = d"
  "apply_writes (w # ws) d = apply_writes ws (w d)"
  "apply_writes (ws @ vs) d = apply_writes vs (apply_writes ws d)"
  by (simp_all add: apply_writes_def)

lemma find_update_first:
  "(\<And>x. p (f x) = p x) \<Longrightarrow> find p (update_first p f xs) = map_option f (find p xs)"
  by (induction xs) auto

lemma find_snoc: "find p (xs @ [x]) = (case find p xs of None \<Rightarrow> if p x then Some x else None | Some y \<Rightarrow> Some y)"
  by (induction xs) auto

definition result_of :: "Disk \<Rightarrow> string \<Rightarrow> CommandResult option" where
  "result_of d c = find (\<lambda>r. cr_CommandID r = c) (dk_Results d)"

definition entry_of :: "Disk \<Rightarrow> string \<Rightarrow> Command option" where
  "entry_of d c = find (\<lambda>q. q_ID q = c) (dk_Queue d)"

lemma result_of_None: "(\<exists>r \<in> set (dk_Results d). cr_CommandID r = c) \<longleftrightarrow> result_of d c \<noteq> None"
  by (auto simp: result_of_def find_None_iff)

lemma result_writes:
  "result_of (writeCommandResultLocked rid now c st summary tasks d) c =
     (case result_of d c of None \<Rightarrow> Some (new_result rid now c st summary tasks) | Some r \<Rightarrow> Some r)"
  "map_option cr_Status (result_of (reconcileCommandResultLocked rid now c st summary tasks d) c) = Some st"
  using result_of_None [of d c]
  by (auto simp: writeCommandResultLocked_def reconcileCommandResultLocked_def result_of_def find_snoc
      find_update_first new_result_def split: option.split)

lemma queue_writes:
  "entry_of (updateCommandQueueEntryLocked now c st d) c =
     map_option (\<lambda>q. if IsTerminal (q_Status q) then q
       else q\<lparr>q_Status := st, q_LeaseOwner := None, q_LeaseExpiresAt := None, q_UpdatedAt := now\<rparr>) (entry_of d c)"
  "entry_of (reconcileCommandQueueEntryLocked now c st d) c =
     map_option (\<lambda>q. if q_Status q = st then q
       else q\<lparr>q_Status := st, q_LeaseOwner := None, q_LeaseExpiresAt := None, q_UpdatedAt := now\<rparr>) (entry_of d c)"
  by (simp_all add: updateCommandQueueEntryLocked_def reconcileCommandQueueEntryLocked_def entry_of_def
      find_update_first)

lemma write_frames [simp]:
  "dk_State (writeCompleteIntent i d) = dk_State d" "result_of (writeCompleteIntent i d) c = result_of d c"
  "entry_of (writeCompleteIntent i d) c = entry_of d c" "dk_Intent (writeCompleteIntent i d) = Some (Inr i)"
  "dk_WorkerFiles (writeCompleteIntent i d) = dk_WorkerFiles d"
  "dk_State (removeCompleteIntent d) = dk_State d" "result_of (removeCompleteIntent d) c = result_of d c"
  "entry_of (removeCompleteIntent d) c = entry_of d c" "dk_Intent (removeCompleteIntent d) = None"
  "dk_State (SaveState s d) = Some s" "result_of (SaveState s d) c = result_of d c"
  "entry_of (SaveState s d) c = entry_of d c" "dk_Intent (SaveState s d) = dk_Intent d"
  "dk_State (writeCommandResultLocked rid now c' st sm ts d) = dk_State d"
  "entry_of (writeCommandResultLocked rid now c' st sm ts d) c = entry_of d c"
  "dk_Intent (writeCommandResultLocked rid now c' st sm ts d) = dk_Intent d"
  "dk_State (reconcileCommandResultLocked rid now c' st sm ts d) = dk_State d"
  "entry_of (reconcileCommandResultLocked rid now c' st sm ts d) c = entry_of d c"
  "dk_State (updateCommandQueueEntryLocked now c' st d) = dk_State d"
  "result_of (updateCommandQueueEntryLocked now c' st d) c = result_of d c"
  "dk_Intent (updateCommandQueueEntryLocked now c' st d) = dk_Intent d"
  "dk_State (reconcileCommandQueueEntryLocked now c' st d) = dk_State d"
  "result_of (reconcileCommandQueueEntryLocked now c' st d) c = result_of d c"
  by (simp_all add: writeCompleteIntent_def removeCompleteIntent_def SaveState_def writeCommandResultLocked_def
      reconcileCommandResultLocked_def updateCommandQueueEntryLocked_def reconcileCommandQueueEntryLocked_def
      result_of_def entry_of_def)

text \<open>
  The three stores agree on the outcome: the state has the plan status, the result of the command has
  the corresponding status, and so has its queue entry unless it has been archived.
\<close>

definition agree :: "Disk \<Rightarrow> string \<Rightarrow> PlanStatus \<Rightarrow> bool" where
  "agree d c ps =
     (map_option cs_PlanStatus (dk_State d) = Some ps
      \<and> map_option (Inr \<circ> cr_Status) (result_of d c) = Some (planStatusToResultStatus ps)
      \<and> (case entry_of d c of None \<Rightarrow> True | Some q \<Rightarrow> planStatusToResultStatus ps = Inr (q_Status q)))"

text \<open>What the stores may hold while a completion with status \<open>rs\<close> is under way.\<close>

definition compatible :: "Disk \<Rightarrow> string \<Rightarrow> Status \<Rightarrow> bool" where
  "compatible d c rs =
     ((case result_of d c of None \<Rightarrow> True | Some r \<Rightarrow> cr_Status r = rs)
      \<and> (case entry_of d c of None \<Rightarrow> True | Some q \<Rightarrow> IsTerminal (q_Status q) \<longrightarrow> q_Status q = rs))"

lemma plan_terminal_result: "IsPlanTerminal ps \<longleftrightarrow> (\<exists>st. planStatusToResultStatus ps = Inr st)"
  by (cases ps) (auto simp: planStatusToResultStatus_def terminal_defs)

lemma result_status_terminal: "planStatusToResultStatus ps = Inr st \<Longrightarrow> IsTerminal st"
  by (cases ps) (auto simp: planStatusToResultStatus_def terminal_defs)

abbreviation in_conflict :: "CommandState \<Rightarrow> completeIntent \<Rightarrow> bool" where
  "in_conflict s i \<equiv> IsPlanTerminal (cs_PlanStatus s) \<and> cs_PlanStatus s \<noteq> in_PlanStatus i"

lemma steps_agree:
  assumes "executeCompleteSteps rid now d0 s i = Inr ws"
    and "planStatusToResultStatus (in_PlanStatus i) = Inr (in_ResultStatus i)"
    and "dk_State d = Some s" and "in_conflict s i \<or> compatible d (in_CommandID i) (in_ResultStatus i)"
  shows "agree (apply_writes ws d) (in_CommandID i)
    (if IsPlanTerminal (cs_PlanStatus s) then cs_PlanStatus s else in_PlanStatus i)"
proof (cases "in_conflict s i")
  case True
  with assms(1) obtain st where st: "planStatusToResultStatus (cs_PlanStatus s) = Inr st"
    and ws: "ws = [reconcileCommandResultLocked rid now (in_CommandID i) st (in_Summary i) (in_TaskResults i),
                  reconcileCommandQueueEntryLocked now (in_CommandID i) st]"
    by (auto simp: executeCompleteSteps_def and_then_Inr split: option.splits)
  show ?thesis
    using True st assms(3) result_writes(2) [of rid now "in_CommandID i" st "in_Summary i" "in_TaskResults i" d]
    by (auto simp: ws agree_def queue_writes split: option.split)
next
  case False
  then have compat: "compatible d (in_CommandID i) (in_ResultStatus i)" using assms(4) by blast
  have rs: "IsTerminal (in_ResultStatus i)" using assms(2) by (rule result_status_terminal)
  have ps: "IsPlanTerminal (in_PlanStatus i)" using assms(2) by (auto simp: plan_terminal_result)
  have eq: "(if IsPlanTerminal (cs_PlanStatus s) then cs_PlanStatus s else in_PlanStatus i) = in_PlanStatus i"
    using False by auto
  have ws: "ws = [writeCommandResultLocked rid now (in_CommandID i) (in_ResultStatus i) (in_Summary i) (in_TaskResults i),
          updateCommandQueueEntryLocked now (in_CommandID i) (in_ResultStatus i)]
         @ (if cs_PlanStatus s \<noteq> in_PlanStatus i
            then [SaveState (s\<lparr>cs_PlanStatus := in_PlanStatus i, cs_UpdatedAt := now\<rparr>)] else [])"
    using assms(1) False by (auto simp: executeCompleteSteps_def)
  show ?thesis
    unfolding eq using compat assms(2,3)
    by (auto simp: ws agree_def queue_writes result_writes compatible_def new_result_def split: option.split)
qed

lemma replay_run:
  assumes "replayCompleteIntent rid now d i = (Inr ps, ws)"
  obtains s i' pre steps where "dk_State d = Some s" "in_CommandID i' = in_CommandID i"
    "in_PlanStatus i' = in_PlanStatus i" "in_ResultStatus i' = in_ResultStatus i"
    "executeCompleteSteps rid now d s i' = Inr steps"
    "ws = pre @ steps @ [removeCompleteIntent]" "\<forall>w \<in> set pre. \<exists>j. w = writeCompleteIntent j"
    "ps = (if IsPlanTerminal (cs_PlanStatus s) then cs_PlanStatus s else in_PlanStatus i)"
proof (cases "dk_State d")
  case None
  with assms show ?thesis by (simp add: replayCompleteIntent_def Let_def)
next
  case (Some s)
  let ?i = "i\<lparr>in_ProcessingStartedAt := Some now\<rparr>"
  let ?ps = "if IsPlanTerminal (cs_PlanStatus s) then cs_PlanStatus s else in_PlanStatus i"
  show ?thesis
  proof (cases "executeCompleteSteps rid now d s ?i")
    case (Inr steps)
    with assms Some have "ps = ?ps" "ws = [writeCompleteIntent ?i] @ steps @ [removeCompleteIntent]"
      by (auto simp: replayCompleteIntent_def Let_def)
    with Some Inr show ?thesis by (intro that [of s ?i steps "[writeCompleteIntent ?i]"]) auto
  next
    case (Inl e)
    with assms Some obtain v w where e: "e = StaleTaskResults v w"
      by (cases e) (auto simp: replayCompleteIntent_def Let_def)
    obtain fresh errs where a: "aggregateTaskResults (dk_WorkerFiles d) (in_CommandID i) = (fresh, errs)" by fastforce
    let ?i2 = "?i\<lparr>in_TaskResults := fresh, in_TaskResultsVersion := computeTaskResultsVersion fresh\<rparr>"
    from assms Some Inl e a obtain steps where "executeCompleteSteps rid now d s ?i2 = Inr steps" "ps = ?ps"
      "ws = [writeCompleteIntent ?i, writeCompleteIntent ?i2] @ steps @ [removeCompleteIntent]"
      by (auto simp: replayCompleteIntent_def Let_def split: if_splits sum.splits)
    with Some show ?thesis
      by (intro that [of s ?i2 steps "[writeCompleteIntent ?i, writeCompleteIntent ?i2]"]) auto
  qed
qed

lemma intent_writes_frame:
  "\<forall>w \<in> set pre. \<exists>j. w = writeCompleteIntent j \<Longrightarrow>
   dk_State (apply_writes pre d) = dk_State d \<and> result_of (apply_writes pre d) c = result_of d c
   \<and> entry_of (apply_writes pre d) c = entry_of d c"
proof (induction pre arbitrary: d)
  case (Cons w pre)
  then obtain j where "w = writeCompleteIntent j" by auto
  with Cons show ?case by simp
qed simp

lemma replay_agrees:
  assumes "replayCompleteIntent rid now d i = (Inr ps, ws)"
    and "planStatusToResultStatus (in_PlanStatus i) = Inr (in_ResultStatus i)"
    and "dk_State d = Some s" and "in_conflict s i \<or> compatible d (in_CommandID i) (in_ResultStatus i)"
  shows "agree (apply_writes ws d) (in_CommandID i) ps \<and> dk_Intent (apply_writes ws d) = None
    \<and> ps = (if IsPlanTerminal (cs_PlanStatus s) then cs_PlanStatus s else in_PlanStatus i)"
proof -
  from assms(1,3) obtain i' pre steps where i': "in_CommandID i' = in_CommandID i"
    "in_PlanStatus i' = in_PlanStatus i" "in_ResultStatus i' = in_ResultStatus i"
    and st: "executeCompleteSteps rid now d s i' = Inr steps"
    and ws: "ws = pre @ steps @ [removeCompleteIntent]" "\<forall>w \<in> set pre. \<exists>j. w = writeCompleteIntent j"
    and ps: "ps = (if IsPlanTerminal (cs_PlanStatus s) then cs_PlanStatus s else in_PlanStatus i)"
    by (auto elim: replay_run)
  note fr = intent_writes_frame [OF ws(2)]
  have "agree (apply_writes steps (apply_writes pre d)) (in_CommandID i') ps"
    using steps_agree [OF st, of "apply_writes pre d"] assms(2-4) i' fr ps by (auto simp: compatible_def)
  then show ?thesis using ps i' by (auto simp: ws(1) agree_def)
qed

text \<open>Without a conflict a replay succeeds.\<close>

lemma replay_succeeds:
  assumes "dk_State d = Some s" and "\<not> in_conflict s i"
  shows "\<exists>ws. replayCompleteIntent rid now d i =
    (Inr (if IsPlanTerminal (cs_PlanStatus s) then cs_PlanStatus s else in_PlanStatus i), ws)"
proof -
  let ?i = "i\<lparr>in_ProcessingStartedAt := Some now\<rparr>"
  from assms(2) obtain steps where "executeCompleteSteps rid now d s ?i = Inr steps"
    by (auto simp: executeCompleteSteps_def)
  then show ?thesis using assms by (auto simp: replayCompleteIntent_def Let_def)
qed

section \<open>A run of Complete\<close>

lemma auto_cancel_none: "autoCancelPausedForReplanIfBlocking now s = (0, s') \<Longrightarrow> s' = s"
  by (auto simp: autoCancelPausedForReplanIfBlocking_def split: option.splits)

lemma autoCancel_frame:
  "autoCancelPausedForReplanIfBlocking now s = (n, s') \<Longrightarrow> cs_PlanStatus s' = cs_PlanStatus s"
proof -
  have "cs_PlanStatus (fold (cancel_paused now) ids s) = cs_PlanStatus s" for ids
    by (induction ids arbitrary: s) (simp_all add: cancel_paused_def)
  then show "autoCancelPausedForReplanIfBlocking now s = (n, s') \<Longrightarrow> cs_PlanStatus s' = cs_PlanStatus s"
    by (auto simp: autoCancelPausedForReplanIfBlocking_def split: option.splits)
qed

lemma advance_frame [simp]: "cs_PlanStatus (advancePhasesInline now s) = cs_PlanStatus s"
  by (simp add: advancePhasesInline_def)

text \<open>The five writes of a completion that ends.\<close>

definition completion_writes :: "string \<Rightarrow> stamp \<Rightarrow> CommandState \<Rightarrow> completeIntent \<Rightarrow> dwrite list" where
  "completion_writes rid now s i =
     [writeCompleteIntent i,
      writeCommandResultLocked rid now (in_CommandID i) (in_ResultStatus i) (in_Summary i) (in_TaskResults i),
      updateCommandQueueEntryLocked now (in_CommandID i) (in_ResultStatus i),
      SaveState (s\<lparr>cs_PlanStatus := in_PlanStatus i, cs_UpdatedAt := now\<rparr>),
      removeCompleteIntent]"

lemma finish_run:
  assumes "finish rid now opts d s rs p = (Inr r, ws)" and "cs_PlanStatus s = PlanStatusSealed"
    and "planStatusToResultStatus p = Inr rs" and "co_CommandID opts \<noteq> []"
  obtains i where "r = Finished p" "ws = completion_writes rid now s i" "intent_ok i"
    "in_CommandID i = co_CommandID opts" "in_PlanStatus i = p" "in_ResultStatus i = rs"
proof -
  obtain tasks errs where a: "aggregateTaskResults (dk_WorkerFiles d) (co_CommandID opts) = (tasks, errs)" by fastforce
  let ?i = "\<lparr>in_SchemaVersion = 1, in_FileType = ''intent_plan_complete'',
       in_CommandID = co_CommandID opts, in_Summary = co_Summary opts, in_ResultStatus = rs, in_PlanStatus = p,
       in_TaskResults = tasks, in_TaskResultsVersion = computeTaskResultsVersion tasks,
       in_CreatedAt = now, in_ProcessingStartedAt = None\<rparr>"
  have p: "IsPlanTerminal p" "p \<noteq> PlanStatusSealed" "IsTerminal rs"
    using assms(3) result_status_terminal by (auto simp: planStatusToResultStatus_def terminal_defs split: PlanStatus.splits)
  have "intent_ok ?i" using p assms(4) by (simp add: intent_ok_def)
  moreover have "\<not> IsPlanTerminal PlanStatusSealed" by (simp add: terminal_defs)
  then have "r = Finished p" "ws = completion_writes rid now s ?i"
    using assms(1,2) a p(2) by (auto simp: finish_def executeCompleteSteps_def completion_writes_def Let_def split: if_splits)
  ultimately show ?thesis by (intro that [of ?i]) auto
qed

lemma IsValidBaseName_nonempty: "IsValidBaseName name \<Longrightarrow> name \<noteq> []"
  by (auto simp: IsValidBaseName_def filepath_Base_def)

lemma complete_checked_run:
  assumes "complete_checked rid now opts d s = (Inr (Finished ps), ws)" and "co_CommandID opts \<noteq> []"
  obtains i where "ws = completion_writes rid now s i" "cs_PlanStatus s = PlanStatusSealed" "intent_ok i"
    "in_CommandID i = co_CommandID opts" "in_PlanStatus i = ps" "planStatusToResultStatus ps = Inr (in_ResultStatus i)"
proof -
  obtain derived where c: "CanComplete s = Inr derived"
    using assms(1) by (cases "CanComplete s") (auto simp: complete_checked_def Let_def split: if_splits)
  have sealed: "cs_PlanStatus s = PlanStatusSealed" using CanComplete_Inr(1) [OF c] .
  have "\<exists>rs p. finish rid now opts d s rs p = (Inr (Finished ps), ws) \<and> planStatusToResultStatus p = Inr rs"
  proof (cases "planStatusToResultStatus derived")
    case (Inr rs)
    have "planStatusToResultStatus PlanStatusFailed = Inr StatusFailed" by (simp add: planStatusToResultStatus_def)
    with assms(1) c Inr show ?thesis
      by (auto simp: complete_checked_def Let_def split: if_splits sum.splits FinishError.splits)
  qed (use assms(1) c in \<open>simp add: complete_checked_def Let_def\<close>)
  then obtain rs p where f: "finish rid now opts d s rs p = (Inr (Finished ps), ws)" "planStatusToResultStatus p = Inr rs"
    by blast
  from finish_run [OF f(1) sealed f(2) assms(2)] show ?thesis
    using that f(2) sealed by (metis CompleteResult.inject)
qed

lemma complete_state_run:
  assumes "complete_state rid now opts d s0 = (Inr (Finished ps), ws)" and "co_CommandID opts \<noteq> []"
  obtains saved s i where "ws = saved @ completion_writes rid now s i" "saved = [] \<and> s = s0 \<or> saved = [SaveState s]"
    "cs_PlanStatus s = PlanStatusSealed" "cs_PlanStatus s0 = PlanStatusSealed" "intent_ok i"
    "in_CommandID i = co_CommandID opts" "in_PlanStatus i = ps" "planStatusToResultStatus ps = Inr (in_ResultStatus i)"
proof -
  obtain n s1 where ac: "autoCancelPausedForReplanIfBlocking now s0 = (n, s1)" by fastforce
  note fr = autoCancel_frame [OF ac]
  show ?thesis
  proof (cases "0 < n")
    case True
    let ?s = "advancePhasesInline now (s1\<lparr>cs_UpdatedAt := now\<rparr>)"
    obtain ws' where c: "complete_checked rid now opts d ?s = (Inr (Finished ps), ws')" and ws: "ws = SaveState ?s # ws'"
      using assms(1) True ac by (auto simp: complete_state_def Let_def split: prod.splits)
    from complete_checked_run [OF c assms(2)] obtain i where "ws' = completion_writes rid now ?s i"
      "cs_PlanStatus ?s = PlanStatusSealed" "intent_ok i"
      "in_CommandID i = co_CommandID opts" "in_PlanStatus i = ps" "planStatusToResultStatus ps = Inr (in_ResultStatus i)" .
    then show ?thesis using ws fr by (intro that [of "[SaveState ?s]" ?s i]) auto
  next
    case False
    then have "s1 = s0" using ac auto_cancel_none by simp
    with False assms(1) ac have c: "complete_checked rid now opts d s0 = (Inr (Finished ps), ws)"
      by (auto simp: complete_state_def)
    from complete_checked_run [OF c assms(2)] show ?thesis
      by (metis append_Nil that)
  qed
qed

text \<open>The disk after each prefix of the completion writes.\<close>

lemma completion_prefix:
  assumes "k \<le> 5" and "dk_State d = Some s'" "cs_PlanStatus s' = PlanStatusSealed" "cs_PlanStatus s = PlanStatusSealed"
    and i: "intent_ok i" "planStatusToResultStatus (in_PlanStatus i) = Inr (in_ResultStatus i)"
    and fresh: "result_of d (in_CommandID i) = None"
      "case entry_of d (in_CommandID i) of None \<Rightarrow> True | Some q \<Rightarrow> \<not> IsTerminal (q_Status q)"
    and d': "d' = apply_writes (take k (completion_writes rid now s i)) d"
  shows "k = 0 \<and> d' = d
    \<or> 1 \<le> k \<and> k \<le> 4 \<and> dk_Intent d' = Some (Inr i) \<and> compatible d' (in_CommandID i) (in_ResultStatus i)
      \<and> (\<exists>s''. dk_State d' = Some s'' \<and> cs_PlanStatus s'' \<in> {PlanStatusSealed, in_PlanStatus i})
    \<or> k = 5 \<and> dk_Intent d' = None \<and> agree d' (in_CommandID i) (in_PlanStatus i)"
proof -
  have rs: "IsTerminal (in_ResultStatus i)" using i(2) by (rule result_status_terminal)
  consider "k = 0" | "k = 1" | "k = 2" | "k = 3" | "k = 4" | "k = 5" using assms(1) by linarith
  then show ?thesis
    by cases
      (use assms(2,3) i rs fresh in \<open>auto simp: d' completion_writes_def compatible_def agree_def result_writes
        queue_writes new_result_def eval_nat_numeral split: option.splits\<close>)
qed

section \<open>Properties\<close>

text \<open>
  C2. Recovery brings the stores together. If replaying an intent of \<open>Complete\<close> succeeds, then afterwards the
  command state, the command result and the queue entry carry the same outcome, the intent is gone,
  and the outcome is the one reported. This holds in a conflict, when the plan was meanwhile finished with
  another status (the state wins), and otherwise whenever the stores held nothing that contradicts the
  intent; without a conflict the replay does succeed.
\<close>

theorem recovery_agrees:
  assumes "planStatusToResultStatus (in_PlanStatus i) = Inr (in_ResultStatus i)"
    and "dk_State d = Some s" and "in_conflict s i \<or> compatible d (in_CommandID i) (in_ResultStatus i)"
  shows "case replayCompleteIntent rid now d i of
      (Inr ps, ws) \<Rightarrow> agree (apply_writes ws d) (in_CommandID i) ps \<and> dk_Intent (apply_writes ws d) = None
        \<and> ps = (if IsPlanTerminal (cs_PlanStatus s) then cs_PlanStatus s else in_PlanStatus i)
    | (Inl e, ws) \<Rightarrow> in_conflict s i"
proof (cases "in_conflict s i")
  case False
  from replay_succeeds [OF assms(2) False, of rid now] show ?thesis
    using replay_agrees [OF _ assms(1,2), of rid now] assms(3) by auto
next
  case True
  then show ?thesis
    using replay_agrees [OF _ assms(1,2), of rid now] by (auto split: sum.split prod.split)
qed

definition demo_state :: CommandState where
  "demo_state = (zero_CommandState ''c'' PlanStatusSealed)\<lparr>ExpectedTaskCount := 1, RequiredTaskIDs := [''t''],
    TaskStates := [(''t'', StatusCompleted)], Phases := [zero_Phase ''p'' PhaseStatusFailed [''t'']]\<rparr>"

definition demo_disk :: Disk where
  "demo_disk = \<lparr>dk_State = Some demo_state, dk_Results = [], dk_Queue = [zero_Command ''c'' StatusInProgress],
    dk_Intent = None, dk_Deferred = None, dk_Worktree = None, dk_WorkerFiles = []\<rparr>"

definition demo_opts :: CompleteOptions where
  "demo_opts = \<lparr>co_CommandID = ''c'', co_Summary = ''done'', co_WorktreeEnabled = True\<rparr>"

definition demo_intent :: completeIntent where
  "demo_intent = \<lparr>in_SchemaVersion = 1, in_FileType = ''intent_plan_complete'', in_CommandID = ''c'',
    in_Summary = ''done'', in_ResultStatus = StatusCompleted, in_PlanStatus = PlanStatusCompleted,
    in_TaskResults = [], in_TaskResultsVersion = computeTaskResultsVersion [],
    in_CreatedAt = Stamp 0, in_ProcessingStartedAt = None\<rparr>"

lemma demo_run:
  "Complete ''r1'' (Stamp 0) demo_opts demo_disk =
     (Inr (Finished PlanStatusCompleted), completion_writes ''r1'' (Stamp 0) demo_state demo_intent)"
proof -
  have c: "CanComplete demo_state = Inr PlanStatusCompleted"
    using completion_witness_state(1) [of StatusCompleted] by (simp add: demo_state_def terminal_defs)
  have v: "IsValidBaseName ''c''" by (simp add: IsValidBaseName_def filepath_Base_def)
  have a: "autoCancelPausedForReplanIfBlocking (Stamp 0) demo_state = (0, demo_state)"
    by (simp add: autoCancelPausedForReplanIfBlocking_def demo_state_def terminal_defs)
  have p: "cs_PlanStatus demo_state = PlanStatusSealed" by (simp add: demo_state_def zero_CommandState_def)
  have "finish ''r1'' (Stamp 0) demo_opts demo_disk demo_state StatusCompleted PlanStatusCompleted =
     (Inr (Finished PlanStatusCompleted), completion_writes ''r1'' (Stamp 0) demo_state demo_intent)"
    using p by (simp add: finish_def demo_opts_def demo_disk_def aggregateTaskResults_def executeCompleteSteps_def
        completion_writes_def demo_intent_def terminal_defs Let_def)
  then have "complete_state ''r1'' (Stamp 0) demo_opts demo_disk demo_state =
     (Inr (Finished PlanStatusCompleted), completion_writes ''r1'' (Stamp 0) demo_state demo_intent)"
    using a c by (simp add: complete_state_def complete_checked_def Let_def planStatusToResultStatus_def
        checkWorktreePublished_def demo_disk_def)
  then show ?thesis
    using v p by (simp add: Complete_def readCompleteIntent_def complete_fresh_def demo_opts_def demo_disk_def)
qed

lemma recovery_agrees_witness:
  "\<exists>ws. replayCompleteIntent ''r2'' (Stamp 1) demo_disk demo_intent = (Inr PlanStatusCompleted, ws)
     \<and> agree (apply_writes ws demo_disk) ''c'' PlanStatusCompleted"
proof -
  have s: "dk_State demo_disk = Some demo_state" and p: "cs_PlanStatus demo_state = PlanStatusSealed"
    by (simp_all add: demo_disk_def demo_state_def zero_CommandState_def)
  have n: "\<not> in_conflict demo_state demo_intent" by (simp add: p terminal_defs)
  have "compatible demo_disk (in_CommandID demo_intent) (in_ResultStatus demo_intent)"
    by (simp add: compatible_def result_of_def entry_of_def demo_disk_def demo_intent_def zero_Command_def terminal_defs)
  with recovery_agrees [OF _ s, of demo_intent "''r2''" "Stamp 1"] n
  show ?thesis
    by (auto simp: planStatusToResultStatus_def demo_intent_def p terminal_defs split: prod.splits sum.splits)
qed

text \<open>
  C1. Completion survives a crash at every point. Take a run of \<open>Complete\<close> that finishes a command with status \<open>ps\<close>,
  started without an intent file, a result or a terminal queue entry, and stop it after any number \<open>k\<close>
  of its writes. Either no intent is left behind, and then the results and the queue are untouched and the plan is
  still sealed, or all stores agree on \<open>ps\<close>; or an intent is left, and then calling \<open>Complete\<close> again,
  with whatever result id and time, reports \<open>ps\<close> and leaves all stores agreeing on it and no intent.
\<close>

theorem complete_crash_safe:
  assumes "Complete rid now opts d = (Inr (Finished ps), ws)"
    and "dk_Intent d = None" and "dk_State d = Some s0" "\<not> IsPlanTerminal (cs_PlanStatus s0)"
    and "result_of d (co_CommandID opts) = None"
    and "case entry_of d (co_CommandID opts) of None \<Rightarrow> True | Some q \<Rightarrow> \<not> IsTerminal (q_Status q)"
    and "d' = apply_writes (take k ws) d"
  shows "if dk_Intent d' = None
    then dk_Results d' = dk_Results d \<and> dk_Queue d' = dk_Queue d
        \<and> map_option cs_PlanStatus (dk_State d') = Some PlanStatusSealed
      \<or> agree d' (co_CommandID opts) ps
    else case Complete rid' now' opts d' of
        (Inr (Finished ps'), ws') \<Rightarrow> ps' = ps \<and> agree (apply_writes ws' d') (co_CommandID opts) ps
          \<and> dk_Intent (apply_writes ws' d') = None
      | _ \<Rightarrow> False"
proof -
  have valid: "IsValidBaseName (co_CommandID opts)"
    using assms(1) by (auto simp: Complete_def split: if_splits)
  have "cs_PlanStatus s0 \<notin> {PlanStatusCompleted, PlanStatusFailed, PlanStatusCancelled}"
    using assms(4) by (auto simp: terminal_defs)
  then have "complete_state rid now opts d s0 = (Inr (Finished ps), ws)"
    using assms(1-3) valid by (simp add: Complete_def readCompleteIntent_def complete_fresh_def)
  from complete_state_run [OF this IsValidBaseName_nonempty [OF valid]] obtain saved s i where
    ws: "ws = saved @ completion_writes rid now s i" "saved = [] \<and> s = s0 \<or> saved = [SaveState s]"
    and sealed: "cs_PlanStatus s = PlanStatusSealed" "cs_PlanStatus s0 = PlanStatusSealed"
    and i: "intent_ok i" "in_CommandID i = co_CommandID opts" "in_PlanStatus i = ps"
      "planStatusToResultStatus ps = Inr (in_ResultStatus i)" .
  show ?thesis
  proof (cases "k \<le> length saved")
    case True
    then have "d' = d \<or> d' = SaveState s d"
      using ws(2) assms(7) by (cases k) (auto simp: ws(1))
    then show ?thesis
      using assms(2,3) sealed by (auto simp: SaveState_def)
  next
    case False
    let ?d = "apply_writes saved d" and ?k = "min 5 (k - length saved)"
    have d': "d' = apply_writes (take ?k (completion_writes rid now s i)) ?d"
      using False assms(7) by (auto simp: ws(1) completion_writes_def min_def)
    have "dk_State ?d = Some s" using ws(2) assms(3) by auto
    from completion_prefix [OF _ this sealed(1,1) i(1) _ _ _ d'] assms(5,6) ws(2) i
    have "1 \<le> ?k \<and> dk_Intent d' = Some (Inr i) \<and> compatible d' (in_CommandID i) (in_ResultStatus i)
        \<and> (\<exists>s''. dk_State d' = Some s'' \<and> cs_PlanStatus s'' \<in> {PlanStatusSealed, in_PlanStatus i})
      \<or> dk_Intent d' = None \<and> agree d' (in_CommandID i) (in_PlanStatus i)"
      using False by auto
    then show ?thesis
    proof
      assume "dk_Intent d' = None \<and> agree d' (in_CommandID i) (in_PlanStatus i)"
      then show ?thesis using i by simp
    next
      assume l: "1 \<le> ?k \<and> dk_Intent d' = Some (Inr i) \<and> compatible d' (in_CommandID i) (in_ResultStatus i)
        \<and> (\<exists>s''. dk_State d' = Some s'' \<and> cs_PlanStatus s'' \<in> {PlanStatusSealed, in_PlanStatus i})"
      then obtain s'' where s'': "dk_State d' = Some s''" "\<not> in_conflict s'' i"
        by (auto simp: terminal_defs)
      from replay_succeeds [OF this, of rid' now'] obtain ws' ps' where
        r: "replayCompleteIntent rid' now' d' i = (Inr ps', ws')" by blast
      have "ps' = ps"
        using replay_agrees [OF r _ s''(1)] l i s''(1) by (auto simp: terminal_defs)
      moreover have "Complete rid' now' opts d' = (Inr (Finished ps'), ws')"
        using valid l i r by (simp add: Complete_def readCompleteIntent_def)
      ultimately show ?thesis
        using replay_agrees [OF r _ s''(1)] l i by auto
    qed
  qed
qed

lemma complete_crash_safe_witness:
  "let d' = apply_writes (take 2 (completion_writes ''r1'' (Stamp 0) demo_state demo_intent)) demo_disk in
   dk_Intent d' = Some (Inr demo_intent)
   \<and> (\<exists>ws'. Complete ''r2'' (Stamp 9) demo_opts d' = (Inr (Finished PlanStatusCompleted), ws')
        \<and> agree (apply_writes ws' d') ''c'' PlanStatusCompleted)"
proof -
  define d' where "d' = apply_writes (take 2 (completion_writes ''r1'' (Stamp 0) demo_state demo_intent)) demo_disk"
  have i: "dk_Intent d' = Some (Inr demo_intent)"
    by (simp add: d'_def completion_writes_def eval_nat_numeral)
  have s: "dk_State demo_disk = Some demo_state" "dk_Intent demo_disk = None"
    and p: "\<not> IsPlanTerminal (cs_PlanStatus demo_state)"
    and r: "result_of demo_disk (co_CommandID demo_opts) = None"
    and q: "case entry_of demo_disk (co_CommandID demo_opts) of None \<Rightarrow> True | Some q \<Rightarrow> \<not> IsTerminal (q_Status q)"
    by (simp_all add: demo_disk_def demo_state_def zero_CommandState_def terminal_defs result_of_def entry_of_def
        demo_opts_def zero_Command_def)
  have "co_CommandID demo_opts = ''c''" by (simp add: demo_opts_def)
  with complete_crash_safe [OF demo_run s(2,1) p r q d'_def, of "''r2''" "Stamp 9"] i
  show ?thesis
    unfolding Let_def d'_def [symmetric] by (auto split: prod.splits sum.splits CompleteResult.splits)
qed

end
