(* ===== verification/Deferred_Publish.thy ===== *)
theory Deferred_Publish imports Finalize begin

text \<open>
  Completions that wait for the publish (\<open>internal/plan/deferred_complete.go\<close>): the stored request is
  read back when the worktree has been published, handed to \<open>Complete\<close>, and removed once that has settled
  the command. As in \<open>Finalize\<close>, an operation returns the disk writes it makes, in order.
\<close>

datatype DeferredError = DeferredUnreadable | CompleteFailed FinishError

definition readDeferredComplete :: "Disk \<Rightarrow> unit + deferredComplete option" where
  "readDeferredComplete d =
     (case dk_Deferred d of
        None \<Rightarrow> Inr None
      | Some (Inl _) \<Rightarrow> Inl ()
      | Some (Inr dc) \<Rightarrow>
          if df_SchemaVersion dc \<noteq> 1 \<or> df_FileType dc \<noteq> ''deferred_plan_complete'' \<or> df_CommandID dc = []
          then Inl () else Inr (Some dc))"

definition RemoveDeferredComplete :: dwrite where
  "RemoveDeferredComplete d = d\<lparr>dk_Deferred := None\<rparr>"

definition CompleteDeferredPublish ::
  "string \<Rightarrow> stamp \<Rightarrow> CompleteOptions \<Rightarrow> Disk \<Rightarrow> (DeferredError + CompleteResult option) \<times> dwrite list" where
  "CompleteDeferredPublish resultID now opts d =
     (case readDeferredComplete d of
        Inl _ \<Rightarrow> (Inl DeferredUnreadable, [])
      | Inr None \<Rightarrow> (Inr None, [])
      | Inr (Some dc) \<Rightarrow>
          (case Complete resultID now (opts\<lparr>co_Summary := df_Summary dc\<rparr>) d of
             (Inl e, ws) \<Rightarrow> (Inl (CompleteFailed e), ws)
           | (Inr res, ws) \<Rightarrow>
               (Inr (Some res), ws @ (if res = DeferredPublish then [] else [RemoveDeferredComplete]))))"

section \<open>Lemmas\<close>

text \<open>The writes that keep a deferred request in place; all those of \<open>Complete\<close> do.\<close>

definition keeps_deferred :: "dwrite \<Rightarrow> bool" where
  "keeps_deferred w = (\<forall>d. dk_Deferred d \<noteq> None \<longrightarrow> dk_Deferred (w d) \<noteq> None)"

lemma keeps_writes [simp]:
  "keeps_deferred (writeCompleteIntent i)" "keeps_deferred removeCompleteIntent" "keeps_deferred (SaveState s)"
  "keeps_deferred (WriteDeferredComplete c sm now)"
  "keeps_deferred (writeCommandResultLocked rid now c st sm ts)"
  "keeps_deferred (reconcileCommandResultLocked rid now c st sm ts)"
  "keeps_deferred (updateCommandQueueEntryLocked now c st)"
  "keeps_deferred (reconcileCommandQueueEntryLocked now c st)"
  by (auto simp: keeps_deferred_def writeCompleteIntent_def removeCompleteIntent_def SaveState_def
      WriteDeferredComplete_def writeCommandResultLocked_def reconcileCommandResultLocked_def
      updateCommandQueueEntryLocked_def reconcileCommandQueueEntryLocked_def)

abbreviation all_keep :: "dwrite list \<Rightarrow> bool" where
  "all_keep ws \<equiv> (\<forall>w \<in> set ws. keeps_deferred w)"

lemma keeps_apply: "all_keep ws \<Longrightarrow> dk_Deferred d \<noteq> None \<Longrightarrow> dk_Deferred (apply_writes ws d) \<noteq> None"
proof (induction ws arbitrary: d)
  case (Cons w ws)
  then have "dk_Deferred (w d) \<noteq> None" by (simp add: keeps_deferred_def)
  with Cons show ?case by simp
qed simp

lemma keeps_steps: "executeCompleteSteps rid now d s i = Inr ws \<Longrightarrow> w \<in> set ws \<Longrightarrow> keeps_deferred w"
  by (auto simp: executeCompleteSteps_def and_then_Inr split: if_splits option.splits)

lemma keeps_replay: "replayCompleteIntent rid now d i = (res, ws) \<Longrightarrow> w \<in> set ws \<Longrightarrow> keeps_deferred w"
  by (auto simp: replayCompleteIntent_def Let_def dest: keeps_steps
      split: option.splits sum.splits FinishError.splits prod.splits if_splits)

lemma keeps_finish: "finish rid now opts d s rs ps = (res, ws) \<Longrightarrow> w \<in> set ws \<Longrightarrow> keeps_deferred w"
  by (auto simp: finish_def Let_def dest: keeps_steps split: prod.splits if_splits sum.splits)

lemma keeps_checked: "complete_checked rid now opts d s = (res, ws) \<Longrightarrow> w \<in> set ws \<Longrightarrow> keeps_deferred w"
  by (auto simp: complete_checked_def Let_def dest: keeps_finish
      split: sum.splits if_splits FinishError.splits)

lemma keeps_state: "complete_state rid now opts d s = (res, ws) \<Longrightarrow> w \<in> set ws \<Longrightarrow> keeps_deferred w"
  by (auto simp: complete_state_def Let_def dest: keeps_checked split: prod.splits if_splits)

lemma keeps_fresh: "complete_fresh rid now opts d = (res, ws) \<Longrightarrow> w \<in> set ws \<Longrightarrow> keeps_deferred w"
  by (auto simp: complete_fresh_def dest: keeps_state split: option.splits if_splits)

lemma keeps_Complete: "Complete rid now opts d = (res, ws) \<Longrightarrow> w \<in> set ws \<Longrightarrow> keeps_deferred w"
  by (auto simp: Complete_def dest: keeps_fresh keeps_replay
      split: if_splits sum.splits option.splits prod.splits)

text \<open>The state a finished \<open>Complete\<close> leaves has the status it reports.\<close>

lemma steps_status:
  assumes "executeCompleteSteps rid now d s i = Inr ws" and "dk_State d' = Some s"
  shows "map_option cs_PlanStatus (dk_State (apply_writes ws d')) =
    Some (if IsPlanTerminal (cs_PlanStatus s) then cs_PlanStatus s else in_PlanStatus i)"
  using assms by (auto simp: executeCompleteSteps_def and_then_Inr split: if_splits option.splits)

lemma replay_status:
  assumes "replayCompleteIntent rid now d i = (Inr ps, ws)"
  shows "map_option cs_PlanStatus (dk_State (apply_writes ws d)) = Some ps"
proof -
  from assms obtain s i' pre steps where s: "dk_State d = Some s" "in_PlanStatus i' = in_PlanStatus i"
    and st: "executeCompleteSteps rid now d s i' = Inr steps"
    and ws: "ws = pre @ steps @ [removeCompleteIntent]" "\<forall>w \<in> set pre. \<exists>j. w = writeCompleteIntent j"
    and ps: "ps = (if IsPlanTerminal (cs_PlanStatus s) then cs_PlanStatus s else in_PlanStatus i)"
    by (elim replay_run) blast
  have "dk_State (apply_writes pre d) = Some s" using intent_writes_frame [OF ws(2)] s(1) by simp
  from steps_status [OF st this] show ?thesis using s(2) by (simp only: ws(1) ps apply_writes_simps write_frames)
qed

lemma fresh_status:
  assumes "complete_fresh rid now opts d = (Inr (Finished ps), ws)" and "co_CommandID opts \<noteq> []"
    and "dk_State d' = dk_State d"
  shows "map_option cs_PlanStatus (dk_State (apply_writes ws d')) = Some ps"
proof -
  from assms(1) obtain s0 where s0: "dk_State d = Some s0" by (auto simp: complete_fresh_def split: option.splits)
  show ?thesis
  proof (cases "cs_PlanStatus s0 \<in> {PlanStatusCompleted, PlanStatusFailed, PlanStatusCancelled}")
    case False
    with assms(1) s0 have "complete_state rid now opts d s0 = (Inr (Finished ps), ws)"
      by (simp add: complete_fresh_def)
    from complete_state_run [OF this assms(2)] obtain saved s i where "ws = saved @ completion_writes rid now s i"
      "in_PlanStatus i = ps" by metis
    then show ?thesis by (simp add: completion_writes_def)
  qed (use assms s0 in \<open>auto simp: complete_fresh_def\<close>)
qed

lemma Complete_status:
  assumes "Complete rid now opts d = (Inr (Finished ps), ws)"
  shows "map_option cs_PlanStatus (dk_State (apply_writes ws d)) = Some ps"
proof -
  have ne: "co_CommandID opts \<noteq> []" and v: "IsValidBaseName (co_CommandID opts)"
    using assms IsValidBaseName_nonempty by (auto simp: Complete_def split: if_splits)
  have dropped: "\<exists>ws'. complete_fresh rid now opts d = (Inr (Finished ps), ws') \<and> ws = removeCompleteIntent # ws' \<Longrightarrow> ?thesis"
    using fresh_status [OF _ ne, of rid now d ps _ "removeCompleteIntent d"] by auto
  show ?thesis
  proof (cases "readCompleteIntent d")
    case (Inl u)
    with assms v dropped show ?thesis by (auto simp: Complete_def split: prod.splits)
  next
    case (Inr r)
    show ?thesis
    proof (cases r)
      case None
      with assms v Inr show ?thesis using fresh_status [OF _ ne] by (auto simp: Complete_def)
    next
      case (Some i)
      with assms v Inr dropped show ?thesis
        by (cases "in_CommandID i = co_CommandID opts")
          (auto simp: Complete_def dest: replay_status split: prod.splits sum.splits)
    qed
  qed
qed

section \<open>Properties\<close>


definition demo_deferred :: Disk where
  "demo_deferred = WriteDeferredComplete ''c'' ''done'' (Stamp 0) (demo_disk\<lparr>dk_State := None\<rparr>)"


end
