(* ===== verification/State_Reader.thy ===== *)
theory State_Reader imports Lineage begin

text \<open>
  The cached reader and writer of command states (\<open>internal/plan/state_reader.go\<close>), over the state
  files as a map from command ids. Every write loads from disk under the command lock, checks, saves and
  drops the cache entry; reads may use a cache entry younger than the TTL. Times are nanoseconds; a
  call that reads the clock takes the time as an argument.
\<close>

section \<open>The reader\<close>

record Reader =
  rd_disk :: "(string, CommandState) gomap"
  rd_cache :: "(string, CommandState \<times> int) gomap"
  rd_ttl :: int

definition defaultCacheTTL :: int where
  "defaultCacheTTL = seconds 2"

definition NewPlanStateReader :: "(string, CommandState) gomap \<Rightarrow> Reader" where
  "NewPlanStateReader disk = \<lparr>rd_disk = disk, rd_cache = [], rd_ttl = defaultCacheTTL\<rparr>"

definition SetCacheTTL :: "int \<Rightarrow> Reader \<Rightarrow> Reader" where
  "SetCacheTTL d r = r\<lparr>rd_ttl := d\<rparr>"

definition InvalidateCache :: "string \<Rightarrow> Reader \<Rightarrow> Reader" where
  "InvalidateCache commandID r = r\<lparr>rd_cache := AList.delete commandID (rd_cache r)\<rparr>"

definition InvalidateAll :: "Reader \<Rightarrow> Reader" where
  "InvalidateAll r = r\<lparr>rd_cache := []\<rparr>"

definition LoadState :: "string \<Rightarrow> Reader \<Rightarrow> CommandState option" where
  "LoadState commandID r = map_of (rd_disk r) commandID"

definition loadStateWithCache :: "int \<Rightarrow> string \<Rightarrow> Reader \<Rightarrow> CommandState option \<times> Reader" where
  "loadStateWithCache now commandID r =
     (let hit = (if 0 < rd_ttl r
                 then (case map_of (rd_cache r) commandID of
                         Some (st, loadedAt) \<Rightarrow> if now - loadedAt < rd_ttl r then Some st else None
                       | None \<Rightarrow> None)
                 else None) in
      case hit of
        Some st \<Rightarrow> (Some st, r)
      | None \<Rightarrow>
          (case LoadState commandID r of
             None \<Rightarrow> (None, r)
           | Some st \<Rightarrow>
               (Some st, if 0 < rd_ttl r then r\<lparr>rd_cache := AList.update commandID (st, now) (rd_cache r)\<rparr> else r)))"

datatype StoreError =
    StateNotFound
  | TaskNotFound string
  | PhaseNotFound string
  | BadPhaseTransition "PhaseStatus TransitionError"
  | BadTaskTransition "Status TransitionError"

section \<open>Reads\<close>

text \<open>The queries, on the state that was loaded.\<close>

definition HasNonTerminalTaskState :: "CommandState \<Rightarrow> bool" where
  "HasNonTerminalTaskState state =
     ((\<exists>(taskID, status) \<in> set (TaskStates state). \<not> IsTerminal status)
      \<or> (\<exists>(gid, g) \<in> set (CandidateGroups state).
           case g of None \<Rightarrow> False | Some gr \<Rightarrow> IsUnresolved (cg_Status gr)))"

definition GetNonTerminalTaskStates :: "CommandState \<Rightarrow> (string, Status) gomap" where
  "GetNonTerminalTaskStates state = filter (\<lambda>(taskID, status). \<not> IsTerminal status) (TaskStates state)"

definition GetTaskState :: "string \<Rightarrow> CommandState \<Rightarrow> StoreError + Status" where
  "GetTaskState taskID state =
     (case map_of (TaskStates state) taskID of None \<Rightarrow> Inl (TaskNotFound taskID) | Some s \<Rightarrow> Inr s)"

definition GetEffectiveTaskStatus :: "string \<Rightarrow> CommandState \<Rightarrow> StoreError + Status" where
  "GetEffectiveTaskStatus taskID state =
     (case map_of (TaskStates state) taskID of
        None \<Rightarrow> Inl (TaskNotFound taskID)
      | Some _ \<Rightarrow> Inr (EffectiveStatus taskID (TaskStates state) (RetryLineage state)))"

definition GetEffectiveTaskStatusForCompletion :: "string \<Rightarrow> CommandState \<Rightarrow> StoreError + Status" where
  "GetEffectiveTaskStatusForCompletion taskID state =
     (case map_of (TaskStates state) taskID of
        None \<Rightarrow> Inl (TaskNotFound taskID)
      | Some _ \<Rightarrow> Inr (EffectiveStatusForCompletion taskID state))"

record PhaseInfo =
  pi_ID :: string
  pi_Name :: string
  pi_Status :: PhaseStatus
  pi_TaskIDs :: "string list"
  pi_DependsOn :: "string list"
  pi_FillDeadlineAt :: "stamp option"
  pi_RequiredTaskIDs :: "string list"
  pi_SystemCommitTask :: bool
  pi_CancelledReason :: "string option"
  pi_AwaitingFillSince :: "stamp option"
  pi_AwaitingFillStallNotifiedAt :: "stamp option"

definition phase_name_to_id :: "Phase list \<Rightarrow> (string, string) gomap" where
  "phase_name_to_id phases = fold (\<lambda>p m. AList.update (ph_Name p) (ph_PhaseID p) m) phases []"

definition phase_info :: "CommandState \<Rightarrow> Phase \<Rightarrow> PhaseInfo" where
  "phase_info state p =
     \<lparr>pi_ID = ph_PhaseID p, pi_Name = ph_Name p, pi_Status = ph_Status p, pi_TaskIDs = ph_TaskIDs p,
      pi_DependsOn = List.map_filter (map_of (phase_name_to_id (Phases state))) (ph_DependsOnPhases p),
      pi_FillDeadlineAt = ph_FillDeadlineAt p,
      pi_RequiredTaskIDs = filter (\<lambda>tid. tid \<in> set (ph_TaskIDs p)) (RequiredTaskIDs state),
      pi_SystemCommitTask =
        (case SystemCommitTaskID state of None \<Rightarrow> False | Some t \<Rightarrow> t \<in> set (ph_TaskIDs p)),
      pi_CancelledReason = ph_CancelledReason p, pi_AwaitingFillSince = ph_AwaitingFillSince p,
      pi_AwaitingFillStallNotifiedAt = ph_AwaitingFillStallNotifiedAt p\<rparr>"

definition GetCommandPhases :: "CommandState \<Rightarrow> PhaseInfo list" where
  "GetCommandPhases state = map (phase_info state) (Phases state)"

definition GetTaskDependencies :: "string \<Rightarrow> CommandState \<Rightarrow> string list" where
  "GetTaskDependencies taskID state = zget [] (TaskDependencies state) taskID"

definition IsCommandCancelRequested :: "CommandState \<Rightarrow> bool" where
  "IsCommandCancelRequested state = cn_Requested (Cancel state)"

text \<open>The pair: is it the system commit task, and is it ready.\<close>

definition IsSystemCommitReady :: "string \<Rightarrow> CommandState \<Rightarrow> bool \<times> bool" where
  "IsSystemCommitReady taskID state =
     (if SystemCommitTaskID state \<noteq> Some taskID then (False, False)
      else if Phases state = []
      then (True, \<forall>(tid, s) \<in> set (TaskStates state). tid = taskID \<or> IsTerminal s)
      else (True, \<forall>phase \<in> set (Phases state). IsPhaseTerminal (ph_Status phase)))"

definition GetCircuitBreakerState :: "CommandState \<Rightarrow> CircuitBreakerState" where
  "GetCircuitBreakerState state = CircuitBreaker state"

text \<open>A read through the cache.\<close>

definition reading :: "(CommandState \<Rightarrow> StoreError + 'a) \<Rightarrow> int \<Rightarrow> string \<Rightarrow> Reader \<Rightarrow> (StoreError + 'a) \<times> Reader" where
  "reading query now commandID r =
     (case loadStateWithCache now commandID r of
        (None, r') \<Rightarrow> (Inl StateNotFound, r')
      | (Some st, r') \<Rightarrow> (query st, r'))"

section \<open>Writes\<close>

text \<open>\<open>state.Phases[idx]\<close> modified in place.\<close>

definition update_phase :: "nat \<Rightarrow> (Phase \<Rightarrow> Phase) \<Rightarrow> CommandState \<Rightarrow> CommandState" where
  "update_phase idx f state = state\<lparr>Phases := (Phases state)[idx := f (Phases state ! idx)]\<rparr>"

definition phase_entered :: "int \<Rightarrow> int \<Rightarrow> PhaseStatus \<Rightarrow> Phase \<Rightarrow> Phase" where
  "phase_entered now now2 newStatus p0 =
     (let now' = fmt_stamp now;
          wasAwaitingFill = (ph_Status p0 = PhaseStatusAwaitingFill);
          p1 = p0\<lparr>ph_Status := newStatus\<rparr>;
          p2 = (if IsPhaseTerminal newStatus then p1\<lparr>ph_CompletedAt := Some now'\<rparr> else p1);
          p3 = (if newStatus = PhaseStatusActive then p2\<lparr>ph_ActivatedAt := Some now'\<rparr> else p2)
      in if newStatus = PhaseStatusAwaitingFill
         then (let p4 = p3\<lparr>ph_AwaitingFillSince := Some now', ph_AwaitingFillStallNotifiedAt := None\<rparr> in
               case ph_Constraints p4 of
                 None \<Rightarrow> p4
               | Some c \<Rightarrow>
                   if 0 < TimeoutMinutes c
                   then p4\<lparr>ph_FillDeadlineAt := Some (fmt_stamp (now2 + seconds (60 * TimeoutMinutes c)))\<rparr>
                   else p4)
         else if wasAwaitingFill
         then p3\<lparr>ph_AwaitingFillSince := None, ph_AwaitingFillStallNotifiedAt := None\<rparr>
         else p3)"

text \<open>
  The state changes: an error, or what is saved (\<open>None\<close> when the call returns without saving). The
  second time of \<open>ApplyPhaseTransition\<close> is its second reading of the clock.
\<close>

definition ApplyPhaseTransition ::
  "int \<Rightarrow> int \<Rightarrow> string \<Rightarrow> PhaseStatus \<Rightarrow> CommandState \<Rightarrow> StoreError + CommandState option" where
  "ApplyPhaseTransition now now2 phaseID newStatus state =
     (case PhaseIndex phaseID state of
        None \<Rightarrow> Inl (PhaseNotFound phaseID)
      | Some idx \<Rightarrow>
          (case ValidatePhaseTransition (ph_Status (Phases state ! idx)) newStatus of
             Inl e \<Rightarrow> Inl (BadPhaseTransition e)
           | Inr _ \<Rightarrow> Inr (Some
               ((update_phase idx (phase_entered now now2 newStatus) state)\<lparr>cs_UpdatedAt := fmt_stamp now\<rparr>))))"

definition MarkAwaitingFillStallNotified ::
  "int \<Rightarrow> string \<Rightarrow> stamp \<Rightarrow> CommandState \<Rightarrow> StoreError + CommandState option" where
  "MarkAwaitingFillStallNotified now phaseID notifiedAt state =
     (case PhaseIndex phaseID state of
        None \<Rightarrow> Inl (PhaseNotFound phaseID)
      | Some idx \<Rightarrow>
          if ph_Status (Phases state ! idx) \<noteq> PhaseStatusAwaitingFill then Inr None
          else Inr (Some
            ((update_phase idx (\<lambda>p. p\<lparr>ph_AwaitingFillStallNotifiedAt := Some notifiedAt\<rparr>) state)
               \<lparr>cs_UpdatedAt := fmt_stamp now\<rparr>)))"

definition SetPhaseCancelledReason ::
  "int \<Rightarrow> string \<Rightarrow> string option \<Rightarrow> CommandState \<Rightarrow> StoreError + CommandState option" where
  "SetPhaseCancelledReason now phaseID reason state =
     (case PhaseIndex phaseID state of
        None \<Rightarrow> Inl (PhaseNotFound phaseID)
      | Some idx \<Rightarrow> Inr (Some
          ((update_phase idx (\<lambda>p. p\<lparr>ph_CancelledReason := reason\<rparr>) state)\<lparr>cs_UpdatedAt := fmt_stamp now\<rparr>)))"

definition isKnownTaskID :: "CommandState \<Rightarrow> string \<Rightarrow> bool" where
  "isKnownTaskID state taskID =
     (taskID \<in> set (RequiredTaskIDs state) \<or> taskID \<in> set (OptionalTaskIDs state)
      \<or> SystemCommitTaskID state = Some taskID)"

definition UpdateTaskState ::
  "int \<Rightarrow> string \<Rightarrow> Status \<Rightarrow> string \<Rightarrow> CommandState \<Rightarrow> StoreError + CommandState option" where
  "UpdateTaskState now taskID newStatus cancelledReason state =
     (if \<not> isKnownTaskID state taskID then Inl (TaskNotFound taskID)
      else case (case map_of (TaskStates state) taskID of
                   None \<Rightarrow> Inr ()
                 | Some current \<Rightarrow> ValidateTaskStateTransition current newStatus) of
        Inl e \<Rightarrow> Inl (BadTaskTransition e)
      | Inr _ \<Rightarrow>
          (let state1 = SetTaskState taskID newStatus (fmt_stamp now) state;
               state2 = (if cancelledReason \<noteq> []
                         then state1\<lparr>CancelledReasons := AList.update taskID cancelledReason (CancelledReasons state1)\<rparr>
                         else state1)
           in Inr (Some (state2\<lparr>cs_UpdatedAt := fmt_stamp now\<rparr>))))"

definition MarkCircuitBreakerProgress :: "int \<Rightarrow> CommandState \<Rightarrow> StoreError + CommandState option" where
  "MarkCircuitBreakerProgress now state =
     Inr (Some (state\<lparr>CircuitBreaker := (CircuitBreaker state)\<lparr>LastProgressAt := Some (fmt_stamp now)\<rparr>,
                     cs_UpdatedAt := fmt_stamp now\<rparr>))"

definition cancel_by_breaker :: "stamp \<Rightarrow> string \<Rightarrow> CancelState \<Rightarrow> CancelState" where
  "cancel_by_breaker now reason c =
     (if cn_Requested c then c
      else c\<lparr>cn_Requested := True, cn_RequestedAt := Some now, cn_RequestedBy := Some ''circuit_breaker'',
             cn_Reason := Some reason\<rparr>)"

definition TripCircuitBreaker ::
  "int \<Rightarrow> string \<Rightarrow> int \<Rightarrow> CommandState \<Rightarrow> StoreError + CommandState option" where
  "TripCircuitBreaker now reason progressTimeoutMinutes state =
     (let cb = CircuitBreaker state in
      if Tripped cb then Inr None
      else if 0 < progressTimeoutMinutes
           \<and> (case LastProgressAt cb of
                None \<Rightarrow> False
              | Some s \<Rightarrow> (case parse_stamp s of
                    None \<Rightarrow> False
                  | Some lastProgress \<Rightarrow> now - lastProgress < seconds (60 * progressTimeoutMinutes)))
      then Inr None
      else Inr (Some (state\<lparr>CircuitBreaker := cb\<lparr>Tripped := True, TrippedAt := Some (fmt_stamp now),
                               TripReason := Some reason\<rparr>,
                            Cancel := cancel_by_breaker (fmt_stamp now) reason (Cancel state),
                            cs_UpdatedAt := fmt_stamp now\<rparr>)))"

text \<open>A write: load under the lock, change, save, invalidate.\<close>

definition writing ::
  "(CommandState \<Rightarrow> StoreError + CommandState option) \<Rightarrow> string \<Rightarrow> Reader \<Rightarrow> (StoreError + unit) \<times> Reader" where
  "writing change commandID r =
     (case LoadState commandID r of
        None \<Rightarrow> (Inl StateNotFound, r)
      | Some st \<Rightarrow>
          (case change st of
             Inl e \<Rightarrow> (Inl e, r)
           | Inr None \<Rightarrow> (Inr (), r)
           | Inr (Some st') \<Rightarrow>
               (Inr (), InvalidateCache commandID (r\<lparr>rd_disk := AList.update commandID st' (rd_disk r)\<rparr>))))"

section \<open>The state service\<close>

text \<open>
  What the daemon relies on: a view of the command states, reads that return it and keep it, and
  writes that change the one command by the given change, or nothing.
\<close>

locale state_service =
  fixes view :: "'r \<Rightarrow> string \<Rightarrow> CommandState option"
    and ok :: "'r \<Rightarrow> bool"
    and read :: "int \<Rightarrow> string \<Rightarrow> 'r \<Rightarrow> CommandState option \<times> 'r"
    and modify :: "(CommandState \<Rightarrow> StoreError + CommandState option) \<Rightarrow> string \<Rightarrow> 'r \<Rightarrow> (StoreError + unit) \<times> 'r"
  assumes read_law: "ok r \<Longrightarrow> read now c r = (res, r') \<Longrightarrow> res = view r c \<and> view r' = view r \<and> ok r'"
    and modify_law: "ok r \<Longrightarrow> modify f c r = (out, s) \<Longrightarrow> ok s \<and>
      (case view r c of
         None \<Rightarrow> out = Inl StateNotFound \<and> view s = view r
       | Some st \<Rightarrow>
           (case f st of
              Inl e \<Rightarrow> out = Inl e \<and> view s = view r
            | Inr None \<Rightarrow> out = Inr () \<and> view s = view r
            | Inr (Some st') \<Rightarrow> out = Inr () \<and> view s = (view r)(c \<mapsto> st')))"
begin

lemma read_your_write:
  assumes "ok r" and "view r c = Some s" and "f s = Inr (Some s')"
    and "modify f c r = (res, r')" and "read now c' r' = (got, r'')"
  shows "got = (if c' = c then Some s' else view r c') \<and> res = Inr ()"
  using modify_law [OF assms(1,4)] read_law [OF _ assms(5)] assms(2,3) by auto

lemma failed_write_invisible:
  assumes "ok r" and "modify f c r = (Inl e, r')" and "read now c' r' = (got, r'')"
  shows "got = view r c'"
  using modify_law [OF assms(1,2)] read_law [OF _ assms(3)] by (auto split: option.splits sum.splits)

end

text \<open>The cached reader provides it, as long as the cache holds copies of what is on disk.\<close>

definition cache_ok :: "Reader \<Rightarrow> bool" where
  "cache_ok r = (\<forall>c st t. map_of (rd_cache r) c = Some (st, t) \<longrightarrow> map_of (rd_disk r) c = Some st)"

lemma cache_ok_InvalidateAll: "cache_ok (InvalidateAll r)"
  by (simp add: cache_ok_def InvalidateAll_def)

lemma loadStateWithCache_ok:
  assumes "cache_ok r" and "loadStateWithCache now c r = (res, r')"
  shows "res = map_of (rd_disk r) c \<and> rd_disk r' = rd_disk r \<and> cache_ok r'"
  using assms
  by (auto simp: loadStateWithCache_def LoadState_def cache_ok_def Let_def split: option.splits if_splits)

lemma writing_ok:
  assumes "cache_ok r" and "writing f c r = (res, r')"
  shows "cache_ok r'"
  using assms
  by (auto simp: writing_def cache_ok_def InvalidateCache_def split: option.splits sum.splits if_splits)

interpretation cached_reader: state_service "\<lambda>r. map_of (rd_disk r)" cache_ok loadStateWithCache writing
proof unfold_locales
  fix r now c res and r' :: Reader
  assume "cache_ok r" "loadStateWithCache now c r = (res, r')"
  then show "res = map_of (rd_disk r) c \<and> map_of (rd_disk r') = map_of (rd_disk r) \<and> cache_ok r'"
    using loadStateWithCache_ok by simp
next
  fix r f c res and r' :: Reader
  assume "cache_ok r" "writing f c r = (res, r')"
  then show "cache_ok r' \<and>
      (case map_of (rd_disk r) c of
         None \<Rightarrow> res = Inl StateNotFound \<and> map_of (rd_disk r') = map_of (rd_disk r)
       | Some s \<Rightarrow>
           (case f s of
              Inl e \<Rightarrow> res = Inl e \<and> map_of (rd_disk r') = map_of (rd_disk r)
            | Inr None \<Rightarrow> res = Inr () \<and> map_of (rd_disk r') = map_of (rd_disk r)
            | Inr (Some s') \<Rightarrow> res = Inr () \<and> map_of (rd_disk r') = (map_of (rd_disk r))(c \<mapsto> s')))"
    using writing_ok
    by (auto simp: writing_def LoadState_def InvalidateCache_def update_conv' split: option.splits sum.splits)
qed

section \<open>Lemmas\<close>

lemma PhaseIndex_Some:
  "PhaseIndex phaseID state = Some i \<Longrightarrow> i < length (Phases state) \<and> ph_PhaseID (Phases state ! i) = phaseID"
  by (auto simp: PhaseIndex_def dest: find_index_Some)

lemma phase_entered_simps [simp]:
  "ph_Status (phase_entered now now2 s p) = s" "ph_PhaseID (phase_entered now now2 s p) = ph_PhaseID p"
  "ph_Name (phase_entered now now2 s p) = ph_Name p" "ph_TaskIDs (phase_entered now now2 s p) = ph_TaskIDs p"
  "ph_DependsOnPhases (phase_entered now now2 s p) = ph_DependsOnPhases p"
  by (simp_all add: phase_entered_def Let_def split: option.split)

section \<open>Properties\<close>



text \<open>
  Applying a phase transition is all or nothing: it either reports an unknown phase or an invalid transition, or the
  one phase found by the id moves to the new status by a step the phase table allows while every other phase and every task is unchanged. A phase
  that is entered at awaiting_fill has its watchdog clock set and no notification recorded, and one that leaves it has neither.
\<close>

theorem phase_transition_applied:
  "case ApplyPhaseTransition now now2 phaseID newStatus state of
     Inl e \<Rightarrow> PhaseIndex phaseID state = None
       \<or> (\<exists>p \<in> set (Phases state). ph_PhaseID p = phaseID \<and> \<not> phase_step (ph_Status p) newStatus)
   | Inr None \<Rightarrow> False
   | Inr (Some state') \<Rightarrow> \<exists>i p'. i < length (Phases state) \<and> ph_PhaseID (Phases state ! i) = phaseID
       \<and> phase_step (ph_Status (Phases state ! i)) newStatus
       \<and> Phases state' = (Phases state)[i := p'] \<and> ph_Status p' = newStatus \<and> ph_PhaseID p' = phaseID
       \<and> TaskStates state' = TaskStates state
       \<and> (if newStatus = PhaseStatusAwaitingFill
          then ph_AwaitingFillSince p' = Some (fmt_stamp now) \<and> ph_AwaitingFillStallNotifiedAt p' = None
          else if ph_Status (Phases state ! i) = PhaseStatusAwaitingFill
          then ph_AwaitingFillSince p' = None \<and> ph_AwaitingFillStallNotifiedAt p' = None
          else ph_AwaitingFillSince p' = ph_AwaitingFillSince (Phases state ! i))"
proof (cases "PhaseIndex phaseID state")
  case None
  then show ?thesis by (simp add: ApplyPhaseTransition_def)
next
  case (Some i)
  note i = PhaseIndex_Some [OF Some]
  show ?thesis
  proof (cases "ValidatePhaseTransition (ph_Status (Phases state ! i)) newStatus")
    case (Inl e)
    then have "\<not> phase_step (ph_Status (Phases state ! i)) newStatus" by simp
    then show ?thesis using i Some Inl by (auto simp: ApplyPhaseTransition_def)
  next
    case (Inr u)
    let ?p = "phase_entered now now2 newStatus (Phases state ! i)"
    have "if newStatus = PhaseStatusAwaitingFill
          then ph_AwaitingFillSince ?p = Some (fmt_stamp now) \<and> ph_AwaitingFillStallNotifiedAt ?p = None
          else if ph_Status (Phases state ! i) = PhaseStatusAwaitingFill
          then ph_AwaitingFillSince ?p = None \<and> ph_AwaitingFillStallNotifiedAt ?p = None
          else ph_AwaitingFillSince ?p = ph_AwaitingFillSince (Phases state ! i)"
      by (simp add: phase_entered_def Let_def split: option.split)
    with i Some Inr show ?thesis
      by (auto simp: ApplyPhaseTransition_def update_phase_def intro!: exI [of _ i] exI [of _ ?p])
  qed
qed

text \<open>
  A task status is only ever changed along a valid transition, and only of a task the command knows: a successful \<open>UpdateTaskState\<close> sets
  the one task, with its change stamp, from an absent entry or by a step the task table allows, and leaves
  every other task alone.
\<close>

theorem task_update_valid:
  "case UpdateTaskState now taskID newStatus reason state of
     Inl (TaskNotFound t) \<Rightarrow> t = taskID \<and> \<not> isKnownTaskID state taskID
   | Inl _ \<Rightarrow> \<not> task_step (task_status state taskID) newStatus
   | Inr None \<Rightarrow> False
   | Inr (Some state') \<Rightarrow> isKnownTaskID state taskID
       \<and> (map_of (TaskStates state) taskID = None \<or> task_step (task_status state taskID) newStatus)
       \<and> (\<forall>j. map_of (TaskStates state') j = (if j = taskID then Some newStatus else map_of (TaskStates state) j))
       \<and> map_of (TaskStatusChangedAt state') taskID = Some (fmt_stamp now)"
proof (cases "isKnownTaskID state taskID")
  case False
  then show ?thesis by (simp add: UpdateTaskState_def)
next
  case known: True
  show ?thesis
  proof (cases "map_of (TaskStates state) taskID")
    case None
    with known show ?thesis by (simp add: UpdateTaskState_def Let_def)
  next
    case (Some current)
    then have "task_status state taskID = current" by (simp add: task_status_def zget_Some)
    with known Some show ?thesis
      by (cases "ValidateTaskStateTransition current newStatus") (simp_all add: UpdateTaskState_def Let_def)
  qed
qed

end
