(* ===== verification/Config.thy ===== *)
theory Config imports Maestro_Prelude begin

text \<open>
  Configuration values (\<open>internal/model/config_types.go\<close>, \<open>config_defaults.go\<close>): the sections the
  modelled components read, with the accessors that fill in defaults.
\<close>

definition effectiveValue :: "'a option \<Rightarrow> 'a \<Rightarrow> 'a" where
  "effectiveValue ptr defaultVal = (case ptr of Some v \<Rightarrow> v | None \<Rightarrow> defaultVal)"

definition effectiveNonZero :: "int \<Rightarrow> int \<Rightarrow> int" where
  "effectiveNonZero val defaultVal = (if val \<noteq> 0 then val else defaultVal)"

record CircuitBreakerConfig =
  cb_Enabled :: bool
  cb_MaxConsecutiveFailures :: "int option"
  cb_ProgressTimeoutMinutes :: "int option"
  cb_HalfOpenDelaySec :: "int option"

definition EffectiveMaxConsecutiveFailures :: "CircuitBreakerConfig \<Rightarrow> int" where
  "EffectiveMaxConsecutiveFailures c = effectiveValue (cb_MaxConsecutiveFailures c) 3"

definition EffectiveProgressTimeoutMinutes :: "CircuitBreakerConfig \<Rightarrow> int" where
  "EffectiveProgressTimeoutMinutes c = effectiveValue (cb_ProgressTimeoutMinutes c) 30"

definition EffectiveHalfOpenDelaySec :: "CircuitBreakerConfig \<Rightarrow> int" where
  "EffectiveHalfOpenDelaySec c = effectiveValue (cb_HalfOpenDelaySec c) 60"

record AdmissionControl =
  MaxConcurrentVerify :: int
  MaxConcurrentRepair :: int

definition EffectiveMaxConcurrentVerify :: "AdmissionControl \<Rightarrow> int" where
  "EffectiveMaxConcurrentVerify a = effectiveNonZero (MaxConcurrentVerify a) 2"

definition EffectiveMaxConcurrentRepair :: "AdmissionControl \<Rightarrow> int" where
  "EffectiveMaxConcurrentRepair a = effectiveNonZero (MaxConcurrentRepair a) 1"

section \<open>Numbers in messages\<close>

text \<open>\<open>%d\<close>.\<close>

fun show_nat :: "nat \<Rightarrow> string" where
  "show_nat n = (if n < 10 then [char_of (48 + n)] else show_nat (n div 10) @ [char_of (48 + n mod 10)])"

declare show_nat.simps [simp del]

definition show_int :: "int \<Rightarrow> string" where
  "show_int i = (if i < 0 then CHR ''-'' # show_nat (nat (- i)) else show_nat (nat i))"

end
