(* ===== verification/Circuit_Breaker.thy ===== *)
theory Circuit_Breaker imports State_Reader Config begin

text \<open>
  The circuit breaker of a command (\<open>internal/daemon/circuitbreaker/circuitbreaker.go\<close>): a counter
  of consecutive failures that trips at a threshold and requests the cancellation of the command,
  a progress timeout, and a half-open state that lets one probe task decide. The handler keeps
  the probe task of each command in memory; the rest is in the command state, which the operations
  change in place and the caller saves. A nil state or state manager is not modelled.
\<close>

section \<open>Operations\<close>

record Handler =
  hd_config :: CircuitBreakerConfig
  probeTasks :: "(string, string) gomap"

definition setProbeTask :: "string \<Rightarrow> string \<Rightarrow> Handler \<Rightarrow> Handler" where
  "setProbeTask commandID taskID cb = cb\<lparr>probeTasks := AList.update commandID taskID (probeTasks cb)\<rparr>"

definition probeTask :: "string \<Rightarrow> Handler \<Rightarrow> string option" where
  "probeTask commandID cb = map_of (probeTasks cb) commandID"

definition clearProbeTask :: "string \<Rightarrow> Handler \<Rightarrow> Handler" where
  "clearProbeTask commandID cb = cb\<lparr>probeTasks := AList.delete commandID (probeTasks cb)\<rparr>"

text \<open>The walk over the ancestors of a retried task.\<close>

function lineage_walk :: "'a PhaseTracking_scheme \<Rightarrow> string \<Rightarrow> string list \<Rightarrow> bool" where
  "lineage_walk state cur visited =
     (case map_of (RetryLineage state) cur of
        None \<Rightarrow> False
      | Some ancestor \<Rightarrow>
          if ancestor \<in> set visited then False
          else if task_status state ancestor = StatusFailed \<or> task_status state ancestor = StatusCancelled
          then True
          else lineage_walk state ancestor (ancestor # visited))"
  by pat_completeness auto
termination
proof (relation "measure (\<lambda>(state, cur, visited). card (snd ` set (RetryLineage state) - set visited))")
  fix state :: "'a PhaseTracking_scheme" and cur visited a
  assume "map_of (RetryLineage state) cur = Some a" and "a \<notin> set visited"
  moreover from this have "a \<in> snd ` set (RetryLineage state)" by (force dest: map_of_SomeD)
  ultimately have "card (snd ` set (RetryLineage state) - insert a (set visited))
      < card (snd ` set (RetryLineage state) - set visited)"
    by (intro card_visit) auto
  then show "((state, a, a # visited), state, cur, visited)
      \<in> measure (\<lambda>(state, cur, visited). card (snd ` set (RetryLineage state) - set visited))"
    by (simp only: in_measure prod.case list.set)
qed simp

declare lineage_walk.simps [simp del]

definition isLineageAlreadyFailed :: "string \<Rightarrow> CommandState \<Rightarrow> bool" where
  "isLineageAlreadyFailed taskID state =
     (if RetryLineage state = [] then False else lineage_walk state taskID [taskID])"

abbreviation set_breaker :: "CommandState \<Rightarrow> (CircuitBreakerState \<Rightarrow> CircuitBreakerState) \<Rightarrow> CommandState" where
  "set_breaker state f \<equiv> state\<lparr>CircuitBreaker := f (CircuitBreaker state)\<rparr>"

text \<open>
  The half-open part: \<open>None\<close> when the result falls through to the counter. The probe slot is
  released on the way when nobody knows its owner.
\<close>

definition probe_result ::
  "Handler \<Rightarrow> CommandState \<Rightarrow> Status \<Rightarrow> string \<Rightarrow> int \<Rightarrow> (Handler \<times> CommandState) option" where
  "probe_result cb state resultStatus taskID now =
     (if probeTask (cs_CommandID state) cb \<noteq> Some taskID then None
      else if resultStatus = StatusCompleted
      then Some (clearProbeTask (cs_CommandID state) cb, set_breaker state (\<lambda>b. b
        \<lparr>HalfOpen := False, HalfOpenAt := None, HalfOpenProbeActive := False, Tripped := False,
         TrippedAt := None, TripReason := None, ConsecutiveFailures := 0,
         LastProgressAt := Some (fmt_stamp now)\<rparr>))
      else if resultStatus = StatusFailed
      then Some (clearProbeTask (cs_CommandID state) cb, set_breaker state (\<lambda>b. b
        \<lparr>HalfOpen := False, HalfOpenAt := None, HalfOpenProbeActive := False,
         TrippedAt := Some (fmt_stamp now), TripReason := Some ''half_open_probe_failed''\<rparr>))
      else if resultStatus = StatusCancelled
      then Some (clearProbeTask (cs_CommandID state) cb, set_breaker state (\<lambda>b. b\<lparr>HalfOpenProbeActive := False\<rparr>))
      else None)"

definition count_result ::
  "Handler \<Rightarrow> CommandState \<Rightarrow> Status \<Rightarrow> string \<Rightarrow> int \<Rightarrow> CommandState \<times> string option" where
  "count_result cb state resultStatus taskID now =
     (if resultStatus = StatusCompleted
      then (set_breaker state (\<lambda>b. b\<lparr>ConsecutiveFailures := 0, LastProgressAt := Some (fmt_stamp now)\<rparr>), None)
      else if resultStatus = StatusFailed
      then if isLineageAlreadyFailed taskID state then (state, None)
           else (let failures = ConsecutiveFailures (CircuitBreaker state) + 1;
                     state' = set_breaker state (\<lambda>b. b\<lparr>ConsecutiveFailures := failures\<rparr>);
                     threshold = EffectiveMaxConsecutiveFailures (hd_config cb) in
                 if threshold \<le> failures
                 then (state', Some (''consecutive_failures='' @ show_int failures
                        @ '' reached threshold='' @ show_int threshold))
                 else (state', None))
      else (state, None))"

text \<open>The result: the handler, the state, and the trip reason when the breaker should trip.\<close>

definition UpdateCounterOnResult ::
  "Handler \<Rightarrow> CommandState \<Rightarrow> Status \<Rightarrow> string \<Rightarrow> string \<Rightarrow> int \<Rightarrow> Handler \<times> CommandState \<times> string option" where
  "UpdateCounterOnResult cb state resultStatus taskID resultID now =
     (if \<not> cb_Enabled (hd_config cb) then (cb, state, None)
      else if map_of (AppliedResultIDs state) taskID = Some resultID then (cb, state, None)
      else (let state1 = state\<lparr>AppliedResultIDs := AList.update taskID resultID (AppliedResultIDs state)\<rparr> in
        if HalfOpen (CircuitBreaker state1) \<and> HalfOpenProbeActive (CircuitBreaker state1)
        then if probeTask (cs_CommandID state1) cb = None
             then (case count_result cb (set_breaker state1 (\<lambda>b. b\<lparr>HalfOpenProbeActive := False\<rparr>))
                       resultStatus taskID now of (s, trip) \<Rightarrow> (cb, s, trip))
             else (case probe_result cb state1 resultStatus taskID now of
                     Some (cb', s) \<Rightarrow> (cb', s, None)
                   | None \<Rightarrow> (case count_result cb state1 resultStatus taskID now of (s, trip) \<Rightarrow> (cb, s, trip)))
        else (case count_result cb state1 resultStatus taskID now of (s, trip) \<Rightarrow> (cb, s, trip))))"

definition TripBreaker :: "Handler \<Rightarrow> CommandState \<Rightarrow> string \<Rightarrow> int \<Rightarrow> Handler \<times> CommandState" where
  "TripBreaker cb state reason now =
     (if Tripped (CircuitBreaker state) then (cb, state)
      else (clearProbeTask (cs_CommandID state) cb,
        (set_breaker state (\<lambda>b. b\<lparr>Tripped := True, TrippedAt := Some (fmt_stamp now), TripReason := Some reason,
            HalfOpen := False, HalfOpenAt := None, HalfOpenProbeActive := False\<rparr>))
          \<lparr>Cancel := cancel_by_breaker (fmt_stamp now) reason (Cancel state)\<rparr>))"

text \<open>
  The verdict on a stalled command: the timeout in minutes, the elapsed time cut to whole seconds
  and the last progress, which the code formats into the reason. The state is what the state
  manager returned, \<open>None\<close> for an error.
\<close>

definition CheckProgressTimeout ::
  "Handler \<Rightarrow> int \<Rightarrow> CircuitBreakerState option \<Rightarrow> (int \<times> int \<times> stamp) option" where
  "CheckProgressTimeout cb now read =
     (if \<not> cb_Enabled (hd_config cb) then None
      else (let timeoutMin = EffectiveProgressTimeoutMinutes (hd_config cb) in
        if timeoutMin \<le> 0 then None
        else case read of
          None \<Rightarrow> None
        | Some cbState \<Rightarrow>
            if Tripped cbState then None
            else (case LastProgressAt cbState of
                    None \<Rightarrow> None
                  | Some s \<Rightarrow> (case parse_stamp s of
                        None \<Rightarrow> None
                      | Some lastProgress \<Rightarrow>
                          (let elapsed = now - lastProgress in
                           if seconds (60 * timeoutMin) \<le> elapsed
                           then Some (timeoutMin, elapsed - elapsed mod 1000000000, s) else None)))))"

definition CheckHalfOpenTransition :: "Handler \<Rightarrow> CommandState \<Rightarrow> int \<Rightarrow> CommandState option" where
  "CheckHalfOpenTransition cb state now =
     (let cbs = CircuitBreaker state in
      if \<not> cb_Enabled (hd_config cb) \<or> \<not> Tripped cbs \<or> HalfOpen cbs then None
      else case TrippedAt cbs of
        None \<Rightarrow> None
      | Some s \<Rightarrow> (case parse_stamp s of
            None \<Rightarrow> None
          | Some trippedAt \<Rightarrow>
              if now - trippedAt < seconds (EffectiveHalfOpenDelaySec (hd_config cb)) then None
              else Some (set_breaker state (\<lambda>b. b\<lparr>HalfOpen := True, HalfOpenAt := Some (fmt_stamp now),
                     HalfOpenProbeActive := False\<rparr>))))"

definition AllowProbe :: "Handler \<Rightarrow> CommandState \<Rightarrow> string \<Rightarrow> (Handler \<times> CommandState) option" where
  "AllowProbe cb state taskID =
     (if \<not> cb_Enabled (hd_config cb) \<or> \<not> HalfOpen (CircuitBreaker state)
         \<or> HalfOpenProbeActive (CircuitBreaker state)
      then None
      else Some (setProbeTask (cs_CommandID state) taskID cb,
                 set_breaker state (\<lambda>b. b\<lparr>HalfOpenProbeActive := True\<rparr>)))"

text \<open>\<open>MarkProgress\<close> through the state manager; a missing state is no error.\<close>

definition MarkProgress :: "Handler \<Rightarrow> int \<Rightarrow> string \<Rightarrow> Reader \<Rightarrow> (StoreError + unit) \<times> Reader" where
  "MarkProgress cb now commandID r =
     (if \<not> cb_Enabled (hd_config cb) then (Inr (), r)
      else case writing (MarkCircuitBreakerProgress now) commandID r of
        (Inl StateNotFound, r') \<Rightarrow> (Inr (), r')
      | res \<Rightarrow> res)"

text \<open>What a result write does with the breaker (\<open>updateCircuitBreaker\<close> of \<open>result_write_phase_b.go\<close>).\<close>

definition updateCircuitBreaker ::
  "Handler \<Rightarrow> CommandState \<Rightarrow> string \<Rightarrow> Status \<Rightarrow> string \<Rightarrow> int \<Rightarrow> Handler \<times> CommandState" where
  "updateCircuitBreaker cb state taskID resultStatus resultID now =
     (case map_of (AppliedResultIDs state) taskID of
        Some _ \<Rightarrow> (cb, state)
      | None \<Rightarrow>
          (case UpdateCounterOnResult cb state resultStatus taskID resultID now of
             (cb', state', None) \<Rightarrow> (cb', state')
           | (cb', state', Some reason) \<Rightarrow> TripBreaker cb' state' reason now))"

section \<open>Lineages\<close>

text \<open>The ancestor walk finds a failed or cancelled ancestor other than the task itself, if there is one.\<close>

abbreviation retried_from :: "'a PhaseTracking_scheme \<Rightarrow> string \<Rightarrow> string \<Rightarrow> bool" where
  "retried_from state t a \<equiv> map_of (RetryLineage state) t = Some a"

abbreviation not_delivered :: "'a PhaseTracking_scheme \<Rightarrow> string \<Rightarrow> bool" where
  "not_delivered state a \<equiv> task_status state a \<in> {StatusFailed, StatusCancelled}"

lemma lineage_walk_path:
  "lineage_walk state cur visited \<longleftrightarrow>
     (\<exists>ts. walk (retried_from state) cur ts \<and> ts \<noteq> [] \<and> distinct ts \<and> set ts \<inter> set visited = {}
        \<and> not_delivered state (last ts))"
proof (induction state cur visited rule: lineage_walk.induct)
  case (1 state cur visited)
  show ?case
  proof (cases "map_of (RetryLineage state) cur")
    case None
    have "\<not> walk (retried_from state) cur ts" if "ts \<noteq> []" for ts
      using None that by (cases ts) auto
    then show ?thesis using None by (subst lineage_walk.simps) auto
  next
    case (Some a)
    note step = lineage_walk.simps [of state cur visited]
    have head: "\<exists>us. ts = a # us \<and> walk (retried_from state) a us"
      if "walk (retried_from state) cur ts" "ts \<noteq> []" for ts
      using that Some by (cases ts) auto
    show ?thesis
    proof (cases "a \<in> set visited \<or> not_delivered state a")
      case True
      then show ?thesis
      proof (cases "a \<in> set visited")
        case True
        then show ?thesis using Some head step by fastforce
      next
        case False
        with True have "lineage_walk state cur visited" "not_delivered state a" using Some step by auto
        moreover have "walk (retried_from state) cur [a]" using Some by simp
        ultimately show ?thesis using False by (intro iffI exI [of _ "[a]"]) auto
      qed
    next
      case False
      then have "lineage_walk state cur visited = lineage_walk state a (a # visited)" using Some step by simp
      also have "\<dots> \<longleftrightarrow> (\<exists>ts. walk (retried_from state) a ts \<and> ts \<noteq> [] \<and> distinct ts
          \<and> set ts \<inter> set (a # visited) = {} \<and> not_delivered state (last ts))"
        using "1.IH" Some False by simp
      also have "\<dots> \<longleftrightarrow> (\<exists>ts. walk (retried_from state) cur ts \<and> ts \<noteq> [] \<and> distinct ts
          \<and> set ts \<inter> set visited = {} \<and> not_delivered state (last ts))" (is "?L \<longleftrightarrow> ?R")
      proof
        assume ?L
        then obtain ts where "walk (retried_from state) a ts" "ts \<noteq> []" "distinct ts"
          "set ts \<inter> set (a # visited) = {}" "not_delivered state (last ts)" by blast
        then show ?R using Some False by (intro exI [of _ "a # ts"]) auto
      next
        assume ?R
        then obtain ts where ts: "walk (retried_from state) cur ts" "ts \<noteq> []" "distinct ts"
          "set ts \<inter> set visited = {}" "not_delivered state (last ts)" by blast
        with head obtain us where us: "ts = a # us" "walk (retried_from state) a us" by blast
        with ts False have "us \<noteq> []" by (cases us) auto
        with ts us show ?L by (intro exI [of _ us]) auto
      qed
      finally show ?thesis .
    qed
  qed
qed

lemma lineage_failed_iff:
  "isLineageAlreadyFailed t state \<longleftrightarrow>
     (\<exists>ts. walk (retried_from state) t ts \<and> last (t # ts) \<noteq> t \<and> not_delivered state (last (t # ts)))"
proof -
  have "isLineageAlreadyFailed t state = lineage_walk state t [t]"
    by (simp add: isLineageAlreadyFailed_def lineage_walk.simps)
  also have "\<dots> \<longleftrightarrow> (\<exists>ts. walk (retried_from state) t ts \<and> last (t # ts) \<noteq> t \<and> not_delivered state (last (t # ts)))"
    (is "_ \<longleftrightarrow> ?R")
  proof
    assume "lineage_walk state t [t]"
    then obtain ts where ts: "walk (retried_from state) t ts" "ts \<noteq> []" "t \<notin> set ts" "not_delivered state (last ts)"
      by (auto simp: lineage_walk_path)
    moreover from ts have "last ts \<noteq> t" using last_in_set by metis
    ultimately show ?R by (intro exI [of _ ts]) simp
  next
    assume ?R
    then obtain ts where ts: "walk (retried_from state) t ts" "last (t # ts) \<noteq> t" "not_delivered state (last (t # ts))"
      by blast
    from walk_distinct [OF ts(1)] obtain us where us: "walk (retried_from state) t us"
      "last (t # us) = last (t # ts)" "distinct (t # us)" by blast
    with ts(2) have "us \<noteq> []" by auto
    with ts us show "lineage_walk state t [t]"
      unfolding lineage_walk_path by (intro exI [of _ us]) auto
  qed
  finally show ?thesis .
qed

section \<open>Runs\<close>

record event =
  ev_Task :: string
  ev_Result :: string
  ev_Status :: Status
  ev_Now :: int

definition breaker_step :: "Handler \<times> CommandState \<Rightarrow> event \<Rightarrow> Handler \<times> CommandState" where
  "breaker_step hs e = updateCircuitBreaker (fst hs) (snd hs) (ev_Task e) (ev_Status e) (ev_Result e) (ev_Now e)"

definition breaker_run :: "Handler \<Rightarrow> CommandState \<Rightarrow> event list \<Rightarrow> Handler \<times> CommandState" where
  "breaker_run cb state evs = foldl breaker_step (cb, state) evs"

text \<open>A failure that counts: no ancestor of the task has failed or been cancelled.\<close>

definition counted :: "CommandState \<Rightarrow> event \<Rightarrow> bool" where
  "counted state e = (ev_Status e = StatusFailed \<and> \<not> isLineageAlreadyFailed (ev_Task e) state)"

definition streak :: "CommandState \<Rightarrow> event list \<Rightarrow> nat" where
  "streak state evs =
     foldl (\<lambda>n e. if ev_Status e = StatusCompleted then 0 else if counted state e then Suc n else n) 0 evs"

lemma streak_snoc:
  "streak state (evs @ [e]) =
     (if ev_Status e = StatusCompleted then 0 else if counted state e then Suc (streak state evs) else streak state evs)"
  by (simp add: streak_def)

abbreviation failing :: "event list \<Rightarrow> bool" where
  "failing evs \<equiv> \<forall>e \<in> set evs. ev_Status e \<noteq> StatusCompleted"

lemma streak_lower: "failing mid \<Longrightarrow> length (filter (counted state) mid) \<le> streak state (pre @ mid)"
proof (induction mid rule: rev_induct)
  case (snoc e mid)
  then show ?case by (simp add: streak_snoc del: append_assoc add: append_assoc [symmetric])
qed simp

lemma streak_attained:
  "\<exists>pre mid. evs = pre @ mid \<and> failing mid \<and> streak state evs = length (filter (counted state) mid)"
proof (induction evs rule: rev_induct)
  case Nil
  show ?case by (simp add: streak_def)
next
  case (snoc e evs)
  then obtain pre mid where m: "evs = pre @ mid" "failing mid"
    "streak state evs = length (filter (counted state) mid)" by blast
  show ?case
  proof (cases "ev_Status e = StatusCompleted")
    case True
    then have "evs @ [e] = (evs @ [e]) @ []" "streak state (evs @ [e]) = length (filter (counted state) [])"
      by (simp_all add: streak_snoc)
    then show ?thesis by (metis empty_iff list.set(1))
  next
    case False
    with m(2,3) have "failing (mid @ [e])" "streak state (evs @ [e]) = length (filter (counted state) (mid @ [e]))"
      by (auto simp: streak_snoc)
    moreover have "evs @ [e] = pre @ mid @ [e]" by (simp add: m(1))
    ultimately show ?thesis by blast
  qed
qed

text \<open>The static part of a state, which the breaker reads and never changes.\<close>

definition same_tasks :: "CommandState \<Rightarrow> CommandState \<Rightarrow> bool" where
  "same_tasks s s' = (RetryLineage s' = RetryLineage s \<and> TaskStates s' = TaskStates s)"

lemma lineage_static: "same_tasks s s' \<Longrightarrow> isLineageAlreadyFailed t s' = isLineageAlreadyFailed t s"
  by (simp add: same_tasks_def lineage_failed_iff task_status_def)

lemma step_closed:
  assumes "cb_Enabled (hd_config cb)" and "map_of (AppliedResultIDs s) (ev_Task e) = None"
    and "\<not> HalfOpen (CircuitBreaker s)" and "same_tasks s0 s"
    and "breaker_step (cb, s) e = (cb', s')"
  shows "hd_config cb' = hd_config cb \<and> same_tasks s0 s' \<and> \<not> HalfOpen (CircuitBreaker s')
    \<and> AppliedResultIDs s' = AList.update (ev_Task e) (ev_Result e) (AppliedResultIDs s)
    \<and> ConsecutiveFailures (CircuitBreaker s') =
        (if ev_Status e = StatusCompleted then 0
         else if counted s0 e then ConsecutiveFailures (CircuitBreaker s) + 1
         else ConsecutiveFailures (CircuitBreaker s))
    \<and> (Tripped (CircuitBreaker s') \<longleftrightarrow> Tripped (CircuitBreaker s)
         \<or> counted s0 e \<and> EffectiveMaxConsecutiveFailures (hd_config cb) \<le> ConsecutiveFailures (CircuitBreaker s) + 1)
    \<and> (cn_Requested (Cancel s') \<longleftrightarrow> cn_Requested (Cancel s)
         \<or> Tripped (CircuitBreaker s') \<and> \<not> Tripped (CircuitBreaker s))"
proof -
  let ?s1 = "s\<lparr>AppliedResultIDs := AList.update (ev_Task e) (ev_Result e) (AppliedResultIDs s)\<rparr>"
  have l: "isLineageAlreadyFailed (ev_Task e) ?s1 = isLineageAlreadyFailed (ev_Task e) s0"
    using assms(4) lineage_static [of s0 ?s1] by (simp add: same_tasks_def)
  have u: "updateCircuitBreaker cb s (ev_Task e) (ev_Status e) (ev_Result e) (ev_Now e) =
      (case count_result cb ?s1 (ev_Status e) (ev_Task e) (ev_Now e) of
         (s2, None) \<Rightarrow> (cb, s2) | (s2, Some reason) \<Rightarrow> TripBreaker cb s2 reason (ev_Now e))"
    using assms(1-3) by (simp add: updateCircuitBreaker_def UpdateCounterOnResult_def Let_def split: prod.split)
  consider "ev_Status e = StatusCompleted" | "ev_Status e = StatusFailed" "counted s0 e"
    | "ev_Status e \<noteq> StatusCompleted" "\<not> counted s0 e"
    by (auto simp: counted_def)
  then show ?thesis
  proof cases
    case 2
    then have "\<not> isLineageAlreadyFailed (ev_Task e) ?s1" using l by (simp add: counted_def)
    with 2 show ?thesis using assms(3-5) u
      by (auto simp: breaker_step_def count_result_def Let_def TripBreaker_def clearProbeTask_def same_tasks_def
          cancel_by_breaker_def split: if_splits)
  next
    case 3
    with l have "count_result cb ?s1 (ev_Status e) (ev_Task e) (ev_Now e) = (?s1, None)"
      by (auto simp: count_result_def counted_def)
    with 3 show ?thesis using assms(3-5) u by (auto simp: breaker_step_def same_tasks_def counted_def)
  qed (use assms(3-5) u in \<open>auto simp: breaker_step_def count_result_def same_tasks_def counted_def\<close>)
qed

lemma run_snoc: "breaker_run cb s (evs @ [e]) = breaker_step (breaker_run cb s evs) e"
  by (simp add: breaker_run_def)

lemma closed_run:
  assumes "cb_Enabled (hd_config cb)" and "\<not> HalfOpen (CircuitBreaker s)" and "\<not> Tripped (CircuitBreaker s)"
    and "ConsecutiveFailures (CircuitBreaker s) = 0" and "0 < EffectiveMaxConsecutiveFailures (hd_config cb)"
    and "breaker_run cb s evs = (cb', s')"
    and "distinct (map ev_Task evs)" and "\<forall>e \<in> set evs. map_of (AppliedResultIDs s) (ev_Task e) = None"
  shows "hd_config cb' = hd_config cb \<and> same_tasks s s' \<and> \<not> HalfOpen (CircuitBreaker s')
    \<and> (\<forall>t. map_of (AppliedResultIDs s') t \<noteq> None \<longleftrightarrow> t \<in> ev_Task ` set evs \<or> map_of (AppliedResultIDs s) t \<noteq> None)
    \<and> ConsecutiveFailures (CircuitBreaker s') = int (streak s evs)
    \<and> (Tripped (CircuitBreaker s') \<longleftrightarrow>
        (\<exists>p q. evs = p @ q \<and> EffectiveMaxConsecutiveFailures (hd_config cb) \<le> int (streak s p)))
    \<and> (Tripped (CircuitBreaker s') \<or> cn_Requested (Cancel s) \<longleftrightarrow> cn_Requested (Cancel s'))"
  using assms(6-8)
proof (induction evs arbitrary: cb' s' rule: rev_induct)
  case Nil
  then show ?case using assms(2-5) by (auto simp: breaker_run_def same_tasks_def streak_def)
next
  case (snoc e evs)
  let ?T = "EffectiveMaxConsecutiveFailures (hd_config cb)"
  obtain cb1 s1 where r: "breaker_run cb s evs = (cb1, s1)" by fastforce
  have d: "distinct (map ev_Task evs)" "\<forall>e \<in> set evs. map_of (AppliedResultIDs s) (ev_Task e) = None"
    "ev_Task e \<notin> ev_Task ` set evs" "map_of (AppliedResultIDs s) (ev_Task e) = None"
    using snoc.prems by auto
  note ih = snoc.IH [OF r d(1,2)]
  have st: "breaker_step (cb1, s1) e = (cb', s')" using snoc.prems(1) r by (simp add: run_snoc)
  have "map_of (AppliedResultIDs s1) (ev_Task e) = None" using ih d by blast
  note step = step_closed [OF _ this _ _ st, of s]
  have pq: "(\<exists>p q. evs @ [e] = p @ q \<and> ?T \<le> int (streak s p)) \<longleftrightarrow>
      (\<exists>p q. evs = p @ q \<and> ?T \<le> int (streak s p)) \<or> ?T \<le> int (streak s (evs @ [e]))"
  proof -
    have "(\<exists>q. evs @ [e] = p @ q) \<longleftrightarrow> (\<exists>q. evs = p @ q) \<or> p = evs @ [e]" for p
      by (metis append.right_neutral append_assoc butlast_append butlast_snoc)
    then show ?thesis by blast
  qed
  have "?T \<le> int (streak s (evs @ [e])) \<longleftrightarrow>
      counted s e \<and> ?T \<le> int (streak s evs) + 1 \<or> ev_Status e \<noteq> StatusCompleted \<and> ?T \<le> int (streak s evs)"
    using assms(5) by (auto simp: streak_snoc counted_def)
  moreover have "?T \<le> int (streak s evs) \<Longrightarrow> \<exists>p q. evs = p @ q \<and> ?T \<le> int (streak s p)"
    by (metis append.right_neutral)
  ultimately have trip: "(\<exists>p q. evs @ [e] = p @ q \<and> ?T \<le> int (streak s p)) \<longleftrightarrow>
      (\<exists>p q. evs = p @ q \<and> ?T \<le> int (streak s p)) \<or> counted s e \<and> ?T \<le> int (streak s evs) + 1"
    using pq by blast
  have en: "cb_Enabled (hd_config cb1)" "\<not> HalfOpen (CircuitBreaker s1)" "same_tasks s s1"
    using ih assms(1) by auto
  note st' = step [OF en]
  have "ConsecutiveFailures (CircuitBreaker s') = int (streak s (evs @ [e]))"
    using st' ih by (simp add: streak_snoc)
  moreover have "Tripped (CircuitBreaker s') \<longleftrightarrow> (\<exists>p q. evs @ [e] = p @ q \<and> ?T \<le> int (streak s p))"
    unfolding trip using st' ih by simp
  moreover have "\<forall>t. map_of (AppliedResultIDs s') t \<noteq> None \<longleftrightarrow>
      t \<in> ev_Task ` set (evs @ [e]) \<or> map_of (AppliedResultIDs s) t \<noteq> None"
    using st' ih by auto
  moreover have "Tripped (CircuitBreaker s') \<or> cn_Requested (Cancel s) \<longleftrightarrow> cn_Requested (Cancel s')"
    using st' ih by blast
  ultimately show ?case using st' ih by auto
qed

section \<open>Properties\<close>


definition demo_handler :: Handler where
  "demo_handler = \<lparr>hd_config = \<lparr>cb_Enabled = True, cb_MaxConsecutiveFailures = None,
     cb_ProgressTimeoutMinutes = None, cb_HalfOpenDelaySec = None\<rparr>, probeTasks = [(''c'', ''p'')]\<rparr>"


text \<open>
  Only the probe closes a tripped breaker: when an update makes a tripped breaker untripped, the breaker was
  half-open with its probe running, the result is that of the task the probe was granted to, and
  it is a success; the counter is then zero. And no update trips a breaker by itself: it returns a reason.
\<close>

theorem only_probe_closes:
  assumes "UpdateCounterOnResult cb s st t r now = (cb', s', trip)"
  shows "(Tripped (CircuitBreaker s) \<and> \<not> Tripped (CircuitBreaker s') \<longrightarrow>
      HalfOpen (CircuitBreaker s) \<and> HalfOpenProbeActive (CircuitBreaker s)
      \<and> probeTask (cs_CommandID s) cb = Some t \<and> st = StatusCompleted
      \<and> ConsecutiveFailures (CircuitBreaker s') = 0 \<and> trip = None)
    \<and> (Tripped (CircuitBreaker s') \<longrightarrow> Tripped (CircuitBreaker s))"
proof -
  let ?s1 = "s\<lparr>AppliedResultIDs := AList.update t r (AppliedResultIDs s)\<rparr>"
  have count: "Tripped (CircuitBreaker x) = Tripped (CircuitBreaker y)"
    if "count_result cb y st t now = (x, why)" for x y why
    using that by (auto simp: count_result_def Let_def split: if_splits)
  consider "s' = s" | y where "Tripped (CircuitBreaker y) = Tripped (CircuitBreaker s)"
      "count_result cb y st t now = (s', trip)"
    | "HalfOpen (CircuitBreaker s)" "HalfOpenProbeActive (CircuitBreaker s)" "trip = None"
      "probe_result cb ?s1 st t now = Some (cb', s')"
  proof (cases "cb_Enabled (hd_config cb) \<and> map_of (AppliedResultIDs s) t \<noteq> Some r")
    case False
    then have "UpdateCounterOnResult cb s st t r now = (cb, s, None)" by (auto simp: UpdateCounterOnResult_def)
    with assms have "s' = s" by simp
    then show ?thesis using that(1) by blast
  next
    case on: True
    let ?half = "HalfOpen (CircuitBreaker s) \<and> HalfOpenProbeActive (CircuitBreaker s)"
    let ?lost = "probeTask (cs_CommandID s) cb = None"
    consider "\<not> ?half" | "?half" "?lost" | "?half" "\<not> ?lost" "probe_result cb ?s1 st t now = None"
      | cs where "?half" "\<not> ?lost" "probe_result cb ?s1 st t now = Some cs"
      by fastforce
    then show ?thesis
    proof cases
      case 4
      then show ?thesis using that(3) assms on by (auto simp: UpdateCounterOnResult_def Let_def split: prod.splits)
    next
      case 2
      show ?thesis
        by (rule that(2) [of "set_breaker ?s1 (\<lambda>b. b\<lparr>HalfOpenProbeActive := False\<rparr>)"])
          (use 2 assms on in \<open>auto simp: UpdateCounterOnResult_def Let_def split: prod.splits\<close>)
    qed (rule that(2) [of ?s1],
        use assms on in \<open>auto simp: UpdateCounterOnResult_def Let_def split: prod.splits\<close>)+
  qed
  then show ?thesis
  proof cases
    case 2
    with count show ?thesis by auto
  next
    case 3
    then show ?thesis by (auto simp: probe_result_def split: if_splits)
  qed simp
qed

lemma only_probe_closes_witness:
  "let s = (zero_CommandState ''c'' PlanStatusSealed)\<lparr>CircuitBreaker := \<lparr>ConsecutiveFailures = 3, LastProgressAt = None,
        Tripped = True, TrippedAt = Some (Stamp 0), TripReason = Some [], HalfOpen = True,
        HalfOpenAt = Some (Stamp 1), HalfOpenProbeActive = True\<rparr>\<rparr>;
      s' = fst (snd (UpdateCounterOnResult demo_handler s StatusCompleted ''p'' ''r'' 5)) in
   \<not> Tripped (CircuitBreaker s') \<and> ConsecutiveFailures (CircuitBreaker s') = 0"
proof -
  define s where "s = (zero_CommandState ''c'' PlanStatusSealed)\<lparr>CircuitBreaker := \<lparr>ConsecutiveFailures = 3,
     LastProgressAt = None, Tripped = True, TrippedAt = Some (Stamp 0), TripReason = Some [], HalfOpen = True,
     HalfOpenAt = Some (Stamp 1), HalfOpenProbeActive = True\<rparr>\<rparr>"
  obtain cb' s' trip where r: "UpdateCounterOnResult demo_handler s StatusCompleted ''p'' ''r'' 5 = (cb', s', trip)"
    using prod_cases3 by blast
  have "Tripped (CircuitBreaker s)" "\<not> Tripped (CircuitBreaker s')"
    using r by (auto simp: s_def UpdateCounterOnResult_def demo_handler_def zero_CommandState_def probeTask_def
        probe_result_def)
  with only_probe_closes [OF r] show ?thesis using r unfolding Let_def s_def [symmetric] by simp
qed

end
