(* ===== verification/Result_Apply.thy ===== *)
theory Result_Apply imports Task_Advance Circuit_Breaker begin

text \<open>
  How a worker's result reaches the command state: the second phase of a result write and the
  verification outcome that follows it (\<open>internal/daemon/result_write_phase_b.go\<close>). Both run under the
  state lock of the command and modify the state file in one read-modify-write, so an operation here is
  a function on the command state; \<open>None\<close> is the early return that leaves the file as it is. The
  table \<open>tbl\<close> stands for the order in which the path search ranges over the transition table.
\<close>

section \<open>Operations\<close>

record report =
  rp_Reporter :: string
  rp_TaskID :: string
  rp_ResultID :: string
  rp_Status :: Status
  rp_QueueWriteFailed :: bool
  rp_OriginalTaskID :: string
  rp_RetryScheduled :: bool
  rp_AbortByMaxRepair :: bool

definition validateReportedResultTransition :: "Status \<Rightarrow> Status \<Rightarrow> Status TransitionError + unit" where
  "validateReportedResultTransition existing recorded =
     (if recorded \<in> {StatusCompleted, StatusFailed}
         \<and> existing \<in> {StatusPlanned, StatusReady, StatusDispatched, StatusRunning}
      then Inr () else ValidateTaskStateTransition existing recorded)"

definition resolveRecordedStatus :: "CommandState \<Rightarrow> string \<Rightarrow> Status \<Rightarrow> Status" where
  "resolveRecordedStatus state taskID resultStatus =
     (if cs_PlanStatus state \<in> {PlanStatusFailed, PlanStatusCancelled}
         \<and> (case map_of (TaskStates state) taskID of None \<Rightarrow> True | Some existing \<Rightarrow> \<not> IsTerminal existing)
      then StatusCancelled
      else case map_of (TaskStates state) taskID of
        Some existing \<Rightarrow> if IsTerminal existing then existing else resultStatus
      | None \<Rightarrow> resultStatus)"

definition advanceOrForce ::
  "(Status, Status list) gomap \<Rightarrow> stamp \<Rightarrow> string \<Rightarrow> Status \<Rightarrow> CommandState \<Rightarrow> CommandState" where
  "advanceOrForce tbl now taskID target state =
     (case AdvanceTaskState tbl state taskID target now of
        (None, state') \<Rightarrow> state'
      | (Some _, state') \<Rightarrow> SetTaskState taskID target now state')"

definition superseded_by_retry :: string where
  "superseded_by_retry = ''superseded_by_retry: replacement task enqueued; original closed''"

text \<open>Does the task wait for verification, and the state.\<close>

definition applyTaskStateProgression ::
  "(Status, Status list) gomap \<Rightarrow> stamp \<Rightarrow> string \<Rightarrow> Status \<Rightarrow> bool \<Rightarrow> bool \<Rightarrow> CommandState \<Rightarrow> bool \<times> CommandState" where
  "applyTaskStateProgression tbl now taskID recordedStatus retryScheduled abortByMaxRepair state =
     (case map_of (TaskStates state) taskID of
        None \<Rightarrow> (False, SetTaskState taskID recordedStatus now state)
      | Some current \<Rightarrow>
          if IsTerminal current then (False, state)
          else if recordedStatus = StatusCompleted
          then (True, advanceOrForce tbl now taskID StatusVerifyPending state)
          else if recordedStatus = StatusFailed
          then (False,
            if retryScheduled
            then (let s = SetTaskState taskID StatusCancelled now state in
                  s\<lparr>CancelledReasons := AList.update taskID superseded_by_retry (CancelledReasons s)\<rparr>)
            else if abortByMaxRepair then advanceOrForce tbl now taskID StatusPausedForReplan state
            else advanceOrForce tbl now taskID StatusPausedForReplan state)
          else if recordedStatus = StatusCancelled then (False, SetTaskState taskID StatusCancelled now state)
          else (False, SetTaskState taskID recordedStatus now state))"

definition recordQueueWriteFailedSticky :: "report \<Rightarrow> CommandState \<Rightarrow> CommandState" where
  "recordQueueWriteFailedSticky rp state =
     (if \<not> rp_QueueWriteFailed rp then state
      else state\<lparr>QueueWriteFailed :=
        AList.update (rp_TaskID rp) (rp_Reporter rp @ '':'' @ rp_ResultID rp) (QueueWriteFailed state)\<rparr>)"

definition cancel_original :: "stamp \<Rightarrow> string \<Rightarrow> CommandState \<Rightarrow> CommandState" where
  "cancel_original now originalTaskID state =
     (if originalTaskID = [] then state
      else case map_of (TaskStates state) originalTaskID of
        None \<Rightarrow> state
      | Some existing \<Rightarrow>
          if IsTerminal existing then state else SetTaskState originalTaskID StatusCancelled now state)"

text \<open>
  The breaker is absent when none is configured. The result: an error when there is no state, else
  whether the task waits for verification, the status recorded, and the state to save with the
  breaker's handler (\<open>None\<close> when nothing is saved). The code reads the clock twice.
\<close>

definition resultWritePhaseB ::
  "(Status, Status list) gomap \<Rightarrow> int \<Rightarrow> int \<Rightarrow> report \<Rightarrow> Handler option \<Rightarrow> CommandState \<Rightarrow>
   unit + bool \<times> Status \<times> (Handler option \<times> CommandState) option" where
  "resultWritePhaseB tbl now1 now2 rp breaker state =
     (if cs_CommandID state = [] \<and> SchemaVersion state = 0 \<and> TaskStates state = [] then Inl ()
      else if map_of (AppliedResultIDs state) (rp_TaskID rp) \<noteq> None then Inr (False, rp_Status rp, None)
      else (let recordedStatus = resolveRecordedStatus state (rp_TaskID rp) (rp_Status rp) in
        case applyTaskStateProgression tbl (fmt_stamp now1) (rp_TaskID rp) recordedStatus
               (rp_RetryScheduled rp) (rp_AbortByMaxRepair rp) state of
          (needsVerify, s1) \<Rightarrow>
            (let finalStateStatus = task_status s1 (rp_TaskID rp);
                 s2 = s1\<lparr>cs_UpdatedAt := fmt_stamp now2\<rparr>;
                 (breaker', s3) = (case breaker of
                    None \<Rightarrow> (None, s2)
                  | Some cb \<Rightarrow>
                      (case updateCircuitBreaker cb s2 (rp_TaskID rp) (rp_Status rp) (rp_ResultID rp) now2 of
                         (cb', s) \<Rightarrow> (Some cb', s)));
                 s4 = s3\<lparr>AppliedResultIDs := AList.update (rp_TaskID rp) (rp_ResultID rp) (AppliedResultIDs s3)\<rparr>;
                 s5 = recordQueueWriteFailedSticky rp s4;
                 s6 = cancel_original (fmt_stamp now2) (rp_OriginalTaskID rp) s5
             in Inr (needsVerify, finalStateStatus, Some (breaker', s6)))))"

text \<open>The second pass, after the verification has run: an error, not applied, or the state to save.\<close>

definition applyVerifyOutcome ::
  "(Status, Status list) gomap \<Rightarrow> int \<Rightarrow> string \<Rightarrow> Status \<Rightarrow> CommandState \<Rightarrow> AdvanceError + CommandState option" where
  "applyVerifyOutcome tbl now taskID nextStatus state =
     (case map_of (TaskStates state) taskID of
        None \<Rightarrow> Inr None
      | Some current \<Rightarrow>
          if current \<noteq> StatusVerifyPending then Inr None
          else (case AdvanceTaskState tbl state taskID nextStatus (fmt_stamp now) of
                  (Some e, _) \<Rightarrow> Inl e
                | (None, state') \<Rightarrow> Inr (Some (state'\<lparr>cs_UpdatedAt := fmt_stamp now\<rparr>))))"

section \<open>What one operation does\<close>

text \<open>The status a report leaves its task in.\<close>

definition progressed :: "Status \<Rightarrow> bool \<Rightarrow> Status option \<Rightarrow> Status" where
  "progressed recorded retry current =
     (case current of
        None \<Rightarrow> recorded
      | Some c \<Rightarrow>
          if IsTerminal c then c
          else if recorded = StatusCompleted then StatusVerifyPending
          else if recorded = StatusFailed then (if retry then StatusCancelled else StatusPausedForReplan)
          else recorded)"

lemma map_of_task_status: "map_of (TaskStates t) j \<noteq> None \<Longrightarrow> map_of (TaskStates t) j = Some (task_status t j)"
  by (auto simp: task_status_def zget_def)

lemma advance_registered:
  assumes "same_table tbl" and "map_of (TaskStates t) i \<noteq> None"
  shows "map_of (TaskStates (snd (AdvanceTaskState tbl t i target now))) i \<noteq> None"
  using advance_is_sets [OF assms(1), where t = t and taskID = i and target = target and now = now] assms(2)
  by (auto simp: foldl_SetTaskState_frame split: if_splits)

lemma advanceOrForce_states:
  fixes state :: CommandState
  assumes "same_table tbl" and "map_of (TaskStates state) i \<noteq> None"
  shows "map_of (TaskStates (advanceOrForce tbl now i target state)) j =
    (if j = i then Some target else map_of (TaskStates state) j)"
proof -
  obtain e s' where a: "AdvanceTaskState tbl state i target now = (e, s')" by fastforce
  have r: "map_of (TaskStates s') i \<noteq> None" using advance_registered [OF assms, of target now] a by simp
  from advance_spec [OF assms(1), where t = state and taskID = i and target = target and now = now] a map_of_task_status [OF r] show ?thesis
    by (cases e) (auto simp: advanceOrForce_def)
qed

lemma advanceOrForce_keeps:
  fixes state :: CommandState
  assumes "same_table tbl"
  shows "AppliedResultIDs (advanceOrForce tbl now i target state) = AppliedResultIDs state"
    and "cs_PlanStatus (advanceOrForce tbl now i target state) = cs_PlanStatus state"
    and "CancelledReasons (advanceOrForce tbl now i target state) = CancelledReasons state"
proof -
  let ?a = "AdvanceTaskState tbl state i target now"
  have "AppliedResultIDs (snd ?a) = AppliedResultIDs state" "cs_PlanStatus (snd ?a) = cs_PlanStatus state"
    "CancelledReasons (snd ?a) = CancelledReasons state"
    by (rule advance_keeps [OF assms], simp)+
  then show "AppliedResultIDs (advanceOrForce tbl now i target state) = AppliedResultIDs state"
    "cs_PlanStatus (advanceOrForce tbl now i target state) = cs_PlanStatus state"
    "CancelledReasons (advanceOrForce tbl now i target state) = CancelledReasons state"
    by (auto simp: advanceOrForce_def split: prod.split option.split)
qed

lemma progression_spec:
  fixes state :: CommandState
  assumes "same_table tbl" and "applyTaskStateProgression tbl now t recorded retry abort state = (nv, s')"
  shows "map_of (TaskStates s') j =
      (if j = t then Some (progressed recorded retry (map_of (TaskStates state) t)) else map_of (TaskStates state) j)"
    and "AppliedResultIDs s' = AppliedResultIDs state"
    and "nv \<longleftrightarrow> recorded = StatusCompleted \<and> (\<exists>c. map_of (TaskStates state) t = Some c \<and> \<not> IsTerminal c)"
proof -
  note f = advanceOrForce_states [OF assms(1)] advanceOrForce_keeps [OF assms(1)]
  show "map_of (TaskStates s') j =
      (if j = t then Some (progressed recorded retry (map_of (TaskStates state) t)) else map_of (TaskStates state) j)"
    using assms(2) f by (auto simp: applyTaskStateProgression_def progressed_def Let_def split: option.splits if_splits)
  show "AppliedResultIDs s' = AppliedResultIDs state"
    using assms(2) f by (auto simp: applyTaskStateProgression_def Let_def split: option.splits if_splits)
  show "nv \<longleftrightarrow> recorded = StatusCompleted \<and> (\<exists>c. map_of (TaskStates state) t = Some c \<and> \<not> IsTerminal c)"
    using assms(2) by (auto simp: applyTaskStateProgression_def split: option.splits if_splits)
qed

lemma breaker_frame:
  assumes "updateCircuitBreaker cb s t st r now = (cb', s')"
  shows "TaskStates s' = TaskStates s"
    and "j \<noteq> t \<Longrightarrow> map_of (AppliedResultIDs s') j = map_of (AppliedResultIDs s) j"
proof -
  have count: "TaskStates x = TaskStates y \<and> AppliedResultIDs x = AppliedResultIDs y"
    if "count_result c y st t now = (x, why)" for c x y why
    using that by (auto simp: count_result_def Let_def split: if_splits)
  have probe: "TaskStates x = TaskStates y \<and> AppliedResultIDs x = AppliedResultIDs y"
    if "probe_result c y st t now = Some (cb'', x)" for c x y cb''
    using that by (auto simp: probe_result_def split: if_splits)
  have "TaskStates x = TaskStates s \<and> (j \<noteq> t \<longrightarrow> map_of (AppliedResultIDs x) j = map_of (AppliedResultIDs s) j)"
    if "UpdateCounterOnResult cb s st t r now = (cb'', x, why)" for x cb'' why
    using that by (auto simp: UpdateCounterOnResult_def Let_def dest!: count probe
        split: if_splits prod.splits option.splits)
  moreover have "TaskStates (snd (TripBreaker c x w n)) = TaskStates x"
    "AppliedResultIDs (snd (TripBreaker c x w n)) = AppliedResultIDs x" for c x w n
    by (simp_all add: TripBreaker_def)
  ultimately have "TaskStates s' = TaskStates s
      \<and> (j \<noteq> t \<longrightarrow> map_of (AppliedResultIDs s') j = map_of (AppliedResultIDs s) j)"
    using assms unfolding updateCircuitBreaker_def by (auto split: option.splits prod.splits) (metis snd_conv)+
  then show "TaskStates s' = TaskStates s" "j \<noteq> t \<Longrightarrow> map_of (AppliedResultIDs s') j = map_of (AppliedResultIDs s) j"
    by blast+
qed

text \<open>The whole effect of an accepted report on the tasks and on the record of applied results.\<close>

lemma cancel_original_states:
  fixes state :: CommandState
  shows "map_of (TaskStates (cancel_original now orig state)) j =
      (if j = orig \<and> orig \<noteq> [] \<and> (\<exists>c. map_of (TaskStates state) j = Some c \<and> \<not> IsTerminal c)
       then Some StatusCancelled else map_of (TaskStates state) j)"
    and "AppliedResultIDs (cancel_original now orig state) = AppliedResultIDs state"
  by (auto simp: cancel_original_def split: option.split)

lemma report_effect:
  assumes tbl: "same_table tbl" and run: "resultWritePhaseB tbl now1 now2 rp b s = Inr (nv, fs, Some (b', s'))"
  defines "t \<equiv> rp_TaskID rp"
  defines "new \<equiv> progressed (resolveRecordedStatus s t (rp_Status rp)) (rp_RetryScheduled rp) (map_of (TaskStates s) t)"
  shows "map_of (AppliedResultIDs s) t = None"
    and "map_of (AppliedResultIDs s') j = (if j = t then Some (rp_ResultID rp) else map_of (AppliedResultIDs s) j)"
    and "fs = new"
    and "map_of (TaskStates s') j =
      (if j = rp_OriginalTaskID rp \<and> rp_OriginalTaskID rp \<noteq> []
          \<and> (\<exists>c. (if j = t then Some new else map_of (TaskStates s) j) = Some c \<and> \<not> IsTerminal c)
       then Some StatusCancelled
       else if j = t then Some new else map_of (TaskStates s) j)"
    and "nv \<longleftrightarrow> resolveRecordedStatus s t (rp_Status rp) = StatusCompleted
      \<and> (\<exists>c. map_of (TaskStates s) t = Some c \<and> \<not> IsTerminal c)"
proof -
  let ?rec = "resolveRecordedStatus s t (rp_Status rp)"
  show fresh: "map_of (AppliedResultIDs s) t = None"
    using run by (auto simp: resultWritePhaseB_def t_def split: if_splits)
  obtain nv1 s1 where p: "applyTaskStateProgression tbl (fmt_stamp now1) t ?rec (rp_RetryScheduled rp)
      (rp_AbortByMaxRepair rp) s = (nv1, s1)" by fastforce
  let ?s2 = "s1\<lparr>cs_UpdatedAt := fmt_stamp now2\<rparr>"
  obtain b3 s3 where br: "(case b of None \<Rightarrow> (None, ?s2)
     | Some cb \<Rightarrow> (case updateCircuitBreaker cb ?s2 t (rp_Status rp) (rp_ResultID rp) now2 of (cb', s) \<Rightarrow> (Some cb', s)))
     = (b3, s3)" by fastforce
  have frame: "TaskStates s3 = TaskStates s1"
    "k \<noteq> t \<Longrightarrow> map_of (AppliedResultIDs s3) k = map_of (AppliedResultIDs s1) k" for k
    using br breaker_frame by (auto split: option.splits prod.splits)
  let ?s4 = "s3\<lparr>AppliedResultIDs := AList.update t (rp_ResultID rp) (AppliedResultIDs s3)\<rparr>"
  have out: "nv = nv1 \<and> fs = task_status s1 t
      \<and> s' = cancel_original (fmt_stamp now2) (rp_OriginalTaskID rp) (recordQueueWriteFailedSticky rp ?s4)"
    using run p br fresh unfolding t_def resultWritePhaseB_def Let_def by (simp split: if_splits)
  note spec = progression_spec [OF tbl p]
  have sticky: "TaskStates (recordQueueWriteFailedSticky rp ?s4) = TaskStates s3"
    "AppliedResultIDs (recordQueueWriteFailedSticky rp ?s4) = AppliedResultIDs ?s4"
    by (simp_all add: recordQueueWriteFailedSticky_def)
  show "map_of (AppliedResultIDs s') j = (if j = t then Some (rp_ResultID rp) else map_of (AppliedResultIDs s) j)"
    using out sticky frame(2) spec(2) by (simp add: cancel_original_states)
  have "map_of (TaskStates s1) t = Some new" using spec(1) by (simp add: new_def)
  then show "fs = new" using out by (simp add: task_status_def zget_Some)
  show "map_of (TaskStates s') j =
      (if j = rp_OriginalTaskID rp \<and> rp_OriginalTaskID rp \<noteq> []
          \<and> (\<exists>c. (if j = t then Some new else map_of (TaskStates s) j) = Some c \<and> \<not> IsTerminal c)
       then Some StatusCancelled
       else if j = t then Some new else map_of (TaskStates s) j)"
    using out by (simp only: cancel_original_states sticky frame(1) spec(1) new_def)
  show "nv \<longleftrightarrow> ?rec = StatusCompleted \<and> (\<exists>c. map_of (TaskStates s) t = Some c \<and> \<not> IsTerminal c)"
    using out spec(3) by simp
qed

lemma verify_effect:
  assumes "same_table tbl" and "applyVerifyOutcome tbl now t nxt s = Inr (Some s')"
  shows "map_of (TaskStates s) t = Some StatusVerifyPending"
    and "map_of (TaskStates s') j = (if j = t then Some nxt else map_of (TaskStates s) j)"
    and "AppliedResultIDs s' = AppliedResultIDs s"
proof -
  show st: "map_of (TaskStates s) t = Some StatusVerifyPending"
    using assms(2) by (auto simp: applyVerifyOutcome_def split: option.splits if_splits)
  obtain s1 where a: "AdvanceTaskState tbl s t nxt (fmt_stamp now) = (None, s1)"
    and s': "s' = s1\<lparr>cs_UpdatedAt := fmt_stamp now\<rparr>"
    using assms(2) by (auto simp: applyVerifyOutcome_def split: option.splits if_splits prod.splits)
  have r: "map_of (TaskStates s1) t \<noteq> None"
    using advance_registered [OF assms(1), of s t nxt "fmt_stamp now"] a st by simp
  from advance_spec [OF assms(1), where t = s and taskID = t and target = nxt and now = "fmt_stamp now"] a
    map_of_task_status [OF r]
  show "map_of (TaskStates s') j = (if j = t then Some nxt else map_of (TaskStates s) j)"
    by (auto simp: s')
  have "AppliedResultIDs (snd (AdvanceTaskState tbl s t nxt (fmt_stamp now))) = AppliedResultIDs s"
    by (rule advance_keeps [OF assms(1)]) simp
  then show "AppliedResultIDs s' = AppliedResultIDs s" by (simp add: a s')
qed

section \<open>Sequences of operations\<close>

text \<open>Reports and verification outcomes on one command, in any order and with any repetition.\<close>

datatype result_op = Report int int report | Verified int string Status

definition apply_op ::
  "(Status, Status list) gomap \<Rightarrow> result_op \<Rightarrow> Handler option \<times> CommandState \<Rightarrow> Handler option \<times> CommandState" where
  "apply_op tbl op bs =
     (case op of
        Report now1 now2 rp \<Rightarrow>
          (case resultWritePhaseB tbl now1 now2 rp (fst bs) (snd bs) of
             Inr (_, _, Some bs') \<Rightarrow> bs' | _ \<Rightarrow> bs)
      | Verified now t nxt \<Rightarrow>
          (case applyVerifyOutcome tbl now t nxt (snd bs) of
             Inr (Some s') \<Rightarrow> (fst bs, s') | _ \<Rightarrow> bs))"

definition run_ops ::
  "(Status, Status list) gomap \<Rightarrow> result_op list \<Rightarrow> Handler option \<times> CommandState \<Rightarrow> Handler option \<times> CommandState" where
  "run_ops tbl ops bs = fold (apply_op tbl) ops bs"

lemma apply_op_cases:
  assumes "apply_op tbl op (b, s) = (b', s')"
  obtains "b' = b" "s' = s"
  | now1 now2 rp nv fs where "op = Report now1 now2 rp"
      "resultWritePhaseB tbl now1 now2 rp b s = Inr (nv, fs, Some (b', s'))"
  | now t nxt where "op = Verified now t nxt" "applyVerifyOutcome tbl now t nxt s = Inr (Some s')"
proof (cases op)
  case (Report now1 now2 rp)
  show ?thesis
  proof (cases "\<exists>nv fs bs'. resultWritePhaseB tbl now1 now2 rp b s = Inr (nv, fs, Some bs')")
    case True
    then obtain nv fs bs' where w: "resultWritePhaseB tbl now1 now2 rp b s = Inr (nv, fs, Some bs')" by blast
    with assms Report have "bs' = (b', s')" by (simp add: apply_op_def)
    with Report w show ?thesis using that(2) by blast
  next
    case False
    then have "apply_op tbl op (b, s) = (b, s)"
      using Report by (auto simp: apply_op_def split: sum.split option.split prod.split)
    with assms show ?thesis using that(1) by simp
  qed
next
  case (Verified now t nxt)
  show ?thesis
  proof (cases "\<exists>s1. applyVerifyOutcome tbl now t nxt s = Inr (Some s1)")
    case True
    then obtain s1 where w: "applyVerifyOutcome tbl now t nxt s = Inr (Some s1)" by blast
    with assms Verified have "s1 = s'" by (simp add: apply_op_def)
    with Verified w show ?thesis using that(3) by blast
  next
    case False
    then have "apply_op tbl op (b, s) = (b, s)"
      using Verified by (auto simp: apply_op_def split: sum.split option.split)
    with assms show ?thesis using that(1) by simp
  qed
qed

text \<open>What an accepted report does to the status of one task.\<close>

lemma report_cases:
  assumes "same_table tbl" and "resultWritePhaseB tbl now1 now2 rp b s = Inr (nv, fs, Some (b', s'))"
  obtains "map_of (TaskStates s') j = map_of (TaskStates s) j"
  | "\<not> IsTerminal (task_status s j)" "map_of (TaskStates s') j = Some StatusCancelled"
  | st where "\<not> IsTerminal (task_status s j)" "map_of (TaskStates s') j = Some st"
      "map_of (TaskStates s) j = None \<or> st \<noteq> StatusCompleted"
proof -
  let ?t = "rp_TaskID rp"
  let ?rec = "resolveRecordedStatus s ?t (rp_Status rp)"
  let ?new = "progressed ?rec (rp_RetryScheduled rp) (map_of (TaskStates s) ?t)"
  let ?mid = "if j = ?t then Some ?new else map_of (TaskStates s) j"
  have absent: "\<not> IsTerminal (task_status s k)" if "map_of (TaskStates s) k = None" for k
    using that by (simp add: task_status_def zget_None)
  have new: "map_of (TaskStates s) ?t = Some ?new \<or>
      \<not> IsTerminal (task_status s ?t) \<and> (map_of (TaskStates s) ?t = None \<or> ?new \<noteq> StatusCompleted)"
  proof (cases "map_of (TaskStates s) ?t")
    case (Some c)
    then show ?thesis by (cases "IsTerminal c") (auto simp: progressed_def task_status_def zget_Some)
  qed (simp add: absent)
  have eff: "map_of (TaskStates s') j =
      (if j = rp_OriginalTaskID rp \<and> rp_OriginalTaskID rp \<noteq> [] \<and> (\<exists>c. ?mid = Some c \<and> \<not> IsTerminal c)
       then Some StatusCancelled else ?mid)"
    by (rule report_effect(4) [OF assms])
  show ?thesis
  proof (cases "j = rp_OriginalTaskID rp \<and> rp_OriginalTaskID rp \<noteq> [] \<and> (\<exists>c. ?mid = Some c \<and> \<not> IsTerminal c)")
    case True
    then obtain c where c: "?mid = Some c" "\<not> IsTerminal c" by blast
    have "\<not> IsTerminal (task_status s j)"
    proof (cases "j = ?t")
      case True
      then show ?thesis using new c by (auto simp: task_status_def zget_Some)
    qed (use c in \<open>simp add: task_status_def zget_Some\<close>)
    moreover have "map_of (TaskStates s') j = Some StatusCancelled" using eff by (simp only: if_P [OF True])
    ultimately show ?thesis by (rule that(2))
  next
    case False
    then have e: "map_of (TaskStates s') j = ?mid" using eff by (simp only: if_False)
    show ?thesis
    proof (cases "j = ?t \<and> map_of (TaskStates s) ?t \<noteq> Some ?new")
      case True
      with new e show ?thesis by (intro that(3) [of ?new]) auto
    next
      case False
      then have "?mid = map_of (TaskStates s) j" by auto
      with e show ?thesis by (intro that(1)) simp
    qed
  qed
qed

lemma step_invariants:
  assumes tbl: "same_table tbl" and step: "apply_op tbl op (b, s) = (b', s')"
  shows "map_of (AppliedResultIDs s) t = Some r \<Longrightarrow> map_of (AppliedResultIDs s') t = Some r"
    and "IsTerminal (task_status s t) \<Longrightarrow> map_of (TaskStates s') t = map_of (TaskStates s) t"
    and "map_of (TaskStates s) t \<noteq> None \<Longrightarrow> map_of (TaskStates s') t \<noteq> None"
    and "map_of (TaskStates s) t \<noteq> None \<Longrightarrow> task_status s t \<noteq> StatusCompleted \<Longrightarrow>
      task_status s' t = StatusCompleted \<Longrightarrow> \<exists>now. op = Verified now t StatusCompleted"
proof -
  have ts: "map_of (TaskStates x) t = Some c \<Longrightarrow> task_status x t = c" for x :: CommandState and c
    by (simp add: task_status_def zget_Some)
  have same: "task_status x t = task_status y t" if "map_of (TaskStates x) t = map_of (TaskStates y) t"
    for x y :: CommandState
    using that by (simp add: task_status_def zget_def)
  have "(map_of (AppliedResultIDs s) t = Some r \<longrightarrow> map_of (AppliedResultIDs s') t = Some r)
    \<and> (IsTerminal (task_status s t) \<longrightarrow> map_of (TaskStates s') t = map_of (TaskStates s) t)
    \<and> (map_of (TaskStates s) t \<noteq> None \<longrightarrow> map_of (TaskStates s') t \<noteq> None)
    \<and> (map_of (TaskStates s) t \<noteq> None \<longrightarrow> task_status s t \<noteq> StatusCompleted \<longrightarrow>
        task_status s' t = StatusCompleted \<longrightarrow> (\<exists>now. op = Verified now t StatusCompleted))"
    using step
  proof (cases rule: apply_op_cases)
    case (2 now1 now2 rp nv fs)
    have "map_of (AppliedResultIDs s) t = Some r \<longrightarrow> map_of (AppliedResultIDs s') t = Some r"
      using report_effect(1,2) [OF tbl 2(2)] by auto
    moreover have "?thesis" if "map_of (AppliedResultIDs s) t = Some r \<longrightarrow> map_of (AppliedResultIDs s') t = Some r"
      using report_cases [OF tbl 2(2), of t]
    proof cases
      case 1
      with that same [OF 1] show ?thesis by simp
    next
      case 2
      with that ts [OF 2(2)] show ?thesis by simp
    next
      case (3 st)
      with that ts [OF 3(2)] show ?thesis by auto
    qed
    ultimately show ?thesis by blast
  next
    case (3 now t' nxt)
    note v = verify_effect [OF tbl 3(2)]
    show ?thesis
    proof (cases "t = t'")
      case True
      with v(1) have "map_of (TaskStates s) t = Some StatusVerifyPending" by simp
      from ts [OF this] have "\<not> IsTerminal (task_status s t)" by (simp add: terminal_defs)
      moreover have "map_of (TaskStates s') t = Some nxt" using v(2) True by simp
      ultimately show ?thesis using v(3) True 3(1) ts [of s' nxt] by auto
    next
      case False
      then have "map_of (TaskStates s') t = map_of (TaskStates s) t" using v(2) by simp
      with same [of s' s] v(3) show ?thesis by simp
    qed
  qed simp
  then show "map_of (AppliedResultIDs s) t = Some r \<Longrightarrow> map_of (AppliedResultIDs s') t = Some r"
    and "IsTerminal (task_status s t) \<Longrightarrow> map_of (TaskStates s') t = map_of (TaskStates s) t"
    and "map_of (TaskStates s) t \<noteq> None \<Longrightarrow> map_of (TaskStates s') t \<noteq> None"
    and "map_of (TaskStates s) t \<noteq> None \<Longrightarrow> task_status s t \<noteq> StatusCompleted \<Longrightarrow>
      task_status s' t = StatusCompleted \<Longrightarrow> \<exists>now. op = Verified now t StatusCompleted"
    by blast+
qed

lemma run_invariants:
  assumes "same_table tbl" and "run_ops tbl ops (b, s) = (b', s')"
  shows "(map_of (AppliedResultIDs s) t = Some r \<longrightarrow> map_of (AppliedResultIDs s') t = Some r)
    \<and> (IsTerminal (task_status s t) \<longrightarrow> map_of (TaskStates s') t = map_of (TaskStates s) t)
    \<and> (map_of (TaskStates s) t \<noteq> None \<and> task_status s t \<noteq> StatusCompleted \<and> task_status s' t = StatusCompleted
        \<longrightarrow> (\<exists>now. Verified now t StatusCompleted \<in> set ops))"
  using assms(2)
proof (induction ops arbitrary: b s)
  case Nil
  then show ?case by (simp add: run_ops_def)
next
  case (Cons op ops)
  obtain b1 s1 where st: "apply_op tbl op (b, s) = (b1, s1)" by fastforce
  with Cons.prems have "run_ops tbl ops (b1, s1) = (b', s')" by (simp add: run_ops_def)
  note ih = Cons.IH [OF this]
  note inv = step_invariants [OF assms(1) st]
  have ap: "map_of (AppliedResultIDs s) t = Some r \<longrightarrow> map_of (AppliedResultIDs s') t = Some r"
    using ih inv(1) by blast
  have te: "map_of (TaskStates s') t = map_of (TaskStates s) t" if "IsTerminal (task_status s t)"
  proof -
    have e: "map_of (TaskStates s1) t = map_of (TaskStates s) t" using inv(2) that .
    then have "task_status s1 t = task_status s t" by (simp add: task_status_def zget_def)
    with ih that e show ?thesis by simp
  qed
  have "\<exists>now. Verified now t StatusCompleted \<in> set (op # ops)"
    if "map_of (TaskStates s) t \<noteq> None" "task_status s t \<noteq> StatusCompleted" "task_status s' t = StatusCompleted"
  proof (cases "task_status s1 t = StatusCompleted")
    case True
    with inv(4) [of t] that show ?thesis by auto
  next
    case False
    with inv(3) [of t] ih that show ?thesis by auto
  qed
  with ap te show ?case by blast
qed

section \<open>Properties\<close>

text \<open>
  C30. Results are applied once and for good, whatever the order of reports and verification outcomes and however often they
  are repeated. The result recorded as applied for a task never changes, a report for
  a task that has one changes nothing, a terminal task keeps its status, and a registered task is
  completed only by a verification outcome that says so: no worker report does it.
\<close>

theorem results_apply_once:
  assumes "same_table tbl" and "run_ops tbl ops (b, s) = (b', s')"
  shows "(\<forall>t r. map_of (AppliedResultIDs s) t = Some r \<longrightarrow> map_of (AppliedResultIDs s') t = Some r
        \<and> (\<forall>now1 now2 rp. rp_TaskID rp = t \<longrightarrow> apply_op tbl (Report now1 now2 rp) (b', s') = (b', s')))
    \<and> (\<forall>t. IsTerminal (task_status s t) \<longrightarrow> map_of (TaskStates s') t = map_of (TaskStates s) t)
    \<and> (\<forall>t. map_of (TaskStates s) t \<noteq> None \<and> task_status s t \<noteq> StatusCompleted
        \<and> task_status s' t = StatusCompleted \<longrightarrow> (\<exists>now. Verified now t StatusCompleted \<in> set ops))"
proof -
  have "apply_op tbl (Report now1 now2 rp) (b', s') = (b', s')"
    if "map_of (AppliedResultIDs s') (rp_TaskID rp) = Some r" for r now1 now2 rp
    using that by (simp add: apply_op_def resultWritePhaseB_def)
  then show ?thesis using run_invariants [OF assms] by blast
qed

definition demo_running :: CommandState where
  "demo_running = (zero_CommandState ''c'' PlanStatusSealed)\<lparr>RequiredTaskIDs := [''t'', ''x''],
     TaskStates := [(''t'', StatusRunning), (''x'', StatusCompleted)], AppliedResultIDs := [(''x'', ''r0'')]\<rparr>"

definition demo_report :: "string \<Rightarrow> Status \<Rightarrow> report" where
  "demo_report t st = \<lparr>rp_Reporter = ''worker1'', rp_TaskID = t, rp_ResultID = ''r1'', rp_Status = st,
     rp_QueueWriteFailed = False, rp_OriginalTaskID = [], rp_RetryScheduled = False, rp_AbortByMaxRepair = False\<rparr>"

lemma results_apply_once_witness:
  "let ops = [Report 1 1 (demo_report ''x'' StatusFailed), Verified 2 ''x'' StatusRepairPending,
        Report 3 3 (demo_report ''t'' StatusCompleted)];
      s' = snd (run_ops validTaskStateTransitions ops (None, demo_running)) in
   map_of (AppliedResultIDs s') ''x'' = Some ''r0'' \<and> map_of (TaskStates s') ''x'' = Some StatusCompleted
   \<and> task_status s' ''t'' \<noteq> StatusCompleted"
proof -
  define ops where "ops = [Report 1 1 (demo_report ''x'' StatusFailed), Verified 2 ''x'' StatusRepairPending,
        Report 3 3 (demo_report ''t'' StatusCompleted)]"
  obtain b' s' where r: "run_ops validTaskStateTransitions ops (None, demo_running) = (b', s')" by fastforce
  have d: "map_of (AppliedResultIDs demo_running) ''x'' = Some ''r0''" "IsTerminal (task_status demo_running ''x'')"
    "map_of (TaskStates demo_running) ''x'' = Some StatusCompleted"
    "map_of (TaskStates demo_running) ''t'' \<noteq> None" "task_status demo_running ''t'' \<noteq> StatusCompleted"
    "\<not> (\<exists>now. Verified now ''t'' StatusCompleted \<in> set ops)"
    by (simp_all add: demo_running_def task_status_def zget_def terminal_defs ops_def)
  from results_apply_once [OF same_table_self r] d r show ?thesis
    unfolding Let_def ops_def [symmetric] by (metis snd_conv)
qed



end
