(* ===== verification/Task_Lifecycle.thy ===== *)
theory Task_Lifecycle imports State_Reader Queue_Model begin

text \<open>
  How dispatch moves a task through the command state (\<open>internal/daemon/task_lifecycle.go\<close>). The state manager
  is used through its contract \<open>state_service\<close>: the command states are a map, reads return the last successful write.
  The daemon runs with a state manager wired; the early returns without one are left out. The clock argument gives the
  time of the write of each target.
\<close>

section \<open>The state manager as its callers see it\<close>

type_synonym states = "(string, CommandState) gomap"

definition query :: "(CommandState \<Rightarrow> StoreError + 'a) \<Rightarrow> string \<Rightarrow> states \<Rightarrow> StoreError + 'a" where
  "query f commandID states =
     (case map_of states commandID of None \<Rightarrow> Inl StateNotFound | Some st \<Rightarrow> f st)"

definition modify :: "(CommandState \<Rightarrow> StoreError + CommandState option) \<Rightarrow> string \<Rightarrow> states \<Rightarrow> (StoreError + unit) \<times> states" where
  "modify f commandID states =
     (case map_of states commandID of
        None \<Rightarrow> (Inl StateNotFound, states)
      | Some st \<Rightarrow>
          (case f st of
             Inl e \<Rightarrow> (Inl e, states)
           | Inr None \<Rightarrow> (Inr (), states)
           | Inr (Some st') \<Rightarrow> (Inr (), AList.update commandID st' states)))"

text \<open>The map of states provides the same contract as the cached reader over the files.\<close>

interpretation state_map: state_service map_of "\<lambda>_. True" "\<lambda>now c s. (map_of s c, s)" modify
  by unfold_locales (auto simp: modify_def fun_eq_iff split: option.splits sum.splits)

section \<open>Operations\<close>

datatype LifecycleError =
    TerminalTask Status Status
  | AdvanceFailed Status Status StoreError
  | CannotMark Status
  | LoadFailed StoreError

definition benign :: "StoreError \<Rightarrow> bool" where
  "benign e = (case e of TaskNotFound _ \<Rightarrow> True | StateNotFound \<Rightarrow> True | _ \<Rightarrow> False)"

definition isStateTaskNotFoundError :: "StoreError \<Rightarrow> bool" where
  "isStateTaskNotFoundError e = (case e of TaskNotFound _ \<Rightarrow> True | _ \<Rightarrow> False)"

fun advanceTaskLifecycle ::
  "(Status \<Rightarrow> int) \<Rightarrow> Task \<Rightarrow> Status list \<Rightarrow> states \<Rightarrow> (LifecycleError + unit) \<times> states" where
  "advanceTaskLifecycle now task [] states = (Inr (), states)"
| "advanceTaskLifecycle now task (target # targets) states =
     (case query (GetTaskState (q_ID task)) (tk_CommandID task) states of
        Inl e \<Rightarrow> (if benign e then Inr () else Inl (LoadFailed e), states)
      | Inr current \<Rightarrow>
          if current = target then advanceTaskLifecycle now task targets states
          else if IsTerminal current then (Inl (TerminalTask current target), states)
          else
            (case modify (UpdateTaskState (now target) (q_ID task) target []) (tk_CommandID task) states of
               (Inl e, states') \<Rightarrow>
                 (if isStateTaskNotFoundError e then Inr () else Inl (AdvanceFailed current target e), states')
             | (Inr _, states') \<Rightarrow> advanceTaskLifecycle now task targets states'))"

definition markTaskReady :: "(Status \<Rightarrow> int) \<Rightarrow> Task \<Rightarrow> states \<Rightarrow> (LifecycleError + unit) \<times> states" where
  "markTaskReady now task states =
     (case query (GetTaskState (q_ID task)) (tk_CommandID task) states of
        Inl e \<Rightarrow> (if benign e then Inr () else Inl (LoadFailed e), states)
      | Inr current \<Rightarrow>
          if current = StatusPending then advanceTaskLifecycle now task [StatusPlanned, StatusReady] states
          else if current \<in> {StatusPlanned, StatusPausedForReplan, StatusPausedForHuman}
          then advanceTaskLifecycle now task [StatusReady] states
          else if current \<in> {StatusReady, StatusDispatched, StatusRunning, StatusRepairPending} then (Inr (), states)
          else if IsTerminal current then (Inr (), states)
          else (Inl (CannotMark current), states))"

definition markTaskDispatched :: "(Status \<Rightarrow> int) \<Rightarrow> Task \<Rightarrow> states \<Rightarrow> (LifecycleError + unit) \<times> states" where
  "markTaskDispatched now task states =
     (case query (GetTaskState (q_ID task)) (tk_CommandID task) states of
        Inl e \<Rightarrow> (if benign e then Inr () else Inl (LoadFailed e), states)
      | Inr current \<Rightarrow>
          if current = StatusPending
          then advanceTaskLifecycle now task [StatusPlanned, StatusReady, StatusDispatched] states
          else if current \<in> {StatusPlanned, StatusPausedForReplan, StatusPausedForHuman}
          then advanceTaskLifecycle now task [StatusReady, StatusDispatched] states
          else if current = StatusReady then advanceTaskLifecycle now task [StatusDispatched] states
          else if current \<in> {StatusDispatched, StatusRunning, StatusRepairPending} then (Inr (), states)
          else if IsTerminal current then (Inr (), states)
          else (Inl (CannotMark current), states))"

definition markTaskRunning :: "(Status \<Rightarrow> int) \<Rightarrow> Task \<Rightarrow> states \<Rightarrow> (LifecycleError + unit) \<times> states" where
  "markTaskRunning now task states =
     (case query (GetTaskState (q_ID task)) (tk_CommandID task) states of
        Inl e \<Rightarrow> (if benign e then Inr () else Inl (LoadFailed e), states)
      | Inr current \<Rightarrow>
          if current = StatusPending
          then advanceTaskLifecycle now task [StatusPlanned, StatusReady, StatusDispatched, StatusRunning] states
          else if current \<in> {StatusPlanned, StatusPausedForReplan, StatusPausedForHuman}
          then advanceTaskLifecycle now task [StatusReady, StatusDispatched, StatusRunning] states
          else if current = StatusReady then advanceTaskLifecycle now task [StatusDispatched, StatusRunning] states
          else if current = StatusDispatched \<or> current = StatusRepairPending
          then advanceTaskLifecycle now task [StatusRunning] states
          else if current = StatusRunning then (Inr (), states)
          else if IsTerminal current then (Inr (), states)
          else (Inl (CannotMark current), states))"

section \<open>One task advances\<close>

abbreviation valid_step :: "Status \<Rightarrow> Status \<Rightarrow> bool" where
  "valid_step a b \<equiv> ValidateTaskStateTransition a b = Inr ()"

text \<open>
  \<open>moved task s s' states states'\<close>: the task went from \<open>s\<close> to \<open>s'\<close>; no other task and no other command changed.
\<close>

definition moved :: "Task \<Rightarrow> Status \<Rightarrow> states \<Rightarrow> states \<Rightarrow> bool" where
  "moved task s' states states' =
     (\<forall>c. case (map_of states c, map_of states' c) of
            (None, None) \<Rightarrow> True
          | (Some st, Some st') \<Rightarrow>
              isKnownTaskID st' = isKnownTaskID st
              \<and> map_of (TaskStates st') = (if c = tk_CommandID task then (map_of (TaskStates st))(q_ID task \<mapsto> s')
                                           else map_of (TaskStates st))
          | _ \<Rightarrow> False)"

lemma moved_refl: "map_of states (tk_CommandID task) = Some st \<Longrightarrow> map_of (TaskStates st) (q_ID task) = Some s \<Longrightarrow>
    moved task s states states"
  by (auto simp: moved_def fun_eq_iff split: option.splits)

lemma moved_trans: "moved task s1 a b \<Longrightarrow> moved task s2 b c \<Longrightarrow> moved task s2 a c"
  unfolding moved_def
  by (rule allI, erule_tac x = ca in allE, erule_tac x = ca in allE) (auto simp: fun_eq_iff split: option.splits if_splits)

lemma moved_at:
  assumes "moved task s states states'" and "map_of states (tk_CommandID task) = Some st"
  obtains st' where "map_of states' (tk_CommandID task) = Some st'" and "map_of (TaskStates st') (q_ID task) = Some s"
    and "isKnownTaskID st' = isKnownTaskID st"
proof -
  from assms(1) [unfolded moved_def, rule_format, of "tk_CommandID task"] assms(2) that show ?thesis
    by (auto split: option.splits)
qed

lemma update_moves:
  assumes "map_of states (tk_CommandID task) = Some st" and "isKnownTaskID st (q_ID task)"
    and "map_of (TaskStates st) (q_ID task) = Some s" and "valid_step s t"
  shows "\<exists>states'. modify (UpdateTaskState now (q_ID task) t []) (tk_CommandID task) states = (Inr (), states')
    \<and> moved task t states states'"
proof -
  from assms(2-4) obtain st' where u: "UpdateTaskState now (q_ID task) t [] st = Inr (Some st')"
    and st': "st' = (SetTaskState (q_ID task) t (fmt_stamp now) st)\<lparr>cs_UpdatedAt := fmt_stamp now\<rparr>"
    by (simp add: UpdateTaskState_def)
  have "isKnownTaskID st' = isKnownTaskID st" by (simp add: st' isKnownTaskID_def fun_eq_iff SetTaskState_def)
  moreover have "map_of (TaskStates st') = (map_of (TaskStates st))(q_ID task \<mapsto> t)" by (simp add: st' fun_eq_iff)
  ultimately show ?thesis
    using assms(1) u by (auto simp: modify_def moved_def split: option.splits)
qed

lemma advance_path:
  assumes "map_of states (tk_CommandID task) = Some st" and "isKnownTaskID st (q_ID task)"
    and "map_of (TaskStates st) (q_ID task) = Some s" and "walk valid_step s targets"
  shows "\<exists>states'. advanceTaskLifecycle now task targets states = (Inr (), states')
    \<and> moved task (last (s # targets)) states states'"
  using assms
proof (induction targets arbitrary: s st states)
  case Nil
  then show ?case using moved_refl by simp
next
  case (Cons t ts)
  have q: "query (GetTaskState (q_ID task)) (tk_CommandID task) states = Inr s"
    using Cons.prems by (simp add: query_def GetTaskState_def)
  have v: "valid_step s t" "walk valid_step t ts" using Cons.prems(4) by simp_all
  then have nt: "\<not> IsTerminal s" by (auto simp: ValidateTaskStateTransition_def split: if_splits)
  show ?case
  proof (cases "s = t")
    case True
    with Cons.IH [OF Cons.prems(1-3)] v q show ?thesis by simp
  next
    case False
    from update_moves [OF Cons.prems(1-3) v(1)] obtain m where
      m: "modify (UpdateTaskState (now t) (q_ID task) t []) (tk_CommandID task) states = (Inr (), m)" "moved task t states m"
      by blast
    from moved_at [OF m(2) Cons.prems(1)] obtain st' where
      st': "map_of m (tk_CommandID task) = Some st'" "map_of (TaskStates st') (q_ID task) = Some t"
           "isKnownTaskID st' = isKnownTaskID st" by metis
    from Cons.IH [OF st'(1) _ st'(2) v(2)] Cons.prems(2) st'(3) obtain n where
      n: "advanceTaskLifecycle now task ts m = (Inr (), n)" "moved task (last (t # ts)) m n" by metis
    with False nt q m moved_trans [OF m(2) n(2)] show ?thesis by simp
  qed
qed

lemma lifecycle_steps [simp]:
  "valid_step StatusPending StatusPlanned" "valid_step StatusPlanned StatusReady"
  "valid_step StatusPausedForReplan StatusReady" "valid_step StatusPausedForHuman StatusReady"
  "valid_step StatusReady StatusDispatched" "valid_step StatusDispatched StatusRunning"
  "valid_step StatusRepairPending StatusRunning"
  by (simp_all add: table_defs)

section \<open>Properties\<close>

definition brings :: "((Status \<Rightarrow> int) \<Rightarrow> Task \<Rightarrow> states \<Rightarrow> (LifecycleError + unit) \<times> states) \<Rightarrow> Status \<Rightarrow>
    (Status \<Rightarrow> int) \<Rightarrow> Task \<Rightarrow> Status \<Rightarrow> states \<Rightarrow> bool" where
  "brings mark target now task s states =
     (\<exists>states' path. mark now task states = (Inr (), states') \<and> walk valid_step s path \<and> last (s # path) = target
        \<and> moved task target states states')"

text \<open>A mark brings a task at least as far as its target, over the transition table, or reports why it does not.\<close>

definition marks :: "((Status \<Rightarrow> int) \<Rightarrow> Task \<Rightarrow> states \<Rightarrow> (LifecycleError + unit) \<times> states) \<Rightarrow> Status \<Rightarrow> Status list \<Rightarrow>
    (Status \<Rightarrow> int) \<Rightarrow> Task \<Rightarrow> Status \<Rightarrow> states \<Rightarrow> bool" where
  "marks mark target later now task s states =
     (if s \<in> set later \<or> IsTerminal s then mark now task states = (Inr (), states)
      else if s \<in> {StatusPending, StatusPlanned, StatusPausedForReplan, StatusPausedForHuman, StatusReady, StatusDispatched,
                    StatusRepairPending}
      then brings mark target now task s states
      else mark now task states = (Inl (CannotMark s), states))"

lemma marks_by_path:
  assumes "map_of states (tk_CommandID task) = Some st" and "isKnownTaskID st (q_ID task)"
    and "map_of (TaskStates st) (q_ID task) = Some s"
    and "s = s'" and "mark now task states = advanceTaskLifecycle now task path states"
    and "walk valid_step s' path" and "last (s' # path) = target"
  shows "brings mark target now task s' states"
  using advance_path [OF assms(1-3), of path now] assms(4-7) unfolding brings_def by metis

text \<open>
  Marking a task ready, dispatched or running brings its state to that status along valid transitions, from
  pending, planned, paused and the earlier statuses; a task already further along or finished is left alone, and any
  other status is reported without a change. No other task and no other command changes.
\<close>

theorem lifecycle_marks:
  assumes "map_of states (tk_CommandID task) = Some st" and "isKnownTaskID st (q_ID task)"
    and "map_of (TaskStates st) (q_ID task) = Some s"
  shows "marks markTaskReady StatusReady [StatusReady, StatusDispatched, StatusRunning, StatusRepairPending] now task s states
    \<and> marks markTaskDispatched StatusDispatched [StatusDispatched, StatusRunning, StatusRepairPending] now task s states
    \<and> marks markTaskRunning StatusRunning [StatusRunning] now task s states"
proof -
  have q: "query (GetTaskState (q_ID task)) (tk_CommandID task) states = Inr s"
    using assms by (simp add: query_def GetTaskState_def)
  note path = marks_by_path [OF assms]
  have "marks markTaskReady StatusReady [StatusReady, StatusDispatched, StatusRunning, StatusRepairPending] now task s states"
    by (cases s; simp add: marks_def markTaskReady_def q terminal_defs del: advanceTaskLifecycle.simps;
        rule path, assumption, simp add: markTaskReady_def q del: advanceTaskLifecycle.simps, simp, simp)
  moreover have "marks markTaskDispatched StatusDispatched [StatusDispatched, StatusRunning, StatusRepairPending] now task s states"
    by (cases s; simp add: marks_def markTaskDispatched_def q terminal_defs del: advanceTaskLifecycle.simps;
        rule path, assumption, simp add: markTaskDispatched_def q del: advanceTaskLifecycle.simps, simp, simp)
  moreover have "marks markTaskRunning StatusRunning [StatusRunning] now task s states"
    by (cases s; simp add: marks_def markTaskRunning_def q terminal_defs del: advanceTaskLifecycle.simps;
        rule path, assumption, simp add: markTaskRunning_def q del: advanceTaskLifecycle.simps, simp, simp)
  ultimately show ?thesis by simp
qed

definition demo_states :: states where
  "demo_states = [(''c'', (zero_CommandState ''c'' PlanStatusSealed)\<lparr>RequiredTaskIDs := [''t''],
     TaskStates := [(''t'', StatusPausedForReplan)]\<rparr>)]"

lemma lifecycle_marks_witness:
  "let task = (zero_Task ''t'' StatusPending)\<lparr>tk_CommandID := ''c''\<rparr> in
   brings markTaskReady StatusReady (\<lambda>_. 0) task StatusPausedForReplan demo_states
   \<and> brings markTaskRunning StatusRunning (\<lambda>_. 0) task StatusPausedForReplan demo_states"
proof -
  let ?task = "(zero_Task ''t'' StatusPending)\<lparr>tk_CommandID := ''c''\<rparr>"
  have "map_of demo_states (tk_CommandID ?task) = Some (snd (hd demo_states))"
    "isKnownTaskID (snd (hd demo_states)) (q_ID ?task)"
    "map_of (TaskStates (snd (hd demo_states))) (q_ID ?task) = Some StatusPausedForReplan"
    by (simp_all add: demo_states_def zero_CommandState_def zero_Task_def isKnownTaskID_def)
  from lifecycle_marks [OF this, where now = "\<lambda>_. 0"] show ?thesis
    by (simp add: marks_def terminal_defs)
qed

end
