(* ===== verification/Resolver.thy ===== *)
theory Resolver imports Task_Lifecycle begin

text \<open>
  The dependency resolver (\<open>internal/daemon/dependency_resolver.go\<close>): when a task is blocked, when a failed
  dependency cascades, and which phases change. The merge gate, which says whether a phase's work has
  reached the integration branch, is an argument (constantly true when none is wired); the event bus and the reason
  texts are not modelled.
\<close>

section \<open>Task dependencies\<close>

type_synonym merge_gate = "string \<Rightarrow> string \<Rightarrow> bool"

definition buildTaskToPhaseMap :: "string \<Rightarrow> states \<Rightarrow> (string, string) gomap" where
  "buildTaskToPhaseMap commandID states =
     (case query (\<lambda>st. Inr (GetCommandPhases st)) commandID states of
        Inl _ \<Rightarrow> []
      | Inr phases \<Rightarrow>
          fold (\<lambda>p out. fold (\<lambda>tid out. AList.update tid (pi_ID p) out) (pi_RequiredTaskIDs p) out) phases [])"

definition isBlockedOnIntegrationMerge :: "merge_gate \<Rightarrow> states \<Rightarrow> Task \<Rightarrow> bool" where
  "isBlockedOnIntegrationMerge gate states task =
     (let phaseByTask = buildTaskToPhaseMap (tk_CommandID task) states;
          currentPhaseID = zget [] phaseByTask (q_ID task) in
      phaseByTask \<noteq> []
      \<and> (\<exists>dep \<in> set (tk_BlockedBy task).
           let depPhaseID = zget [] phaseByTask dep in
           \<not> (depPhaseID = [] \<or> depPhaseID = currentPhaseID) \<and> \<not> gate (tk_CommandID task) depPhaseID))"

definition dep_status :: "states \<Rightarrow> Task \<Rightarrow> string \<Rightarrow> StoreError + Status" where
  "dep_status states task dep =
     query (GetEffectiveTaskStatusForCompletion dep) (tk_CommandID task) states"

text \<open>The loop over the dependencies; an error also counts as blocked for the caller.\<close>

fun blocked_by :: "states \<Rightarrow> Task \<Rightarrow> string list \<Rightarrow> StoreError + bool" where
  "blocked_by states task [] = Inr False"
| "blocked_by states task (dep # deps) =
     (case dep_status states task dep of
        Inl e \<Rightarrow> Inl e
      | Inr status \<Rightarrow> if status \<noteq> StatusCompleted then Inr True else blocked_by states task deps)"

definition IsTaskBlocked :: "merge_gate \<Rightarrow> states \<Rightarrow> Task \<Rightarrow> StoreError + bool" where
  "IsTaskBlocked gate states task =
     (if tk_BlockedBy task = [] then Inr False
      else case blocked_by states task (tk_BlockedBy task) of
        Inl e \<Rightarrow> Inl e
      | Inr True \<Rightarrow> Inr True
      | Inr False \<Rightarrow>
          Inr ((tk_RunOnIntegration task \<or> tk_RunOnMain task) \<and> isBlockedOnIntegrationMerge gate states task))"

fun failed_dep :: "states \<Rightarrow> Task \<Rightarrow> string list \<Rightarrow> StoreError + (string \<times> Status) option" where
  "failed_dep states task [] = Inr None"
| "failed_dep states task (dep # deps) =
     (case dep_status states task dep of
        Inl e \<Rightarrow> Inl e
      | Inr status \<Rightarrow>
          if status = StatusFailed \<or> status = StatusCancelled then Inr (Some (dep, status))
          else failed_dep states task deps)"

definition CheckDependencyFailure :: "states \<Rightarrow> Task \<Rightarrow> StoreError + (string \<times> Status) option" where
  "CheckDependencyFailure states task =
     (if tk_BlockedBy task = [] then Inr None else failed_dep states task (tk_BlockedBy task))"

section \<open>Phase transitions\<close>

record PhaseTransitionResult =
  tr_PhaseID :: string
  tr_PhaseName :: string
  tr_OldStatus :: PhaseStatus
  tr_NewStatus :: PhaseStatus
  tr_CancelledReason :: string
  tr_ClearCancelledReason :: bool

definition transition :: "PhaseInfo \<Rightarrow> PhaseStatus \<Rightarrow> PhaseTransitionResult" where
  "transition phase newStatus =
     \<lparr>tr_PhaseID = pi_ID phase, tr_PhaseName = pi_Name phase, tr_OldStatus = pi_Status phase, tr_NewStatus = newStatus,
      tr_CancelledReason = [], tr_ClearCancelledReason = False\<rparr>"

text \<open>One turn of the loop over the tasks: all completed, has failed, has cancelled.\<close>

definition observe_task ::
  "states \<Rightarrow> string \<Rightarrow> string list \<Rightarrow> string \<Rightarrow> bool \<times> bool \<times> bool \<Rightarrow> bool \<times> bool \<times> bool" where
  "observe_task states commandID required taskID acc =
     (case acc of (allCompleted, hasFailed, hasCancelled) \<Rightarrow>
        (case query (GetEffectiveTaskStatusForCompletion taskID) commandID states of
           Inl _ \<Rightarrow> (False, hasFailed, hasCancelled)
         | Inr status \<Rightarrow>
             if status = StatusCompleted then acc
             else if status = StatusFailed then (allCompleted, hasFailed \<or> taskID \<in> set required, hasCancelled)
             else if status = StatusCancelled then (allCompleted, hasFailed, hasCancelled \<or> taskID \<in> set required)
             else (False, hasFailed, hasCancelled)))"

definition checkActivePhaseCompletion :: "states \<Rightarrow> string \<Rightarrow> PhaseInfo \<Rightarrow> PhaseTransitionResult option" where
  "checkActivePhaseCompletion states commandID phase =
     (let taskIDs = (if pi_TaskIDs phase = [] then pi_RequiredTaskIDs phase else pi_TaskIDs phase) in
      if taskIDs = [] then None
      else case fold (observe_task states commandID (pi_RequiredTaskIDs phase)) taskIDs (True, False, False) of
        (allCompleted, hasFailed, hasCancelled) \<Rightarrow>
          if hasFailed then Some (transition phase PhaseStatusFailed)
          else if hasCancelled then Some (transition phase PhaseStatusCancelled)
          else if allCompleted then Some (transition phase PhaseStatusCompleted)
          else None)"

definition checkPendingPhaseActivation ::
  "(string, PhaseInfo) gomap \<Rightarrow> PhaseInfo \<Rightarrow> PhaseTransitionResult option" where
  "checkPendingPhaseActivation phaseMap phase =
     (if \<forall>depID \<in> set (pi_DependsOn phase).
           (case map_of phaseMap depID of None \<Rightarrow> False | Some dep \<Rightarrow> pi_Status dep = PhaseStatusCompleted)
      then Some (transition phase PhaseStatusAwaitingFill) else None)"

definition checkPendingPhaseCascade ::
  "(string, PhaseInfo) gomap \<Rightarrow> PhaseInfo \<Rightarrow> PhaseTransitionResult option" where
  "checkPendingPhaseCascade phaseMap phase =
     (case find (\<lambda>depID. case map_of phaseMap depID of None \<Rightarrow> False
                 | Some dep \<Rightarrow> pi_Status dep \<in> {PhaseStatusFailed, PhaseStatusCancelled, PhaseStatusTimedOut})
            (pi_DependsOn phase) of
        None \<Rightarrow> None
      | Some depID \<Rightarrow> Some ((transition phase PhaseStatusCancelled)
            \<lparr>tr_CancelledReason := NewDependencyCascadeCancelReason depID\<rparr>))"

definition checkCancelledPhaseRecovery ::
  "(string, PhaseInfo) gomap \<Rightarrow> PhaseInfo \<Rightarrow> PhaseTransitionResult option" where
  "checkCancelledPhaseRecovery phaseMap phase =
     (case DependencyCascadeDepID (pi_CancelledReason phase) of
        None \<Rightarrow> None
      | Some depID \<Rightarrow>
          (case map_of phaseMap depID of
             None \<Rightarrow> None
           | Some dep \<Rightarrow>
               if pi_Status dep \<in> {PhaseStatusActive, PhaseStatusAwaitingFill, PhaseStatusFilling, PhaseStatusCompleted}
               then Some ((transition phase PhaseStatusPending)\<lparr>tr_ClearCancelledReason := True\<rparr>)
               else None))"

definition checkAwaitingFillTimeout :: "int \<Rightarrow> PhaseInfo \<Rightarrow> PhaseTransitionResult option" where
  "checkAwaitingFillTimeout now phase =
     (case pi_FillDeadlineAt phase of
        None \<Rightarrow> None
      | Some s \<Rightarrow>
          (case parse_stamp s of
             None \<Rightarrow> None
           | Some deadline \<Rightarrow> if deadline < now then Some (transition phase PhaseStatusTimedOut) else None))"

text \<open>The first pass collects transitions and reflects those of active phases into the phase map.\<close>

definition reflect :: "PhaseTransitionResult \<Rightarrow> (string, PhaseInfo) gomap \<Rightarrow> (string, PhaseInfo) gomap" where
  "reflect tr phaseMap =
     (case map_of phaseMap (tr_PhaseID tr) of
        None \<Rightarrow> phaseMap
      | Some entry \<Rightarrow> AList.update (tr_PhaseID tr) (entry\<lparr>pi_Status := tr_NewStatus tr\<rparr>) phaseMap)"

definition first_pass ::
  "merge_gate \<Rightarrow> int \<Rightarrow> states \<Rightarrow> string \<Rightarrow> PhaseInfo \<Rightarrow>
   PhaseTransitionResult list \<times> (string, PhaseInfo) gomap \<Rightarrow> PhaseTransitionResult list \<times> (string, PhaseInfo) gomap" where
  "first_pass gate now states commandID phase acc =
     (case acc of (transitions, phaseMap) \<Rightarrow>
        if pi_Status phase = PhaseStatusActive then
          (case checkActivePhaseCompletion states commandID phase of
             None \<Rightarrow> acc
           | Some tr \<Rightarrow>
               (transitions @ [tr],
                if tr_NewStatus tr = PhaseStatusCompleted \<and> \<not> gate commandID (tr_PhaseID tr) then phaseMap
                else reflect tr phaseMap))
        else if pi_Status phase = PhaseStatusAwaitingFill then
          (case checkAwaitingFillTimeout now phase of None \<Rightarrow> acc | Some tr \<Rightarrow> (transitions @ [tr], phaseMap))
        else acc)"

definition second_pass :: "(string, PhaseInfo) gomap \<Rightarrow> PhaseInfo \<Rightarrow> PhaseTransitionResult option" where
  "second_pass phaseMap phase =
     (if pi_Status phase \<noteq> PhaseStatusPending then None
      else case checkPendingPhaseCascade phaseMap phase of
        Some tr \<Rightarrow> Some tr
      | None \<Rightarrow> checkPendingPhaseActivation phaseMap phase)"

definition third_pass :: "(string, PhaseInfo) gomap \<Rightarrow> PhaseInfo \<Rightarrow> PhaseTransitionResult option" where
  "third_pass phaseMap phase =
     (if pi_Status phase \<noteq> PhaseStatusCancelled then None else checkCancelledPhaseRecovery phaseMap phase)"

definition phase_map :: "PhaseInfo list \<Rightarrow> (string, PhaseInfo) gomap" where
  "phase_map phases = fold (\<lambda>p m. AList.update (pi_ID p) p m) phases []"

definition CheckPhaseTransitions :: "merge_gate \<Rightarrow> int \<Rightarrow> states \<Rightarrow> string \<Rightarrow> PhaseTransitionResult list" where
  "CheckPhaseTransitions gate now states commandID =
     (case query (\<lambda>st. Inr (GetCommandPhases st)) commandID states of
        Inl _ \<Rightarrow> []
      | Inr phases \<Rightarrow>
          (case fold (first_pass gate now states commandID) phases ([], phase_map phases) of
             (transitions, phaseMap) \<Rightarrow>
               transitions @ List.map_filter (second_pass phaseMap) phases
               @ List.map_filter (third_pass phaseMap) phases))"

definition GetPhaseStatus :: "states \<Rightarrow> string \<Rightarrow> string \<Rightarrow> StoreError + PhaseStatus" where
  "GetPhaseStatus states commandID phaseID =
     query (\<lambda>st. case find (\<lambda>p. pi_ID p = phaseID) (GetCommandPhases st) of
                    None \<Rightarrow> Inl (PhaseNotFound phaseID) | Some p \<Rightarrow> Inr (pi_Status p)) commandID states"

section \<open>Blocked tasks\<close>

lemma blocked_by_spec:
  "blocked_by states task deps = Inr False \<longleftrightarrow> (\<forall>d \<in> set deps. dep_status states task d = Inr StatusCompleted)"
  by (induction deps) (auto split: sum.splits)

lemma failed_dep_spec:
  "failed_dep states task deps = Inr (Some (d, s)) \<longleftrightarrow>
     (s = StatusFailed \<or> s = StatusCancelled)
     \<and> (\<exists>us vs. deps = us @ d # vs \<and> dep_status states task d = Inr s
          \<and> (\<forall>u \<in> set us. \<exists>t. dep_status states task u = Inr t \<and> t \<noteq> StatusFailed \<and> t \<noteq> StatusCancelled))"
proof (induction deps)
  case (Cons a deps)
  show ?case
  proof (cases "\<exists>t. dep_status states task a = Inr t \<and> t \<noteq> StatusFailed \<and> t \<noteq> StatusCancelled")
    case True
    then obtain t where t: "dep_status states task a = Inr t" "t \<noteq> StatusFailed" "t \<noteq> StatusCancelled" by blast
    have "(\<exists>us vs. a # deps = us @ d # vs \<and> P us) \<longleftrightarrow> (a = d \<and> P []) \<or> (\<exists>us vs. deps = us @ d # vs \<and> P (a # us))" for P
      by (auto simp: Cons_eq_append_conv)
    with Cons.IH t show ?thesis by auto
  next
    case False
    then show ?thesis by (auto simp: Cons_eq_append_conv split: sum.splits)
  qed
qed simp

lemma failed_dep_none:
  "failed_dep states task deps = Inr None \<longleftrightarrow>
     (\<forall>d \<in> set deps. \<exists>t. dep_status states task d = Inr t \<and> t \<noteq> StatusFailed \<and> t \<noteq> StatusCancelled)"
  by (induction deps) (auto split: sum.splits)

section \<open>One scan of the phases\<close>

definition eff :: "states \<Rightarrow> string \<Rightarrow> string \<Rightarrow> StoreError + Status" where
  "eff states commandID t = query (GetEffectiveTaskStatusForCompletion t) commandID states"

text \<open>What an active phase has come to, by the effective statuses of its tasks.\<close>

definition active_outcome :: "states \<Rightarrow> string \<Rightarrow> PhaseInfo \<Rightarrow> PhaseStatus option" where
  "active_outcome states commandID p =
     (let ids = (if pi_TaskIDs p = [] then pi_RequiredTaskIDs p else pi_TaskIDs p);
          required = (\<lambda>t. t \<in> set (pi_RequiredTaskIDs p)) in
      if ids = [] then None
      else if \<exists>t \<in> set ids. required t \<and> eff states commandID t = Inr StatusFailed then Some PhaseStatusFailed
      else if \<exists>t \<in> set ids. required t \<and> eff states commandID t = Inr StatusCancelled then Some PhaseStatusCancelled
      else if \<forall>t \<in> set ids. eff states commandID t \<in> {Inr StatusCompleted, Inr StatusFailed, Inr StatusCancelled}
      then Some PhaseStatusCompleted
      else None)"

lemma observe_one:
  "observe_task states c req t (a, f, g) =
     (a \<and> eff states c t \<in> {Inr StatusCompleted, Inr StatusFailed, Inr StatusCancelled},
      f \<or> t \<in> set req \<and> eff states c t = Inr StatusFailed,
      g \<or> t \<in> set req \<and> eff states c t = Inr StatusCancelled)"
  by (cases "eff states c t") (auto simp: observe_task_def simp flip: eff_def)

lemma observe_fold:
  "fold (observe_task states c req) ids (a, f, g) =
     (a \<and> (\<forall>t \<in> set ids. eff states c t \<in> {Inr StatusCompleted, Inr StatusFailed, Inr StatusCancelled}),
      f \<or> (\<exists>t \<in> set ids. t \<in> set req \<and> eff states c t = Inr StatusFailed),
      g \<or> (\<exists>t \<in> set ids. t \<in> set req \<and> eff states c t = Inr StatusCancelled))"
  by (induction ids arbitrary: a f g) (auto simp: observe_one)

lemma active_completion_outcome:
  "checkActivePhaseCompletion states c p = map_option (transition p) (active_outcome states c p)"
  by (simp only: checkActivePhaseCompletion_def active_outcome_def observe_fold Let_def prod.case simp_thms
      if_distrib [of "map_option (transition p)"] option.map)

text \<open>The status a phase settles in after the first pass; the gate holds a completion back.\<close>

definition settled :: "merge_gate \<Rightarrow> states \<Rightarrow> string \<Rightarrow> PhaseInfo \<Rightarrow> PhaseStatus" where
  "settled gate states commandID p =
     (if pi_Status p \<noteq> PhaseStatusActive then pi_Status p
      else case active_outcome states commandID p of
        None \<Rightarrow> PhaseStatusActive
      | Some s \<Rightarrow> if s = PhaseStatusCompleted \<and> \<not> gate commandID (pi_ID p) then PhaseStatusActive else s)"

definition settled_at :: "merge_gate \<Rightarrow> states \<Rightarrow> string \<Rightarrow> PhaseInfo list \<Rightarrow> string \<Rightarrow> PhaseStatus option" where
  "settled_at gate states commandID phases d =
     map_option (settled gate states commandID) (find (\<lambda>q. pi_ID q = d) phases)"

definition first_change :: "int \<Rightarrow> states \<Rightarrow> string \<Rightarrow> PhaseInfo \<Rightarrow> PhaseTransitionResult option" where
  "first_change now states commandID p =
     (if pi_Status p = PhaseStatusActive then checkActivePhaseCompletion states commandID p
      else if pi_Status p = PhaseStatusAwaitingFill then checkAwaitingFillTimeout now p
      else None)"

lemma first_pass_one:
  assumes "map_of m (pi_ID p) = Some p"
  shows "\<exists>m'. first_pass gate now states c p (trs, m) =
      (trs @ (case first_change now states c p of None \<Rightarrow> [] | Some tr \<Rightarrow> [tr]), m')
    \<and> map_of m' = (map_of m)(pi_ID p \<mapsto> p\<lparr>pi_Status := settled gate states c p\<rparr>)"
proof -
  have same: "map_of m = (map_of m)(pi_ID p \<mapsto> p)" using assms by auto
  show ?thesis
  proof (cases "pi_Status p = PhaseStatusActive")
    case active: True
    then have p: "p\<lparr>pi_Status := PhaseStatusActive\<rparr> = p" by simp
    show ?thesis
    proof (cases "active_outcome states c p")
      case None
      have "settled gate states c p = PhaseStatusActive" using active None by (simp add: settled_def)
      then have "map_of m = (map_of m)(pi_ID p \<mapsto> p\<lparr>pi_Status := settled gate states c p\<rparr>)"
        using p same by metis
      with None active show ?thesis
        by (intro exI [of _ m]) (simp add: first_pass_def first_change_def active_completion_outcome)
    next
      case (Some s)
      let ?held = "s = PhaseStatusCompleted \<and> \<not> gate c (pi_ID p)"
      have held: "map_of m = (map_of m)(pi_ID p \<mapsto> p\<lparr>pi_Status := PhaseStatusActive\<rparr>)"
        unfolding p by (rule same)
      have set: "settled gate states c p = (if ?held then PhaseStatusActive else s)"
        using active Some by (simp add: settled_def)
      have "map_of (reflect (transition p s) m) = (map_of m)(pi_ID p \<mapsto> p\<lparr>pi_Status := s\<rparr>)"
        using assms by (auto simp: reflect_def transition_def fun_eq_iff)
      then have "map_of (if ?held then m else reflect (transition p s) m)
          = (map_of m)(pi_ID p \<mapsto> p\<lparr>pi_Status := settled gate states c p\<rparr>)"
        unfolding set using held by (cases ?held) (simp_all only: if_True if_False simp_thms)
      moreover have "first_pass gate now states c p (trs, m) =
          (trs @ (case first_change now states c p of None \<Rightarrow> [] | Some tr \<Rightarrow> [tr]),
           if ?held then m else reflect (transition p s) m)"
        using Some active by (simp add: first_pass_def first_change_def active_completion_outcome)
          (simp add: transition_def)
      ultimately show ?thesis by blast
    qed
  next
    case False
    have "settled gate states c p = pi_Status p" using False by (simp add: settled_def)
    moreover have "p\<lparr>pi_Status := pi_Status p\<rparr> = p" by simp
    ultimately have "map_of m = (map_of m)(pi_ID p \<mapsto> p\<lparr>pi_Status := settled gate states c p\<rparr>)"
      using same by metis
    moreover have "first_pass gate now states c p (trs, m) =
        (trs @ (case first_change now states c p of None \<Rightarrow> [] | Some tr \<Rightarrow> [tr]), m)"
      using False by (simp add: first_pass_def first_change_def split: option.split)
    ultimately show ?thesis by blast
  qed
qed

lemma find_id_None: "x \<notin> pi_ID ` set ps \<Longrightarrow> find (\<lambda>q. pi_ID q = x) ps = None"
  by (induction ps) auto

lemma first_pass_all:
  assumes "distinct (map pi_ID ps)" and "\<forall>p \<in> set ps. map_of m (pi_ID p) = Some p"
  shows "\<exists>m'. fold (first_pass gate now states c) ps (trs, m) = (trs @ List.map_filter (first_change now states c) ps, m')
    \<and> (\<forall>i. map_of m' i = (case find (\<lambda>q. pi_ID q = i) ps of
             None \<Rightarrow> map_of m i | Some p \<Rightarrow> Some (p\<lparr>pi_Status := settled gate states c p\<rparr>)))"
  using assms
proof (induction ps arbitrary: trs m)
  case Nil
  then show ?case by (simp add: List.map_filter_simps)
next
  case (Cons p ps)
  from Cons.prems have "map_of m (pi_ID p) = Some p" by simp
  define X where "X = trs @ (case first_change now states c p of None \<Rightarrow> [] | Some tr \<Rightarrow> [tr])"
  from first_pass_one [OF \<open>map_of m (pi_ID p) = Some p\<close>] obtain m1 where
    m1: "first_pass gate now states c p (trs, m) = (X, m1)"
      "map_of m1 = (map_of m)(pi_ID p \<mapsto> p\<lparr>pi_Status := settled gate states c p\<rparr>)"
    unfolding X_def by metis
  from Cons.prems(1) have d: "distinct (map pi_ID ps)" and none: "find (\<lambda>q. pi_ID q = pi_ID p) ps = None"
    by (simp_all add: find_id_None)
  have "\<forall>q \<in> set ps. map_of m1 (pi_ID q) = Some q"
  proof
    fix q assume q: "q \<in> set ps"
    then have "pi_ID q \<noteq> pi_ID p" using Cons.prems(1) by (metis distinct.simps(2) imageI list.set_map list.simps(9))
    then show "map_of m1 (pi_ID q) = Some q" unfolding m1(2) using Cons.prems(2) q by simp
  qed
  note ih = Cons.IH [OF d this, of X]
  obtain m2 where m2:
    "fold (first_pass gate now states c) ps (X, m1) = (X @ List.map_filter (first_change now states c) ps, m2)
     \<and> (\<forall>i. map_of m2 i = (case find (\<lambda>q. pi_ID q = i) ps of
          None \<Rightarrow> map_of m1 i | Some p \<Rightarrow> Some (p\<lparr>pi_Status := settled gate states c p\<rparr>)))"
    using ih by (rule exE)
  have "map_of m2 i = (case find (\<lambda>q. pi_ID q = i) (p # ps) of
       None \<Rightarrow> map_of m i | Some p \<Rightarrow> Some (p\<lparr>pi_Status := settled gate states c p\<rparr>))" for i
  proof (cases "i = pi_ID p")
    case True
    then have "map_of m2 i = map_of m1 i" using conjunct2 [OF m2] none by simp
    then show ?thesis unfolding m1(2) using True by simp
  next
    case False
    then have "map_of m1 i = map_of m i" unfolding m1(2) by simp
    then show ?thesis using False conjunct2 [OF m2] by (simp cong: option.case_cong)
  qed
  moreover have "X @ List.map_filter (first_change now states c) ps
      = trs @ List.map_filter (first_change now states c) (p # ps)"
    by (simp add: X_def List.map_filter_simps split: option.split)
  moreover have "fold (first_pass gate now states c) (p # ps) (trs, m) = fold (first_pass gate now states c) ps (X, m1)"
    by (simp add: m1(1))
  ultimately show ?case using conjunct1 [OF m2] by auto
qed

lemma phase_map_lookup:
  "distinct (map pi_ID ps) \<Longrightarrow> map_of (phase_map ps) i = find (\<lambda>q. pi_ID q = i) ps"
proof -
  have "distinct (map pi_ID ps) \<Longrightarrow>
      map_of (fold (\<lambda>p m. AList.update (pi_ID p) p m) ps m) i =
        (case find (\<lambda>q. pi_ID q = i) ps of None \<Rightarrow> map_of m i | Some p \<Rightarrow> Some p)" for m
  proof (induction ps arbitrary: m)
    case (Cons p ps)
    have "find (\<lambda>q. pi_ID q = pi_ID p) ps = None" using Cons.prems by (simp add: find_id_None)
    then show ?case using Cons by (auto split: option.splits)
  qed simp
  then show "distinct (map pi_ID ps) \<Longrightarrow> map_of (phase_map ps) i = find (\<lambda>q. pi_ID q = i) ps"
    by (auto simp: phase_map_def split: option.splits)
qed

abbreviation dead_statuses :: "PhaseStatus set" where
  "dead_statuses \<equiv> {PhaseStatusFailed, PhaseStatusCancelled, PhaseStatusTimedOut}"

abbreviation live_statuses :: "PhaseStatus set" where
  "live_statuses \<equiv> {PhaseStatusActive, PhaseStatusAwaitingFill, PhaseStatusFilling, PhaseStatusCompleted}"

text \<open>What becomes of one phase, given what all phases settle in.\<close>

definition decision ::
  "merge_gate \<Rightarrow> int \<Rightarrow> states \<Rightarrow> string \<Rightarrow> PhaseInfo list \<Rightarrow> PhaseInfo \<Rightarrow> PhaseTransitionResult option" where
  "decision gate now states commandID phases p =
     (let at = settled_at gate states commandID phases in
      if pi_Status p = PhaseStatusActive then map_option (transition p) (active_outcome states commandID p)
      else if pi_Status p = PhaseStatusAwaitingFill then
        (case pi_FillDeadlineAt p of
           Some (Stamp deadline) \<Rightarrow> if deadline < now then Some (transition p PhaseStatusTimedOut) else None
         | _ \<Rightarrow> None)
      else if pi_Status p = PhaseStatusPending then
        (case find (\<lambda>d. at d \<in> Some ` dead_statuses) (pi_DependsOn p) of
           Some d \<Rightarrow> Some ((transition p PhaseStatusCancelled)\<lparr>tr_CancelledReason := NewDependencyCascadeCancelReason d\<rparr>)
         | None \<Rightarrow> if \<forall>d \<in> set (pi_DependsOn p). at d = Some PhaseStatusCompleted
                   then Some (transition p PhaseStatusAwaitingFill) else None)
      else if pi_Status p = PhaseStatusCancelled then
        (case DependencyCascadeDepID (pi_CancelledReason p) of
           None \<Rightarrow> None
         | Some d \<Rightarrow> if at d \<in> Some ` live_statuses
                     then Some ((transition p PhaseStatusPending)\<lparr>tr_ClearCancelledReason := True\<rparr>) else None)
      else None)"

lemma first_change_decision:
  "pi_Status p \<in> {PhaseStatusActive, PhaseStatusAwaitingFill} \<Longrightarrow>
     first_change now states c p = decision gate now states c phases p"
  by (auto simp: first_change_def decision_def active_completion_outcome checkAwaitingFillTimeout_def Let_def
      split: option.split stamp.split)

lemma later_pass_decision:
  assumes m: "\<forall>i. map_of m i = (case find (\<lambda>q. pi_ID q = i) phases of
      None \<Rightarrow> None | Some p \<Rightarrow> Some (p\<lparr>pi_Status := settled gate states c p\<rparr>))"
  shows "pi_Status p = PhaseStatusPending \<Longrightarrow> second_pass m p = decision gate now states c phases p"
    and "pi_Status p = PhaseStatusCancelled \<Longrightarrow> third_pass m p = decision gate now states c phases p"
proof -
  have at: "(case map_of m d of None \<Rightarrow> False | Some dep \<Rightarrow> pi_Status dep \<in> S)
      \<longleftrightarrow> settled_at gate states c phases d \<in> Some ` S" for d S
    using m by (auto simp: settled_at_def split: option.splits)
  have at_eq: "(case map_of m d of None \<Rightarrow> False | Some dep \<Rightarrow> pi_Status dep = x)
      \<longleftrightarrow> settled_at gate states c phases d = Some x" for d x
    using m by (auto simp: settled_at_def split: option.splits)
  show "pi_Status p = PhaseStatusPending \<Longrightarrow> second_pass m p = decision gate now states c phases p"
    by (simp add: second_pass_def decision_def checkPendingPhaseCascade_def checkPendingPhaseActivation_def at at_eq Let_def
        del: image_insert insert_iff image_empty split: option.split)
  have rec: "checkCancelledPhaseRecovery m p =
     (case DependencyCascadeDepID (pi_CancelledReason p) of
        None \<Rightarrow> None
      | Some d \<Rightarrow> if (case map_of m d of None \<Rightarrow> False | Some dep \<Rightarrow> pi_Status dep \<in> live_statuses)
                  then Some ((transition p PhaseStatusPending)\<lparr>tr_ClearCancelledReason := True\<rparr>) else None)"
    by (simp add: checkCancelledPhaseRecovery_def split: option.split)
  show "pi_Status p = PhaseStatusCancelled \<Longrightarrow> third_pass m p = decision gate now states c phases p"
    by (simp add: third_pass_def decision_def rec at Let_def del: image_insert insert_iff image_empty cong: option.case_cong)
qed

lemma map_filter_where:
  "(\<And>p. p \<in> set ps \<Longrightarrow> f p = (if P p then g p else None)) \<Longrightarrow> List.map_filter f ps = List.map_filter g (filter P ps)"
  by (induction ps) (auto simp: List.map_filter_simps split: option.split)

lemma scan_decisions:
  fixes gate :: merge_gate and now :: int
  assumes "map_of states c = Some st" and "distinct (map ph_PhaseID (Phases st))"
  defines "phases \<equiv> GetCommandPhases st"
  defines "dec \<equiv> decision gate now states c phases"
  shows "CheckPhaseTransitions gate now states c =
    List.map_filter dec (filter (\<lambda>p. pi_Status p \<in> {PhaseStatusActive, PhaseStatusAwaitingFill}) phases)
    @ List.map_filter dec (filter (\<lambda>p. pi_Status p = PhaseStatusPending) phases)
    @ List.map_filter dec (filter (\<lambda>p. pi_Status p = PhaseStatusCancelled) phases)"
proof -
  have q: "query (\<lambda>st. Inr (GetCommandPhases st)) c states = Inr phases"
    using assms(1) by (simp add: query_def phases_def)
  have d: "distinct (map pi_ID phases)"
    using assms(2) by (simp add: phases_def GetCommandPhases_def phase_info_def comp_def)
  have e: "\<forall>p \<in> set phases. map_of (phase_map phases) (pi_ID p) = Some p"
    using d by (auto simp: phase_map_lookup) (induction phases, auto)
  from first_pass_all [OF d e, where gate = gate and now = now and states = states and c = c and trs = "[]"] obtain m where
    m: "fold (first_pass gate now states c) phases ([], phase_map phases) = (List.map_filter (first_change now states c) phases, m)"
      "\<forall>i. map_of m i = (case find (\<lambda>q. pi_ID q = i) phases of
         None \<Rightarrow> map_of (phase_map phases) i | Some p \<Rightarrow> Some (p\<lparr>pi_Status := settled gate states c p\<rparr>))"
    by auto
  have m': "\<forall>i. map_of m i = (case find (\<lambda>q. pi_ID q = i) phases of
         None \<Rightarrow> None | Some p \<Rightarrow> Some (p\<lparr>pi_Status := settled gate states c p\<rparr>))"
    using m(2) phase_map_lookup [OF d] by (auto split: option.split)
  have "List.map_filter (first_change now states c) phases =
      List.map_filter dec (filter (\<lambda>p. pi_Status p \<in> {PhaseStatusActive, PhaseStatusAwaitingFill}) phases)"
    using first_change_decision [of _ now states c gate phases]
    by (intro map_filter_where) (auto simp: dec_def first_change_def)
  moreover have "List.map_filter (second_pass m) phases = List.map_filter dec (filter (\<lambda>p. pi_Status p = PhaseStatusPending) phases)"
    using later_pass_decision(1) [OF m'] by (intro map_filter_where) (simp add: dec_def second_pass_def)
  moreover have "List.map_filter (third_pass m) phases = List.map_filter dec (filter (\<lambda>p. pi_Status p = PhaseStatusCancelled) phases)"
    using later_pass_decision(2) [OF m'] by (intro map_filter_where) (simp add: dec_def third_pass_def)
  ultimately show ?thesis by (simp add: CheckPhaseTransitions_def q m(1))
qed

lemma decision_id: "decision gate now states c phases p = Some tr \<Longrightarrow> tr_PhaseID tr = pi_ID p"
  by (auto simp: decision_def transition_def Let_def split: if_splits option.splits stamp.splits)

lemma active_outcome_range:
  "active_outcome states c p = Some s \<Longrightarrow> s \<in> {PhaseStatusFailed, PhaseStatusCancelled, PhaseStatusCompleted}"
  by (auto simp: active_outcome_def Let_def split: if_splits)

lemma decision_valid:
  assumes "decision gate now states c phases p = Some tr"
  shows "tr_OldStatus tr = pi_Status p \<and> phase_step (pi_Status p) (tr_NewStatus tr)"
proof -
  have "tr_OldStatus tr = pi_Status p"
    using assms by (auto simp: decision_def transition_def Let_def split: if_splits option.splits stamp.splits)
  moreover have "phase_step (pi_Status p) (tr_NewStatus tr)"
  proof (cases "pi_Status p = PhaseStatusActive")
    case True
    with assms obtain s where "active_outcome states c p = Some s" "tr_NewStatus tr = s"
      by (auto simp: decision_def transition_def Let_def)
    with active_outcome_range [of states c p s] True show ?thesis by (auto simp: table_defs)
  next
    case False
    with assms show ?thesis
      by (auto simp: decision_def transition_def Let_def table_defs split: if_splits option.splits stamp.splits)
  qed
  ultimately show ?thesis by simp
qed

lemma one_per_phase:
  assumes "distinct (map pi_ID ps)" and "p \<in> set ps" and "\<And>q tr. f q = Some tr \<Longrightarrow> tr_PhaseID tr = pi_ID q"
  shows "filter (\<lambda>tr. tr_PhaseID tr = pi_ID p) (List.map_filter f (filter P ps)) =
    (if P p then case f p of None \<Rightarrow> [] | Some tr \<Rightarrow> [tr] else [])"
proof -
  have none: "filter (\<lambda>tr. tr_PhaseID tr = i) (List.map_filter f (filter P qs)) = []" if "i \<notin> pi_ID ` set qs" for i qs
    using that by (induction qs) (auto simp: List.map_filter_simps split: option.split dest: assms(3))
  show ?thesis
    using assms(1,2)
  proof (induction ps)
    case (Cons q ps)
    show ?case
    proof (cases "q = p")
      case True
      with Cons.prems none [of "pi_ID p" ps] show ?thesis
        by (auto simp: List.map_filter_simps split: option.split dest: assms(3))
    next
      case False
      with Cons.prems have "p \<in> set ps" "pi_ID q \<noteq> pi_ID p" by auto
      with Cons show ?thesis
        by (auto simp: List.map_filter_simps split: option.split dest: assms(3))
    qed
  qed simp
qed

section \<open>Properties\<close>

text \<open>
  C27. The three passes of a phase scan decide every phase once, by the statuses the phases settle in. Active
  phases follow the effective statuses of their tasks; a pending phase is cancelled by its first dead dependency, with that phase as
  recorded cause, and becomes fillable when all its dependencies are completed and merged; a cancelled phase
  comes back exactly when its recorded cause is live again; a fill deadline that has passed times out. Every transition is a
  valid step of the phase machine.
\<close>

theorem phase_scan_correct:
  assumes "map_of states c = Some st" and "distinct (map ph_PhaseID (Phases st))"
  shows "let trs = CheckPhaseTransitions gate now states c; phases = GetCommandPhases st in
    (\<forall>p \<in> set phases. filter (\<lambda>tr. tr_PhaseID tr = pi_ID p) trs =
        (case decision gate now states c phases p of None \<Rightarrow> [] | Some tr \<Rightarrow> [tr]))
    \<and> (\<forall>tr \<in> set trs. \<exists>p \<in> set phases. tr_PhaseID tr = pi_ID p \<and> tr_OldStatus tr = pi_Status p
         \<and> phase_step (tr_OldStatus tr) (tr_NewStatus tr))"
proof -
  let ?phases = "GetCommandPhases st"
  let ?dec = "decision gate now states c ?phases" and ?trs = "CheckPhaseTransitions gate now states c"
  note scan = scan_decisions [OF assms, of gate now]
  have d: "distinct (map pi_ID ?phases)"
    using assms(2) by (simp add: GetCommandPhases_def phase_info_def comp_def)
  note one = one_per_phase [where f = ?dec, OF d _ decision_id]
  have "filter (\<lambda>tr. tr_PhaseID tr = pi_ID p) ?trs = (case ?dec p of None \<Rightarrow> [] | Some tr \<Rightarrow> [tr])" if "p \<in> set ?phases" for p
  proof -
    have "?dec p = None" if "pi_Status p \<notin> {PhaseStatusActive, PhaseStatusAwaitingFill}" "pi_Status p \<noteq> PhaseStatusPending"
        "pi_Status p \<noteq> PhaseStatusCancelled"
      using that by (simp add: decision_def)
    then show ?thesis using one [OF that] by (auto simp: scan split: option.split)
  qed
  moreover have "\<exists>p \<in> set ?phases. ?dec p = Some tr" if "tr \<in> set ?trs" for tr
    using that by (auto simp: scan List.map_filter_def)
  then have "\<exists>p \<in> set ?phases. tr_PhaseID tr = pi_ID p \<and> tr_OldStatus tr = pi_Status p
         \<and> phase_step (tr_OldStatus tr) (tr_NewStatus tr)" if "tr \<in> set ?trs" for tr
    using that decision_id decision_valid by metis
  ultimately show ?thesis by (simp add: Let_def)
qed

definition demo_phases :: states where
  "demo_phases = [(''c'', (zero_CommandState ''c'' PlanStatusSealed)\<lparr>RequiredTaskIDs := [''t''], TaskStates := [(''t'', StatusFailed)],
     Phases := [(zero_Phase ''a'' PhaseStatusActive [''t''])\<lparr>ph_Name := ''build''\<rparr>,
                (zero_Phase ''b'' PhaseStatusPending [])\<lparr>ph_Name := ''test'', ph_DependsOnPhases := [''build'']\<rparr>]\<rparr>)]"

lemma demo_status: "query (GetEffectiveTaskStatusForCompletion ''t'') ''c'' demo_phases = Inr StatusFailed"
  by (simp add: demo_phases_def query_def GetEffectiveTaskStatusForCompletion_def zero_CommandState_def
      EffectiveStatusForCompletion_def Let_def effective_unwound.simps EffectiveStatus_def LatestDescendant_def)

lemma phase_scan_correct_witness:
  "let trs = CheckPhaseTransitions (\<lambda>_ _. True) 0 demo_phases ''c'' in
   map tr_NewStatus (filter (\<lambda>tr. tr_PhaseID tr = ''b'') trs) = [PhaseStatusCancelled]"
proof -
  let ?st = "snd (hd demo_phases)"
  have "map_of demo_phases ''c'' = Some ?st" "distinct (map ph_PhaseID (Phases ?st))"
    by (simp_all add: demo_phases_def zero_Phase_def)
  from phase_scan_correct [OF this, where gate = "\<lambda>_ _. True" and now = 0]
  have "\<forall>p \<in> set (GetCommandPhases ?st). filter (\<lambda>tr. tr_PhaseID tr = pi_ID p) (CheckPhaseTransitions (\<lambda>_ _. True) 0 demo_phases ''c'') =
        (case decision (\<lambda>_ _. True) 0 demo_phases ''c'' (GetCommandPhases ?st) p of None \<Rightarrow> [] | Some tr \<Rightarrow> [tr])"
    unfolding Let_def by (rule conjunct1)
  moreover have "GetCommandPhases ?st ! 1 \<in> set (GetCommandPhases ?st)" "pi_ID (GetCommandPhases ?st ! 1) = ''b''"
    by (simp_all add: demo_phases_def zero_Phase_def GetCommandPhases_def phase_info_def)
  moreover have "eff demo_phases ''c'' ''t'' = Inr StatusFailed" by (simp add: eff_def demo_status)
  then have "map_option tr_NewStatus (decision (\<lambda>_ _. True) 0 demo_phases ''c'' (GetCommandPhases ?st) (GetCommandPhases ?st ! 1)) =
      Some PhaseStatusCancelled"
    by (simp add: demo_phases_def zero_Phase_def GetCommandPhases_def phase_info_def decision_def settled_at_def settled_def
        active_outcome_def phase_name_to_id_def zero_CommandState_def List.map_filter_simps transition_def Let_def)
  ultimately show ?thesis by (auto simp: Let_def)
qed

text \<open>The phase a task is required in: the last that names it.\<close>

definition required_phase :: "states \<Rightarrow> string \<Rightarrow> string \<Rightarrow> string" where
  "required_phase states commandID t =
     (case map_of states commandID of
        None \<Rightarrow> []
      | Some st \<Rightarrow> (case find (\<lambda>p. t \<in> set (pi_RequiredTaskIDs p)) (rev (GetCommandPhases st)) of
                      None \<Rightarrow> [] | Some p \<Rightarrow> pi_ID p))"

lemma task_phase_lookup: "zget [] (buildTaskToPhaseMap c states) t = required_phase states c t"
proof -
  have inner: "map_of (fold (\<lambda>tid out. AList.update tid v out) ts m) t = (if t \<in> set ts then Some v else map_of m t)" for ts v m
    by (induction ts arbitrary: m) auto
  have "map_of (fold (\<lambda>p out. fold (\<lambda>tid out. AList.update tid (pi_ID p) out) (pi_RequiredTaskIDs p) out) ps []) t =
      map_option pi_ID (find (\<lambda>p. t \<in> set (pi_RequiredTaskIDs p)) (rev ps))" for ps
    by (induction ps rule: rev_induct) (auto simp: inner)
  note last = this
  show ?thesis
  proof (cases "map_of states c")
    case (Some st)
    then show ?thesis
      by (cases "find (\<lambda>p. t \<in> set (pi_RequiredTaskIDs p)) (rev (GetCommandPhases st))")
        (simp_all add: buildTaskToPhaseMap_def required_phase_def query_def zget_def last)
  qed (simp add: buildTaskToPhaseMap_def required_phase_def query_def zget_def)
qed

text \<open>
  A task is dispatchable exactly when every dependency is effectively completed and, if it runs on the integration
  branch or the main branch, every dependency from another phase has its phase merged. A
  failure cascades from the first dependency that is effectively failed or cancelled and from no other status; a
  dependency never both lets a task run and fails it.
\<close>

theorem dependency_gate:
  "(IsTaskBlocked gate states task = Inr False \<longleftrightarrow>
      (\<forall>d \<in> set (tk_BlockedBy task). dep_status states task d = Inr StatusCompleted
         \<and> (tk_RunOnIntegration task \<or> tk_RunOnMain task \<longrightarrow>
              (let ph = required_phase states (tk_CommandID task) d in
               ph = [] \<or> ph = required_phase states (tk_CommandID task) (q_ID task) \<or> gate (tk_CommandID task) ph))))
   \<and> (\<forall>d s. CheckDependencyFailure states task = Inr (Some (d, s)) \<longrightarrow>
        d \<in> set (tk_BlockedBy task) \<and> dep_status states task d = Inr s \<and> (s = StatusFailed \<or> s = StatusCancelled)
        \<and> IsTaskBlocked gate states task \<noteq> Inr False)
   \<and> (CheckDependencyFailure states task = Inr None \<longleftrightarrow>
        (\<forall>d \<in> set (tk_BlockedBy task). \<exists>t. dep_status states task d = Inr t \<and> t \<noteq> StatusFailed \<and> t \<noteq> StatusCancelled))"
proof -
  let ?c = "tk_CommandID task"
  have merge: "isBlockedOnIntegrationMerge gate states task \<longleftrightarrow>
      (\<exists>d \<in> set (tk_BlockedBy task). let ph = required_phase states ?c d in
         ph \<noteq> [] \<and> ph \<noteq> required_phase states ?c (q_ID task) \<and> \<not> gate ?c ph)"
  proof (cases "buildTaskToPhaseMap ?c states")
    case Nil
    then have "required_phase states ?c d = []" for d using task_phase_lookup [of ?c states d] by (simp add: zget_def)
    with Nil show ?thesis by (simp add: isBlockedOnIntegrationMerge_def)
  qed (simp add: isBlockedOnIntegrationMerge_def task_phase_lookup [symmetric] Let_def)
  have blocked: "IsTaskBlocked gate states task = Inr False \<longleftrightarrow> blocked_by states task (tk_BlockedBy task) = Inr False
      \<and> (tk_RunOnIntegration task \<or> tk_RunOnMain task \<longrightarrow> \<not> isBlockedOnIntegrationMerge gate states task)"
    by (auto simp: IsTaskBlocked_def merge split: sum.split bool.split)
  moreover have "CheckDependencyFailure states task = failed_dep states task (tk_BlockedBy task)"
    by (simp add: CheckDependencyFailure_def)
  ultimately show ?thesis
    by (auto simp: blocked_by_spec failed_dep_spec failed_dep_none merge Let_def)
qed

lemma dependency_gate_witness:
  "let task = (zero_Task ''x'' StatusPending)\<lparr>tk_CommandID := ''c'', tk_BlockedBy := [''t'']\<rparr> in
   CheckDependencyFailure demo_phases task = Inr (Some (''t'', StatusFailed))
   \<and> IsTaskBlocked (\<lambda>_ _. True) demo_phases task \<noteq> Inr False"
proof -
  let ?task = "(zero_Task ''x'' StatusPending)\<lparr>tk_CommandID := ''c'', tk_BlockedBy := [''t'']\<rparr>"
  have "CheckDependencyFailure demo_phases ?task = Inr (Some (''t'', StatusFailed))"
    by (simp add: CheckDependencyFailure_def zero_Task_def dep_status_def demo_status)
  with dependency_gate [where gate = "\<lambda>_ _. True" and states = demo_phases and task = ?task] show ?thesis
    by (simp add: Let_def)
qed

text \<open>
  A dependency that ended dead-lettered or aborted, both terminal, keeps its dependents blocked without ever cascading to them.
\<close>

lemma dead_dependency_waits:
  assumes "tk_BlockedBy task = [d]" and "dep_status states task d = Inr s" and "s = StatusDeadLetter \<or> s = StatusAborted"
  shows "IsTerminal s \<and> IsTaskBlocked gate states task = Inr True \<and> CheckDependencyFailure states task = Inr None"
  using assms by (auto simp: IsTaskBlocked_def CheckDependencyFailure_def terminal_defs)

end
