(* ===== verification/Dispatch_Order.thy ===== *)
theory Dispatch_Order imports Queue_Model "HOL-Library.Product_Lexorder" "HOL-Library.Signed_Division" begin

text \<open>
  The order of dispatch (\<open>internal/daemon/dispatch/sort.go\<close>): pending rows by aged priority, then age, then id.
  Durations are 64-bit counts of nanoseconds and wrap around; \<open>time.Since\<close> saturates.
  The comparison is the strict part of a linear order on keys, so the library's sorting facts apply.
\<close>

section \<open>Operations\<close>

definition wrap64 :: "int \<Rightarrow> int" where
  "wrap64 x = (x + 2 ^ 63) mod 2 ^ 64 - 2 ^ 63"

definition max_int64 :: int where
  "max_int64 = 2 ^ 63 - 1"

text \<open>\<open>time.Since\<close>: the difference, saturated to the range of a Duration.\<close>

definition since :: "int \<Rightarrow> int \<Rightarrow> int" where
  "since now created = max (- (2 ^ 63)) (min max_int64 (now - created))"

definition clampPriority :: "int \<Rightarrow> int" where
  "clampPriority p = (if p < 0 then 0 else p)"

definition EffectivePriority :: "int \<Rightarrow> int \<Rightarrow> stamp \<Rightarrow> int \<Rightarrow> int" where
  "EffectivePriority now priority createdAt priorityAgingSec =
     (if priorityAgingSec \<le> 0 \<or> priority \<le> 0 then max priority 0
      else case parse_stamp createdAt of
        None \<Rightarrow> clampPriority priority
      | Some created \<Rightarrow>
          (let age = since now created in
           if age \<le> 0 then clampPriority priority
           else if priorityAgingSec > 2 ^ 53 - 1 then clampPriority priority
           else
             (let interval = wrap64 (priorityAgingSec * 1000000000); aging = age sdiv interval in
              if aging \<ge> priority then 0 else clampPriority (wrap64 (priority - aging)))))"

record SortKey =
  sk_Status :: Status
  sk_Priority :: int
  sk_CreatedAt :: stamp
  sk_ID :: string

record SortableEntry =
  se_Index :: nat
  se_EffectivePriority :: int
  se_CreatedAt :: int
  se_ID :: string

text \<open>The zero \<open>time.Time\<close>, which \<open>time.Parse\<close> returns with an error: the first of January of year 1.\<close>

definition zero_time :: int where
  "zero_time = - 62135596800000000000"

definition sort_entry :: "int \<Rightarrow> int \<Rightarrow> nat \<Rightarrow> SortKey \<Rightarrow> SortableEntry" where
  "sort_entry now priorityAgingSec i key =
     \<lparr>se_Index = i, se_EffectivePriority = EffectivePriority now (sk_Priority key) (sk_CreatedAt key) priorityAgingSec,
      se_CreatedAt = (case parse_stamp (sk_CreatedAt key) of None \<Rightarrow> zero_time | Some t \<Rightarrow> t), se_ID = sk_ID key\<rparr>"

definition pending_entries :: "('a \<Rightarrow> SortKey) \<Rightarrow> int \<Rightarrow> int \<Rightarrow> 'a list \<Rightarrow> SortableEntry list" where
  "pending_entries extract now priorityAgingSec items =
     List.map_filter (\<lambda>(i, item).
       let key = extract item in
       if sk_Status key \<noteq> StatusPending then None else Some (sort_entry now priorityAgingSec i key))
     (enumerate 0 items)"

definition entry_less :: "SortableEntry \<Rightarrow> SortableEntry \<Rightarrow> bool" where
  "entry_less a b =
     (if se_EffectivePriority a \<noteq> se_EffectivePriority b then se_EffectivePriority a < se_EffectivePriority b
      else if se_CreatedAt a \<noteq> se_CreatedAt b then se_CreatedAt a < se_CreatedAt b
      else se_ID a < se_ID b)"

text \<open>\<open>sort.Slice\<close> by insertion, as Go sorts short slices; other orders of equal elements are covered below.\<close>

fun insert_by :: "('a \<Rightarrow> 'a \<Rightarrow> bool) \<Rightarrow> 'a \<Rightarrow> 'a list \<Rightarrow> 'a list" where
  "insert_by lt x [] = [x]"
| "insert_by lt x (y # ys) = (if lt x y then x # y # ys else y # insert_by lt x ys)"

definition sort_slice :: "('a \<Rightarrow> 'a \<Rightarrow> bool) \<Rightarrow> 'a list \<Rightarrow> 'a list" where
  "sort_slice lt xs = fold (insert_by lt) xs []"

definition SortPendingIndices :: "('a \<Rightarrow> SortKey) \<Rightarrow> int \<Rightarrow> int \<Rightarrow> 'a list \<Rightarrow> nat list" where
  "SortPendingIndices extract now priorityAgingSec items =
     map se_Index (sort_slice entry_less (pending_entries extract now priorityAgingSec items))"

definition row_key :: "'a queue_row_scheme \<Rightarrow> SortKey" where
  "row_key r = \<lparr>sk_Status = q_Status r, sk_Priority = q_Priority r, sk_CreatedAt = q_CreatedAt r, sk_ID = q_ID r\<rparr>"

definition SortPendingTasks :: "int \<Rightarrow> int \<Rightarrow> Task list \<Rightarrow> nat list" where
  "SortPendingTasks now aging tasks = SortPendingIndices row_key now aging tasks"

definition SortPendingCommands :: "int \<Rightarrow> int \<Rightarrow> Command list \<Rightarrow> nat list" where
  "SortPendingCommands now aging commands = SortPendingIndices row_key now aging commands"

definition SortPendingNotifications :: "int \<Rightarrow> int \<Rightarrow> Notification list \<Rightarrow> nat list" where
  "SortPendingNotifications now aging notifications = SortPendingIndices row_key now aging notifications"

section \<open>The order of keys\<close>

datatype dispatch_key = DispatchKey (key_priority: int) (key_created: int) (key_id: string)

abbreviation key_tuple :: "dispatch_key \<Rightarrow> int \<times> int \<times> string" where
  "key_tuple k \<equiv> (key_priority k, key_created k, key_id k)"

instantiation dispatch_key :: linorder
begin

definition less_eq_dispatch_key :: "dispatch_key \<Rightarrow> dispatch_key \<Rightarrow> bool" where
  "less_eq_dispatch_key a b \<longleftrightarrow> key_tuple a \<le> key_tuple b"

definition less_dispatch_key :: "dispatch_key \<Rightarrow> dispatch_key \<Rightarrow> bool" where
  "less_dispatch_key a b \<longleftrightarrow> key_tuple a < key_tuple b"

instance
  by standard (auto simp: less_eq_dispatch_key_def less_dispatch_key_def intro: dispatch_key.expand)

end

definition entry_key :: "SortableEntry \<Rightarrow> dispatch_key" where
  "entry_key e = DispatchKey (se_EffectivePriority e) (se_CreatedAt e) (se_ID e)"

lemma entry_less_key: "entry_less a b \<longleftrightarrow> entry_key a < entry_key b"
  by (auto simp: entry_less_def entry_key_def less_dispatch_key_def)

section \<open>Sorting\<close>

lemma mset_insert_by [simp]: "mset (insert_by lt x ys) = add_mset x (mset ys)"
  by (induction ys) auto

lemma set_insert_by [simp]: "set (insert_by lt x ys) = insert x (set ys)"
  by (induction ys) auto

lemma sorted_insert_by:
  fixes key :: "'a \<Rightarrow> 'k :: linorder"
  assumes "\<And>a b. lt a b \<longleftrightarrow> key a < key b" and "sorted (map key ys)"
  shows "sorted (map key (insert_by lt x ys))"
  using assms(2) by (induction ys) (auto simp: assms(1) dest: order.strict_implies_order)

lemma sort_slice_correct:
  fixes key :: "'a \<Rightarrow> 'k :: linorder"
  assumes "\<And>a b. lt a b \<longleftrightarrow> key a < key b"
  shows "mset (sort_slice lt xs) = mset xs \<and> sorted (map key (sort_slice lt xs))"
proof -
  have "sorted (map key acc) \<Longrightarrow>
      mset (fold (insert_by lt) xs acc) = mset xs + mset acc \<and> sorted (map key (fold (insert_by lt) xs acc))" for acc
    by (induction xs arbitrary: acc) (simp_all add: sorted_insert_by [of lt key, OF assms])
  from this [of "[]"] show ?thesis by (simp add: sort_slice_def)
qed

text \<open>Where the keys differ, there is only one sorted order.\<close>

lemma sorted_order_unique:
  fixes key :: "'a \<Rightarrow> 'k :: linorder"
  assumes "mset xs = mset ys" and "sorted (map key xs)" and "sorted (map key ys)" and "inj_on key (set xs)"
  shows "xs = ys"
proof -
  have "map key xs = map key ys"
    using properties_for_sort [of "map key xs" "map key ys"] assms(1-3) by (simp add: sorted_sort_id)
  moreover have "set ys = set xs" using assms(1) mset_eq_setD by metis
  ultimately show ?thesis using assms(4) by (metis map_inj_on sup.idem)
qed

section \<open>Aging\<close>

lemma wrap64_id: "- (2 ^ 63) \<le> x \<Longrightarrow> x < 2 ^ 63 \<Longrightarrow> wrap64 x = x"
  by (simp add: wrap64_def)

lemma sdiv_pos: "0 \<le> a \<Longrightarrow> 0 < b \<Longrightarrow> a sdiv b = a div b" for a b :: int
  by (simp add: signed_divide_int_def sgn_if)

lemma effective_priority_floor:
  assumes "0 < sec" and "sec \<le> 86400" and "0 < p" and "p \<le> max_int64" and "parse_stamp at = Some created"
  shows "EffectivePriority now p at sec = max 0 (p - max 0 (since now created) div (sec * 1000000000))"
proof -
  have i: "wrap64 (sec * 1000000000) = sec * 1000000000"
    using assms(1,2) by (intro wrap64_id) simp_all
  show ?thesis
  proof (cases "since now created \<le> 0")
    case True
    then show ?thesis using assms by (simp add: EffectivePriority_def clampPriority_def)
  next
    case False
    let ?q = "since now created div (sec * 1000000000)"
    have q: "0 \<le> ?q" using False assms(1) by (simp add: pos_imp_zdiv_nonneg_iff)
    have d: "since now created sdiv (sec * 1000000000) = ?q"
      using False assms(1) by (intro sdiv_pos) simp_all
    have "wrap64 (p - ?q) = p - ?q" if "?q < p"
      using that q assms(3,4) by (intro wrap64_id) (simp_all add: max_int64_def)
    then show ?thesis
      using False assms i d q by (auto simp: EffectivePriority_def clampPriority_def Let_def)
  qed
qed

section \<open>Properties\<close>

text \<open>
  C28. With an aging interval of at most a day, which the configuration validation enforces, the aged priority lies
  between zero and the priority, never rises as time passes, and reaches zero, the front of the order, once the row is
  priority times interval old: no pending row waits forever behind younger ones of smaller priority numbers.
\<close>

theorem aging_never_starves:
  assumes "0 < sec" and "sec \<le> 86400" and "p \<le> max_int64"
  shows "let eff = (\<lambda>now. EffectivePriority now p at sec) in
    0 \<le> eff now \<and> eff now \<le> max 0 p \<and> (now \<le> later \<longrightarrow> eff later \<le> eff now)
    \<and> (case parse_stamp at of
         None \<Rightarrow> True
       | Some created \<Rightarrow> created + p * sec * 1000000000 \<le> now \<and> p * sec * 1000000000 \<le> max_int64 \<longrightarrow> eff now = 0)"
proof (cases "0 < p")
  case False
  then show ?thesis by (auto simp: EffectivePriority_def Let_def split: option.splits)
next
  case True
  show ?thesis
  proof (cases "parse_stamp at")
    case None
    then show ?thesis using True assms(1) by (simp add: EffectivePriority_def clampPriority_def)
  next
    case (Some created)
    let ?n = "sec * 1000000000" and ?age = "\<lambda>now. max 0 (since now created)"
    note eff = effective_priority_floor [OF assms(1,2) True assms(3) Some]
    have "now \<le> later \<Longrightarrow> ?age now div ?n \<le> ?age later div ?n"
      using assms(1) by (intro zdiv_mono1) (auto simp: since_def)
    moreover have "0 \<le> ?age now div ?n"
      using assms(1) by (simp add: pos_imp_zdiv_nonneg_iff)
    moreover have "p \<le> ?age now div ?n" if "created + p * sec * 1000000000 \<le> now" "p * sec * 1000000000 \<le> max_int64"
    proof -
      have "p * ?n \<le> ?age now" using that by (auto simp: since_def algebra_simps)
      then have "p * ?n div ?n \<le> ?age now div ?n" using assms(1) by (intro zdiv_mono1) simp_all
      then show ?thesis using assms(1) by simp
    qed
    ultimately show ?thesis using Some True by (auto simp: eff Let_def)
  qed
qed

lemma aging_never_starves_witness:
  "EffectivePriority 5000000000 3 (Stamp 0) 1 = 0 \<and> EffectivePriority 2000000000 3 (Stamp 0) 1 \<le> 3"
  using aging_never_starves [of 1 3 "Stamp 0" 5000000000 5000000000]
    aging_never_starves [of 1 3 "Stamp 0" 2000000000 2000000000]
  by (simp add: max_int64_def Let_def)

text \<open>Outside that range the guard of the code is too weak: the interval wraps around and the priority number grows.\<close>

lemma aging_overflow: "EffectivePriority 1000000000 1 (Stamp 0) 18446744073 = 2"
  by (simp add: EffectivePriority_def since_def wrap64_def max_int64_def clampPriority_def Let_def signed_divide_int_def)

definition key_at :: "int \<Rightarrow> int \<Rightarrow> 'a queue_row_scheme \<Rightarrow> dispatch_key" where
  "key_at now aging r =
     DispatchKey (EffectivePriority now (q_Priority r) (q_CreatedAt r) aging)
       (case parse_stamp (q_CreatedAt r) of None \<Rightarrow> zero_time | Some t \<Rightarrow> t) (q_ID r)"

lemma pending_entries_index:
  "map se_Index (pending_entries row_key now aging rows) =
     filter (\<lambda>i. q_Status (rows ! i) = StatusPending) [0..<length rows]"
  and pending_entries_key:
  "e \<in> set (pending_entries row_key now aging rows) \<Longrightarrow>
     se_Index e < length rows \<and> entry_key e = key_at now aging (rows ! se_Index e)"
proof -
  show "map se_Index (pending_entries row_key now aging rows) =
     filter (\<lambda>i. q_Status (rows ! i) = StatusPending) [0..<length rows]"
    by (induction rows rule: rev_induct)
       (auto simp: pending_entries_def enumerate_append_eq List.map_filter_def row_key_def
          sort_entry_def Let_def nth_append intro!: filter_cong)
  assume "e \<in> set (pending_entries row_key now aging rows)"
  then show "se_Index e < length rows \<and> entry_key e = key_at now aging (rows ! se_Index e)"
    by (auto simp: pending_entries_def List.map_filter_def row_key_def sort_entry_def Let_def in_set_enumerate_eq
        entry_key_def key_at_def split: if_splits)
qed

text \<open>
  The dispatch order of tasks holds each pending task once, and no other, ordered by aged priority, then creation
  time, then id. Tasks with different ids have only one such order, so the result does not depend on
  how \<open>sort.Slice\<close> breaks ties.
\<close>

theorem pending_order_correct:
  "let order = SortPendingTasks now aging tasks; entries = pending_entries row_key now aging tasks in
   distinct order \<and> set order = {i. i < length tasks \<and> q_Status (tasks ! i) = StatusPending}
   \<and> sorted (map (\<lambda>i. key_at now aging (tasks ! i)) order)
   \<and> (distinct (map q_ID tasks) \<longrightarrow>
        (\<forall>es. mset es = mset entries \<and> sorted_wrt (\<lambda>a b. \<not> entry_less b a) es \<longrightarrow> map se_Index es = order))"
proof -
  let ?E = "pending_entries row_key now aging tasks"
  let ?S = "sort_slice entry_less ?E"
  have s: "mset ?S = mset ?E" "sorted (map entry_key ?S)"
    using sort_slice_correct [of entry_less entry_key, OF entry_less_key] by blast+
  note k = pending_entries_key [of _ now aging tasks] and ix = pending_entries_index [of now aging tasks]
  have m: "mset (map se_Index ?S) = mset (map se_Index ?E)" using s(1) by simp
  have d: "distinct (map se_Index ?S)"
    using mset_eq_imp_distinct_iff [OF m] ix by simp
  have st: "set (map se_Index ?S) = {i. i < length tasks \<and> q_Status (tasks ! i) = StatusPending}"
    using mset_eq_setD [OF m] ix by auto
  have "set ?S = set ?E" using s(1) mset_eq_setD by metis
  then have "map (\<lambda>i. key_at now aging (tasks ! i)) (map se_Index ?S) = map entry_key ?S"
    using k by simp
  then have so: "sorted (map (\<lambda>i. key_at now aging (tasks ! i)) (map se_Index ?S))" using s(2) by (simp only:)
  have "map se_Index es = map se_Index ?S"
    if "distinct (map q_ID tasks)" "mset es = mset ?E" "sorted_wrt (\<lambda>a b. \<not> entry_less b a) es" for es
  proof -
    have "sorted (map entry_key es)"
      using that(3) by (simp add: sorted_map sorted_wrt_map entry_less_key not_less)
    moreover have "inj_on entry_key (set es)"
    proof (rule inj_onI)
      fix a b assume ab: "a \<in> set es" "b \<in> set es" "entry_key a = entry_key b"
      have E: "a \<in> set ?E" "b \<in> set ?E" using ab(1,2) that(2) mset_eq_setD by metis+
      have "q_ID (tasks ! se_Index a) = q_ID (tasks ! se_Index b)"
        using ab(3) k [OF E(1)] k [OF E(2)] by (simp add: key_at_def)
      then have "se_Index a = se_Index b"
        using that(1) k [OF E(1)] k [OF E(2)] by (simp add: distinct_conv_nth nth_eq_iff_index_eq)
          (metis length_map nth_map that(1) nth_eq_iff_index_eq)
      moreover have "distinct (map se_Index ?E)" using ix by simp
      ultimately show "a = b" using E by (meson distinct_map inj_onD)
    qed
    ultimately show ?thesis using sorted_order_unique [of es ?S entry_key] that(2) s by simp
  qed
  then show ?thesis using d st so by (simp add: SortPendingTasks_def SortPendingIndices_def Let_def)
qed

lemma pending_order_correct_witness:
  "let a = (zero_Task ''a'' StatusPending)\<lparr>q_Priority := 1\<rparr>; b = zero_Task ''b'' StatusPending;
       c = zero_Task ''c'' StatusInProgress in
   distinct (SortPendingTasks 0 60 [a, b, c]) \<and> set (SortPendingTasks 0 60 [a, b, c]) = {0, 1}"
proof -
  define ts where "ts = [(zero_Task ''a'' StatusPending)\<lparr>q_Priority := 1\<rparr>, zero_Task ''b'' StatusPending, zero_Task ''c'' StatusInProgress]"
  have "{i. i < length ts \<and> q_Status (ts ! i) = StatusPending} = {0, 1}"
    by (auto simp: ts_def zero_Task_def less_Suc_eq nth_Cons')
  with pending_order_correct [where now = 0 and aging = 60 and tasks = ts] show ?thesis
    by (simp add: ts_def Let_def)
qed

end
