(* ===== verification/Admission.thy ===== *)
theory Admission imports Queue_Model Config begin

text \<open>
  Admission control of verify and repair work (\<open>internal/daemon/admission/controller.go\<close>): a pool of slots
  per kind of operation, shared by dispatched tasks, which are counted anew from the queues at every
  scan, and background work of the daemon, which keeps its slots across scans. The mutex makes each call one
  step; the warning about persistent saturation is a log line, its counter is kept.
\<close>

section \<open>Operations\<close>

datatype OpType = OpVerify | OpRepair | OpUnknown

record Controller =
  maxVerify :: int
  maxRepair :: int
  slots :: "(OpType, int) gomap"
  backgroundSlots :: "(OpType, int) gomap"
  consecutiveRejects :: "(OpType, int) gomap"

definition NewController :: "AdmissionControl \<Rightarrow> Controller" where
  "NewController cfg =
     \<lparr>maxVerify = EffectiveMaxConcurrentVerify cfg, maxRepair = EffectiveMaxConcurrentRepair cfg,
      slots = [(OpVerify, 0), (OpRepair, 0)], backgroundSlots = [(OpVerify, 0), (OpRepair, 0)],
      consecutiveRejects = [(OpVerify, 0), (OpRepair, 0)]\<rparr>"

definition maxFor :: "OpType \<Rightarrow> Controller \<Rightarrow> int" where
  "maxFor op c = (case op of OpVerify \<Rightarrow> maxVerify c | OpRepair \<Rightarrow> maxRepair c | OpUnknown \<Rightarrow> 0)"

definition bump :: "int \<Rightarrow> OpType \<Rightarrow> (OpType, int) gomap \<Rightarrow> (OpType, int) gomap" where
  "bump d op m = AList.update op (zget 0 m op + d) m"

definition rejected :: "OpType \<Rightarrow> Controller \<Rightarrow> Controller" where
  "rejected op c = c\<lparr>consecutiveRejects := bump 1 op (consecutiveRejects c)\<rparr>"

definition TryAcquire :: "OpType \<Rightarrow> Controller \<Rightarrow> bool \<times> Controller" where
  "TryAcquire op c =
     (if op = OpUnknown then (True, c)
      else if maxFor op c \<le> zget 0 (slots c) op then (False, rejected op c)
      else (True, c\<lparr>consecutiveRejects := AList.update op 0 (consecutiveRejects c), slots := bump 1 op (slots c)\<rparr>))"

definition TryAcquireBackground :: "OpType \<Rightarrow> Controller \<Rightarrow> bool \<times> Controller" where
  "TryAcquireBackground op c =
     (if op = OpUnknown then (True, c)
      else if maxFor op c \<le> zget 0 (slots c) op then (False, rejected op c)
      else (True, c\<lparr>consecutiveRejects := AList.update op 0 (consecutiveRejects c), slots := bump 1 op (slots c),
                    backgroundSlots := bump 1 op (backgroundSlots c)\<rparr>))"

definition lower :: "OpType \<Rightarrow> (OpType, int) gomap \<Rightarrow> (OpType, int) gomap" where
  "lower op m = (if 0 < zget 0 m op then bump (-1) op m else m)"

definition Release :: "OpType \<Rightarrow> Controller \<Rightarrow> Controller" where
  "Release op c = (if op = OpUnknown then c else c\<lparr>slots := lower op (slots c)\<rparr>)"

definition ReleaseBackground :: "OpType \<Rightarrow> Controller \<Rightarrow> Controller" where
  "ReleaseBackground op c =
     (if op = OpUnknown then c
      else c\<lparr>backgroundSlots := lower op (backgroundSlots c), slots := lower op (slots c)\<rparr>)"

definition ClassifyTask :: "Task \<Rightarrow> OpType" where
  "ClassifyTask task =
     (if tk_OperationType task = ''verify'' then OpVerify
      else if tk_OperationType task = ''repair'' then OpRepair
      else OpUnknown)"

definition Reset :: "Controller \<Rightarrow> Controller" where
  "Reset c = c\<lparr>slots := map (\<lambda>(op, _). (op, 0)) (slots c),
               backgroundSlots := map (\<lambda>(op, _). (op, 0)) (backgroundSlots c)\<rparr>"

definition count_task :: "Task \<Rightarrow> (OpType, int) gomap \<Rightarrow> (OpType, int) gomap" where
  "count_task t m = (let op = ClassifyTask t in if op \<noteq> OpUnknown then bump 1 op m else m)"

definition RecordInFlight :: "Task list \<Rightarrow> Controller \<Rightarrow> Controller" where
  "RecordInFlight tasks c =
     c\<lparr>slots := fold count_task tasks (map (\<lambda>(op, _). (op, zget 0 (backgroundSlots c) op)) (slots c))\<rparr>"

definition ActiveCount :: "OpType \<Rightarrow> Controller \<Rightarrow> int" where
  "ActiveCount op c = zget 0 (slots c) op"

section \<open>A pool of slots\<close>

text \<open>
  The contract of one kind of slot: a grant just when the pool is not full, and a release that gives
  back at most what is used.
\<close>

locale slot_pool =
  fixes used :: "'s \<Rightarrow> int" and limit :: "'s \<Rightarrow> int"
    and acquire :: "'s \<Rightarrow> bool \<times> 's" and give_back :: "'s \<Rightarrow> 's"
  assumes acquire_law: "acquire s = (ok, s') \<Longrightarrow>
      (ok \<longleftrightarrow> used s < limit s) \<and> used s' = used s + (if ok then 1 else 0) \<and> limit s' = limit s"
    and release_law: "used (give_back s) = max 0 (used s - 1) \<or> used s < 0 \<and> used (give_back s) = used s"
    and release_limit: "limit (give_back s) = limit s"
begin

text \<open>Requests on a pool; \<open>True\<close> acquires, \<open>False\<close> releases.\<close>

definition serve :: "bool \<Rightarrow> 's \<Rightarrow> 's" where
  "serve b s = (if b then snd (acquire s) else give_back s)"

lemma serve_limit: "limit (serve b s) = limit s"
  using acquire_law [of s "fst (acquire s)" "snd (acquire s)"] release_limit by (simp add: serve_def)

lemma serve_bound: "0 \<le> used s \<Longrightarrow> 0 \<le> used (serve b s) \<and> used (serve b s) \<le> max (limit s) (used s)"
  using acquire_law [of s "fst (acquire s)" "snd (acquire s)"] release_law [of s]
  by (auto simp: serve_def split: if_splits)

lemma never_over:
  "0 \<le> used s \<Longrightarrow> 0 \<le> used (fold serve bs s) \<and> used (fold serve bs s) \<le> max (limit s) (used s)"
proof (induction bs arbitrary: s)
  case (Cons b bs)
  from Cons.IH [of "serve b s"] serve_bound [OF Cons.prems, of b] show ?case
    by (auto simp: serve_limit)
qed simp

end

lemma zget_bump [simp]: "zget 0 (bump d op m) k = zget 0 m k + (if k = op then d else 0)"
  by (simp add: bump_def)

lemma zget_lower: "0 \<le> zget 0 m op \<Longrightarrow> zget 0 (lower op m) k = (if k = op then max 0 (zget 0 m op - 1) else zget 0 m k)"
  by (auto simp: lower_def)

lemma maxFor_frame [simp]:
  "maxFor k (rejected op c) = maxFor k c" "slots (rejected op c) = slots c"
  "maxFor k (slots_update f c) = maxFor k c" "maxFor k (backgroundSlots_update f c) = maxFor k c"
  "maxFor k (consecutiveRejects_update f c) = maxFor k c"
  by (simp_all add: maxFor_def rejected_def split: OpType.split)

text \<open>The verify pool and the repair pool, for dispatched and for background work.\<close>

interpretation verify_pool: slot_pool "\<lambda>c. zget 0 (slots c) OpVerify" "maxFor OpVerify" "TryAcquire OpVerify" "Release OpVerify"
  by unfold_locales (auto simp: TryAcquire_def Release_def lower_def split: if_splits)

interpretation repair_pool: slot_pool "\<lambda>c. zget 0 (slots c) OpRepair" "maxFor OpRepair" "TryAcquire OpRepair" "Release OpRepair"
  by unfold_locales (auto simp: TryAcquire_def Release_def lower_def split: if_splits)

interpretation background_pool: slot_pool "\<lambda>c. zget 0 (slots c) OpVerify" "maxFor OpVerify"
    "TryAcquireBackground OpVerify" "ReleaseBackground OpVerify"
  by unfold_locales (auto simp: TryAcquireBackground_def ReleaseBackground_def lower_def split: if_splits)

section \<open>Who holds the slots\<close>

text \<open>
  The specification: per kind of operation, the number of dispatched tasks, as counted at the last scan and changed
  since, and the number of background jobs. A scan replaces the former and keeps the latter.
\<close>

datatype admission_op =
  Dispatch OpType | Undo OpType | StartBackground OpType | EndBackground OpType | Scan "Task list"

type_synonym holders = "(OpType \<Rightarrow> int) \<times> (OpType \<Rightarrow> int)"

definition in_class :: "Task list \<Rightarrow> OpType \<Rightarrow> int" where
  "in_class ts op = (if op = OpUnknown then 0 else int (length (filter (\<lambda>t. ClassifyTask t = op) ts)))"

definition grants :: "AdmissionControl \<Rightarrow> holders \<Rightarrow> OpType \<Rightarrow> bool" where
  "grants cfg h op = (op \<noteq> OpUnknown \<and> fst h op + snd h op < maxFor op (NewController cfg))"

fun spec_step :: "AdmissionControl \<Rightarrow> admission_op \<Rightarrow> holders \<Rightarrow> holders" where
  "spec_step cfg (Dispatch op) h = (if grants cfg h op then ((fst h)(op := fst h op + 1), snd h) else h)"
| "spec_step cfg (Undo op) h = (if op = OpUnknown then h else ((fst h)(op := fst h op - 1), snd h))"
| "spec_step cfg (StartBackground op) h = (if grants cfg h op then (fst h, (snd h)(op := snd h op + 1)) else h)"
| "spec_step cfg (EndBackground op) h = (if op = OpUnknown then h else (fst h, (snd h)(op := snd h op - 1)))"
| "spec_step cfg (Scan ts) h = (in_class ts, snd h)"

text \<open>Slots are given back by those who hold one.\<close>

fun held :: "admission_op \<Rightarrow> holders \<Rightarrow> bool" where
  "held (Undo op) h = (op = OpUnknown \<or> 0 < fst h op)"
| "held (EndBackground op) h = (op = OpUnknown \<or> 0 < snd h op)"
| "held _ h = True"

fun disciplined :: "AdmissionControl \<Rightarrow> admission_op list \<Rightarrow> holders \<Rightarrow> bool" where
  "disciplined cfg [] h = True"
| "disciplined cfg (x # xs) h = (held x h \<and> disciplined cfg xs (spec_step cfg x h))"

fun code_step :: "admission_op \<Rightarrow> Controller \<Rightarrow> Controller" where
  "code_step (Dispatch op) c = snd (TryAcquire op c)"
| "code_step (Undo op) c = Release op c"
| "code_step (StartBackground op) c = snd (TryAcquireBackground op c)"
| "code_step (EndBackground op) c = ReleaseBackground op c"
| "code_step (Scan ts) c = RecordInFlight ts c"

definition represents :: "AdmissionControl \<Rightarrow> Controller \<Rightarrow> holders \<Rightarrow> bool" where
  "represents cfg c h =
     (maxVerify c = EffectiveMaxConcurrentVerify cfg \<and> maxRepair c = EffectiveMaxConcurrentRepair cfg
      \<and> (\<forall>op. op \<noteq> OpUnknown \<longrightarrow> map_of (slots c) op \<noteq> None
           \<and> zget 0 (slots c) op = fst h op + snd h op \<and> zget 0 (backgroundSlots c) op = snd h op
           \<and> 0 \<le> fst h op \<and> 0 \<le> snd h op))"

lemma represents_limit: "represents cfg c h \<Longrightarrow> maxFor op c = maxFor op (NewController cfg)"
  by (auto simp: represents_def maxFor_def NewController_def split: OpType.split)

lemma bump_key [simp]: "map_of (bump d op m) k \<noteq> None \<longleftrightarrow> k = op \<or> map_of m k \<noteq> None"
  by (simp add: bump_def)

lemma lower_key [simp]: "map_of (lower op m) k \<noteq> None \<longleftrightarrow> map_of m k \<noteq> None \<or> k = op \<and> 0 < zget 0 m op"
  by (simp add: lower_def del: not_None_eq) blast

lemma reset_slots: "map_of (map (\<lambda>(op, _). (op, f op)) m) k = (case map_of m k of None \<Rightarrow> None | Some _ \<Rightarrow> Some (f k))"
  by (induction m) (auto split: option.splits)

lemma count_tasks:
  "op \<noteq> OpUnknown \<Longrightarrow> zget 0 (fold count_task ts m) op = zget 0 m op + in_class ts op"
  "map_of m op \<noteq> None \<Longrightarrow> map_of (fold count_task ts m) op \<noteq> None"
proof (induction ts arbitrary: m)
  case (Cons t ts)
  {
    case 1
    with Cons.IH(1) [of "count_task t m"] show ?case by (auto simp: count_task_def in_class_def Let_def)
  next
    case 2
    then have "map_of (count_task t m) op \<noteq> None" by (simp add: count_task_def Let_def del: not_None_eq)
    with Cons.IH(2) [of "count_task t m"] show ?case by simp
  }
qed (auto simp: in_class_def)

lemma represents_step:
  assumes "represents cfg c h" and "held x h"
  shows "represents cfg (code_step x c) (spec_step cfg x h)"
proof -
  have lim: "maxFor op c = maxFor op (NewController cfg)" for op using assms(1) by (rule represents_limit)
  note r = assms(1) [unfolded represents_def]
  show ?thesis
  proof (cases x)
    case (Dispatch op)
    with r show ?thesis
      by (auto simp: represents_def TryAcquire_def rejected_def grants_def lim simp del: not_None_eq)
  next
    case (Undo op)
    with r assms(2) show ?thesis
      by (auto simp: represents_def Release_def zget_lower simp del: not_None_eq)
  next
    case (StartBackground op)
    with r show ?thesis
      by (auto simp: represents_def TryAcquireBackground_def rejected_def grants_def lim simp del: not_None_eq)
  next
    case (EndBackground op)
    with r assms(2) show ?thesis
      by (auto simp: represents_def ReleaseBackground_def zget_lower simp del: not_None_eq)
  next
    case (Scan ts)
    let ?m = "map (\<lambda>(op, _). (op, zget 0 (backgroundSlots c) op)) (slots c)"
    have "map_of ?m op = Some (snd h op)" if "op \<noteq> OpUnknown" for op
      using r that by (auto simp: reset_slots split: option.split)
    then have "zget 0 (fold count_task ts ?m) op = in_class ts op + snd h op" "map_of (fold count_task ts ?m) op \<noteq> None"
      if "op \<noteq> OpUnknown" for op
      using that count_tasks(1) [where op = op and ts = ts and m = ?m]
        count_tasks(2) [where op = op and ts = ts and m = ?m] by (simp_all add: zget_Some)
    with Scan r show ?thesis by (auto simp: represents_def RecordInFlight_def in_class_def simp del: not_None_eq)
  qed
qed

lemma represents_run:
  "represents cfg c h \<Longrightarrow> disciplined cfg xs h \<Longrightarrow> represents cfg (fold code_step xs c) (fold (spec_step cfg) xs h)"
proof (induction xs arbitrary: c h)
  case (Cons x xs)
  then have "represents cfg (code_step x c) (spec_step cfg x h)" by (intro represents_step) simp_all
  with Cons show ?case by simp
qed simp

lemma background_bound:
  "\<forall>op. snd h op \<le> max 0 (maxFor op (NewController cfg)) \<Longrightarrow> disciplined cfg xs h \<Longrightarrow> represents cfg c h \<Longrightarrow>
   \<forall>op. op \<noteq> OpUnknown \<longrightarrow> snd (fold (spec_step cfg) xs h) op \<le> max 0 (maxFor op (NewController cfg))"
proof (induction xs arbitrary: c h)
  case (Cons x xs)
  have "represents cfg (code_step x c) (spec_step cfg x h)" using represents_step Cons.prems by simp
  moreover have "\<forall>op. snd (spec_step cfg x h) op \<le> max 0 (maxFor op (NewController cfg))"
  proof
    fix op
    have "0 \<le> fst h op'" if "op' \<noteq> OpUnknown" for op' using Cons.prems(3) that by (simp add: represents_def)
    moreover have "snd h op \<le> max 0 (maxFor op (NewController cfg))" using Cons.prems(1) by blast
    ultimately show "snd (spec_step cfg x h) op \<le> max 0 (maxFor op (NewController cfg))"
      by (cases x) (force simp: grants_def)+
  qed
  ultimately show ?case using Cons.IH Cons.prems(2) by simp
qed simp

section \<open>Properties\<close>

abbreviation idle :: holders where
  "idle \<equiv> (\<lambda>_. 0, \<lambda>_. 0)"

text \<open>
  C33. The controller accounts for every slot. After any sequence of scans, dispatches, undone dispatches and background
  jobs in which only held slots are given back, the count of a kind is the number of its dispatched
  tasks plus the number of its background jobs, a request is granted just when that is below the limit, and background
  jobs alone never exceed the limit, although a scan that finds many tasks in progress may.
\<close>

theorem admission_accounts:
  assumes "disciplined cfg xs idle" and "op \<noteq> OpUnknown"
  shows "let c = fold code_step xs (NewController cfg); h = fold (spec_step cfg) xs idle;
             limit = maxFor op (NewController cfg) in
    ActiveCount op c = fst h op + snd h op \<and> 0 \<le> fst h op \<and> 0 \<le> snd h op \<and> snd h op \<le> max 0 limit
    \<and> (fst (TryAcquire op c) \<longleftrightarrow> fst h op + snd h op < limit)
    \<and> (fst (TryAcquireBackground op c) \<longleftrightarrow> fst h op + snd h op < limit)"
proof -
  let ?c = "fold code_step xs (NewController cfg)" and ?h = "fold (spec_step cfg) xs idle"
  have keys: "k = OpVerify \<or> k = OpRepair" if "k \<noteq> OpUnknown" for k using that by (cases k) auto
  have start: "represents cfg (NewController cfg) idle"
    using keys by (auto simp: represents_def NewController_def zget_def)
  note r = represents_run [OF start assms(1)]
  have "0 \<le> fst ?h op" "0 \<le> snd ?h op" "zget 0 (slots ?c) op = fst ?h op + snd ?h op"
    using r assms(2) by (simp_all add: represents_def)
  moreover have "snd ?h op \<le> max 0 (maxFor op (NewController cfg))"
    using background_bound [OF _ assms(1) start] assms(2) by simp
  ultimately show ?thesis
    using assms(2) represents_limit [OF r, of op]
    by (auto simp: Let_def ActiveCount_def TryAcquire_def TryAcquireBackground_def)
qed

lemma admission_accounts_witness:
  "let cfg = \<lparr>MaxConcurrentVerify = 1, MaxConcurrentRepair = 0\<rparr>;
       busy = (zero_Task ''t'' StatusInProgress)\<lparr>tk_OperationType := ''verify''\<rparr>;
       c = fold code_step [Scan [busy, busy], StartBackground OpVerify, Scan [], StartBackground OpVerify] (NewController cfg) in
   ActiveCount OpVerify c = 1 \<and> \<not> fst (TryAcquire OpVerify c)"
proof -
  define cfg where "cfg = \<lparr>MaxConcurrentVerify = 1, MaxConcurrentRepair = 0\<rparr>"
  define busy where "busy = (zero_Task ''t'' StatusInProgress)\<lparr>tk_OperationType := ''verify''\<rparr>"
  let ?xs = "[Scan [busy, busy], StartBackground OpVerify, Scan [], StartBackground OpVerify]"
  have d: "disciplined cfg ?xs idle" by simp
  have "in_class [busy, busy] OpVerify = 2" by (simp add: in_class_def ClassifyTask_def busy_def)
  then have "fold (spec_step cfg) ?xs idle = (in_class [], (\<lambda>_. 0)(OpVerify := 1))"
    by (simp add: grants_def maxFor_def NewController_def EffectiveMaxConcurrentVerify_def effectiveNonZero_def cfg_def
        in_class_def)
  with admission_accounts [OF d, of OpVerify] show ?thesis
    unfolding Let_def cfg_def [symmetric] busy_def [symmetric]
    by (simp add: in_class_def maxFor_def NewController_def EffectiveMaxConcurrentVerify_def effectiveNonZero_def cfg_def)
qed

end
