(* ===== verification/Paths.thy ===== *)
theory Paths imports Base_Name Queue_Model "HOL-Library.Sublist" begin

text \<open>
  Expected paths (\<open>internal/pathutil\<close>) and the path-overlap check of the scheduler
  (\<open>internal/daemon/path_overlap.go\<close>), over \<open>path.Clean\<close> and \<open>path.Base\<close> of the Go library on strings
  of bytes. \<open>filepath.Clean\<close> and \<open>filepath.ToSlash\<close> are \<open>path.Clean\<close> and the identity where
  the separator is the slash; \<open>strings.TrimSpace\<close> is modelled on ASCII white space.
\<close>

section \<open>Paths of the Go library\<close>

text \<open>\<open>strings.Split(s, "/")\<close>.\<close>

fun split_slash :: "string \<Rightarrow> string list" where
  "split_slash [] = [[]]"
| "split_slash (c # s) =
     (if c = CHR ''/'' then [] # split_slash s
      else case split_slash s of [] \<Rightarrow> [[c]] | x # xs \<Rightarrow> (c # x) # xs)"

text \<open>The elements that remain, given those kept so far, the last one first.\<close>

fun clean_elems :: "bool \<Rightarrow> string list \<Rightarrow> string list \<Rightarrow> string list" where
  "clean_elems rooted kept [] = rev kept"
| "clean_elems rooted kept (e # es) =
     (if e = [] \<or> e = ''.'' then clean_elems rooted kept es
      else if e = ''..''
      then (case kept of
              [] \<Rightarrow> clean_elems rooted (if rooted then [] else [''..'']) es
            | k # ks \<Rightarrow> if k = ''..'' then clean_elems rooted (''..'' # kept) es else clean_elems rooted ks es)
      else clean_elems rooted (e # kept) es)"

fun join_slash :: "string list \<Rightarrow> string" where
  "join_slash [] = []"
| "join_slash [e] = e"
| "join_slash (e # es) = e @ CHR ''/'' # join_slash es"

definition rooted :: "string \<Rightarrow> bool" where
  "rooted p = (p \<noteq> [] \<and> hd p = CHR ''/'')"

definition elems :: "string \<Rightarrow> string list" where
  "elems p = clean_elems (rooted p) [] (split_slash p)"

definition path_Clean :: "string \<Rightarrow> string" where
  "path_Clean p =
     (if rooted p then CHR ''/'' # join_slash (elems p)
      else if elems p = [] then ''.'' else join_slash (elems p))"

definition TrimSuffix_slash :: "string \<Rightarrow> string" where
  "TrimSuffix_slash p = (if p \<noteq> [] \<and> last p = CHR ''/'' then butlast p else p)"

definition is_space :: "char \<Rightarrow> bool" where
  "is_space c = (c \<in> {CHR 0x09, CHR 0x0A, CHR 0x0B, CHR 0x0C, CHR 0x0D, CHR 0x20})"

definition TrimSpace :: "string \<Rightarrow> string" where
  "TrimSpace s = rev (dropWhile is_space (rev (dropWhile is_space s)))"

section \<open>Expected paths\<close>

definition NormalizePath :: "string \<Rightarrow> string" where
  "NormalizePath p = (let cleaned = path_Clean (TrimSuffix_slash p) in if cleaned = ''.'' then [] else cleaned)"

definition IsDescendant :: "string \<Rightarrow> string \<Rightarrow> bool" where
  "IsDescendant child dir = has_prefix child (dir @ ''/'')"

definition dependencyManifestBasenames :: "string list" where
  "dependencyManifestBasenames =
     [''package.json'', ''package-lock.json'', ''npm-shrinkwrap.json'', ''yarn.lock'', ''pnpm-lock.yaml'',
      ''go.mod'', ''go.sum'', ''Cargo.toml'', ''Cargo.lock'',
      ''pyproject.toml'', ''uv.lock'', ''poetry.lock'', ''Pipfile'', ''Pipfile.lock'', ''requirements.txt'',
      ''Gemfile'', ''Gemfile.lock'', ''composer.json'', ''composer.lock'', ''mix.exs'', ''mix.lock'']"

definition IsDependencyManifest :: "string \<Rightarrow> bool" where
  "IsDependencyManifest file = (filepath_Base file \<in> set dependencyManifestBasenames)"

fun allowed_by :: "string \<Rightarrow> string list \<Rightarrow> bool" where
  "allowed_by file [] = False"
| "allowed_by file (exp0 # exps) =
     (let exp1 = path_Clean (TrimSpace exp0) in
      if exp1 = [] then allowed_by file exps
      else if exp1 = ''.'' then True
      else (let exp2 = TrimSuffix_slash exp1 in
            if file = exp2 \<or> has_prefix file (exp2 @ ''/'') then True else allowed_by file exps))"

definition AllowedByExpectedPaths :: "string \<Rightarrow> string list \<Rightarrow> bool" where
  "AllowedByExpectedPaths file0 expectedPaths =
     (let file = path_Clean (TrimSpace file0) in
      if IsDependencyManifest file then True else allowed_by file expectedPaths)"

section \<open>The overlap check\<close>

definition SentinelUnknownPaths :: string where
  "SentinelUnknownPaths = ''<unknown-paths>''"

definition HasPathOverlap :: "string \<Rightarrow> string \<Rightarrow> bool" where
  "HasPathOverlap a b =
     (if a = SentinelUnknownPaths \<or> b = SentinelUnknownPaths then True
      else if a = [] \<or> b = [] then False
      else (let ca = NormalizePath a; cb = NormalizePath b in
        if ca = [] \<or> cb = [] then False
        else if ca = cb then True
        else IsDescendant cb ca \<or> IsDescendant ca cb))"

record inFlightPathEntry =
  if_TaskID :: string
  if_ExpectedPaths :: "string list"
  if_ABGroupID :: string

text \<open>One entry for each task of one queue that is in progress with a live lease.\<close>

definition in_flight_entry :: "Task \<Rightarrow> inFlightPathEntry" where
  "in_flight_entry task =
     \<lparr>if_TaskID = q_ID task,
      if_ExpectedPaths = (if tk_ExpectedPaths task = [] then [SentinelUnknownPaths] else tk_ExpectedPaths task),
      if_ABGroupID = tk_ABGroupID task\<rparr>"

definition collectInFlightPaths ::
  "('q \<times> Task list) list \<Rightarrow> (stamp option \<Rightarrow> bool) \<Rightarrow> inFlightPathEntry list" where
  "collectInFlightPaths taskQueues isExpired =
     concat (map (\<lambda>(_, tasks).
        map in_flight_entry
          (filter (\<lambda>t. q_Status t = StatusInProgress \<and> \<not> isExpired (q_LeaseExpiresAt t)) tasks))
       taskQueues)"

text \<open>The conflict found: the task id, the candidate's path and the path in flight.\<close>

definition first_pair :: "string list \<Rightarrow> string list \<Rightarrow> (string \<times> string) option" where
  "first_pair cps ips = find (\<lambda>(cp, ip). HasPathOverlap cp ip) (List.product cps ips)"

fun find_overlap :: "Task \<Rightarrow> inFlightPathEntry list \<Rightarrow> (string \<times> string \<times> string) option" where
  "find_overlap candidate [] = None"
| "find_overlap candidate (entry # rest) =
     (if tk_ABGroupID candidate \<noteq> [] \<and> if_ABGroupID entry = tk_ABGroupID candidate
      then find_overlap candidate rest
      else case first_pair (tk_ExpectedPaths candidate) (if_ExpectedPaths entry) of
        Some (cp, ip) \<Rightarrow> Some (if_TaskID entry, cp, ip)
      | None \<Rightarrow> find_overlap candidate rest)"

definition findOverlappingTask :: "Task \<Rightarrow> inFlightPathEntry list \<Rightarrow> (string \<times> string \<times> string) option" where
  "findOverlappingTask candidate inFlight =
     (if tk_ExpectedPaths candidate = []
      then (case inFlight of
              [] \<Rightarrow> None
            | entry # _ \<Rightarrow> Some (if_TaskID entry, SentinelUnknownPaths,
                case if_ExpectedPaths entry of [] \<Rightarrow> [] | ip # _ \<Rightarrow> ip))
      else find_overlap candidate inFlight)"

section \<open>Splitting and joining\<close>

abbreviation slash_free :: "string \<Rightarrow> bool" where
  "slash_free e \<equiv> CHR ''/'' \<notin> set e"

lemma split_slash_not_Nil [simp]: "split_slash s \<noteq> []"
  by (cases s) (auto split: list.split)

lemma split_slash_free: "e \<in> set (split_slash s) \<Longrightarrow> slash_free e"
proof (induction s arbitrary: e)
  case (Cons c s)
  obtain x xs where x: "split_slash s = x # xs" by (cases "split_slash s") auto
  then have "slash_free x" "\<And>e. e \<in> set xs \<Longrightarrow> slash_free e" using Cons.IH by auto
  with Cons.prems x show ?case by (cases "c = CHR ''/''") auto
qed simp

lemma split_slash_single: "slash_free e \<Longrightarrow> split_slash e = [e]"
  by (induction e) auto

lemma split_slash_append: "split_slash (x @ CHR ''/'' # y) = split_slash x @ split_slash y"
proof (induction x)
  case (Cons c x)
  obtain z zs where "split_slash x = z # zs" by (cases "split_slash x") auto
  with Cons show ?case by auto
qed simp

lemma split_join: "es \<noteq> [] \<Longrightarrow> \<forall>e \<in> set es. slash_free e \<Longrightarrow> split_slash (join_slash es) = es"
  by (induction es rule: join_slash.induct) (auto simp: split_slash_single split_slash_append)

lemma join_append: "ds \<noteq> [] \<Longrightarrow> es \<noteq> [] \<Longrightarrow> join_slash (ds @ es) = join_slash ds @ CHR ''/'' # join_slash es"
proof (induction ds rule: join_slash.induct)
  case (2 e)
  then show ?case by (cases es) auto
qed auto

text \<open>The elements of a clean path: separator-free, not empty, and no dot.\<close>

definition element :: "string \<Rightarrow> bool" where
  "element e = (slash_free e \<and> e \<noteq> [] \<and> e \<noteq> ''.'')"

lemma clean_elems_element:
  "\<forall>e \<in> set kept. element e \<Longrightarrow> \<forall>e \<in> set es. slash_free e \<Longrightarrow> \<forall>e \<in> set (clean_elems r kept es). element e"
proof (induction es arbitrary: kept)
  case (Cons e es)
  have ih: "\<forall>x \<in> set (clean_elems r k es). element x" if "\<forall>x \<in> set k. element x" for k
    using Cons that by simp
  have dd: "element ''..''" by (simp add: element_def)
  have e: "e \<noteq> [] \<Longrightarrow> e \<noteq> ''.'' \<Longrightarrow> element e" using Cons.prems(2) by (simp add: element_def)
  note kept = Cons.prems(1)
  consider "e = [] \<or> e = ''.''" | "e \<noteq> []" "e \<noteq> ''.''" "e = ''..''" | "e \<noteq> []" "e \<noteq> ''.''" "e \<noteq> ''..''" by blast
  then show ?case
  proof cases
    case 1
    then show ?thesis using ih [OF Cons.prems(1)] by auto
  next
    case 2
    show ?thesis
    proof (cases kept)
      case Nil
      then show ?thesis using 2 ih [of "[]"] ih [of "[''..'']"] dd by auto
    next
      case (Cons k ks)
      have "\<forall>x \<in> set ks. element x" "\<forall>x \<in> set (''..'' # k # ks). element x"
        using Cons dd kept by simp_all
      from ih [OF this(1)] ih [OF this(2)] show ?thesis using 2 Cons by simp
    qed
  next
    case 3
    have "\<forall>x \<in> set (e # kept). element x" using e [OF 3(1,2)] kept by simp
    from ih [OF this] show ?thesis using 3 by simp
  qed
qed auto

lemma elems_element: "e \<in> set (elems p) \<Longrightarrow> element e"
  unfolding elems_def using clean_elems_element [of "[]" "split_slash p" "rooted p"] split_slash_free by auto

lemma elems_slash_free: "\<forall>e \<in> set (elems p). slash_free e"
  using elems_element by (auto simp: element_def)

lemma join_slash_eq:
  assumes "\<forall>e \<in> set cs. element e" "\<forall>e \<in> set ds. element e"
  shows "join_slash cs = join_slash ds \<longleftrightarrow> cs = ds"
proof -
  have ne: "join_slash es \<noteq> []" if "es \<noteq> []" "\<forall>e \<in> set es. element e" for es
    using that by (induction es rule: join_slash.induct) (auto simp: element_def)
  show ?thesis
  proof (cases "cs = [] \<or> ds = []")
    case True
    then show ?thesis using ne [of cs] ne [of ds] assms by (cases cs; cases ds) auto
  next
    case False
    then have "split_slash (join_slash cs) = cs" "split_slash (join_slash ds) = ds"
      using assms by (auto simp: element_def intro!: split_join)
    then show ?thesis by metis
  qed
qed

lemma join_slash_head:
  assumes "es \<noteq> []" "\<forall>e \<in> set es. element e"
  shows "join_slash es \<noteq> []" "\<not> rooted (join_slash es)" "join_slash es \<noteq> ''.''"
proof -
  obtain e rest where e: "es = e # rest" using assms(1) by (cases es) auto
  obtain c cs where c: "e = c # cs" "c \<noteq> CHR ''/''" using assms(2) e by (cases e) (auto simp: element_def)
  have j: "join_slash es = e @ (if rest = [] then [] else CHR ''/'' # join_slash rest)"
    using e by (cases rest) auto
  show "join_slash es \<noteq> []" "\<not> rooted (join_slash es)" using j c by (auto simp: rooted_def)
  show "join_slash es \<noteq> ''.''"
  proof
    assume d: "join_slash es = ''.''"
    then have "rest = []" using j c by (cases "rest = []") auto
    then show False using j d assms(2) e by (simp add: element_def)
  qed
qed

lemma has_prefix_join:
  assumes "ds \<noteq> []" and "\<forall>e \<in> set cs. slash_free e" "\<forall>e \<in> set ds. slash_free e"
  shows "has_prefix (join_slash cs) (join_slash ds @ ''/'') \<longleftrightarrow> strict_prefix ds cs"
proof
  assume "has_prefix (join_slash cs) (join_slash ds @ ''/'')"
  then obtain y where y: "join_slash cs = join_slash ds @ CHR ''/'' # y" by (auto simp: has_prefix_iff)
  then have "cs \<noteq> []" by auto
  then have "cs = split_slash (join_slash ds @ CHR ''/'' # y)" using split_join assms(2) y by metis
  also have "\<dots> = ds @ split_slash y" using split_join [OF assms(1,3)] by (simp add: split_slash_append)
  finally show "strict_prefix ds cs" using split_slash_not_Nil by (auto simp: strict_prefix_def)
next
  assume "strict_prefix ds cs"
  then obtain es where "cs = ds @ es" "es \<noteq> []" by (auto simp: strict_prefix_def prefix_def)
  then show "has_prefix (join_slash cs) (join_slash ds @ ''/'')"
    using join_append [OF assms(1)] by (auto simp: has_prefix_iff)
qed

section \<open>Clean paths\<close>

text \<open>A trailing separator makes no difference to the elements, and only the root loses its own.\<close>

lemma clean_elems_snoc: "clean_elems r kept (es @ [[]]) = clean_elems r kept es"
  by (induction r kept es rule: clean_elems.induct) (auto split: list.split)

lemma elems_Trim: "p \<noteq> ''/'' \<Longrightarrow> elems (TrimSuffix_slash p) = elems p \<and> rooted (TrimSuffix_slash p) = rooted p"
proof (cases "p \<noteq> [] \<and> last p = CHR ''/''")
  case True
  then obtain q where q: "p = q @ [CHR ''/'']" by (metis append_butlast_last_id)
  assume "p \<noteq> ''/''"
  then have "q \<noteq> []" using q by auto
  then have "rooted q = rooted p" by (simp add: q rooted_def)
  moreover have "split_slash p = split_slash q @ [[]]" using split_slash_append [of q "[]"] by (simp add: q)
  ultimately show ?thesis using q by (simp add: elems_def TrimSuffix_slash_def clean_elems_snoc)
qed (auto simp: TrimSuffix_slash_def)

lemma NormalizePath_elems:
  assumes "p \<noteq> ''/''"
  shows "NormalizePath p = (if rooted p then CHR ''/'' # join_slash (elems p) else join_slash (elems p))"
proof -
  have "CHR ''/'' # join_slash es \<noteq> ''.''" for es by simp
  then show ?thesis
    using elems_Trim [OF assms] join_slash_head [of "elems p"] elems_element
    by (auto simp: NormalizePath_def path_Clean_def)
qed

lemma Normalize_no_elems: "elems p = [] \<Longrightarrow> NormalizePath p = [] \<or> NormalizePath p = ''/''"
  using NormalizePath_elems [of p]
  by (cases "p = ''/''") (auto simp: NormalizePath_def path_Clean_def TrimSuffix_slash_def elems_def rooted_def)

lemma Normalize_some_elems:
  assumes "elems p \<noteq> []"
  shows "NormalizePath p = (if rooted p then ''/'' else []) @ join_slash (elems p)" and "NormalizePath p \<noteq> []"
    and "p \<noteq> []"
proof -
  have "p \<noteq> ''/''" "p \<noteq> []" using assms by (auto simp: elems_def rooted_def)
  then show "NormalizePath p = (if rooted p then ''/'' else []) @ join_slash (elems p)" "p \<noteq> []"
    using NormalizePath_elems by auto
  then show "NormalizePath p \<noteq> []" using join_slash_head(1) [OF assms] elems_element by auto
qed

lemma rooted_has_prefix: "rooted p \<noteq> rooted q \<Longrightarrow> q \<noteq> [] \<Longrightarrow> \<not> has_prefix p (q @ r)"
  by (cases q; cases p) (auto simp: rooted_def has_prefix_def)

lemma descendant_elems:
  assumes "elems a \<noteq> []" and "elems b \<noteq> []"
  shows "IsDescendant (NormalizePath a) (NormalizePath b) \<longleftrightarrow> rooted a = rooted b \<and> strict_prefix (elems b) (elems a)"
proof (cases "rooted a = rooted b")
  case True
  then show ?thesis
    using has_prefix_join [OF assms(2) elems_slash_free elems_slash_free, of a]
    by (auto simp: IsDescendant_def Normalize_some_elems(1) [OF assms(1)] Normalize_some_elems(1) [OF assms(2)]
        has_prefix_def)
next
  case False
  have r: "rooted (NormalizePath p) = rooted p" if "elems p \<noteq> []" for p
    using Normalize_some_elems(1) [OF that] join_slash_head(2) [OF that] elems_element by (auto simp: rooted_def)
  show ?thesis
    using False rooted_has_prefix [of "NormalizePath a" "NormalizePath b" "''/''"] r [OF assms(1)] r [OF assms(2)]
      Normalize_some_elems(2) [OF assms(2)] by (auto simp: IsDescendant_def)
qed

lemma normal_eq_elems:
  assumes "elems a \<noteq> []" and "elems b \<noteq> []"
  shows "NormalizePath a = NormalizePath b \<longleftrightarrow> rooted a = rooted b \<and> elems a = elems b"
proof -
  have "join_slash (elems a) = join_slash (elems b) \<longleftrightarrow> elems a = elems b"
    by (rule join_slash_eq) (use elems_element in blast)+
  moreover have "''/'' @ x \<noteq> join_slash (elems p)" if "elems p \<noteq> []" for p x
  proof
    assume "''/'' @ x = join_slash (elems p)"
    then have "rooted (join_slash (elems p))" by (metis append_Cons list.discI list.sel(1) rooted_def)
    then show False using join_slash_head(2) [OF that] elems_element by blast
  qed
  ultimately show ?thesis
    using assms Normalize_some_elems(1) [OF assms(1)] Normalize_some_elems(1) [OF assms(2)] by auto metis+
qed

lemma root_overlap:
  assumes "elems a = []"
  shows "NormalizePath a \<noteq> [] \<and> NormalizePath b \<noteq> []
      \<and> (NormalizePath a = NormalizePath b \<or> IsDescendant (NormalizePath b) (NormalizePath a)
         \<or> IsDescendant (NormalizePath a) (NormalizePath b))
    \<longleftrightarrow> NormalizePath a = ''/'' \<and> NormalizePath b = ''/''"
proof -
  have "\<not> IsDescendant ''/'' q" if "q \<noteq> []" for q
    using that by (cases q) (auto simp: IsDescendant_def has_prefix_def)
  moreover have "\<not> IsDescendant (NormalizePath b) ''/''"
  proof (cases "elems b = []")
    case True
    then show ?thesis using Normalize_no_elems [OF True] by (auto simp: IsDescendant_def has_prefix_def)
  next
    case False
    have "\<not> rooted (join_slash (elems b))" "join_slash (elems b) \<noteq> []"
      using join_slash_head [OF False] elems_element by blast+
    then show ?thesis
      by (cases "join_slash (elems b)")
        (auto simp: IsDescendant_def has_prefix_def Normalize_some_elems(1) [OF False] rooted_def)
  qed
  ultimately show ?thesis using Normalize_no_elems [OF assms] by auto
qed

lemma overlap_elems:
  "HasPathOverlap a b \<longleftrightarrow> a = SentinelUnknownPaths \<or> b = SentinelUnknownPaths \<or>
     (if elems a = [] \<or> elems b = [] then NormalizePath a = ''/'' \<and> NormalizePath b = ''/''
      else rooted a = rooted b \<and> (prefix (elems a) (elems b) \<or> prefix (elems b) (elems a)))"
proof -
  let ?na = "NormalizePath a" and ?nb = "NormalizePath b"
  have e: "NormalizePath [] = []"
    by (simp add: NormalizePath_def path_Clean_def TrimSuffix_slash_def elems_def rooted_def)
  have body: "HasPathOverlap a b \<longleftrightarrow> a = SentinelUnknownPaths \<or> b = SentinelUnknownPaths \<or>
      ?na \<noteq> [] \<and> ?nb \<noteq> [] \<and> (?na = ?nb \<or> IsDescendant ?nb ?na \<or> IsDescendant ?na ?nb)"
    using e by (auto simp: HasPathOverlap_def Let_def)
  consider "elems a = []" | "elems b = []" | "elems a \<noteq> []" "elems b \<noteq> []" by blast
  then show ?thesis
  proof cases
    case 1
    then show ?thesis using body root_overlap [OF 1, of b] by simp
  next
    case 2
    then show ?thesis using body root_overlap [OF 2, of a] by auto
  next
    case 3
    have "?na = ?nb \<or> IsDescendant ?nb ?na \<or> IsDescendant ?na ?nb \<longleftrightarrow>
        rooted a = rooted b \<and> (prefix (elems a) (elems b) \<or> prefix (elems b) (elems a))"
      unfolding descendant_elems [OF 3] descendant_elems [OF 3(2,1)] normal_eq_elems [OF 3] strict_prefix_def by auto
    then show ?thesis
      unfolding body using 3 Normalize_some_elems(2) [OF 3(1)] Normalize_some_elems(2) [OF 3(2)] by simp
  qed
qed

section \<open>What an expected path admits\<close>

text \<open>An expected path with no elements is the project root; any other admits itself and its subtree.\<close>

definition covers :: "string \<Rightarrow> string \<Rightarrow> bool" where
  "covers e f = (\<not> rooted e \<and> elems e = [] \<or> rooted e = rooted f \<and> prefix (elems e) (elems f))"

lemma Clean_some: "elems p \<noteq> [] \<Longrightarrow> path_Clean p = NormalizePath p"
  by (simp add: Normalize_some_elems(1) path_Clean_def)

lemma Clean_none: "elems p = [] \<Longrightarrow> path_Clean p = (if rooted p then ''/'' else ''.'')"
  by (simp add: path_Clean_def)

lemma last_join: "es \<noteq> [] \<Longrightarrow> \<forall>e \<in> set es. element e \<Longrightarrow> last (join_slash es) \<noteq> CHR ''/''"
proof (induction es rule: join_slash.induct)
  case (2 e)
  then have "last e \<in> set e" "slash_free e" by (auto simp: element_def)
  then show ?case by auto
next
  case (3 e e' es)
  then show ?case using join_slash_head(1) [of "e' # es"] by auto
qed simp

lemma Trim_Clean: "TrimSuffix_slash (path_Clean p) = (if rooted p \<and> elems p = [] then [] else path_Clean p)"
proof (cases "elems p = []")
  case False
  then have "last (path_Clean p) \<noteq> CHR ''/''"
    using last_join [OF False] join_slash_head(1) [OF False] elems_element by (auto simp: path_Clean_def)
  with False show ?thesis by (simp add: TrimSuffix_slash_def)
qed (auto simp: Clean_none TrimSuffix_slash_def)

lemma Clean_dot: "path_Clean p = ''.'' \<longleftrightarrow> \<not> rooted p \<and> elems p = []"
  using join_slash_head(3) [of "elems p"] elems_element by (auto simp: path_Clean_def)

lemma Clean_not_Nil [simp]: "path_Clean p \<noteq> []"
  using join_slash_head(1) [of "elems p"] elems_element by (auto simp: path_Clean_def)

lemma rooted_Clean [simp]: "rooted (path_Clean p) = rooted p"
  using join_slash_head(2) [of "elems p"] elems_element by (auto simp: path_Clean_def rooted_def)

lemma admits_elems:
  assumes "path_Clean e \<noteq> ''.''"
  shows "(let e' = TrimSuffix_slash (path_Clean e) in
      path_Clean f = e' \<or> has_prefix (path_Clean f) (e' @ ''/'')) \<longleftrightarrow>
    rooted e = rooted f \<and> prefix (elems e) (elems f)"
proof (cases "elems e = []")
  case True
  then have "rooted e" using assms by (simp add: Clean_dot)
  moreover have "has_prefix p ''/'' \<longleftrightarrow> rooted p" for p by (cases p) (auto simp: has_prefix_def rooted_def)
  ultimately show ?thesis using True by (auto simp: Trim_Clean)
next
  case e: False
  show ?thesis
  proof (cases "elems f = []")
    case True
    have "length (path_Clean f) = 1" using True by (simp add: Clean_none)
    moreover have "length (path_Clean e) \<ge> 1" by (cases "path_Clean e") auto
    ultimately have "\<not> has_prefix (path_Clean f) (path_Clean e @ ''/'')"
      by (auto simp: has_prefix_iff dest: arg_cong [of _ _ length])
    moreover have "path_Clean f \<noteq> path_Clean e"
    proof
      assume eq: "path_Clean f = path_Clean e"
      then have "rooted f" using True assms by (cases "rooted f") (simp_all add: Clean_none)
      then have "path_Clean e = ''/''" using eq True by (simp add: Clean_none)
      then show False
        using e join_slash_head(1,2) [OF e] elems_element by (auto simp: path_Clean_def rooted_def split: if_splits)
    qed
    ultimately show ?thesis using e True by (auto simp: Trim_Clean)
  next
    case False
    have eq: "path_Clean f = path_Clean e \<longleftrightarrow> rooted f = rooted e \<and> elems f = elems e"
      using normal_eq_elems [OF False e] by (simp add: Clean_some e False)
    have sub: "has_prefix (path_Clean f) (path_Clean e @ ''/'') \<longleftrightarrow>
        rooted f = rooted e \<and> strict_prefix (elems e) (elems f)"
      using descendant_elems [OF False e] by (simp add: Clean_some e False IsDescendant_def)
    have "TrimSuffix_slash (path_Clean e) = path_Clean e" using e by (simp add: Trim_Clean)
    then show ?thesis unfolding Let_def by (simp only: eq sub strict_prefix_def) auto
  qed
qed

lemma allowed_by_covers: "allowed_by (path_Clean f) exps \<longleftrightarrow> (\<exists>e \<in> set exps. covers (TrimSpace e) f)"
proof (induction exps)
  case (Cons e exps)
  show ?case
  proof (cases "path_Clean (TrimSpace e) = ''.''")
    case True
    then show ?thesis by (simp add: Clean_dot covers_def)
  next
    case False
    have "covers (TrimSpace e) f \<longleftrightarrow> rooted (TrimSpace e) = rooted f \<and> prefix (elems (TrimSpace e)) (elems f)"
      using False by (auto simp: Clean_dot covers_def)
    with Cons False admits_elems [OF False, of f] show ?thesis by (simp add: Let_def)
  qed
qed simp

section \<open>Properties\<close>

text \<open>
  What the scheduler calls an overlap. Apart from the sentinel for unknown paths, two expected paths overlap
  exactly when both are absolute or both relative and, cleaned and cut at the separators, one lists a prefix
  of the other's elements. A path that cleans to no elements, such as the current directory, overlaps nothing (two
  spellings of the root that keep their slash excepted).
\<close>

theorem path_overlap_iff:
  "HasPathOverlap a b \<longleftrightarrow> a = SentinelUnknownPaths \<or> b = SentinelUnknownPaths \<or>
     (if elems a = [] \<or> elems b = [] then NormalizePath a = ''/'' \<and> NormalizePath b = ''/''
      else rooted a = rooted b \<and> (prefix (elems a) (elems b) \<or> prefix (elems b) (elems a)))"
  by (rule overlap_elems)

text \<open>
  What a declaration of expected paths admits: dependency manifests, and the files below, or equal to, one of the
  declared paths, element by element. A declared path with no elements admits every file; that
  includes the empty string, which the skip for empty entries does not catch because the cleaned path is
  never empty.
\<close>

theorem expected_paths_admit_iff:
  "AllowedByExpectedPaths file exps \<longleftrightarrow>
     IsDependencyManifest (path_Clean (TrimSpace file))
     \<or> (\<exists>e \<in> set exps. \<not> rooted (TrimSpace e) \<and> elems (TrimSpace e) = []
          \<or> rooted (TrimSpace e) = rooted (TrimSpace file) \<and> prefix (elems (TrimSpace e)) (elems (TrimSpace file)))"
  using allowed_by_covers [of "TrimSpace file" exps]
  by (auto simp: AllowedByExpectedPaths_def covers_def Let_def)

text \<open>
  The overlap check is strong enough for what tasks may touch: two declared paths without surrounding white space that
  admit a common file, dependency manifests aside, overlap, unless one of them has no elements.
\<close>

theorem common_file_overlaps:
  assumes "AllowedByExpectedPaths file [a]" and "AllowedByExpectedPaths file [b]"
    and "\<not> IsDependencyManifest (path_Clean (TrimSpace file))"
    and "TrimSpace a = a" and "TrimSpace b = b" and "elems a \<noteq> []" and "elems b \<noteq> []"
  shows "HasPathOverlap a b"
proof -
  have "covers a (TrimSpace file)" "covers b (TrimSpace file)"
    using assms(1-5) allowed_by_covers [of "TrimSpace file" "[a]"] allowed_by_covers [of "TrimSpace file" "[b]"]
    by (auto simp: AllowedByExpectedPaths_def Let_def)
  then have "rooted a = rooted b \<and> prefix (elems a) (elems (TrimSpace file))
      \<and> prefix (elems b) (elems (TrimSpace file))"
    using assms(6,7) by (auto simp: covers_def)
  then show ?thesis
    unfolding overlap_elems using assms(6,7) prefix_same_cases by (auto dest: prefix_same_cases)
qed

lemma common_file_overlaps_witness:
  "HasPathOverlap ''src/'' ''src/app''"
proof (rule common_file_overlaps [of "''src/app/x.go''"])
  show "AllowedByExpectedPaths ''src/app/x.go'' [''src/'']" "AllowedByExpectedPaths ''src/app/x.go'' [''src/app'']"
    "\<not> IsDependencyManifest (path_Clean (TrimSpace ''src/app/x.go''))"
    "TrimSpace ''src/'' = ''src/''" "TrimSpace ''src/app'' = ''src/app''" "elems ''src/'' \<noteq> []" "elems ''src/app'' \<noteq> []"
    by code_simp+
qed

text \<open>The current directory admits every file and overlaps with no declared path.\<close>

lemma whole_project_overlaps_nothing:
  "AllowedByExpectedPaths file [''.''] \<and> AllowedByExpectedPaths file [[]]
   \<and> (HasPathOverlap ''.'' b \<longleftrightarrow> b = SentinelUnknownPaths)"
proof -
  have "elems ''.'' = []" "elems [] = []" "\<not> rooted ''.''" "\<not> rooted []" "TrimSpace ''.'' = ''.''" "TrimSpace [] = []"
    "NormalizePath ''.'' = []" "''.'' \<noteq> SentinelUnknownPaths"
    by code_simp+
  then show ?thesis
    using allowed_by_covers [of "TrimSpace file" "[''.'']"] allowed_by_covers [of "TrimSpace file" "[[]]"]
    by (auto simp: AllowedByExpectedPaths_def covers_def Let_def overlap_elems)
qed

end
