(* ===== verification/Dispatch_Scan.thy ===== *)
theory Dispatch_Scan imports Resolver Dispatch_Order Lease Admission Paths Base_Name begin

text \<open>
  The dispatch half of a scan (\<open>internal/daemon/queue_scan_collect.go\<close>, \<open>ab_freeze.go\<close>,
  \<open>queue_scan_helpers.go\<close>, \<open>stepDispatchOrRecovery\<close>): which pending commands, tasks and notifications get a
  lease. Git probes of the worktree manager are arguments, and so is the merge gate. One instant stands for
  the clock readings of a scan. A queue file maps to its tasks; the order of the map is any. The owner cache and the cloning of slices only
  save work and aliasing, and are not modelled.
\<close>

section \<open>Workers\<close>

definition workerIDFromPath :: "string \<Rightarrow> string" where
  "workerIDFromPath path =
     (let base = filepath_Base path in
      if \<not> has_prefix base ''worker'' \<or> \<not> has_suffix base ''.yaml'' then []
      else take (length base - length ''.yaml'') base)"

type_synonym task_queues = "(string, Task list) gomap"

definition buildGlobalInFlightSet :: "int \<Rightarrow> task_queues \<Rightarrow> (string, bool) gomap" where
  "buildGlobalInFlightSet now taskQueues =
     fold (\<lambda>(queueFile, tasks) inFlight.
       let workerID = workerIDFromPath queueFile in
       if workerID = [] then inFlight
       else if \<exists>task \<in> set tasks. q_Status task = StatusInProgress \<and> \<not> IsLeaseExpired now (q_LeaseExpiresAt task)
       then AList.update workerID True inFlight
       else inFlight) taskQueues []"

definition hasExpiredLeases :: "int \<Rightarrow> task_queues \<Rightarrow> Command list \<Rightarrow> Notification list \<Rightarrow> bool" where
  "hasExpiredLeases now taskQueues cq nq =
     ((\<exists>cmd \<in> set cq. q_Status cmd = StatusInProgress \<and> IsLeaseExpired now (q_LeaseExpiresAt cmd))
      \<or> (\<exists>(_, tasks) \<in> set taskQueues. \<exists>task \<in> set tasks.
           q_Status task = StatusInProgress \<and> IsLeaseExpired now (q_LeaseExpiresAt task))
      \<or> (\<exists>ntf \<in> set nq. q_Status ntf = StatusInProgress \<and> IsLeaseExpired now (q_LeaseExpiresAt ntf)))"

text \<open>The purposes are keyed by the owner of the lease.\<close>

definition buildWorkerPurposes :: "task_queues \<Rightarrow> (string, string) gomap" where
  "buildWorkerPurposes taskQueues =
     fold (\<lambda>(_, tasks) m.
       fold (\<lambda>task m. case q_LeaseOwner task of
               None \<Rightarrow> m
             | Some owner \<Rightarrow> if owner \<noteq> [] \<and> tk_Purpose task \<noteq> [] then AList.update owner (tk_Purpose task) m else m)
         tasks m) taskQueues []"

section \<open>A/B freeze\<close>

record abRow =
  ar_worker :: string
  ar_task :: string
  ar_command :: string
  ar_group :: string

definition ab_rows :: "task_queues \<Rightarrow> abRow list" where
  "ab_rows taskQueues =
     concat (map (\<lambda>(queueFile, tasks).
       map (\<lambda>t. \<lparr>ar_worker = workerIDFromPath queueFile, ar_task = q_ID t, ar_command = tk_CommandID t,
                 ar_group = tk_ABGroupID t\<rparr>)
         (filter (\<lambda>t. tk_ABGroupID t \<noteq> []) tasks)) taskQueues)"

text \<open>The keys of the groups that are no longer open, for the commands whose state can be read.\<close>

definition resolved_groups :: "states \<Rightarrow> abRow list \<Rightarrow> string set" where
  "resolved_groups states rows =
     (\<Union>r \<in> set rows. case map_of states (ar_command r) of
        None \<Rightarrow> {}
      | Some cs \<Rightarrow> (\<lambda>(gid, _). ar_command r @ ''/'' @ gid) `
          set (filter (\<lambda>(gid, g). case g of None \<Rightarrow> False | Some gr \<Rightarrow> \<not> IsUnresolved (cg_Status gr)) (CandidateGroups cs)))"

definition computeABFreeze :: "states \<Rightarrow> task_queues \<Rightarrow> (string, string list) gomap" where
  "computeABFreeze states taskQueues =
     (let rows = ab_rows taskQueues; resolved = resolved_groups states rows in
      fold (\<lambda>r frozen.
        if ar_command r @ ''/'' @ ar_group r \<in> resolved then frozen
        else AList.update (ar_worker r) (ar_task r # zget [] frozen (ar_worker r)) frozen) rows [])"

section \<open>Unmerged dependencies\<close>

definition buildAllCommandTaskOwners :: "string \<Rightarrow> task_queues \<Rightarrow> (string, string) gomap" where
  "buildAllCommandTaskOwners commandID taskQueues =
     fold (\<lambda>(queueFile, tasks) owners.
       fold (\<lambda>t owners. if tk_CommandID t \<noteq> commandID then owners
                       else AList.update (q_ID t) (workerIDFromPath queueFile) owners) tasks owners)
       taskQueues []"

text \<open>The loop over the owners, each worker probed once.\<close>

fun unmerged_owners :: "(string \<Rightarrow> bool) \<Rightarrow> string \<Rightarrow> bool \<Rightarrow> string list \<Rightarrow> string list \<Rightarrow> string list" where
  "unmerged_owners aheadOrDirty dispatchingWorkerID includeSameWorker seen [] = []"
| "unmerged_owners aheadOrDirty dispatchingWorkerID includeSameWorker seen (depWorker # rest) =
     (if depWorker = [] \<or> (depWorker = dispatchingWorkerID \<and> \<not> includeSameWorker) \<or> depWorker \<in> set seen
      then unmerged_owners aheadOrDirty dispatchingWorkerID includeSameWorker seen rest
      else (if aheadOrDirty depWorker then [depWorker] else [])
             @ unmerged_owners aheadOrDirty dispatchingWorkerID includeSameWorker (depWorker # seen) rest)"

definition depWorkersAwaitingIntegrationMerge ::
  "(string \<Rightarrow> string \<Rightarrow> bool) \<Rightarrow> Task \<Rightarrow> task_queues \<Rightarrow> string \<Rightarrow> bool \<Rightarrow> string list" where
  "depWorkersAwaitingIntegrationMerge aheadOrDirty task allTaskQueues dispatchingWorkerID includeSameWorker =
     (let owners = buildAllCommandTaskOwners (tk_CommandID task) allTaskQueues in
      unmerged_owners (aheadOrDirty (tk_CommandID task)) dispatchingWorkerID includeSameWorker []
        (List.map_filter (map_of owners) (remdups (tk_BlockedBy task))))"

section \<open>Dispatching tasks\<close>

record dispatchItem =
  di_Kind :: string
  di_Command :: "Command option"
  di_Task :: "Task option"
  di_Notification :: "Notification option"
  di_WorkerID :: string
  di_Epoch :: int
  di_ExpiresAt :: "stamp option"
  di_Resume :: bool

record runOnIntegrationPreMergeItem =
  pm_CommandID :: string
  pm_BlockedTaskID :: string
  pm_DepWorkerIDs :: "string list"

text \<open>What a scan changes, and what it reads.\<close>

record scan =
  sc_commands :: "Command list"
  sc_tasks :: task_queues
  sc_notifications :: "Notification list"
  sc_states :: states
  sc_admission :: "Controller option"
  sc_inFlight :: "(string, bool) gomap"
  sc_dispatches :: "dispatchItem list"
  sc_preMerges :: "runOnIntegrationPreMergeItem list"

record scan_env =
  se_now :: int
  se_sessionLost :: bool
  se_owner :: string
  se_lease :: Manager
  se_priorityAgingSec :: int
  se_maxResume :: int
  se_gate :: merge_gate
  se_hasWorktrees :: "string \<Rightarrow> bool"
  se_aheadOrDirty :: "string \<Rightarrow> string \<Rightarrow> bool"

definition cooling_down :: "int \<Rightarrow> Task \<Rightarrow> bool" where
  "cooling_down now task =
     (case tk_NotBefore task of
        None \<Rightarrow> False
      | Some s \<Rightarrow> (case parse_stamp s of None \<Rightarrow> False | Some notBefore \<Rightarrow> now < notBefore))"

definition frozen_out :: "(string, string list) gomap \<Rightarrow> string \<Rightarrow> Task \<Rightarrow> bool" where
  "frozen_out abFreeze workerID task =
     (case map_of abFreeze workerID of None \<Rightarrow> False | Some allowed \<Rightarrow> q_ID task \<notin> set allowed)"

definition pending_merges :: "scan_env \<Rightarrow> string \<Rightarrow> Task \<Rightarrow> scan \<Rightarrow> string list" where
  "pending_merges env workerID task sc =
     (if se_hasWorktrees env (tk_CommandID task)
      then depWorkersAwaitingIntegrationMerge (se_aheadOrDirty env) task (sc_tasks sc) workerID
             (tk_RunOnIntegration task \<or> tk_RunOnMain task)
      else [])"

definition path_conflict :: "inFlightPathEntry list \<Rightarrow> Task \<Rightarrow> bool" where
  "path_conflict inFlightPaths task =
     (case findOverlappingTask task inFlightPaths of None \<Rightarrow> False | Some (conflictID, _, _) \<Rightarrow> conflictID \<noteq> [])"

text \<open>The checks before admission: whether the task passes, and the scan after them.\<close>

definition passes_gates ::
  "scan_env \<Rightarrow> string \<Rightarrow> inFlightPathEntry list \<Rightarrow> (string, string list) gomap \<Rightarrow> Task \<Rightarrow> scan \<Rightarrow> bool \<times> scan" where
  "passes_gates env workerID inFlightPaths abFreeze task sc =
     (if cooling_down (se_now env) task \<or> frozen_out abFreeze workerID task then (False, sc)
      else if IsTaskBlocked (se_gate env) (sc_states sc) task \<noteq> Inr False then (False, sc)
      else if pending_merges env workerID task sc \<noteq> []
      then (False, sc\<lparr>sc_preMerges := sc_preMerges sc @
              [\<lparr>pm_CommandID = tk_CommandID task, pm_BlockedTaskID = q_ID task,
                pm_DepWorkerIDs = pending_merges env workerID task sc\<rparr>]\<rparr>)
      else (case query (\<lambda>st. Inr (IsSystemCommitReady (q_ID task) st)) (tk_CommandID task) (sc_states sc) of
          Inl e \<Rightarrow> (False, sc)
        | Inr (isSysCommit, ready) \<Rightarrow>
            if isSysCommit \<and> \<not> ready then (False, sc)
            else (case markTaskReady (\<lambda>_. se_now env) task (sc_states sc) of
                (Inl e, states) \<Rightarrow> (False, sc\<lparr>sc_states := states\<rparr>)
              | (Inr _, states) \<Rightarrow> (\<not> path_conflict inFlightPaths task, sc\<lparr>sc_states := states\<rparr>))))"

definition admit :: "Task \<Rightarrow> scan \<Rightarrow> bool \<times> scan" where
  "admit task sc =
     (case sc_admission sc of
        None \<Rightarrow> (True, sc)
      | Some c \<Rightarrow> (case TryAcquire (ClassifyTask task) c of (ok, c') \<Rightarrow> (ok, sc\<lparr>sc_admission := Some c'\<rparr>)))"

definition unadmit :: "Task \<Rightarrow> scan \<Rightarrow> scan" where
  "unadmit task sc = sc\<lparr>sc_admission := map_option (Release (ClassifyTask task)) (sc_admission sc)\<rparr>"

text \<open>The attempt a dispatch is charged to: a resume uses its own budget while that lasts.\<close>

definition charge_dispatch :: "int \<Rightarrow> Task \<Rightarrow> Task \<times> bool" where
  "charge_dispatch maxResume task =
     (let resume = (tk_ResumeRequested task \<and> tk_ResumeAttempts task < maxResume);
          task1 = task\<lparr>tk_ResumeRequested := False\<rparr> in
      if resume then (task1\<lparr>tk_ResumeAttempts := tk_ResumeAttempts task + 1\<rparr>, True)
      else (task1\<lparr>q_Attempts := q_Attempts task + 1, tk_AttemptsChargedEpoch := q_LeaseEpoch task\<rparr>, False))"

definition take_lease :: "scan_env \<Rightarrow> string \<Rightarrow> string \<Rightarrow> nat \<Rightarrow> Task \<Rightarrow> scan \<Rightarrow> bool \<times> scan" where
  "take_lease env queueFile workerID idx task sc =
     (case AcquireTaskLease (se_lease env) (se_now env) (se_owner env) task of
        Inl e \<Rightarrow> (False, unadmit task sc)
      | Inr leased \<Rightarrow>
          (case charge_dispatch (se_maxResume env) leased of (charged, resume) \<Rightarrow>
            (True, sc\<lparr>sc_tasks := AList.update queueFile ((zget [] (sc_tasks sc) queueFile)[idx := charged]) (sc_tasks sc),
                      sc_states := snd (markTaskDispatched (\<lambda>_. se_now env) charged (sc_states sc)),
                      sc_dispatches := sc_dispatches sc @
                        [\<lparr>di_Kind = ''task'', di_Command = None, di_Task = Some charged, di_Notification = None,
                          di_WorkerID = workerID, di_Epoch = q_LeaseEpoch charged, di_ExpiresAt = q_LeaseExpiresAt charged,
                          di_Resume = resume\<rparr>],
                      sc_inFlight := AList.update workerID True (sc_inFlight sc)\<rparr>)))"

fun dispatch_first ::
  "scan_env \<Rightarrow> string \<Rightarrow> string \<Rightarrow> inFlightPathEntry list \<Rightarrow> (string, string list) gomap \<Rightarrow> nat list \<Rightarrow> scan \<Rightarrow> bool \<times> scan" where
  "dispatch_first env queueFile workerID inFlightPaths abFreeze [] sc = (False, sc)"
| "dispatch_first env queueFile workerID inFlightPaths abFreeze (idx # rest) sc =
     (if zget False (sc_inFlight sc) workerID then (False, sc)
      else (let task = zget [] (sc_tasks sc) queueFile ! idx;
                again = dispatch_first env queueFile workerID inFlightPaths abFreeze rest in
        case passes_gates env workerID inFlightPaths abFreeze task sc of
          (False, sc1) \<Rightarrow> again sc1
        | (True, sc1) \<Rightarrow>
            (case admit task sc1 of
               (False, sc2) \<Rightarrow> again sc2
             | (True, sc2) \<Rightarrow>
                 (case take_lease env queueFile workerID idx task sc2 of
                    (False, sc3) \<Rightarrow> again sc3
                  | (True, sc3) \<Rightarrow> (True, sc3)))))"

definition collectPendingTaskDispatches ::
  "scan_env \<Rightarrow> string \<Rightarrow> string \<Rightarrow> inFlightPathEntry list \<Rightarrow> (string, string list) gomap \<Rightarrow> scan \<Rightarrow> bool \<times> scan" where
  "collectPendingTaskDispatches env queueFile workerID inFlightPaths abFreeze sc =
     (if se_sessionLost env then (False, sc)
      else dispatch_first env queueFile workerID inFlightPaths abFreeze
             (SortPendingTasks (se_now env) (se_priorityAgingSec env) (zget [] (sc_tasks sc) queueFile)) sc)"

section \<open>Dispatching commands and notifications\<close>

definition isCommandPlannerIdle :: "states \<Rightarrow> string \<Rightarrow> bool" where
  "isCommandPlannerIdle states commandID =
     (case map_of states commandID of
        None \<Rightarrow> False
      | Some cs \<Rightarrow>
          cs_PlanStatus cs \<noteq> PlanStatusPlanning
          \<and> \<not> (\<exists>phase \<in> set (Phases cs). ph_Status phase = PhaseStatusFilling \<or> ph_Status phase = PhaseStatusAwaitingFill)
          \<and> RequiredTaskIDs cs \<noteq> []
          \<and> (\<forall>i \<in> set (RequiredTaskIDs cs). case map_of (TaskStates cs) i of
                None \<Rightarrow> False | Some status \<Rightarrow> IsTerminal status \<or> status = StatusPausedForReplan))"

text \<open>The first row, in dispatch order, whose lease can be taken.\<close>

fun lease_first :: "('row \<Rightarrow> LeaseError + 'row) \<Rightarrow> 'row list \<Rightarrow> nat list \<Rightarrow> (nat \<times> 'row) option" where
  "lease_first acquire rows [] = None"
| "lease_first acquire rows (idx # rest) =
     (case acquire (rows ! idx) of Inl e \<Rightarrow> lease_first acquire rows rest | Inr leased \<Rightarrow> Some (idx, leased))"

definition collectPendingCommandDispatches :: "scan_env \<Rightarrow> scan \<Rightarrow> scan" where
  "collectPendingCommandDispatches env sc =
     (if se_sessionLost env then sc
      else if \<exists>cmd \<in> set (sc_commands sc). q_Status cmd = StatusInProgress \<and> \<not> isCommandPlannerIdle (sc_states sc) (q_ID cmd)
      then sc
      else case lease_first (AcquireCommandLease (se_lease env) (se_now env) (se_owner env)) (sc_commands sc)
                  (SortPendingCommands (se_now env) (se_priorityAgingSec env) (sc_commands sc)) of
        None \<Rightarrow> sc
      | Some (idx, leased) \<Rightarrow>
          (let cmd = leased\<lparr>q_Attempts := q_Attempts leased + 1\<rparr> in
           sc\<lparr>sc_commands := (sc_commands sc)[idx := cmd],
              sc_dispatches := sc_dispatches sc @
                [\<lparr>di_Kind = ''command'', di_Command = Some cmd, di_Task = None, di_Notification = None, di_WorkerID = [],
                  di_Epoch = q_LeaseEpoch cmd, di_ExpiresAt = q_LeaseExpiresAt cmd, di_Resume = False\<rparr>]\<rparr>))"

definition notification_leased :: "int \<Rightarrow> Notification \<Rightarrow> bool" where
  "notification_leased now ntf =
     (q_Status ntf = StatusInProgress
      \<and> (case q_LeaseExpiresAt ntf of
           None \<Rightarrow> False | Some s \<Rightarrow> (case parse_stamp s of None \<Rightarrow> False | Some t \<Rightarrow> now < t)))"

definition collectPendingNotificationDispatches :: "scan_env \<Rightarrow> scan \<Rightarrow> scan" where
  "collectPendingNotificationDispatches env sc =
     (if se_sessionLost env then sc
      else if \<exists>ntf \<in> set (sc_notifications sc). notification_leased (se_now env) ntf then sc
      else case lease_first (AcquireNotificationLease (se_lease env) (se_now env) (se_owner env)) (sc_notifications sc)
                  (SortPendingNotifications (se_now env) (se_priorityAgingSec env) (sc_notifications sc)) of
        None \<Rightarrow> sc
      | Some (idx, leased) \<Rightarrow>
          (let ntf = leased\<lparr>q_Attempts := q_Attempts leased + 1\<rparr> in
           sc\<lparr>sc_notifications := (sc_notifications sc)[idx := ntf],
              sc_dispatches := sc_dispatches sc @
                [\<lparr>di_Kind = ''notification'', di_Command = None, di_Task = None, di_Notification = Some ntf, di_WorkerID = [],
                  di_Epoch = q_LeaseEpoch ntf, di_ExpiresAt = q_LeaseExpiresAt ntf, di_Resume = False\<rparr>]\<rparr>))"

section \<open>The dispatch step\<close>

text \<open>One turn of the loop over the queues; what is in flight was computed before the loop.\<close>

definition dispatch_queue ::
  "scan_env \<Rightarrow> inFlightPathEntry list \<Rightarrow> (string, string list) gomap \<Rightarrow> string \<Rightarrow> scan \<Rightarrow> scan" where
  "dispatch_queue env inFlightPaths abFreeze queueFile sc =
     (let workerID = workerIDFromPath queueFile in
      if workerID = [] then sc
      else snd (collectPendingTaskDispatches env queueFile workerID inFlightPaths abFreeze sc))"

definition dispatch_tasks :: "scan_env \<Rightarrow> scan \<Rightarrow> scan" where
  "dispatch_tasks env sc =
     (let inFlightPaths = collectInFlightPaths (sc_tasks sc) (IsLeaseExpired (se_now env));
          abFreeze = computeABFreeze (sc_states sc) (sc_tasks sc);
          sc1 = sc\<lparr>sc_inFlight := buildGlobalInFlightSet (se_now env) (sc_tasks sc)\<rparr> in
      fold (dispatch_queue env inFlightPaths abFreeze) (map fst (sc_tasks sc)) sc1)"

text \<open>The branch of \<open>stepDispatchOrRecovery\<close> that runs when no lease has expired.\<close>

definition dispatch_step :: "scan_env \<Rightarrow> scan \<Rightarrow> scan" where
  "dispatch_step env sc =
     collectPendingNotificationDispatches env (dispatch_tasks env (collectPendingCommandDispatches env sc))"

section \<open>One worker\<close>

text \<open>The checks may mark states and queue merges, and admission may count; the rows stay.\<close>

definition same_rows :: "scan \<Rightarrow> scan \<Rightarrow> bool" where
  "same_rows a b =
     (sc_tasks b = sc_tasks a \<and> sc_inFlight b = sc_inFlight a \<and> sc_dispatches b = sc_dispatches a
      \<and> sc_commands b = sc_commands a \<and> sc_notifications b = sc_notifications a)"

lemma same_rows_refl [simp]: "same_rows a a"
  by (simp add: same_rows_def)

lemma same_rows_trans: "same_rows a b \<Longrightarrow> same_rows b c \<Longrightarrow> same_rows a c"
  by (simp add: same_rows_def)

lemma passes_gates_rows: "passes_gates env w paths fr task sc = (b, sc') \<Longrightarrow> same_rows sc sc'"
  by (auto simp: passes_gates_def same_rows_def split: if_splits sum.splits prod.splits)

lemma admit_rows: "admit task sc = (b, sc') \<Longrightarrow> same_rows sc sc'"
  by (auto simp: admit_def same_rows_def split: option.splits prod.splits)

lemma take_lease_failed: "take_lease env q w idx task sc = (False, sc') \<Longrightarrow> same_rows sc sc'"
  by (auto simp: take_lease_def unadmit_def same_rows_def split: sum.splits prod.splits)

lemma dispatch_first_cases:
  assumes "dispatch_first env q w paths fr idxs sc = (b, sc')"
  shows "\<not> b \<and> same_rows sc sc'
    \<or> b \<and> \<not> zget False (sc_inFlight sc) w
      \<and> (\<exists>idx \<in> set idxs. \<exists>sc1 sc2 sc3. same_rows sc sc1
           \<and> passes_gates env w paths fr (zget [] (sc_tasks sc) q ! idx) sc1 = (True, sc2)
           \<and> admit (zget [] (sc_tasks sc) q ! idx) sc2 = (True, sc3)
           \<and> take_lease env q w idx (zget [] (sc_tasks sc) q ! idx) sc3 = (True, sc'))"
  using assms
proof (induction idxs arbitrary: sc)
  case (Cons idx rest)
  let ?task = "zget [] (sc_tasks sc) q ! idx"
  have again: ?case if d: "dispatch_first env q w paths fr rest sc0 = (b, sc')" and r: "same_rows sc sc0" for sc0
  proof -
    have e: "sc_tasks sc0 = sc_tasks sc" "sc_inFlight sc0 = sc_inFlight sc" using r by (simp_all add: same_rows_def)
    from Cons.IH [OF d] show ?thesis
      unfolding e using same_rows_trans [OF r] by (meson list.set_intros(2))
  qed
  show ?case
  proof (cases "zget False (sc_inFlight sc) w")
    case False
    obtain p sc1 where g: "passes_gates env w paths fr ?task sc = (p, sc1)" by fastforce
    note r1 = passes_gates_rows [OF g]
    show ?thesis
    proof (cases p)
      case False
      with Cons.prems \<open>\<not> zget False (sc_inFlight sc) w\<close> g have "dispatch_first env q w paths fr rest sc1 = (b, sc')"
        by simp
      then show ?thesis using r1 by (rule again)
    next
      case p: True
      obtain a sc2 where a: "admit ?task sc1 = (a, sc2)" by fastforce
      note r2 = same_rows_trans [OF r1 admit_rows [OF a]]
      show ?thesis
      proof (cases a)
        case False
        with Cons.prems \<open>\<not> zget False (sc_inFlight sc) w\<close> g p a have "dispatch_first env q w paths fr rest sc2 = (b, sc')"
          by simp
        then show ?thesis using r2 by (rule again)
      next
        case a': True
        obtain l sc3 where l: "take_lease env q w idx ?task sc2 = (l, sc3)" by fastforce
        show ?thesis
        proof (cases l)
          case False
          with Cons.prems \<open>\<not> zget False (sc_inFlight sc) w\<close> g p a a' l
          have "dispatch_first env q w paths fr rest sc3 = (b, sc')" by simp
          moreover have "same_rows sc sc3" using same_rows_trans [OF r2 take_lease_failed] l False by simp
          ultimately show ?thesis by (rule again)
        next
          case True
          with Cons.prems \<open>\<not> zget False (sc_inFlight sc) w\<close> g p a a' l have "b" "sc' = sc3" by simp_all
          then show ?thesis using False g p a a' l True by (auto intro: same_rows_refl)
        qed
      qed
    qed
  qed (use Cons.prems in simp)
qed simp

lemma passes_gates_True:
  assumes "passes_gates env w paths fr task sc = (True, sc')"
  shows "\<not> cooling_down (se_now env) task \<and> \<not> frozen_out fr w task \<and> \<not> path_conflict paths task
    \<and> IsTaskBlocked (se_gate env) (sc_states sc) task = Inr False \<and> pending_merges env w task sc = []
    \<and> (\<exists>st. map_of (sc_states sc) (tk_CommandID task) = Some st
         \<and> (\<forall>ready. IsSystemCommitReady (q_ID task) st = (True, ready) \<longrightarrow> ready))"
  using assms
  by (auto simp: passes_gates_def query_def split: if_splits sum.splits prod.splits option.splits)

lemma take_lease_True:
  assumes "take_lease env q w idx task sc = (True, sc')"
  shows "\<exists>t'. sc_tasks sc' = AList.update q ((zget [] (sc_tasks sc) q)[idx := t']) (sc_tasks sc)
    \<and> q_ID t' = q_ID task \<and> q_Status t' = StatusInProgress \<and> q_LeaseEpoch t' = q_LeaseEpoch task + 1
    \<and> q_Attempts t' + tk_ResumeAttempts t' = q_Attempts task + tk_ResumeAttempts task + 1
    \<and> (\<exists>item. sc_dispatches sc' = sc_dispatches sc @ [item] \<and> di_Kind item = ''task'' \<and> di_Task item = Some t'
         \<and> di_WorkerID item = w \<and> di_Epoch item = q_LeaseEpoch t' \<and> di_ExpiresAt item = q_LeaseExpiresAt t')
    \<and> sc_inFlight sc' = AList.update w True (sc_inFlight sc)
    \<and> sc_commands sc' = sc_commands sc \<and> sc_notifications sc' = sc_notifications sc"
  using assms
  by (auto simp: take_lease_def AcquireTaskLease_def acquireLease_def task_postAcquire_def charge_dispatch_def Let_def
      split: sum.splits prod.splits if_splits)

lemma sorted_tasks_pending:
  "i \<in> set (SortPendingTasks now aging tasks) \<longleftrightarrow> i < length tasks \<and> q_Status (tasks ! i) = StatusPending"
proof -
  have "mset (map se_Index (sort_slice entry_less (pending_entries row_key now aging tasks)))
      = mset (map se_Index (pending_entries row_key now aging tasks))"
    using sort_slice_correct [of entry_less entry_key, OF entry_less_key] by simp
  from mset_eq_setD [OF this] show ?thesis
    by (auto simp: SortPendingTasks_def SortPendingIndices_def pending_entries_index [of now aging tasks, unfolded set_map])
qed

text \<open>A dispatch to worker \<open>w\<close>: one pending row of its queue starts, with an item for it, and the worker is taken.\<close>

definition started :: "string \<Rightarrow> string \<Rightarrow> scan \<Rightarrow> scan \<Rightarrow> bool" where
  "started q w sc sc' =
     (w \<noteq> [] \<and> \<not> zget False (sc_inFlight sc) w
      \<and> (\<exists>idx t' item. idx < length (zget [] (sc_tasks sc) q) \<and> q_Status (zget [] (sc_tasks sc) q ! idx) = StatusPending
           \<and> q_Status t' = StatusInProgress
           \<and> sc_tasks sc' = AList.update q ((zget [] (sc_tasks sc) q)[idx := t']) (sc_tasks sc)
           \<and> sc_dispatches sc' = sc_dispatches sc @ [item] \<and> di_WorkerID item = w
           \<and> sc_inFlight sc' = AList.update w True (sc_inFlight sc)))"

lemma dispatch_queue_cases:
  "same_rows sc (dispatch_queue env paths fr q sc) \<or> started q (workerIDFromPath q) sc (dispatch_queue env paths fr q sc)"
proof -
  let ?w = "workerIDFromPath q" and ?tasks = "zget [] (sc_tasks sc) q"
  obtain b sc' where c: "collectPendingTaskDispatches env q ?w paths fr sc = (b, sc')" by fastforce
  have "same_rows sc sc' \<or> started q ?w sc sc'" if ne: "?w \<noteq> []"
  proof (cases "se_sessionLost env")
    case True
    then show ?thesis using c by (simp add: collectPendingTaskDispatches_def)
  next
    case False
    with c have "dispatch_first env q ?w paths fr (SortPendingTasks (se_now env) (se_priorityAgingSec env) ?tasks) sc = (b, sc')"
      by (simp add: collectPendingTaskDispatches_def)
    from dispatch_first_cases [OF this] show ?thesis
    proof
      assume "b \<and> \<not> zget False (sc_inFlight sc) ?w
        \<and> (\<exists>idx \<in> set (SortPendingTasks (se_now env) (se_priorityAgingSec env) ?tasks). \<exists>sc1 sc2 sc3. same_rows sc sc1
             \<and> passes_gates env ?w paths fr (?tasks ! idx) sc1 = (True, sc2)
             \<and> admit (?tasks ! idx) sc2 = (True, sc3)
             \<and> take_lease env q ?w idx (?tasks ! idx) sc3 = (True, sc'))"
      then obtain idx sc1 sc2 sc3 where free: "\<not> zget False (sc_inFlight sc) ?w"
        and idx: "idx \<in> set (SortPendingTasks (se_now env) (se_priorityAgingSec env) ?tasks)" and r: "same_rows sc sc1"
        and g: "passes_gates env ?w paths fr (?tasks ! idx) sc1 = (True, sc2)" and a: "admit (?tasks ! idx) sc2 = (True, sc3)"
        and t: "take_lease env q ?w idx (?tasks ! idx) sc3 = (True, sc')" by blast
      have "same_rows sc sc3" using same_rows_trans [OF same_rows_trans [OF r passes_gates_rows [OF g]] admit_rows [OF a]] .
      then have e: "sc_tasks sc3 = sc_tasks sc" "sc_dispatches sc3 = sc_dispatches sc" "sc_inFlight sc3 = sc_inFlight sc"
        by (simp_all add: same_rows_def)
      from take_lease_True [OF t, unfolded e] free idx ne show ?thesis
        unfolding started_def sorted_tasks_pending by blast
    qed blast
  qed
  then show ?thesis using c by (cases "?w = []") (simp_all add: dispatch_queue_def Let_def)
qed

definition unchanged_or_started :: "scan \<Rightarrow> scan \<Rightarrow> string \<Rightarrow> bool" where
  "unchanged_or_started sc sc' f =
     (map_of (sc_tasks sc') f = map_of (sc_tasks sc) f
      \<or> (workerIDFromPath f \<noteq> [] \<and> \<not> zget False (sc_inFlight sc) (workerIDFromPath f)
         \<and> (\<exists>idx t'. idx < length (zget [] (sc_tasks sc) f) \<and> q_Status (zget [] (sc_tasks sc) f ! idx) = StatusPending
              \<and> q_Status t' = StatusInProgress
              \<and> map_of (sc_tasks sc') f = Some ((zget [] (sc_tasks sc) f)[idx := t']))))"

lemma dispatch_fold:
  assumes "distinct qs"
  shows "let sc' = fold (dispatch_queue env paths fr) qs sc in
    (\<exists>new. sc_dispatches sc' = sc_dispatches sc @ new \<and> distinct (map di_WorkerID new)
       \<and> (\<forall>item \<in> set new. di_WorkerID item \<noteq> [] \<and> \<not> zget False (sc_inFlight sc) (di_WorkerID item)))
    \<and> (\<forall>f. f \<notin> set qs \<longrightarrow> map_of (sc_tasks sc') f = map_of (sc_tasks sc) f)
    \<and> (\<forall>f \<in> set qs. unchanged_or_started sc sc' f)"
  using assms
proof (induction qs arbitrary: sc)
  case Nil
  then show ?case by simp
next
  case (Cons q qs)
  let ?sc1 = "dispatch_queue env paths fr q sc"
  let ?sc' = "fold (dispatch_queue env paths fr) qs ?sc1"
  have d: "distinct qs" and q: "q \<notin> set qs" using Cons.prems by simp_all
  note ih = Cons.IH [OF d, of ?sc1, unfolded Let_def]
  obtain new where
    new: "sc_dispatches ?sc' = sc_dispatches ?sc1 @ new" "distinct (map di_WorkerID new)"
      "\<forall>item \<in> set new. di_WorkerID item \<noteq> [] \<and> \<not> zget False (sc_inFlight ?sc1) (di_WorkerID item)"
    using ih by (elim conjE exE)
  have out: "\<forall>f. f \<notin> set qs \<longrightarrow> map_of (sc_tasks ?sc') f = map_of (sc_tasks ?sc1) f"
    and rest: "\<forall>f \<in> set qs. unchanged_or_started ?sc1 ?sc' f"
    using conjunct1 [OF conjunct2 [OF ih]] conjunct2 [OF conjunct2 [OF ih]] by this+
  from dispatch_queue_cases [of sc env paths fr q] show ?case
  proof
    assume "same_rows sc ?sc1"
    then have e: "sc_tasks ?sc1 = sc_tasks sc" "sc_dispatches ?sc1 = sc_dispatches sc" "sc_inFlight ?sc1 = sc_inFlight sc"
      by (simp_all add: same_rows_def)
    have "unchanged_or_started sc ?sc' f" if "f \<in> set (q # qs)" for f
      using rest out q that by (auto simp: unchanged_or_started_def e)
    moreover have "map_of (sc_tasks ?sc') f = map_of (sc_tasks sc) f" if "f \<notin> set (q # qs)" for f
      using out that by (simp add: e)
    ultimately show ?thesis using new unfolding Let_def fold_simps e by blast
  next
    assume "started q (workerIDFromPath q) sc ?sc1"
    then obtain idx t' item where free: "workerIDFromPath q \<noteq> []" "\<not> zget False (sc_inFlight sc) (workerIDFromPath q)"
      and i: "idx < length (zget [] (sc_tasks sc) q)" "q_Status (zget [] (sc_tasks sc) q ! idx) = StatusPending"
        "q_Status t' = StatusInProgress"
      and t: "sc_tasks ?sc1 = AList.update q ((zget [] (sc_tasks sc) q)[idx := t']) (sc_tasks sc)"
      and d: "sc_dispatches ?sc1 = sc_dispatches sc @ [item]" "di_WorkerID item = workerIDFromPath q"
      and fl: "sc_inFlight ?sc1 = AList.update (workerIDFromPath q) True (sc_inFlight sc)"
      unfolding started_def by blast
    have busy: "\<not> zget False (sc_inFlight sc) w" "w \<noteq> workerIDFromPath q" if "\<not> zget False (sc_inFlight ?sc1) w" for w
      using that unfolding fl zget_update by (simp_all split: if_splits)
    have "di_WorkerID x \<noteq> [] \<and> \<not> zget False (sc_inFlight sc) (di_WorkerID x)" if "x \<in> set (item # new)" for x
    proof (cases "x = item")
      case True
      then show ?thesis using free d(2) by simp
    next
      case False
      with that have "x \<in> set new" by simp
      note this [THEN bspec [OF new(3)]]
      then show ?thesis using busy(1) by simp
    qed
    then have "\<forall>x \<in> set (item # new). di_WorkerID x \<noteq> [] \<and> \<not> zget False (sc_inFlight sc) (di_WorkerID x)" by blast
    moreover have "di_WorkerID x \<noteq> workerIDFromPath q" if "x \<in> set new" for x
      by (rule busy(2) [OF conjunct2 [OF bspec [OF new(3) that]]])
    then have "workerIDFromPath q \<notin> di_WorkerID ` set new" by (metis imageE)
    then have "distinct (map di_WorkerID (item # new))" using new(2) d(2) by simp
    moreover have "sc_dispatches ?sc' = sc_dispatches sc @ (item # new)" using new(1) d(1) by simp
    moreover have "map_of (sc_tasks ?sc') f = map_of (sc_tasks sc) f" if "f \<notin> set (q # qs)" for f
      using out that by (simp add: t)
    moreover have "unchanged_or_started sc ?sc' f" if "f \<in> set (q # qs)" for f
    proof (cases "f = q")
      case True
      with out q have "map_of (sc_tasks ?sc') q = Some ((zget [] (sc_tasks sc) q)[idx := t'])" by (simp add: t)
      then show ?thesis using True free i unfolding unchanged_or_started_def by blast
    next
      case False
      with that rest have "unchanged_or_started ?sc1 ?sc' f" by simp
      moreover have "map_of (sc_tasks ?sc1) f = map_of (sc_tasks sc) f" "zget [] (sc_tasks ?sc1) f = zget [] (sc_tasks sc) f"
        using False by (simp_all add: t)
      ultimately show ?thesis using busy(1) unfolding unchanged_or_started_def by metis
    qed
    ultimately show ?thesis unfolding Let_def fold_simps by blast
  qed
qed

section \<open>Properties\<close>

lemma in_flight_set:
  "zget False (buildGlobalInFlightSet now queues) w \<longleftrightarrow> w \<noteq> [] \<and>
     (\<exists>(f, tasks) \<in> set queues. workerIDFromPath f = w
        \<and> (\<exists>task \<in> set tasks. q_Status task = StatusInProgress \<and> \<not> IsLeaseExpired now (q_LeaseExpiresAt task)))"
proof -
  let ?live = "\<lambda>tasks. \<exists>task \<in> set tasks. q_Status task = StatusInProgress \<and> \<not> IsLeaseExpired now (q_LeaseExpiresAt task)"
  let ?step = "\<lambda>(queueFile, tasks) inFlight.
       let workerID = workerIDFromPath queueFile in
       if workerID = [] then inFlight else if ?live tasks then AList.update workerID True inFlight else inFlight"
  have "zget False (fold ?step qs m) w \<longleftrightarrow> zget False m w \<or> w \<noteq> [] \<and> (\<exists>(f, tasks) \<in> set qs. workerIDFromPath f = w \<and> ?live tasks)"
    for qs m
  proof (induction qs arbitrary: m)
    case (Cons x qs)
    obtain f tasks where x: "x = (f, tasks)" by fastforce
    show ?case
      unfolding fold_simps Cons.IH x by (auto simp: Let_def)
  qed simp
  from this [of queues "[]"] show ?thesis
    unfolding buildGlobalInFlightSet_def by (simp add: zget_def)
qed

definition in_progress :: "Task list \<Rightarrow> nat" where
  "in_progress tasks = length (filter (\<lambda>t. q_Status t = StatusInProgress) tasks)"

lemma in_progress_zero: "in_progress tasks = 0 \<longleftrightarrow> (\<forall>t \<in> set tasks. q_Status t \<noteq> StatusInProgress)"
  by (simp add: in_progress_def filter_empty_conv)

lemma in_progress_started:
  assumes "in_progress tasks = 0" and "idx < length tasks" and "q_Status t' = StatusInProgress"
  shows "in_progress (tasks[idx := t']) = 1"
proof -
  have none: "\<forall>t \<in> set tasks. q_Status t \<noteq> StatusInProgress" using assms(1) by (simp add: in_progress_zero)
  have "tasks[idx := t'] = take idx tasks @ t' # drop (Suc idx) tasks" using assms(2) by (rule upd_conv_take_nth_drop)
  moreover have "filter (\<lambda>t. q_Status t = StatusInProgress) (take idx tasks) = []"
    "filter (\<lambda>t. q_Status t = StatusInProgress) (drop (Suc idx) tasks) = []"
    using none in_set_takeD [of _ idx tasks] in_set_dropD [of _ "Suc idx" tasks] by (auto simp: filter_empty_conv)
  ultimately show ?thesis using assms(3) by (simp add: in_progress_def)
qed

text \<open>
  C20. When no lease has expired, the dispatch step gives each worker at most one task: the new items are for different
  workers, none of which had a task in progress, and a queue is either left as it was or goes from no
  task in progress to exactly one.
\<close>

theorem one_task_per_worker:
  assumes "distinct (map fst (sc_tasks sc))"
    and "\<not> hasExpiredLeases (se_now env) (sc_tasks sc) (sc_commands sc) (sc_notifications sc)"
  shows "let sc' = dispatch_tasks env sc in
    (\<exists>new. sc_dispatches sc' = sc_dispatches sc @ new \<and> distinct (map di_WorkerID new)
       \<and> (\<forall>item \<in> set new. \<forall>(f, tasks) \<in> set (sc_tasks sc).
            workerIDFromPath f = di_WorkerID item \<longrightarrow> in_progress tasks = 0))
    \<and> (\<forall>(f, tasks) \<in> set (sc_tasks sc). \<exists>tasks'. map_of (sc_tasks sc') f = Some tasks'
         \<and> (tasks' = tasks \<or> in_progress tasks = 0 \<and> in_progress tasks' = 1))"
proof -
  let ?sc1 = "sc\<lparr>sc_inFlight := buildGlobalInFlightSet (se_now env) (sc_tasks sc)\<rparr>"
  let ?sc' = "dispatch_tasks env sc"
  have idle: "in_progress tasks = 0"
    if f: "(f, tasks) \<in> set (sc_tasks sc)" "workerIDFromPath f \<noteq> []"
      and w: "\<not> zget False (sc_inFlight ?sc1) (workerIDFromPath f)" for f tasks
  proof -
    have "q_Status t \<noteq> StatusInProgress" if t: "t \<in> set tasks" for t
    proof
      assume p: "q_Status t = StatusInProgress"
      then have live: "\<not> IsLeaseExpired (se_now env) (q_LeaseExpiresAt t)"
        using f(1) t assms(2) unfolding hasExpiredLeases_def by blast
      have "zget False (buildGlobalInFlightSet (se_now env) (sc_tasks sc)) (workerIDFromPath f)"
        unfolding in_flight_set using f p live t by blast
      then show False using w by simp
    qed
    then show ?thesis by (simp add: in_progress_zero)
  qed
  note fold = dispatch_fold [OF assms(1), of env "collectInFlightPaths (sc_tasks sc) (IsLeaseExpired (se_now env))"
      "computeABFreeze (sc_states sc) (sc_tasks sc)" ?sc1]
  have "?sc' = fold (dispatch_queue env (collectInFlightPaths (sc_tasks sc) (IsLeaseExpired (se_now env)))
      (computeABFreeze (sc_states sc) (sc_tasks sc))) (map fst (sc_tasks sc)) ?sc1"
    by (simp add: dispatch_tasks_def Let_def)
  note f = fold [folded this, unfolded Let_def]
  obtain new where new: "sc_dispatches ?sc' = sc_dispatches sc @ new" "distinct (map di_WorkerID new)"
    "\<forall>item \<in> set new. di_WorkerID item \<noteq> [] \<and> \<not> zget False (sc_inFlight ?sc1) (di_WorkerID item)"
    using f by auto
  have "\<exists>tasks'. map_of (sc_tasks ?sc') f = Some tasks' \<and> (tasks' = tasks \<or> in_progress tasks = 0 \<and> in_progress tasks' = 1)"
    if m: "(f, tasks) \<in> set (sc_tasks sc)" for f tasks
  proof -
    have t: "map_of (sc_tasks sc) f = Some tasks" "zget [] (sc_tasks sc) f = tasks"
      using m assms(1) by (simp_all add: zget_def)
    from m have "unchanged_or_started ?sc1 ?sc' f" using f by force
    then consider "map_of (sc_tasks ?sc') f = Some tasks"
      | idx t' where "workerIDFromPath f \<noteq> []" "\<not> zget False (sc_inFlight ?sc1) (workerIDFromPath f)" "idx < length tasks"
          "q_Status t' = StatusInProgress" "map_of (sc_tasks ?sc') f = Some (tasks[idx := t'])"
      unfolding unchanged_or_started_def using t by auto
    then show ?thesis
    proof cases
      case (2 idx t')
      with idle [OF m] in_progress_started show ?thesis by blast
    qed simp
  qed
  moreover have "\<forall>item \<in> set new. \<forall>(f, tasks) \<in> set (sc_tasks sc).
      workerIDFromPath f = di_WorkerID item \<longrightarrow> in_progress tasks = 0"
    using new(3) idle by fastforce
  ultimately show ?thesis using new(1,2) unfolding Let_def by blast
qed


section \<open>A scan of two workers\<close>

definition demo_scan :: scan where
  "demo_scan = \<lparr>sc_commands = [], sc_tasks = [
       (''queue/worker1.yaml'', [(zero_Task ''a'' StatusPending)\<lparr>tk_CommandID := ''c'', tk_ExpectedPaths := [''src'']\<rparr>]),
       (''queue/worker2.yaml'', [(zero_Task ''b'' StatusPending)\<lparr>tk_CommandID := ''c'', tk_ExpectedPaths := [''src'']\<rparr>])],
     sc_notifications = [],
     sc_states = [(''c'', (zero_CommandState ''c'' PlanStatusSealed)\<lparr>RequiredTaskIDs := [''a'', ''b''],
       TaskStates := [(''a'', StatusReady), (''b'', StatusReady)]\<rparr>)],
     sc_admission = None, sc_inFlight = [], sc_dispatches = [], sc_preMerges = []\<rparr>"

definition demo_env :: scan_env where
  "demo_env = \<lparr>se_now = 0, se_sessionLost = False, se_owner = ''daemon:1'', se_lease = NewManager 300 None,
     se_priorityAgingSec = 0, se_maxResume = 3, se_gate = (\<lambda>_ _. True), se_hasWorktrees = (\<lambda>_. False),
     se_aheadOrDirty = (\<lambda>_ _. False)\<rparr>"

text \<open>
  What is in flight is computed once per scan, before the queues are visited: two tasks that declare
  the same path start in the same scan, on two workers.
\<close>

lemma same_scan_overlap:
  "map (\<lambda>item. (di_WorkerID item, map_option tk_ExpectedPaths (di_Task item))) (sc_dispatches (dispatch_tasks demo_env demo_scan))
     = [(''worker1'', Some [''src'']), (''worker2'', Some [''src''])]"
  by code_simp

lemma one_task_per_worker_witness:
  "distinct (map di_WorkerID (sc_dispatches (dispatch_tasks demo_env demo_scan)))
   \<and> (\<exists>tasks'. map_of (sc_tasks (dispatch_tasks demo_env demo_scan)) ''queue/worker1.yaml'' = Some tasks')"
proof -
  have "distinct (map fst (sc_tasks demo_scan))" by (simp add: demo_scan_def)
  moreover have "\<not> hasExpiredLeases (se_now demo_env) (sc_tasks demo_scan) (sc_commands demo_scan) (sc_notifications demo_scan)"
    by code_simp
  moreover have "sc_dispatches demo_scan = []"
    "\<exists>tasks. (''queue/worker1.yaml'', tasks) \<in> set (sc_tasks demo_scan)" by (simp_all add: demo_scan_def)
  ultimately show ?thesis
    using one_task_per_worker [of demo_scan demo_env] unfolding Let_def by fastforce
qed


text \<open>The purposes are found under the owners of leases, which for the daemon's own leases is the daemon, not the worker.\<close>

definition owns_purpose :: "string \<Rightarrow> string \<Rightarrow> Task \<Rightarrow> bool" where
  "owns_purpose w p t = (q_LeaseOwner t = Some w \<and> tk_Purpose t = p)"

lemma purposes_by_owner:
  assumes "map_of (buildWorkerPurposes queues) w = Some p"
  shows "\<exists>t \<in> set (concat (map snd queues)). owns_purpose w p t"
proof -
  let ?add = "\<lambda>task m. case q_LeaseOwner task of
               None \<Rightarrow> m
             | Some owner \<Rightarrow> if owner \<noteq> [] \<and> tk_Purpose task \<noteq> [] then AList.update owner (tk_Purpose task) m else m"
  have one: "map_of (?add t m) w = Some p \<Longrightarrow> map_of m w = Some p \<or> owns_purpose w p t" for t m
    by (auto simp: owns_purpose_def split: option.splits if_splits)
  have inner: "map_of (fold ?add ts m) w = Some p \<Longrightarrow> map_of m w = Some p \<or> (\<exists>t \<in> set ts. owns_purpose w p t)" for ts m
  proof (induction ts arbitrary: m)
    case (Cons t ts)
    then have "map_of (fold ?add ts (?add t m)) w = Some p" by simp
    from Cons.IH [OF this] show ?case
    proof
      assume "map_of (?add t m) w = Some p"
      from one [OF this] show ?thesis by auto
    qed auto
  qed simp
  have outer: "map_of (fold (\<lambda>(_, tasks) m. fold ?add tasks m) qs m) w = Some p \<Longrightarrow>
      map_of m w = Some p \<or> (\<exists>t \<in> set (concat (map snd qs)). owns_purpose w p t)" for qs m
  proof (induction qs arbitrary: m)
    case (Cons x qs)
    obtain f ts where x: "x = (f, ts)" by fastforce
    have "map_of (fold (\<lambda>(_, tasks) m. fold ?add tasks m) qs (fold ?add ts m)) w = Some p"
      using Cons.prems by (simp only: fold_simps x prod.case)
    from Cons.IH [OF this] show ?case
    proof
      assume "map_of (fold ?add ts m) w = Some p"
      from inner [OF this] show ?thesis by (auto simp: x)
    qed (auto simp: x)
  qed simp
  from outer [of queues "[]"] assms show ?thesis by (simp add: buildWorkerPurposes_def)
qed

end
