(* ===== verification/Scan_Recovery.thy ===== *)
theory Scan_Recovery imports Dispatch_Scan begin

text \<open>
  The recovery half of a scan and its last phase (\<open>internal/daemon/queue_scan_collect.go\<close>,
  \<open>queue_scan_apply.go\<close>, \<open>queue_scan_blocked_pane.go\<close>, \<open>queue_scan_helpers.go\<close>): expired leases are extended,
  released, failed or probed, and the results of the probes are applied behind a fence. What the
  pane of a worker shows is an argument. A row of a result file keeps the fields its synthetic writers fill, less the
  generated id; a formatted summary is the constructor of its message. Counters and log lines are not modelled.
\<close>

section \<open>Fencing\<close>

definition leaseInvalidReason :: "Status \<Rightarrow> int \<Rightarrow> int \<Rightarrow> string" where
  "leaseInvalidReason status leaseEpoch expectedEpoch =
     (if status \<noteq> StatusInProgress then ''status''
      else if leaseEpoch \<noteq> expectedEpoch then ''epoch''
      else [])"

text \<open>The reason of the rejection; the empty string is a valid fence.\<close>

definition checkResultFencing :: "Status \<Rightarrow> int \<Rightarrow> stamp option \<Rightarrow> int \<Rightarrow> stamp option \<Rightarrow> string" where
  "checkResultFencing status leaseEpoch leaseExpiresAt expectedEpoch expectedExpiresAt =
     (let reason = leaseInvalidReason status leaseEpoch expectedEpoch in
      if reason \<noteq> [] then reason
      else if leaseExpiresAt = None \<or> leaseExpiresAt \<noteq> expectedExpiresAt then ''expiry''
      else [])"

definition fence_open :: "'a queue_row_scheme \<Rightarrow> int \<Rightarrow> stamp option \<Rightarrow> bool" where
  "fence_open row epoch expires =
     (checkResultFencing (q_Status row) (q_LeaseEpoch row) (q_LeaseExpiresAt row) epoch expires = [])"

section \<open>Limits\<close>

definition isMaxInProgressTimeout :: "int \<Rightarrow> stamp \<Rightarrow> int \<Rightarrow> bool" where
  "isMaxInProgressTimeout now timestamp maxMin =
     (case parse_stamp timestamp of None \<Rightarrow> False | Some t \<Rightarrow> seconds (60 * maxMin) \<le> now - t)"

text \<open>The minutes are not negative, so Go's division is \<open>div\<close>.\<close>

definition maxGraceLeaseDuration :: "int \<Rightarrow> int \<Rightarrow> int" where
  "maxGraceLeaseDuration maxMin scanIntervalSec =
     (let grace = seconds (60 * (maxMin div 3)); floor = seconds (scanIntervalSec * 3) in
      if grace < floor then floor else grace)"

definition isGraceLeaseExceeded :: "int \<Rightarrow> stamp \<Rightarrow> int \<Rightarrow> int \<Rightarrow> bool" where
  "isGraceLeaseExceeded now updatedAt dispatchLease graceLimit =
     (case parse_stamp updatedAt of
        None \<Rightarrow> False
      | Some t \<Rightarrow> graceLimit \<le> now - (t + dispatchLease))"

record recovery_env =
  rv_now :: int
  rv_lease :: Manager
  rv_maxMin :: int
  rv_scanIntervalSec :: int
  rv_dispatchLeaseSec :: int
  rv_maxProgressInterrupts :: int
  rv_maxResume :: int
  rv_blockedPaneFailAfter :: int

section \<open>Expired leases\<close>

datatype Verdict =
  VerdictUnknown | VerdictUncertain | VerdictIdle | VerdictActive | VerdictBlocked | VerdictTerminalError

datatype summary =
    ReportedSummary string
  | TerminalErrorSummary string
  | BlockedPaneSummary string int
  | PreflightSummary string
  | CancelledSummary string

record task_result =
  sr_TaskID :: string
  sr_CommandID :: string
  sr_Status :: Status
  sr_Summary :: summary
  sr_PartialChangesPossible :: bool
  sr_RetrySafe :: bool
  sr_LeaseEpoch :: int
  sr_CreatedAt :: stamp

datatype recovery_effect =
    AppendResult string task_result
  | MarkProgress string
  | RespawnPane string

record busyCheckItem =
  bi_EntryID :: string
  bi_AgentID :: string
  bi_Epoch :: int
  bi_QueueFile :: string
  bi_UpdatedAt :: stamp
  bi_ExpiresAt :: "stamp option"

definition synthetic_failed :: "int \<Rightarrow> summary \<Rightarrow> bool \<Rightarrow> bool \<Rightarrow> Task \<Rightarrow> task_result" where
  "synthetic_failed now summary partial retrySafe task =
     \<lparr>sr_TaskID = q_ID task, sr_CommandID = tk_CommandID task, sr_Status = StatusFailed, sr_Summary = summary,
      sr_PartialChangesPossible = partial, sr_RetrySafe = retrySafe, sr_LeaseEpoch = q_LeaseEpoch task,
      sr_CreatedAt = fmt_stamp now\<rparr>"

text \<open>The writers skip a queue file without a worker id.\<close>

definition append_result :: "string \<Rightarrow> task_result \<Rightarrow> recovery_effect list" where
  "append_result workerID r = (if workerID = [] then [] else [AppendResult workerID r])"

definition fail_in_place :: "int \<Rightarrow> Task \<Rightarrow> Task option" where
  "fail_in_place now task =
     (case ValidateCommandTaskQueueTransition (q_Status task) StatusFailed of
        Inl e \<Rightarrow> None
      | Inr _ \<Rightarrow> Some (task\<lparr>q_Status := StatusFailed, q_LeaseOwner := None, q_LeaseExpiresAt := None,
                            q_UpdatedAt := fmt_stamp now\<rparr>))"

definition failTaskTerminalError :: "int \<Rightarrow> string \<Rightarrow> string \<Rightarrow> Task \<Rightarrow> (Task \<times> recovery_effect list) option" where
  "failTaskTerminalError now queueFile agentID task =
     map_option (\<lambda>t. (t, append_result (workerIDFromPath queueFile)
                          (synthetic_failed now (TerminalErrorSummary agentID) False True task)))
       (fail_in_place now task)"

definition failTaskBlockedPane :: "int \<Rightarrow> string \<Rightarrow> string \<Rightarrow> int \<Rightarrow> Task \<Rightarrow> (Task \<times> recovery_effect list) option" where
  "failTaskBlockedPane now queueFile agentID blockedFor task =
     map_option (\<lambda>t. (t, append_result (workerIDFromPath queueFile)
                          (synthetic_failed now (BlockedPaneSummary agentID blockedFor) True False task)))
       (fail_in_place now task)"

text \<open>A call whose error is only logged keeps the row.\<close>

definition attempt :: "('row \<Rightarrow> LeaseError + 'row) \<Rightarrow> 'row \<Rightarrow> 'row" where
  "attempt f row = (case f row of Inl e \<Rightarrow> row | Inr row' \<Rightarrow> row')"

definition busy_check_item :: "string \<Rightarrow> string \<Rightarrow> Task \<Rightarrow> busyCheckItem" where
  "busy_check_item queueFile agentID task =
     \<lparr>bi_EntryID = q_ID task, bi_AgentID = agentID, bi_Epoch = q_LeaseEpoch task, bi_QueueFile = queueFile,
      bi_UpdatedAt = q_UpdatedAt task, bi_ExpiresAt = q_LeaseExpiresAt task\<rparr>"

text \<open>One expired task: its row, the probe it still needs, and what else happens.\<close>

definition recover_expired ::
  "recovery_env \<Rightarrow> string \<Rightarrow> string \<Rightarrow> Verdict \<Rightarrow> int \<Rightarrow> Task \<Rightarrow> Task \<times> busyCheckItem option \<times> recovery_effect list" where
  "recover_expired env queueFile agentID verdict blockedFor task =
     (let now = rv_now env;
          probe = (task, Some (busy_check_item queueFile agentID task), []);
          extend = (case ExtendTaskLease (rv_lease env) now task of
                      Inr task' \<Rightarrow> (task', None, []) | Inl e \<Rightarrow> probe) in
      if q_LeaseExpiresAt task = None \<or> agentID = [] then (attempt (ReleaseTaskLease now) task, None, [])
      else if isMaxInProgressTimeout now (q_UpdatedAt task) (rv_maxMin env) then probe
      else case verdict of
        VerdictTerminalError \<Rightarrow>
          (case failTaskTerminalError now queueFile agentID task of
             Some (task', effects) \<Rightarrow> (task', None, effects @ [RespawnPane (workerIDFromPath queueFile)])
           | None \<Rightarrow> probe)
      | VerdictActive \<Rightarrow>
          (case ExtendTaskLease (rv_lease env) now task of
             Inr task' \<Rightarrow> (task'\<lparr>tk_LastProgressEpoch := q_LeaseEpoch task'\<rparr>, None,
                          if tk_CommandID task \<noteq> [] then [MarkProgress (tk_CommandID task)] else [])
           | Inl e \<Rightarrow> probe)
      | VerdictBlocked \<Rightarrow>
          (if 0 < rv_blockedPaneFailAfter env \<and> rv_blockedPaneFailAfter env \<le> blockedFor
           then (case failTaskBlockedPane now queueFile agentID blockedFor task of
                   Some (task', effects) \<Rightarrow> (task', None, effects)
                 | None \<Rightarrow> extend)
           else extend)
      | VerdictUncertain \<Rightarrow> extend
      | VerdictIdle \<Rightarrow> probe
      | VerdictUnknown \<Rightarrow> probe)"

definition collectExpiredTaskBusyChecks ::
  "recovery_env \<Rightarrow> string \<Rightarrow> string \<Rightarrow> Verdict \<Rightarrow> int \<Rightarrow> Task list \<Rightarrow> Task list \<times> busyCheckItem list \<times> recovery_effect list" where
  "collectExpiredTaskBusyChecks env queueFile agentID verdict blockedFor tasks =
     fold (\<lambda>idx (rows, items, effects).
         case recover_expired env queueFile agentID verdict blockedFor (rows ! idx) of
           (task', item, effs) \<Rightarrow>
             (rows[idx := task'], items @ (case item of None \<Rightarrow> [] | Some i \<Rightarrow> [i]), effects @ effs))
       (ExpireTasks (rv_now env) tasks) (tasks, [], [])"

section \<open>Blocked panes\<close>

text \<open>The two thresholds, on the numbers that the environment variables hold (\<open>None\<close> when unset or unreadable).\<close>

definition blockedPaneFailAfter :: "int option \<Rightarrow> int" where
  "blockedPaneFailAfter secs = (case secs of None \<Rightarrow> seconds 180 | Some s \<Rightarrow> if s < 0 then seconds 180 else seconds s)"

definition blockedPaneUnrecoverableFailAfter :: "int option \<Rightarrow> int option \<Rightarrow> int" where
  "blockedPaneUnrecoverableFailAfter secs normalSecs =
     (let threshold = (case secs of Some s \<Rightarrow> if 0 < s then seconds s else seconds 30 | None \<Rightarrow> seconds 30);
          normal = blockedPaneFailAfter normalSecs in
      if normal < threshold then normal else threshold)"

record pane =
  pn_Verdict :: Verdict
  pn_BlockedSince :: "int option"
  pn_Unrecoverable :: bool

fun fail_in_progress ::
  "string \<Rightarrow> (Task \<Rightarrow> (Task \<times> recovery_effect list) option) \<Rightarrow> Task list \<Rightarrow> Task list \<times> recovery_effect list" where
  "fail_in_progress agentID failTask [] = ([], [])"
| "fail_in_progress agentID failTask (task # tasks) =
     (case fail_in_progress agentID failTask tasks of (tasks', effects') \<Rightarrow>
        if q_Status task \<noteq> StatusInProgress then (task # tasks', effects')
        else (case failTask task of
            None \<Rightarrow> (task # tasks', effects')
          | Some (task', effects) \<Rightarrow> (task' # tasks', effects @ [RespawnPane agentID] @ effects')))"

text \<open>One queue of \<open>stepBlockedPaneTimeout\<close>; a queue without a task in progress is not looked at.\<close>

definition stepBlockedPaneTimeout ::
  "int \<Rightarrow> int \<Rightarrow> int \<Rightarrow> pane \<Rightarrow> string \<Rightarrow> Task list \<Rightarrow> Task list \<times> recovery_effect list" where
  "stepBlockedPaneTimeout now threshold unrecoverable p queueFile tasks =
     (let agentID = workerIDFromPath queueFile in
      if agentID = [] \<or> \<not> (\<exists>t \<in> set tasks. q_Status t = StatusInProgress) then (tasks, [])
      else if pn_Verdict p = VerdictTerminalError
      then fail_in_progress agentID (failTaskTerminalError now queueFile agentID) tasks
      else if threshold \<le> 0 \<or> pn_Verdict p \<noteq> VerdictBlocked then (tasks, [])
      else case pn_BlockedSince p of
        None \<Rightarrow> (tasks, [])
      | Some blockedAt \<Rightarrow>
          (let effective = (if pn_Unrecoverable p \<and> unrecoverable < threshold then unrecoverable else threshold);
               blockedFor = now - blockedAt in
           if blockedFor < effective then (tasks, [])
           else fail_in_progress agentID (failTaskBlockedPane now queueFile agentID blockedFor) tasks))"

section \<open>Command and notification leases\<close>

definition commandHasActiveWorkerTask :: "task_queues \<Rightarrow> string \<Rightarrow> bool" where
  "commandHasActiveWorkerTask taskQueues commandID =
     (\<exists>(_, tasks) \<in> set taskQueues. \<exists>t \<in> set tasks. tk_CommandID t = commandID \<and> \<not> IsTerminal (q_Status t))"

text \<open>The integration status of the command's worktrees is an argument (\<open>None\<close> when there are none).\<close>

definition commandHasActivePlannerWork :: "states \<Rightarrow> (string \<Rightarrow> IntegrationStatus option) \<Rightarrow> task_queues \<Rightarrow> string \<Rightarrow> bool" where
  "commandHasActivePlannerWork states integration taskQueues commandID =
     (commandHasActiveWorkerTask taskQueues commandID
      \<or> (case map_of states commandID of
           None \<Rightarrow> False
         | Some cs \<Rightarrow> cs_PlanStatus cs \<noteq> PlanStatusOther [] \<and> \<not> IsPlanTerminal (cs_PlanStatus cs))
      \<or> integration commandID \<in> Some ` {IntegrationStatusMerging, IntegrationStatusMerged, IntegrationStatusPublishing,
           IntegrationStatusPartialMerge}
      \<or> (case query (\<lambda>st. Inr (GetCommandPhases st)) commandID states of
           Inl e \<Rightarrow> True
         | Inr phases \<Rightarrow> \<exists>p \<in> set phases. pi_Status p \<in> {PhaseStatusPending, PhaseStatusAwaitingFill,
             PhaseStatusFilling, PhaseStatusActive}))"

text \<open>One command lease that is due: past the hard limit it is only kept while the command is active.\<close>

definition keep_command :: "recovery_env \<Rightarrow> (string \<Rightarrow> bool) \<Rightarrow> Command \<Rightarrow> Command" where
  "keep_command env active cmd =
     (if isMaxInProgressTimeout (rv_now env) (q_UpdatedAt cmd) (rv_maxMin env) \<and> \<not> active (q_ID cmd)
      then attempt (ReleaseCommandLease (rv_now env)) cmd
      else attempt (ExtendCommandLease (rv_lease env) (rv_now env)) cmd)"

definition renew_at :: "(Command \<Rightarrow> Command) \<Rightarrow> nat list \<Rightarrow> Command list \<Rightarrow> Command list" where
  "renew_at f idxs commands = fold (\<lambda>idx rows. rows[idx := f (rows ! idx)]) idxs commands"

definition preemptiveCommandRenewal :: "recovery_env \<Rightarrow> (string \<Rightarrow> bool) \<Rightarrow> Command list \<Rightarrow> Command list" where
  "preemptiveCommandRenewal env active commands =
     (let buffer = rv_scanIntervalSec env + 30; bufferSec = (if buffer \<le> 30 then 90 else buffer) in
      renew_at (keep_command env active) (RenewableCommands (rv_now env) commands bufferSec) commands)"

definition autoExtendExpiredCommandLeases :: "recovery_env \<Rightarrow> (string \<Rightarrow> bool) \<Rightarrow> Command list \<Rightarrow> Command list" where
  "autoExtendExpiredCommandLeases env active commands =
     renew_at (keep_command env active) (ExpireCommands (rv_now env) commands) commands"

definition recoverExpiredNotificationLeases :: "int \<Rightarrow> Notification list \<Rightarrow> Notification list" where
  "recoverExpiredNotificationLeases now notifications =
     fold (\<lambda>idx rows. rows[idx := attempt (ReleaseNotificationLease now) (rows ! idx)])
       (ExpireNotifications now notifications) notifications"

section \<open>Applying busy checks\<close>

record busyCheckResult =
  bc_Item :: busyCheckItem
  bc_Busy :: bool
  bc_Undecided :: bool

definition applyBusyCheckCore ::
  "recovery_env \<Rightarrow> ('a queue_row_scheme \<Rightarrow> LeaseError + 'a queue_row_scheme) \<Rightarrow>
   ('a queue_row_scheme \<Rightarrow> LeaseError + 'a queue_row_scheme) \<Rightarrow>
   (int \<Rightarrow> 'a queue_row_scheme \<Rightarrow> LeaseError + 'a queue_row_scheme) \<Rightarrow> busyCheckResult \<Rightarrow>
   'a queue_row_scheme \<Rightarrow> 'a queue_row_scheme" where
  "applyBusyCheckCore env release renew extendGrace bc row =
     (let now = rv_now env; item = bc_Item bc;
          timeout = isMaxInProgressTimeout now (bi_UpdatedAt item) (rv_maxMin env) in
      if \<not> fence_open row (bi_Epoch item) (bi_ExpiresAt item) then row
      else if bc_Undecided bc then
        (if timeout then attempt release row
         else if isGraceLeaseExceeded now (bi_UpdatedAt item) (seconds (rv_dispatchLeaseSec env))
                   (maxGraceLeaseDuration (rv_maxMin env) (rv_scanIntervalSec env))
         then attempt release row
         else attempt (extendGrace (GraceLeaseTTL (rv_lease env) (rv_scanIntervalSec env))) row)
      else if bc_Busy bc \<and> \<not> timeout then attempt renew row
      else attempt release row)"

text \<open>A release of an idle task: a quiet period, and one attempt charged unless progress was seen.\<close>

definition hang_release :: "recovery_env \<Rightarrow> Task \<Rightarrow> Task" where
  "hang_release env task0 =
     (let task = task0\<lparr>tk_NotBefore := Some (fmt_stamp (rv_now env + seconds 120))\<rparr>;
          hadProgress = (tk_LastProgressEpoch task = q_LeaseEpoch task \<and> 0 < q_LeaseEpoch task) in
      if hadProgress \<and> tk_ProgressInterrupts task < rv_maxProgressInterrupts env
      then (let task1 = task\<lparr>tk_ProgressInterrupts := tk_ProgressInterrupts task + 1\<rparr>;
                task2 = (if tk_AttemptsChargedEpoch task1 = q_LeaseEpoch task1 \<and> 0 < q_Attempts task1
                         then task1\<lparr>q_Attempts := q_Attempts task1 - 1, tk_AttemptsChargedEpoch := 0\<rparr> else task1)
            in if ResumeEligible task2 \<and> tk_ResumeAttempts task2 < rv_maxResume env
               then task2\<lparr>tk_ResumeRequested := True\<rparr> else task2)
      else task\<lparr>q_Attempts := q_Attempts task + 1\<rparr>)"

definition task_busy_result :: "recovery_env \<Rightarrow> busyCheckResult \<Rightarrow> Task \<Rightarrow> Task" where
  "task_busy_result env bc task0 =
     (let task = (if bc_Busy bc \<and> \<not> bc_Undecided bc \<and> q_Status task0 = StatusInProgress
                     \<and> bi_Epoch (bc_Item bc) = q_LeaseEpoch task0
                  then task0\<lparr>tk_LastProgressEpoch := q_LeaseEpoch task0\<rparr> else task0);
          task' = applyBusyCheckCore env (ReleaseTaskLease (rv_now env)) (ExtendTaskLease (rv_lease env) (rv_now env))
                    (\<lambda>ttl. ExtendTaskLeaseGrace (rv_now env) ttl) bc task
      in if q_Status task0 = StatusInProgress \<and> q_Status task' = StatusPending \<and> \<not> bc_Busy bc \<and> \<not> bc_Undecided bc
         then hang_release env task' else task')"

text \<open>The first row with the id.\<close>

fun update_row :: "string \<Rightarrow> ('a queue_row_scheme \<Rightarrow> 'a queue_row_scheme) \<Rightarrow> 'a queue_row_scheme list \<Rightarrow> 'a queue_row_scheme list" where
  "update_row i f [] = []"
| "update_row i f (row # rows) = (if q_ID row = i then f row # rows else row # update_row i f rows)"

definition applyTaskBusyCheckResult :: "recovery_env \<Rightarrow> busyCheckResult \<Rightarrow> task_queues \<Rightarrow> task_queues" where
  "applyTaskBusyCheckResult env bc taskQueues =
     (let queueFile = bi_QueueFile (bc_Item bc) in
      case map_of taskQueues queueFile of
        None \<Rightarrow> taskQueues
      | Some tasks \<Rightarrow>
          AList.update queueFile (update_row (bi_EntryID (bc_Item bc)) (task_busy_result env bc) tasks) taskQueues)"

definition applyCommandBusyCheckResult :: "recovery_env \<Rightarrow> busyCheckResult \<Rightarrow> Command list \<Rightarrow> Command list" where
  "applyCommandBusyCheckResult env bc commands =
     update_row (bi_EntryID (bc_Item bc))
       (applyBusyCheckCore env (ReleaseCommandLease (rv_now env)) (ExtendCommandLease (rv_lease env) (rv_now env))
          (\<lambda>ttl. ExtendCommandLeaseGrace (rv_now env) ttl) bc) commands"

end
