(* ===== verification/Dispatch_Result.thy ===== *)
theory Dispatch_Result imports Scan_Recovery begin

text \<open>
  The outcome of a delivery (\<open>internal/daemon/queue_scan_apply.go\<close>, \<open>applyDispatchCore\<close> and its three callers): the
  row is touched only behind the fence of the dispatched lease. The error kinds are the ones the code asks for.
  The daemon looks for the row in every queue of a Go map; ids are unique, so the order of the queues does not matter.
\<close>

section \<open>Operations\<close>

datatype DispatchError =
  BusyUndecided | SubmitConfirmUncertain | RunOnMainPreflightRejected string | OtherDispatchError

text \<open>The delivered item and the error it ended with, if any.\<close>

record dispatchResult =
  dr_Item :: dispatchItem
  dr_Error :: "DispatchError option"

definition applyDispatchCore ::
  "(DispatchError \<Rightarrow> 'a queue_row_scheme \<Rightarrow> 'b) \<Rightarrow> ('a queue_row_scheme \<Rightarrow> 'b) \<Rightarrow> dispatchResult \<Rightarrow>
   'a queue_row_scheme \<Rightarrow> 'b option" where
  "applyDispatchCore onFailure onSuccess dr row =
     (if \<not> fence_open row (di_Epoch (dr_Item dr)) (di_ExpiresAt (dr_Item dr)) then None
      else case dr_Error dr of Some e \<Rightarrow> Some (onFailure e row) | None \<Rightarrow> Some (onSuccess row))"

definition command_dispatch_result :: "int \<Rightarrow> dispatchResult \<Rightarrow> Command \<Rightarrow> Command" where
  "command_dispatch_result now dr cmd =
     (case applyDispatchCore
             (\<lambda>e c. if e = BusyUndecided then attempt (ReleaseCommandLease now) c
                     else if e = SubmitConfirmUncertain then attempt (ReleaseCommandLease now) c
                     else c)
             (\<lambda>c. c) dr cmd of
        None \<Rightarrow> cmd
      | Some cmd' \<Rightarrow> cmd')"

definition applyCommandDispatchResult :: "int \<Rightarrow> dispatchResult \<Rightarrow> Command list \<Rightarrow> Command list" where
  "applyCommandDispatchResult now dr commands =
     (case di_Command (dr_Item dr) of
        None \<Rightarrow> commands
      | Some c \<Rightarrow> update_row (q_ID c) (command_dispatch_result now dr) commands)"

text \<open>The synthetic result of a task that was never started.\<close>

definition writeSyntheticPreflightResult :: "int \<Rightarrow> string \<Rightarrow> string \<Rightarrow> Task \<Rightarrow> recovery_effect list" where
  "writeSyntheticPreflightResult now workerID reason task =
     append_result workerID (synthetic_failed now (PreflightSummary reason) False False task)"

definition task_dispatch_failure ::
  "int \<Rightarrow> string \<Rightarrow> states \<Rightarrow> DispatchError \<Rightarrow> Task \<Rightarrow> Task \<times> states \<times> recovery_effect list" where
  "task_dispatch_failure now queueFile states e task =
     (let release = (attempt (ReleaseTaskLease now) task, states, []) in
      case e of
        RunOnMainPreflightRejected reason \<Rightarrow>
          (case fail_in_place now task of
             Some task' \<Rightarrow> (task', states, writeSyntheticPreflightResult now (workerIDFromPath queueFile) reason task)
           | None \<Rightarrow> release)
      | SubmitConfirmUncertain \<Rightarrow> (task, snd (markTaskRunning (\<lambda>_. now) task states), [])
      | BusyUndecided \<Rightarrow> release
      | OtherDispatchError \<Rightarrow> release)"

definition task_dispatch_result ::
  "int \<Rightarrow> string \<Rightarrow> dispatchResult \<Rightarrow> states \<Rightarrow> Task \<Rightarrow> Task \<times> states \<times> recovery_effect list" where
  "task_dispatch_result now queueFile dr states task =
     (case applyDispatchCore (task_dispatch_failure now queueFile states)
             (\<lambda>t. (t, snd (markTaskRunning (\<lambda>_. now) t states), [])) dr task of
        None \<Rightarrow> (task, states, [])
      | Some r \<Rightarrow> r)"

text \<open>The first queue with the row, the row, and what follows from it.\<close>

fun apply_first ::
  "string \<Rightarrow> (Task \<Rightarrow> Task \<times> states \<times> recovery_effect list) \<Rightarrow> states \<Rightarrow> Task list \<Rightarrow>
   (Task list \<times> states \<times> recovery_effect list) option" where
  "apply_first i f states [] = None"
| "apply_first i f states (task # tasks) =
     (if q_ID task = i then (case f task of (t, s, es) \<Rightarrow> Some (t # tasks, s, es))
      else map_option (\<lambda>(ts, s, es). (task # ts, s, es)) (apply_first i f states tasks))"

fun applyTaskDispatchResult ::
  "int \<Rightarrow> dispatchResult \<Rightarrow> states \<Rightarrow> task_queues \<Rightarrow> task_queues \<times> states \<times> recovery_effect list" where
  "applyTaskDispatchResult now dr states [] = ([], states, [])"
| "applyTaskDispatchResult now dr states ((queueFile, tasks) # queues) =
     (case di_Task (dr_Item dr) of
        None \<Rightarrow> ((queueFile, tasks) # queues, states, [])
      | Some t \<Rightarrow>
          (case apply_first (q_ID t) (task_dispatch_result now queueFile dr states) states tasks of
             Some (tasks', states', effects) \<Rightarrow> ((queueFile, tasks') # queues, states', effects)
           | None \<Rightarrow>
               (case applyTaskDispatchResult now dr states queues of
                  (queues', states', effects) \<Rightarrow> ((queueFile, tasks) # queues', states', effects))))"

definition notification_dispatch_result :: "int \<Rightarrow> dispatchResult \<Rightarrow> Notification \<Rightarrow> Notification" where
  "notification_dispatch_result now dr ntf =
     (case applyDispatchCore (\<lambda>e n. attempt (ReleaseNotificationLease now) n)
             (\<lambda>n. n\<lparr>q_Status := StatusCompleted, q_UpdatedAt := fmt_stamp now\<rparr>) dr ntf of
        None \<Rightarrow> ntf
      | Some ntf' \<Rightarrow> ntf')"

definition applyNotificationDispatchResult :: "int \<Rightarrow> dispatchResult \<Rightarrow> Notification list \<Rightarrow> Notification list" where
  "applyNotificationDispatchResult now dr notifications =
     (case di_Notification (dr_Item dr) of
        None \<Rightarrow> notifications
      | Some n \<Rightarrow> update_row (q_ID n) (notification_dispatch_result now dr) notifications)"

section \<open>Late results\<close>

text \<open>A row that is leased under another epoch, or not at all, is behind the fence.\<close>

lemma fence_closed: "q_Status row \<noteq> StatusInProgress \<or> q_LeaseEpoch row \<noteq> epoch \<Longrightarrow> \<not> fence_open row epoch expires"
  by (auto simp: fence_open_def checkResultFencing_def leaseInvalidReason_def Let_def)

lemma core_stale:
  "q_Status row \<noteq> StatusInProgress \<or> q_LeaseEpoch row \<noteq> di_Epoch (dr_Item dr) \<Longrightarrow> applyDispatchCore f g dr row = None"
  by (simp add: applyDispatchCore_def fence_closed)

lemma busy_stale:
  assumes "q_Status task \<noteq> StatusInProgress \<or> q_LeaseEpoch task \<noteq> bi_Epoch (bc_Item bc)"
  shows "task_busy_result env bc task = task"
proof -
  have t: "(if bc_Busy bc \<and> \<not> bc_Undecided bc \<and> q_Status task = StatusInProgress
      \<and> bi_Epoch (bc_Item bc) = q_LeaseEpoch task then task\<lparr>tk_LastProgressEpoch := q_LeaseEpoch task\<rparr> else task) = task"
    using assms by auto
  have "applyBusyCheckCore env r e g bc task = task" for r e g
    using assms by (simp add: applyBusyCheckCore_def Let_def fence_closed)
  then show ?thesis unfolding task_busy_result_def Let_def t by auto
qed

text \<open>
  C23. What belongs to an old lease never reaches a new one. Once the row that a delivery or a probe was started for has
  been leased again, or is no longer leased, through any sequence of acquire, release and extend calls, the late outcome of
  the delivery changes neither the row nor the task states and writes no result, and the late probe changes nothing
  either.
\<close>

theorem late_results_dropped:
  assumes "AcquireTaskLease lm now owner task = Inr leased"
    and "lease_run (AcquireTaskLease lm) ReleaseTaskLease ExtendTaskLeaseGrace q_LeaseEpoch calls leased = (row, epochs)"
    and "epochs \<noteq> [] \<or> q_Status row \<noteq> StatusInProgress"
    and "di_Epoch (dr_Item dr) = q_LeaseEpoch leased" and "bi_Epoch (bc_Item bc) = q_LeaseEpoch leased"
  shows "task_dispatch_result later queueFile dr states row = (row, states, []) \<and> task_busy_result env bc row = row"
proof -
  have "q_LeaseEpoch row = q_LeaseEpoch leased + int (length epochs)"
    using task_lease.epochs_consecutive [OF assms(2)] by blast
  then have s: "q_Status row \<noteq> StatusInProgress \<or> q_LeaseEpoch row \<noteq> q_LeaseEpoch leased"
    using assms(3) by auto
  show ?thesis
    using busy_stale [of row bc env] s assms(4,5) by (simp add: task_dispatch_result_def core_stale)
qed

definition late_item :: dispatchItem where
  "late_item = \<lparr>di_Kind = ''task'', di_Command = None, di_Task = Some (zero_Task ''t1'' StatusPending),
     di_Notification = None, di_WorkerID = ''worker1'', di_Epoch = 1, di_ExpiresAt = Some (fmt_stamp (seconds 60)),
     di_Resume = False\<rparr>"

definition late_probe :: busyCheckResult where
  "late_probe = \<lparr>bc_Item = \<lparr>bi_EntryID = ''t1'', bi_AgentID = ''worker1'', bi_Epoch = 1,
     bi_QueueFile = ''queue/worker1.yaml'', bi_UpdatedAt = fmt_stamp 0, bi_ExpiresAt = Some (fmt_stamp (seconds 60))\<rparr>,
     bc_Busy = False, bc_Undecided = False\<rparr>"

lemma late_results_dropped_witness:
  "\<exists>row. fst (lease_run (AcquireTaskLease (NewManager 60 None)) ReleaseTaskLease ExtendTaskLeaseGrace q_LeaseEpoch
       [(0, Acquire ''d''), (1, Lease.Release), (2, Acquire ''d'')] (zero_Task ''t1'' StatusPending)) = row
     \<and> q_LeaseEpoch row = 2
     \<and> task_dispatch_result 3 ''queue/worker1.yaml'' \<lparr>dr_Item = late_item, dr_Error = Some OtherDispatchError\<rparr> [] row = (row, [], [])"
proof -
  let ?lm = "NewManager 60 None"
  let ?run = "lease_run (AcquireTaskLease ?lm) ReleaseTaskLease ExtendTaskLeaseGrace q_LeaseEpoch"
  obtain leased where l: "AcquireTaskLease ?lm 0 ''d'' (zero_Task ''t1'' StatusPending) = Inr leased"
    by (simp add: AcquireTaskLease_def acquireLease_def Let_def zero_Task_def table_defs)
  obtain row epochs where r: "?run [(1, Lease.Release), (2, Acquire ''d'')] leased = (row, epochs)" by fastforce
  have "?run [(0, Acquire ''d''), (1, Lease.Release), (2, Acquire ''d'')] (zero_Task ''t1'' StatusPending)
      = (row, q_LeaseEpoch leased # epochs)"
    using l r by simp
  moreover have "snd (?run [(0, Acquire ''d''), (1, Lease.Release), (2, Acquire ''d'')] (zero_Task ''t1'' StatusPending)) = [1, 2]"
    by code_simp
  ultimately have e: "epochs = [2]" "q_LeaseEpoch leased = 1" by simp_all
  have "q_LeaseEpoch row = 2" using task_lease.epochs_consecutive [OF r] e by simp
  moreover note late_results_dropped [OF l r, of "\<lparr>dr_Item = late_item, dr_Error = Some OtherDispatchError\<rparr>" late_probe 3
      "''queue/worker1.yaml''" "[]"]
  ultimately show ?thesis using e l r by (simp add: late_item_def late_probe_def)
qed

section \<open>The hard limit\<close>

text \<open>
  The lease manager takes a limit of zero minutes as switched off; the scan takes it as a limit that every lease with
  a readable time has reached.
\<close>

lemma zero_limit:
  assumes "maxInProgressMin lm = 0" and "parse_stamp (q_UpdatedAt task) = Some t" and "t \<le> now"
  shows "\<not> IsTaskMaxInProgressTimeout lm now task \<and> isMaxInProgressTimeout now (q_UpdatedAt task) (maxInProgressMin lm)"
  using assms by (simp add: isMaxInProgressTimeout_def IsTaskMaxInProgressTimeout_def seconds_def)

end
