(* ===== verification/Dead_Letter.thy ===== *)
theory Dead_Letter imports Dispatch_Result begin

text \<open>
  Dead letters (\<open>internal/daemon/dead_letter.go\<close>): pending rows that used up their attempts leave the queue, and the
  state and result files follow. A maximum of zero switches a pass off. Archive files are the archived rows; their
  pruning is I/O. Generated ids are arguments.
\<close>

section \<open>Operations\<close>

definition dead_letter_due :: "int \<Rightarrow> 'a queue_row_scheme \<Rightarrow> bool" where
  "dead_letter_due maxAttempts row = (q_Status row = StatusPending \<and> maxAttempts \<le> q_Attempts row)"

definition dead_letter_reason :: "string \<Rightarrow> int \<Rightarrow> 'a queue_row_scheme \<Rightarrow> string" where
  "dead_letter_reason setting maxAttempts row =
     ''attempts ('' @ show_int (q_Attempts row) @ '') >= max_attempts ('' @ show_int maxAttempts @ '') for '' @ setting"

definition archived_row :: "int \<Rightarrow> string \<Rightarrow> 'a queue_row_scheme \<Rightarrow> 'a queue_row_scheme" where
  "archived_row now reason row =
     row\<lparr>q_Status := StatusDeadLetter, q_DeadLetteredAt := Some (fmt_stamp now), q_DeadLetterReason := Some reason\<rparr>"

definition fail_plan :: "int \<Rightarrow> CommandState \<Rightarrow> CommandState" where
  "fail_plan now state =
     (if IsPlanTerminal (cs_PlanStatus state) then state
      else state\<lparr>cs_PlanStatus := PlanStatusFailed, cs_UpdatedAt := fmt_stamp now\<rparr>)"

definition update_state :: "(CommandState \<Rightarrow> CommandState) \<Rightarrow> string \<Rightarrow> states \<Rightarrow> states" where
  "update_state f commandID states =
     (case map_of states commandID of None \<Rightarrow> states | Some st \<Rightarrow> AList.update commandID (f st) states)"

definition bufferDeadLetterOrchestratorNotification :: "int \<Rightarrow> string option \<Rightarrow> string \<Rightarrow> string \<Rightarrow> Notification list" where
  "bufferDeadLetterOrchestratorNotification now newID commandID reason =
     (case newID of
        None \<Rightarrow> []
      | Some i \<Rightarrow>
          [\<lparr>q_ID = i, q_Priority = 100, q_Status = StatusPending, q_Attempts = 0, q_LastError = None,
            q_DeadLetteredAt = None, q_DeadLetterReason = None, q_LeaseOwner = None, q_LeaseExpiresAt = None,
            q_LeaseEpoch = 0, q_CreatedAt = fmt_stamp now, q_UpdatedAt = fmt_stamp now,
            nt_CommandID = commandID, nt_Type = NotificationTypeCommandFailed,
            nt_SourceResultID = ''res_dl_'' @ commandID,
            nt_Content = ''command '' @ commandID @ '' dead-lettered: '' @ reason\<rparr>])"

definition commandDeadLetterPostProcess ::
  "int \<Rightarrow> string option \<Rightarrow> string \<Rightarrow> string \<Rightarrow> states \<Rightarrow> states \<times> Notification list" where
  "commandDeadLetterPostProcess now newID commandID reason states =
     (update_state (fail_plan now) commandID states, bufferDeadLetterOrchestratorNotification now newID commandID reason)"

text \<open>The kept rows, the archived rows, the states and the buffered notifications.\<close>

definition ProcessCommandDeadLetters ::
  "int \<Rightarrow> int \<Rightarrow> (string \<Rightarrow> string option) \<Rightarrow> Command list \<Rightarrow> states \<Rightarrow>
   Command list \<times> Command list \<times> states \<times> Notification list" where
  "ProcessCommandDeadLetters now maxAttempts newID commands states =
     (if maxAttempts \<le> 0 then (commands, [], states, [])
      else fold (\<lambda>cmd (kept, archived, sts, ntfs).
          if \<not> dead_letter_due maxAttempts cmd then (kept @ [cmd], archived, sts, ntfs)
          else (let reason = dead_letter_reason ''command_dispatch'' maxAttempts cmd in
            case commandDeadLetterPostProcess now (newID (q_ID cmd)) (q_ID cmd) reason sts of
              (sts', ntfs') \<Rightarrow> (kept, archived @ [archived_row now reason cmd], sts', ntfs @ ntfs')))
        commands ([], [], states, []))"

definition fail_task_state :: "int \<Rightarrow> string \<Rightarrow> CommandState \<Rightarrow> CommandState" where
  "fail_task_state now taskID state =
     (if (case map_of (TaskStates state) taskID of None \<Rightarrow> False | Some s \<Rightarrow> IsTerminal s) then state
      else (SetTaskState taskID StatusFailed (fmt_stamp now) state)\<lparr>cs_UpdatedAt := fmt_stamp now\<rparr>)"

type_synonym result_files = "(string, task_result list) gomap"

definition has_terminal_result :: "string \<Rightarrow> task_result list \<Rightarrow> bool" where
  "has_terminal_result taskID results = (\<exists>r \<in> set results. sr_TaskID r = taskID \<and> IsTerminal (sr_Status r))"

definition dead_letter_result :: "int \<Rightarrow> string \<Rightarrow> string \<Rightarrow> int \<Rightarrow> task_result" where
  "dead_letter_result now commandID taskID leaseEpoch =
     \<lparr>sr_TaskID = taskID, sr_CommandID = commandID, sr_Status = StatusFailed,
      sr_Summary = ReportedSummary ''dead-lettered: dispatch retry exhausted'', sr_PartialChangesPossible = False,
      sr_RetrySafe = False, sr_LeaseEpoch = leaseEpoch, sr_CreatedAt = fmt_stamp now\<rparr>"

definition taskDeadLetterPostProcess ::
  "int \<Rightarrow> string \<Rightarrow> string \<Rightarrow> string \<Rightarrow> int \<Rightarrow> states \<times> result_files \<Rightarrow> states \<times> result_files" where
  "taskDeadLetterPostProcess now commandID taskID workerID leaseEpoch =
     (\<lambda>(states, results).
        (update_state (fail_task_state now taskID) commandID states,
         let rows = zget [] results workerID in
         if has_terminal_result taskID rows then results
         else AList.update workerID (rows @ [dead_letter_result now commandID taskID leaseEpoch]) results))"

definition ProcessTaskDeadLetters ::
  "int \<Rightarrow> int \<Rightarrow> string \<Rightarrow> Task list \<Rightarrow> states \<times> result_files \<Rightarrow>
   Task list \<times> Task list \<times> states \<times> result_files" where
  "ProcessTaskDeadLetters now maxAttempts queueFile tasks files =
     (let workerID = workerIDFromPath queueFile in
      if maxAttempts \<le> 0 \<or> workerID = [] then (tasks, [], files)
      else fold (\<lambda>task (kept, archived, fs).
          if \<not> dead_letter_due maxAttempts task then (kept @ [task], archived, fs)
          else (kept,
                archived @ [archived_row now (dead_letter_reason ''task_dispatch'' maxAttempts task) task],
                taskDeadLetterPostProcess now (tk_CommandID task) (q_ID task) workerID (q_LeaseEpoch task) fs))
        tasks ([], [], files))"

definition ProcessNotificationDeadLetters :: "int \<Rightarrow> int \<Rightarrow> Notification list \<Rightarrow> Notification list \<times> Notification list" where
  "ProcessNotificationDeadLetters now maxAttempts notifications =
     (if maxAttempts \<le> 0 then (notifications, [])
      else (filter (\<lambda>n. \<not> dead_letter_due maxAttempts n) notifications,
            map (\<lambda>n. archived_row now (dead_letter_reason ''orchestrator_notification_dispatch'' maxAttempts n) n)
              (filter (dead_letter_due maxAttempts) notifications)))"

section \<open>What a dead letter pass leaves behind\<close>

lemma archived_row_sels [simp]:
  "q_ID (archived_row now r row) = q_ID row" "q_Status (archived_row now r row) = StatusDeadLetter"
  "tk_CommandID (archived_row now r (task :: Task)) = tk_CommandID task"
  by (simp_all add: archived_row_def)

lemma update_state_lookup: "map_of (update_state f c states) k =
    (if k = c then map_option f (map_of states c) else map_of states k)"
  by (auto simp: update_state_def split: option.splits)

lemma process_fold:
  "fold (\<lambda>task (kept, archived, fs).
      if \<not> due task then (kept @ [task], archived, fs) else (kept, archived @ [arch task], post task fs)) tasks (ks, as, fs)
    = (ks @ filter (\<lambda>t. \<not> due t) tasks, as @ map arch (filter due tasks), fold post (filter due tasks) fs)"
  by (induction tasks arbitrary: ks as fs) simp_all

abbreviation post_process :: "int \<Rightarrow> string \<Rightarrow> Task \<Rightarrow> states \<times> result_files \<Rightarrow> states \<times> result_files" where
  "post_process now workerID task \<equiv>
     taskDeadLetterPostProcess now (tk_CommandID task) (q_ID task) workerID (q_LeaseEpoch task)"

text \<open>A file system that only moves forward: finished tasks stay as they are, results are only appended.\<close>

definition files_grow :: "states \<times> result_files \<Rightarrow> states \<times> result_files \<Rightarrow> bool" where
  "files_grow fs fs' =
     ((\<forall>c. case map_of (fst fs) c of
          None \<Rightarrow> map_of (fst fs') c = None
        | Some st \<Rightarrow> (\<exists>st'. map_of (fst fs') c = Some st'
            \<and> (\<forall>i s. map_of (TaskStates st) i = Some s \<longrightarrow> IsTerminal s \<longrightarrow> map_of (TaskStates st') i = Some s)))
      \<and> (\<forall>w. \<exists>new. zget [] (snd fs') w = zget [] (snd fs) w @ new))"

lemma files_grow_refl [simp]: "files_grow fs fs"
  by (auto simp: files_grow_def split: option.splits)

lemma files_grow_trans:
  assumes "files_grow a b" and "files_grow b c"
  shows "files_grow a c"
  unfolding files_grow_def
proof (intro conjI allI)
  fix k
  show "case map_of (fst a) k of
          None \<Rightarrow> map_of (fst c) k = None
        | Some st \<Rightarrow> (\<exists>st'. map_of (fst c) k = Some st'
            \<and> (\<forall>i s. map_of (TaskStates st) i = Some s \<longrightarrow> IsTerminal s \<longrightarrow> map_of (TaskStates st') i = Some s))"
    using conjunct1 [OF assms(1) [unfolded files_grow_def], rule_format, of k]
      conjunct1 [OF assms(2) [unfolded files_grow_def], rule_format, of k]
    by (auto split: option.splits)
next
  fix w
  show "\<exists>new. zget [] (snd c) w = zget [] (snd a) w @ new"
    using conjunct2 [OF assms(1) [unfolded files_grow_def], rule_format, of w]
      conjunct2 [OF assms(2) [unfolded files_grow_def], rule_format, of w]
    by auto
qed

definition task_settled :: "string \<Rightarrow> Task \<Rightarrow> states \<times> result_files \<Rightarrow> bool" where
  "task_settled workerID task fs =
     ((case map_of (fst fs) (tk_CommandID task) of
         None \<Rightarrow> True
       | Some st \<Rightarrow> (\<exists>s. map_of (TaskStates st) (q_ID task) = Some s \<and> IsTerminal s))
      \<and> has_terminal_result (q_ID task) (zget [] (snd fs) workerID))"

lemma fail_task_state_terminal: "\<exists>s. map_of (TaskStates (fail_task_state now i st)) i = Some s \<and> IsTerminal s"
  by (auto simp: fail_task_state_def SetTaskState_def update_conv' terminal_defs split: option.splits)

lemma fail_task_state_keeps:
  "map_of (TaskStates st) j = Some s \<Longrightarrow> IsTerminal s \<Longrightarrow> map_of (TaskStates (fail_task_state now i st)) j = Some s"
  by (cases "j = i") (simp_all add: fail_task_state_def SetTaskState_def update_conv')

lemma post_process_states:
  "map_of (fst (post_process now w task fs)) c =
     (if c = tk_CommandID task then map_option (fail_task_state now (q_ID task)) (map_of (fst fs) c) else map_of (fst fs) c)"
  by (cases fs) (simp add: taskDeadLetterPostProcess_def update_state_lookup)

lemma post_process_results:
  "zget [] (snd (post_process now w task fs)) v =
     (if v = w \<and> \<not> has_terminal_result (q_ID task) (zget [] (snd fs) w)
      then zget [] (snd fs) w @ [dead_letter_result now (tk_CommandID task) (q_ID task) (q_LeaseEpoch task)]
      else zget [] (snd fs) v)"
  by (cases fs) (simp add: taskDeadLetterPostProcess_def Let_def)

lemma has_terminal_appended: "has_terminal_result i (rows @ [dead_letter_result now c i e])"
  by (simp add: has_terminal_result_def dead_letter_result_def terminal_defs)

lemma post_process_settles: "task_settled w task (post_process now w task fs)"
proof -
  have "has_terminal_result (q_ID task) (zget [] (snd (post_process now w task fs)) w)"
    by (simp add: post_process_results has_terminal_appended)
  then show ?thesis
    using fail_task_state_terminal by (cases "map_of (fst fs) (tk_CommandID task)") (simp_all add: task_settled_def post_process_states)
qed

lemma post_process_grows: "files_grow fs (post_process now workerID task fs)"
  unfolding files_grow_def
proof (intro conjI allI)
  fix c
  show "case map_of (fst fs) c of
        None \<Rightarrow> map_of (fst (post_process now workerID task fs)) c = None
      | Some st \<Rightarrow> (\<exists>st'. map_of (fst (post_process now workerID task fs)) c = Some st'
          \<and> (\<forall>i s. map_of (TaskStates st) i = Some s \<longrightarrow> IsTerminal s \<longrightarrow> map_of (TaskStates st') i = Some s))"
    by (cases "map_of (fst fs) c"; cases "c = tk_CommandID task") (auto simp: post_process_states fail_task_state_keeps)
next
  fix w
  show "\<exists>new. zget [] (snd (post_process now workerID task fs)) w = zget [] (snd fs) w @ new"
    by (simp add: post_process_results)
qed

lemma task_settled_grows: "task_settled w task a \<Longrightarrow> files_grow a b \<Longrightarrow> task_settled w task b"
proof -
  assume a: "task_settled w task a" and g: "files_grow a b"
  obtain new where n: "zget [] (snd b) w = zget [] (snd a) w @ new"
    using conjunct2 [OF g [unfolded files_grow_def], rule_format, of w] by blast
  have "has_terminal_result (q_ID task) (zget [] (snd b) w)"
    using a by (auto simp: task_settled_def has_terminal_result_def n)
  then show ?thesis
    using a conjunct1 [OF g [unfolded files_grow_def], rule_format, of "tk_CommandID task"]
    by (auto simp: task_settled_def split: option.splits)
qed

lemma post_fold:
  "files_grow fs (fold (post_process now w) ts fs) \<and> (\<forall>t \<in> set ts. task_settled w t (fold (post_process now w) ts fs))"
proof (induction ts arbitrary: fs)
  case (Cons t ts)
  have g: "files_grow (post_process now w t fs) (fold (post_process now w) ts (post_process now w t fs))"
    using Cons.IH by blast
  have "files_grow fs (fold (post_process now w) (t # ts) fs)"
    using files_grow_trans [OF post_process_grows g] by simp
  moreover have "task_settled w t (fold (post_process now w) (t # ts) fs)"
    using task_settled_grows [OF post_process_settles g] by simp
  ultimately show ?case using Cons.IH [of "post_process now w t fs"] by simp
qed simp


definition demo_dead :: Task where
  "demo_dead = (zero_Task ''t1'' StatusPending)\<lparr>q_Attempts := 3, tk_CommandID := ''c1''\<rparr>"


end
