(* ===== verification/Task_Budget.thy ===== *)
theory Task_Budget imports Dead_Letter begin

text \<open>
  The retry budget of one task row: what the scans, deliveries and probes of Dispatch_Scan, Scan_Recovery,
  Dispatch_Result and Dead_Letter do to it, as events, and the bound on how often it can be dispatched.
\<close>

section \<open>Events of a row\<close>

datatype row_event =
    Scan int string
  | Delivered int dispatchResult
  | Recovered int Verdict int
  | Probed int busyCheckResult
  | Heartbeat int

text \<open>
  One event. A scan runs the dead letter pass first and then leases the row if it can; \<open>None\<close> is an archived row. The flag
  tells whether the row was dispatched.
\<close>

definition scan_row :: "recovery_env \<Rightarrow> int \<Rightarrow> int \<Rightarrow> string \<Rightarrow> Task \<Rightarrow> Task option \<times> bool" where
  "scan_row env maxAttempts now owner t =
     (if 0 < maxAttempts \<and> dead_letter_due maxAttempts t then (None, False)
      else case AcquireTaskLease (rv_lease env) now owner t of
        Inl e \<Rightarrow> (Some t, False)
      | Inr leased \<Rightarrow> (Some (fst (charge_dispatch (rv_maxResume env) leased)), True))"

definition row_step :: "recovery_env \<Rightarrow> int \<Rightarrow> string \<Rightarrow> string \<Rightarrow> row_event \<Rightarrow> Task \<Rightarrow> Task option \<times> bool" where
  "row_step env maxAttempts queueFile agentID ev t =
     (case ev of
        Scan now owner \<Rightarrow> scan_row env maxAttempts now owner t
      | Delivered now dr \<Rightarrow> (Some (fst (task_dispatch_result now queueFile dr [] t)), False)
      | Recovered now v blockedFor \<Rightarrow>
          (Some (fst (recover_expired (env\<lparr>rv_now := now\<rparr>) queueFile agentID v blockedFor t)), False)
      | Probed now bc \<Rightarrow> (Some (task_busy_result (env\<lparr>rv_now := now\<rparr>) bc t), False)
      | Heartbeat now \<Rightarrow> (Some (attempt (ExtendTaskLease (rv_lease env) now) t), False))"

text \<open>A run of events: the final row, and how many times it was dispatched.\<close>

fun row_run :: "recovery_env \<Rightarrow> int \<Rightarrow> string \<Rightarrow> string \<Rightarrow> row_event list \<Rightarrow> Task \<Rightarrow> Task option \<times> nat" where
  "row_run env maxAttempts queueFile agentID [] t = (Some t, 0)"
| "row_run env maxAttempts queueFile agentID (ev # evs) t =
     (case row_step env maxAttempts queueFile agentID ev t of
        (None, dispatched) \<Rightarrow> (None, if dispatched then 1 else 0)
      | (Some t', dispatched) \<Rightarrow>
          (case row_run env maxAttempts queueFile agentID evs t' of
             (r, n) \<Rightarrow> (r, if dispatched then Suc n else n)))"

section \<open>The budget\<close>

definition spent :: "Task \<Rightarrow> int" where
  "spent t = q_Attempts t + tk_ResumeAttempts t + tk_ProgressInterrupts t"

text \<open>\<open>keeps t t'\<close>: the three ledgers are as they were.\<close>

definition keeps :: "Task \<Rightarrow> Task \<Rightarrow> bool" where
  "keeps t t' = (q_Attempts t' = q_Attempts t \<and> tk_ResumeAttempts t' = tk_ResumeAttempts t
     \<and> tk_ProgressInterrupts t' = tk_ProgressInterrupts t)"

definition within :: "recovery_env \<Rightarrow> Task \<Rightarrow> bool" where
  "within env t = (tk_ResumeAttempts t \<le> max 0 (rv_maxResume env)
     \<and> tk_ProgressInterrupts t \<le> max 0 (rv_maxProgressInterrupts env))"

lemma keeps_refl [simp]: "keeps t t" by (simp add: keeps_def)

lemma keeps_spent: "keeps t t' \<Longrightarrow> within env t \<Longrightarrow> spent t' = spent t \<and> within env t'"
  by (simp add: keeps_def spent_def within_def)

lemma keeps_ops:
  "keeps t (attempt (ReleaseTaskLease now) t)" "keeps t (attempt (ExtendTaskLease lm now) t)"
  "keeps t (attempt (ExtendTaskLeaseGrace now ttl) t)"
  by (auto simp: keeps_def attempt_def ReleaseTaskLease_def ExtendTaskLease_def ExtendTaskLeaseGrace_def
      task_postRelease_def dest!: releaseLease_Inr extendLeaseExpiry_Inr split: sum.splits)

lemma keeps_extended: "ExtendTaskLease lm now t = Inr t' \<Longrightarrow> keeps t t'"
  by (auto simp: keeps_def ExtendTaskLease_def dest!: extendLeaseExpiry_Inr)

lemma keeps_failed: "fail_in_place now t = Some t' \<Longrightarrow> keeps t t'"
  by (auto simp: keeps_def fail_in_place_def split: sum.splits)

lemma keeps_delivered: "keeps t (fst (task_dispatch_result now q dr states t))"
  by (auto simp: task_dispatch_result_def applyDispatchCore_def task_dispatch_failure_def Let_def keeps_ops
      dest: keeps_failed split: option.splits DispatchError.splits)

lemma keeps_progress [simp]: "keeps t (t'\<lparr>tk_LastProgressEpoch := e\<rparr>) = keeps t t'"
  by (simp add: keeps_def)

lemma keeps_recovered: "keeps t (fst (recover_expired env q a v b t))"
  by (cases v) (auto simp: recover_expired_def Let_def keeps_ops failTaskTerminalError_def failTaskBlockedPane_def
      dest: keeps_failed keeps_extended split: sum.splits option.splits)

lemma keeps_core: "keeps t (applyBusyCheckCore env (ReleaseTaskLease n1) (ExtendTaskLease lm n2)
    (\<lambda>ttl. ExtendTaskLeaseGrace n3 ttl) bc t)"
  by (simp add: applyBusyCheckCore_def Let_def keeps_ops)

lemma hang_release_spends:
  "within env t \<Longrightarrow> spent t \<le> spent (hang_release env t) \<and> within env (hang_release env t)"
  by (auto simp: hang_release_def Let_def spent_def within_def)

lemma probed_spends:
  assumes "within env t"
  shows "spent t \<le> spent (task_busy_result env bc t) \<and> within env (task_busy_result env bc t)"
proof -
  define t1 where "t1 = (if bc_Busy bc \<and> \<not> bc_Undecided bc \<and> q_Status t = StatusInProgress
      \<and> bi_Epoch (bc_Item bc) = q_LeaseEpoch t then t\<lparr>tk_LastProgressEpoch := q_LeaseEpoch t\<rparr> else t)"
  define t2 where "t2 = applyBusyCheckCore env (ReleaseTaskLease (rv_now env)) (ExtendTaskLease (rv_lease env) (rv_now env))
      (\<lambda>ttl. ExtendTaskLeaseGrace (rv_now env) ttl) bc t1"
  have "keeps t t1" by (simp add: t1_def keeps_def)
  then have "spent t1 = spent t \<and> within env t1" using assms by (rule keeps_spent)
  then have 2: "spent t2 = spent t \<and> within env t2"
    using keeps_spent [OF keeps_core, of env t1] by (simp add: t2_def)
  have "task_busy_result env bc t = t2 \<or> task_busy_result env bc t = hang_release env t2"
    unfolding task_busy_result_def Let_def t1_def [symmetric] t2_def [symmetric] by simp
  then show ?thesis using 2 hang_release_spends [of env t2] by auto
qed

lemma within_now [simp]: "within (env\<lparr>rv_now := n\<rparr>) t = within env t"
  by (simp add: within_def)

text \<open>A dispatch spends one; nothing gives back more than it takes.\<close>

lemma charge_spends:
  assumes "within env t"
  shows "spent (fst (charge_dispatch (rv_maxResume env) t)) = spent t + 1
    \<and> within env (fst (charge_dispatch (rv_maxResume env) t))"
  using assms by (cases "tk_ResumeRequested t \<and> tk_ResumeAttempts t < rv_maxResume env")
    (auto simp: charge_dispatch_def Let_def spent_def within_def)

lemma scan_row_dispatched:
  assumes "scan_row env maxAttempts now owner t = (Some t', True)" and "0 < maxAttempts" and "within env t"
  shows "spent t' = spent t + 1 \<and> within env t' \<and> q_Attempts t < maxAttempts"
proof -
  from assms(1) obtain leased where l: "AcquireTaskLease (rv_lease env) now owner t = Inr leased"
    and r: "t' = fst (charge_dispatch (rv_maxResume env) leased)" and nd: "\<not> dead_letter_due maxAttempts t"
    using assms(2) by (auto simp: scan_row_def split: if_splits sum.splits)
  have a: "q_Status t = StatusPending" "keeps t leased"
    using acquireLease_Inr [OF l [unfolded AcquireTaskLease_def]]
    by (auto simp: to_in_progress keeps_def task_postAcquire_def)
  note k = keeps_spent [OF a(2) assms(3)]
  show ?thesis
    using charge_spends [of env leased] k a(1) nd unfolding r by (auto simp: dead_letter_due_def)
qed

lemma row_step_spends:
  assumes "row_step env maxAttempts q a ev t = (Some t', d)" and "0 < maxAttempts" and "within env t"
  shows "spent t + (if d then 1 else 0) \<le> spent t' \<and> within env t' \<and> (d \<longrightarrow> q_Attempts t < maxAttempts)"
proof (cases ev)
  case (Scan now owner)
  then have s: "scan_row env maxAttempts now owner t = (Some t', d)" using assms(1) by (simp add: row_step_def)
  show ?thesis
  proof (cases d)
    case True
    then show ?thesis using scan_row_dispatched s assms(2,3) by auto
  next
    case False
    with s have "t' = t" by (auto simp: scan_row_def split: if_splits sum.splits)
    then show ?thesis using False assms(3) by simp
  qed
next
  case (Delivered now dr)
  then show ?thesis using assms keeps_spent [OF keeps_delivered] by (auto simp: row_step_def)
next
  case (Recovered now v b)
  then show ?thesis using assms keeps_spent [OF keeps_recovered] by (auto simp: row_step_def)
next
  case (Probed now bc)
  then show ?thesis using assms probed_spends [of "env\<lparr>rv_now := now\<rparr>" t bc] by (auto simp: row_step_def)
next
  case (Heartbeat now)
  then show ?thesis using assms keeps_spent [OF keeps_ops(2)] by (auto simp: row_step_def)
qed

definition dispatch_budget :: "recovery_env \<Rightarrow> int \<Rightarrow> int" where
  "dispatch_budget env maxAttempts = maxAttempts + max 0 (rv_maxResume env) + max 0 (rv_maxProgressInterrupts env)"

lemma row_run_spends:
  assumes "0 < maxAttempts" and "within env t" and "row_run env maxAttempts q a evs t = (r, n)"
  shows "n = 0 \<or> spent t + int n \<le> dispatch_budget env maxAttempts"
  using assms(2,3)
proof (induction evs arbitrary: t r n)
  case (Cons ev evs)
  obtain s d where s: "row_step env maxAttempts q a ev t = (s, d)" by fastforce
  show ?case
  proof (cases s)
    case None
    then have "\<not> d" using s by (auto simp: row_step_def scan_row_def split: row_event.splits if_splits sum.splits)
    then show ?thesis using Cons.prems(2) s None by simp
  next
    case (Some t')
    obtain r1 n1 where r1: "row_run env maxAttempts q a evs t' = (r1, n1)" by fastforce
    note st = row_step_spends [OF s [unfolded Some] assms(1) Cons.prems(1)]
    have n: "n = (if d then Suc n1 else n1)" using Cons.prems(2) s Some r1 by simp
    have ih: "n1 = 0 \<or> spent t' + int n1 \<le> dispatch_budget env maxAttempts"
      using Cons.IH [OF _ r1] st by blast
    show ?thesis
    proof (cases "d \<and> n1 = 0")
      case True
      then show ?thesis using st Cons.prems(1) n by (auto simp: spent_def within_def dispatch_budget_def)
    next
      case False
      then show ?thesis using st ih n by (auto split: if_splits)
    qed
  qed
qed simp


text \<open>A worker that hangs at every dispatch: two attempts, then the archive.\<close>

definition demo_recovery :: recovery_env where
  "demo_recovery = \<lparr>rv_now = 0, rv_lease = NewManager 60 None, rv_maxMin = 60, rv_scanIntervalSec = 60,
     rv_dispatchLeaseSec = 60, rv_maxProgressInterrupts = 0, rv_maxResume = 0, rv_blockedPaneFailAfter = 0\<rparr>"

definition demo_idle :: "int \<Rightarrow> int \<Rightarrow> busyCheckResult" where
  "demo_idle epoch at = \<lparr>bc_Item = \<lparr>bi_EntryID = ''t1'', bi_AgentID = ''worker1'', bi_Epoch = epoch,
       bi_QueueFile = ''queue/worker1.yaml'', bi_UpdatedAt = fmt_stamp at,
       bi_ExpiresAt = Some (fmt_stamp (at + seconds 60))\<rparr>, bc_Busy = False, bc_Undecided = False\<rparr>"

definition demo_events :: "row_event list" where
  "demo_events = [Scan 0 ''daemon:1'', Probed (seconds 61) (demo_idle 1 0), Scan (seconds 200) ''daemon:1'',
     Probed (seconds 261) (demo_idle 2 (seconds 200)), Scan (seconds 400) ''daemon:1'']"


end
