(* ===== verification/Cancel_Scan.thy ===== *)
theory Cancel_Scan imports Dead_Letter begin

text \<open>
  Cancellation (\<open>internal/daemon/cancel_handler.go\<close>) and the failure cascade of a scan
  (\<open>internal/daemon/queue_scan_collect.go\<close>, \<open>checkPendingDependencyFailuresDeferred\<close> and
  \<open>checkInProgressDependencyFailuresDeferred\<close>), with the scan steps that run them. A running task is only marked
  in the first phase of a scan and cancelled in the last one, if it is still the same lease. The state
  files are a map, so the only read error is a missing state.
\<close>

section \<open>Sweeping a queue\<close>

text \<open>Each row in turn: the row, what it contributes, and the state passed on.\<close>

fun sweep :: "('row \<Rightarrow> 's \<Rightarrow> 'row \<times> 'out list \<times> 's) \<Rightarrow> 'row list \<Rightarrow> 's \<Rightarrow> 'row list \<times> 'out list \<times> 's" where
  "sweep f [] s = ([], [], s)"
| "sweep f (row # rows) s =
     (case f row s of (row', out, s1) \<Rightarrow>
        case sweep f rows s1 of (rows', outs, s2) \<Rightarrow> (row' # rows', out @ outs, s2))"

lemma sweep_length: "sweep f rows s = (rows', outs, s') \<Longrightarrow> length rows' = length rows"
  by (induction rows arbitrary: s rows' outs) (auto split: prod.splits)

section \<open>Operations\<close>

record CancelledTaskResult =
  ct_TaskID :: string
  ct_CommandID :: string
  ct_Status :: string
  ct_Reason :: string
  ct_LeaseEpoch :: int

definition cancelled_result :: "string \<Rightarrow> Task \<Rightarrow> CancelledTaskResult" where
  "cancelled_result reason task =
     \<lparr>ct_TaskID = q_ID task, ct_CommandID = tk_CommandID task, ct_Status = ''cancelled'', ct_Reason = reason,
      ct_LeaseEpoch = q_LeaseEpoch task\<rparr>"

definition cancel_request_reason :: string where
  "cancel_request_reason = ''command_cancel_requested''"

text \<open>The in-memory cache of requested cancellations.\<close>

type_synonym cancelCache = "string list"

definition Mark :: "string \<Rightarrow> cancelCache \<Rightarrow> cancelCache" where
  "Mark commandID cache = List.insert commandID cache"

definition IsMarked :: "string \<Rightarrow> cancelCache \<Rightarrow> bool" where
  "IsMarked commandID cache = (commandID \<in> set cache)"

definition Remove :: "string \<Rightarrow> cancelCache \<Rightarrow> cancelCache" where
  "Remove commandID cache = removeAll commandID cache"

definition cancel_requested :: "states \<Rightarrow> Command \<Rightarrow> bool" where
  "cancel_requested states cmd =
     (case query (\<lambda>st. Inr (IsCommandCancelRequested st)) (q_ID cmd) states of
        Inr requested \<Rightarrow> requested
      | Inl StateNotFound \<Rightarrow> cm_CancelRequestedAt cmd \<noteq> None
      | Inl _ \<Rightarrow> False)"

definition mark_cancelled :: "int \<Rightarrow> string \<Rightarrow> Task \<Rightarrow> states \<Rightarrow> states" where
  "mark_cancelled now reason task states =
     snd (modify (UpdateTaskState now (q_ID task) StatusCancelled reason) (tk_CommandID task) states)"

definition cancel_pending :: "int \<Rightarrow> string \<Rightarrow> Task \<Rightarrow> states \<Rightarrow> Task \<times> CancelledTaskResult list \<times> states" where
  "cancel_pending now commandID task states =
     (if tk_CommandID task \<noteq> commandID \<or> q_Status task \<noteq> StatusPending then (task, [], states)
      else case ValidateCommandTaskQueueTransition (q_Status task) StatusCancelled of
        Inl e \<Rightarrow> (task, [], states)
      | Inr _ \<Rightarrow>
          (task\<lparr>q_Status := StatusCancelled, q_UpdatedAt := fmt_stamp now\<rparr>,
           [cancelled_result cancel_request_reason task], mark_cancelled now cancel_request_reason task states))"

definition CancelPendingTasks :: "int \<Rightarrow> string \<Rightarrow> Task list \<Rightarrow> states \<Rightarrow> Task list \<times> CancelledTaskResult list \<times> states" where
  "CancelPendingTasks now commandID tasks states = sweep (cancel_pending now commandID) tasks states"

definition cancel_plan :: "int \<Rightarrow> CommandState \<Rightarrow> CommandState" where
  "cancel_plan now state =
     (if IsPlanTerminal (cs_PlanStatus state) then state
      else state\<lparr>cs_PlanStatus := PlanStatusCancelled, cs_UpdatedAt := fmt_stamp now\<rparr>)"

definition cancelAutoCompletePostProcess :: "int \<Rightarrow> string \<Rightarrow> states \<Rightarrow> states" where
  "cancelAutoCompletePostProcess now commandID states = update_state (cancel_plan now) commandID states"

definition command_tasks :: "task_queues \<Rightarrow> string \<Rightarrow> Task list" where
  "command_tasks taskQueues commandID = filter (\<lambda>t. tk_CommandID t = commandID) (concat (map snd taskQueues))"

text \<open>\<open>None\<close> when the command is not completed here.\<close>

definition AutoCompleteCancelledCommands :: "int \<Rightarrow> task_queues \<Rightarrow> Command \<Rightarrow> states \<Rightarrow> (Command \<times> states) option" where
  "AutoCompleteCancelledCommands now taskQueues cmd states =
     (let tasks = command_tasks taskQueues (q_ID cmd) in
      if IsTerminal (q_Status cmd) then None
      else if \<not> (\<forall>t \<in> set tasks. IsTerminal (q_Status t)) then None
      else if tasks = [] then None
      else Some (cmd\<lparr>q_Status := StatusCancelled, q_LeaseOwner := None, q_LeaseExpiresAt := None,
                     q_UpdatedAt := fmt_stamp now\<rparr>,
                 cancelAutoCompletePostProcess now (q_ID cmd) states))"

record interruptItem =
  ii_WorkerID :: string
  ii_TaskID :: string
  ii_CommandID :: string
  ii_Epoch :: int

record cancelMarkItem =
  mk_QueueFile :: string
  mk_WorkerID :: string
  mk_TaskID :: string
  mk_CommandID :: string
  mk_LeaseEpoch :: int

definition interrupt_item :: "string \<Rightarrow> Task \<Rightarrow> interruptItem" where
  "interrupt_item workerID task =
     \<lparr>ii_WorkerID = workerID, ii_TaskID = q_ID task, ii_CommandID = tk_CommandID task, ii_Epoch = q_LeaseEpoch task\<rparr>"

definition CollectCancelInterruptItems ::
  "string \<Rightarrow> string \<Rightarrow> string \<Rightarrow> Task list \<Rightarrow> cancelMarkItem list \<times> interruptItem list" where
  "CollectCancelInterruptItems queueFile workerID commandID tasks =
     (let running = filter (\<lambda>t. tk_CommandID t = commandID \<and> q_Status t = StatusInProgress
            \<and> ValidateCommandTaskQueueTransition (q_Status t) StatusCancelled = Inr ()) tasks in
      (map (\<lambda>t. \<lparr>mk_QueueFile = queueFile, mk_WorkerID = workerID, mk_TaskID = q_ID t, mk_CommandID = tk_CommandID t,
                  mk_LeaseEpoch = q_LeaseEpoch t\<rparr>) running,
       map (interrupt_item workerID) (filter (\<lambda>t. q_LeaseOwner t \<noteq> None \<and> workerID \<noteq> []) running)))"

definition cancel_row :: "int \<Rightarrow> Task \<Rightarrow> Task" where
  "cancel_row now task =
     task\<lparr>q_Status := StatusCancelled, q_LeaseOwner := None, q_LeaseExpiresAt := None, q_UpdatedAt := fmt_stamp now\<rparr>"

definition ApplyCancelMark :: "int \<Rightarrow> int \<Rightarrow> Task \<Rightarrow> states \<Rightarrow> (Task \<times> CancelledTaskResult \<times> states) option" where
  "ApplyCancelMark now expectedEpoch task states =
     (if q_Status task \<noteq> StatusInProgress \<and> q_Status task \<noteq> StatusPending then None
      else if q_LeaseEpoch task \<noteq> expectedEpoch then None
      else case ValidateCommandTaskQueueTransition (q_Status task) StatusCancelled of
        Inl e \<Rightarrow> None
      | Inr _ \<Rightarrow> Some (cancel_row now task, cancelled_result cancel_request_reason task,
                       mark_cancelled now cancel_request_reason task states))"

text \<open>The summary of the row is the message the code formats from the reason.\<close>

definition synthetic_cancelled :: "int \<Rightarrow> CancelledTaskResult \<Rightarrow> task_result" where
  "synthetic_cancelled now r =
     \<lparr>sr_TaskID = ct_TaskID r, sr_CommandID = ct_CommandID r, sr_Status = StatusCancelled,
      sr_Summary = CancelledSummary (ct_Reason r), sr_PartialChangesPossible = True, sr_RetrySafe = False,
      sr_LeaseEpoch = ct_LeaseEpoch r, sr_CreatedAt = fmt_stamp now\<rparr>"

definition WriteSyntheticResults :: "int \<Rightarrow> CancelledTaskResult list \<Rightarrow> string \<Rightarrow> result_files \<Rightarrow> result_files" where
  "WriteSyntheticResults now results workerID files =
     (if results = [] then files
      else AList.update workerID (zget [] files workerID @ map (synthetic_cancelled now) results) files)"

section \<open>The failure cascade\<close>

definition cascade_reason :: "string \<Rightarrow> string" where
  "cascade_reason failedDep = ''blocked_dependency_terminal:'' @ failedDep"

definition failed_dependency :: "states \<Rightarrow> Task \<Rightarrow> string option" where
  "failed_dependency states task =
     (case CheckDependencyFailure states task of
        Inr (Some (dep, _)) \<Rightarrow> if dep = [] then None else Some dep
      | _ \<Rightarrow> None)"

definition cascade_pending :: "int \<Rightarrow> Task \<Rightarrow> states \<Rightarrow> Task \<times> CancelledTaskResult list \<times> states" where
  "cascade_pending now task states =
     (if q_Status task \<noteq> StatusPending then (task, [], states)
      else case failed_dependency states task of
        None \<Rightarrow> (task, [], states)
      | Some dep \<Rightarrow>
          (task\<lparr>q_Status := StatusCancelled, q_UpdatedAt := fmt_stamp now\<rparr>,
           [cancelled_result (cascade_reason dep) task], mark_cancelled now (cascade_reason dep) task states))"

definition cascade_results ::
  "int \<Rightarrow> string \<Rightarrow> Task list \<times> CancelledTaskResult list \<times> states \<Rightarrow> result_files \<Rightarrow> Task list \<times> states \<times> result_files" where
  "cascade_results now workerID = (\<lambda>(tasks, results, states) files.
     (tasks, states, if workerID \<noteq> [] then WriteSyntheticResults now results workerID files else files))"

definition checkPendingDependencyFailuresDeferred ::
  "int \<Rightarrow> string \<Rightarrow> Task list \<Rightarrow> states \<Rightarrow> result_files \<Rightarrow> Task list \<times> states \<times> result_files" where
  "checkPendingDependencyFailuresDeferred now workerID tasks states files =
     cascade_results now workerID (sweep (cascade_pending now) tasks states) files"

definition cascade_running ::
  "int \<Rightarrow> string \<Rightarrow> Task \<Rightarrow> states \<Rightarrow> Task \<times> (CancelledTaskResult \<times> interruptItem list) list \<times> states" where
  "cascade_running now workerID task states =
     (if q_Status task \<noteq> StatusInProgress \<or> IsLeaseExpired now (q_LeaseExpiresAt task) then (task, [], states)
      else case failed_dependency states task of
        None \<Rightarrow> (task, [], states)
      | Some dep \<Rightarrow>
          (case ValidateCommandTaskQueueTransition (q_Status task) StatusCancelled of
             Inl e \<Rightarrow> (task, [], states)
           | Inr _ \<Rightarrow>
               (cancel_row now task,
                [(cancelled_result (cascade_reason dep) task, if workerID \<noteq> [] then [interrupt_item workerID task] else [])],
                mark_cancelled now (cascade_reason dep) task states)))"

definition checkInProgressDependencyFailuresDeferred ::
  "int \<Rightarrow> string \<Rightarrow> Task list \<Rightarrow> states \<Rightarrow> result_files \<Rightarrow> (Task list \<times> states \<times> result_files) \<times> interruptItem list" where
  "checkInProgressDependencyFailuresDeferred now workerID tasks states files =
     (case sweep (cascade_running now workerID) tasks states of (tasks', outs, states') \<Rightarrow>
        (cascade_results now workerID (tasks', map fst outs, states') files, concat (map snd outs)))"

section \<open>The scan steps\<close>

record cancel_scan =
  ca_tasks :: task_queues
  ca_states :: states
  ca_results :: result_files
  ca_marks :: "cancelMarkItem list"
  ca_interrupts :: "interruptItem list"
  ca_cache :: cancelCache

definition set_queue :: "string \<Rightarrow> Task list \<Rightarrow> cancel_scan \<Rightarrow> cancel_scan" where
  "set_queue queueFile tasks s = s\<lparr>ca_tasks := AList.update queueFile tasks (ca_tasks s)\<rparr>"

definition cancel_pending_queue :: "int \<Rightarrow> string \<Rightarrow> string \<Rightarrow> cancel_scan \<Rightarrow> cancel_scan" where
  "cancel_pending_queue now commandID queueFile s =
     (case CancelPendingTasks now commandID (zget [] (ca_tasks s) queueFile) (ca_states s) of (tasks, results, states) \<Rightarrow>
        (set_queue queueFile tasks s)\<lparr>ca_states := states, ca_cache := Mark commandID (ca_cache s),
          ca_results := (let w = workerIDFromPath queueFile in
                         if w \<noteq> [] then WriteSyntheticResults now results w (ca_results s) else ca_results s)\<rparr>)"

definition stepCancelPending :: "int \<Rightarrow> Command list \<Rightarrow> cancel_scan \<Rightarrow> cancel_scan" where
  "stepCancelPending now commands s =
     fold (\<lambda>cmd s. if cancel_requested (ca_states s) cmd
                    then fold (cancel_pending_queue now (q_ID cmd)) (map fst (ca_tasks s)) s else s)
       commands s"

definition stepCancelInterrupt :: "Command list \<Rightarrow> cancel_scan \<Rightarrow> cancel_scan" where
  "stepCancelInterrupt commands s =
     fold (\<lambda>cmd s. if cancel_requested (ca_states s) cmd
          then fold (\<lambda>(queueFile, tasks) s.
                 case CollectCancelInterruptItems queueFile (workerIDFromPath queueFile) (q_ID cmd) tasks of
                   (ms, is) \<Rightarrow>
                     s\<lparr>ca_marks := ca_marks s @ ms, ca_interrupts := ca_interrupts s @ is,
                       ca_cache := Mark (q_ID cmd) (ca_cache s)\<rparr>)
               (ca_tasks s) s
          else s)
       commands s"

definition cascade_queue :: "int \<Rightarrow> string \<Rightarrow> cancel_scan \<Rightarrow> cancel_scan" where
  "cascade_queue now queueFile s =
     (let w = workerIDFromPath queueFile in
      case checkPendingDependencyFailuresDeferred now w (zget [] (ca_tasks s) queueFile) (ca_states s) (ca_results s) of
        (tasks1, states1, files1) \<Rightarrow>
          (case checkInProgressDependencyFailuresDeferred now w tasks1 states1 files1 of
             ((tasks2, states2, files2), interrupts) \<Rightarrow>
               (set_queue queueFile tasks2 s)\<lparr>ca_states := states2, ca_results := files2,
                 ca_interrupts := ca_interrupts s @ interrupts\<rparr>))"

definition stepDependencyFailures :: "int \<Rightarrow> cancel_scan \<Rightarrow> cancel_scan" where
  "stepDependencyFailures now s = fold (cascade_queue now) (map fst (ca_tasks s)) s"

text \<open>
  The last phase: a mark is applied to the row it was taken for, if that is still the same lease. The code
  writes the results of all marks after the queues; per file that is the order of the marks.
\<close>

fun apply_mark_rows ::
  "int \<Rightarrow> cancelMarkItem \<Rightarrow> Task list \<Rightarrow> states \<Rightarrow> (Task list \<times> CancelledTaskResult \<times> states) option" where
  "apply_mark_rows now m [] states = None"
| "apply_mark_rows now m (task # tasks) states =
     (if q_ID task = mk_TaskID m
      then map_option (\<lambda>(t, r, st). (t # tasks, r, st)) (ApplyCancelMark now (mk_LeaseEpoch m) task states)
      else map_option (\<lambda>(ts, r, st). (task # ts, r, st)) (apply_mark_rows now m tasks states))"

definition apply_cancel_mark :: "int \<Rightarrow> cancelMarkItem \<Rightarrow> cancel_scan \<Rightarrow> cancel_scan" where
  "apply_cancel_mark now m s =
     (case map_of (ca_tasks s) (mk_QueueFile m) of
        None \<Rightarrow> s
      | Some tasks \<Rightarrow>
          (case apply_mark_rows now m tasks (ca_states s) of
             None \<Rightarrow> s
           | Some (tasks', result, states) \<Rightarrow>
               (set_queue (mk_QueueFile m) tasks' s)\<lparr>ca_states := states,
                 ca_results := (if mk_WorkerID m \<noteq> []
                                then WriteSyntheticResults now [result] (mk_WorkerID m) (ca_results s)
                                else ca_results s)\<rparr>))"

section \<open>What a cancellation leaves behind\<close>

lemma cancel_requested_mark: "cancel_requested (mark_cancelled now r task states) cmd = cancel_requested states cmd"
proof (cases "map_of states (tk_CommandID task)")
  case None
  then show ?thesis by (simp add: mark_cancelled_def modify_def)
next
  case (Some st)
  show ?thesis
  proof (cases "UpdateTaskState now (q_ID task) StatusCancelled r st")
    case (Inl e)
    then show ?thesis by (simp add: mark_cancelled_def modify_def Some)
  next
    case (Inr o')
    then obtain st' where st': "o' = Some st'" "Cancel st' = Cancel st"
      by (auto simp: UpdateTaskState_def SetTaskState_def Let_def split: if_splits sum.splits)
    have "map_of (mark_cancelled now r task states) =
        (map_of states)(tk_CommandID task \<mapsto> st')"
      by (simp add: mark_cancelled_def modify_def Some Inr st' update_conv')
    then show ?thesis
      using Some st'(2) by (cases "q_ID cmd = tk_CommandID task") (simp_all add: cancel_requested_def query_def
          IsCommandCancelRequested_def)
  qed
qed

text \<open>The row of a task whose command is cancelled.\<close>

definition cancelled_row :: "int \<Rightarrow> (string \<Rightarrow> bool) \<Rightarrow> Task \<Rightarrow> Task" where
  "cancelled_row now req t =
     (if req (tk_CommandID t) \<and> q_Status t = StatusPending
      then t\<lparr>q_Status := StatusCancelled, q_UpdatedAt := fmt_stamp now\<rparr> else t)"

lemma cancelled_row_twice: "cancelled_row now p (cancelled_row now q t) = cancelled_row now (\<lambda>c. p c \<or> q c) t"
  by (auto simp: cancelled_row_def)

lemma cancelled_row_False [simp]: "map (cancelled_row now (\<lambda>d. False)) ts = ts"
  by (induction ts) (simp_all add: cancelled_row_def)

lemma pending_cancellable: "ValidateCommandTaskQueueTransition StatusPending StatusCancelled = Inr ()"
  by (simp add: table_defs)

lemma cancel_pending_eq:
  "cancel_pending now c t states =
     (cancelled_row now (\<lambda>d. d = c) t,
      if tk_CommandID t = c \<and> q_Status t = StatusPending then [cancelled_result cancel_request_reason t] else [],
      if tk_CommandID t = c \<and> q_Status t = StatusPending then mark_cancelled now cancel_request_reason t states else states)"
  by (simp add: cancel_pending_def cancelled_row_def pending_cancellable)

lemma CancelPendingTasks_eq:
  "CancelPendingTasks now c tasks states = (rows, results, states') \<Longrightarrow>
     rows = map (cancelled_row now (\<lambda>d. d = c)) tasks
     \<and> results = map (cancelled_result cancel_request_reason)
          (filter (\<lambda>t. tk_CommandID t = c \<and> q_Status t = StatusPending) tasks)
     \<and> cancel_requested states' = cancel_requested states"
  unfolding CancelPendingTasks_def
  by (induction tasks arbitrary: states rows results)
    (auto simp: cancel_pending_eq cancel_requested_mark fun_eq_iff split: prod.splits if_splits)

lemma CancelPendingTasks_states: "cancel_requested (snd (snd (CancelPendingTasks now c tasks states))) = cancel_requested states"
  by (cases "CancelPendingTasks now c tasks states") (auto dest: CancelPendingTasks_eq)

lemma written_results: "zget [] (WriteSyntheticResults now results v files) w =
    zget [] files w @ (if w = v then map (synthetic_cancelled now) results else [])"
  by (simp add: WriteSyntheticResults_def)

lemma cancel_pending_queue_eq:
  "zget [] (ca_tasks (cancel_pending_queue now c q s)) q' =
     (if q' = q then map (cancelled_row now (\<lambda>d. d = c)) (zget [] (ca_tasks s) q) else zget [] (ca_tasks s) q')
   \<and> cancel_requested (ca_states (cancel_pending_queue now c q s)) = cancel_requested (ca_states s)
   \<and> zget [] (ca_results (cancel_pending_queue now c q s)) w = zget [] (ca_results s) w @
     (if w = workerIDFromPath q \<and> w \<noteq> []
      then map (synthetic_cancelled now \<circ> cancelled_result cancel_request_reason)
             (filter (\<lambda>t. tk_CommandID t = c \<and> q_Status t = StatusPending) (zget [] (ca_tasks s) q))
      else [])"
proof -
  obtain rows results states' where r: "CancelPendingTasks now c (zget [] (ca_tasks s) q) (ca_states s) = (rows, results, states')"
    by (cases "CancelPendingTasks now c (zget [] (ca_tasks s) q) (ca_states s)") auto
  note e = CancelPendingTasks_eq [OF r]
  show ?thesis by (simp add: cancel_pending_queue_def r set_queue_def Let_def written_results e comp_def)
qed

lemma cancel_pending_queue_keys: "q \<in> fst ` set (ca_tasks s) \<Longrightarrow>
    fst ` set (ca_tasks (cancel_pending_queue now c q s)) = fst ` set (ca_tasks s)"
  by (auto simp: cancel_pending_queue_def set_queue_def dom_update split: prod.splits)

definition results_grow :: "cancel_scan \<Rightarrow> cancel_scan \<Rightarrow> bool" where
  "results_grow s s' = (\<forall>w. \<exists>new. zget [] (ca_results s') w = zget [] (ca_results s) w @ new)"

lemma results_grow_refl [simp]: "results_grow s s"
  by (simp add: results_grow_def)

lemma results_grow_trans: "results_grow a b \<Longrightarrow> results_grow b c \<Longrightarrow> results_grow a c"
  unfolding results_grow_def by (metis append_assoc)

lemma cancel_pending_queue_grow: "results_grow s (cancel_pending_queue now c q s)"
  unfolding results_grow_def using cancel_pending_queue_eq [of now c q s] by blast

text \<open>One command over a list of queues.\<close>

lemma cancel_queues:
  "(\<forall>q. zget [] (ca_tasks (fold (cancel_pending_queue now c) qs s)) q =
      (if q \<in> set qs then map (cancelled_row now (\<lambda>d. d = c)) (zget [] (ca_tasks s) q) else zget [] (ca_tasks s) q))
   \<and> cancel_requested (ca_states (fold (cancel_pending_queue now c) qs s)) = cancel_requested (ca_states s)
   \<and> results_grow s (fold (cancel_pending_queue now c) qs s)"
proof (induction qs arbitrary: s)
  case (Cons q qs)
  let ?s1 = "cancel_pending_queue now c q s"
  have t: "map (cancelled_row now (\<lambda>d. d = c)) (map (cancelled_row now (\<lambda>d. d = c)) ts)
      = map (cancelled_row now (\<lambda>d. d = c)) ts" for ts
    by (simp add: cancelled_row_twice)
  note q = cancel_pending_queue_eq [of now c q s]
  note ih = Cons.IH [of ?s1]
  have "results_grow s (fold (cancel_pending_queue now c) (q # qs) s)"
    using results_grow_trans [OF cancel_pending_queue_grow [of s now c q]] ih by simp
  then show ?case using ih q t by simp
qed simp

text \<open>A task has its result once its row was cancelled.\<close>

definition cancelled_with_result :: "string \<Rightarrow> Task \<Rightarrow> cancel_scan \<Rightarrow> bool" where
  "cancelled_with_result w t s = (\<exists>r \<in> set (zget [] (ca_results s) w).
     sr_TaskID r = q_ID t \<and> sr_Status r = StatusCancelled \<and> sr_LeaseEpoch r = q_LeaseEpoch t)"

lemma cancelled_with_result_grows:
  "cancelled_with_result w t s \<Longrightarrow> results_grow s s' \<Longrightarrow> cancelled_with_result w t s'"
  unfolding cancelled_with_result_def results_grow_def by (erule allE [where x = w]) auto

lemma cancel_queues_results:
  assumes "q \<in> set qs" and "t \<in> set (zget [] (ca_tasks s) q)" and "tk_CommandID t = c" and "q_Status t = StatusPending"
    and "workerIDFromPath q \<noteq> []"
  shows "cancelled_with_result (workerIDFromPath q) t (fold (cancel_pending_queue now c) qs s)"
  using assms(1,2)
proof (induction qs arbitrary: s)
  case (Cons p qs)
  let ?s1 = "cancel_pending_queue now c p s"
  note e = cancel_pending_queue_eq [of now c p s]
  show ?case
  proof (cases "p = q")
    case True
    have "synthetic_cancelled now (cancelled_result cancel_request_reason t)
        \<in> set (zget [] (ca_results ?s1) (workerIDFromPath q))"
      using Cons.prems(2) assms(3-5) e True by simp
    then have "cancelled_with_result (workerIDFromPath q) t ?s1"
      unfolding cancelled_with_result_def
      by (rule bexI [rotated]) (simp add: synthetic_cancelled_def cancelled_result_def)
    then show ?thesis
      using cancelled_with_result_grows cancel_queues [of now c qs ?s1] by simp
  next
    case False
    then have "q \<in> set qs" "t \<in> set (zget [] (ca_tasks ?s1) q)" using Cons.prems e by auto
    then show ?thesis using Cons.IH by simp
  qed
qed simp

lemma cancel_queues_keys:
  "set qs \<subseteq> fst ` set (ca_tasks s) \<Longrightarrow>
   fst ` set (ca_tasks (fold (cancel_pending_queue now c) qs s)) = fst ` set (ca_tasks s)"
  by (induction qs arbitrary: s) (simp_all add: cancel_pending_queue_keys)

text \<open>All commands.\<close>

definition requested_in :: "states \<Rightarrow> Command list \<Rightarrow> string \<Rightarrow> bool" where
  "requested_in states commands c = (\<exists>cmd \<in> set commands. q_ID cmd = c \<and> cancel_requested states cmd)"

lemma stepCancelPending_Cons:
  "stepCancelPending now (cmd # cmds) s = stepCancelPending now cmds
     (if cancel_requested (ca_states s) cmd then fold (cancel_pending_queue now (q_ID cmd)) (map fst (ca_tasks s)) s else s)"
  by (simp add: stepCancelPending_def)

lemma zget_no_key: "q \<notin> fst ` set m \<Longrightarrow> zget z m q = z"
  by (simp add: zget_def map_of_eq_None_iff [THEN iffD2])

lemma cancel_step:
  "(\<forall>q. zget [] (ca_tasks (stepCancelPending now cmds s)) q =
       map (cancelled_row now (requested_in (ca_states s) cmds)) (zget [] (ca_tasks s) q))
   \<and> results_grow s (stepCancelPending now cmds s)
   \<and> (\<forall>q t. t \<in> set (zget [] (ca_tasks s) q) \<longrightarrow> requested_in (ca_states s) cmds (tk_CommandID t) \<longrightarrow>
       q_Status t = StatusPending \<longrightarrow> workerIDFromPath q \<noteq> [] \<longrightarrow>
       cancelled_with_result (workerIDFromPath q) t (stepCancelPending now cmds s))"
proof (induction cmds arbitrary: s)
  case Nil
  then show ?case by (simp add: stepCancelPending_def requested_in_def cancelled_row_def)
next
  case (Cons cmd cmds)
  define s1 where "s1 = (if cancel_requested (ca_states s) cmd
      then fold (cancel_pending_queue now (q_ID cmd)) (map fst (ca_tasks s)) s else s)"
  note c = cancel_queues [of now "q_ID cmd" "map fst (ca_tasks s)" s]
  have req: "cancel_requested (ca_states s1) = cancel_requested (ca_states s)" using c by (simp add: s1_def)
  have ri: "requested_in (ca_states s) (cmd # cmds) d \<longleftrightarrow>
      q_ID cmd = d \<and> cancel_requested (ca_states s) cmd \<or> requested_in (ca_states s1) cmds d" for d
    by (auto simp: requested_in_def req)
  have t1: "zget [] (ca_tasks s1) q =
      map (cancelled_row now (\<lambda>d. d = q_ID cmd \<and> cancel_requested (ca_states s) cmd)) (zget [] (ca_tasks s) q)" for q
  proof (cases "cancel_requested (ca_states s) cmd")
    case True
    then show ?thesis using c by (cases "q \<in> fst ` set (ca_tasks s)") (simp_all add: s1_def zget_no_key)
  qed (simp add: s1_def)
  have g1: "results_grow s s1" using c by (simp add: s1_def)
  note ih = Cons.IH [of s1]
  have eq: "stepCancelPending now (cmd # cmds) s = stepCancelPending now cmds s1"
    by (simp add: stepCancelPending_Cons s1_def)
  have "zget [] (ca_tasks (stepCancelPending now cmds s1)) q =
      map (cancelled_row now (requested_in (ca_states s) (cmd # cmds))) (zget [] (ca_tasks s) q)" for q
  proof -
    have "(\<lambda>d. requested_in (ca_states s1) cmds d \<or> d = q_ID cmd \<and> cancel_requested (ca_states s) cmd)
        = requested_in (ca_states s) (cmd # cmds)"
      by (auto simp: fun_eq_iff ri)
    then show ?thesis using ih by (simp add: t1 cancelled_row_twice)
  qed
  moreover have "results_grow s (stepCancelPending now cmds s1)" using results_grow_trans [OF g1] ih by blast
  moreover have "cancelled_with_result (workerIDFromPath q) t (stepCancelPending now cmds s1)"
    if t: "t \<in> set (zget [] (ca_tasks s) q)" "requested_in (ca_states s) (cmd # cmds) (tk_CommandID t)"
      "q_Status t = StatusPending" "workerIDFromPath q \<noteq> []" for q t
  proof (cases "q_ID cmd = tk_CommandID t \<and> cancel_requested (ca_states s) cmd")
    case True
    have "q \<in> fst ` set (ca_tasks s)" using t(1) zget_no_key [of q "ca_tasks s" "[]"] by fastforce
    then have "cancelled_with_result (workerIDFromPath q) t s1"
      using cancel_queues_results [of q "map fst (ca_tasks s)" t s "q_ID cmd" now] t True by (simp add: s1_def)
    then show ?thesis using cancelled_with_result_grows ih by blast
  next
    case False
    then have "t \<in> set (zget [] (ca_tasks s1) q)" using t(1) by (auto simp: t1 cancelled_row_def intro!: image_eqI [where x = t])
    moreover have "requested_in (ca_states s1) cmds (tk_CommandID t)" using False t(2) by (auto simp: ri)
    ultimately show ?thesis using ih t(3,4) by blast
  qed
  ultimately show ?case unfolding eq by blast
qed


definition demo_cancel :: cancel_scan where
  "demo_cancel = \<lparr>ca_tasks = [(''queue/worker1.yaml'', [(zero_Task ''t1'' StatusPending)\<lparr>tk_CommandID := ''c1''\<rparr>,
        (zero_Task ''t2'' StatusInProgress)\<lparr>tk_CommandID := ''c1''\<rparr>])],
     ca_states = [], ca_results = [], ca_marks = [], ca_interrupts = [], ca_cache = []\<rparr>"


end
