(* ===== verification/Planner_Signals.thy ===== *)
theory Planner_Signals imports Resolver "HOL-Library.Word" begin

text \<open>
  Signals to the planner (\<open>internal/daemon/queue_dispatch.go\<close> and \<open>applySignalResults\<close> in
  \<open>queue_scan_apply.go\<close>): deduplication, the check before each delivery, the delivery with its inline retries, and what a
  failed delivery does to the signal. The planner's pane is a sequence of outcomes; the jitter of the backoff is an
  argument. The dispatcher runs with a state reader wired.
\<close>

section \<open>The queue\<close>

record PlannerSignal =
  sg_Kind :: string
  sg_CommandID :: string
  sg_PhaseID :: string
  sg_PhaseName :: string
  sg_Message :: string
  sg_Attempts :: int
  sg_CreatedAt :: stamp
  sg_UpdatedAt :: stamp
  sg_LastAttemptAt :: "stamp option"
  sg_NextAttemptAt :: "stamp option"
  sg_LastError :: "string option"
  sg_WorkerID :: string
  sg_Reason :: string
  sg_ConflictBaseRef :: string
  sg_ConflictOursRef :: string
  sg_ConflictTheirsRef :: string
  sg_ConflictFiles :: "string list"
  sg_ResolutionState :: string
  sg_ResolveAttempt :: int
  sg_LastResolutionError :: string
  sg_ConflictGeneration :: string
  sg_ConflictType :: string

record signalKey =
  k_CommandID :: string
  k_PhaseID :: string
  k_Kind :: string
  k_WorkerID :: string
  k_ConflictGeneration :: string

definition signalDedupKey :: "PlannerSignal \<Rightarrow> signalKey" where
  "signalDedupKey s = \<lparr>k_CommandID = sg_CommandID s, k_PhaseID = sg_PhaseID s, k_Kind = sg_Kind s,
     k_WorkerID = sg_WorkerID s, k_ConflictGeneration = sg_ConflictGeneration s\<rparr>"

definition buildSignalIndex :: "PlannerSignal list \<Rightarrow> signalKey list" where
  "buildSignalIndex signals = fold (List.insert \<circ> signalDedupKey) signals []"

definition upsertPlannerSignal ::
  "PlannerSignal \<Rightarrow> PlannerSignal list \<times> signalKey list \<Rightarrow> PlannerSignal list \<times> signalKey list" where
  "upsertPlannerSignal sig = (\<lambda>(signals, index).
     if signalDedupKey sig \<in> set index then (signals, index)
     else (signals @ [sig], List.insert (signalDedupKey sig) index))"

definition signalKindPriority :: "string \<Rightarrow> nat" where
  "signalKindPriority kind =
     (if kind \<in> {''merge_conflict'', ''commit_failed''} then 0
      else if kind \<in> {''conflict_resolution_requested'', ''conflict_resolution_ready'', ''conflict_resolution_failed'',
        ''conflict_escalation''} then 1
      else if kind \<in> {''circuit_breaker_tripped'', ''publish_quarantined''} then 2
      else if kind = ''fill_timeout'' then 3
      else if kind = ''awaiting_fill'' then 4
      else if kind = ''publish_completed'' then 5
      else if kind = ''phase_diagnosis'' then 6
      else 10)"

section \<open>The check before a delivery\<close>

record signalDeliveryItem =
  si_CommandID :: string
  si_PhaseID :: string
  si_Kind :: string
  si_WorkerID :: string
  si_ConflictGeneration :: string
  si_Message :: string

definition delivery_item :: "PlannerSignal \<Rightarrow> signalDeliveryItem" where
  "delivery_item sig = \<lparr>si_CommandID = sg_CommandID sig, si_PhaseID = sg_PhaseID sig, si_Kind = sg_Kind sig,
     si_WorkerID = sg_WorkerID sig, si_ConflictGeneration = sg_ConflictGeneration sig, si_Message = sg_Message sig\<rparr>"

datatype signal_fate = Wait | Drop | Deliver

definition isCommandTerminalInQueue :: "Command list \<Rightarrow> string \<Rightarrow> bool" where
  "isCommandTerminalInQueue commands commandID =
     (case find (\<lambda>c. q_ID c = commandID) commands of None \<Rightarrow> False | Some c \<Rightarrow> IsTerminal (q_Status c))"

definition backing_off :: "int \<Rightarrow> PlannerSignal \<Rightarrow> bool" where
  "backing_off now sig =
     (case sg_NextAttemptAt sig of
        None \<Rightarrow> False
      | Some s \<Rightarrow> (case parse_stamp s of None \<Rightarrow> False | Some nextAt \<Rightarrow> now < nextAt))"

definition phase_signal_fate :: "states \<Rightarrow> PlannerSignal \<Rightarrow> signal_fate" where
  "phase_signal_fate states sig =
     (case GetPhaseStatus states (sg_CommandID sig) (sg_PhaseID sig) of
        Inl e \<Rightarrow> (case e of PhaseNotFound _ \<Rightarrow> Drop | StateNotFound \<Rightarrow> Drop | _ \<Rightarrow> Wait)
      | Inr status \<Rightarrow>
          if sg_Kind sig = ''awaiting_fill'' \<and> status \<noteq> PhaseStatusAwaitingFill then Drop
          else if sg_Kind sig = ''fill_timeout'' \<and> status \<noteq> PhaseStatusTimedOut then Drop
          else Deliver)"

text \<open>\<open>fresh\<close> is the command queue read again from disk, \<open>None\<close> when that fails.\<close>

definition command_signal_fate ::
  "states \<Rightarrow> Command list \<Rightarrow> Command list option \<Rightarrow> PlannerSignal \<Rightarrow> signal_fate" where
  "command_signal_fate states commands fresh sig =
     (case query (\<lambda>st. Inr (GetCommandPhases st)) (sg_CommandID sig) states of
        Inl e \<Rightarrow> (case e of StateNotFound \<Rightarrow> Drop | _ \<Rightarrow> Wait)
      | Inr _ \<Rightarrow>
          (let terminalCQ = (if sg_Kind sig = ''publish_completed''
                             then (case fresh of Some cq \<Rightarrow> cq | None \<Rightarrow> commands) else commands) in
           if sg_Kind sig = ''publish_completed'' \<and> sg_Reason sig \<noteq> ''deferred_complete_finalized''
              \<and> isCommandTerminalInQueue terminalCQ (sg_CommandID sig) then Drop
           else if sg_Kind sig = ''publish_failed'' then Drop
           else Deliver))"

definition signal_fate_of :: "int \<Rightarrow> states \<Rightarrow> Command list \<Rightarrow> Command list option \<Rightarrow> PlannerSignal \<Rightarrow> signal_fate" where
  "signal_fate_of now states commands fresh sig =
     (if backing_off now sig then Wait
      else if sg_PhaseID sig \<noteq> [] \<and> \<not> has_prefix (sg_PhaseID sig) ''__'' then phase_signal_fate states sig
      else command_signal_fate states commands fresh sig)"

text \<open>The retained signals and the batch for delivery; \<open>sort_key\<close> is stable, as \<open>sort.SliceStable\<close> is.\<close>

definition stepPlannerSignalsDeferred ::
  "int \<Rightarrow> states \<Rightarrow> Command list \<Rightarrow> Command list option \<Rightarrow> PlannerSignal list \<Rightarrow>
   PlannerSignal list \<times> signalDeliveryItem list" where
  "stepPlannerSignalsDeferred now states commands fresh signals =
     (let fate = signal_fate_of now states commands fresh in
      (filter (\<lambda>s. fate s \<noteq> Drop) signals,
       sort_key (\<lambda>i. signalKindPriority (si_Kind i)) (map delivery_item (filter (\<lambda>s. fate s = Deliver) signals))))"

section \<open>Delivery\<close>

datatype DeliveryError = DeliveryCancelled | SubmitUncertain | AgentBusy | DeliveryFailed

text \<open>
  \<open>outcome\<close> is what each attempt ends with and \<open>done\<close> whether the context is over before it. The loop makes one attempt
  and as many retries as configured.
\<close>

function deliver_from ::
  "nat \<Rightarrow> (nat \<Rightarrow> bool) \<Rightarrow> (nat \<Rightarrow> DeliveryError option) \<Rightarrow> nat \<Rightarrow> DeliveryError option \<Rightarrow> DeliveryError option" where
  "deliver_from maxRetries over outcome i lastErr =
     (if maxRetries < i then lastErr
      else if over i then Some DeliveryCancelled
      else case outcome i of
        None \<Rightarrow> None
      | Some e \<Rightarrow> if e = SubmitUncertain then Some e else deliver_from maxRetries over outcome (Suc i) (Some e))"
  by pat_completeness auto
termination by (relation "measure (\<lambda>(m, d, out, i, e). Suc m - i)") auto

declare deliver_from.simps [simp del]

definition deliverPlannerSignal ::
  "nat \<Rightarrow> (nat \<Rightarrow> bool) \<Rightarrow> (nat \<Rightarrow> DeliveryError option) \<Rightarrow> DeliveryError option" where
  "deliverPlannerSignal maxRetries over outcome = deliver_from maxRetries over outcome 0 None"

section \<open>Backoff\<close>

text \<open>On Go's 64-bit integers: a shift by 64 or more is zero, and the product wraps around.\<close>

definition backoff_sec :: "int \<Rightarrow> 64 word \<Rightarrow> 64 word" where
  "backoff_sec scanIntervalSec attempts0 =
     (let base = (if attempts0 \<le>s 3 then 2 else 5);
          maxSec = (if scanIntervalSec \<le> 0 then 10 else word_of_int scanIntervalSec);
          attempts = (if attempts0 <s 1 then 1 else attempts0);
          raw = base * push_bit (unat (attempts - 1)) 1;
          capped = (if maxSec <s raw then maxSec else raw)
      in if capped <s base then base else capped)"

definition computeSignalBackoff :: "(int \<Rightarrow> int) \<Rightarrow> int \<Rightarrow> int \<Rightarrow> int" where
  "computeSignalBackoff jitter scanIntervalSec attempts =
     jitter (seconds (sint (backoff_sec scanIntervalSec (word_of_int attempts))))"

section \<open>The outcome of a delivery\<close>

record signalDeliveryResult =
  sd_Item :: signalDeliveryItem
  sd_Error :: "DeliveryError option"

definition item_key :: "signalDeliveryItem \<Rightarrow> signalKey" where
  "item_key i = \<lparr>k_CommandID = si_CommandID i, k_PhaseID = si_PhaseID i, k_Kind = si_Kind i,
     k_WorkerID = si_WorkerID i, k_ConflictGeneration = si_ConflictGeneration i\<rparr>"

record signal_env =
  sv_now :: int
  sv_jitter :: "int \<Rightarrow> int"
  sv_scanIntervalSec :: int
  sv_maxAttempts :: int
  sv_errorText :: "DeliveryError \<Rightarrow> string"

text \<open>What an attempt leaves of the signal: \<open>None\<close> when it was delivered or given up.\<close>

definition retry_later :: "signal_env \<Rightarrow> PlannerSignal \<Rightarrow> PlannerSignal" where
  "retry_later env sig =
     sig\<lparr>sg_NextAttemptAt := Some (fmt_stamp (sv_now env +
           computeSignalBackoff (sv_jitter env) (sv_scanIntervalSec env) (sg_Attempts sig)))\<rparr>"

definition attempted :: "signal_env \<Rightarrow> DeliveryError option \<Rightarrow> PlannerSignal \<Rightarrow> PlannerSignal option" where
  "attempted env err sig0 =
     (let sig = sig0\<lparr>sg_LastAttemptAt := Some (fmt_stamp (sv_now env)), sg_Attempts := sg_Attempts sig0 + 1,
                     sg_UpdatedAt := fmt_stamp (sv_now env)\<rparr> in
      case err of
        None \<Rightarrow> None
      | Some e \<Rightarrow>
          (let failed = sig\<lparr>sg_LastError := Some (sv_errorText env e)\<rparr> in
           if e = SubmitUncertain then (if sg_Attempts failed < 2 then Some (retry_later env failed) else None)
           else if 0 < sv_maxAttempts env \<and> sv_maxAttempts env \<le> sg_Attempts failed then None
           else Some (retry_later env failed)))"

text \<open>The results are a map by key; a result is used for the first signal with its key and then removed.\<close>

definition result_map :: "signalDeliveryResult list \<Rightarrow> (signalKey, DeliveryError option) gomap" where
  "result_map results = fold (\<lambda>r m. AList.update (item_key (sd_Item r)) (sd_Error r) m) results []"

fun apply_results ::
  "signal_env \<Rightarrow> (signalKey, DeliveryError option) gomap \<Rightarrow> PlannerSignal list \<Rightarrow> PlannerSignal list" where
  "apply_results env m [] = []"
| "apply_results env m (sig # signals) =
     (case map_of m (signalDedupKey sig) of
        None \<Rightarrow> sig # apply_results env m signals
      | Some err \<Rightarrow>
          (case attempted env err sig of None \<Rightarrow> [] | Some s \<Rightarrow> [s])
          @ apply_results env (AList.delete (signalDedupKey sig) m) signals)"

definition applySignalResults :: "signal_env \<Rightarrow> signalDeliveryResult list \<Rightarrow> PlannerSignal list \<Rightarrow> PlannerSignal list" where
  "applySignalResults env results signals = apply_results env (result_map results) signals"

section \<open>Properties of the backoff\<close>

lemma sint_small: "sint (2 :: 64 word) = 2" "sint (3 :: 64 word) = 3" "sint (5 :: 64 word) = 5" "sint (10 :: 64 word) = 10"
  by simp_all

lemma sint_limit: "0 < n \<Longrightarrow> n < 2 ^ 63 \<Longrightarrow> sint (word_of_int n :: 64 word) = n"
  by (simp add: sint_sbintrunc' signed_take_bit_int_eq_self_iff)



section \<open>Properties of the queue\<close>

lemma index_set [simp]: "set (buildSignalIndex signals) = signalDedupKey ` set signals"
proof -
  have "set (fold (List.insert \<circ> signalDedupKey) signals acc) = set acc \<union> signalDedupKey ` set signals" for acc
    by (induction signals arbitrary: acc) auto
  then show ?thesis by (simp add: buildSignalIndex_def)
qed

text \<open>An attempt keeps the identity of the signal.\<close>

lemma attempted_key: "attempted env err sig = Some sig' \<Longrightarrow> signalDedupKey sig' = signalDedupKey sig"
  by (auto simp: attempted_def retry_later_def signalDedupKey_def Let_def split: option.splits if_splits)

lemma apply_results_unmatched:
  "(\<forall>s \<in> set signals. map_of m (signalDedupKey s) = map_of m' (signalDedupKey s)) \<Longrightarrow> distinct (map signalDedupKey signals) \<Longrightarrow>
   apply_results env m signals = apply_results env m' signals"
proof (induction signals arbitrary: m m')
  case (Cons sig signals)
  have d: "\<forall>s \<in> set signals. signalDedupKey s \<noteq> signalDedupKey sig" using Cons.prems(2) by (auto simp: image_iff)
  show ?case
  proof (cases "map_of m (signalDedupKey sig)")
    case None
    then show ?thesis using Cons.prems Cons.IH [of m m'] by simp
  next
    case (Some err)
    have "apply_results env (AList.delete (signalDedupKey sig) m) signals
        = apply_results env (AList.delete (signalDedupKey sig) m') signals"
      by (rule Cons.IH) (use Cons.prems d in \<open>simp_all add: delete_conv'\<close>)
    then show ?thesis using Some Cons.prems(1) by simp
  qed
qed simp

definition signal_after :: "signal_env \<Rightarrow> (signalKey, DeliveryError option) gomap \<Rightarrow> PlannerSignal \<Rightarrow> PlannerSignal option" where
  "signal_after env m sig =
     (case map_of m (signalDedupKey sig) of None \<Rightarrow> Some sig | Some err \<Rightarrow> attempted env err sig)"

lemma apply_results_spec:
  "distinct (map signalDedupKey signals) \<Longrightarrow> apply_results env m signals = List.map_filter (signal_after env m) signals"
proof (induction signals)
  case (Cons sig signals)
  have d: "\<forall>s \<in> set signals. signalDedupKey s \<noteq> signalDedupKey sig" using Cons.prems by (auto simp: image_iff)
  have "apply_results env (AList.delete (signalDedupKey sig) m) signals = apply_results env m signals"
    by (rule apply_results_unmatched) (use d Cons.prems in \<open>simp_all add: delete_conv'\<close>)
  then show ?case using Cons by (simp add: signal_after_def List.map_filter_simps split: option.splits)
qed (simp add: List.map_filter_simps)

lemma result_map_lookup:
  "distinct (map (item_key \<circ> sd_Item) results) \<Longrightarrow> r \<in> set results \<Longrightarrow>
   map_of (result_map results) (item_key (sd_Item r)) = Some (sd_Error r)"
proof -
  have fold: "map_of (fold (\<lambda>r m. AList.update (item_key (sd_Item r)) (sd_Error r) m) rs m) k =
      (case map_of (rev (map (\<lambda>r. (item_key (sd_Item r), sd_Error r)) rs)) k of Some v \<Rightarrow> Some v | None \<Rightarrow> map_of m k)"
    for rs m k
    by (induction rs arbitrary: m) (auto simp: update_conv' map_add_def split: option.splits)
  assume a: "distinct (map (item_key \<circ> sd_Item) results)" "r \<in> set results"
  have "map_of (rev (map (\<lambda>r. (item_key (sd_Item r), sd_Error r)) results)) (item_key (sd_Item r)) = Some (sd_Error r)"
    by (rule map_of_is_SomeI) (use a in \<open>auto simp: comp_def rev_map [symmetric]\<close>)
  then show "map_of (result_map results) (item_key (sd_Item r)) = Some (sd_Error r)"
    unfolding result_map_def by (subst fold) simp
qed

text \<open>A run of what happens to the queue; each scan reads the states and the command queue as they are then.\<close>

datatype signal_op =
    Upsert PlannerSignal
  | Evaluate int states "Command list" "Command list option"
  | Apply signal_env "signalDeliveryResult list"

definition signal_step :: "signal_op \<Rightarrow> PlannerSignal list \<Rightarrow> PlannerSignal list" where
  "signal_step op signals =
     (case op of
        Upsert sig \<Rightarrow> fst (upsertPlannerSignal sig (signals, buildSignalIndex signals))
      | Evaluate now states commands fresh \<Rightarrow> fst (stepPlannerSignalsDeferred now states commands fresh signals)
      | Apply env results \<Rightarrow> applySignalResults env results signals)"

lemma map_filter_keys:
  assumes "\<And>s s'. f s = Some s' \<Longrightarrow> signalDedupKey s' = signalDedupKey s"
  shows "distinct (map signalDedupKey signals) \<Longrightarrow> distinct (map signalDedupKey (List.map_filter f signals))
    \<and> signalDedupKey ` set (List.map_filter f signals) \<subseteq> signalDedupKey ` set signals"
  using assms by (induction signals) (auto simp: List.map_filter_simps split: option.splits)

lemma signal_after_key: "signal_after env m sig = Some sig' \<Longrightarrow> signalDedupKey sig' = signalDedupKey sig"
  by (auto simp: signal_after_def dest: attempted_key split: option.splits)

lemma signal_step_keyed:
  assumes "distinct (map signalDedupKey signals)"
  shows "distinct (map signalDedupKey (signal_step op signals))"
proof (cases op)
  case (Upsert sig)
  then show ?thesis using assms by (auto simp: signal_step_def upsertPlannerSignal_def)
next
  case (Evaluate now states commands fresh)
  then show ?thesis using assms by (simp add: signal_step_def stepPlannerSignalsDeferred_def Let_def distinct_map_filter)
next
  case (Apply env results)
  then show ?thesis
    using map_filter_keys [OF signal_after_key assms] by (simp add: signal_step_def applySignalResults_def apply_results_spec [OF assms])
qed

text \<open>
  The signal queue holds each signal once: over any sequence of upserts, evaluations and applied delivery
  results, no two signals have the same identity, so a result always finds the one signal it belongs to; the delivery
  batch is made of signals that stay in the queue until their result arrives, the most urgent first.
\<close>

theorem signal_queue_keyed:
  assumes "distinct (map signalDedupKey signals)" and "final = fold signal_step ops signals"
  shows "distinct (map signalDedupKey final)
    \<and> (\<forall>now states commands fresh. case stepPlannerSignalsDeferred now states commands fresh final of (kept, batch) \<Rightarrow>
         item_key ` set batch \<subseteq> signalDedupKey ` set kept
         \<and> sorted (map (\<lambda>i. signalKindPriority (si_Kind i)) batch))"
proof -
  have "distinct (map signalDedupKey (fold signal_step ops signals))"
    using assms(1) by (induction ops arbitrary: signals) (simp_all add: signal_step_keyed)
  then show ?thesis
    by (auto simp: assms(2) stepPlannerSignalsDeferred_def Let_def delivery_item_def item_key_def signalDedupKey_def)
qed

text \<open>
  What a delivery does to its signal, for every signal of the queue and every set of results: a signal without a result
  is unchanged, a delivered one is gone, and a failed one keeps its place with one attempt more and a later time, unless
  its attempts are used up (two when the submit stayed unconfirmed).
\<close>

theorem signal_results_matched:
  assumes "distinct (map signalDedupKey signals)" and "distinct (map (item_key \<circ> sd_Item) results)"
  shows "applySignalResults env results signals = List.map_filter (\<lambda>sig.
      case find (\<lambda>r. item_key (sd_Item r) = signalDedupKey sig) results of
        None \<Rightarrow> Some sig
      | Some r \<Rightarrow> attempted env (sd_Error r) sig) signals"
proof -
  have "map_of (result_map results) k = map_option sd_Error (find (\<lambda>r. item_key (sd_Item r) = k) results)" for k
  proof (cases "find (\<lambda>r. item_key (sd_Item r) = k) results")
    case None
    then have "k \<notin> (item_key \<circ> sd_Item) ` set results" by (auto simp: find_None_iff)
    moreover have "fst ` set (fold (\<lambda>r m. AList.update (item_key (sd_Item r)) (sd_Error r) m) rs m)
        = fst ` set m \<union> (item_key \<circ> sd_Item) ` set rs"
      for rs :: "signalDeliveryResult list" and m :: "(signalKey, DeliveryError option) gomap"
      by (induction rs arbitrary: m) (auto simp: dom_update)
    ultimately show ?thesis using None by (simp add: result_map_def map_of_eq_None_iff)
  next
    case (Some r)
    then have "r \<in> set results" "item_key (sd_Item r) = k" using find_cases [OF Some] by auto
    then show ?thesis using result_map_lookup [OF assms(2)] Some by auto
  qed
  then have "signal_after env (result_map results) = (\<lambda>sig.
      case find (\<lambda>r. item_key (sd_Item r) = signalDedupKey sig) results of
        None \<Rightarrow> Some sig | Some r \<Rightarrow> attempted env (sd_Error r) sig)"
    by (auto simp: signal_after_def fun_eq_iff split: option.splits)
  then show ?thesis by (simp add: applySignalResults_def apply_results_spec [OF assms(1)])
qed

definition demo_signal :: "string \<Rightarrow> string \<Rightarrow> PlannerSignal" where
  "demo_signal kind worker = \<lparr>sg_Kind = kind, sg_CommandID = ''c1'', sg_PhaseID = [], sg_PhaseName = [], sg_Message = [],
     sg_Attempts = 0, sg_CreatedAt = fmt_stamp 0, sg_UpdatedAt = fmt_stamp 0, sg_LastAttemptAt = None,
     sg_NextAttemptAt = None, sg_LastError = None, sg_WorkerID = worker, sg_Reason = [], sg_ConflictBaseRef = [],
     sg_ConflictOursRef = [], sg_ConflictTheirsRef = [], sg_ConflictFiles = [], sg_ResolutionState = [],
     sg_ResolveAttempt = 0, sg_LastResolutionError = [], sg_ConflictGeneration = [], sg_ConflictType = []\<rparr>"

definition demo_signal_env :: signal_env where
  "demo_signal_env = \<lparr>sv_now = 0, sv_jitter = (\<lambda>d. d), sv_scanIntervalSec = 60, sv_maxAttempts = 0, sv_errorText = (\<lambda>_. ''e'')\<rparr>"

lemma signal_queue_keyed_witness:
  "fold signal_step [Upsert (demo_signal ''commit_failed'' ''w1''), Upsert (demo_signal ''commit_failed'' ''w2''),
      Upsert (demo_signal ''commit_failed'' ''w1'')] []
     = [demo_signal ''commit_failed'' ''w1'', demo_signal ''commit_failed'' ''w2'']
   \<and> distinct (map signalDedupKey [demo_signal ''commit_failed'' ''w1'', demo_signal ''commit_failed'' ''w2''])"
proof -
  let ?ops = "[Upsert (demo_signal ''commit_failed'' ''w1''), Upsert (demo_signal ''commit_failed'' ''w2''),
      Upsert (demo_signal ''commit_failed'' ''w1'')]"
  have r: "fold signal_step ?ops [] = [demo_signal ''commit_failed'' ''w1'', demo_signal ''commit_failed'' ''w2'']"
    by (simp add: signal_step_def upsertPlannerSignal_def signalDedupKey_def demo_signal_def)
  show ?thesis using signal_queue_keyed [of "[]" "fold signal_step ?ops []" ?ops] r by simp
qed

lemma signal_results_matched_witness:
  "map sg_WorkerID (applySignalResults demo_signal_env
     [\<lparr>sd_Item = delivery_item (demo_signal ''commit_failed'' ''w2''), sd_Error = None\<rparr>]
     [demo_signal ''commit_failed'' ''w1'', demo_signal ''commit_failed'' ''w2'']) = [''w1'']"
  by (subst signal_results_matched)
    (simp_all add: signalDedupKey_def demo_signal_def item_key_def delivery_item_def attempted_def List.map_filter_simps)

end
