(* ===== verification/Worker_Assign.thy ===== *)
theory Worker_Assign imports Config Queue_Model begin

text \<open>
  The assignment of tasks to workers (\<open>internal/plan/worker_assign.go\<close>), with the model names, runtimes and
  capabilities it reads (\<open>internal/model/runtime.go\<close>, \<open>capability.go\<close>, \<open>config.go\<close>). The map of worker
  states is a list without repeated ids; its order stands for Go's iteration order. The adaptive selector is an argument.
\<close>

section \<open>Models, runtimes, capabilities\<close>

definition RuntimeClaudeCode :: string where "RuntimeClaudeCode = ''claude-code''"
definition RuntimeCodex :: string where "RuntimeCodex = ''codex''"
definition RuntimeGemini :: string where "RuntimeGemini = ''gemini''"

definition ParseRuntimeFromModel :: "string \<Rightarrow> string \<times> string" where
  "ParseRuntimeFromModel modelName =
     (if modelName = RuntimeCodex then (RuntimeCodex, [])
      else if has_prefix modelName ''codex-'' then (RuntimeCodex, modelName)
      else if modelName = RuntimeGemini then (RuntimeGemini, [])
      else if has_prefix modelName ''gemini-'' then (RuntimeGemini, modelName)
      else (RuntimeClaudeCode, modelName))"

definition Family :: "string \<Rightarrow> string" where
  "Family name =
     (if name \<in> {[], ''sonnet'', ''opus'', ''haiku''} then name
      else if has_prefix name ''claude-'' then
        (let family = takeWhile (\<lambda>c. c \<noteq> CHR ''-'') (trim_prefix name ''claude-'') in
         if family \<in> {''sonnet'', ''opus'', ''haiku''} then family else name)
      else name)"

definition DefaultCapabilitiesForRuntime :: "string \<Rightarrow> string list" where
  "DefaultCapabilitiesForRuntime runtime =
     (if runtime = RuntimeClaudeCode
      then [''code_quality'', ''design_review'', ''instruction_following'', ''run_on_main'']
      else if runtime = RuntimeCodex then [''bulk_implementation'', ''long_horizon_autonomy'', ''refactor'']
      else if runtime = RuntimeGemini then [''multimodal'', ''long_context_ingest'', ''research'', ''cost_efficient'']
      else [])"

record WorkerConfig =
  wc_Count :: int
  wc_DefaultModel :: string
  wc_Models :: "(string, string) gomap"
  wc_Boost :: bool
  wc_Capabilities :: "(string, string list) gomap"

definition ModelFor :: "WorkerConfig \<Rightarrow> string \<Rightarrow> string" where
  "ModelFor w workerID =
     (if wc_Boost w then ''opus''
      else case map_of (wc_Models w) workerID of
        Some m \<Rightarrow> m
      | None \<Rightarrow> if wc_DefaultModel w \<noteq> [] then wc_DefaultModel w else ''sonnet'')"

definition CapabilitiesFor :: "WorkerConfig \<Rightarrow> string \<Rightarrow> string list" where
  "CapabilitiesFor w workerID =
     (case map_of (wc_Capabilities w) workerID of
        Some caps \<Rightarrow> caps
      | None \<Rightarrow> DefaultCapabilitiesForRuntime (fst (ParseRuntimeFromModel (ModelFor w workerID))))"

section \<open>Assignment\<close>

record WorkerState =
  ws_WorkerID :: string
  ws_Model :: string
  ws_PendingCount :: int
  ws_Capabilities :: "string list"

record TaskAssignmentRequest =
  ar_Name :: string
  ar_BloomLevel :: int
  ar_PinnedWorkerID :: string
  ar_RequireClaudeRuntime :: bool
  ar_RequiredCapabilities :: "string list"
  ar_PreferredCapabilities :: "string list"

record WorkerAssignment =
  wa_TaskName :: string
  wa_WorkerID :: string
  wa_Model :: string

datatype AssignError =
    PinnedNotConfigured string string
  | PinnedNotClaude string string
  | PinnedAtCapacity string string
  | NoCapableWorker string "string list"
  | NoClaudeWorker string
  | NoWorkerForModel string string
  | WorkersAtCapacity string string

definition GetModelForBloomLevel :: "int \<Rightarrow> bool \<Rightarrow> string" where
  "GetModelForBloomLevel bloomLevel boost =
     (if boost then ''opus'' else if 4 \<le> bloomLevel \<and> bloomLevel \<le> 6 then ''opus'' else ''sonnet'')"

definition isClaudeRuntimeModel :: "string \<Rightarrow> bool" where
  "isClaudeRuntimeModel modelName = (fst (ParseRuntimeFromModel modelName) = RuntimeClaudeCode)"

definition workerHasCapabilities :: "WorkerState \<Rightarrow> string list \<Rightarrow> bool" where
  "workerHasCapabilities ws required = (\<forall>req \<in> set required. req \<in> set (ws_Capabilities ws))"

definition countPreferredCapabilities :: "WorkerState \<Rightarrow> string list \<Rightarrow> nat" where
  "countPreferredCapabilities ws preferred = length (filter (\<lambda>p. p \<in> set (ws_Capabilities ws)) preferred)"

definition workerExistsForModel :: "WorkerState list \<Rightarrow> string \<Rightarrow> bool" where
  "workerExistsForModel states modelName = (\<exists>ws \<in> set states. Family (ws_Model ws) = Family modelName)"

definition familyFallbackOrder :: "(string, string list) gomap" where
  "familyFallbackOrder =
     [(''sonnet'', [''opus'', ''haiku'']), (''opus'', [''sonnet'', ''haiku'']), (''haiku'', [''sonnet'', ''opus''])]"

definition chooseFallbackFamily :: "WorkerState list \<Rightarrow> string \<Rightarrow> bool \<Rightarrow> string" where
  "chooseFallbackFamily states required requireClaude =
     (let family = Family required;
          prefs = (case map_of familyFallbackOrder family of Some p \<Rightarrow> p | None \<Rightarrow> [''opus'', ''sonnet'', ''haiku'']) in
      case find (workerExistsForModel states) prefs of
        Some candidate \<Rightarrow> candidate
      | None \<Rightarrow>
          (case find (\<lambda>ws. (requireClaude \<longrightarrow> isClaudeRuntimeModel (ws_Model ws))
                      \<and> ws_Model ws \<noteq> [] \<and> Family (ws_Model ws) \<noteq> family) states of
             Some ws \<Rightarrow> ws_Model ws
           | None \<Rightarrow> []))"

text \<open>The model a task is matched against: by Bloom level, by the selector if feasible, or by fallback.\<close>

definition required_model :: "(int \<Rightarrow> string \<Rightarrow> string) option \<Rightarrow> bool \<Rightarrow> WorkerState list \<Rightarrow> TaskAssignmentRequest \<Rightarrow> string" where
  "required_model selector boost candidates task =
     (let bloom = GetModelForBloomLevel (ar_BloomLevel task) boost;
          chosen = (case selector of
              None \<Rightarrow> bloom
            | Some select \<Rightarrow>
                (let pick = select (ar_BloomLevel task) (ar_Name task) in
                 if pick \<noteq> [] \<and> pick \<noteq> bloom \<and> workerExistsForModel candidates pick
                    \<and> (ar_RequireClaudeRuntime task \<longrightarrow> isClaudeRuntimeModel pick)
                 then pick else bloom)) in
      if workerExistsForModel candidates chosen then chosen
      else (let fallback = chooseFallbackFamily candidates chosen (ar_RequireClaudeRuntime task) in
            if fallback \<noteq> [] then fallback else chosen))"

definition eligible :: "int \<Rightarrow> string \<Rightarrow> TaskAssignmentRequest \<Rightarrow> WorkerState \<Rightarrow> bool" where
  "eligible maxPending requiredFamily task ws =
     (Family (ws_Model ws) = requiredFamily
      \<and> (ar_RequireClaudeRuntime task \<longrightarrow> isClaudeRuntimeModel (ws_Model ws))
      \<and> ws_PendingCount ws < maxPending)"

text \<open>Go compares strings bytewise; ids are ASCII.\<close>

definition id_less :: "string \<Rightarrow> string \<Rightarrow> bool" where
  "id_less a b = ((map of_char a, map of_char b) \<in> lexord {(x :: nat, y). x < y})"

definition beats :: "string list \<Rightarrow> WorkerState \<Rightarrow> WorkerState \<Rightarrow> bool" where
  "beats preferred ws best =
     (countPreferredCapabilities best preferred < countPreferredCapabilities ws preferred
      \<or> countPreferredCapabilities ws preferred = countPreferredCapabilities best preferred
        \<and> (ws_PendingCount ws < ws_PendingCount best
           \<or> ws_PendingCount ws = ws_PendingCount best \<and> id_less (ws_WorkerID ws) (ws_WorkerID best)))"

definition best_worker :: "int \<Rightarrow> string \<Rightarrow> TaskAssignmentRequest \<Rightarrow> WorkerState list \<Rightarrow> WorkerState option" where
  "best_worker maxPending requiredFamily task candidates =
     fold (\<lambda>ws best.
         if \<not> eligible maxPending requiredFamily task ws then best
         else case best of
           None \<Rightarrow> Some ws
         | Some b \<Rightarrow> if beats (ar_PreferredCapabilities task) ws b then Some ws else best)
       candidates None"

definition assign_failure :: "string \<Rightarrow> TaskAssignmentRequest \<Rightarrow> WorkerState list \<Rightarrow> AssignError" where
  "assign_failure requiredModel task candidates =
     (if ar_RequireClaudeRuntime task \<and> \<not> (\<exists>ws \<in> set candidates. isClaudeRuntimeModel (ws_Model ws))
      then NoClaudeWorker (ar_Name task)
      else if \<not> (\<exists>ws \<in> set candidates. Family (ws_Model ws) = Family requiredModel)
      then NoWorkerForModel (ar_Name task) requiredModel
      else WorkersAtCapacity (ar_Name task) requiredModel)"

definition assign_pinned :: "int \<Rightarrow> WorkerState list \<Rightarrow> TaskAssignmentRequest \<Rightarrow> AssignError + WorkerState" where
  "assign_pinned maxPending states task =
     (case find (\<lambda>ws. ws_WorkerID ws = ar_PinnedWorkerID task) states of
        None \<Rightarrow> Inl (PinnedNotConfigured (ar_Name task) (ar_PinnedWorkerID task))
      | Some ws \<Rightarrow>
          if ar_RequireClaudeRuntime task \<and> \<not> isClaudeRuntimeModel (ws_Model ws)
          then Inl (PinnedNotClaude (ar_Name task) (ar_PinnedWorkerID task))
          else if maxPending \<le> ws_PendingCount ws then Inl (PinnedAtCapacity (ar_Name task) (ar_PinnedWorkerID task))
          else Inr ws)"

definition assign_one ::
  "(int \<Rightarrow> string \<Rightarrow> string) option \<Rightarrow> bool \<Rightarrow> int \<Rightarrow> WorkerState list \<Rightarrow> TaskAssignmentRequest \<Rightarrow> AssignError + WorkerState" where
  "assign_one selector boost maxPending states task =
     (if ar_PinnedWorkerID task \<noteq> [] then assign_pinned maxPending states task
      else (let candidates = (if ar_RequiredCapabilities task \<noteq> []
                              then filter (\<lambda>ws. workerHasCapabilities ws (ar_RequiredCapabilities task)) states
                              else states) in
        if ar_RequiredCapabilities task \<noteq> [] \<and> candidates = []
        then Inl (NoCapableWorker (ar_Name task) (ar_RequiredCapabilities task))
        else (let requiredModel = required_model selector boost candidates task in
          case best_worker maxPending (Family requiredModel) task candidates of
            None \<Rightarrow> Inl (assign_failure requiredModel task candidates)
          | Some ws \<Rightarrow> Inr ws)))"

definition bump_worker :: "string \<Rightarrow> WorkerState list \<Rightarrow> WorkerState list" where
  "bump_worker workerID states =
     map (\<lambda>ws. if ws_WorkerID ws = workerID then ws\<lparr>ws_PendingCount := ws_PendingCount ws + 1\<rparr> else ws) states"

fun assign_all ::
  "(int \<Rightarrow> string \<Rightarrow> string) option \<Rightarrow> bool \<Rightarrow> int \<Rightarrow> WorkerState list \<Rightarrow> TaskAssignmentRequest list \<Rightarrow>
   AssignError + WorkerAssignment list" where
  "assign_all selector boost maxPending states [] = Inr []"
| "assign_all selector boost maxPending states (task # tasks) =
     (case assign_one selector boost maxPending states task of
        Inl e \<Rightarrow> Inl e
      | Inr ws \<Rightarrow>
          (case assign_all selector boost maxPending (bump_worker (ws_WorkerID ws) states) tasks of
             Inl e \<Rightarrow> Inl e
           | Inr rest \<Rightarrow>
               Inr (\<lparr>wa_TaskName = ar_Name task, wa_WorkerID = ws_WorkerID ws, wa_Model = ws_Model ws\<rparr> # rest)))"

definition AssignWorkers ::
  "WorkerConfig \<Rightarrow> int \<Rightarrow> WorkerState list \<Rightarrow> (int \<Rightarrow> string \<Rightarrow> string) option \<Rightarrow> TaskAssignmentRequest list \<Rightarrow>
   AssignError + WorkerAssignment list" where
  "AssignWorkers config maxPendingTasksPerWorker states selector tasks =
     (let maxPending = (if maxPendingTasksPerWorker \<le> 0 then 10 else maxPendingTasksPerWorker) in
      assign_all selector (wc_Boost config) maxPending states tasks)"

text \<open>\<open>BuildWorkerStates\<close>: a missing queue file is an empty queue; a worker count of zero is an error.\<close>

definition worker_load :: "Task list \<Rightarrow> int" where
  "worker_load tasks = int (length (filter (\<lambda>t. q_Status t = StatusPending \<or> q_Status t = StatusInProgress) tasks))"

definition BuildWorkerStates :: "(string \<Rightarrow> Task list option) \<Rightarrow> WorkerConfig \<Rightarrow> WorkerState list option" where
  "BuildWorkerStates queues config =
     (if wc_Count config \<le> 0 then None
      else Some (map (\<lambda>i. let w = ''worker'' @ show_int i in
          \<lparr>ws_WorkerID = w, ws_Model = ModelFor config w,
           ws_PendingCount = (case queues w of None \<Rightarrow> 0 | Some tasks \<Rightarrow> worker_load tasks),
           ws_Capabilities = CapabilitiesFor config w\<rparr>) [1..wc_Count config]))"

section \<open>The choice of a worker\<close>

lemma id_less_trans: "id_less a b \<Longrightarrow> id_less b c \<Longrightarrow> id_less a c"
  unfolding id_less_def by (rule lexord_trans) (auto intro: transI)

lemma id_less_total: "a \<noteq> b \<Longrightarrow> id_less a b \<or> id_less b a"
proof -
  assume "a \<noteq> b"
  then have "map of_char a \<noteq> (map of_char b :: nat list)"
    using inj_map_eq_map [of "of_char :: char \<Rightarrow> nat"] by (auto simp: inj_def)
  then show ?thesis
    unfolding id_less_def
    using lexord_linear [of "{(x :: nat, y). x < y}" "map of_char a" "map of_char b"] less_linear [where 'a = nat] by auto
qed

lemma id_less_irrefl: "\<not> id_less a a"
  unfolding id_less_def by (rule lexord_irreflexive) auto

lemma beats_trans: "beats p a b \<Longrightarrow> beats p b c \<Longrightarrow> beats p a c"
  unfolding beats_def using id_less_trans [of "ws_WorkerID a" "ws_WorkerID b" "ws_WorkerID c"] by linarith

lemma beats_total: "ws_WorkerID a \<noteq> ws_WorkerID b \<Longrightarrow> beats p a b \<or> beats p b a"
  using id_less_total [of "ws_WorkerID a" "ws_WorkerID b"] by (auto simp: beats_def)

lemma beats_asym: "beats p a b \<Longrightarrow> \<not> beats p b a"
  unfolding beats_def
  using id_less_trans [of "ws_WorkerID a" "ws_WorkerID b" "ws_WorkerID a"] id_less_irrefl [of "ws_WorkerID a"] by linarith

text \<open>\<open>chosen\<close>: the one eligible candidate that beats every other.\<close>

definition chosen :: "(WorkerState \<Rightarrow> bool) \<Rightarrow> string list \<Rightarrow> WorkerState list \<Rightarrow> WorkerState option \<Rightarrow> bool" where
  "chosen ok p ws r =
     (case r of
        None \<Rightarrow> \<forall>w \<in> set ws. \<not> ok w
      | Some b \<Rightarrow> b \<in> set ws \<and> ok b \<and> (\<forall>w \<in> set ws. ok w \<longrightarrow> w = b \<or> beats p b w))"

lemma choose_fold:
  fixes ok p
  defines "step \<equiv> \<lambda>ws best. if \<not> ok ws then best else case best of None \<Rightarrow> Some ws
      | Some b \<Rightarrow> if beats p ws b then Some ws else best"
  assumes "chosen ok p xs acc" and "distinct (map ws_WorkerID (xs @ ys))"
  shows "chosen ok p (xs @ ys) (fold step ys acc)"
  using assms(2,3)
proof (induction ys arbitrary: xs acc)
  case (Cons y ys)
  have new: "ws_WorkerID w \<noteq> ws_WorkerID y" if "w \<in> set xs" for w
    using Cons.prems(2) that by (auto simp: image_iff)
  have "chosen ok p (xs @ [y]) (step y acc)"
  proof (cases acc)
    case None
    then show ?thesis using Cons.prems(1) by (auto simp: chosen_def step_def)
  next
    case (Some b)
    show ?thesis
    proof (cases "ok y \<and> beats p y b")
      case True
      then show ?thesis using Cons.prems(1) Some by (auto simp: chosen_def step_def dest: beats_trans)
    next
      case False
      then show ?thesis
        using Cons.prems(1) Some new [of b] beats_total [of b y p] by (auto simp: chosen_def step_def)
    qed
  qed
  then show ?case using Cons.IH [of "xs @ [y]" "step y acc"] Cons.prems(2) by simp
qed simp

lemma best_worker_chosen:
  assumes "distinct (map ws_WorkerID ws)"
  shows "chosen (eligible m f task) (ar_PreferredCapabilities task) ws (best_worker m f task ws)"
  using choose_fold [of "eligible m f task" "ar_PreferredCapabilities task" "[]" None ws] assms
  by (simp add: best_worker_def chosen_def)

text \<open>The choice is unique, so it does not depend on the order of the candidates.\<close>

lemma chosen_unique: "chosen ok p ws r \<Longrightarrow> chosen ok p ws' r' \<Longrightarrow> set ws = set ws' \<Longrightarrow> r = r'"
  unfolding chosen_def by (auto split: option.splits dest: beats_asym)

section \<open>Properties\<close>

definition capable :: "TaskAssignmentRequest \<Rightarrow> WorkerState \<Rightarrow> bool" where
  "capable task ws = workerHasCapabilities ws (ar_RequiredCapabilities task)"

lemma capable_candidates:
  "(if ar_RequiredCapabilities task \<noteq> [] then filter (\<lambda>ws. workerHasCapabilities ws (ar_RequiredCapabilities task)) states
    else states) = filter (capable task) states"
proof -
  have "capable task = (\<lambda>ws. workerHasCapabilities ws (ar_RequiredCapabilities task))"
    by (simp add: fun_eq_iff capable_def)
  then show ?thesis by (simp add: workerHasCapabilities_def)
qed

lemma assign_one_unpinned:
  "ar_PinnedWorkerID task = [] \<Longrightarrow> assign_one selector boost m states task =
     (let candidates = filter (capable task) states in
      if ar_RequiredCapabilities task \<noteq> [] \<and> candidates = []
      then Inl (NoCapableWorker (ar_Name task) (ar_RequiredCapabilities task))
      else let requiredModel = required_model selector boost candidates task in
        case best_worker m (Family requiredModel) task candidates of
          None \<Rightarrow> Inl (assign_failure requiredModel task candidates) | Some ws \<Rightarrow> Inr ws)"
  unfolding assign_one_def capable_candidates by (simp add: Let_def)

text \<open>What holds of the worker a task gets, in the load at that moment.\<close>

definition well_placed ::
  "(int \<Rightarrow> string \<Rightarrow> string) option \<Rightarrow> bool \<Rightarrow> int \<Rightarrow> WorkerState list \<Rightarrow> TaskAssignmentRequest \<Rightarrow> WorkerState \<Rightarrow> bool" where
  "well_placed selector boost m states task ws =
     (ws \<in> set states \<and> ws_PendingCount ws < m
      \<and> (ar_RequireClaudeRuntime task \<longrightarrow> isClaudeRuntimeModel (ws_Model ws))
      \<and> (if ar_PinnedWorkerID task \<noteq> [] then ws_WorkerID ws = ar_PinnedWorkerID task
         else capable task ws
           \<and> Family (ws_Model ws) = Family (required_model selector boost (filter (capable task) states) task)
           \<and> (\<forall>w \<in> set states. capable task w \<longrightarrow> eligible m (Family (ws_Model ws)) task w \<longrightarrow>
                w = ws \<or> beats (ar_PreferredCapabilities task) ws w)))"

lemma assign_one_placed:
  assumes "distinct (map ws_WorkerID states)" and "assign_one selector boost m states task = Inr ws"
  shows "well_placed selector boost m states task ws"
proof (cases "ar_PinnedWorkerID task = []")
  case False
  then show ?thesis
    using assms(2) by (auto simp: well_placed_def assign_one_def assign_pinned_def dest: find_cases split: option.splits if_splits)
next
  case True
  let ?cs = "filter (capable task) states"
  let ?f = "Family (required_model selector boost ?cs task)"
  have "best_worker m ?f task ?cs = Some ws"
    using assms(2) by (auto simp: assign_one_unpinned [OF True] Let_def split: if_splits option.splits)
  moreover have "distinct (map ws_WorkerID ?cs)" using assms(1) by (rule distinct_map_filter)
  ultimately have c: "chosen (eligible m ?f task) (ar_PreferredCapabilities task) ?cs (Some ws)"
    using best_worker_chosen [of ?cs m ?f task] by simp
  then show ?thesis using True by (auto simp: well_placed_def chosen_def eligible_def)
qed

text \<open>Why a task cannot be placed.\<close>

definition explains :: "int \<Rightarrow> WorkerState list \<Rightarrow> TaskAssignmentRequest \<Rightarrow> AssignError \<Rightarrow> bool" where
  "explains m states task e =
     (case e of
        PinnedNotConfigured n w \<Rightarrow> w = ar_PinnedWorkerID task \<and> w \<notin> ws_WorkerID ` set states
      | PinnedNotClaude n w \<Rightarrow> ar_RequireClaudeRuntime task \<and> w = ar_PinnedWorkerID task
          \<and> (\<exists>ws \<in> set states. ws_WorkerID ws = w \<and> \<not> isClaudeRuntimeModel (ws_Model ws))
      | PinnedAtCapacity n w \<Rightarrow> w = ar_PinnedWorkerID task \<and> (\<exists>ws \<in> set states. ws_WorkerID ws = w \<and> m \<le> ws_PendingCount ws)
      | NoCapableWorker n caps \<Rightarrow> caps = ar_RequiredCapabilities task \<and> \<not> (\<exists>ws \<in> set states. capable task ws)
      | NoClaudeWorker n \<Rightarrow> ar_RequireClaudeRuntime task
          \<and> \<not> (\<exists>ws \<in> set states. capable task ws \<and> isClaudeRuntimeModel (ws_Model ws))
      | NoWorkerForModel n r \<Rightarrow> \<not> (\<exists>ws \<in> set states. capable task ws \<and> Family (ws_Model ws) = Family r)
      | WorkersAtCapacity n r \<Rightarrow> (\<exists>ws \<in> set states. capable task ws \<and> Family (ws_Model ws) = Family r)
          \<and> \<not> (\<exists>ws \<in> set states. capable task ws \<and> eligible m (Family r) task ws))"

lemma assign_one_fails:
  assumes "distinct (map ws_WorkerID states)" and "assign_one selector boost m states task = Inl e"
  shows "explains m states task e"
proof (cases "ar_PinnedWorkerID task = []")
  case False
  then have e: "assign_pinned m states task = Inl e" using assms(2) by (simp add: assign_one_def)
  show ?thesis
  proof (cases "find (\<lambda>ws. ws_WorkerID ws = ar_PinnedWorkerID task) states")
    case None
    then have "e = PinnedNotConfigured (ar_Name task) (ar_PinnedWorkerID task)" using e by (simp add: assign_pinned_def)
    then show ?thesis using None by (auto simp: explains_def find_None_iff image_iff)
  next
    case (Some ws)
    then show ?thesis
      using e find_cases [OF Some] by (auto simp: explains_def assign_pinned_def split: if_splits)
  qed
next
  case True
  let ?cs = "filter (capable task) states"
  let ?r = "required_model selector boost ?cs task"
  consider (none) "e = NoCapableWorker (ar_Name task) (ar_RequiredCapabilities task)" "?cs = []"
    | (fail) "best_worker m (Family ?r) task ?cs = None" "e = assign_failure ?r task ?cs"
    using assms(2) by (auto simp: assign_one_unpinned [OF True] Let_def split: if_splits option.splits)
  then show ?thesis
  proof cases
    case none
    then show ?thesis by (auto simp: explains_def filter_empty_conv)
  next
    case fail
    have "distinct (map ws_WorkerID ?cs)" using assms(1) by (rule distinct_map_filter)
    then have "chosen (eligible m (Family ?r) task) (ar_PreferredCapabilities task) ?cs None"
      using best_worker_chosen [of ?cs m "Family ?r" task] fail(1) by simp
    then show ?thesis
      unfolding fail(2) assign_failure_def by (auto simp: explains_def chosen_def split: if_splits)
  qed
qed

text \<open>The load after some assignments.\<close>

definition loaded :: "WorkerState list \<Rightarrow> WorkerAssignment list \<Rightarrow> WorkerState list" where
  "loaded states done = fold (\<lambda>a. bump_worker (wa_WorkerID a)) done states"

lemma bump_ids [simp]: "map ws_WorkerID (bump_worker w states) = map ws_WorkerID states"
  by (simp add: bump_worker_def comp_def)

lemma assign_all_run:
  assumes "distinct (map ws_WorkerID states)"
  shows "case assign_all selector boost m states tasks of
      Inr as \<Rightarrow> length as = length tasks \<and> (\<forall>i < length tasks. \<exists>ws. wa_TaskName (as ! i) = ar_Name (tasks ! i)
          \<and> wa_WorkerID (as ! i) = ws_WorkerID ws \<and> wa_Model (as ! i) = ws_Model ws
          \<and> well_placed selector boost m (loaded states (take i as)) (tasks ! i) ws)
    | Inl e \<Rightarrow> \<exists>i as. i < length tasks \<and> assign_all selector boost m states (take i tasks) = Inr as
          \<and> explains m (loaded states as) (tasks ! i) e"
  using assms
proof (induction tasks arbitrary: states)
  case (Cons task tasks)
  show ?case
  proof (cases "assign_one selector boost m states task")
    case (Inl e)
    then have "explains m states task e" using assign_one_fails Cons.prems by blast
    then show ?thesis using Inl by (auto simp: loaded_def intro!: exI [where x = 0])
  next
    case (Inr ws)
    note placed = assign_one_placed [OF Cons.prems Inr]
    let ?s1 = "bump_worker (ws_WorkerID ws) states"
    let ?a = "\<lparr>wa_TaskName = ar_Name task, wa_WorkerID = ws_WorkerID ws, wa_Model = ws_Model ws\<rparr>"
    have l: "loaded states (?a # as) = loaded ?s1 as" for as by (simp add: loaded_def)
    note ih = Cons.IH [of ?s1]
    show ?thesis
    proof (cases "assign_all selector boost m ?s1 tasks")
      case fail: (Inl e)
      then obtain i as where i: "i < length tasks" "assign_all selector boost m ?s1 (take i tasks) = Inr as"
        "explains m (loaded ?s1 as) (tasks ! i) e"
        using ih Cons.prems by auto
      have "assign_all selector boost m states (take (Suc i) (task # tasks)) = Inr (?a # as)"
        using Inr i(2) by simp
      then show ?thesis using fail Inr i l by (auto intro!: exI [where x = "Suc i"])
    next
      case ok: (Inr as)
      then have t: "length as = length tasks" "\<forall>i < length tasks. \<exists>ws. wa_TaskName (as ! i) = ar_Name (tasks ! i)
          \<and> wa_WorkerID (as ! i) = ws_WorkerID ws \<and> wa_Model (as ! i) = ws_Model ws
          \<and> well_placed selector boost m (loaded ?s1 (take i as)) (tasks ! i) ws"
        using ih Cons.prems by auto
      have "\<exists>ws. wa_TaskName ((?a # as) ! i) = ar_Name ((task # tasks) ! i)
          \<and> wa_WorkerID ((?a # as) ! i) = ws_WorkerID ws \<and> wa_Model ((?a # as) ! i) = ws_Model ws
          \<and> well_placed selector boost m (loaded states (take i (?a # as))) ((task # tasks) ! i) ws"
        if "i < Suc (length tasks)" for i
        using that t(2) placed l by (cases i) (auto simp: loaded_def)
      then show ?thesis using ok Inr t(1) by simp
    qed
  qed
qed simp


definition demo_worker :: "string \<Rightarrow> string \<Rightarrow> int \<Rightarrow> WorkerState" where
  "demo_worker w model pending = \<lparr>ws_WorkerID = w, ws_Model = model, ws_PendingCount = pending, ws_Capabilities = []\<rparr>"

definition demo_request :: TaskAssignmentRequest where
  "demo_request = \<lparr>ar_Name = ''t'', ar_BloomLevel = 2, ar_PinnedWorkerID = [], ar_RequireClaudeRuntime = False,
     ar_RequiredCapabilities = [], ar_PreferredCapabilities = []\<rparr>"

definition demo_workers :: WorkerConfig where
  "demo_workers = \<lparr>wc_Count = 2, wc_DefaultModel = [], wc_Models = [], wc_Boost = False, wc_Capabilities = []\<rparr>"


text \<open>
  Without a claude family in the fleet the fallback is the first model in iteration order, so two runs on the same
  fleet can differ: one fails although the other worker is free.
\<close>

lemma fallback_depends_on_order:
  "AssignWorkers demo_workers 5 [demo_worker ''worker1'' ''codex'' 5, demo_worker ''worker2'' ''gemini'' 0] None [demo_request]
     = Inl (WorkersAtCapacity ''t'' ''codex'')
   \<and> AssignWorkers demo_workers 5 [demo_worker ''worker2'' ''gemini'' 0, demo_worker ''worker1'' ''codex'' 5] None [demo_request]
     = Inr [\<lparr>wa_TaskName = ''t'', wa_WorkerID = ''worker2'', wa_Model = ''gemini''\<rparr>]"
  by (intro conjI; code_simp)

end
