(* ===== verification/Validate.thy ===== *)
theory Validate imports Dag Worker_Assign begin

text \<open>
  The validation of planner input (\<open>internal/plan/validate.go\<close>, the input records of \<open>input.go\<close>, and
  \<open>validateInjectedSchemaFields\<close> of \<open>inject.go\<close>). A validator adds the violated rules with the path of
  the field; the message texts are a datatype. Strings are bytes of valid UTF-8, as YAML decoding
  gives them. A nil slice and an empty one differ only for \<open>expected_paths\<close>, which is an option.
\<close>

section \<open>Input\<close>

record TaskInput =
  ti_Name :: string
  ti_Purpose :: string
  ti_Content :: string
  ti_AcceptanceCriteria :: string
  ti_Constraints :: "string list"
  ti_BlockedBy :: "string list"
  ti_BloomLevel :: int
  ti_Required :: bool
  ti_ToolsHint :: "string list"
  ti_PersonaHint :: string
  ti_SkillRefs :: "string list"
  ti_ExpectedPaths :: "string list option"
  ti_DefinitionOfAbort :: "DefinitionOfAbort option"
  ti_DefinitionOfDone :: "string list"
  ti_OperationType :: string
  ti_WorkerID :: string
  ti_RequiredCapabilities :: "string list"
  ti_PreferredCapabilities :: "string list"
  ti_RunOnMain :: bool
  ti_RunOnIntegration :: bool
  ti_ResumeHint :: string

record ConstraintInput =
  ci_MaxTasks :: int
  ci_AllowedBloomLevels :: "int list"
  ci_TimeoutMinutes :: int

record PhaseInput =
  pi_Name :: string
  pi_Type :: string
  pi_DependsOnPhases :: "string list"
  pi_Tasks :: "TaskInput list"
  pi_Constraints :: "ConstraintInput option"

datatype Rule =
    Missing | AtLeastOne | TooLong int | NotBetween int int int | Unsafe string | HasDotDot string
  | BlankItem | NotRelative string | DuplicatePath string | TooManyItems nat | NotOneOf "string list" string
  | BothTargets | BadWorkerID string | WorkerNotConfigured string int | ReservedName string | DuplicateName string
  | UnknownName string | SelfReference | Cycle DagError | MixedRunOnMain | RunOnMainForbidden
  | BadPhaseType string | ConcreteDepends | ConcreteConstraints | ConcreteEmpty
  | DeferredUnconstrained | DeferredWithTasks | NoConcretePhase | UnknownPhase string
  | NotPositive | OverMaxTasks int int | BloomNotAllowed int string

type_synonym verrors = "(string \<times> Rule) list"

definition item :: "string \<Rightarrow> nat \<Rightarrow> string" where
  "item prefix i = prefix @ ''['' @ show_nat i @ '']''"

definition each_item :: "(string \<Rightarrow> 'a \<Rightarrow> verrors) \<Rightarrow> string \<Rightarrow> 'a list \<Rightarrow> verrors" where
  "each_item f prefix xs = concat (map (\<lambda>(i, x). f (item prefix i) x) (enumerate 0 xs))"

section \<open>Text predicates\<close>

text \<open>\<open>strings.Contains\<close>, the number of runes, and the strings \<open>strings.TrimSpace\<close> empties.\<close>

definition str_contains :: "string \<Rightarrow> string \<Rightarrow> bool" where
  "str_contains s sub = list_ex (\<lambda>i. has_prefix (drop i s) sub) [0..<Suc (length s)]"

definition rune_count :: "string \<Rightarrow> nat" where
  "rune_count s = length (filter (\<lambda>c. (of_char c :: nat) div 64 \<noteq> 2) s)"

text \<open>The code points of \<open>unicode.IsSpace\<close>, as their UTF-8 bytes.\<close>

definition space_codes :: "nat list list" where
  "space_codes =
     map (\<lambda>c. [c]) [9, 10, 11, 12, 13, 32] @ [[194, 133], [194, 160], [225, 154, 128]]
     @ map (\<lambda>c. [226, 128, c]) ([128..<139] @ [168, 169, 175]) @ [[226, 129, 159], [227, 128, 128]]"

fun blank_bytes :: "nat \<Rightarrow> nat list \<Rightarrow> bool" where
  "blank_bytes 0 bs = (bs = [])"
| "blank_bytes (Suc n) bs =
     (bs = [] \<or> list_ex (\<lambda>w. take (length w) bs = w \<and> blank_bytes n (drop (length w) bs)) space_codes)"

definition trims_to_empty :: "string \<Rightarrow> bool" where
  "trims_to_empty s = blank_bytes (length s) (map of_char s)"

definition IsValidIdentifier :: "string \<Rightarrow> bool" where
  "IsValidIdentifier name =
     (name \<notin> {[], ''.'', ''..''}
      \<and> list_all (\<lambda>r. r \<noteq> CHR ''/'' \<and> r \<noteq> CHR 0x5C \<and> r \<noteq> CHR 0x00) name)"

definition is_digit :: "char \<Rightarrow> bool" where
  "is_digit c = (48 \<le> (of_char c :: nat) \<and> (of_char c :: nat) \<le> 57)"

definition worker_pattern :: "string \<Rightarrow> bool" where
  "worker_pattern s =
     (has_prefix s ''worker''
      \<and> (case drop 6 s of [] \<Rightarrow> False | c # cs \<Rightarrow> is_digit c \<and> c \<noteq> CHR ''0'' \<and> list_all is_digit cs))"

definition read_nat :: "string \<Rightarrow> nat" where
  "read_nat ds = fold (\<lambda>c n. 10 * n + (of_char c - 48)) ds 0"

section \<open>Field rules\<close>

definition BloomLevelMin :: int where "BloomLevelMin = 1"
definition BloomLevelMax :: int where "BloomLevelMax = 6"

definition required_text :: "(string \<Rightarrow> nat) \<Rightarrow> int \<Rightarrow> string \<Rightarrow> string \<Rightarrow> verrors" where
  "required_text units limit path s =
     (if s = [] then [(path, Missing)] else if limit < int (units s) then [(path, TooLong limit)] else [])"

definition validateBloomLevel :: "int \<Rightarrow> string \<Rightarrow> verrors" where
  "validateBloomLevel level path =
     (if level < BloomLevelMin \<or> BloomLevelMax < level then [(path, NotBetween BloomLevelMin BloomLevelMax level)] else [])"

definition validateCapabilityTag :: "string \<Rightarrow> string \<Rightarrow> verrors" where
  "validateCapabilityTag path tag =
     (if trims_to_empty tag then [(path, BlankItem)]
      else if \<not> IsValidIdentifier tag then [(path, Unsafe tag)] else [])"

fun path_rules :: "string \<Rightarrow> nat \<Rightarrow> string list \<Rightarrow> string list \<Rightarrow> verrors" where
  "path_rules path i seen [] = []"
| "path_rules path i seen (p # ps) =
     (if p = [] then (item path i, BlankItem) # path_rules path (Suc i) seen ps
      else (if has_prefix p ''/'' then [(item path i, NotRelative p)] else [])
         @ (if str_contains p ''..'' then [(item path i, HasDotDot p)] else [])
         @ (if p \<in> set seen then [(item path i, DuplicatePath p)] else [])
         @ path_rules path (Suc i) (p # seen) ps)"

definition validateExpectedPaths :: "string list \<Rightarrow> string \<Rightarrow> verrors" where
  "validateExpectedPaths paths path = path_rules path 0 [] paths"

definition blank_items :: "string \<Rightarrow> string list \<Rightarrow> verrors" where
  "blank_items path xs = each_item (\<lambda>fp x. if trims_to_empty x then [(fp, BlankItem)] else []) path xs"

definition validateDefinitionOfAbort :: "DefinitionOfAbort \<Rightarrow> string \<Rightarrow> verrors" where
  "validateDefinitionOfAbort d path =
     (if MaxRepairCount d \<le> 0 \<or> 100 < MaxRepairCount d
      then [(path @ ''.max_repair_count'', NotBetween 1 100 (MaxRepairCount d))] else [])
     @ (if MaxWallClockSec d \<le> 0 \<or> 86400 < MaxWallClockSec d
        then [(path @ ''.max_wall_clock_sec'', NotBetween 1 86400 (MaxWallClockSec d))] else [])
     @ blank_items (path @ ''.explicit_failure_conditions'') (ExplicitFailureConditions d)"

definition validateDefinitionOfDone :: "string list \<Rightarrow> string \<Rightarrow> verrors" where
  "validateDefinitionOfDone items path =
     (if 20 < length items then [(path, TooManyItems (length items))] else []) @ blank_items path items"

definition validateOperationType :: "string \<Rightarrow> string \<Rightarrow> verrors" where
  "validateOperationType op path =
     (if op \<in> {[], ''verify'', ''repair''} then [] else [(path, NotOneOf [''verify'', ''repair''] op)])"

definition validateResumeHint :: "string \<Rightarrow> string \<Rightarrow> verrors" where
  "validateResumeHint hint path =
     (if hint \<in> {[], ''allow'', ''deny''} then [] else [(path, NotOneOf [''allow'', ''deny''] hint)])"

definition schema_rules :: "string \<Rightarrow> string list option \<Rightarrow> DefinitionOfAbort option \<Rightarrow> string list \<Rightarrow> verrors" where
  "schema_rules prefix expectedPaths doa definitionOfDone =
     (case expectedPaths of
        None \<Rightarrow> [(prefix @ ''expected_paths'', Missing)]
      | Some [] \<Rightarrow> [(prefix @ ''expected_paths'', AtLeastOne)]
      | Some ps \<Rightarrow> validateExpectedPaths ps (prefix @ ''expected_paths''))
     @ (case doa of
          None \<Rightarrow> [(prefix @ ''definition_of_abort'', Missing)]
        | Some d \<Rightarrow> validateDefinitionOfAbort d (prefix @ ''definition_of_abort''))
     @ validateDefinitionOfDone definitionOfDone (prefix @ ''definition_of_done'')"

definition validateInjectedSchemaFields :: "string list option \<Rightarrow> DefinitionOfAbort option \<Rightarrow> string list \<Rightarrow> verrors" where
  "validateInjectedSchemaFields expectedPaths doa definitionOfDone = schema_rules [] expectedPaths doa definitionOfDone"

definition persona_rules :: "string \<Rightarrow> string \<Rightarrow> verrors" where
  "persona_rules path hint =
     (if hint = [] then []
      else (if \<not> IsValidIdentifier hint then [(path, Unsafe hint)] else [])
         @ (if str_contains hint ''..'' then [(path, HasDotDot hint)] else []))"

definition validateTaskFieldsCore :: "TaskInput \<Rightarrow> string \<Rightarrow> verrors" where
  "validateTaskFieldsCore task fp =
     required_text rune_count 128 (fp @ ''.name'') (ti_Name task)
     @ required_text rune_count 1024 (fp @ ''.purpose'') (ti_Purpose task)
     @ required_text length 102400 (fp @ ''.content'') (ti_Content task)
     @ required_text rune_count 4096 (fp @ ''.acceptance_criteria'') (ti_AcceptanceCriteria task)
     @ each_item (\<lambda>p c. if 1024 < int (rune_count c) then [(p, TooLong 1024)] else []) (fp @ ''.constraints'') (ti_Constraints task)
     @ validateBloomLevel (ti_BloomLevel task) (fp @ ''.bloom_level'')
     @ persona_rules (fp @ ''.persona_hint'') (ti_PersonaHint task)
     @ each_item (\<lambda>p r. if IsValidIdentifier r then [] else [(p, Unsafe r)]) (fp @ ''.skill_refs'') (ti_SkillRefs task)
     @ each_item validateCapabilityTag (fp @ ''.required_capabilities'') (ti_RequiredCapabilities task)
     @ each_item validateCapabilityTag (fp @ ''.preferred_capabilities'') (ti_PreferredCapabilities task)
     @ schema_rules (fp @ ''.'') (ti_ExpectedPaths task) (ti_DefinitionOfAbort task) (ti_DefinitionOfDone task)
     @ validateOperationType (ti_OperationType task) (fp @ ''.operation_type'')
     @ validateResumeHint (ti_ResumeHint task) (fp @ ''.resume_hint'')
     @ (if ti_RunOnMain task \<and> ti_RunOnIntegration task then [(fp, BothTargets)] else [])
     @ (if ti_WorkerID task \<noteq> [] \<and> \<not> worker_pattern (ti_WorkerID task)
        then [(fp @ ''.worker_id'', BadWorkerID (ti_WorkerID task))] else [])"

definition validateTaskFields :: "TaskInput \<Rightarrow> string \<Rightarrow> verrors" where
  "validateTaskFields task fp =
     validateTaskFieldsCore task fp
     @ (if ti_Name task \<noteq> [] \<and> has_prefix (ti_Name task) ''__'' then [(fp @ ''.name'', ReservedName (ti_Name task))] else [])"

section \<open>Rules of a task set\<close>

fun duplicates :: "string list \<Rightarrow> string list \<Rightarrow> string list" where
  "duplicates seen [] = []"
| "duplicates seen (n # ns) = (if n \<in> set seen then [n] else []) @ duplicates (n # seen) ns"

definition validateNameUniqueness :: "string list \<Rightarrow> string \<Rightarrow> verrors" where
  "validateNameUniqueness names prefix = map (\<lambda>n. (prefix, DuplicateName n)) (duplicates [] names)"

definition validateSystemReservedNames :: "string list \<Rightarrow> string \<Rightarrow> verrors" where
  "validateSystemReservedNames names prefix =
     map (\<lambda>n. (prefix, ReservedName n)) (filter (\<lambda>n. has_prefix n ''__'') names)"

text \<open>The two collections the loop over the tasks fills, and the graph they give.\<close>

definition task_names :: "TaskInput list \<Rightarrow> string list" where
  "task_names tasks = filter (\<lambda>n. n \<noteq> []) (map ti_Name tasks)"

definition blocked_map :: "TaskInput list \<Rightarrow> graph" where
  "blocked_map tasks =
     fold (\<lambda>t m. if ti_Name t \<noteq> [] \<and> ti_BlockedBy t \<noteq> [] then AList.update (ti_Name t) (ti_BlockedBy t) m else m) tasks []"

definition reference_rules :: "string \<Rightarrow> TaskInput list \<Rightarrow> verrors" where
  "reference_rules prefix tasks =
     map (\<lambda>(name, i, dep). (prefix @ ''.'' @ item (name @ ''.blocked_by'') i, UnknownName dep))
       (ValidateSamePhaseRefs (blocked_map tasks) (task_names tasks))
     @ map (\<lambda>name. (prefix @ ''.blocked_by['' @ name @ '']'', SelfReference)) (ValidateNoSelfReference (blocked_map tasks))"

definition validateTaskSetCommon :: "TaskInput list \<Rightarrow> string \<Rightarrow> verrors \<Rightarrow> verrors" where
  "validateTaskSetCommon tasks prefix errs0 =
     (let errs = errs0
            @ each_item (\<lambda>fp t. validateTaskFields t fp) prefix tasks
            @ validateNameUniqueness (task_names tasks) prefix
            @ reference_rules prefix tasks in
      if errs = [] \<and> blocked_map tasks \<noteq> []
      then (case ValidateTaskDAG (task_names tasks) (blocked_map tasks) of
              Inl e \<Rightarrow> errs @ [(prefix, Cycle e)]
            | Inr _ \<Rightarrow> errs)
      else errs)"

definition validateRunOnMainIsolation :: "TaskInput list \<Rightarrow> string \<Rightarrow> verrors" where
  "validateRunOnMainIsolation tasks prefix =
     (if list_ex ti_RunOnMain tasks \<and> list_ex (\<lambda>t. \<not> ti_RunOnMain t) tasks then [(prefix, MixedRunOnMain)] else [])"

definition ValidateTasksInput :: "TaskInput list \<Rightarrow> verrors" where
  "ValidateTasksInput tasks =
     (if tasks = [] then [(''tasks'', AtLeastOne)]
      else validateTaskSetCommon tasks ''tasks'' [] @ validateRunOnMainIsolation tasks ''tasks'')"

definition validateTaskWorkerPins :: "TaskInput list \<Rightarrow> int \<Rightarrow> string \<Rightarrow> verrors" where
  "validateTaskWorkerPins tasks workerCount prefix =
     (if workerCount \<le> 0 then []
      else concat (map (\<lambda>(i, t).
        (let w = ti_WorkerID t; n = int (read_nat (drop 6 w)) in
         if w = [] \<or> \<not> worker_pattern w \<or> 2 ^ 63 \<le> n \<or> n < 1 then []
         else if workerCount < n then [(item prefix i @ ''.worker_id'', WorkerNotConfigured w workerCount)] else []))
       (enumerate 0 tasks)))"

section \<open>Phases\<close>

definition validatePhaseConstraints :: "ConstraintInput \<Rightarrow> string \<Rightarrow> verrors" where
  "validatePhaseConstraints c path =
     (if ci_MaxTasks c \<le> 0 then [(path @ ''.max_tasks'', NotPositive)] else [])
     @ (if ci_TimeoutMinutes c \<le> 0 then [(path @ ''.timeout_minutes'', NotPositive)] else [])
     @ each_item (\<lambda>fp l. validateBloomLevel l fp) (path @ ''.allowed_bloom_levels'') (ci_AllowedBloomLevels c)"

definition run_on_main_rules :: "string \<Rightarrow> TaskInput list \<Rightarrow> verrors" where
  "run_on_main_rules prefix tasks =
     each_item (\<lambda>fp t. if ti_RunOnMain t then [(fp @ ''.run_on_main'', RunOnMainForbidden)] else []) prefix tasks"

definition validateConcretePhase :: "PhaseInput \<Rightarrow> string \<Rightarrow> verrors \<Rightarrow> verrors" where
  "validateConcretePhase phase prefix errs0 =
     (let errs = errs0
            @ (if pi_DependsOnPhases phase \<noteq> [] then [(prefix @ ''.depends_on_phases'', ConcreteDepends)] else [])
            @ (if pi_Constraints phase \<noteq> None then [(prefix @ ''.constraints'', ConcreteConstraints)] else []) in
      if pi_Tasks phase = [] then errs @ [(prefix @ ''.tasks'', ConcreteEmpty)]
      else validateTaskSetCommon (pi_Tasks phase) (prefix @ ''.tasks'') errs
           @ run_on_main_rules (prefix @ ''.tasks'') (pi_Tasks phase))"

definition validateDeferredPhase :: "PhaseInput \<Rightarrow> string \<Rightarrow> verrors" where
  "validateDeferredPhase phase prefix =
     (case pi_Constraints phase of
        None \<Rightarrow> [(prefix @ ''.constraints'', DeferredUnconstrained)]
      | Some c \<Rightarrow> validatePhaseConstraints c (prefix @ ''.constraints''))
     @ (if pi_Tasks phase \<noteq> [] then [(prefix @ ''.tasks'', DeferredWithTasks)] else [])"

definition phase_rules :: "nat \<times> PhaseInput \<Rightarrow> verrors \<Rightarrow> verrors" where
  "phase_rules ip errs0 =
     (case ip of (i, phase) \<Rightarrow>
       let prefix = item ''phases'' i;
           errs = errs0
             @ (if pi_Name phase = [] then [(prefix @ ''.name'', Missing)] else [])
             @ (if pi_Type phase \<notin> {''concrete'', ''deferred''} then [(prefix @ ''.type'', BadPhaseType (pi_Type phase))] else []) in
       if pi_Type phase = ''concrete'' then validateConcretePhase phase prefix errs
       else if pi_Type phase = ''deferred'' then errs @ validateDeferredPhase phase prefix
       else errs)"

definition phase_names :: "PhaseInput list \<Rightarrow> string list" where
  "phase_names phases = filter (\<lambda>n. n \<noteq> []) (map pi_Name phases)"

definition phase_depends :: "PhaseInput list \<Rightarrow> graph" where
  "phase_depends phases =
     fold (\<lambda>p m. if pi_DependsOnPhases p \<noteq> [] then AList.update (pi_Name p) (pi_DependsOnPhases p) m else m) phases []"

definition phase_references :: "PhaseInput list \<Rightarrow> verrors" where
  "phase_references phases =
     concat (map (\<lambda>(i, p).
         each_item (\<lambda>fp dep. if dep \<notin> set (phase_names phases) then [(fp, UnknownPhase dep)] else [])
           (item ''phases'' i @ ''.depends_on_phases'') (pi_DependsOnPhases p)) (enumerate 0 phases))"

definition ValidatePhasesInput :: "PhaseInput list \<Rightarrow> verrors" where
  "ValidatePhasesInput phases =
     (if phases = [] then [(''phases'', AtLeastOne)]
      else let errs = fold phase_rules (enumerate 0 phases) []
             @ (if \<not> list_ex (\<lambda>p. pi_Type p = ''concrete'') phases then [(''phases'', NoConcretePhase)] else [])
             @ validateNameUniqueness (phase_names phases) ''phases''
             @ validateSystemReservedNames (phase_names phases) ''phases''
             @ phase_references phases in
        if errs = [] \<and> phase_depends phases \<noteq> []
        then (case ValidatePhaseDAG (phase_names phases) (phase_depends phases) of
                Inl e \<Rightarrow> [(''phases'', Cycle e)]
              | Inr _ \<Rightarrow> [])
        else errs)"

text \<open>Filling a deferred phase: its constraints, then the common rules.\<close>

definition buildAllowedBloomMap :: "int list \<Rightarrow> int list" where
  "buildAllowedBloomMap allowedLevels =
     (if allowedLevels \<noteq> [] then allowedLevels else [BloomLevelMin..BloomLevelMax])"

definition constraint_rules :: "Phase \<Rightarrow> TaskInput list \<Rightarrow> verrors" where
  "constraint_rules phase tasks =
     (case ph_Constraints phase of
        None \<Rightarrow> [(''constraints'', Missing)]
      | Some c \<Rightarrow>
          (if MaxTasks c < int (length tasks) then [(''tasks'', OverMaxTasks (int (length tasks)) (MaxTasks c))] else [])
          @ each_item (\<lambda>fp t. if 0 < ti_BloomLevel t \<and> ti_BloomLevel t \<notin> set (buildAllowedBloomMap (AllowedBloomLevels c))
                then [(fp @ ''.bloom_level'', BloomNotAllowed (ti_BloomLevel t) (ph_Name phase))] else []) ''tasks'' tasks)"

definition ValidatePhaseFillInput :: "TaskInput list \<Rightarrow> Phase \<Rightarrow> verrors" where
  "ValidatePhaseFillInput tasks phase =
     (if tasks = [] then [(''tasks'', AtLeastOne)]
      else validateTaskSetCommon tasks ''tasks'' (constraint_rules phase tasks) @ run_on_main_rules ''tasks'' tasks)"

section \<open>When no rule is violated\<close>

lemma str_contains_iff: "str_contains s sub \<longleftrightarrow> (\<exists>a b. s = a @ sub @ b)"
proof
  assume "str_contains s sub"
  then obtain i where "has_prefix (drop i s) sub" by (auto simp: str_contains_def list_ex_iff simp del: upt_Suc)
  then obtain b where "drop i s = sub @ b" by (auto simp: has_prefix_iff)
  then have "s = take i s @ sub @ b" by (metis append_take_drop_id)
  then show "\<exists>a b. s = a @ sub @ b" by blast
next
  assume "\<exists>a b. s = a @ sub @ b"
  then obtain a b where s: "s = a @ sub @ b" by blast
  have "has_prefix (drop (length a) s) sub" by (simp add: s)
  moreover have "length a \<in> set [0..<Suc (length s)]" by (simp add: s)
  ultimately show "str_contains s sub" unfolding str_contains_def list_ex_iff by blast
qed

lemma each_item_Nil:
  assumes "\<And>p x. f p x = [] \<longleftrightarrow> P x"
  shows "each_item f prefix xs = [] \<longleftrightarrow> (\<forall>x \<in> set xs. P x)"
proof -
  have "each_item f prefix xs = [] \<longleftrightarrow> (\<forall>(i, x) \<in> set (enumerate 0 xs). P x)"
    by (auto simp: each_item_def assms)
  also have "\<dots> \<longleftrightarrow> (\<forall>x \<in> snd ` set (enumerate 0 xs). P x)" by force
  finally show ?thesis by (metis list.set_map map_snd_enumerate)
qed

lemma path_rules_Nil:
  "path_rules path i seen ps = [] \<longleftrightarrow>
     (\<forall>p \<in> set ps. p \<noteq> [] \<and> \<not> has_prefix p ''/'' \<and> \<not> str_contains p ''..'') \<and> distinct ps \<and> set ps \<inter> set seen = {}"
  by (induction path i seen ps rule: path_rules.induct) auto

lemma duplicates_Nil: "duplicates seen ns = [] \<longleftrightarrow> distinct ns \<and> set ns \<inter> set seen = {}"
  by (induction seen ns rule: duplicates.induct) auto

lemma blank_items_Nil: "blank_items path xs = [] \<longleftrightarrow> (\<forall>x \<in> set xs. \<not> trims_to_empty x)"
  unfolding blank_items_def by (rule each_item_Nil) simp

text \<open>The fields of one task, as the rules mean them.\<close>

definition abort_ok :: "DefinitionOfAbort \<Rightarrow> bool" where
  "abort_ok d = (MaxRepairCount d \<in> {1..100} \<and> MaxWallClockSec d \<in> {1..86400}
     \<and> (\<forall>c \<in> set (ExplicitFailureConditions d). \<not> trims_to_empty c))"

definition schema_ok :: "string list option \<Rightarrow> DefinitionOfAbort option \<Rightarrow> string list \<Rightarrow> bool" where
  "schema_ok expectedPaths doa dones =
     ((\<exists>ps. expectedPaths = Some ps \<and> ps \<noteq> [] \<and> distinct ps
        \<and> (\<forall>p \<in> set ps. p \<noteq> [] \<and> hd p \<noteq> CHR ''/'' \<and> (\<nexists>a b. p = a @ ''..'' @ b)))
      \<and> (\<exists>d. doa = Some d \<and> abort_ok d)
      \<and> length dones \<le> 20 \<and> (\<forall>x \<in> set dones. \<not> trims_to_empty x))"

definition capability_ok :: "string \<Rightarrow> bool" where
  "capability_ok tag = (\<not> trims_to_empty tag \<and> IsValidIdentifier tag)"

definition core_ok :: "TaskInput \<Rightarrow> bool" where
  "core_ok t =
     (ti_Name t \<noteq> [] \<and> int (rune_count (ti_Name t)) \<le> 128
      \<and> ti_Purpose t \<noteq> [] \<and> int (rune_count (ti_Purpose t)) \<le> 1024
      \<and> ti_Content t \<noteq> [] \<and> int (length (ti_Content t)) \<le> 102400
      \<and> ti_AcceptanceCriteria t \<noteq> [] \<and> int (rune_count (ti_AcceptanceCriteria t)) \<le> 4096
      \<and> (\<forall>c \<in> set (ti_Constraints t). int (rune_count c) \<le> 1024)
      \<and> ti_BloomLevel t \<in> {1..6}
      \<and> (ti_PersonaHint t = [] \<or> IsValidIdentifier (ti_PersonaHint t) \<and> (\<nexists>a b. ti_PersonaHint t = a @ ''..'' @ b))
      \<and> (\<forall>r \<in> set (ti_SkillRefs t). IsValidIdentifier r)
      \<and> (\<forall>c \<in> set (ti_RequiredCapabilities t) \<union> set (ti_PreferredCapabilities t). capability_ok c)
      \<and> schema_ok (ti_ExpectedPaths t) (ti_DefinitionOfAbort t) (ti_DefinitionOfDone t)
      \<and> ti_OperationType t \<in> {[], ''verify'', ''repair''} \<and> ti_ResumeHint t \<in> {[], ''allow'', ''deny''}
      \<and> \<not> (ti_RunOnMain t \<and> ti_RunOnIntegration t)
      \<and> (ti_WorkerID t = [] \<or> worker_pattern (ti_WorkerID t)))"

definition fields_ok :: "TaskInput \<Rightarrow> bool" where
  "fields_ok t = (core_ok t \<and> take 2 (ti_Name t) \<noteq> ''__'')"

lemma has_slash_prefix: "p \<noteq> [] \<Longrightarrow> has_prefix p ''/'' \<longleftrightarrow> hd p = CHR ''/''"
  by (cases p) (auto simp: has_prefix_def)

lemma schema_rules_Nil: "schema_rules prefix ps doa dones = [] \<longleftrightarrow> schema_ok ps doa dones"
proof -
  have v: "validateExpectedPaths qs path = [] \<longleftrightarrow> distinct qs
        \<and> (\<forall>p \<in> set qs. p \<noteq> [] \<and> hd p \<noteq> CHR ''/'' \<and> (\<nexists>a b. p = a @ ''..'' @ b))" for qs path
  proof -
    have "(p \<noteq> [] \<and> \<not> has_prefix p ''/'' \<and> \<not> str_contains p ''..'')
        \<longleftrightarrow> (p \<noteq> [] \<and> hd p \<noteq> CHR ''/'' \<and> (\<nexists>a b. p = a @ ''..'' @ b))" for p
      using has_slash_prefix [of p] str_contains_iff [of p "''..''"] by blast
    then show ?thesis unfolding validateExpectedPaths_def path_rules_Nil by simp blast
  qed
  have a: "(case ps of None \<Rightarrow> [(prefix @ ''expected_paths'', Missing)]
      | Some [] \<Rightarrow> [(prefix @ ''expected_paths'', AtLeastOne)]
      | Some qs \<Rightarrow> validateExpectedPaths qs (prefix @ ''expected_paths'')) = [] \<longleftrightarrow>
    (\<exists>qs. ps = Some qs \<and> qs \<noteq> [] \<and> distinct qs
        \<and> (\<forall>p \<in> set qs. p \<noteq> [] \<and> hd p \<noteq> CHR ''/'' \<and> (\<nexists>a b. p = a @ ''..'' @ b)))"
    by (cases ps) (simp_all add: v split: list.split)
  have b: "(case doa of None \<Rightarrow> [(prefix @ ''definition_of_abort'', Missing)]
      | Some d \<Rightarrow> validateDefinitionOfAbort d (prefix @ ''definition_of_abort'')) = [] \<longleftrightarrow> (\<exists>d. doa = Some d \<and> abort_ok d)"
    by (auto simp: validateDefinitionOfAbort_def abort_ok_def blank_items_Nil split: option.split)
  show ?thesis
    unfolding schema_rules_def append_is_Nil_conv a b
    by (auto simp: schema_ok_def validateDefinitionOfDone_def blank_items_Nil)
qed

lemma validateTaskFieldsCore_Nil: "validateTaskFieldsCore t fp = [] \<longleftrightarrow> core_ok t"
proof -
  have c: "each_item (\<lambda>p c. if 1024 < int (rune_count c) then [(p, TooLong 1024)] else []) q xs = []
      \<longleftrightarrow> (\<forall>c \<in> set xs. int (rune_count c) \<le> 1024)" for q xs
    by (rule each_item_Nil) (simp add: not_less)
  have r: "each_item (\<lambda>p r. if IsValidIdentifier r then [] else [(p, Unsafe r)]) q xs = []
      \<longleftrightarrow> (\<forall>r \<in> set xs. IsValidIdentifier r)" for q xs
    by (rule each_item_Nil) simp
  have k: "each_item validateCapabilityTag q xs = [] \<longleftrightarrow> (\<forall>x \<in> set xs. capability_ok x)" for q xs
    by (rule each_item_Nil) (simp add: validateCapabilityTag_def capability_ok_def)
  have q: "required_text f n path s = [] \<longleftrightarrow> s \<noteq> [] \<and> int (f s) \<le> n" for f n path s
    by (simp add: required_text_def not_less)
  have b: "validateBloomLevel l path = [] \<longleftrightarrow> l \<in> {1..6}" for l path
    by (auto simp: validateBloomLevel_def BloomLevelMin_def BloomLevelMax_def)
  have h: "persona_rules path x = [] \<longleftrightarrow> x = [] \<or> IsValidIdentifier x \<and> (\<nexists>a b. x = a @ ''..'' @ b)" for path x
    by (simp add: persona_rules_def str_contains_iff)
  have o: "validateOperationType x path = [] \<longleftrightarrow> x \<in> {[], ''verify'', ''repair''}" for x path
    by (simp add: validateOperationType_def)
  have m: "validateResumeHint x path = [] \<longleftrightarrow> x \<in> {[], ''allow'', ''deny''}" for x path
    by (simp add: validateResumeHint_def)
  have i: "(if P then [e] else []) = [] \<longleftrightarrow> \<not> P" for P and e :: "string \<times> Rule" by simp
  show ?thesis
    unfolding validateTaskFieldsCore_def append_is_Nil_conv c r k q b h o m i schema_rules_Nil core_ok_def
    by (simp only: ball_Un conj_assoc de_Morgan_conj not_not)
qed

lemma core_ok_name: "core_ok t \<Longrightarrow> ti_Name t \<noteq> []"
  unfolding core_ok_def by (erule conjunct1)

lemma validateTaskFields_Nil: "validateTaskFields t fp = [] \<longleftrightarrow> fields_ok t"
proof -
  have "has_prefix (ti_Name t) ''__'' \<longleftrightarrow> take 2 (ti_Name t) = ''__''"
    by (simp add: has_prefix_def numeral_2_eq_2)
  then show ?thesis
    using core_ok_name [of t] unfolding validateTaskFields_def fields_ok_def append_is_Nil_conv validateTaskFieldsCore_Nil
    by (cases "core_ok t") simp_all
qed

section \<open>A task set is valid\<close>

text \<open>Both graphs, of tasks and of phases, are collected by the same loop.\<close>

definition collect :: "('a \<Rightarrow> string) \<Rightarrow> ('a \<Rightarrow> string list) \<Rightarrow> ('a \<Rightarrow> bool) \<Rightarrow> 'a list \<Rightarrow> graph \<Rightarrow> graph" where
  "collect nm bl P xs m = fold (\<lambda>x m. if P x then AList.update (nm x) (bl x) m else m) xs m"

lemma collect_other: "n \<notin> nm ` set xs \<Longrightarrow> zget [] (collect nm bl P xs m) n = zget [] m n"
  unfolding collect_def by (induction xs arbitrary: m) auto

lemma collect_deps:
  assumes "distinct (map nm xs)" and "x \<in> set xs" and "P x \<or> bl x = []"
  shows "zget [] (collect nm bl P xs []) (nm x) = bl x"
proof -
  obtain ys zs where e: "xs = ys @ x # zs" using assms(2) by (meson split_list)
  then have n: "nm x \<notin> nm ` set ys" "nm x \<notin> nm ` set zs" using assms(1) by auto
  have "collect nm bl P xs [] = collect nm bl P zs
      (if P x then AList.update (nm x) (bl x) (collect nm bl P ys []) else collect nm bl P ys [])"
    by (simp add: e collect_def)
  then show ?thesis using collect_other [OF n(2)] collect_other [OF n(1), of bl P "[]"] assms(3)
    by (auto simp: zget_def [of _ "[]"])
qed

lemma collect_keys:
  "distinct (map fst m) \<Longrightarrow> distinct (map fst (collect nm bl P xs m))
     \<and> fst ` set (collect nm bl P xs m) \<subseteq> fst ` set m \<union> nm ` {x \<in> set xs. P x}"
proof (induction xs arbitrary: m)
  case (Cons x xs)
  let ?m = "if P x then AList.update (nm x) (bl x) m else m"
  have d: "distinct (map fst ?m)" using Cons.prems by (simp add: distinct_update)
  have k: "fst ` set ?m \<subseteq> fst ` set m \<union> nm ` {y. y = x \<and> P y}" by (auto simp: dom_update)
  have e: "collect nm bl P (x # xs) m = collect nm bl P xs ?m" by (simp add: collect_def)
  have r: "fst ` set ?m \<union> nm ` {y \<in> set xs. P y} \<subseteq> fst ` set m \<union> nm ` {y \<in> set (x # xs). P y}"
    using k by (simp only: list.set) blast
  show ?case unfolding e
    using Cons.IH [OF d] subset_trans [OF conjunct2 [OF Cons.IH [OF d]] r] by blast
qed (simp add: collect_def)

lemma collect_entry:
  assumes "distinct (map nm xs)" and "\<forall>x \<in> set xs. P x \<longleftrightarrow> bl x \<noteq> []"
  shows "set (collect nm bl P xs []) = {(nm x, bl x) | x. x \<in> set xs \<and> bl x \<noteq> []}"
proof -
  let ?g = "collect nm bl P xs []"
  have keys: "distinct (map fst ?g)" "fst ` set ?g \<subseteq> nm ` set xs"
    using collect_keys [of "[]" nm bl P xs] by auto
  have deps: "x \<in> set xs \<Longrightarrow> zget [] ?g (nm x) = bl x" for x
    using collect_deps [OF assms(1)] assms(2) by blast
  have ne: "P x \<Longrightarrow> x \<in> set xs \<Longrightarrow> bl x \<noteq> []" for x using assms(2) by blast
  have "(n, ds) \<in> set ?g \<longleftrightarrow> (\<exists>x. n = nm x \<and> ds = bl x \<and> x \<in> set xs \<and> bl x \<noteq> [])" for n ds
  proof
    assume e: "(n, ds) \<in> set ?g"
    then have "n \<in> nm ` {x \<in> set xs. P x}" using collect_keys [of "[]" nm bl P xs] by force
    then obtain x where x: "x \<in> set xs" "P x" "n = nm x" by blast
    have "zget [] ?g n = ds" using e keys(1) by (intro zget_Some) simp
    with x deps ne show "\<exists>x. n = nm x \<and> ds = bl x \<and> x \<in> set xs \<and> bl x \<noteq> []" by metis
  next
    assume "\<exists>x. n = nm x \<and> ds = bl x \<and> x \<in> set xs \<and> bl x \<noteq> []"
    then obtain x where x: "n = nm x" "ds = bl x" "x \<in> set xs" "bl x \<noteq> []" by blast
    with deps [of x] show "(n, ds) \<in> set ?g"
      by (metis map_of_SomeD option.exhaust zget_None zget_Some)
  qed
  then show ?thesis by auto
qed

lemma blocked_map_collect:
  "blocked_map tasks = collect ti_Name ti_BlockedBy (\<lambda>t. ti_Name t \<noteq> [] \<and> ti_BlockedBy t \<noteq> []) tasks []"
  by (simp add: blocked_map_def collect_def)

lemma phase_depends_collect:
  "phase_depends phases = collect pi_Name pi_DependsOnPhases (\<lambda>p. pi_DependsOnPhases p \<noteq> []) phases []"
  by (simp add: phase_depends_def collect_def)

text \<open>The elements can be listed so that each comes after the ones it waits for.\<close>

definition listed :: "('a \<Rightarrow> string) \<Rightarrow> ('a \<Rightarrow> string list) \<Rightarrow> 'a list \<Rightarrow> string list \<Rightarrow> bool" where
  "listed nm bl xs order =
     (mset order = mset (map nm xs)
      \<and> (\<forall>x \<in> set xs. \<forall>before after. order = before @ nm x # after \<longrightarrow> set (bl x) \<subseteq> set before))"

lemma listed_topo:
  assumes "distinct (map nm xs)" and "\<forall>x \<in> set xs. zget [] g (nm x) = bl x"
  shows "listed nm bl xs order \<longleftrightarrow> distinct order \<and> set order = nm ` set xs \<and> topo (\<lambda>n. set (zget [] g n)) order"
proof -
  have m: "mset order = mset (map nm xs) \<longleftrightarrow> distinct order \<and> set order = nm ` set xs"
  proof
    assume m: "mset order = mset (map nm xs)"
    then have "set order = nm ` set xs" using mset_eq_setD by fastforce
    then show "distinct order \<and> set order = nm ` set xs"
      using m assms(1) mset_eq_imp_distinct_iff by blast
  next
    assume "distinct order \<and> set order = nm ` set xs"
    then show "mset order = mset (map nm xs)"
      using assms(1) by (metis list.set_map set_eq_iff_mset_eq_distinct)
  qed
  show ?thesis
  proof (cases "mset order = mset (map nm xs)")
    case True
    then have s: "set order = nm ` set xs" using m by blast
    have "topo (\<lambda>n. set (zget [] g n)) order
        \<longleftrightarrow> (\<forall>x \<in> set xs. \<forall>before after. order = before @ nm x # after \<longrightarrow> set (bl x) \<subseteq> set before)"
      (is "?L \<longleftrightarrow> ?R")
    proof
      assume ?L
      then show ?R using assms(2) unfolding topo_def by metis
    next
      assume r: ?R
      show ?L unfolding topo_def
      proof (intro allI impI)
        fix before n after assume e: "order = before @ n # after"
        then have "n \<in> nm ` set xs" using s by auto
        then obtain x where "x \<in> set xs" "n = nm x" by blast
        with r e assms(2) show "set (zget [] g n) \<subseteq> set before" by metis
      qed
    qed
    then show ?thesis using True m unfolding listed_def by blast
  next
    case False
    then show ?thesis using m unfolding listed_def by blast
  qed
qed

lemma listed_refs:
  assumes "distinct (map nm xs)" and "listed nm bl xs order" and "x \<in> set xs"
  shows "set (bl x) \<subseteq> nm ` set xs - {nm x}"
proof -
  have m: "mset order = mset (map nm xs)" using assms(2) unfolding listed_def by blast
  then have s: "set order = nm ` set xs" using mset_eq_setD by fastforce
  have d: "distinct order" using m assms(1) mset_eq_imp_distinct_iff by blast
  obtain b a where o: "order = b @ nm x # a" using assms(3) s by (metis image_eqI split_list)
  then have "set (bl x) \<subseteq> set b" using assms(2,3) unfolding listed_def by blast
  moreover have "nm x \<notin> set b" using o d by auto
  ultimately show ?thesis using o s by auto
qed

lemma dag_listed:
  assumes d: "distinct (map nm xs)" and deps: "\<forall>x \<in> set xs. zget [] g (nm x) = bl x"
    and keys: "distinct (map fst g)" "fst ` set g \<subseteq> set (map nm xs)"
    and refs: "\<forall>x \<in> set xs. set (bl x) \<subseteq> nm ` set xs"
  shows "succeeds (validateDAG (map nm xs) g) \<longleftrightarrow> (\<exists>order. listed nm bl xs order)"
proof -
  let ?n = "map nm xs"
  have known: "set (known ?n g n) = set (zget [] g n)" for n
  proof (cases "n \<in> nm ` set xs")
    case True
    then obtain x where "x \<in> set xs" "n = nm x" by blast
    then show ?thesis using deps refs by (auto simp: known_def)
  next
    case False
    then have "zget [] g n = []" using keys(2) zget_absent [of n g "[]"] by auto
    then show ?thesis by (simp add: known_def)
  qed
  show ?thesis
  proof
    assume "succeeds (validateDAG ?n g)"
    then obtain order where "validateDAG ?n g = Inr order"
      by (cases "validateDAG ?n g") auto
    note o = validateDAG_order [OF d keys this]
    then have "listed nm bl xs order"
      unfolding listed_topo [OF d deps] by (simp add: known)
    then show "\<exists>order. listed nm bl xs order" by blast
  next
    assume "\<exists>order. listed nm bl xs order"
    then obtain order where o: "distinct order" "set order = nm ` set xs" "topo (\<lambda>n. set (zget [] g n)) order"
      using listed_topo [OF d deps] by blast
    have "\<not> cyclic g"
    proof
      assume "cyclic g"
      then obtain n ts where c: "ts \<noteq> []" "walk (depends g) n ts" "last ts = n" unfolding cyclic_def by blast
      then have "n \<in> fst ` set g" using depends_key by (cases ts) auto
      then have "n \<in> set order" using keys(2) o(2) by auto
      with topo_no_cycle [OF o(3,1) _ c(2,1)] c(3) show False by blast
    qed
    then show "succeeds (validateDAG ?n g)"
      using validateDAG_error(2) [OF d keys] by (cases "validateDAG ?n g") (metis DagError.exhaust, simp)
  qed
qed

lemma graph_check:
  assumes d: "distinct (map nm xs)" and P: "\<forall>x \<in> set xs. P x \<longleftrightarrow> bl x \<noteq> []"
  shows "(\<forall>(n, deps) \<in> set (collect nm bl P xs []). set deps \<subseteq> nm ` set xs)
      \<and> (collect nm bl P xs [] = [] \<or> succeeds (validateDAG (map nm xs) (collect nm bl P xs [])))
    \<longleftrightarrow> (\<exists>order. listed nm bl xs order)"
proof -
  let ?g = "collect nm bl P xs []"
  have deps: "\<forall>x \<in> set xs. zget [] ?g (nm x) = bl x" using collect_deps [OF d] P by blast
  have keys: "distinct (map fst ?g)" "fst ` set ?g \<subseteq> set (map nm xs)"
    using collect_keys [of "[]" nm bl P xs] by auto
  note entry = collect_entry [OF d P]
  have refs: "(\<forall>(n, deps) \<in> set ?g. set deps \<subseteq> nm ` set xs) \<longleftrightarrow> (\<forall>x \<in> set xs. set (bl x) \<subseteq> nm ` set xs)"
    unfolding entry by fastforce
  have plain: "listed nm bl xs (map nm xs)" if "?g = []"
  proof -
    have "bl x = []" if "x \<in> set xs" for x
      using that deps \<open>?g = []\<close> by (metis zget_absent empty_iff image_empty list.set(1))
    then show ?thesis by (simp add: listed_def)
  qed
  show ?thesis
    using refs plain dag_listed [OF d deps keys] listed_refs [OF d] by blast
qed

definition task_set_ok :: "TaskInput list \<Rightarrow> bool" where
  "task_set_ok tasks =
     ((\<forall>t \<in> set tasks. fields_ok t) \<and> distinct (map ti_Name tasks) \<and> (\<exists>order. listed ti_Name ti_BlockedBy tasks order))"

lemma each_task_Nil: "each_item (\<lambda>fp t. validateTaskFields t fp) prefix tasks = [] \<longleftrightarrow> (\<forall>t \<in> set tasks. fields_ok t)"
  by (rule each_item_Nil) (rule validateTaskFields_Nil)

lemma uniqueness_Nil: "validateNameUniqueness names prefix = [] \<longleftrightarrow> distinct names"
  by (simp add: validateNameUniqueness_def duplicates_Nil)

lemma filter_enumerate_Nil: "filter (\<lambda>(i, x). P x) (enumerate k xs) = [] \<longleftrightarrow> (\<forall>x \<in> set xs. \<not> P x)"
  by (induction xs arbitrary: k) auto

lemma reference_rules_Nil:
  "reference_rules prefix tasks = [] \<longleftrightarrow>
     (\<forall>(n, deps) \<in> set (blocked_map tasks). set deps \<subseteq> set (task_names tasks) - {n})"
proof -
  have "ValidateSamePhaseRefs (blocked_map tasks) (task_names tasks) = []
      \<longleftrightarrow> (\<forall>(n, deps) \<in> set (blocked_map tasks). \<forall>d \<in> set deps. d \<in> set (task_names tasks))"
    by (fastforce simp: ValidateSamePhaseRefs_def filter_enumerate_Nil)
  moreover have "ValidateNoSelfReference (blocked_map tasks) = []
      \<longleftrightarrow> (\<forall>(n, deps) \<in> set (blocked_map tasks). n \<notin> set deps)"
    by (fastforce simp: ValidateNoSelfReference_def filter_empty_conv)
  ultimately show ?thesis by (auto simp: reference_rules_def)
qed

text \<open>For named tasks the graph of the validator is the one the tasks declare.\<close>

lemma named_tasks:
  assumes "\<forall>t \<in> set tasks. fields_ok t"
  shows "task_names tasks = map ti_Name tasks"
proof -
  have "ti_Name t \<noteq> []" if "t \<in> set tasks" for t
    using assms that core_ok_name unfolding fields_ok_def by blast
  then show ?thesis by (auto simp: task_names_def filter_id_conv)
qed

lemma task_set_Nil:
  "validateTaskSetCommon tasks prefix errs = [] \<longleftrightarrow> errs = [] \<and> task_set_ok tasks"
proof -
  let ?errs = "errs @ each_item (\<lambda>fp t. validateTaskFields t fp) prefix tasks
      @ validateNameUniqueness (task_names tasks) prefix @ reference_rules prefix tasks"
  let ?dag = "ValidateTaskDAG (task_names tasks) (blocked_map tasks)"
  have run: "validateTaskSetCommon tasks prefix errs = [] \<longleftrightarrow> ?errs = [] \<and> (blocked_map tasks = [] \<or> succeeds ?dag)"
    unfolding validateTaskSetCommon_def Let_def succeeds_def by (cases ?dag; cases "?errs = []") auto
  show ?thesis
  proof (cases "errs = [] \<and> (\<forall>t \<in> set tasks. fields_ok t) \<and> distinct (map ti_Name tasks)")
    case False
    have "?errs = [] \<Longrightarrow> errs = [] \<and> (\<forall>t \<in> set tasks. fields_ok t) \<and> distinct (map ti_Name tasks)"
      using named_tasks [of tasks] by (auto simp: each_task_Nil uniqueness_Nil)
    with False run show ?thesis unfolding task_set_ok_def by blast
  next
    case True
    then have ok: "\<forall>t \<in> set tasks. fields_ok t" and d: "distinct (map ti_Name tasks)" by blast+
    have P: "\<forall>t \<in> set tasks. ti_Name t \<noteq> [] \<and> ti_BlockedBy t \<noteq> [] \<longleftrightarrow> ti_BlockedBy t \<noteq> []"
      using ok core_ok_name unfolding fields_ok_def by blast
    have names: "task_names tasks = map ti_Name tasks" by (rule named_tasks [OF ok])
    have e: "?errs = [] \<longleftrightarrow> (\<forall>(n, deps) \<in> set (blocked_map tasks). set deps \<subseteq> ti_Name ` set tasks - {n})"
      using True by (simp add: each_task_Nil uniqueness_Nil names reference_rules_Nil)
    have self: "set deps \<subseteq> ti_Name ` set tasks - {n}"
      if "listed ti_Name ti_BlockedBy tasks order" "(n, deps) \<in> set (blocked_map tasks)" for n deps order
      using that(2) listed_refs [OF d that(1)] unfolding blocked_map_collect collect_entry [OF d P] by auto
    have g: "(\<forall>(n, deps) \<in> set (blocked_map tasks). set deps \<subseteq> ti_Name ` set tasks - {n})
        \<and> (blocked_map tasks = [] \<or> succeeds (validateDAG (map ti_Name tasks) (blocked_map tasks)))
      \<longleftrightarrow> (\<exists>order. listed ti_Name ti_BlockedBy tasks order)"
      using self graph_check [OF d P, folded blocked_map_collect] by blast
    show ?thesis
      unfolding run e unfolding ValidateTaskDAG_def names g task_set_ok_def using True by blast
  qed
qed

lemma isolation_Nil:
  "validateRunOnMainIsolation tasks prefix = [] \<longleftrightarrow> (\<forall>t \<in> set tasks. ti_RunOnMain t) \<or> (\<forall>t \<in> set tasks. \<not> ti_RunOnMain t)"
  by (auto simp: validateRunOnMainIsolation_def list_ex_iff)

lemma tasks_input_Nil:
  "ValidateTasksInput tasks = [] \<longleftrightarrow> tasks \<noteq> [] \<and> task_set_ok tasks
     \<and> ((\<forall>t \<in> set tasks. ti_RunOnMain t) \<or> (\<forall>t \<in> set tasks. \<not> ti_RunOnMain t))"
  by (simp add: ValidateTasksInput_def task_set_Nil isolation_Nil)

text \<open>
  C13. A flat plan is accepted exactly when it is not empty, every field of every task is within its limits, the
  names are distinct, the tasks can be listed so that each comes after the tasks that block it (so every
  reference is to a task of the plan, none to itself, and there is no cycle), and verification on
  the published main branch is not mixed with other work.
\<close>

theorem tasks_input_accepts:
  "ValidateTasksInput tasks = [] \<longleftrightarrow>
     tasks \<noteq> [] \<and> (\<forall>t \<in> set tasks. fields_ok t) \<and> distinct (map ti_Name tasks)
     \<and> (\<exists>order. mset order = mset (map ti_Name tasks)
          \<and> (\<forall>t \<in> set tasks. \<forall>before after. order = before @ ti_Name t # after \<longrightarrow> set (ti_BlockedBy t) \<subseteq> set before))
     \<and> ((\<forall>t \<in> set tasks. ti_RunOnMain t) \<or> (\<forall>t \<in> set tasks. \<not> ti_RunOnMain t))"
  by (simp only: tasks_input_Nil task_set_ok_def listed_def conj_assoc)

definition demo_input :: "string \<Rightarrow> string list \<Rightarrow> TaskInput" where
  "demo_input name blockers =
     \<lparr>ti_Name = name, ti_Purpose = ''p'', ti_Content = ''c'', ti_AcceptanceCriteria = ''a'', ti_Constraints = [],
      ti_BlockedBy = blockers, ti_BloomLevel = 3, ti_Required = True, ti_ToolsHint = [], ti_PersonaHint = [],
      ti_SkillRefs = [], ti_ExpectedPaths = Some [''src''], ti_DefinitionOfAbort = Some DefaultDefinitionOfAbort,
      ti_DefinitionOfDone = [], ti_OperationType = [], ti_WorkerID = ''worker2'', ti_RequiredCapabilities = [],
      ti_PreferredCapabilities = [], ti_RunOnMain = False, ti_RunOnIntegration = False, ti_ResumeHint = []\<rparr>"

lemma demo_fields: "fields_ok (demo_input [CHR ''a''] bs)" "fields_ok (demo_input [CHR ''b''] bs)"
proof -
  have "\<not> str_contains ''src'' ''..''" by (simp add: str_contains_def has_prefix_def upt_rec)
  then have p: "\<nexists>a b. ''src'' = a @ ''..'' @ b" unfolding str_contains_iff .
  have w: "worker_pattern ''worker2''" by (simp add: worker_pattern_def has_prefix_def is_digit_def)
  have "schema_ok (Some [''src'']) (Some DefaultDefinitionOfAbort) []"
    using p by (simp add: schema_ok_def abort_ok_def DefaultDefinitionOfAbort_def)
  then show "fields_ok (demo_input [CHR ''a''] bs)" "fields_ok (demo_input [CHR ''b''] bs)"
    using w by (simp_all add: fields_ok_def core_ok_def demo_input_def rune_count_def)
qed

lemma tasks_input_accepts_witness:
  "ValidateTasksInput [demo_input ''b'' [''a''], demo_input ''a'' []] = []"
proof -
  have n: "ti_Name (demo_input n bs) = n" "ti_BlockedBy (demo_input n bs) = bs" "\<not> ti_RunOnMain (demo_input n bs)" for n bs
    by (simp_all add: demo_input_def)
  have "''a'' \<in> set before" if "[''a'', ''b''] = before @ ''b'' # after" for before after :: "string list"
    using that by (cases before) auto
  then show ?thesis
    unfolding tasks_input_accepts
    by (auto simp: n demo_fields intro!: exI [of _ "[''a'', ''b'']"])
qed

section \<open>A phased plan is valid\<close>

definition constraint_ok :: "ConstraintInput \<Rightarrow> bool" where
  "constraint_ok c = (0 < ci_MaxTasks c \<and> 0 < ci_TimeoutMinutes c \<and> set (ci_AllowedBloomLevels c) \<subseteq> {1..6})"

definition phase_ok :: "PhaseInput \<Rightarrow> bool" where
  "phase_ok p =
     (pi_Name p \<noteq> [] \<and> take 2 (pi_Name p) \<noteq> ''__''
      \<and> (pi_Type p = ''concrete'' \<and> pi_DependsOnPhases p = [] \<and> pi_Constraints p = None
           \<and> pi_Tasks p \<noteq> [] \<and> task_set_ok (pi_Tasks p) \<and> (\<forall>t \<in> set (pi_Tasks p). \<not> ti_RunOnMain t)
         \<or> pi_Type p = ''deferred'' \<and> pi_Tasks p = [] \<and> (\<exists>c. pi_Constraints p = Some c \<and> constraint_ok c)))"

lemma run_on_main_Nil: "run_on_main_rules prefix tasks = [] \<longleftrightarrow> (\<forall>t \<in> set tasks. \<not> ti_RunOnMain t)"
  unfolding run_on_main_rules_def by (rule each_item_Nil) simp

lemma bloom_items_Nil: "each_item (\<lambda>fp l. validateBloomLevel l fp) prefix ls = [] \<longleftrightarrow> set ls \<subseteq> {1..6}"
proof -
  have "each_item (\<lambda>fp l. validateBloomLevel l fp) prefix ls = [] \<longleftrightarrow> (\<forall>l \<in> set ls. l \<in> {1..6})"
    by (rule each_item_Nil) (auto simp: validateBloomLevel_def BloomLevelMin_def BloomLevelMax_def)
  then show ?thesis by blast
qed

lemma concrete_Nil:
  "validateConcretePhase p prefix errs = [] \<longleftrightarrow> errs = [] \<and> pi_DependsOnPhases p = [] \<and> pi_Constraints p = None
     \<and> pi_Tasks p \<noteq> [] \<and> task_set_ok (pi_Tasks p) \<and> (\<forall>t \<in> set (pi_Tasks p). \<not> ti_RunOnMain t)"
  by (simp add: validateConcretePhase_def Let_def task_set_Nil run_on_main_Nil)

lemma deferred_Nil:
  "validateDeferredPhase p prefix = [] \<longleftrightarrow> pi_Tasks p = [] \<and> (\<exists>c. pi_Constraints p = Some c \<and> constraint_ok c)"
  by (auto simp: validateDeferredPhase_def validatePhaseConstraints_def bloom_items_Nil constraint_ok_def
      split: option.splits)

lemma phase_rules_Nil:
  assumes "take 2 (pi_Name p) \<noteq> ''__''"
  shows "phase_rules (i, p) errs = [] \<longleftrightarrow> errs = [] \<and> phase_ok p"
  using assms by (auto simp: phase_rules_def Let_def concrete_Nil deferred_Nil phase_ok_def)

lemma fold_phase_rules_Nil:
  "\<forall>p \<in> snd ` set ips. take 2 (pi_Name p) \<noteq> ''__'' \<Longrightarrow>
   fold phase_rules ips errs = [] \<longleftrightarrow> errs = [] \<and> (\<forall>p \<in> snd ` set ips. phase_ok p)"
  by (induction ips arbitrary: errs) (auto simp: phase_rules_Nil)

lemma phase_references_Nil:
  "phase_references phases = [] \<longleftrightarrow> (\<forall>p \<in> set phases. set (pi_DependsOnPhases p) \<subseteq> set (phase_names phases))"
proof -
  have e: "each_item (\<lambda>fp dep. if dep \<notin> set (phase_names phases) then [(fp, UnknownPhase dep)] else []) q ds = []
      \<longleftrightarrow> (\<forall>d \<in> set ds. d \<in> set (phase_names phases))" for q ds
    by (rule each_item_Nil) simp
  have "phase_references phases = []
      \<longleftrightarrow> (\<forall>(i, p) \<in> set (enumerate 0 phases). \<forall>d \<in> set (pi_DependsOnPhases p). d \<in> set (phase_names phases))"
    by (auto simp: phase_references_def e)
  also have "\<dots> \<longleftrightarrow> (\<forall>p \<in> snd ` set (enumerate 0 phases). \<forall>d \<in> set (pi_DependsOnPhases p). d \<in> set (phase_names phases))"
    by force
  finally show ?thesis by (metis list.set_map map_snd_enumerate subset_iff)
qed

lemma reserved_Nil: "validateSystemReservedNames names prefix = [] \<longleftrightarrow> (\<forall>n \<in> set names. take 2 n \<noteq> ''__'')"
  by (auto simp: validateSystemReservedNames_def filter_empty_conv has_prefix_def numeral_2_eq_2)

lemma phases_input_Nil:
  "ValidatePhasesInput phases = [] \<longleftrightarrow>
     (\<forall>p \<in> set phases. phase_ok p) \<and> distinct (map pi_Name phases) \<and> (\<exists>p \<in> set phases. pi_Type p = ''concrete'')
     \<and> (\<exists>order. listed pi_Name pi_DependsOnPhases phases order)"
proof -
  let ?errs = "fold phase_rules (enumerate 0 phases) []
       @ (if \<not> list_ex (\<lambda>p. pi_Type p = ''concrete'') phases then [(''phases'', NoConcretePhase)] else [])
       @ validateNameUniqueness (phase_names phases) ''phases''
       @ validateSystemReservedNames (phase_names phases) ''phases'' @ phase_references phases"
  let ?dag = "ValidatePhaseDAG (phase_names phases) (phase_depends phases)"
  have s: "snd ` set (enumerate 0 phases) = set phases" by (metis list.set_map map_snd_enumerate)
  have run: "ValidatePhasesInput phases = [] \<longleftrightarrow>
      phases \<noteq> [] \<and> ?errs = [] \<and> (phase_depends phases = [] \<or> succeeds ?dag)"
    unfolding ValidatePhasesInput_def Let_def succeeds_def by (cases ?dag; cases "?errs = []") auto
  show ?thesis
  proof (cases "(\<forall>p \<in> set phases. phase_ok p) \<and> distinct (map pi_Name phases)")
    case True
    then have ok: "\<forall>p \<in> set phases. phase_ok p" and d: "distinct (map pi_Name phases)" by blast+
    have nm: "\<forall>p \<in> set phases. pi_Name p \<noteq> [] \<and> take 2 (pi_Name p) \<noteq> ''__''"
      using ok unfolding phase_ok_def by blast
    have names: "phase_names phases = map pi_Name phases"
      using nm by (auto simp: phase_names_def filter_id_conv)
    have P: "\<forall>p \<in> set phases. pi_DependsOnPhases p \<noteq> [] \<longleftrightarrow> pi_DependsOnPhases p \<noteq> []" by simp
    have f: "fold phase_rules (enumerate 0 phases) [] = []"
      using fold_phase_rules_Nil [of "enumerate 0 phases" "[]"] nm ok unfolding s by blast
    have r: "validateSystemReservedNames (phase_names phases) ''phases'' = []"
      unfolding reserved_Nil names using nm by auto
    have e: "?errs = [] \<longleftrightarrow> (\<exists>p \<in> set phases. pi_Type p = ''concrete'')
        \<and> (\<forall>p \<in> set phases. set (pi_DependsOnPhases p) \<subseteq> pi_Name ` set phases)"
      using d unfolding append_is_Nil_conv f r [unfolded names] uniqueness_Nil phase_references_Nil names by (simp add: list_ex_iff)
    have q: "(\<forall>p \<in> set phases. set (pi_DependsOnPhases p) \<subseteq> pi_Name ` set phases)
        \<longleftrightarrow> (\<forall>(n, deps) \<in> set (phase_depends phases). set deps \<subseteq> pi_Name ` set phases)"
      unfolding phase_depends_collect collect_entry [OF d P] by fastforce
    have g: "(\<forall>p \<in> set phases. set (pi_DependsOnPhases p) \<subseteq> pi_Name ` set phases)
        \<and> (phase_depends phases = [] \<or> succeeds (validateDAG (map pi_Name phases) (phase_depends phases)))
      \<longleftrightarrow> (\<exists>order. listed pi_Name pi_DependsOnPhases phases order)"
      unfolding q using graph_check [OF d P, folded phase_depends_collect] by blast
    show ?thesis
      unfolding run e unfolding ValidatePhaseDAG_def names using True g by force
  next
    case False
    have "?errs = [] \<Longrightarrow> (\<forall>p \<in> set phases. phase_ok p) \<and> distinct (map pi_Name phases)"
    proof -
      assume e: "?errs = []"
      have r: "\<forall>p \<in> set phases. take 2 (pi_Name p) \<noteq> ''__''"
      proof
        fix p assume p: "p \<in> set phases"
        show "take 2 (pi_Name p) \<noteq> ''__''"
        proof (cases "pi_Name p = []")
          case False
          then have "pi_Name p \<in> set (phase_names phases)" using p by (auto simp: phase_names_def)
          then show ?thesis using e unfolding append_is_Nil_conv reserved_Nil by blast
        qed simp
      qed
      then have ok: "\<forall>p \<in> set phases. phase_ok p"
        using e fold_phase_rules_Nil [of "enumerate 0 phases" "[]"] unfolding s append_is_Nil_conv by blast
      then have "phase_names phases = map pi_Name phases"
        by (auto simp: phase_names_def filter_id_conv phase_ok_def)
      with ok e show "(\<forall>p \<in> set phases. phase_ok p) \<and> distinct (map pi_Name phases)"
        unfolding append_is_Nil_conv uniqueness_Nil by metis
    qed
    with False run show ?thesis by blast
  qed
qed

text \<open>
  A phased plan is accepted exactly when it has a concrete phase, each phase is well formed for its type (a
  concrete phase has a valid task set and no constraints or dependencies, a deferred one has positive
  constraints and no tasks), the names are distinct and not reserved, and the phases can be listed so that each
  comes after the phases it depends on.
\<close>

theorem phases_input_accepts:
  "ValidatePhasesInput phases = [] \<longleftrightarrow>
     (\<forall>p \<in> set phases. phase_ok p) \<and> distinct (map pi_Name phases) \<and> (\<exists>p \<in> set phases. pi_Type p = ''concrete'')
     \<and> (\<exists>order. mset order = mset (map pi_Name phases)
          \<and> (\<forall>p \<in> set phases. \<forall>before after. order = before @ pi_Name p # after \<longrightarrow> set (pi_DependsOnPhases p) \<subseteq> set before))"
  by (simp only: phases_input_Nil listed_def)

definition demo_phases :: "PhaseInput list" where
  "demo_phases =
     [\<lparr>pi_Name = ''fix'', pi_Type = ''deferred'', pi_DependsOnPhases = [''build''], pi_Tasks = [],
       pi_Constraints = Some \<lparr>ci_MaxTasks = 3, ci_AllowedBloomLevels = [2, 4], ci_TimeoutMinutes = 60\<rparr>\<rparr>,
      \<lparr>pi_Name = ''build'', pi_Type = ''concrete'', pi_DependsOnPhases = [], pi_Tasks = [demo_input ''a'' []],
       pi_Constraints = None\<rparr>]"

lemma phases_input_accepts_witness: "ValidatePhasesInput demo_phases = []"
proof -
  have "''build'' \<in> set before" if "[''build'', ''fix''] = before @ ''fix'' # after" for before after :: "string list"
    using that by (cases before) auto
  then have l: "listed pi_Name pi_DependsOnPhases demo_phases [''build'', ''fix'']"
    by (simp add: listed_def demo_phases_def) blast
  have "task_set_ok [demo_input ''a'' []]"
    using demo_fields(1) by (simp add: task_set_ok_def listed_def) (simp add: demo_input_def)
  then have "\<forall>p \<in> set demo_phases. phase_ok p"
    by (simp add: demo_phases_def phase_ok_def constraint_ok_def) (simp add: demo_input_def)
  then show ?thesis
    unfolding phases_input_accepts listed_def [symmetric] using l by (simp add: demo_phases_def) blast
qed

text \<open>Filling a phase stays within the constraints the phase was planned with.\<close>

definition within_constraints :: "PhaseConstraints \<Rightarrow> TaskInput list \<Rightarrow> bool" where
  "within_constraints c tasks =
     (int (length tasks) \<le> MaxTasks c
      \<and> (\<forall>t \<in> set tasks. AllowedBloomLevels c = [] \<or> ti_BloomLevel t \<in> set (AllowedBloomLevels c)))"

lemma constraint_rules_Nil:
  assumes "\<forall>t \<in> set tasks. fields_ok t"
  shows "constraint_rules phase tasks = [] \<longleftrightarrow> (\<exists>c. ph_Constraints phase = Some c \<and> within_constraints c tasks)"
proof (cases "ph_Constraints phase")
  case (Some c)
  have b: "ti_BloomLevel t \<in> {1..6}" if "t \<in> set tasks" for t
    using assms that unfolding fields_ok_def core_ok_def by blast
  have "each_item (\<lambda>fp t. if 0 < ti_BloomLevel t \<and> ti_BloomLevel t \<notin> set (buildAllowedBloomMap (AllowedBloomLevels c))
                then [(fp @ ''.bloom_level'', BloomNotAllowed (ti_BloomLevel t) (ph_Name phase))] else []) ''tasks'' tasks = []
      \<longleftrightarrow> (\<forall>t \<in> set tasks. \<not> (0 < ti_BloomLevel t \<and> ti_BloomLevel t \<notin> set (buildAllowedBloomMap (AllowedBloomLevels c))))"
    by (rule each_item_Nil) simp
  also have "\<dots> \<longleftrightarrow> (\<forall>t \<in> set tasks. AllowedBloomLevels c = [] \<or> ti_BloomLevel t \<in> set (AllowedBloomLevels c))"
  proof (intro ball_cong refl)
    fix t assume "t \<in> set tasks"
    then show "\<not> (0 < ti_BloomLevel t \<and> ti_BloomLevel t \<notin> set (buildAllowedBloomMap (AllowedBloomLevels c)))
        \<longleftrightarrow> AllowedBloomLevels c = [] \<or> ti_BloomLevel t \<in> set (AllowedBloomLevels c)"
      using b [of t] by (auto simp: buildAllowedBloomMap_def BloomLevelMin_def BloomLevelMax_def)
  qed
  finally show ?thesis using Some by (simp add: constraint_rules_def within_constraints_def not_less)
qed (simp add: constraint_rules_def)

lemma fill_input_Nil:
  "ValidatePhaseFillInput tasks phase = [] \<longleftrightarrow> tasks \<noteq> [] \<and> task_set_ok tasks \<and> (\<forall>t \<in> set tasks. \<not> ti_RunOnMain t)
     \<and> (\<exists>c. ph_Constraints phase = Some c \<and> within_constraints c tasks)"
  using constraint_rules_Nil [of tasks phase]
  by (auto simp: ValidatePhaseFillInput_def task_set_Nil run_on_main_Nil task_set_ok_def)

section \<open>A pinned worker exists\<close>

lemma read_nat_snoc: "read_nat (ds @ [d]) = 10 * read_nat ds + (of_char d - 48)"
  by (simp add: read_nat_def)

lemma read_nat_digits:
  assumes "ds \<noteq> []" and "hd ds \<noteq> CHR ''0''" and "list_all is_digit ds"
  shows "0 < read_nat ds \<and> show_nat (read_nat ds) = ds"
  using assms
proof (induction ds rule: rev_induct)
  case (snoc d ds)
  have d: "(of_char d :: nat) \<in> {48..57}" using snoc.prems(3) by (simp add: is_digit_def)
  define v where "v = (of_char d :: nat) - 48"
  have v: "v < 10" "of_char d = 48 + v" using d by (auto simp: v_def)
  then have c: "char_of (48 + v) = d" by (metis char_of_char)
  show ?case
  proof (cases "ds = []")
    case True
    have "d \<noteq> CHR ''0''" using snoc.prems(2) True by simp
    then have "(of_char d :: nat) \<noteq> of_char (CHR ''0'')" by (simp only: of_char_eq_iff not_False_eq_True)
    then have "v \<noteq> 0" using v(2) by simp
    then show ?thesis using v c True by (simp add: read_nat_def v_def [symmetric] show_nat.simps)
  next
    case False
    then have ih: "0 < read_nat ds" "show_nat (read_nat ds) = ds"
      using snoc.IH snoc.prems by simp_all
    have r: "read_nat (ds @ [d]) = 10 * read_nat ds + v" by (simp add: read_nat_snoc v_def)
    have "\<not> 10 * read_nat ds + v < 10" using ih(1) by simp
    moreover have "(10 * read_nat ds + v) div 10 = read_nat ds" "(10 * read_nat ds + v) mod 10 = v" using v(1) by simp_all
    ultimately have "show_nat (10 * read_nat ds + v) = ds @ [d]"
      using ih(2) c by (subst show_nat.simps) simp
    then show ?thesis using r ih(1) by simp
  qed
qed simp

lemma worker_pattern_read:
  assumes "worker_pattern w"
  shows "0 < read_nat (drop 6 w)" and "w = ''worker'' @ show_int (int (read_nat (drop 6 w)))"
proof -
  obtain ds where w: "w = ''worker'' @ ds" using assms by (auto simp: worker_pattern_def has_prefix_iff)
  then have "drop 6 w = ds" by simp
  moreover from this assms have "ds \<noteq> []" "hd ds \<noteq> CHR ''0''" "list_all is_digit ds"
    by (cases ds; auto simp: worker_pattern_def)+
  note read_nat_digits [OF this]
  ultimately show "0 < read_nat (drop 6 w)" "w = ''worker'' @ show_int (int (read_nat (drop 6 w)))"
    using w by (simp_all add: show_int_def)
qed

text \<open>
  The number read from a worker pin prints back to the pin, so a pin that passed both checks names a worker
  that the load state lists, unless its number is beyond 64 bits: then the parser of the check gives up and the pin
  passes unchecked.
\<close>

theorem pinned_worker_exists:
  assumes "validateTaskWorkerPins tasks (wc_Count config) prefix = []" and "BuildWorkerStates queues config = Some states"
    and "t \<in> set tasks" and "core_ok t" and "ti_WorkerID t \<noteq> []"
  shows "ti_WorkerID t = ''worker'' @ show_int (int (read_nat (drop 6 (ti_WorkerID t))))
    \<and> (ti_WorkerID t \<in> ws_WorkerID ` set states \<or> 2 ^ 63 \<le> read_nat (drop 6 (ti_WorkerID t)))"
proof -
  let ?w = "ti_WorkerID t" and ?n = "int (read_nat (drop 6 (ti_WorkerID t)))"
  have p: "worker_pattern ?w" using assms(4,5) unfolding core_ok_def by blast
  note r = worker_pattern_read [OF p]
  have c: "0 < wc_Count config"
    using assms(2) by (auto simp: BuildWorkerStates_def split: if_splits)
  then have states: "states = map (\<lambda>i. let w = ''worker'' @ show_int i in
          \<lparr>ws_WorkerID = w, ws_Model = ModelFor config w,
           ws_PendingCount = (case queues w of None \<Rightarrow> 0 | Some tasks \<Rightarrow> worker_load tasks),
           ws_Capabilities = CapabilitiesFor config w\<rparr>) [1..wc_Count config]"
    using assms(2) by (simp add: BuildWorkerStates_def)
  obtain i where i: "(i, t) \<in> set (enumerate 0 tasks)"
    using assms(3) by (metis imageE list.set_map map_snd_enumerate prod.collapse)
  have "2 ^ 63 \<le> ?n \<or> ?n \<le> wc_Count config"
  proof (rule ccontr)
    assume "\<not> (2 ^ 63 \<le> ?n \<or> ?n \<le> wc_Count config)"
    then have "(item prefix i @ ''.worker_id'', WorkerNotConfigured ?w (wc_Count config))
        \<in> set (validateTaskWorkerPins tasks (wc_Count config) prefix)"
      using c i p assms(5) r(1) unfolding validateTaskWorkerPins_def
      by (auto simp: Let_def intro!: bexI [of _ "(i, t)"])
    with assms(1) show False by simp
  qed
  moreover have "?w \<in> ws_WorkerID ` set states" if "?n \<le> wc_Count config"
  proof -
    have "?n \<in> set [1..wc_Count config]" using that r(1) by simp
    then have "''worker'' @ show_int ?n \<in> ws_WorkerID ` set states"
      unfolding states by (auto simp: Let_def image_image)
    then show ?thesis using r(2) by metis
  qed
  moreover have "2 ^ 63 \<le> ?n \<longleftrightarrow> 2 ^ 63 \<le> read_nat (drop 6 ?w)"
    by (metis of_nat_le_iff of_nat_numeral of_nat_power)
  ultimately show ?thesis using r(2) by blast
qed

lemma pinned_worker_exists_witness:
  "BuildWorkerStates (\<lambda>_. None) demo_workers \<noteq> None \<and> core_ok (demo_input ''a'' [])
   \<and> ti_WorkerID (demo_input ''a'' []) = ''worker'' @ show_int (int (read_nat ''2''))"
proof -
  have v: "validateTaskWorkerPins [demo_input ''a'' []] (wc_Count demo_workers) [] = []" by code_simp
  have c: "core_ok (demo_input ''a'' [])" using demo_fields(1) unfolding fields_ok_def by blast
  obtain states where b: "BuildWorkerStates (\<lambda>_. None) demo_workers = Some states"
    by (simp add: BuildWorkerStates_def demo_workers_def)
  have w: "ti_WorkerID (demo_input ''a'' []) = ''worker2''" by (simp add: demo_input_def)
  from pinned_worker_exists [OF v b _ c] b c show ?thesis by (simp add: w)
qed

end
