(* ===== verification/Plan_Wf.thy ===== *)
theory Plan_Wf imports Validate begin

text \<open>
  When the command state of a plan is well formed: the ids it lists are known and listed once, its maps have
  each key once and refer to known tasks, and its task graph passes the check of
  \<open>internal/plan/dag.go\<close>. Every operation that changes a plan (submit, phase fill, retry) is shown
  to establish or to keep this.
\<close>

section \<open>Association lists with fresh keys\<close>

lemma update_fresh: "k \<notin> fst ` set m \<Longrightarrow> AList.update k v m = m @ [(k, v)]"
  by (induction m) auto

lemma delete_fresh: "k \<notin> fst ` set m \<Longrightarrow> AList.delete k m = m"
  by (induction m) auto

lemma zget_append: "zget z (m @ m') k = (if k \<in> fst ` set m then zget z m k else zget z m' k)"
proof (cases "map_of m k")
  case None
  then have "k \<notin> fst ` set m" by (simp add: map_of_eq_None_iff)
  with None show ?thesis by (simp add: zget_def map_add_def)
next
  case (Some v)
  then have "k \<in> fst ` set m" by (metis map_of_eq_None_iff option.distinct(1))
  with Some show ?thesis by (simp add: zget_def map_add_def split: option.split)
qed

lemma zget_In: "zget [] m k \<noteq> [] \<Longrightarrow> (k, zget [] m k) \<in> set m"
  by (auto simp: zget_def split: option.splits dest: map_of_SomeD)

section \<open>The task graph of a state\<close>

definition known_tasks :: "'a TaskTracking_scheme \<Rightarrow> string set" where
  "known_tasks state = fst ` set (TaskStates state)"

definition graph_wf :: "'a TaskTracking_scheme \<Rightarrow> bool" where
  "graph_wf state =
     (distinct (map fst (TaskStates state)) \<and> distinct (map fst (TaskDependencies state))
      \<and> (\<forall>(t, ds) \<in> set (TaskDependencies state). insert t (set ds) \<subseteq> known_tasks state))"

definition task_order :: "'a TaskTracking_scheme \<Rightarrow> string list \<Rightarrow> bool" where
  "task_order state order = listed (\<lambda>n. n) (zget [] (TaskDependencies state)) (map fst (TaskStates state)) order"

lemma graph_refs:
  assumes "graph_wf state"
  shows "set (zget [] (TaskDependencies state) t) \<subseteq> known_tasks state"
proof (cases "zget [] (TaskDependencies state) t = []")
  case False
  from zget_In [OF this] assms show ?thesis unfolding graph_wf_def by blast
qed simp

text \<open>The graph check passes exactly when the tasks can be listed with every dependency first.\<close>

lemma dag_task_order:
  assumes "graph_wf state"
  shows "succeeds (ValidateTaskDAG (map fst (TaskStates state)) (TaskDependencies state)) \<longleftrightarrow> (\<exists>order. task_order state order)"
proof -
  have d: "distinct (map (\<lambda>n. n) (map fst (TaskStates state)))" using assms by (simp add: graph_wf_def)
  have k: "distinct (map fst (TaskDependencies state))" using assms by (simp add: graph_wf_def)
  have s: "fst ` set (TaskDependencies state) \<subseteq> set (map (\<lambda>n. n) (map fst (TaskStates state)))"
    using assms unfolding graph_wf_def known_tasks_def by fastforce
  have r: "\<forall>x \<in> set (map fst (TaskStates state)).
      set (zget [] (TaskDependencies state) x) \<subseteq> (\<lambda>n. n) ` set (map fst (TaskStates state))"
    using graph_refs [OF assms] unfolding known_tasks_def by simp
  show ?thesis
    using dag_listed [OF d _ k s r] unfolding ValidateTaskDAG_def task_order_def by simp
qed

lemma task_orderI:
  assumes "distinct order" and "set order = known_tasks state" and "distinct (map fst (TaskStates state))"
    and "\<And>t before after. order = before @ t # after \<Longrightarrow> set (zget [] (TaskDependencies state) t) \<subseteq> set before"
  shows "task_order state order"
proof -
  have "mset order = mset (map fst (TaskStates state))"
    using assms(1-3) unfolding known_tasks_def by (metis list.set_map set_eq_iff_mset_eq_distinct)
  then show ?thesis using assms(4) by (simp add: task_order_def listed_def)
qed

lemma task_orderD:
  assumes "task_order state order" and "graph_wf state"
  shows "distinct order" and "set order = known_tasks state"
    and "order = before @ t # after \<Longrightarrow> set (zget [] (TaskDependencies state) t) \<subseteq> set before"
proof -
  have m: "mset order = mset (map fst (TaskStates state))"
    using assms(1) by (simp add: task_order_def listed_def)
  then show s: "set order = known_tasks state" using mset_eq_setD [OF m] by (simp add: known_tasks_def)
  show "distinct order" using m assms(2) mset_eq_imp_distinct_iff unfolding graph_wf_def by blast
  show "set (zget [] (TaskDependencies state) t) \<subseteq> set before" if "order = before @ t # after"
  proof -
    have "t \<in> set (map fst (TaskStates state))" using s that unfolding known_tasks_def by auto
    then show ?thesis using assms(1) that unfolding task_order_def listed_def by blast
  qed
qed

text \<open>Dropping dependencies keeps the order.\<close>

lemma task_order_fewer:
  assumes "task_order state order" and "graph_wf state" and "map fst (TaskStates state') = map fst (TaskStates state)"
    and "\<And>t. set (zget [] (TaskDependencies state') t) \<subseteq> set (zget [] (TaskDependencies state) t)"
  shows "task_order state' order"
proof -
  note o = task_orderD [OF assms(1,2)]
  have k: "known_tasks state' = known_tasks state" unfolding known_tasks_def by (metis assms(3) list.set_map)
  show ?thesis
  proof (rule task_orderI)
    show "distinct order" by (rule o(1))
    show "set order = known_tasks state'" unfolding k by (rule o(2))
    show "distinct (map fst (TaskStates state'))" unfolding assms(3) using assms(2) by (simp add: graph_wf_def)
    show "set (zget [] (TaskDependencies state') t) \<subseteq> set before" if "order = before @ t # after" for t before after
      using o(3) [OF that] assms(4) by blast
  qed
qed

section \<open>Phases\<close>

lemma task_phase_in:
  assumes "map_of (task_phase phases) t = Some i"
  shows "i < length phases \<and> t \<in> set (ph_TaskIDs (phases ! i))"
proof -
  have inner: "map_of (fold (\<lambda>tid m. AList.update tid i m) ids m) t \<in> insert (map_of m t) (if t \<in> set ids then {Some i} else {})"
    for ids i and m :: "(string, nat) gomap"
  proof (induction ids arbitrary: m)
    case (Cons a ids)
    then show ?case using Cons [of "AList.update a i m"] by (auto split: if_splits)
  qed simp
  have "map_of (fold (\<lambda>(i, p) m. fold (\<lambda>tid m. AList.update tid i m) (ph_TaskIDs p) m) ips m) t
      \<in> insert (map_of m t) (Some ` {i. \<exists>p. (i, p) \<in> set ips \<and> t \<in> set (ph_TaskIDs p)})"
    for ips :: "(nat \<times> Phase) list" and m
  proof (induction ips arbitrary: m)
    case (Cons ip ips)
    obtain i p where ip: "ip = (i, p)" by fastforce
    let ?m = "fold (\<lambda>tid m. AList.update tid i m) (ph_TaskIDs p) m"
    from Cons [of ?m] inner [of i "ph_TaskIDs p" m] show ?case by (auto simp: ip split: if_splits)
  qed simp
  from this [of "enumerate 0 phases" "[]"] assms obtain p where "(i, p) \<in> set (enumerate 0 phases)" "t \<in> set (ph_TaskIDs p)"
    by (auto simp: task_phase_def)
  then show ?thesis by (auto simp: in_set_enumerate_eq)
qed

lemma phases_disjoint:
  assumes "distinct (concat (map ph_TaskIDs phases))" and "i < length phases" "j < length phases"
    and "t \<in> set (ph_TaskIDs (phases ! i))" "t \<in> set (ph_TaskIDs (phases ! j))"
  shows "i = j"
  using assms
proof (induction phases arbitrary: i j)
  case (Cons p phases)
  have r: "t \<in> set (concat (map ph_TaskIDs phases))" if "k < length phases" "t \<in> set (ph_TaskIDs (phases ! k))" for k
    using that nth_mem by fastforce
  from Cons show ?case
    by (cases i; cases j) (use r in auto)
qed simp

lemma cross_phase_same:
  assumes "\<And>t ds d i j. (t, ds) \<in> set (TaskDependencies state) \<Longrightarrow> d \<in> set ds \<Longrightarrow> map_of (task_phase (Phases state)) t = Some i
    \<Longrightarrow> map_of (task_phase (Phases state)) d = Some j \<Longrightarrow> i = j"
  shows "validateCrossPhaseRefs state = Inr ()"
proof (cases "length (Phases state) \<le> 1")
  case False
  have "\<not> crosses (task_phase (Phases state)) r t d" if "(t, d) \<in> set (dependency_pairs (TaskDependencies state))" for t d r
  proof -
    from that obtain ds where "(t, ds) \<in> set (TaskDependencies state)" "d \<in> set ds"
      by (auto simp: dependency_pairs_def)
    note a = assms [OF this]
    show ?thesis unfolding crosses_def by (auto split: option.split dest: a)
  qed
  then have "find (\<lambda>(t, d). crosses (task_phase (Phases state)) r t d) (dependency_pairs (TaskDependencies state)) = None" for r
    by (fastforce simp: find_None_iff)
  then show ?thesis by (simp add: validateCrossPhaseRefs_def Let_def)
qed (simp add: validateCrossPhaseRefs_def)

text \<open>With disjoint phases the lookup is membership.\<close>

lemma task_phase_iff:
  assumes "distinct (concat (map ph_TaskIDs phases))"
  shows "map_of (task_phase phases) t = Some i \<longleftrightarrow> i < length phases \<and> t \<in> set (ph_TaskIDs (phases ! i))"
proof
  assume i: "i < length phases \<and> t \<in> set (ph_TaskIDs (phases ! i))"
  have inner: "map_of (fold (\<lambda>tid m. AList.update tid i m) ids m) t \<noteq> None \<longleftrightarrow> t \<in> set ids \<or> map_of m t \<noteq> None"
    for ids i and m :: "(string, nat) gomap"
    by (induction ids arbitrary: m) auto
  have outer: "map_of (fold (\<lambda>(i, p) m. fold (\<lambda>tid m. AList.update tid i m) (ph_TaskIDs p) m) ips m) t \<noteq> None
      \<longleftrightarrow> (\<exists>ip \<in> set ips. t \<in> set (ph_TaskIDs (snd ip))) \<or> map_of m t \<noteq> None" for ips :: "(nat \<times> Phase) list" and m
  proof (induction ips arbitrary: m)
    case (Cons ip ips)
    obtain k p where ip: "ip = (k, p)" by fastforce
    show ?case using Cons [of "fold (\<lambda>tid m. AList.update tid k m) (ph_TaskIDs p) m"] inner [of k "ph_TaskIDs p" m]
      by (simp only: ip fold_simps split list.set bex_simps snd_conv) blast
  qed simp
  have "\<exists>ip \<in> set (enumerate 0 phases). t \<in> set (ph_TaskIDs (snd ip))"
    by (rule bexI [of _ "(i, phases ! i)"]) (use i in \<open>simp_all add: in_set_enumerate_eq\<close>)
  then have "map_of (task_phase phases) t \<noteq> None" unfolding task_phase_def by (intro outer [THEN iffD2] disjI1)
  then obtain j where j: "map_of (task_phase phases) t = Some j" by blast
  have "j = i" using phases_disjoint [OF assms] task_phase_in [OF j] i by blast
  with j show "map_of (task_phase phases) t = Some i" by simp
qed (rule task_phase_in)

lemma cross_ok_iff:
  "validateCrossPhaseRefs state = Inr () \<longleftrightarrow> length (Phases state) \<le> 1 \<or>
     (\<forall>(t, d) \<in> set (dependency_pairs (TaskDependencies state)).
        \<not> crosses (task_phase (Phases state)) (close_loop (direct_phase_deps (Phases state))) t d)"
proof (cases "length (Phases state) \<le> 1")
  case False
  let ?r = "find (\<lambda>(t, d). crosses (task_phase (Phases state)) (close_loop (direct_phase_deps (Phases state))) t d)
        (dependency_pairs (TaskDependencies state))"
  have "?r = None \<longleftrightarrow> (\<forall>(t, d) \<in> set (dependency_pairs (TaskDependencies state)).
        \<not> crosses (task_phase (Phases state)) (close_loop (direct_phase_deps (Phases state))) t d)"
    by (fastforce simp: find_None_iff)
  then show ?thesis using False by (cases ?r) (auto simp: validateCrossPhaseRefs_def Let_def)
qed (simp add: validateCrossPhaseRefs_def)

text \<open>What the graph depends on.\<close>

lemma graph_wf_cong:
  "TaskStates s' = TaskStates s \<Longrightarrow> TaskDependencies s' = TaskDependencies s \<Longrightarrow> graph_wf s' = graph_wf s"
  by (simp add: graph_wf_def known_tasks_def)

lemma task_order_cong:
  "TaskStates s' = TaskStates s \<Longrightarrow> TaskDependencies s' = TaskDependencies s \<Longrightarrow> task_order s' order = task_order s order"
  by (simp add: task_order_def)

lemma known_tasks_cong: "TaskStates s' = TaskStates s \<Longrightarrow> known_tasks s' = known_tasks s"
  by (simp add: known_tasks_def)

lemma mutation_cong:
  assumes "TaskStates s' = TaskStates s" "TaskDependencies s' = TaskDependencies s" "Phases s' = Phases s"
  shows "ValidateTaskDAGAfterMutation s' = ValidateTaskDAGAfterMutation s"
  unfolding ValidateTaskDAGAfterMutation_def validateCrossPhaseRefs_def assms by (rule refl)

section \<open>Well-formed plans\<close>

definition plan_wf :: "CommandState \<Rightarrow> bool" where
  "plan_wf state =
     (distinct (RequiredTaskIDs state @ OptionalTaskIDs state)
      \<and> set (RequiredTaskIDs state @ OptionalTaskIDs state) \<subseteq> known_tasks state
      \<and> ExpectedTaskCount state = int (length (RequiredTaskIDs state)) + int (length (OptionalTaskIDs state))
      \<and> graph_wf state
      \<and> distinct (concat (map ph_TaskIDs (Phases state)))
      \<and> set (concat (map ph_TaskIDs (Phases state))) \<subseteq> known_tasks state
      \<and> (\<forall>c. SystemCommitTaskID state = Some c \<longrightarrow> c \<in> set (RequiredTaskIDs state))
      \<and> ValidateTaskDAGAfterMutation state = Inr ())"

lemma mutation_ok:
  assumes "graph_wf state" and "task_order state order" and "validateCrossPhaseRefs state = Inr ()"
  shows "ValidateTaskDAGAfterMutation state = Inr ()"
proof -
  have "succeeds (ValidateTaskDAG (map fst (TaskStates state)) (TaskDependencies state))"
    using dag_task_order [OF assms(1)] assms(2) by blast
  then show ?thesis
    using assms(3) by (auto simp: ValidateTaskDAGAfterMutation_def succeeds_def split: sum.splits)
qed

lemma mutation_okD:
  assumes "ValidateTaskDAGAfterMutation state = Inr ()" and "graph_wf state"
  shows "\<exists>order. task_order state order" and "validateCrossPhaseRefs state = Inr ()"
proof -
  have "succeeds (ValidateTaskDAG (map fst (TaskStates state)) (TaskDependencies state))"
    using assms(1) by (auto simp: ValidateTaskDAGAfterMutation_def succeeds_def split: sum.splits)
  then show "\<exists>order. task_order state order" using dag_task_order [OF assms(2)] by blast
  show "validateCrossPhaseRefs state = Inr ()"
    using assms(1) by (auto simp: ValidateTaskDAGAfterMutation_def split: sum.splits)
qed

section \<open>What the shape of the phases decides\<close>

lemma fold_enumerate_shape:
  assumes "map g xs = map g ys" and "\<And>i x y m. g x = g y \<Longrightarrow> F (i, x) m = F (i, y) m"
  shows "fold F (enumerate n xs) m = fold F (enumerate n ys) m"
  using assms(1)
proof (induction xs arbitrary: ys n m)
  case (Cons x xs)
  then obtain y ys' where ys: "ys = y # ys'" "g x = g y" "map g xs = map g ys'" by (auto simp: map_eq_Cons_conv)
  show ?case using Cons.IH [OF ys(3)] assms(2) [OF ys(2)] by (simp add: ys(1))
qed simp

definition phase_shape :: "Phase \<Rightarrow> string \<times> string \<times> string list" where
  "phase_shape p = (ph_Name p, ph_PhaseID p, ph_DependsOnPhases p)"

lemma direct_deps_shape:
  assumes "map phase_shape ps' = map phase_shape ps"
  shows "direct_phase_deps ps' = direct_phase_deps ps"
proof -
  have "phase_lookup ps' = phase_lookup ps"
    unfolding phase_lookup_def by (rule fold_enumerate_shape [OF assms]) (simp add: phase_shape_def Let_def)
  moreover have "map (\<lambda>p. h (ph_DependsOnPhases p)) ps' = map (\<lambda>p. h (ph_DependsOnPhases p)) ps" for h :: "string list \<Rightarrow> nat list"
    using arg_cong [OF assms, of "map (h \<circ> snd \<circ> snd)"] by (simp add: phase_shape_def comp_def)
  ultimately show ?thesis by (simp add: direct_phase_deps_def)
qed

lemma cross_ok_shape:
  assumes "validateCrossPhaseRefs s = Inr ()" and "map phase_shape (Phases s') = map phase_shape (Phases s)"
    and "\<And>t ds d i j. (t, ds) \<in> set (TaskDependencies s') \<Longrightarrow> d \<in> set ds \<Longrightarrow>
      map_of (task_phase (Phases s')) t = Some i \<Longrightarrow> map_of (task_phase (Phases s')) d = Some j \<Longrightarrow> i \<noteq> j \<Longrightarrow>
      (t, ds) \<in> set (TaskDependencies s) \<and> map_of (task_phase (Phases s)) t = Some i \<and> map_of (task_phase (Phases s)) d = Some j"
  shows "validateCrossPhaseRefs s' = Inr ()"
proof -
  have l: "length (Phases s') = length (Phases s)" using assms(2) by (metis length_map)
  let ?r = "close_loop (direct_phase_deps (Phases s))"
  have "\<not> crosses (task_phase (Phases s')) ?r t d"
    if no: "\<not> length (Phases s) \<le> 1" and p: "(t, d) \<in> set (dependency_pairs (TaskDependencies s'))" for t d
  proof
    assume "crosses (task_phase (Phases s')) ?r t d"
    then obtain i j where ij: "map_of (task_phase (Phases s')) t = Some i" "map_of (task_phase (Phases s')) d = Some j"
      "j \<noteq> i" "j \<notin> set (?r ! i)" by (auto simp: crosses_def split: option.splits)
    obtain ds where ds: "(t, ds) \<in> set (TaskDependencies s')" "d \<in> set ds" using p by (auto simp: dependency_pairs_def)
    have old: "(t, ds) \<in> set (TaskDependencies s)" "map_of (task_phase (Phases s)) t = Some i" "map_of (task_phase (Phases s)) d = Some j"
      using assms(3) [OF ds ij(1,2)] ij(3) by blast+
    have "(t, d) \<in> set (dependency_pairs (TaskDependencies s))" using old(1) ds(2) by (auto simp: dependency_pairs_def)
    moreover have "crosses (task_phase (Phases s)) ?r t d" using ij(3,4) old(2,3) by (simp add: crosses_def)
    ultimately show False using assms(1) no unfolding cross_ok_iff by blast
  qed
  then show ?thesis unfolding cross_ok_iff l direct_deps_shape [OF assms(2)] by blast
qed

lemma task_phase_cong:
  assumes "map ph_TaskIDs ps' = map ph_TaskIDs ps"
  shows "task_phase ps' = task_phase ps"
  unfolding task_phase_def by (rule fold_enumerate_shape [OF assms]) simp

lemma plan_wf_cong:
  assumes "RequiredTaskIDs s' = RequiredTaskIDs s" "OptionalTaskIDs s' = OptionalTaskIDs s" "TaskStates s' = TaskStates s"
    "TaskDependencies s' = TaskDependencies s" "ExpectedTaskCount s' = ExpectedTaskCount s"
    "SystemCommitTaskID s' = SystemCommitTaskID s" and ph: "map phase_shape (Phases s') = map phase_shape (Phases s)"
    "map ph_TaskIDs (Phases s') = map ph_TaskIDs (Phases s)" and wf: "plan_wf s"
  shows "plan_wf s'"
proof -
  have gw: "graph_wf s" using wf unfolding plan_wf_def by blast
  have mut: "ValidateTaskDAGAfterMutation s = Inr ()" using wf unfolding plan_wf_def by blast
  obtain order where o: "task_order s order" using mutation_okD(1) [OF mut gw] by blast
  have "validateCrossPhaseRefs s' = Inr ()"
    by (rule cross_ok_shape [OF mutation_okD(2) [OF mut gw] ph(1)]) (simp_all add: assms(4) task_phase_cong [OF ph(2)])
  then have "ValidateTaskDAGAfterMutation s' = Inr ()"
    using o task_order_cong [OF assms(3,4)] graph_wf_cong [OF assms(3,4)] gw by (intro mutation_ok [where order = order]) simp_all
  then show ?thesis
    using wf unfolding plan_wf_def known_tasks_cong [OF assms(3)] graph_wf_cong [OF assms(3,4)] assms(1,2,5,6) ph(2) by blast
qed

lemma map_same_update: "i < length xs \<Longrightarrow> g y = g (xs ! i) \<Longrightarrow> map g (xs[i := y]) = map g xs"
  by (simp add: map_update list_update_same_conv)

end
