(* ===== verification/Submit.thy ===== *)
theory Submit imports Plan_Wf begin

text \<open>
  The submission of a plan (\<open>internal/plan/submit.go\<close>, \<open>submit_parse.go\<close>, \<open>submit_assign.go\<close>,
  \<open>submit_state.go\<close>, \<open>submit_queue.go\<close>). The disk is the command state and the worker queues; every
  write has a name, and an argument says which writes succeed, so a failure at each point is a run. Task and
  phase ids are drawn from lists, one per call of the generator. Decoding of the input file, the advisory
  warnings and the A/B fan-out after the commit are not part of this theory.
\<close>

section \<open>The disk\<close>

record PlanDisk =
  pd_State :: "CommandState option"
  pd_Queues :: "(string, Task list) gomap"

datatype IoOp = SavePlanning | SaveSealed | SaveFilling | SaveFilled | SaveRolledBack | DeleteTheState
  | WriteQueue string | RollbackQueue string
  | ReadOriginals | AppendRow string | MarkOriginal string | RestoreOriginal string | ResaveOriginal

type_synonym io = "IoOp \<Rightarrow> bool"

definition rows_of :: "(string, Task list) gomap \<Rightarrow> string \<Rightarrow> Task list" where
  "rows_of queues w = zget [] queues w"

record SubmitOptions =
  so_CommandID :: string
  so_PhaseName :: string
  so_DryRun :: bool
  so_WorktreeEnabled :: bool
  so_Workers :: WorkerConfig
  so_MaxPending :: int
  so_Selector :: "(int \<Rightarrow> string \<Rightarrow> string) option"

record SubmitTaskResult =
  st_Name :: string
  st_TaskID :: string
  st_Worker :: string
  st_Model :: string

datatype SubmitError =
    InvalidInput verrors | InvalidSystemTask verrors | BothGiven | NothingGiven | NoIds | BadWorkerCount
  | NotAssigned AssignError | CommandCancelled | DoubleSubmit | UnknownBlocker string | StateNotSaved
  | QueueNotWritten | CrossPhaseName string | NoAssignment string
  | PlanNotSealed PlanStatus | AlreadyCancelled | PhaseNotFound string | PhaseNotDeferred string
  | PhaseNotAwaiting PhaseStatus | PhasesInFill | ConstraintExceeded | FillOvertaken | StateNotLoaded

section \<open>Names, ids and workers\<close>

definition shouldInsertSystemCommit :: "SubmitOptions \<Rightarrow> bool" where
  "shouldInsertSystemCommit opts = (\<not> so_WorktreeEnabled opts)"

text \<open>The texts of the task are Japanese; only that they are short and not empty matters.\<close>

definition system_commit_name :: string where
  "system_commit_name = ''__system_commit''"

definition buildSystemCommitTask :: "string \<times> string \<times> string \<Rightarrow> string list \<Rightarrow> TaskInput" where
  "buildSystemCommitTask texts blockedByNames =
     (case texts of (purpose, content, acceptance) \<Rightarrow>
       \<lparr>ti_Name = system_commit_name, ti_Purpose = purpose, ti_Content = content, ti_AcceptanceCriteria = acceptance,
        ti_Constraints = [], ti_BlockedBy = blockedByNames, ti_BloomLevel = 2, ti_Required = True, ti_ToolsHint = [],
        ti_PersonaHint = [], ti_SkillRefs = [], ti_ExpectedPaths = Some [''.''],
        ti_DefinitionOfAbort = Some DefaultDefinitionOfAbort, ti_DefinitionOfDone = [], ti_OperationType = [],
        ti_WorkerID = [], ti_RequiredCapabilities = [], ti_PreferredCapabilities = [], ti_RunOnMain = False,
        ti_RunOnIntegration = False, ti_ResumeHint = []\<rparr>)"

definition validateSystemTask :: "TaskInput \<Rightarrow> SubmitError + unit" where
  "validateSystemTask task =
     (let errs = validateTaskFieldsCore task ''system_task'' in
      if errs \<noteq> [] then Inl (InvalidSystemTask errs) else Inr ())"

definition insertSystemCommitTask :: "string \<times> string \<times> string \<Rightarrow> TaskInput list \<Rightarrow> SubmitError + TaskInput list" where
  "insertSystemCommitTask texts tasks =
     (let commitTask = buildSystemCommitTask texts (map ti_Name tasks) in
      case validateSystemTask commitTask of Inl e \<Rightarrow> Inl e | Inr _ \<Rightarrow> Inr (tasks @ [commitTask]))"

text \<open>One id per task in turn; the rest of the drawn ids comes back.\<close>

fun resolveNames :: "TaskInput list \<Rightarrow> string list \<Rightarrow> (string, string) gomap \<Rightarrow> SubmitError + ((string, string) gomap \<times> string list)" where
  "resolveNames [] ids m = Inr (m, ids)"
| "resolveNames (t # ts) [] m = Inl NoIds"
| "resolveNames (t # ts) (i # ids) m = resolveNames ts ids (AList.update (ti_Name t) i m)"

definition assign_request :: "TaskInput \<Rightarrow> TaskAssignmentRequest" where
  "assign_request t =
     \<lparr>ar_Name = ti_Name t, ar_BloomLevel = ti_BloomLevel t, ar_PinnedWorkerID = ti_WorkerID t,
      ar_RequireClaudeRuntime = ti_RunOnMain t, ar_RequiredCapabilities = ti_RequiredCapabilities t,
      ar_PreferredCapabilities = ti_PreferredCapabilities t\<rparr>"

definition assign_for :: "SubmitOptions \<Rightarrow> WorkerState list \<Rightarrow> TaskAssignmentRequest list \<Rightarrow> SubmitError + WorkerAssignment list" where
  "assign_for opts states reqs =
     (case AssignWorkers (so_Workers opts) (so_MaxPending opts) states (so_Selector opts) reqs of
        Inl e \<Rightarrow> Inl (NotAssigned e)
      | Inr as \<Rightarrow> Inr as)"

definition resolveAndAssignTasks ::
  "SubmitOptions \<Rightarrow> (string, Task list) gomap \<Rightarrow> TaskInput list \<Rightarrow> string list \<Rightarrow>
   SubmitError + ((string, string) gomap \<times> WorkerAssignment list)" where
  "resolveAndAssignTasks opts queues tasks ids =
     (case resolveNames tasks ids [] of
        Inl e \<Rightarrow> Inl e
      | Inr (nameToID, _) \<Rightarrow>
          (case BuildWorkerStates (map_of queues) (so_Workers opts) of
             None \<Rightarrow> Inl BadWorkerCount
           | Some states \<Rightarrow>
               (case assign_for opts states (map assign_request tasks) of
                  Inl e \<Rightarrow> Inl e
                | Inr assignments \<Rightarrow> Inr (nameToID, assignments))))"

definition assign_map :: "WorkerAssignment list \<Rightarrow> (string, WorkerAssignment) gomap" where
  "assign_map assignments = fold (\<lambda>a m. AList.update (wa_TaskName a) a m) assignments []"

section \<open>The command state of a plan\<close>

definition defaultCompletionPolicy :: CompletionPolicy where
  "defaultCompletionPolicy =
     \<lparr>cp_Mode = ''all_required_completed'', AllowDynamicTasks = False, OnRequiredFailed = ''fail_command'',
      OnRequiredCancelled = ''cancel_command'', OnOptionalFailed = ''ignore'',
      DependencyFailurePolicy = ''cancel_dependents''\<rparr>"

fun blocker_ids :: "(string, string) gomap \<Rightarrow> string list \<Rightarrow> SubmitError + string list" where
  "blocker_ids nameToID [] = Inr []"
| "blocker_ids nameToID (depName # rest) =
     (case map_of nameToID depName of
        None \<Rightarrow> Inl (UnknownBlocker depName)
      | Some i \<Rightarrow> (case blocker_ids nameToID rest of Inl e \<Rightarrow> Inl e | Inr is \<Rightarrow> Inr (i # is)))"

text \<open>The body of the loop that the three builders of a state share.\<close>

definition register_task :: "(string, string) gomap \<Rightarrow> stamp \<Rightarrow> TaskInput \<Rightarrow> CommandState \<Rightarrow> SubmitError + CommandState" where
  "register_task nameToID now t state =
     (let taskID = zget [] nameToID (ti_Name t);
          state1 = (if ti_Required t then state\<lparr>RequiredTaskIDs := RequiredTaskIDs state @ [taskID]\<rparr>
                    else state\<lparr>OptionalTaskIDs := OptionalTaskIDs state @ [taskID]\<rparr>);
          state2 = SetTaskState taskID StatusPlanned now state1 in
      if ti_BlockedBy t = [] then Inr state2
      else (case blocker_ids nameToID (ti_BlockedBy t) of
              Inl e \<Rightarrow> Inl e
            | Inr depIDs \<Rightarrow> Inr (state2\<lparr>TaskDependencies := AList.update taskID depIDs (TaskDependencies state2)\<rparr>)))"

fun register_tasks :: "(string, string) gomap \<Rightarrow> stamp \<Rightarrow> TaskInput list \<Rightarrow> CommandState \<Rightarrow> SubmitError + CommandState" where
  "register_tasks nameToID now [] state = Inr state"
| "register_tasks nameToID now (t # ts) state =
     (case register_task nameToID now t state of
        Inl e \<Rightarrow> Inl e
      | Inr state' \<Rightarrow> register_tasks nameToID now ts state')"

definition count_tasks :: "CommandState \<Rightarrow> CommandState" where
  "count_tasks state =
     state\<lparr>ExpectedTaskCount := int (length (RequiredTaskIDs state)) + int (length (OptionalTaskIDs state))\<rparr>"

definition new_state :: "string \<Rightarrow> stamp \<Rightarrow> CommandState" where
  "new_state commandID now =
     (zero_CommandState commandID PlanStatusPlanning)
       \<lparr>Policy := defaultCompletionPolicy, cs_CreatedAt := now, cs_UpdatedAt := now\<rparr>"

definition buildCommandState ::
  "string \<Rightarrow> TaskInput list \<Rightarrow> (string, string) gomap \<Rightarrow> stamp \<Rightarrow> SubmitError + CommandState" where
  "buildCommandState commandID tasks nameToID now =
     (case register_tasks nameToID now tasks (new_state commandID now) of
        Inl e \<Rightarrow> Inl e
      | Inr state \<Rightarrow>
          Inr (count_tasks (state\<lparr>SystemCommitTaskID :=
            (if list_ex (\<lambda>t. ti_Name t = system_commit_name) tasks
             then Some (zget [] nameToID system_commit_name) else None)\<rparr>)))"

section \<open>Queue entries\<close>

definition taskOperationType :: "TaskInput \<Rightarrow> string" where
  "taskOperationType t =
     (if ti_OperationType t \<noteq> [] then ti_OperationType t
      else if ti_RunOnMain t then ''verify''
      else if ti_RunOnIntegration t then ''repair'' else [])"

definition queue_task :: "string \<Rightarrow> stamp \<Rightarrow> string \<Rightarrow> string list \<Rightarrow> TaskInput \<Rightarrow> Task" where
  "queue_task commandID now taskID depIDs t =
     (zero_Task taskID StatusPending)
       \<lparr>q_Priority := 100, q_CreatedAt := now, q_UpdatedAt := now, tk_CommandID := commandID,
        tk_Purpose := ti_Purpose t, tk_Content := ti_Content t, tk_AcceptanceCriteria := ti_AcceptanceCriteria t,
        tk_DefinitionOfDone := ti_DefinitionOfDone t, tk_Constraints := ti_Constraints t, tk_BlockedBy := depIDs,
        tk_BloomLevel := ti_BloomLevel t, tk_ToolsHint := ti_ToolsHint t, tk_PersonaHint := ti_PersonaHint t,
        tk_SkillRefs := ti_SkillRefs t,
        tk_ExpectedPaths := (case ti_ExpectedPaths t of None \<Rightarrow> [] | Some ps \<Rightarrow> ps),
        tk_DefinitionOfAbort := ti_DefinitionOfAbort t, tk_RunOnMain := ti_RunOnMain t,
        tk_RunOnIntegration := ti_RunOnIntegration t, tk_ResumeHint := ti_ResumeHint t,
        tk_OperationType := taskOperationType t, tk_RequiredCapabilities := ti_RequiredCapabilities t,
        tk_PreferredCapabilities := ti_PreferredCapabilities t\<rparr>"

definition task_map :: "TaskInput list \<Rightarrow> (string, TaskInput) gomap" where
  "task_map tasks = fold (\<lambda>t m. AList.update (ti_Name t) t m) tasks []"

definition zero_TaskInput :: TaskInput where
  "zero_TaskInput =
     \<lparr>ti_Name = [], ti_Purpose = [], ti_Content = [], ti_AcceptanceCriteria = [], ti_Constraints = [],
      ti_BlockedBy = [], ti_BloomLevel = 0, ti_Required = False, ti_ToolsHint = [], ti_PersonaHint = [],
      ti_SkillRefs = [], ti_ExpectedPaths = None, ti_DefinitionOfAbort = None, ti_DefinitionOfDone = [],
      ti_OperationType = [], ti_WorkerID = [], ti_RequiredCapabilities = [], ti_PreferredCapabilities = [],
      ti_RunOnMain = False, ti_RunOnIntegration = False, ti_ResumeHint = []\<rparr>"

fun build_rows ::
  "string \<Rightarrow> stamp \<Rightarrow> (string, string) gomap \<Rightarrow> (string, TaskInput) gomap \<Rightarrow> WorkerAssignment list \<Rightarrow>
   (string, Task list) gomap \<Rightarrow> SubmitError + (string, Task list) gomap" where
  "build_rows commandID now nameToID taskMap [] workerTasks = Inr workerTasks"
| "build_rows commandID now nameToID taskMap (a # rest) workerTasks =
     (let t = zget zero_TaskInput taskMap (wa_TaskName a) in
      case blocker_ids nameToID (ti_BlockedBy t) of
        Inl e \<Rightarrow> Inl e
      | Inr depIDs \<Rightarrow>
          build_rows commandID now nameToID taskMap rest
            (AList.update (wa_WorkerID a)
              (zget [] workerTasks (wa_WorkerID a)
                @ [queue_task commandID now (zget [] nameToID (wa_TaskName a)) depIDs t]) workerTasks))"

definition buildQueueTasksByWorker ::
  "WorkerAssignment list \<Rightarrow> TaskInput list \<Rightarrow> (string, string) gomap \<Rightarrow> string \<Rightarrow> stamp \<Rightarrow>
   SubmitError + (string, Task list) gomap" where
  "buildQueueTasksByWorker assignments tasks nameToID commandID now =
     build_rows commandID now nameToID (task_map tasks) assignments []"

text \<open>The writes stop at the first failure; the queues before it stay written.\<close>

fun append_rows :: "io \<Rightarrow> (string, Task list) gomap \<Rightarrow> string list \<Rightarrow> (string, Task list) gomap \<Rightarrow> bool \<times> (string, Task list) gomap" where
  "append_rows ok workerTasks [] queues = (True, queues)"
| "append_rows ok workerTasks (w # ws) queues =
     (if \<not> ok (WriteQueue w) then (False, queues)
      else append_rows ok workerTasks ws (AList.update w (rows_of queues w @ zget [] workerTasks w) queues))"

definition appendQueueTasksByWorker :: "io \<Rightarrow> (string, Task list) gomap \<Rightarrow> (string, Task list) gomap \<Rightarrow> bool \<times> (string, Task list) gomap" where
  "appendQueueTasksByWorker ok workerTasks queues = append_rows ok workerTasks (sort (map fst workerTasks)) queues"

definition writeQueueEntriesLocked ::
  "io \<Rightarrow> WorkerAssignment list \<Rightarrow> TaskInput list \<Rightarrow> (string, string) gomap \<Rightarrow> string \<Rightarrow> stamp \<Rightarrow>
   (string, Task list) gomap \<Rightarrow> bool \<times> (string, Task list) gomap" where
  "writeQueueEntriesLocked ok assignments tasks nameToID commandID now queues =
     (case buildQueueTasksByWorker assignments tasks nameToID commandID now of
        Inl e \<Rightarrow> (False, queues)
      | Inr workerTasks \<Rightarrow> appendQueueTasksByWorker ok workerTasks queues)"

text \<open>A queue file that is missing or cannot be read or written is reported and left as it is.\<close>

definition rollback_queue :: "io \<Rightarrow> string list \<Rightarrow> string \<Rightarrow> (string, Task list) gomap \<Rightarrow> (string, Task list) gomap" where
  "rollback_queue ok taskIDs w queues =
     (case map_of queues w of
        None \<Rightarrow> queues
      | Some rows \<Rightarrow>
          if ok (RollbackQueue w) then AList.update w (filter (\<lambda>t. q_ID t \<notin> set taskIDs) rows) queues else queues)"

definition rollbackQueueEntriesLocked ::
  "io \<Rightarrow> TaskInput list \<Rightarrow> (string, string) gomap \<Rightarrow> (string, WorkerAssignment) gomap \<Rightarrow>
   (string, Task list) gomap \<Rightarrow> (string, Task list) gomap" where
  "rollbackQueueEntriesLocked ok tasks nameToID assignMap queues =
     fold (rollback_queue ok (map (\<lambda>t. zget [] nameToID (ti_Name t)) tasks))
       (remdups (map (\<lambda>(_, a). wa_WorkerID a) assignMap)) queues"

definition rollbackStateAndQueueLocked ::
  "io \<Rightarrow> TaskInput list \<Rightarrow> (string, string) gomap \<Rightarrow> (string, WorkerAssignment) gomap \<Rightarrow> PlanDisk \<Rightarrow> PlanDisk" where
  "rollbackStateAndQueueLocked ok tasks nameToID assignMap disk =
     \<lparr>pd_State = (if ok DeleteTheState then None else pd_State disk),
      pd_Queues = rollbackQueueEntriesLocked ok tasks nameToID assignMap (pd_Queues disk)\<rparr>"

section \<open>Initial submission\<close>

text \<open>
  The writes both initial submissions share: the state as planning, the queue entries, the state as sealed.
\<close>

definition seal_plan :: "stamp \<Rightarrow> CommandState \<Rightarrow> CommandState" where
  "seal_plan sealedAt state = state\<lparr>cs_PlanStatus := PlanStatusSealed, PlanVersion := 1, cs_UpdatedAt := sealedAt\<rparr>"

definition commit_plan ::
  "io \<Rightarrow> stamp \<Rightarrow> stamp \<Rightarrow> string \<Rightarrow> WorkerAssignment list \<Rightarrow> TaskInput list \<Rightarrow> (string, string) gomap \<Rightarrow> CommandState \<Rightarrow>
   PlanDisk \<Rightarrow> SubmitError option \<times> PlanDisk" where
  "commit_plan ok now sealedAt commandID assignments tasks nameToID state disk =
     (let rollback = rollbackStateAndQueueLocked ok tasks nameToID (assign_map assignments) in
      if \<not> ok SavePlanning then (Some StateNotSaved, disk)
      else let disk1 = disk\<lparr>pd_State := Some state\<rparr> in
      case writeQueueEntriesLocked ok assignments tasks nameToID commandID now (pd_Queues disk1) of
        (False, queues) \<Rightarrow> (Some QueueNotWritten, rollback (disk1\<lparr>pd_Queues := queues\<rparr>))
      | (True, queues) \<Rightarrow>
          (let disk2 = disk1\<lparr>pd_Queues := queues\<rparr> in
           if ok SaveSealed then (None, disk2\<lparr>pd_State := Some (seal_plan sealedAt state)\<rparr>)
           else (Some StateNotSaved, rollback disk2)))"

definition checkCommandNotCancelled :: "Command list \<Rightarrow> string \<Rightarrow> SubmitError + unit" where
  "checkCommandNotCancelled commands commandID =
     (if list_ex (\<lambda>cmd. q_ID cmd = commandID \<and> q_Status cmd = StatusCancelled) commands
      then Inl CommandCancelled else Inr ())"

definition lockInitialStateForWrite :: "Command list \<Rightarrow> string \<Rightarrow> PlanDisk \<Rightarrow> SubmitError + unit" where
  "lockInitialStateForWrite commands commandID disk =
     (case checkCommandNotCancelled commands commandID of
        Inl e \<Rightarrow> Inl e
      | Inr _ \<Rightarrow> if pd_State disk \<noteq> None then Inl DoubleSubmit else Inr ())"

fun task_results :: "(string, string) gomap \<Rightarrow> (string, WorkerAssignment) gomap \<Rightarrow> TaskInput list \<Rightarrow> SubmitError + SubmitTaskResult list" where
  "task_results nameToID assignMap [] = Inr []"
| "task_results nameToID assignMap (t # ts) =
     (case map_of assignMap (ti_Name t) of
        None \<Rightarrow> Inl (NoAssignment (ti_Name t))
      | Some a \<Rightarrow>
          (case task_results nameToID assignMap ts of
             Inl e \<Rightarrow> Inl e
           | Inr rs \<Rightarrow> Inr (\<lparr>st_Name = ti_Name t, st_TaskID = zget [] nameToID (ti_Name t),
                 st_Worker = wa_WorkerID a, st_Model = wa_Model a\<rparr> # rs)))"

text \<open>What a submission returns: nothing but the verdict on a dry run, otherwise the placed tasks.\<close>

definition submitInitialTasks ::
  "io \<Rightarrow> SubmitOptions \<Rightarrow> string \<times> string \<times> string \<Rightarrow> Command list \<Rightarrow> string list \<Rightarrow> stamp \<Rightarrow> stamp \<Rightarrow> TaskInput list \<Rightarrow>
   PlanDisk \<Rightarrow> (SubmitError + SubmitTaskResult list) \<times> PlanDisk" where
  "submitInitialTasks ok opts texts commands ids now sealedAt tasks0 disk =
     (let verrs = ValidateTasksInput tasks0; pins = validateTaskWorkerPins tasks0 (wc_Count (so_Workers opts)) ''tasks'' in
      if verrs \<noteq> [] then (Inl (InvalidInput verrs), disk)
      else if pins \<noteq> [] then (Inl (InvalidInput pins), disk)
      else if so_DryRun opts then (Inr [], disk)
      else case (if shouldInsertSystemCommit opts then insertSystemCommitTask texts tasks0 else Inr tasks0) of
        Inl e \<Rightarrow> (Inl e, disk)
      | Inr tasks \<Rightarrow>
          (case resolveAndAssignTasks opts (pd_Queues disk) tasks ids of
             Inl e \<Rightarrow> (Inl e, disk)
           | Inr (nameToID, assignments) \<Rightarrow>
               (case lockInitialStateForWrite commands (so_CommandID opts) disk of
                  Inl e \<Rightarrow> (Inl e, disk)
                | Inr _ \<Rightarrow>
                    (case buildCommandState (so_CommandID opts) tasks nameToID now of
                       Inl e \<Rightarrow> (Inl e, disk)
                     | Inr state \<Rightarrow>
                         (case commit_plan ok now sealedAt (so_CommandID opts) assignments tasks nameToID state disk of
                            (Some e, disk') \<Rightarrow> (Inl e, disk')
                          | (None, disk') \<Rightarrow> (task_results nameToID (assign_map assignments) tasks, disk'))))))"

section \<open>Phased submission\<close>

record concretePhaseData =
  cpd_nameToID :: "(string, string) gomap"
  cpd_tasks :: "TaskInput list"
  cpd_assignments :: "WorkerAssignment list"
  cpd_workerStates :: "WorkerState list"

fun validateCrossPhaseTaskNames :: "(string, string) gomap \<Rightarrow> string list \<Rightarrow> SubmitError + unit" where
  "validateCrossPhaseTaskNames seen [] = Inr ()"
| "validateCrossPhaseTaskNames seen (n # ns) =
     (if map_of seen n \<noteq> None then Inl (CrossPhaseName n)
      else validateCrossPhaseTaskNames (AList.update n n seen) ns)"

definition concrete_phases :: "PhaseInput list \<Rightarrow> PhaseInput list" where
  "concrete_phases phases = filter (\<lambda>p. pi_Type p = ''concrete'') phases"

text \<open>A request of a phase leaves the runtime unconstrained: phases have no work on the main branch.\<close>

definition phase_request :: "TaskInput \<Rightarrow> TaskAssignmentRequest" where
  "phase_request t = (assign_request t)\<lparr>ar_RequireClaudeRuntime := False\<rparr>"

definition bump_all :: "WorkerAssignment list \<Rightarrow> WorkerState list \<Rightarrow> WorkerState list" where
  "bump_all assignments states = fold (\<lambda>a. bump_worker (wa_WorkerID a)) assignments states"

fun process_phases :: "SubmitOptions \<Rightarrow> PhaseInput list \<Rightarrow> string list \<Rightarrow> concretePhaseData \<Rightarrow> SubmitError + (concretePhaseData \<times> string list)" where
  "process_phases opts [] ids cpd = Inr (cpd, ids)"
| "process_phases opts (p # ps) ids cpd =
     (case resolveNames (pi_Tasks p) ids [] of
        Inl e \<Rightarrow> Inl e
      | Inr (nameToID, ids') \<Rightarrow>
          (case assign_for opts (cpd_workerStates cpd) (map phase_request (pi_Tasks p)) of
             Inl e \<Rightarrow> Inl e
           | Inr assignments \<Rightarrow>
               process_phases opts ps ids'
                 \<lparr>cpd_nameToID = fold (\<lambda>(k, v) m. AList.update k v m) nameToID (cpd_nameToID cpd),
                  cpd_tasks = cpd_tasks cpd @ pi_Tasks p,
                  cpd_assignments = cpd_assignments cpd @ assignments,
                  cpd_workerStates = bump_all assignments (cpd_workerStates cpd)\<rparr>))"

definition processConcretePhases ::
  "SubmitOptions \<Rightarrow> (string, Task list) gomap \<Rightarrow> PhaseInput list \<Rightarrow> string list \<Rightarrow> SubmitError + (concretePhaseData \<times> string list)" where
  "processConcretePhases opts queues phases ids =
     (case BuildWorkerStates (map_of queues) (so_Workers opts) of
        None \<Rightarrow> Inl BadWorkerCount
      | Some states \<Rightarrow>
          process_phases opts (concrete_phases phases) ids
            \<lparr>cpd_nameToID = [], cpd_tasks = [], cpd_assignments = [], cpd_workerStates = states\<rparr>)"

definition addSystemCommitForPhases ::
  "SubmitOptions \<Rightarrow> string \<times> string \<times> string \<Rightarrow> string list \<Rightarrow> concretePhaseData \<Rightarrow>
   SubmitError + (string \<times> concretePhaseData)" where
  "addSystemCommitForPhases opts texts ids cpd =
     (let commitTask = buildSystemCommitTask texts (map ti_Name (cpd_tasks cpd)) in
      case validateSystemTask commitTask of
        Inl e \<Rightarrow> Inl e
      | Inr _ \<Rightarrow>
          (case ids of
             [] \<Rightarrow> Inl NoIds
           | commitID # _ \<Rightarrow>
               (case assign_for opts (cpd_workerStates cpd)
                       [\<lparr>ar_Name = ti_Name commitTask, ar_BloomLevel = ti_BloomLevel commitTask, ar_PinnedWorkerID = [],
                         ar_RequireClaudeRuntime = False, ar_RequiredCapabilities = [], ar_PreferredCapabilities = []\<rparr>] of
                  Inl e \<Rightarrow> Inl e
                | Inr commitAssignments \<Rightarrow>
                    Inr (commitID, cpd\<lparr>cpd_nameToID := AList.update (ti_Name commitTask) commitID (cpd_nameToID cpd),
                        cpd_assignments := cpd_assignments cpd @ commitAssignments,
                        cpd_tasks := cpd_tasks cpd @ [commitTask]\<rparr>))))"

definition plan_constraints :: "ConstraintInput \<Rightarrow> PhaseConstraints" where
  "plan_constraints c =
     \<lparr>MaxTasks = ci_MaxTasks c,
      AllowedBloomLevels = (if ci_AllowedBloomLevels c = [] then [1, 2, 3, 4, 5, 6] else ci_AllowedBloomLevels c),
      TimeoutMinutes = ci_TimeoutMinutes c\<rparr>"

definition plan_phase :: "stamp \<Rightarrow> string \<Rightarrow> string list \<Rightarrow> PhaseInput \<Rightarrow> Phase" where
  "plan_phase now phaseID taskIDs p =
     (zero_Phase phaseID PhaseStatusPending [])
       \<lparr>ph_Name := pi_Name p, ph_Type := pi_Type p, ph_DependsOnPhases := pi_DependsOnPhases p,
        ph_Status := (if pi_Type p = ''concrete'' then PhaseStatusActive else PhaseStatusPending),
        ph_ActivatedAt := (if pi_Type p = ''concrete'' then Some now else None),
        ph_TaskIDs := (if pi_Type p = ''concrete'' then taskIDs else []),
        ph_Constraints := (if pi_Type p = ''concrete'' then None else map_option plan_constraints (pi_Constraints p))\<rparr>"

fun phase_ids :: "PhaseInput list \<Rightarrow> string list \<Rightarrow> (string, string) gomap \<Rightarrow> SubmitError + ((string, string) gomap \<times> string list)" where
  "phase_ids [] ids m = Inr (m, ids)"
| "phase_ids (p # ps) [] m = Inl NoIds"
| "phase_ids (p # ps) (i # ids) m = phase_ids ps ids (AList.update (pi_Name p) i m)"

fun add_phases ::
  "(string, string) gomap \<Rightarrow> (string, string) gomap \<Rightarrow> stamp \<Rightarrow> PhaseInput list \<Rightarrow> CommandState \<Rightarrow> SubmitError + CommandState" where
  "add_phases phaseNameToID nameToID now [] state = Inr state"
| "add_phases phaseNameToID nameToID now (p # ps) state =
     (case (if pi_Type p = ''concrete'' then register_tasks nameToID now (pi_Tasks p) state else Inr state) of
        Inl e \<Rightarrow> Inl e
      | Inr state' \<Rightarrow>
          add_phases phaseNameToID nameToID now ps
            (state'\<lparr>Phases := Phases state' @ [plan_phase now (zget [] phaseNameToID (pi_Name p))
               (map (\<lambda>t. zget [] nameToID (ti_Name t)) (pi_Tasks p)) p]\<rparr>))"

definition add_system_commit :: "concretePhaseData \<Rightarrow> stamp \<Rightarrow> string \<Rightarrow> CommandState \<Rightarrow> CommandState" where
  "add_system_commit cpd now commitID state =
     (let depIDs = map (\<lambda>t. zget [] (cpd_nameToID cpd) (ti_Name t))
            (filter (\<lambda>t. ti_Name t \<noteq> system_commit_name) (cpd_tasks cpd));
          state1 = SetTaskState commitID StatusPlanned now
            (state\<lparr>RequiredTaskIDs := RequiredTaskIDs state @ [commitID]\<rparr>) in
      if depIDs = [] then state1
      else state1\<lparr>TaskDependencies := AList.update commitID depIDs (TaskDependencies state1)\<rparr>)"

definition buildPhaseCommandState ::
  "string \<Rightarrow> PhaseInput list \<Rightarrow> (string, string) gomap \<Rightarrow> concretePhaseData \<Rightarrow> string option \<Rightarrow> stamp \<Rightarrow>
   SubmitError + CommandState" where
  "buildPhaseCommandState commandID phases phaseNameToID cpd systemCommitTaskID now =
     (case add_phases phaseNameToID (cpd_nameToID cpd) now phases
             ((new_state commandID now)\<lparr>SystemCommitTaskID := systemCommitTaskID\<rparr>) of
        Inl e \<Rightarrow> Inl e
      | Inr state \<Rightarrow>
          Inr (count_tasks (case systemCommitTaskID of
             None \<Rightarrow> state
           | Some commitID \<Rightarrow> add_system_commit cpd now commitID state)))"

definition first_errors :: "verrors list \<Rightarrow> verrors" where
  "first_errors es = (case find (\<lambda>e. e \<noteq> []) es of None \<Rightarrow> [] | Some e \<Rightarrow> e)"

definition submitInitialPhases ::
  "io \<Rightarrow> SubmitOptions \<Rightarrow> string \<times> string \<times> string \<Rightarrow> Command list \<Rightarrow> string list \<Rightarrow> stamp \<Rightarrow> stamp \<Rightarrow> PhaseInput list \<Rightarrow>
   PlanDisk \<Rightarrow> SubmitError option \<times> PlanDisk" where
  "submitInitialPhases ok opts texts commands ids now sealedAt phases disk =
     (let verrs = ValidatePhasesInput phases;
          pins = first_errors (map (\<lambda>p. validateTaskWorkerPins (pi_Tasks p) (wc_Count (so_Workers opts))
            (''phases['' @ pi_Name p @ ''].tasks'')) phases) in
      if verrs \<noteq> [] then (Some (InvalidInput verrs), disk)
      else case validateCrossPhaseTaskNames [] (concat (map (\<lambda>p. map ti_Name (pi_Tasks p)) (concrete_phases phases))) of
        Inl e \<Rightarrow> (Some e, disk)
      | Inr _ \<Rightarrow>
      if pins \<noteq> [] then (Some (InvalidInput pins), disk)
      else if so_DryRun opts then (None, disk)
      else case phase_ids phases ids [] of
        Inl e \<Rightarrow> (Some e, disk)
      | Inr (phaseNameToID, ids1) \<Rightarrow>
          (case processConcretePhases opts (pd_Queues disk) phases ids1 of
             Inl e \<Rightarrow> (Some e, disk)
           | Inr (cpd, ids2) \<Rightarrow>
               (case (if shouldInsertSystemCommit opts
                      then (case addSystemCommitForPhases opts texts ids2 cpd of
                              Inl e \<Rightarrow> Inl e | Inr (commitID, cpd') \<Rightarrow> Inr (Some commitID, cpd'))
                      else Inr (None, cpd)) of
                  Inl e \<Rightarrow> (Some e, disk)
                | Inr (systemCommitTaskID, cpd') \<Rightarrow>
                    (case buildPhaseCommandState (so_CommandID opts) phases phaseNameToID cpd' systemCommitTaskID now of
                       Inl e \<Rightarrow> (Some e, disk)
                     | Inr state \<Rightarrow>
                         (case lockInitialStateForWrite commands (so_CommandID opts) disk of
                            Inl e \<Rightarrow> (Some e, disk)
                          | Inr _ \<Rightarrow> commit_plan ok now sealedAt (so_CommandID opts) (cpd_assignments cpd')
                              (cpd_tasks cpd') (cpd_nameToID cpd') state disk)))))"

section \<open>Routing\<close>

record SubmitInput =
  si_Tasks :: "TaskInput list"
  si_Phases :: "PhaseInput list"

definition submitInitial ::
  "io \<Rightarrow> SubmitOptions \<Rightarrow> string \<times> string \<times> string \<Rightarrow> Command list \<Rightarrow> string list \<Rightarrow> stamp \<Rightarrow> stamp \<Rightarrow> SubmitInput \<Rightarrow>
   PlanDisk \<Rightarrow> SubmitError option \<times> PlanDisk" where
  "submitInitial ok opts texts commands ids now sealedAt input disk =
     (if si_Tasks input \<noteq> [] \<and> si_Phases input \<noteq> [] then (Some BothGiven, disk)
      else if si_Tasks input = [] \<and> si_Phases input = [] then (Some NothingGiven, disk)
      else if si_Phases input \<noteq> [] then submitInitialPhases ok opts texts commands ids now sealedAt (si_Phases input) disk
      else (case submitInitialTasks ok opts texts commands ids now sealedAt (si_Tasks input) disk of
              (Inl e, disk') \<Rightarrow> (Some e, disk')
            | (Inr _, disk') \<Rightarrow> (None, disk')))"

end
