(* ===== verification/Submit_Correct.thy ===== *)
theory Submit_Correct imports Submit begin

text \<open>
  The submission of a plan is correct: a submission that succeeds leaves a sealed, well-formed plan whose tasks
  are planned and each sit in one worker queue, and a submission that fails leaves the disk as it was, as far
  as the writes of the rollback succeed.
\<close>

section \<open>What the loop over the tasks builds\<close>

definition registered :: "(string \<Rightarrow> string) \<Rightarrow> stamp \<Rightarrow> TaskInput list \<Rightarrow> CommandState \<Rightarrow> CommandState" where
  "registered f now ts state =
     state\<lparr>RequiredTaskIDs := RequiredTaskIDs state @ map (\<lambda>t. f (ti_Name t)) (filter ti_Required ts),
       OptionalTaskIDs := OptionalTaskIDs state @ map (\<lambda>t. f (ti_Name t)) (filter (\<lambda>t. \<not> ti_Required t) ts),
       TaskStates := TaskStates state @ map (\<lambda>t. (f (ti_Name t), StatusPlanned)) ts,
       TaskStatusChangedAt := TaskStatusChangedAt state @ map (\<lambda>t. (f (ti_Name t), now)) ts,
       TaskDependencies := TaskDependencies state
         @ map (\<lambda>t. (f (ti_Name t), map f (ti_BlockedBy t))) (filter (\<lambda>t. ti_BlockedBy t \<noteq> []) ts)\<rparr>"

definition untouched :: "string set \<Rightarrow> 'a TaskTracking_scheme \<Rightarrow> bool" where
  "untouched ids state =
     (ids \<inter> (fst ` set (TaskStates state) \<union> fst ` set (TaskStatusChangedAt state) \<union> fst ` set (TaskDependencies state)) = {})"

lemma blocker_ids_known:
  "set ds \<subseteq> fst ` set m \<Longrightarrow> blocker_ids m ds = Inr (map (zget [] m) ds)"
proof (induction ds)
  case (Cons d ds)
  then obtain i where "map_of m d = Some i" by (metis list.set_intros(1) map_of_eq_None_iff option.exhaust subsetD)
  with Cons show ?case by (simp add: zget_def)
qed simp

lemma blocker_ids_error:
  "blocker_ids m ds = Inl e \<Longrightarrow> \<exists>d \<in> set ds. d \<notin> fst ` set m \<and> e = UnknownBlocker d"
  by (induction ds) (auto split: option.splits sum.splits simp: map_of_eq_None_iff)

lemma register_task_run:
  assumes "set (ti_BlockedBy t) \<subseteq> fst ` set m" and "untouched {zget [] m (ti_Name t)} state"
  shows "register_task m now t state = Inr (registered (zget [] m) now [t] state)"
  using assms by (simp add: register_task_def blocker_ids_known registered_def untouched_def SetTaskState_def update_fresh Let_def)

lemma register_tasks_run:
  assumes "\<forall>t \<in> set ts. set (ti_BlockedBy t) \<subseteq> fst ` set m" and "distinct (map (\<lambda>t. zget [] m (ti_Name t)) ts)"
    and "untouched ((\<lambda>t. zget [] m (ti_Name t)) ` set ts) state"
  shows "register_tasks m now ts state = Inr (registered (zget [] m) now ts state)"
  using assms
proof (induction ts arbitrary: state)
  case (Cons t ts)
  let ?f = "zget [] m"
  have "untouched {?f (ti_Name t)} state" using Cons.prems(3) by (auto simp: untouched_def)
  note r = register_task_run [OF _ this, of now]
  have u: "untouched ((\<lambda>t. ?f (ti_Name t)) ` set ts) (registered ?f now [t] state)"
    using Cons.prems(2,3) by (auto simp: untouched_def registered_def)
  have "register_tasks m now ts (registered ?f now [t] state) = Inr (registered ?f now ts (registered ?f now [t] state))"
    using Cons.prems u by (intro Cons.IH) auto
  also have "registered ?f now ts (registered ?f now [t] state) = registered ?f now (t # ts) state"
    by (simp add: registered_def)
  finally show ?case using r Cons.prems(1) by simp
qed (simp add: registered_def)

lemma registered_append:
  "registered f now us (registered f now ts state) = registered f now (ts @ us) state"
  by (simp add: registered_def)

lemma registered_fields [simp]:
  "Phases (registered f now ts state) = Phases state"
  "SystemCommitTaskID (registered f now ts state) = SystemCommitTaskID state"
  "RetryLineage (registered f now ts state) = RetryLineage state"
  "known_tasks (registered f now ts state) = known_tasks state \<union> (\<lambda>t. f (ti_Name t)) ` set ts"
  by (simp_all add: registered_def known_tasks_def image_Un image_image)

text \<open>Registering fresh tasks that can be listed keeps the graph well formed and in order.\<close>

lemma registered_graph_wf:
  assumes "graph_wf state" and "distinct (map (\<lambda>t. f (ti_Name t)) ts)"
    and "(\<lambda>t. f (ti_Name t)) ` set ts \<inter> known_tasks state = {}"
    and "\<forall>t \<in> set ts. set (ti_BlockedBy t) \<subseteq> ti_Name ` set ts"
  shows "graph_wf (registered f now ts state)"
proof -
  have k: "fst ` set (TaskDependencies state) \<subseteq> known_tasks state"
    using assms(1) unfolding graph_wf_def by fastforce
  have d: "distinct (map fst (map (\<lambda>t. (f (ti_Name t), map f (ti_BlockedBy t))) (filter (\<lambda>t. ti_BlockedBy t \<noteq> []) ts)))"
    using assms(2) by (simp add: comp_def distinct_map_filter)
  show ?thesis
    unfolding graph_wf_def
  proof (intro conjI)
    show "distinct (map fst (TaskStates (registered f now ts state)))"
      using assms(1-3) by (auto simp: registered_def graph_wf_def comp_def known_tasks_def)
    show "distinct (map fst (TaskDependencies (registered f now ts state)))"
      using assms(1,3) d k unfolding graph_wf_def by (auto simp: registered_def)
    show "\<forall>(t, ds) \<in> set (TaskDependencies (registered f now ts state)). insert t (set ds) \<subseteq> known_tasks (registered f now ts state)"
    proof (intro ballI, clarify)
      fix t ds x assume t: "(t, ds) \<in> set (TaskDependencies (registered f now ts state))" and x: "x \<in> insert t (set ds)"
      from t consider "(t, ds) \<in> set (TaskDependencies state)"
        | u where "u \<in> set ts" "t = f (ti_Name u)" "ds = map f (ti_BlockedBy u)"
        by (auto simp: registered_def)
      then show "x \<in> known_tasks (registered f now ts state)"
      proof cases
        case 1
        then show ?thesis using assms(1) x unfolding graph_wf_def registered_fields by blast
      next
        case 2
        then show ?thesis using assms(4) x by auto
      qed
    qed
  qed
qed

lemma registered_deps:
  assumes "graph_wf state" and "distinct (map (\<lambda>t. f (ti_Name t)) ts)"
    and "(\<lambda>t. f (ti_Name t)) ` set ts \<inter> known_tasks state = {}"
  shows "u \<in> set ts \<Longrightarrow> zget [] (TaskDependencies (registered f now ts state)) (f (ti_Name u)) = map f (ti_BlockedBy u)"
    and "n \<notin> (\<lambda>t. f (ti_Name t)) ` set ts \<Longrightarrow>
      zget [] (TaskDependencies (registered f now ts state)) n = zget [] (TaskDependencies state) n"
proof -
  let ?new = "map (\<lambda>t. (f (ti_Name t), map f (ti_BlockedBy t))) (filter (\<lambda>t. ti_BlockedBy t \<noteq> []) ts)"
  have e: "TaskDependencies (registered f now ts state) = TaskDependencies state @ ?new" by (simp add: registered_def)
  have k: "fst ` set (TaskDependencies state) \<subseteq> known_tasks state"
    using assms(1) unfolding graph_wf_def by fastforce
  have d: "distinct (map fst ?new)" using assms(2) by (simp add: comp_def distinct_map_filter)
  show "zget [] (TaskDependencies (registered f now ts state)) (f (ti_Name u)) = map f (ti_BlockedBy u)" if u: "u \<in> set ts"
  proof -
    have "f (ti_Name u) \<notin> fst ` set (TaskDependencies state)" using k assms(3) u by blast
    then have z: "zget [] (TaskDependencies (registered f now ts state)) (f (ti_Name u)) = zget [] ?new (f (ti_Name u))"
      unfolding e zget_append by simp
    show ?thesis
    proof (cases "ti_BlockedBy u = []")
      case True
      have "f (ti_Name u) \<notin> fst ` set ?new"
      proof
        assume "f (ti_Name u) \<in> fst ` set ?new"
        then obtain v where v: "v \<in> set ts" "ti_BlockedBy v \<noteq> []" "f (ti_Name v) = f (ti_Name u)" by auto
        then have "v = u" using assms(2) u by (auto simp: distinct_map inj_on_def)
        with v True show False by simp
      qed
      from zget_absent [OF this, of "[]"] show ?thesis unfolding z by (simp add: True)
    next
      case False
      then have "(f (ti_Name u), map f (ti_BlockedBy u)) \<in> set ?new" using u by auto
      then show ?thesis unfolding z using d by (intro zget_Some) (simp del: map_map)
    qed
  qed
  show "zget [] (TaskDependencies (registered f now ts state)) n = zget [] (TaskDependencies state) n"
    if "n \<notin> (\<lambda>t. f (ti_Name t)) ` set ts"
  proof -
    have "n \<notin> fst ` set ?new" using that by auto
    then show ?thesis unfolding e zget_append by (auto simp: zget_absent)
  qed
qed

lemma registered_order:
  assumes wf: "graph_wf state" and o: "task_order state order" and l: "listed ti_Name ti_BlockedBy ts names"
    and d: "distinct (map (\<lambda>t. f (ti_Name t)) ts)"
    and fresh: "(\<lambda>t. f (ti_Name t)) ` set ts \<inter> known_tasks state = {}"
  shows "task_order (registered f now ts state) (order @ map f names)"
proof -
  have dn: "distinct (map ti_Name ts)" using d distinct_map [of f "map ti_Name ts"] by (simp add: comp_def)
  have refs: "\<forall>t \<in> set ts. set (ti_BlockedBy t) \<subseteq> ti_Name ` set ts" using listed_refs [OF dn l] by blast
  have m: "mset names = mset (map ti_Name ts)" using l unfolding listed_def by blast
  then have sn: "set names = ti_Name ` set ts" using mset_eq_setD by fastforce
  have "mset (map f names) = mset (map (\<lambda>t. f (ti_Name t)) ts)"
    using m by (metis (no_types, lifting) list.map_comp comp_apply map_eq_conv mset_map)
  then have df: "distinct (map f names)" using d mset_eq_imp_distinct_iff by blast
  then have inj: "inj_on f (set names)" by (simp add: distinct_map)
  note deps = registered_deps [OF wf d fresh, of _ now]
  note od = task_orderD [OF o wf]
  have sf: "set (map f names) = (\<lambda>t. f (ti_Name t)) ` set ts" using sn by auto
  show ?thesis
  proof (rule task_orderI)
    show "distinct (order @ map f names)" using od(1,2) df sf fresh by auto
    show "set (order @ map f names) = known_tasks (registered f now ts state)"
      using od(2) sf by simp
    show "distinct (map fst (TaskStates (registered f now ts state)))"
      using registered_graph_wf [OF wf d fresh refs, of now] unfolding graph_wf_def by blast
    fix t before after assume e: "order @ map f names = before @ t # after"
    show "set (zget [] (TaskDependencies (registered f now ts state)) t) \<subseteq> set before"
    proof (cases "t \<in> (\<lambda>t. f (ti_Name t)) ` set ts")
      case True
      then have "t \<notin> set order" using od(2) fresh by blast
      then obtain b where b: "before = order @ b" "map f names = b @ t # after"
        using e by (auto simp: append_eq_append_conv2 Cons_eq_append_conv append_eq_Cons_conv)
      then obtain nb n na where n: "names = nb @ n # na" "map f nb = b" "f n = t"
        by (auto simp: map_eq_append_conv map_eq_Cons_conv)
      have "n \<in> ti_Name ` set ts" unfolding sn [symmetric] n(1) by simp
      then obtain u where u: "u \<in> set ts" "ti_Name u = n" by blast
      have "set (ti_BlockedBy u) \<subseteq> set nb" using l u n(1) unfolding listed_def by blast
      then show ?thesis using deps(1) [OF u(1)] u(2) n b by auto
    next
      case False
      then have "t \<in> set order" using e sf by (metis UnE in_set_conv_decomp set_append)
      then obtain o1 o2 where o12: "order = o1 @ t # o2" by (meson split_list)
      have "distinct (before @ t # after)" using e od(1,2) df sf fresh by (metis (no_types, lifting) Int_commute distinct_append)
      then have "before = o1"
        using e o12 by (metis (no_types, lifting) append.assoc append_Cons append_Cons_eq_iff distinct_append distinct.simps(2) list.sel(1) not_distinct_conv_prefix)
      then show ?thesis using od(3) [OF o12] deps(2) [OF False] by simp
    qed
  qed
qed

section \<open>Names and ids\<close>

lemma resolveNames_Inr:
  "resolveNames ts ids m = Inr (m', rest) \<Longrightarrow> distinct (map ti_Name ts) \<Longrightarrow>
   map (\<lambda>t. zget [] m' (ti_Name t)) ts @ rest = ids \<and> fst ` set m' = fst ` set m \<union> ti_Name ` set ts
   \<and> (\<forall>n. n \<notin> ti_Name ` set ts \<longrightarrow> map_of m' n = map_of m n)"
proof (induction ts ids m rule: resolveNames.induct)
  case (3 t ts i ids m)
  then have ih: "map (\<lambda>t. zget [] m' (ti_Name t)) ts @ rest = ids"
    "fst ` set m' = fst ` set (AList.update (ti_Name t) i m) \<union> ti_Name ` set ts"
    "\<forall>n. n \<notin> ti_Name ` set ts \<longrightarrow> map_of m' n = map_of (AList.update (ti_Name t) i m) n"
    by auto
  have "map_of m' (ti_Name t) = Some i" using ih(3) 3(3) by simp
  then show ?case using ih by (auto simp: zget_Some dom_update)
qed simp_all

lemma listed_snoc:
  assumes "listed nm bl xs order" and "set (bl y) \<subseteq> nm ` set xs" and "nm y \<notin> nm ` set xs"
  shows "listed nm bl (xs @ [y]) (order @ [nm y])"
proof -
  have m: "mset order = mset (map nm xs)" using assms(1) by (simp add: listed_def)
  have s: "set order = nm ` set xs" using mset_eq_setD [OF m] by simp
  have "set (bl x) \<subseteq> set before" if "x \<in> set (xs @ [y])" "order @ [nm y] = before @ nm x # after" for x before after
  proof (cases after rule: rev_cases)
    case Nil
    then have "before = order" "nm x = nm y" using that(2) by simp_all
    then have "x \<notin> set xs" using assms(3) by (metis imageI)
    then have "x = y" using that(1) by simp
    then show ?thesis using \<open>before = order\<close> assms(2) s by simp
  next
    case (snoc after' z)
    then have o: "order = before @ nm x # after'" using that(2) by simp
    then have "nm x \<in> nm ` set xs" using s by auto
    then have "x \<in> set xs" using that(1) assms(3) by auto
    then show ?thesis using assms(1) o unfolding listed_def by blast
  qed
  then show ?thesis using m by (simp add: listed_def)
qed

lemma distinct_partition:
  "distinct (map g xs) \<Longrightarrow> distinct (map g (filter P xs) @ map g (filter (\<lambda>x. \<not> P x) xs))"
  by (induction xs) auto

section \<open>Queues\<close>

definition row_for :: "string \<Rightarrow> stamp \<Rightarrow> (string \<Rightarrow> string) \<Rightarrow> TaskInput \<Rightarrow> Task" where
  "row_for commandID now f t = queue_task commandID now (f (ti_Name t)) (map f (ti_BlockedBy t)) t"

lemma row_for_fields [simp]:
  "q_ID (row_for c now f t) = f (ti_Name t)" "tk_BlockedBy (row_for c now f t) = map f (ti_BlockedBy t)"
  "q_Status (row_for c now f t) = StatusPending" "tk_CommandID (row_for c now f t) = c"
  by (simp_all add: row_for_def queue_task_def zero_Task_def)

lemma task_map_lookup: "distinct (map ti_Name ts) \<Longrightarrow> t \<in> set ts \<Longrightarrow> map_of (task_map ts) (ti_Name t) = Some t"
proof -
  have other: "n \<notin> ti_Name ` set ts \<Longrightarrow> map_of (fold (\<lambda>t m. AList.update (ti_Name t) t m) ts m) n = map_of m n"
    for n ts and m :: "(string, TaskInput) gomap"
    by (induction ts arbitrary: m) auto
  have "distinct (map ti_Name ts) \<Longrightarrow> t \<in> set ts \<Longrightarrow>
      map_of (fold (\<lambda>t m. AList.update (ti_Name t) t m) ts m) (ti_Name t) = Some t" for ts and m :: "(string, TaskInput) gomap"
  proof (induction ts arbitrary: m)
    case (Cons u ts)
    then show ?case using other [of "ti_Name u" ts] by (cases "t = u") auto
  qed simp
  then show "distinct (map ti_Name ts) \<Longrightarrow> t \<in> set ts \<Longrightarrow> map_of (task_map ts) (ti_Name t) = Some t"
    by (simp add: task_map_def)
qed

text \<open>Pairs of a task and its assignment that go to one worker.\<close>

definition rows_for :: "string \<Rightarrow> stamp \<Rightarrow> (string \<Rightarrow> string) \<Rightarrow> TaskInput list \<Rightarrow> WorkerAssignment list \<Rightarrow> string \<Rightarrow> Task list" where
  "rows_for c now f tasks as w =
     map (\<lambda>(t, a). row_for c now f t) (filter (\<lambda>(t, a). wa_WorkerID a = w) (zip tasks as))"

lemma build_rows_run:
  assumes "map wa_TaskName as = map ti_Name ts" and "\<forall>t \<in> set ts. zget zero_TaskInput tm (ti_Name t) = t"
    and "\<forall>t \<in> set ts. set (ti_BlockedBy t) \<subseteq> fst ` set m"
  shows "\<exists>W'. build_rows c now m tm as W = Inr W' \<and> fst ` set W' = fst ` set W \<union> wa_WorkerID ` set as
    \<and> (\<forall>w. zget [] W' w = zget [] W w @ rows_for c now (zget [] m) ts as w)
    \<and> (distinct (map fst W) \<longrightarrow> distinct (map fst W'))"
  using assms
proof (induction as arbitrary: ts W)
  case (Cons a as)
  then obtain t ts' where ts: "ts = t # ts'" "wa_TaskName a = ti_Name t" "map wa_TaskName as = map ti_Name ts'"
    by (cases ts) auto
  let ?row = "row_for c now (zget [] m) t"
  let ?W = "AList.update (wa_WorkerID a) (zget [] W (wa_WorkerID a) @ [?row]) W"
  have b: "build_rows c now m tm (a # as) W = build_rows c now m tm as ?W"
    using Cons.prems ts by (simp add: Let_def blocker_ids_known row_for_def)
  obtain W' where W': "build_rows c now m tm as ?W = Inr W'" "fst ` set W' = fst ` set ?W \<union> wa_WorkerID ` set as"
    "\<forall>w. zget [] W' w = zget [] ?W w @ rows_for c now (zget [] m) ts' as w"
    "distinct (map fst ?W) \<longrightarrow> distinct (map fst W')"
    using Cons.IH [OF ts(3), of ?W] Cons.prems ts(1) by auto
  have "\<forall>w. zget [] W' w = zget [] W w @ rows_for c now (zget [] m) ts (a # as) w"
    using W'(3) by (auto simp: rows_for_def ts(1))
  moreover have "fst ` set W' = fst ` set W \<union> wa_WorkerID ` set (a # as)" using W'(2) by (auto simp: dom_update)
  moreover have "distinct (map fst W) \<longrightarrow> distinct (map fst W')" using W'(4) by (simp add: distinct_update)
  ultimately show ?case using b W'(1) by auto
qed (simp add: rows_for_def)

lemma append_rows_run:
  assumes "distinct ws"
  shows "\<exists>qs. append_rows ok W ws queues = (list_all (\<lambda>w. ok (WriteQueue w)) ws, qs)
    \<and> (\<forall>w. rows_of qs w = rows_of queues w @ zget [] W w \<and> w \<in> set ws \<or> rows_of qs w = rows_of queues w)
    \<and> (list_all (\<lambda>w. ok (WriteQueue w)) ws \<longrightarrow> (\<forall>w \<in> set ws. rows_of qs w = rows_of queues w @ zget [] W w))
    \<and> (\<forall>w. w \<notin> set ws \<longrightarrow> rows_of qs w = rows_of queues w)"
  using assms
proof (induction ws arbitrary: queues)
  case (Cons v ws)
  show ?case
  proof (cases "ok (WriteQueue v)")
    case True
    let ?q = "AList.update v (rows_of queues v @ zget [] W v) queues"
    have r: "rows_of ?q w = (if w = v then rows_of queues v @ zget [] W v else rows_of queues w)" for w
      by (simp add: rows_of_def)
    obtain qs where qs: "append_rows ok W ws ?q = (list_all (\<lambda>w. ok (WriteQueue w)) ws, qs)"
      "\<forall>w. rows_of qs w = rows_of ?q w @ zget [] W w \<and> w \<in> set ws \<or> rows_of qs w = rows_of ?q w"
      "list_all (\<lambda>w. ok (WriteQueue w)) ws \<longrightarrow> (\<forall>w \<in> set ws. rows_of qs w = rows_of ?q w @ zget [] W w)"
      "\<forall>w. w \<notin> set ws \<longrightarrow> rows_of qs w = rows_of ?q w"
      using Cons.IH [of ?q] Cons.prems by auto
    have v: "v \<notin> set ws" using Cons.prems by simp
    then have "rows_of qs v = rows_of queues v @ zget [] W v" using qs(4) r by simp
    moreover have "rows_of qs w = rows_of queues w @ zget [] W w \<and> w \<in> set (v # ws) \<or> rows_of qs w = rows_of queues w" for w
      using spec [OF qs(2), of w] r [of w] calculation by (cases "w = v") auto
    ultimately show ?thesis using True qs r v by auto
  qed simp
qed simp

definition fresh_ids :: "string set \<Rightarrow> (string, Task list) gomap \<Rightarrow> bool" where
  "fresh_ids ids queues = (\<forall>w. \<forall>r \<in> set (rows_of queues w). q_ID r \<notin> ids)"

lemma rollback_queue_rows:
  assumes "ok (RollbackQueue w)"
  shows "rows_of (rollback_queue ok taskIDs w queues) v =
    (if v = w then filter (\<lambda>t. q_ID t \<notin> set taskIDs) (rows_of queues w) else rows_of queues v)"
  using assms by (auto simp: rollback_queue_def rows_of_def zget_None zget_Some split: option.split)

lemma rollback_rows:
  assumes "\<forall>w. ok (RollbackQueue w)"
  shows "distinct ws \<Longrightarrow> rows_of (fold (rollback_queue ok taskIDs) ws queues) v =
    (if v \<in> set ws then filter (\<lambda>t. q_ID t \<notin> set taskIDs) (rows_of queues v) else rows_of queues v)"
  using assms by (induction ws arbitrary: queues) (auto simp: rollback_queue_rows)

lemma assign_map_workers: "wa_TaskName ` set as = fst ` set (assign_map as)"
  "distinct (map wa_TaskName as) \<Longrightarrow> (\<lambda>(_, a). wa_WorkerID a) ` set (assign_map as) = wa_WorkerID ` set as"
proof -
  have g: "distinct (map wa_TaskName as) \<Longrightarrow> wa_TaskName ` set as \<inter> fst ` set m = {} \<Longrightarrow>
      fold (\<lambda>a m. AList.update (wa_TaskName a) a m) as m = m @ map (\<lambda>a. (wa_TaskName a, a)) as" for m
    by (induction as arbitrary: m) (auto simp: update_fresh)
  have k: "fst ` set (fold (\<lambda>a m. AList.update (wa_TaskName a) a m) as m) = fst ` set m \<union> wa_TaskName ` set as"
    for m :: "(string, WorkerAssignment) gomap"
    by (induction as arbitrary: m) (auto simp: dom_update)
  show "wa_TaskName ` set as = fst ` set (assign_map as)" using k [of "[]"] by (simp add: assign_map_def)
  assume "distinct (map wa_TaskName as)"
  then show "(\<lambda>(_, a). wa_WorkerID a) ` set (assign_map as) = wa_WorkerID ` set as"
    using g [of "[]"] by (simp add: assign_map_def image_image)
qed

lemma commit_plan_cases:
  assumes "writeQueueEntriesLocked ok as tasks m c now (pd_Queues disk) = (okW, qs)"
  shows "commit_plan ok now sealedAt c as tasks m state disk =
    (if \<not> ok SavePlanning then (Some StateNotSaved, disk)
     else if \<not> okW then (Some QueueNotWritten, rollbackStateAndQueueLocked ok tasks m (assign_map as)
        \<lparr>pd_State = Some state, pd_Queues = qs\<rparr>)
     else if ok SaveSealed then (None, \<lparr>pd_State = Some (seal_plan sealedAt state), pd_Queues = qs\<rparr>)
     else (Some StateNotSaved, rollbackStateAndQueueLocked ok tasks m (assign_map as) \<lparr>pd_State = Some state, pd_Queues = qs\<rparr>))"
  using assms by (cases disk; cases okW) (simp_all add: commit_plan_def)

text \<open>What the write of the queue entries leaves, complete or not.\<close>

lemma write_entries_run:
  assumes "map wa_TaskName as = map ti_Name tasks" and "distinct (map ti_Name tasks)"
    and "\<forall>t \<in> set tasks. set (ti_BlockedBy t) \<subseteq> fst ` set m"
  obtains okW qs where "writeQueueEntriesLocked ok as tasks m c now queues = (okW, qs)"
    and "okW \<Longrightarrow> \<forall>w. rows_of qs w = rows_of queues w @ rows_for c now (zget [] m) tasks as w"
    and "\<forall>w. rows_of qs w \<in> {rows_of queues w, rows_of queues w @ rows_for c now (zget [] m) tasks as w}"
    and "\<forall>w. w \<notin> wa_WorkerID ` set as \<longrightarrow> rows_of qs w = rows_of queues w"
proof -
  have z: "\<forall>t \<in> set tasks. zget zero_TaskInput (task_map tasks) (ti_Name t) = t"
    using task_map_lookup [OF assms(2)] by (auto intro: zget_Some)
  obtain W where W: "build_rows c now m (task_map tasks) as [] = Inr W" "fst ` set W = wa_WorkerID ` set as"
    "\<forall>w. zget [] W w = rows_for c now (zget [] m) tasks as w" "distinct (map fst W)"
    using build_rows_run [OF assms(1) z assms(3), of c now "[]"] by (auto simp: zget_def [of _ "[]"])
  have d: "distinct (sort (map fst W))" using W(4) by simp
  obtain qs where qs: "append_rows ok W (sort (map fst W)) queues = (list_all (\<lambda>w. ok (WriteQueue w)) (sort (map fst W)), qs)"
    "\<forall>w. rows_of qs w = rows_of queues w @ zget [] W w \<and> w \<in> set (sort (map fst W)) \<or> rows_of qs w = rows_of queues w"
    "list_all (\<lambda>w. ok (WriteQueue w)) (sort (map fst W)) \<longrightarrow> (\<forall>w \<in> set (sort (map fst W)). rows_of qs w = rows_of queues w @ zget [] W w)"
    "\<forall>w. w \<notin> set (sort (map fst W)) \<longrightarrow> rows_of qs w = rows_of queues w"
    using append_rows_run [OF d, of ok W queues] by blast
  have ks: "set (sort (map fst W)) = wa_WorkerID ` set as" using W(2) by simp
  show ?thesis
  proof (rule that)
    show "writeQueueEntriesLocked ok as tasks m c now queues = (list_all (\<lambda>w. ok (WriteQueue w)) (sort (map fst W)), qs)"
      by (simp add: writeQueueEntriesLocked_def buildQueueTasksByWorker_def W(1) appendQueueTasksByWorker_def qs(1))
    show "\<forall>w. w \<notin> wa_WorkerID ` set as \<longrightarrow> rows_of qs w = rows_of queues w" using qs(4) ks by simp
    show "\<forall>w. rows_of qs w \<in> {rows_of queues w, rows_of queues w @ rows_for c now (zget [] m) tasks as w}"
    proof
      fix w
      show "rows_of qs w \<in> {rows_of queues w, rows_of queues w @ rows_for c now (zget [] m) tasks as w}"
        using spec [OF qs(2), of w] W(3) by auto
    qed
    assume l: "list_all (\<lambda>w. ok (WriteQueue w)) (sort (map fst W))"
    show "\<forall>w. rows_of qs w = rows_of queues w @ rows_for c now (zget [] m) tasks as w"
    proof
      fix w
      show "rows_of qs w = rows_of queues w @ rows_for c now (zget [] m) tasks as w"
      proof (cases "w \<in> set (sort (map fst W))")
        case True
        from bspec [OF mp [OF qs(3) l] this] W(3) show ?thesis by simp
      next
        case False
        then have "zget [] W w = []" by (simp add: zget_absent)
        then show ?thesis using False qs(4) W(3) by simp
      qed
    qed
  qed
qed

lemma rows_for_ids: "r \<in> set (rows_for c now f tasks as w) \<Longrightarrow> \<exists>t \<in> set tasks. r = row_for c now f t"
  by (auto simp: rows_for_def dest: set_zip_leftD)

lemma rollback_entries_rows:
  assumes as: "map wa_TaskName as = map ti_Name tasks" and d: "distinct (map ti_Name tasks)"
    and ok: "\<forall>w. ok (RollbackQueue w)" and fresh: "fresh_ids ((\<lambda>t. zget [] m (ti_Name t)) ` set tasks) queues"
    and q: "rows_of qs w \<in> {rows_of queues w, rows_of queues w @ rows_for c now (zget [] m) tasks as w}"
      "w \<notin> wa_WorkerID ` set as \<longrightarrow> rows_of qs w = rows_of queues w"
  shows "rows_of (rollbackQueueEntriesLocked ok tasks m (assign_map as) qs) w = rows_of queues w"
proof -
  let ?ids = "map (\<lambda>t. zget [] m (ti_Name t)) tasks" and ?ws = "remdups (map (\<lambda>(_, a). wa_WorkerID a) (assign_map as))"
  have da: "distinct (map wa_TaskName as)" using as d by simp
  have ws: "set ?ws = wa_WorkerID ` set as" using assign_map_workers(2) [OF da] by simp
  have keep: "filter (\<lambda>t. q_ID t \<notin> set ?ids) (rows_of queues w) = rows_of queues w"
    using fresh by (auto simp: fresh_ids_def filter_id_conv)
  have gone: "filter (\<lambda>t. q_ID t \<notin> set ?ids) (rows_for c now (zget [] m) tasks as w) = []"
    by (auto simp: filter_empty_conv dest!: rows_for_ids)
  have r: "rows_of (rollbackQueueEntriesLocked ok tasks m (assign_map as) qs) w =
    (if w \<in> wa_WorkerID ` set as then filter (\<lambda>t. q_ID t \<notin> set ?ids) (rows_of qs w) else rows_of qs w)"
    unfolding rollbackQueueEntriesLocked_def using rollback_rows [OF ok distinct_remdups] ws by metis
  show ?thesis
  proof (cases "w \<in> wa_WorkerID ` set as")
    case True
    have "filter (\<lambda>t. q_ID t \<notin> set ?ids) (rows_of qs w) = rows_of queues w"
      using q(1) keep gone by (auto simp del: set_map)
    then show ?thesis using r True by simp
  next
    case False
    then show ?thesis using r q(2) by simp
  qed
qed

lemma commit_plan_done:
  assumes "map wa_TaskName as = map ti_Name tasks" and "distinct (map ti_Name tasks)"
    and "\<forall>t \<in> set tasks. set (ti_BlockedBy t) \<subseteq> fst ` set m"
    and "commit_plan ok now sealedAt c as tasks m state disk = (None, disk')"
  shows "pd_State disk' = Some (seal_plan sealedAt state)"
    and "rows_of (pd_Queues disk') w = rows_of (pd_Queues disk) w @ rows_for c now (zget [] m) tasks as w"
proof -
  obtain okW qs where w: "writeQueueEntriesLocked ok as tasks m c now (pd_Queues disk) = (okW, qs)"
    "okW \<longrightarrow> (\<forall>w. rows_of qs w = rows_of (pd_Queues disk) w @ rows_for c now (zget [] m) tasks as w)"
    by (rule write_entries_run [OF assms(1-3), where ok = ok and c = c and now = now and queues = "pd_Queues disk"]) simp
  from assms(4) have "okW" and d: "disk' = \<lparr>pd_State = Some (seal_plan sealedAt state), pd_Queues = qs\<rparr>"
    unfolding commit_plan_cases [OF w(1)] by (simp_all split: if_splits)
  with w(2) show "pd_State disk' = Some (seal_plan sealedAt state)"
    "rows_of (pd_Queues disk') w = rows_of (pd_Queues disk) w @ rows_for c now (zget [] m) tasks as w"
    by simp_all
qed

lemma commit_plan_undone:
  assumes "map wa_TaskName as = map ti_Name tasks" and "distinct (map ti_Name tasks)"
    and "\<forall>t \<in> set tasks. set (ti_BlockedBy t) \<subseteq> fst ` set m"
    and "ok DeleteTheState" and "\<forall>w. ok (RollbackQueue w)"
    and "fresh_ids ((\<lambda>t. zget [] m (ti_Name t)) ` set tasks) (pd_Queues disk)" and "pd_State disk = None"
    and "commit_plan ok now sealedAt c as tasks m state disk = (Some e, disk')"
  shows "pd_State disk' = None" and "rows_of (pd_Queues disk') w = rows_of (pd_Queues disk) w"
proof -
  obtain okW qs where w: "writeQueueEntriesLocked ok as tasks m c now (pd_Queues disk) = (okW, qs)"
    "\<forall>w. rows_of qs w \<in> {rows_of (pd_Queues disk) w, rows_of (pd_Queues disk) w @ rows_for c now (zget [] m) tasks as w}"
    "\<forall>w. w \<notin> wa_WorkerID ` set as \<longrightarrow> rows_of qs w = rows_of (pd_Queues disk) w"
    by (rule write_entries_run [OF assms(1-3), where ok = ok and c = c and now = now and queues = "pd_Queues disk"])
  from assms(8) have "disk' = disk \<or> disk' = \<lparr>pd_State = None, pd_Queues = rollbackQueueEntriesLocked ok tasks m (assign_map as) qs\<rparr>"
    unfolding commit_plan_cases [OF w(1)] by (simp add: rollbackStateAndQueueLocked_def assms(4) split: if_splits)
  moreover have "rows_of (rollbackQueueEntriesLocked ok tasks m (assign_map as) qs) w = rows_of (pd_Queues disk) w"
    using rollback_entries_rows [OF assms(1,2,5,6) spec [OF w(2)] spec [OF w(3)]] .
  ultimately show "pd_State disk' = None" "rows_of (pd_Queues disk') w = rows_of (pd_Queues disk) w"
    using assms(7) by auto
qed

section \<open>The state of a flat plan\<close>

lemma assign_all_names:
  "assign_all selector boost m states reqs = Inr as \<Longrightarrow> map wa_TaskName as = map ar_Name reqs"
  by (induction reqs arbitrary: states as) (auto split: sum.splits)

lemma assign_for_names: "assign_for opts states reqs = Inr as \<Longrightarrow> map wa_TaskName as = map ar_Name reqs"
  by (auto simp: assign_for_def AssignWorkers_def Let_def split: sum.splits dest: assign_all_names)

lemma new_state_fields [simp]:
  "TaskStates (new_state c now) = []" "TaskDependencies (new_state c now) = []" "TaskStatusChangedAt (new_state c now) = []"
  "RequiredTaskIDs (new_state c now) = []" "OptionalTaskIDs (new_state c now) = []" "Phases (new_state c now) = []"
  "RetryLineage (new_state c now) = []" "SystemCommitTaskID (new_state c now) = None"
  "known_tasks (new_state c now) = {}" "graph_wf (new_state c now)" "task_order (new_state c now) []"
  "untouched ids (new_state c now)"
  by (simp_all add: new_state_def zero_CommandState_def known_tasks_def graph_wf_def task_order_def listed_def untouched_def)

definition all_planned :: "CommandState \<Rightarrow> bool" where
  "all_planned state =
     (list_all (\<lambda>(i, st). st = StatusPlanned) (TaskStates state)
      \<and> set (RequiredTaskIDs state @ OptionalTaskIDs state) = known_tasks state)"

lemma seal_plan_wf: "plan_wf (seal_plan at state) = plan_wf state" "all_planned (seal_plan at state) = all_planned state"
  "cs_PlanStatus (seal_plan at state) = PlanStatusSealed" "PlanVersion (seal_plan at state) = 1"
  "TaskDependencies (seal_plan at state) = TaskDependencies state" "known_tasks (seal_plan at state) = known_tasks state"
proof -
  have f: "TaskStates (seal_plan at state) = TaskStates state" "TaskDependencies (seal_plan at state) = TaskDependencies state"
    "Phases (seal_plan at state) = Phases state" by (simp_all add: seal_plan_def)
  show "plan_wf (seal_plan at state) = plan_wf state"
    unfolding plan_wf_def mutation_cong [OF f] graph_wf_cong [OF f(1,2)] known_tasks_cong [OF f(1)] f(3)
    by (simp add: seal_plan_def)
qed (simp_all add: seal_plan_def all_planned_def known_tasks_def)

definition built_plan ::
  "string \<Rightarrow> stamp \<Rightarrow> (string \<Rightarrow> string) \<Rightarrow> TaskInput list \<Rightarrow> string option \<Rightarrow> Phase list \<Rightarrow> CommandState" where
  "built_plan c now f tasks sys phs =
     count_tasks ((registered f now tasks (new_state c now))\<lparr>SystemCommitTaskID := sys, Phases := phs\<rparr>)"

lemma built_plan_fields:
  "TaskStates (built_plan c now f tasks sys phs) = map (\<lambda>t. (f (ti_Name t), StatusPlanned)) tasks"
  "TaskDependencies (built_plan c now f tasks sys phs) = TaskDependencies (registered f now tasks (new_state c now))"
  "RequiredTaskIDs (built_plan c now f tasks sys phs) = map (\<lambda>t. f (ti_Name t)) (filter ti_Required tasks)"
  "OptionalTaskIDs (built_plan c now f tasks sys phs) = map (\<lambda>t. f (ti_Name t)) (filter (\<lambda>t. \<not> ti_Required t) tasks)"
  "Phases (built_plan c now f tasks sys phs) = phs" "SystemCommitTaskID (built_plan c now f tasks sys phs) = sys"
  "ExpectedTaskCount (built_plan c now f tasks sys phs)
     = int (length (RequiredTaskIDs (built_plan c now f tasks sys phs))) + int (length (OptionalTaskIDs (built_plan c now f tasks sys phs)))"
  by (simp_all add: built_plan_def count_tasks_def registered_def)

lemma built_plan_ok:
  assumes d: "distinct (map ti_Name tasks)" and l: "listed ti_Name ti_BlockedBy tasks order"
    and di: "distinct (map (\<lambda>t. f (ti_Name t)) tasks)"
    and sc: "\<And>i. sys = Some i \<Longrightarrow> \<exists>t \<in> set tasks. ti_Required t \<and> f (ti_Name t) = i"
    and pd: "distinct (concat (map ph_TaskIDs phs))"
    and ps: "set (concat (map ph_TaskIDs phs)) \<subseteq> (\<lambda>t. f (ti_Name t)) ` set tasks"
    and pb: "\<And>t p. t \<in> set tasks \<Longrightarrow> p \<in> set phs \<Longrightarrow> f (ti_Name t) \<in> set (ph_TaskIDs p) \<Longrightarrow> f ` set (ti_BlockedBy t) \<subseteq> set (ph_TaskIDs p)"
  shows "plan_wf (built_plan c now f tasks sys phs)" and "all_planned (built_plan c now f tasks sys phs)"
    and "known_tasks (built_plan c now f tasks sys phs) = (\<lambda>t. f (ti_Name t)) ` set tasks"
    and "t \<in> set tasks \<Longrightarrow> zget [] (TaskDependencies (built_plan c now f tasks sys phs)) (f (ti_Name t)) = map f (ti_BlockedBy t)"
proof -
  let ?s0 = "registered f now tasks (new_state c now)"
  define state where "state = built_plan c now f tasks sys phs"
  note fields = built_plan_fields [of c now f tasks sys phs, folded state_def]
  have refs: "\<forall>t \<in> set tasks. set (ti_BlockedBy t) \<subseteq> ti_Name ` set tasks" using listed_refs [OF d l] by blast
  have fresh: "(\<lambda>t. f (ti_Name t)) ` set tasks \<inter> known_tasks (new_state c now) = {}" by simp
  have wf: "graph_wf ?s0" by (rule registered_graph_wf [OF _ di fresh refs]) simp
  have o: "task_order ?s0 ([] @ map f order)" by (rule registered_order [OF _ _ l di fresh]) simp_all
  have ts: "TaskStates state = TaskStates ?s0" by (simp add: fields(1) registered_def)
  have known: "known_tasks state = (\<lambda>t. f (ti_Name t)) ` set tasks"
    by (simp add: known_tasks_def fields(1) image_image)
  have gw: "graph_wf state" using wf graph_wf_cong [OF ts fields(2)] by simp
  have entry: "\<exists>t \<in> set tasks. i = f (ti_Name t) \<and> ds = map f (ti_BlockedBy t)" if "(i, ds) \<in> set (TaskDependencies state)" for i ds
    using that unfolding fields(2) by (auto simp: registered_def)
  have cross: "validateCrossPhaseRefs state = Inr ()"
  proof (rule cross_phase_same)
    fix i ds x j k assume e: "(i, ds) \<in> set (TaskDependencies state)" "x \<in> set ds"
      and j: "map_of (task_phase (Phases state)) i = Some j" and k: "map_of (task_phase (Phases state)) x = Some k"
    obtain t where t: "t \<in> set tasks" "i = f (ti_Name t)" "ds = map f (ti_BlockedBy t)" using entry [OF e(1)] by blast
    note pj = task_phase_in [OF j, unfolded fields(5)] and pk = task_phase_in [OF k, unfolded fields(5)]
    have "x \<in> set (ph_TaskIDs (phs ! j))" using pb [OF t(1), of "phs ! j"] pj t(2,3) e(2) by auto
    then show "j = k" using phases_disjoint [OF pd] pj pk by blast
  qed
  have ok: "ValidateTaskDAGAfterMutation state = Inr ()"
  proof (rule mutation_ok [OF gw _ cross])
    show "task_order state ([] @ map f order)" using o task_order_cong [OF ts fields(2)] by simp
  qed
  have sysr: "i \<in> set (RequiredTaskIDs state)" if "SystemCommitTaskID state = Some i" for i
  proof -
    from that obtain t where "t \<in> set tasks" "ti_Required t" "f (ti_Name t) = i" using sc by (auto simp: fields(6))
    then show ?thesis unfolding fields(3) by auto
  qed
  have part: "set (RequiredTaskIDs state @ OptionalTaskIDs state) = known_tasks state"
    unfolding fields(3,4) known by auto
  have "plan_wf state"
    unfolding plan_wf_def
  proof (intro conjI)
    show "distinct (RequiredTaskIDs state @ OptionalTaskIDs state)"
      unfolding fields(3,4) by (rule distinct_partition [OF di])
    show "set (RequiredTaskIDs state @ OptionalTaskIDs state) \<subseteq> known_tasks state" using part by simp
    show "ExpectedTaskCount state = int (length (RequiredTaskIDs state)) + int (length (OptionalTaskIDs state))" by (rule fields(7))
    show "graph_wf state" by (rule gw)
    show "distinct (concat (map ph_TaskIDs (Phases state)))" unfolding fields(5) by (rule pd)
    show "set (concat (map ph_TaskIDs (Phases state))) \<subseteq> known_tasks state" unfolding fields(5) known by (rule ps)
    show "\<forall>c. SystemCommitTaskID state = Some c \<longrightarrow> c \<in> set (RequiredTaskIDs state)" using sysr by blast
    show "ValidateTaskDAGAfterMutation state = Inr ()" by (rule ok)
  qed
  moreover have "all_planned state" unfolding all_planned_def using part by (simp add: fields(1) list_all_iff)
  moreover have "zget [] (TaskDependencies state) (f (ti_Name t)) = map f (ti_BlockedBy t)" if "t \<in> set tasks" for t
    unfolding fields(2) by (rule registered_deps(1) [OF _ di fresh that]) simp
  ultimately show "plan_wf (built_plan c now f tasks sys phs)" and "all_planned (built_plan c now f tasks sys phs)"
    and "known_tasks (built_plan c now f tasks sys phs) = (\<lambda>t. f (ti_Name t)) ` set tasks"
    and "t \<in> set tasks \<Longrightarrow> zget [] (TaskDependencies (built_plan c now f tasks sys phs)) (f (ti_Name t)) = map f (ti_BlockedBy t)"
    using known unfolding state_def by blast+
qed

lemma flat_plan:
  assumes d: "distinct (map ti_Name tasks)" and l: "listed ti_Name ti_BlockedBy tasks order"
    and r: "resolveNames tasks ids [] = Inr (m, rest)" and ids: "distinct ids"
  shows "buildCommandState c tasks m now = Inr (built_plan c now (zget [] m) tasks
    (if list_ex (\<lambda>t. ti_Name t = system_commit_name) tasks then Some (zget [] m system_commit_name) else None) [])"
proof -
  note names = resolveNames_Inr [OF r d]
  have fst_m: "fst ` set m = ti_Name ` set tasks" using names by simp
  have di: "distinct (map (\<lambda>t. zget [] m (ti_Name t)) tasks)" using names ids by (metis distinct_append)
  have refs: "\<forall>t \<in> set tasks. set (ti_BlockedBy t) \<subseteq> ti_Name ` set tasks" using listed_refs [OF d l] by blast
  have run: "register_tasks m now tasks (new_state c now) = Inr (registered (zget [] m) now tasks (new_state c now))"
    using refs di fst_m by (intro register_tasks_run) simp_all
  have p: "(registered f now tasks (new_state c now))\<lparr>SystemCommitTaskID := x, Phases := []\<rparr>
      = (registered f now tasks (new_state c now))\<lparr>SystemCommitTaskID := x\<rparr>" for f x
    by (simp add: registered_def new_state_def zero_CommandState_def)
  show ?thesis unfolding built_plan_def p by (simp add: buildCommandState_def run)
qed

text \<open>A task set that passed the checks, with the commit task or without, can be listed.\<close>

lemma with_system_commit:
  assumes "task_set_ok tasks0"
    and "(if shouldInsertSystemCommit opts then insertSystemCommitTask texts tasks0 else Inr tasks0) = Inr tasks"
  shows "distinct (map ti_Name tasks)" and "\<exists>order. listed ti_Name ti_BlockedBy tasks order"
    and "\<forall>t \<in> set tasks. ti_Name t = system_commit_name \<longrightarrow> ti_Required t" and "set tasks0 \<subseteq> set tasks"
proof -
  have d: "distinct (map ti_Name tasks0)" using assms(1) unfolding task_set_ok_def by blast
  obtain order where l: "listed ti_Name ti_BlockedBy tasks0 order" using assms(1) unfolding task_set_ok_def by blast
  have n: "ti_Name t \<noteq> system_commit_name" if "t \<in> set tasks0" for t
  proof
    assume "ti_Name t = system_commit_name"
    then have "take 2 (ti_Name t) = ''__''" by (simp add: system_commit_name_def)
    then show False using assms(1) that unfolding task_set_ok_def fields_ok_def by blast
  qed
  let ?c = "buildSystemCommitTask texts (map ti_Name tasks0)"
  have c: "ti_Name ?c = system_commit_name" "ti_BlockedBy ?c = map ti_Name tasks0" "ti_Required ?c"
    by (simp_all add: buildSystemCommitTask_def split: prod.split)
  have "tasks = tasks0 \<or> tasks = tasks0 @ [?c]"
    using assms(2) by (auto simp: insertSystemCommitTask_def Let_def split: if_splits sum.splits)
  then have "distinct (map ti_Name tasks) \<and> (\<exists>order. listed ti_Name ti_BlockedBy tasks order)
      \<and> (\<forall>t \<in> set tasks. ti_Name t = system_commit_name \<longrightarrow> ti_Required t) \<and> set tasks0 \<subseteq> set tasks"
  proof
    assume "tasks = tasks0"
    then show ?thesis using d l n by auto
  next
    assume t: "tasks = tasks0 @ [?c]"
    have f: "ti_Name ?c \<notin> ti_Name ` set tasks0" using n c(1) by force
    then have "listed ti_Name ti_BlockedBy tasks (order @ [ti_Name ?c])"
      unfolding t using c(2) by (intro listed_snoc [OF l]) auto
    moreover have "distinct (map ti_Name tasks)" unfolding t using d f by auto
    ultimately show ?thesis using n c(3) t by auto
  qed
  then show "distinct (map ti_Name tasks)" and "\<exists>order. listed ti_Name ti_BlockedBy tasks order"
    and "\<forall>t \<in> set tasks. ti_Name t = system_commit_name \<longrightarrow> ti_Required t" and "set tasks0 \<subseteq> set tasks" by blast+
qed

section \<open>The queues of a submitted plan\<close>

text \<open>
  The rows that were appended: pending rows of tasks of the plan, blocked by what the state says, every task in
  the queue of exactly one worker.
\<close>

definition new_rows :: "PlanDisk \<Rightarrow> PlanDisk \<Rightarrow> string \<Rightarrow> Task list" where
  "new_rows disk disk' w = drop (length (rows_of (pd_Queues disk) w)) (rows_of (pd_Queues disk') w)"

definition queued :: "PlanDisk \<Rightarrow> PlanDisk \<Rightarrow> CommandState \<Rightarrow> string set \<Rightarrow> bool" where
  "queued disk disk' state ids =
     ((\<forall>w. rows_of (pd_Queues disk') w = rows_of (pd_Queues disk) w @ new_rows disk disk' w)
      \<and> (\<forall>w. \<forall>r \<in> set (new_rows disk disk' w). q_Status r = StatusPending \<and> q_ID r \<in> ids
            \<and> tk_BlockedBy r = zget [] (TaskDependencies state) (q_ID r))
      \<and> (\<forall>i \<in> ids. \<exists>!w. i \<in> q_ID ` set (new_rows disk disk' w)))"

lemma queuedI:
  assumes as: "map wa_TaskName as = map ti_Name tasks" and di: "distinct (map (\<lambda>t. f (ti_Name t)) tasks)"
    and deps: "\<And>t. t \<in> set tasks \<Longrightarrow> zget [] (TaskDependencies state) (f (ti_Name t)) = map f (ti_BlockedBy t)"
    and rows: "\<And>w. rows_of (pd_Queues disk') w = rows_of (pd_Queues disk) w @ rows_for c now f tasks as w"
  shows "queued disk disk' state ((\<lambda>t. f (ti_Name t)) ` set tasks)"
proof -
  have n: "new_rows disk disk' w = rows_for c now f tasks as w" for w by (simp add: new_rows_def rows)
  have len: "length as = length tasks" using as by (metis length_map)
  have one0: "\<exists>!w. f (ti_Name t) \<in> q_ID ` set (rows_for c now f tasks as w)" if t: "t \<in> set tasks" for t
  proof -
    obtain k where k: "k < length tasks" "tasks ! k = t" using t by (meson in_set_conv_nth)
    have "f (ti_Name t) \<in> q_ID ` set (rows_for c now f tasks as w) \<longleftrightarrow> w = wa_WorkerID (as ! k)" for w
    proof
      assume "f (ti_Name t) \<in> q_ID ` set (rows_for c now f tasks as w)"
      then obtain u a where u: "(u, a) \<in> set (zip tasks as)" "wa_WorkerID a = w" "f (ti_Name u) = f (ti_Name t)"
        by (auto simp: rows_for_def)
      then obtain j where j: "j < length tasks" "tasks ! j = u" "as ! j = a" by (auto simp: set_zip)
      have "j = k" using di j k u(3) by (simp add: distinct_conv_nth) (metis (mono_tags, lifting))
      then show "w = wa_WorkerID (as ! k)" using u(2) j(3) by simp
    next
      assume w: "w = wa_WorkerID (as ! k)"
      have "(t, as ! k) \<in> set (zip tasks as)" using k len by (auto simp: set_zip)
      then have "row_for c now f t \<in> set (rows_for c now f tasks as w)" using w by (force simp: rows_for_def)
      then show "f (ti_Name t) \<in> q_ID ` set (rows_for c now f tasks as w)" by (metis image_eqI row_for_fields(1))
    qed
    then show ?thesis by auto
  qed
  have one: "\<forall>i \<in> (\<lambda>t. f (ti_Name t)) ` set tasks. \<exists>!w. i \<in> q_ID ` set (rows_for c now f tasks as w)"
    by (intro ballI, elim imageE, simp only: one0)
  have row: "q_Status r = StatusPending \<and> q_ID r \<in> (\<lambda>t. f (ti_Name t)) ` set tasks
      \<and> tk_BlockedBy r = zget [] (TaskDependencies state) (q_ID r)" if "r \<in> set (rows_for c now f tasks as w)" for r w
    using rows_for_ids [OF that] deps by auto
  show ?thesis unfolding queued_def n
  proof (intro conjI)
    show "\<forall>w. rows_of (pd_Queues disk') w = rows_of (pd_Queues disk) w @ rows_for c now f tasks as w" using rows by simp
    show "\<forall>w. \<forall>r \<in> set (rows_for c now f tasks as w). q_Status r = StatusPending \<and> q_ID r \<in> (\<lambda>t. f (ti_Name t)) ` set tasks
      \<and> tk_BlockedBy r = zget [] (TaskDependencies state) (q_ID r)" using row by simp
  qed (rule one)
qed

definition submitted :: "PlanDisk \<Rightarrow> PlanDisk \<Rightarrow> bool" where
  "submitted disk disk' =
     (\<exists>state. pd_State disk' = Some state \<and> cs_PlanStatus state = PlanStatusSealed \<and> PlanVersion state = 1
        \<and> plan_wf state \<and> all_planned state \<and> queued disk disk' state (known_tasks state))"

definition unchanged :: "PlanDisk \<Rightarrow> PlanDisk \<Rightarrow> bool" where
  "unchanged disk disk' =
     (pd_State disk' = pd_State disk \<and> (\<forall>w. rows_of (pd_Queues disk') w = rows_of (pd_Queues disk) w))"

text \<open>A run of the shared commit, from what each submission hands to it.\<close>

lemma commit_outcome:
  assumes as: "map wa_TaskName as = map ti_Name tasks" and d: "distinct (map ti_Name tasks)"
    and refs: "\<forall>t \<in> set tasks. set (ti_BlockedBy t) \<subseteq> fst ` set m"
    and di: "distinct (map (\<lambda>t. zget [] m (ti_Name t)) tasks)"
    and st: "plan_wf state" "all_planned state" "known_tasks state = (\<lambda>t. zget [] m (ti_Name t)) ` set tasks"
      "\<forall>t \<in> set tasks. zget [] (TaskDependencies state) (zget [] m (ti_Name t)) = map (zget [] m) (ti_BlockedBy t)"
    and none: "pd_State disk = None" and run: "commit_plan ok now sealedAt c as tasks m state disk = (r, disk')"
  shows "r = None \<Longrightarrow> submitted disk disk'"
    and "r = Some e \<Longrightarrow> ok DeleteTheState \<Longrightarrow> \<forall>w. ok (RollbackQueue w) \<Longrightarrow>
      fresh_ids ((\<lambda>t. zget [] m (ti_Name t)) ` set tasks) (pd_Queues disk) \<Longrightarrow> unchanged disk disk'"
proof -
  show "submitted disk disk'" if "r = None"
  proof -
    note fin = commit_plan_done [OF as d refs run [unfolded that]]
    have "queued disk disk' (seal_plan sealedAt state) ((\<lambda>t. zget [] m (ti_Name t)) ` set tasks)"
      using st(4) fin(2) by (intro queuedI [OF as di]) (simp_all add: seal_plan_wf)
    then show ?thesis unfolding submitted_def using fin(1) st(1-3) by (simp add: seal_plan_wf)
  qed
  show "unchanged disk disk'" if "r = Some e" "ok DeleteTheState" "\<forall>w. ok (RollbackQueue w)"
    "fresh_ids ((\<lambda>t. zget [] m (ti_Name t)) ` set tasks) (pd_Queues disk)"
    unfolding unchanged_def using commit_plan_undone [OF as d refs that(2-4) none run [unfolded that(1)]] none by simp
qed

lemma task_results_ok:
  "set (map ti_Name tasks) \<subseteq> fst ` set am \<Longrightarrow> \<exists>rs. task_results m am tasks = Inr rs"
proof (induction tasks)
  case (Cons t ts)
  then obtain a where "map_of am (ti_Name t) = Some a" by (metis list.set_intros(1) list.simps(9) map_of_eq_None_iff option.exhaust subsetD)
  with Cons show ?case by auto
qed simp

lemma fresh_ids_mono: "fresh_ids ids queues \<Longrightarrow> ids' \<subseteq> ids \<Longrightarrow> fresh_ids ids' queues"
  by (auto simp: fresh_ids_def)

lemma lock_ok: "lockInitialStateForWrite commands c disk = Inr u \<Longrightarrow> pd_State disk = None"
  by (auto simp: lockInitialStateForWrite_def split: sum.splits if_splits)

lemma flat_outcome:
  assumes run: "submitInitialTasks ok opts texts commands ids now sealedAt tasks0 disk = (r, disk')" and ids: "distinct ids"
  shows "r = Inr rs \<Longrightarrow> \<not> so_DryRun opts \<Longrightarrow> submitted disk disk'"
    and "r = Inl e \<Longrightarrow> ok DeleteTheState \<Longrightarrow> \<forall>w. ok (RollbackQueue w) \<Longrightarrow> fresh_ids (set ids) (pd_Queues disk) \<Longrightarrow> unchanged disk disk'"
    and "so_DryRun opts \<Longrightarrow> disk' = disk"
proof -
  have self: "unchanged disk disk" by (simp add: unchanged_def)
  consider (early) "disk' = disk" "so_DryRun opts \<or> (\<exists>e. r = Inl e)"
    | (commit) tasks m rest states as state where "ValidateTasksInput tasks0 = []" "\<not> so_DryRun opts"
      "(if shouldInsertSystemCommit opts then insertSystemCommitTask texts tasks0 else Inr tasks0) = Inr tasks"
      "resolveNames tasks ids [] = Inr (m, rest)" "assign_for opts states (map assign_request tasks) = Inr as"
      "pd_State disk = None" "buildCommandState (so_CommandID opts) tasks m now = Inr state"
      "(r, disk') = (case commit_plan ok now sealedAt (so_CommandID opts) as tasks m state disk of
         (Some e, disk') \<Rightarrow> (Inl e, disk') | (None, disk') \<Rightarrow> (task_results m (assign_map as) tasks, disk'))"
    using run unfolding submitInitialTasks_def Let_def resolveAndAssignTasks_def
    by (auto split: if_splits sum.splits option.splits prod.splits dest: lock_ok)
  note cs = this
  show "so_DryRun opts \<Longrightarrow> disk' = disk" using cs by cases auto
  have main: "(r = Inr rs \<longrightarrow> \<not> so_DryRun opts \<longrightarrow> submitted disk disk')
    \<and> (r = Inl e \<longrightarrow> ok DeleteTheState \<longrightarrow> (\<forall>w. ok (RollbackQueue w)) \<longrightarrow> fresh_ids (set ids) (pd_Queues disk) \<longrightarrow> unchanged disk disk')"
    using cs
  proof cases
    case early
    then show ?thesis using self by auto
  next
    case commit
    have "task_set_ok tasks0" using commit(1) unfolding tasks_input_Nil by blast
    note sc = with_system_commit [OF this commit(3)]
    obtain order where l: "listed ti_Name ti_BlockedBy tasks order" using sc(2) by blast
    note names = resolveNames_Inr [OF commit(4) sc(1)]
    have sub: "(\<lambda>t. zget [] m (ti_Name t)) ` set tasks \<subseteq> set ids"
    proof -
      have "set (map (\<lambda>t. zget [] m (ti_Name t)) tasks) \<subseteq> set ids" using names by (metis Un_upper1 set_append)
      then show ?thesis by simp
    qed
    have di: "distinct (map (\<lambda>t. zget [] m (ti_Name t)) tasks)" using names ids by (metis distinct_append)
    have refs: "\<forall>t \<in> set tasks. set (ti_BlockedBy t) \<subseteq> fst ` set m" using listed_refs [OF sc(1) l] names by auto
    have as: "map wa_TaskName as = map ti_Name tasks" using assign_for_names [OF commit(5)] by (simp add: assign_request_def comp_def)
    let ?sys = "if list_ex (\<lambda>t. ti_Name t = system_commit_name) tasks then Some (zget [] m system_commit_name) else None"
    define s where "s = built_plan (so_CommandID opts) now (zget [] m) tasks ?sys []"
    have e: "state = s" using commit(7) flat_plan [OF sc(1) l commit(4) ids, of "so_CommandID opts" now] by (simp add: s_def)
    have sys: "\<exists>t \<in> set tasks. ti_Required t \<and> zget [] m (ti_Name t) = i" if "?sys = Some i" for i
      using that sc(3) by (auto simp: list_ex_iff split: if_splits)
    have s: "plan_wf s" "all_planned s" "known_tasks s = (\<lambda>t. zget [] m (ti_Name t)) ` set tasks"
      unfolding s_def by (rule built_plan_ok [OF sc(1) l di sys]; simp)+
    have s5: "\<forall>t \<in> set tasks. zget [] (TaskDependencies s) (zget [] m (ti_Name t)) = map (zget [] m) (ti_BlockedBy t)"
      unfolding s_def by (intro ballI built_plan_ok(4) [OF sc(1) l di sys]) simp_all
    obtain r' d' where cp: "commit_plan ok now sealedAt (so_CommandID opts) as tasks m s disk = (r', d')" by fastforce
    note out = commit_outcome [OF as sc(1) refs di s(1-3) s5 commit(6) cp]
    have nm: "set (map ti_Name tasks) \<subseteq> fst ` set (assign_map as)"
      using assign_map_workers(1) [of as] as by (metis list.set_map order_refl)
    show ?thesis
    proof (cases r')
      case None
      then have d: "disk' = d'" "\<exists>rs. r = Inr rs" using commit(8) task_results_ok [OF nm, of m] by (auto simp: e cp)
      then show ?thesis using out(1) [OF None] by auto
    next
      case (Some e')
      then have d: "disk' = d'" "r = Inl e'" using commit(8) by (auto simp: e cp)
      then show ?thesis using out(2) [OF Some] fresh_ids_mono [OF _ sub] by auto
    qed
  qed
  show "r = Inr rs \<Longrightarrow> \<not> so_DryRun opts \<Longrightarrow> submitted disk disk'" using main by blast
  show "r = Inl e \<Longrightarrow> ok DeleteTheState \<Longrightarrow> \<forall>w. ok (RollbackQueue w) \<Longrightarrow> fresh_ids (set ids) (pd_Queues disk) \<Longrightarrow> unchanged disk disk'"
    using main by blast
qed

section \<open>The state of a phased plan\<close>

lemma fold_update_lookup:
  "distinct (map fst xs) \<Longrightarrow>
   map_of (fold (\<lambda>(k, v) m. AList.update k v m) xs m) n = (case map_of xs n of Some v \<Rightarrow> Some v | None \<Rightarrow> map_of m n)"
proof (induction xs arbitrary: m)
  case (Cons x xs)
  have "fst x = n \<Longrightarrow> map_of xs n = None" using Cons.prems by (auto simp: map_of_eq_None_iff)
  then show ?case using Cons by (cases x) (auto split: option.split)
qed simp

lemma fold_update_keys: "fst ` set (fold (\<lambda>(k, v) m. AList.update k v m) xs m) = fst ` set m \<union> fst ` set xs"
proof (induction xs arbitrary: m)
  case (Cons x xs)
  obtain k v where x: "x = (k, v)" by fastforce
  show ?case using Cons [of "AList.update k v m"] by (simp add: x dom_update)
qed simp

lemma resolveNames_keys: "resolveNames ts ids m = Inr (m', rest) \<Longrightarrow> distinct (map fst m) \<Longrightarrow> distinct (map fst m')"
  by (induction ts ids m rule: resolveNames.induct) (auto simp: distinct_update)

lemma process_phases_run:
  assumes "process_phases opts ps ids cpd = Inr (cpd', rest)" and "distinct (map ti_Name (concat (map pi_Tasks ps)))"
  shows "cpd_tasks cpd' = cpd_tasks cpd @ concat (map pi_Tasks ps)
    \<and> map wa_TaskName (cpd_assignments cpd') = map wa_TaskName (cpd_assignments cpd) @ map ti_Name (concat (map pi_Tasks ps))
    \<and> map (\<lambda>t. zget [] (cpd_nameToID cpd') (ti_Name t)) (concat (map pi_Tasks ps)) @ rest = ids
    \<and> fst ` set (cpd_nameToID cpd') = fst ` set (cpd_nameToID cpd) \<union> ti_Name ` set (concat (map pi_Tasks ps))
    \<and> (\<forall>n. n \<notin> ti_Name ` set (concat (map pi_Tasks ps)) \<longrightarrow> map_of (cpd_nameToID cpd') n = map_of (cpd_nameToID cpd) n)"
  using assms
proof (induction ps arbitrary: ids cpd)
  case (Cons p ps)
  obtain m ids' where r: "resolveNames (pi_Tasks p) ids [] = Inr (m, ids')"
    using Cons.prems(1) by (auto split: sum.splits)
  obtain as where a: "assign_for opts (cpd_workerStates cpd) (map phase_request (pi_Tasks p)) = Inr as"
    using Cons.prems(1) r by (auto split: sum.splits)
  let ?c = "\<lparr>cpd_nameToID = fold (\<lambda>(k, v) m. AList.update k v m) m (cpd_nameToID cpd), cpd_tasks = cpd_tasks cpd @ pi_Tasks p,
    cpd_assignments = cpd_assignments cpd @ as, cpd_workerStates = bump_all as (cpd_workerStates cpd)\<rparr>"
  have rest: "process_phases opts ps ids' ?c = Inr (cpd', rest)" using Cons.prems(1) r a by simp
  have d: "distinct (map ti_Name (pi_Tasks p))" "distinct (map ti_Name (concat (map pi_Tasks ps)))"
    "ti_Name ` set (pi_Tasks p) \<inter> ti_Name ` set (concat (map pi_Tasks ps)) = {}"
    using Cons.prems(2) by (simp_all add: image_UN Int_commute)
  note n = resolveNames_Inr [OF r d(1)] and ih = Cons.IH [OF rest d(2)]
  have k: "distinct (map fst m)" using resolveNames_keys [OF r] by simp
  have look: "zget [] (cpd_nameToID cpd') (ti_Name t) = zget [] m (ti_Name t)" if "t \<in> set (pi_Tasks p)" for t
  proof -
    have "ti_Name t \<notin> ti_Name ` set (concat (map pi_Tasks ps))" using that d(3) by blast
    then have "map_of (cpd_nameToID cpd') (ti_Name t) = map_of (cpd_nameToID ?c) (ti_Name t)" using ih by blast
    moreover have "map_of m (ti_Name t) \<noteq> None" using n that by (simp add: map_of_eq_None_iff)
    ultimately show ?thesis by (auto simp: fold_update_lookup [OF k] zget_def)
  qed
  have names: "map wa_TaskName as = map ti_Name (pi_Tasks p)"
    using assign_for_names [OF a] by (simp add: phase_request_def assign_request_def comp_def)
  have ids: "map (\<lambda>t. zget [] (cpd_nameToID cpd') (ti_Name t)) (concat (map pi_Tasks (p # ps))) @ rest = ids"
  proof -
    have "map (\<lambda>t. zget [] (cpd_nameToID cpd') (ti_Name t)) (pi_Tasks p) = map (\<lambda>t. zget [] m (ti_Name t)) (pi_Tasks p)"
      using look by simp
    then have "map (\<lambda>t. zget [] (cpd_nameToID cpd') (ti_Name t)) (concat (map pi_Tasks (p # ps))) @ rest
        = map (\<lambda>t. zget [] m (ti_Name t)) (pi_Tasks p)
          @ (map (\<lambda>t. zget [] (cpd_nameToID cpd') (ti_Name t)) (concat (map pi_Tasks ps)) @ rest)"
      by (simp only: list.map concat.simps map_append append_assoc)
    also have "\<dots> = ids" using n ih by (simp only:)
    finally show ?thesis .
  qed
  have keys: "fst ` set (cpd_nameToID cpd') = fst ` set (cpd_nameToID cpd) \<union> ti_Name ` set (concat (map pi_Tasks (p # ps)))"
    using ih n fold_update_keys [of m "cpd_nameToID cpd"] by auto
  have other: "map_of (cpd_nameToID cpd') x = map_of (cpd_nameToID cpd) x" if "x \<notin> ti_Name ` set (concat (map pi_Tasks (p # ps)))" for x
  proof -
    have "x \<notin> ti_Name ` set (pi_Tasks p)" "x \<notin> ti_Name ` set (concat (map pi_Tasks ps))" using that by auto
    moreover from this(1) have "map_of m x = None" using n by (simp add: map_of_eq_None_iff)
    ultimately show ?thesis using ih by (simp add: fold_update_lookup [OF k])
  qed
  show ?case using ih names ids keys other by (simp del: map_concat)
qed simp

lemma untouched_mono: "untouched A state \<Longrightarrow> B \<subseteq> A \<Longrightarrow> untouched B state"
  by (auto simp: untouched_def)

lemma untouched_registered:
  assumes "untouched A state" and "(\<lambda>t. f (ti_Name t)) ` set ts \<inter> A = {}"
  shows "untouched A (registered f now ts state)"
proof -
  have gen: "A \<inter> (S \<union> C \<union> D) = {} \<Longrightarrow> N \<inter> A = {} \<Longrightarrow> D' \<subseteq> D \<union> N \<Longrightarrow> A \<inter> ((S \<union> N) \<union> (C \<union> N) \<union> D') = {}"
    for S C D D' N :: "string set" by blast
  have k: "fst ` set (TaskStates (registered f now ts state)) = fst ` set (TaskStates state) \<union> (\<lambda>t. f (ti_Name t)) ` set ts"
    "fst ` set (TaskStatusChangedAt (registered f now ts state)) = fst ` set (TaskStatusChangedAt state) \<union> (\<lambda>t. f (ti_Name t)) ` set ts"
    by (simp_all add: registered_def image_Un image_image)
  have d: "fst ` set (TaskDependencies (registered f now ts state))
      \<subseteq> fst ` set (TaskDependencies state) \<union> (\<lambda>t. f (ti_Name t)) ` set ts"
    by (auto simp: registered_def)
  show ?thesis unfolding untouched_def k by (rule gen [OF assms(1) [unfolded untouched_def] assms(2) d])
qed

lemma add_phases_run:
  assumes "\<forall>p \<in> set ps. pi_Type p \<noteq> ''concrete'' \<longrightarrow> pi_Tasks p = []"
    and "\<forall>t \<in> set (concat (map pi_Tasks ps)). set (ti_BlockedBy t) \<subseteq> fst ` set m"
    and "distinct (map (\<lambda>t. zget [] m (ti_Name t)) (concat (map pi_Tasks ps)))"
    and "untouched ((\<lambda>t. zget [] m (ti_Name t)) ` set (concat (map pi_Tasks ps))) state"
  shows "add_phases pm m now ps state = Inr ((registered (zget [] m) now (concat (map pi_Tasks ps)) state)
    \<lparr>Phases := Phases state @ map (\<lambda>p. plan_phase now (zget [] pm (pi_Name p)) (map (\<lambda>t. zget [] m (ti_Name t)) (pi_Tasks p)) p) ps\<rparr>)"
  using assms
proof (induction ps arbitrary: state)
  case Nil
  show ?case by (simp add: registered_def)
next
  case (Cons p ps)
  let ?f = "zget [] m" and ?ph = "\<lambda>p. plan_phase now (zget [] pm (pi_Name p)) (map (\<lambda>t. zget [] m (ti_Name t)) (pi_Tasks p)) p"
  let ?s1 = "registered ?f now (pi_Tasks p) state"
  let ?s2 = "?s1\<lparr>Phases := Phases ?s1 @ [?ph p]\<rparr>"
  have di: "distinct (map (\<lambda>t. ?f (ti_Name t)) (pi_Tasks p))" "distinct (map (\<lambda>t. ?f (ti_Name t)) (concat (map pi_Tasks ps)))"
    "(\<lambda>t. ?f (ti_Name t)) ` set (pi_Tasks p) \<inter> (\<lambda>t. ?f (ti_Name t)) ` set (concat (map pi_Tasks ps)) = {}"
    using Cons.prems(3) by (simp_all del: map_concat)
  have u1: "untouched ((\<lambda>t. ?f (ti_Name t)) ` set (pi_Tasks p)) state" using Cons.prems(4) by (auto simp: untouched_def)
  have b1: "\<forall>t \<in> set (pi_Tasks p). set (ti_BlockedBy t) \<subseteq> fst ` set m" using Cons.prems(2) by simp
  have one: "(if pi_Type p = ''concrete'' then register_tasks m now (pi_Tasks p) state else Inr state) = Inr ?s1"
    using register_tasks_run [OF b1 di(1) u1] Cons.prems(1) by (simp add: registered_def)
  have u2: "untouched ((\<lambda>t. ?f (ti_Name t)) ` set (concat (map pi_Tasks ps))) ?s2"
  proof -
    have "untouched ((\<lambda>t. ?f (ti_Name t)) ` set (concat (map pi_Tasks ps))) ?s1"
      using di(3) by (intro untouched_registered untouched_mono [OF Cons.prems(4)]) auto
    then show ?thesis by (simp add: untouched_def)
  qed
  have "add_phases pm m now ps ?s2 = Inr ((registered ?f now (concat (map pi_Tasks ps)) ?s2)\<lparr>Phases := Phases ?s2 @ map ?ph ps\<rparr>)"
    using Cons.prems di(2) u2 by (intro Cons.IH) simp_all
  moreover have "(registered ?f now (concat (map pi_Tasks ps)) ?s2)\<lparr>Phases := Phases ?s2 @ map ?ph ps\<rparr>
      = (registered ?f now (concat (map pi_Tasks (p # ps))) state)\<lparr>Phases := Phases state @ map ?ph (p # ps)\<rparr>"
    by (simp add: registered_def)
  ultimately show ?case using one by simp
qed

lemma listed_append:
  assumes "listed nm bl xs os" and "listed nm bl ys us" and "nm ` set xs \<inter> nm ` set ys = {}"
  shows "listed nm bl (xs @ ys) (os @ us)"
proof -
  have m: "mset os = mset (map nm xs)" "mset us = mset (map nm ys)" using assms(1,2) by (simp_all add: listed_def)
  have s: "set os = nm ` set xs" "set us = nm ` set ys" using mset_eq_setD [OF m(1)] mset_eq_setD [OF m(2)] by simp_all
  have "set (bl x) \<subseteq> set before" if x: "x \<in> set (xs @ ys)" and e: "os @ us = before @ nm x # after" for x before after
  proof -
    from e consider (left) a where "os = before @ nm x # a" | (right) b where "before = os @ b" "us = b @ nm x # after"
    proof -
      from e obtain v where "os = before @ v \<and> v @ us = nm x # after \<or> os @ v = before \<and> us = v @ nm x # after"
        unfolding append_eq_append_conv2 by blast
      then show thesis using left right by (cases v) auto
    qed
    then show ?thesis
    proof cases
      case left
      then have "nm x \<in> nm ` set xs" using s(1) by auto
      then have "x \<in> set xs" using x assms(3) by auto
      then show ?thesis using assms(1) left unfolding listed_def by blast
    next
      case right
      then have "nm x \<in> nm ` set ys" using s(2) by auto
      then have "x \<in> set ys" using x assms(3) by auto
      then have "set (bl x) \<subseteq> set b" using assms(2) right(2) unfolding listed_def by blast
      then show ?thesis using right(1) by auto
    qed
  qed
  then show ?thesis using m by (simp add: listed_def)
qed

lemma listed_concat:
  assumes "\<forall>p \<in> set ps. \<exists>order. listed ti_Name ti_BlockedBy (pi_Tasks p) order" and "distinct (map ti_Name (concat (map pi_Tasks ps)))"
  shows "\<exists>order. listed ti_Name ti_BlockedBy (concat (map pi_Tasks ps)) order"
  using assms
proof (induction ps)
  case (Cons p ps)
  then obtain o1 o2 where l: "listed ti_Name ti_BlockedBy (pi_Tasks p) o1" "listed ti_Name ti_BlockedBy (concat (map pi_Tasks ps)) o2"
    by auto
  have "ti_Name ` set (pi_Tasks p) \<inter> ti_Name ` set (concat (map pi_Tasks ps)) = {}"
    using Cons.prems(2) by (simp add: image_UN Int_commute)
  from listed_append [OF l this] show ?case by auto
qed (auto simp: listed_def)

lemma registered_cong:
  assumes "\<And>t. t \<in> set ts \<Longrightarrow> f (ti_Name t) = g (ti_Name t) \<and> (\<forall>d \<in> set (ti_BlockedBy t). f d = g d)"
  shows "registered f now ts state = registered g now ts state"
proof -
  have "map (\<lambda>t. f (ti_Name t)) (filter P ts) = map (\<lambda>t. g (ti_Name t)) (filter P ts)" for P using assms by simp
  moreover have "map (\<lambda>t. (f (ti_Name t), c)) ts = map (\<lambda>t. (g (ti_Name t), c)) ts" for c using assms by simp
  moreover have "map (\<lambda>t. (f (ti_Name t), map f (ti_BlockedBy t))) (filter (\<lambda>t. ti_BlockedBy t \<noteq> []) ts)
      = map (\<lambda>t. (g (ti_Name t), map g (ti_BlockedBy t))) (filter (\<lambda>t. ti_BlockedBy t \<noteq> []) ts)"
    by (intro map_cong refl) (use assms in auto)
  ultimately show ?thesis by (simp add: registered_def)
qed

lemma cross_names_distinct:
  "validateCrossPhaseTaskNames seen ns = Inr u \<Longrightarrow> distinct ns \<and> set ns \<inter> fst ` set seen = {}"
  by (induction seen ns rule: validateCrossPhaseTaskNames.induct)
    (auto split: if_splits simp: map_of_eq_None_iff dom_update)

text \<open>The tasks of a phased plan, their phases, and the state the builder makes of them.\<close>

definition phase_states :: "stamp \<Rightarrow> (string, string) gomap \<Rightarrow> (string \<Rightarrow> string) \<Rightarrow> PhaseInput list \<Rightarrow> Phase list" where
  "phase_states now pm f phases =
     map (\<lambda>p. plan_phase now (zget [] pm (pi_Name p)) (map (\<lambda>t. f (ti_Name t)) (pi_Tasks p)) p) phases"

lemma phase_states_ids:
  assumes "\<forall>p \<in> set phases. pi_Type p \<noteq> ''concrete'' \<longrightarrow> pi_Tasks p = []"
  shows "concat (map ph_TaskIDs (phase_states now pm f phases)) = map (\<lambda>t. f (ti_Name t)) (concat (map pi_Tasks phases))"
  using assms by (induction phases) (auto simp: phase_states_def plan_phase_def zero_Phase_def)

lemma concrete_concat:
  assumes "\<forall>p \<in> set phases. pi_Type p \<noteq> ''concrete'' \<longrightarrow> pi_Tasks p = []"
  shows "concat (map pi_Tasks (concrete_phases phases)) = concat (map pi_Tasks phases)"
  using assms by (induction phases) (auto simp: concrete_phases_def)

lemma built_phases:
  assumes run: "add_phases pm m now phases ((new_state c now)\<lparr>SystemCommitTaskID := sys\<rparr>)
      = Inr ((registered (zget [] m) now ts ((new_state c now)\<lparr>SystemCommitTaskID := sys\<rparr>))\<lparr>Phases := phs\<rparr>)"
    and sys: "sys = None" and m: "m = cpd_nameToID cpd"
  shows "buildPhaseCommandState c phases pm cpd sys now = Inr (built_plan c now (zget [] m) ts sys phs)"
proof -
  have "(registered f now ts ((new_state c now)\<lparr>SystemCommitTaskID := x\<rparr>))\<lparr>Phases := phs\<rparr>
      = (registered f now ts (new_state c now))\<lparr>SystemCommitTaskID := x, Phases := phs\<rparr>" for f x
    by (simp add: registered_def)
  then show ?thesis using run sys m by (simp add: buildPhaseCommandState_def built_plan_def)
qed

lemma built_phases_commit:
  assumes run: "add_phases pm m now phases ((new_state c now)\<lparr>SystemCommitTaskID := Some commitID\<rparr>)
      = Inr ((registered (zget [] m) now ts ((new_state c now)\<lparr>SystemCommitTaskID := Some commitID\<rparr>))\<lparr>Phases := phs\<rparr>)"
    and m: "m = cpd_nameToID cpd" and tasks: "cpd_tasks cpd = ts @ [ct]"
    and ct: "ti_Name ct = system_commit_name" "ti_BlockedBy ct = map ti_Name ts" "ti_Required ct"
    and names: "\<forall>t \<in> set ts. ti_Name t \<noteq> system_commit_name" and id: "zget [] m system_commit_name = commitID"
    and fresh: "commitID \<notin> (\<lambda>t. zget [] m (ti_Name t)) ` set ts"
  shows "buildPhaseCommandState c phases pm cpd (Some commitID) now = Inr (built_plan c now (zget [] m) (ts @ [ct]) (Some commitID) phs)"
proof -
  let ?f = "zget [] m"
  let ?s = "(registered ?f now ts ((new_state c now)\<lparr>SystemCommitTaskID := Some commitID\<rparr>))\<lparr>Phases := phs\<rparr>"
  have deps: "map (\<lambda>t. ?f (ti_Name t)) (filter (\<lambda>t. ti_Name t \<noteq> system_commit_name) (cpd_tasks cpd)) = map (\<lambda>t. ?f (ti_Name t)) ts"
    using names by (simp add: tasks ct(1) filter_id_conv [THEN iffD2])
  have k: "commitID \<notin> fst ` set (TaskStates ?s)" "commitID \<notin> fst ` set (TaskStatusChangedAt ?s)" "commitID \<notin> fst ` set (TaskDependencies ?s)"
    using fresh by (auto simp: registered_def)
  have "add_system_commit cpd now commitID ?s = (registered ?f now (ts @ [ct]) (new_state c now))\<lparr>SystemCommitTaskID := Some commitID, Phases := phs\<rparr>"
    using k unfolding add_system_commit_def m [symmetric] deps
    by (cases "ts = []") (simp_all add: SetTaskState_def update_fresh registered_def ct id Let_def comp_def)
  then show ?thesis using run m by (simp add: buildPhaseCommandState_def built_plan_def)
qed

text \<open>What the checks of a phased input leave the planner with.\<close>

definition phased_ok :: "PhaseInput list \<Rightarrow> bool" where
  "phased_ok phases =
     ((\<forall>p \<in> set phases. (pi_Type p \<noteq> ''concrete'' \<longrightarrow> pi_Tasks p = []) \<and> (\<exists>order. listed ti_Name ti_BlockedBy (pi_Tasks p) order)
        \<and> (\<forall>t \<in> set (pi_Tasks p). ti_Name t \<noteq> system_commit_name))
      \<and> distinct (map ti_Name (concat (map pi_Tasks phases))))"

lemma phased_ok_checked:
  assumes "ValidatePhasesInput phases = []"
    and "validateCrossPhaseTaskNames [] (concat (map (\<lambda>p. map ti_Name (pi_Tasks p)) (concrete_phases phases))) = Inr u"
  shows "phased_ok phases"
proof -
  have ok: "phase_ok p" if "p \<in> set phases" for p using assms(1) that unfolding phases_input_Nil by blast
  have one: "(pi_Type p \<noteq> ''concrete'' \<longrightarrow> pi_Tasks p = []) \<and> (\<exists>order. listed ti_Name ti_BlockedBy (pi_Tasks p) order)
      \<and> (\<forall>t \<in> set (pi_Tasks p). ti_Name t \<noteq> system_commit_name)" if p: "p \<in> set phases" for p
  proof (cases "pi_Type p = ''concrete''")
    case True
    then have t: "task_set_ok (pi_Tasks p)" using ok [OF p] unfolding phase_ok_def by auto
    have "ti_Name t \<noteq> system_commit_name" if "t \<in> set (pi_Tasks p)" for t
    proof
      assume "ti_Name t = system_commit_name"
      then have "take 2 (ti_Name t) = ''__''" by (simp add: system_commit_name_def)
      then show False using t that unfolding task_set_ok_def fields_ok_def by blast
    qed
    moreover have "\<exists>order. listed ti_Name ti_BlockedBy (pi_Tasks p) order" using t unfolding task_set_ok_def by blast
    ultimately show ?thesis using True by blast
  next
    case False
    then have "pi_Tasks p = []" using ok [OF p] unfolding phase_ok_def by auto
    then show ?thesis by (auto simp: listed_def)
  qed
  have "concat (map (\<lambda>p. map ti_Name (pi_Tasks p)) (concrete_phases phases)) = map ti_Name (concat (map pi_Tasks (concrete_phases phases)))"
    by (simp add: map_concat comp_def)
  also have "\<dots> = map ti_Name (concat (map pi_Tasks phases))" using concrete_concat [of phases] one by simp
  finally have "distinct (map ti_Name (concat (map pi_Tasks phases)))" using cross_names_distinct [OF assms(2)] by simp
  then show ?thesis using one unfolding phased_ok_def by blast
qed

lemma phase_refs:
  assumes "phased_ok phases" and "p \<in> set phases" and "t \<in> set (pi_Tasks p)"
  shows "set (ti_BlockedBy t) \<subseteq> ti_Name ` set (pi_Tasks p)"
proof -
  obtain order where l: "listed ti_Name ti_BlockedBy (pi_Tasks p) order" using assms(1,2) unfolding phased_ok_def by blast
  have "distinct (map ti_Name (pi_Tasks p))"
    using assms(1,2) unfolding phased_ok_def map_concat map_map by (auto simp: distinct_concat_iff)
  from listed_refs [OF this l] assms(3) show ?thesis by blast
qed

lemma phase_states_placed:
  assumes ok: "phased_ok phases" and inj: "inj_on (\<lambda>t. f (ti_Name t)) (set tasks)"
    and sub: "set (concat (map pi_Tasks phases)) \<subseteq> set tasks"
  shows "t \<in> set tasks \<Longrightarrow> p \<in> set (phase_states now pm f phases) \<Longrightarrow> f (ti_Name t) \<in> set (ph_TaskIDs p) \<Longrightarrow>
    f ` set (ti_BlockedBy t) \<subseteq> set (ph_TaskIDs p)"
proof -
  assume t: "t \<in> set tasks" and p: "p \<in> set (phase_states now pm f phases)" and i: "f (ti_Name t) \<in> set (ph_TaskIDs p)"
  obtain q where q: "q \<in> set phases" "p = plan_phase now (zget [] pm (pi_Name q)) (map (\<lambda>t. f (ti_Name t)) (pi_Tasks q)) q"
    using p by (auto simp: phase_states_def)
  have ids: "ph_TaskIDs p = map (\<lambda>t. f (ti_Name t)) (pi_Tasks q)" using ok q unfolding phased_ok_def by (auto simp: plan_phase_def)
  from i obtain u where u: "u \<in> set (pi_Tasks q)" "f (ti_Name u) = f (ti_Name t)" unfolding ids by auto
  have "u \<in> set tasks" using u(1) q(1) sub by auto
  then have "t = u" using inj t u(2) by (auto simp: inj_on_def)
  then have "f ` set (ti_BlockedBy t) \<subseteq> f ` (ti_Name ` set (pi_Tasks q))" using phase_refs [OF ok q(1) u(1)] by blast
  then show "f ` set (ti_BlockedBy t) \<subseteq> set (ph_TaskIDs p)" unfolding ids by (simp add: image_image)
qed

lemma phased_plan:
  assumes ok: "phased_ok phases" and ids: "distinct ids"
    and proc: "processConcretePhases opts queues phases ids = Inr (cpd, ids2)"
    and com: "(if shouldInsertSystemCommit opts
        then (case addSystemCommitForPhases opts texts ids2 cpd of Inl e \<Rightarrow> Inl e | Inr (commitID, cpd') \<Rightarrow> Inr (Some commitID, cpd'))
        else Inr (None, cpd)) = Inr (sys, cpd')"
  obtains order where "map wa_TaskName (cpd_assignments cpd') = map ti_Name (cpd_tasks cpd')"
    and "distinct (map ti_Name (cpd_tasks cpd'))" and "listed ti_Name ti_BlockedBy (cpd_tasks cpd') order"
    and "distinct (map (\<lambda>t. zget [] (cpd_nameToID cpd') (ti_Name t)) (cpd_tasks cpd'))"
    and "(\<lambda>t. zget [] (cpd_nameToID cpd') (ti_Name t)) ` set (cpd_tasks cpd') \<subseteq> set ids"
    and "fst ` set (cpd_nameToID cpd') = ti_Name ` set (cpd_tasks cpd')"
    and "set (concat (map pi_Tasks phases)) \<subseteq> set (cpd_tasks cpd')"
    and "\<And>i. sys = Some i \<Longrightarrow> \<exists>t \<in> set (cpd_tasks cpd'). ti_Required t \<and> zget [] (cpd_nameToID cpd') (ti_Name t) = i"
    and "buildPhaseCommandState c phases pm cpd' sys now = Inr (built_plan c now (zget [] (cpd_nameToID cpd')) (cpd_tasks cpd') sys
        (phase_states now pm (zget [] (cpd_nameToID cpd')) phases))"
proof -
  let ?ts = "concat (map pi_Tasks phases)"
  have conc: "concat (map pi_Tasks (concrete_phases phases)) = ?ts" using ok concrete_concat [of phases] unfolding phased_ok_def by simp
  have dn: "distinct (map ti_Name ?ts)" and only: "\<forall>p \<in> set phases. pi_Type p \<noteq> ''concrete'' \<longrightarrow> pi_Tasks p = []"
    and nosys: "\<forall>t \<in> set ?ts. ti_Name t \<noteq> system_commit_name"
    using ok unfolding phased_ok_def by auto
  obtain states where run: "process_phases opts (concrete_phases phases) ids
      \<lparr>cpd_nameToID = [], cpd_tasks = [], cpd_assignments = [], cpd_workerStates = states\<rparr> = Inr (cpd, ids2)"
    using proc by (auto simp: processConcretePhases_def split: option.splits)
  have pr: "cpd_tasks cpd = ?ts" "map wa_TaskName (cpd_assignments cpd) = map ti_Name ?ts"
    "map (\<lambda>t. zget [] (cpd_nameToID cpd) (ti_Name t)) ?ts @ ids2 = ids" "fst ` set (cpd_nameToID cpd) = ti_Name ` set ?ts"
    using process_phases_run [OF run] conc dn by simp_all
  obtain order where l: "listed ti_Name ti_BlockedBy ?ts order"
    using listed_concat [OF _ dn] ok unfolding phased_ok_def by blast
  have refs: "\<forall>t \<in> set ?ts. set (ti_BlockedBy t) \<subseteq> ti_Name ` set ?ts" using listed_refs [OF dn l] by blast
  have di: "distinct (map (\<lambda>t. zget [] (cpd_nameToID cpd) (ti_Name t)) ?ts @ ids2)" using pr(3) ids by simp
  have run_add: "add_phases pm m now phases ((new_state c now)\<lparr>SystemCommitTaskID := x\<rparr>)
      = Inr ((registered (zget [] m) now ?ts ((new_state c now)\<lparr>SystemCommitTaskID := x\<rparr>))\<lparr>Phases := phase_states now pm (zget [] m) phases\<rparr>)"
    if k: "ti_Name ` set ?ts \<subseteq> fst ` set m" and d: "distinct (map (\<lambda>t. zget [] m (ti_Name t)) ?ts)" for m x
  proof -
    have u: "untouched ((\<lambda>t. zget [] m (ti_Name t)) ` set ?ts) ((new_state c now)\<lparr>SystemCommitTaskID := x\<rparr>)"
      by (simp add: untouched_def)
    have b: "\<forall>t \<in> set ?ts. set (ti_BlockedBy t) \<subseteq> fst ` set m" using refs k by blast
    show ?thesis using add_phases_run [OF only b d u, of pm now] by (simp add: phase_states_def)
  qed
  show thesis
  proof (cases "shouldInsertSystemCommit opts")
    case False
    then have c: "cpd' = cpd" "sys = None" using com by simp_all
    show thesis
    proof (rule that, unfold c pr(1))
      show "buildPhaseCommandState c phases pm cpd None now = Inr (built_plan c now (zget [] (cpd_nameToID cpd)) ?ts None
        (phase_states now pm (zget [] (cpd_nameToID cpd)) phases))"
        using di pr(4) by (intro built_phases [OF run_add]) simp_all
      show "(\<lambda>t. zget [] (cpd_nameToID cpd) (ti_Name t)) ` set ?ts \<subseteq> set ids" unfolding pr(3) [symmetric] by auto
      show "distinct (map (\<lambda>t. zget [] (cpd_nameToID cpd) (ti_Name t)) ?ts)" using di unfolding distinct_append by blast
    qed (use pr l dn in simp_all)
  next
    case True
    let ?ct = "buildSystemCommitTask texts (map ti_Name ?ts)"
    have ct: "ti_Name ?ct = system_commit_name" "ti_BlockedBy ?ct = map ti_Name ?ts" "ti_Required ?ct"
      by (simp_all add: buildSystemCommitTask_def split: prod.split)
    obtain commitID ids3 as where i: "ids2 = commitID # ids3" "sys = Some commitID"
      and cpd': "cpd_nameToID cpd' = AList.update system_commit_name commitID (cpd_nameToID cpd)"
        "cpd_tasks cpd' = ?ts @ [?ct]" "cpd_assignments cpd' = cpd_assignments cpd @ as"
      and as: "map wa_TaskName as = [system_commit_name]"
      using com True pr(1) ct(1)
      by (auto simp: addSystemCommitForPhases_def Let_def split: sum.splits list.splits dest!: assign_for_names)
    let ?m = "cpd_nameToID cpd'"
    have idm: "zget [] ?m system_commit_name = commitID" by (simp add: cpd'(1))
    have same: "map (\<lambda>t. zget [] ?m (ti_Name t)) ?ts = map (\<lambda>t. zget [] (cpd_nameToID cpd) (ti_Name t)) ?ts"
      using nosys by (intro map_cong refl) (auto simp: cpd'(1))
    have d3: "distinct (map (\<lambda>t. zget [] ?m (ti_Name t)) ?ts @ [commitID])" using di unfolding same i(1) by simp
    have keys: "fst ` set ?m = insert system_commit_name (ti_Name ` set ?ts)" by (simp add: cpd'(1) dom_update pr(4) del: map_concat set_concat)
    have fs: "ti_Name ?ct \<notin> ti_Name ` set ?ts" using nosys unfolding ct(1) by force
    have b: "buildPhaseCommandState c phases pm cpd' (Some commitID) now = Inr (built_plan c now (zget [] ?m) (?ts @ [?ct]) (Some commitID)
        (phase_states now pm (zget [] ?m) phases))"
    proof (rule built_phases_commit [OF run_add _ cpd'(2) ct nosys idm])
      show "ti_Name ` set ?ts \<subseteq> fst ` set ?m" unfolding keys by blast
      show "distinct (map (\<lambda>t. zget [] ?m (ti_Name t)) ?ts)" using d3 unfolding distinct_append by blast
      show "commitID \<notin> (\<lambda>t. zget [] ?m (ti_Name t)) ` set ?ts" using d3 unfolding distinct_append set_map by auto
    qed simp
    show thesis
    proof (rule that, unfold i(2) cpd'(2))
      show "buildPhaseCommandState c phases pm cpd' (Some commitID) now = Inr (built_plan c now (zget [] ?m) (?ts @ [?ct]) (Some commitID)
        (phase_states now pm (zget [] ?m) phases))" by (rule b)
      show "distinct (map (\<lambda>t. zget [] ?m (ti_Name t)) (?ts @ [?ct]))" using d3 idm ct(1) by simp
      show "(\<lambda>t. zget [] ?m (ti_Name t)) ` set (?ts @ [?ct]) \<subseteq> set ids"
      proof -
        have "set (map (\<lambda>t. zget [] ?m (ti_Name t)) ?ts) \<union> {commitID} \<subseteq> set ids"
          unfolding same pr(3) [symmetric] i(1) by auto
        then show ?thesis using idm ct(1) by (simp del: set_concat map_concat)
      qed
      show "listed ti_Name ti_BlockedBy (?ts @ [?ct]) (order @ [ti_Name ?ct])"
        by (rule listed_snoc [OF l]) (simp only: ct(2) set_map subset_refl, rule fs)
      show "distinct (map ti_Name (?ts @ [?ct]))" using dn fs by (simp del: set_concat map_concat)
      show "fst ` set ?m = ti_Name ` set (?ts @ [?ct])" unfolding keys by (simp add: ct(1))
      show "map wa_TaskName (cpd_assignments cpd') = map ti_Name (?ts @ [?ct])" by (simp add: cpd'(3) pr(2) as ct(1) del: map_concat)
      show "\<exists>t \<in> set (?ts @ [?ct]). ti_Required t \<and> zget [] ?m (ti_Name t) = j" if "Some commitID = Some j" for j
        using that ct(1,3) idm by simp
    qed auto
  qed
qed

lemma phase_ids_rest: "phase_ids ps ids m = Inr (m', rest) \<Longrightarrow> \<exists>used. ids = used @ rest"
  by (induction ps ids m rule: phase_ids.induct) (auto intro: exI [of _ "_ # _"])

lemma phases_outcome:
  assumes run: "submitInitialPhases ok opts texts commands ids now sealedAt phases disk = (r, disk')" and ids: "distinct ids"
  shows "r = None \<Longrightarrow> \<not> so_DryRun opts \<Longrightarrow> submitted disk disk'"
    and "r = Some e \<Longrightarrow> ok DeleteTheState \<Longrightarrow> \<forall>w. ok (RollbackQueue w) \<Longrightarrow> fresh_ids (set ids) (pd_Queues disk) \<Longrightarrow> unchanged disk disk'"
    and "so_DryRun opts \<Longrightarrow> disk' = disk"
proof -
  have self: "unchanged disk disk" by (simp add: unchanged_def)
  consider (early) "disk' = disk" "so_DryRun opts \<or> (\<exists>e. r = Some e)"
    | (commit) u pm ids1 cpd ids2 sys cpd' state where "ValidatePhasesInput phases = []" "\<not> so_DryRun opts"
      "validateCrossPhaseTaskNames [] (concat (map (\<lambda>p. map ti_Name (pi_Tasks p)) (concrete_phases phases))) = Inr u"
      "phase_ids phases ids [] = Inr (pm, ids1)" "processConcretePhases opts (pd_Queues disk) phases ids1 = Inr (cpd, ids2)"
      "(if shouldInsertSystemCommit opts
        then (case addSystemCommitForPhases opts texts ids2 cpd of Inl e \<Rightarrow> Inl e | Inr (commitID, cpd') \<Rightarrow> Inr (Some commitID, cpd'))
        else Inr (None, cpd)) = Inr (sys, cpd')"
      "buildPhaseCommandState (so_CommandID opts) phases pm cpd' sys now = Inr state" "pd_State disk = None"
      "commit_plan ok now sealedAt (so_CommandID opts) (cpd_assignments cpd') (cpd_tasks cpd') (cpd_nameToID cpd') state disk = (r, disk')"
    using run unfolding submitInitialPhases_def Let_def
    by (auto split: if_split_asm sum.split_asm prod.split_asm simp del: map_concat dest: lock_ok)
  note cs = this
  show "so_DryRun opts \<Longrightarrow> disk' = disk" using cs by cases auto
  have main: "(r = None \<longrightarrow> \<not> so_DryRun opts \<longrightarrow> submitted disk disk')
    \<and> (r = Some e \<longrightarrow> ok DeleteTheState \<longrightarrow> (\<forall>w. ok (RollbackQueue w)) \<longrightarrow> fresh_ids (set ids) (pd_Queues disk) \<longrightarrow> unchanged disk disk')"
    using cs
  proof cases
    case early
    then show ?thesis using self by auto
  next
    case commit
    have pok: "phased_ok phases" by (rule phased_ok_checked [OF commit(1,3)])
    note pi = phase_ids_rest [OF commit(4)]
    have ids1: "distinct ids1" "set ids1 \<subseteq> set ids" using pi ids by auto
    obtain order where P: "map wa_TaskName (cpd_assignments cpd') = map ti_Name (cpd_tasks cpd')"
      "distinct (map ti_Name (cpd_tasks cpd'))" "listed ti_Name ti_BlockedBy (cpd_tasks cpd') order"
      "distinct (map (\<lambda>t. zget [] (cpd_nameToID cpd') (ti_Name t)) (cpd_tasks cpd'))"
      "(\<lambda>t. zget [] (cpd_nameToID cpd') (ti_Name t)) ` set (cpd_tasks cpd') \<subseteq> set ids1"
      "fst ` set (cpd_nameToID cpd') = ti_Name ` set (cpd_tasks cpd')"
      "set (concat (map pi_Tasks phases)) \<subseteq> set (cpd_tasks cpd')"
      "\<And>i. sys = Some i \<Longrightarrow> \<exists>t \<in> set (cpd_tasks cpd'). ti_Required t \<and> zget [] (cpd_nameToID cpd') (ti_Name t) = i"
      "buildPhaseCommandState (so_CommandID opts) phases pm cpd' sys now = Inr (built_plan (so_CommandID opts) now
        (zget [] (cpd_nameToID cpd')) (cpd_tasks cpd') sys (phase_states now pm (zget [] (cpd_nameToID cpd')) phases))"
      by (rule phased_plan [OF pok ids1(1) commit(5,6), where c = "so_CommandID opts" and now = now and pm = pm]) blast
    let ?f = "zget [] (cpd_nameToID cpd')" and ?phs = "phase_states now pm (zget [] (cpd_nameToID cpd')) phases"
    define s where "s = built_plan (so_CommandID opts) now ?f (cpd_tasks cpd') sys ?phs"
    have e: "state = s" using commit(7) P(9) by (simp add: s_def)
    have only: "\<forall>p \<in> set phases. pi_Type p \<noteq> ''concrete'' \<longrightarrow> pi_Tasks p = []" using pok unfolding phased_ok_def by blast
    have inj: "inj_on (\<lambda>t. ?f (ti_Name t)) (set (cpd_tasks cpd'))" using P(4) by (simp add: distinct_map)
    have dts: "distinct (concat (map pi_Tasks phases))" using pok unfolding phased_ok_def by (simp only: distinct_map)
    have pd: "distinct (concat (map ph_TaskIDs ?phs))"
      unfolding phase_states_ids [OF only] distinct_map using dts inj_on_subset [OF inj P(7)] by blast
    have ps: "set (concat (map ph_TaskIDs ?phs)) \<subseteq> (\<lambda>t. ?f (ti_Name t)) ` set (cpd_tasks cpd')"
      unfolding phase_states_ids [OF only] set_map using P(7) by blast
    note built = built_plan_ok [OF P(2,3,4,8) pd ps phase_states_placed [OF pok inj P(7)]]
    have s: "plan_wf s" "all_planned s" "known_tasks s = (\<lambda>t. ?f (ti_Name t)) ` set (cpd_tasks cpd')"
      unfolding s_def by (rule built; assumption)+
    have s5: "\<forall>t \<in> set (cpd_tasks cpd'). zget [] (TaskDependencies s) (?f (ti_Name t)) = map ?f (ti_BlockedBy t)"
      unfolding s_def by (intro ballI built(4))
    have refs: "\<forall>t \<in> set (cpd_tasks cpd'). set (ti_BlockedBy t) \<subseteq> fst ` set (cpd_nameToID cpd')"
      using listed_refs [OF P(2,3)] P(6) by blast
    note out = commit_outcome [OF P(1,2) refs P(4) s s5 commit(8) commit(9) [unfolded e]]
    have sub: "(\<lambda>t. ?f (ti_Name t)) ` set (cpd_tasks cpd') \<subseteq> set ids" using P(5) ids1(2) by blast
    show ?thesis using out fresh_ids_mono [OF _ sub] by blast
  qed
  show "r = None \<Longrightarrow> \<not> so_DryRun opts \<Longrightarrow> submitted disk disk'" using main by blast
  show "r = Some e \<Longrightarrow> ok DeleteTheState \<Longrightarrow> \<forall>w. ok (RollbackQueue w) \<Longrightarrow> fresh_ids (set ids) (pd_Queues disk) \<Longrightarrow> unchanged disk disk'"
    using main by blast
qed

section \<open>Submission\<close>

lemma submit_cases:
  assumes "submitInitial ok opts texts commands ids now sealedAt input disk = (r, disk')"
  obtains "r \<noteq> None" "disk' = disk"
    | "submitInitialPhases ok opts texts commands ids now sealedAt (si_Phases input) disk = (r, disk')"
    | t where "submitInitialTasks ok opts texts commands ids now sealedAt (si_Tasks input) disk = (t, disk')"
        "r = (case t of Inl e \<Rightarrow> Some e | Inr _ \<Rightarrow> None)"
proof -
  obtain t d where f: "submitInitialTasks ok opts texts commands ids now sealedAt (si_Tasks input) disk = (t, d)" by fastforce
  consider "si_Tasks input \<noteq> [] \<and> si_Phases input \<noteq> [] \<or> si_Tasks input = [] \<and> si_Phases input = []"
    | "si_Tasks input = []" "si_Phases input \<noteq> []" | "si_Tasks input \<noteq> []" "si_Phases input = []" by blast
  then show thesis
  proof cases
    case 1
    then show ?thesis using assms that(1) by (auto simp: submitInitial_def)
  next
    case 2
    then show ?thesis using assms that(2) by (simp add: submitInitial_def)
  next
    case 3
    then show ?thesis using assms f that(3) by (cases t) (auto simp: submitInitial_def)
  qed
qed

text \<open>
  C3. A submission that reports success, flat or phased, has put a well-formed plan on disk: sealed as version 1,
  every task planned and either required or optional, the graph of the dependencies acyclic and inside the
  phases, and every task pending in the queue of exactly one worker, after the rows that were there, blocked by
  exactly the tasks the state names.
\<close>

theorem submitted_plan:
  assumes "submitInitial ok opts texts commands ids now sealedAt input disk = (None, disk')"
    and "distinct ids" and "\<not> so_DryRun opts"
  shows "submitted disk disk'"
  using assms(1)
proof (cases rule: submit_cases)
  case 2
  from phases_outcome(1) [OF this assms(2) refl assms(3)] show ?thesis .
next
  case (3 t)
  then obtain rs where "t = Inr rs" by (cases t) auto
  from flat_outcome(1) [OF 3(1) assms(2) this assms(3)] show ?thesis .
qed simp

text \<open>
  C4. A submission that reports an error leaves no trace, whichever write failed: with the writes of the
  rollback succeeding and ids that are new to the queues, the command still has the state it had and every queue
  has the rows it had. A dry run writes nothing at all.
\<close>

theorem submit_all_or_nothing:
  assumes "submitInitial ok opts texts commands ids now sealedAt input disk = (r, disk')" and "distinct ids"
    and "ok DeleteTheState" and "\<forall>w. ok (RollbackQueue w)" and "fresh_ids (set ids) (pd_Queues disk)"
  shows "(r \<noteq> None \<longrightarrow> unchanged disk disk') \<and> (so_DryRun opts \<longrightarrow> disk' = disk)"
  using assms(1)
proof (cases rule: submit_cases)
  case 1
  then show ?thesis by (simp add: unchanged_def)
next
  case 2
  then show ?thesis using phases_outcome(2,3) [OF 2 assms(2)] assms(3-5) by blast
next
  case (3 t)
  then show ?thesis using flat_outcome(2,3) [OF 3(1) assms(2)] assms(3-5) by (cases t) auto
qed

definition demo_options :: SubmitOptions where
  "demo_options = \<lparr>so_CommandID = ''c'', so_PhaseName = [], so_DryRun = False, so_WorktreeEnabled = False,
     so_Workers = demo_workers, so_MaxPending = 5, so_Selector = None\<rparr>"

definition demo_submission :: SubmitInput where
  "demo_submission = \<lparr>si_Tasks = [demo_input ''a'' [''b''], demo_input ''b'' []], si_Phases = []\<rparr>"

definition demo_disk :: PlanDisk where
  "demo_disk = \<lparr>pd_State = None, pd_Queues = [(''worker2'', [zero_Task ''old'' StatusPending])]\<rparr>"

lemma submitted_plan_witness:
  "submitted demo_disk (snd (submitInitial (\<lambda>_. True) demo_options (''p'', ''c'', ''a'') [] [''1'', ''2'', ''3''] (Stamp 0) (Stamp 1)
     demo_submission demo_disk))"
proof -
  have e: "fst (submitInitial (\<lambda>_. True) demo_options (''p'', ''c'', ''a'') [] [''1'', ''2'', ''3''] (Stamp 0) (Stamp 1)
     demo_submission demo_disk) = None" by code_simp
  show ?thesis
  proof (rule submitted_plan)
    show "submitInitial (\<lambda>_. True) demo_options (''p'', ''c'', ''a'') [] [''1'', ''2'', ''3''] (Stamp 0) (Stamp 1) demo_submission demo_disk
      = (None, snd (submitInitial (\<lambda>_. True) demo_options (''p'', ''c'', ''a'') [] [''1'', ''2'', ''3''] (Stamp 0) (Stamp 1)
     demo_submission demo_disk))" by (rule prod_eqI) (simp_all only: e fst_conv snd_conv)
  qed (simp_all add: demo_options_def)
qed

lemma submit_all_or_nothing_witness:
  "unchanged demo_disk (snd (submitInitial (\<lambda>op. op \<noteq> SaveSealed) demo_options (''p'', ''c'', ''a'') [] [''1'', ''2'', ''3'']
     (Stamp 0) (Stamp 1) demo_submission demo_disk))"
proof -
  have e: "fst (submitInitial (\<lambda>op. op \<noteq> SaveSealed) demo_options (''p'', ''c'', ''a'') [] [''1'', ''2'', ''3'']
     (Stamp 0) (Stamp 1) demo_submission demo_disk) = Some StateNotSaved" by code_simp
  have "fresh_ids (set [''1'', ''2'', ''3'']) (pd_Queues demo_disk)"
    by (auto simp: fresh_ids_def demo_disk_def rows_of_def zget_def zero_Task_def split: if_splits)
  from submit_all_or_nothing [OF prod.collapse [symmetric], where ok = "\<lambda>op. op \<noteq> SaveSealed" and opts = demo_options
      and texts = "(''p'', ''c'', ''a'')" and commands = "[]" and ids = "[''1'', ''2'', ''3'']" and now = "Stamp 0"
      and sealedAt = "Stamp 1" and input = demo_submission and disk = demo_disk, OF _ _ _ this] e
  show ?thesis by simp
qed

end
