(* ===== verification/Phase_Fill.thy ===== *)
theory Phase_Fill imports Submit_Correct begin

text \<open>
  The fill of a deferred phase (\<open>submitPhaseFill\<close> and its helpers in \<open>internal/plan/submit.go\<close>,
  \<open>rollbackPhaseFillState\<close> in \<open>submit_queue.go\<close>). The fill gives up the state lock while it writes queues and
  before a full rollback; what other holders of the locks do to the disk in each of these windows is an argument
  of the run. The signals a failed rollback raises are not part of this theory.
\<close>

section \<open>Steps\<close>

definition ValidateNotCancelled :: "CommandState \<Rightarrow> SubmitError + unit" where
  "ValidateNotCancelled state = (if cn_Requested (Cancel state) then Inl AlreadyCancelled else Inr ())"

definition change_phase :: "nat \<Rightarrow> (Phase \<Rightarrow> Phase) \<Rightarrow> CommandState \<Rightarrow> CommandState" where
  "change_phase idx f state = state\<lparr>Phases := (Phases state)[idx := f (Phases state ! idx)]\<rparr>"

definition start_filling :: "nat \<Rightarrow> stamp \<Rightarrow> CommandState \<Rightarrow> CommandState" where
  "start_filling idx now state =
     (change_phase idx (\<lambda>p. p\<lparr>ph_Status := PhaseStatusFilling, ph_FillingStartedAt := Some now,
        ph_AwaitingFillSince := None, ph_AwaitingFillStallNotifiedAt := None\<rparr>) state)\<lparr>cs_UpdatedAt := now\<rparr>"

definition back_to_awaiting :: "stamp \<Rightarrow> Phase \<Rightarrow> Phase" where
  "back_to_awaiting now p =
     p\<lparr>ph_Status := PhaseStatusAwaitingFill, ph_AwaitingFillSince := Some now, ph_AwaitingFillStallNotifiedAt := None\<rparr>"

definition rollbackPhaseFillToAwaiting :: "io \<Rightarrow> stamp \<Rightarrow> nat \<Rightarrow> CommandState \<Rightarrow> PlanDisk \<Rightarrow> PlanDisk" where
  "rollbackPhaseFillToAwaiting ok now idx state disk =
     (if ok SaveRolledBack
      then disk\<lparr>pd_State := Some ((change_phase idx (back_to_awaiting now) state)\<lparr>cs_UpdatedAt := now\<rparr>)\<rparr>
      else disk)"

fun fill_tasks :: "nat \<Rightarrow> (string, string) gomap \<Rightarrow> stamp \<Rightarrow> TaskInput list \<Rightarrow> CommandState \<Rightarrow> SubmitError + CommandState" where
  "fill_tasks idx nameToID now [] state = Inr state"
| "fill_tasks idx nameToID now (t # ts) state =
     (case register_task nameToID now t
             (change_phase idx (\<lambda>p. p\<lparr>ph_TaskIDs := ph_TaskIDs p @ [zget [] nameToID (ti_Name t)]\<rparr>) state) of
        Inl e \<Rightarrow> Inl e
      | Inr state' \<Rightarrow> fill_tasks idx nameToID now ts state')"

definition applyPhaseFillTasks ::
  "nat \<Rightarrow> (string, string) gomap \<Rightarrow> stamp \<Rightarrow> TaskInput list \<Rightarrow> CommandState \<Rightarrow> SubmitError + CommandState" where
  "applyPhaseFillTasks idx nameToID now tasks state =
     (case fill_tasks idx nameToID now tasks state of Inl e \<Rightarrow> Inl e | Inr state' \<Rightarrow> Inr (count_tasks state'))"

definition removeFromSlice :: "string list \<Rightarrow> string \<Rightarrow> string list" where
  "removeFromSlice s target = filter (\<lambda>v. v \<noteq> target) s"

definition unfill_task :: "nat \<Rightarrow> string \<Rightarrow> CommandState \<Rightarrow> CommandState" where
  "unfill_task idx taskID state =
     (let state1 = change_phase idx (\<lambda>p. p\<lparr>ph_TaskIDs := filter (\<lambda>i. i \<noteq> taskID) (ph_TaskIDs p)\<rparr>) state in
      state1\<lparr>RequiredTaskIDs := removeFromSlice (RequiredTaskIDs state1) taskID,
        OptionalTaskIDs := removeFromSlice (OptionalTaskIDs state1) taskID,
        TaskStates := AList.delete taskID (TaskStates state1),
        TaskStatusChangedAt := AList.delete taskID (TaskStatusChangedAt state1),
        TaskDependencies := AList.delete taskID (TaskDependencies state1)\<rparr>)"

definition rollbackPhaseFillState :: "nat \<Rightarrow> TaskInput list \<Rightarrow> (string, string) gomap \<Rightarrow> CommandState \<Rightarrow> CommandState" where
  "rollbackPhaseFillState idx tasks nameToID state =
     count_tasks (fold (\<lambda>t. unfill_task idx (zget [] nameToID (ti_Name t))) tasks state)"

text \<open>The queues first, then the state as it is now on disk, the phase found again by its id.\<close>

definition rollbackFullPhaseFill ::
  "io \<Rightarrow> (PlanDisk \<Rightarrow> PlanDisk) \<Rightarrow> (PlanDisk \<Rightarrow> PlanDisk) \<Rightarrow> stamp \<Rightarrow> CommandState \<Rightarrow> nat \<Rightarrow> TaskInput list \<Rightarrow>
   (string, string) gomap \<Rightarrow> (string, WorkerAssignment) gomap \<Rightarrow> PlanDisk \<Rightarrow> PlanDisk" where
  "rollbackFullPhaseFill ok others1 others2 now state idx tasks nameToID assignMap disk0 =
     (let disk = others1 disk0;
          disk1 = others2 (disk\<lparr>pd_Queues := rollbackQueueEntriesLocked ok tasks nameToID assignMap (pd_Queues disk)\<rparr>) in
      case pd_State disk1 of
        None \<Rightarrow> disk1
      | Some fresh \<Rightarrow>
          (case find_index (\<lambda>p. ph_PhaseID p = ph_PhaseID (Phases state ! idx)) (Phases fresh) of
             None \<Rightarrow> disk1
           | Some freshIdx \<Rightarrow>
               let fresh1 = (if ph_Status (Phases fresh ! freshIdx) = PhaseStatusFilling
                             then change_phase freshIdx (back_to_awaiting now) fresh else fresh);
                   fresh2 = (rollbackPhaseFillState freshIdx tasks nameToID fresh1)\<lparr>cs_UpdatedAt := now\<rparr> in
               if ok SaveRolledBack then disk1\<lparr>pd_State := Some fresh2\<rparr> else disk1))"

definition reloadPhaseFillState :: "string \<Rightarrow> stamp \<Rightarrow> PlanDisk \<Rightarrow> SubmitError + (CommandState \<times> nat)" where
  "reloadPhaseFillState phaseName fillingStartedAt disk =
     (case pd_State disk of
        None \<Rightarrow> Inl StateNotLoaded
      | Some state \<Rightarrow>
          if cs_PlanStatus state \<noteq> PlanStatusSealed then Inl (PlanNotSealed (cs_PlanStatus state))
          else (case find_index (\<lambda>p. ph_Name p = phaseName) (Phases state) of
                  None \<Rightarrow> Inl (PhaseNotFound phaseName)
                | Some idx \<Rightarrow>
                    let phase = Phases state ! idx in
                    if ph_Status phase \<noteq> PhaseStatusFilling then Inl FillOvertaken
                    else if ph_FillingStartedAt phase \<noteq> Some fillingStartedAt then Inl FillOvertaken
                    else Inr (state, idx)))"

definition activate_filled :: "nat \<Rightarrow> stamp \<Rightarrow> CommandState \<Rightarrow> CommandState" where
  "activate_filled idx now state =
     (change_phase idx (\<lambda>p. p\<lparr>ph_Status := PhaseStatusActive, ph_ActivatedAt := Some now\<rparr>) state)
       \<lparr>PlanVersion := PlanVersion state + 1, cs_UpdatedAt := now\<rparr>"

text \<open>The constraints of the phase once more, after the assignment.\<close>

definition exceeds_constraints :: "Phase \<Rightarrow> TaskInput list \<Rightarrow> bool" where
  "exceeds_constraints phase tasks =
     (case ph_Constraints phase of
        None \<Rightarrow> False
      | Some c \<Rightarrow>
          MaxTasks c < int (length tasks)
          \<or> AllowedBloomLevels c \<noteq> []
            \<and> list_ex (\<lambda>t. 0 < ti_BloomLevel t \<and> ti_BloomLevel t \<notin> set (buildAllowedBloomMap (AllowedBloomLevels c))) tasks)"

record FillClock =
  fc_started :: stamp
  fc_written :: stamp
  fc_applied :: stamp
  fc_undone :: stamp

text \<open>The instants a fill reads, and what others do in its three windows: before the queue writes, after them,
  before and inside a rollback.\<close>

record FillOthers =
  fo_before :: "PlanDisk \<Rightarrow> PlanDisk"
  fo_after :: "PlanDisk \<Rightarrow> PlanDisk"
  fo_rollback :: "PlanDisk \<Rightarrow> PlanDisk"
  fo_revert :: "PlanDisk \<Rightarrow> PlanDisk"

definition check_fill :: "SubmitOptions \<Rightarrow> SubmitInput \<Rightarrow> PlanDisk \<Rightarrow> SubmitError + (CommandState \<times> nat)" where
  "check_fill opts input disk =
     (if si_Phases input \<noteq> [] then Inl PhasesInFill
      else case pd_State disk of
        None \<Rightarrow> Inl StateNotLoaded
      | Some state \<Rightarrow>
          if cs_PlanStatus state \<noteq> PlanStatusSealed then Inl (PlanNotSealed (cs_PlanStatus state))
          else case ValidateNotCancelled state of
            Inl e \<Rightarrow> Inl e
          | Inr _ \<Rightarrow>
              (case find_index (\<lambda>p. ph_Name p = so_PhaseName opts) (Phases state) of
                 None \<Rightarrow> Inl (PhaseNotFound (so_PhaseName opts))
               | Some idx \<Rightarrow>
                   let phase = Phases state ! idx; verrs = ValidatePhaseFillInput (si_Tasks input) phase in
                   if ph_Type phase \<noteq> ''deferred'' then Inl (PhaseNotDeferred (so_PhaseName opts))
                   else if ph_Status phase \<noteq> PhaseStatusAwaitingFill then Inl (PhaseNotAwaiting (ph_Status phase))
                   else if verrs \<noteq> [] then Inl (InvalidInput verrs)
                   else Inr (state, idx)))"

definition undo_queues ::
  "io \<Rightarrow> FillOthers \<Rightarrow> TaskInput list \<Rightarrow> (string, string) gomap \<Rightarrow> (string, WorkerAssignment) gomap \<Rightarrow> PlanDisk \<Rightarrow> PlanDisk" where
  "undo_queues ok others tasks nameToID assignMap disk =
     (let disk1 = fo_rollback others disk in
      disk1\<lparr>pd_Queues := rollbackQueueEntriesLocked ok tasks nameToID assignMap (pd_Queues disk1)\<rparr>)"

text \<open>From the queue writes on, with the state lock given up around them.\<close>

definition commit_fill ::
  "io \<Rightarrow> FillOthers \<Rightarrow> FillClock \<Rightarrow> SubmitOptions \<Rightarrow> TaskInput list \<Rightarrow> CommandState \<Rightarrow> nat \<Rightarrow> (string, string) gomap \<Rightarrow>
   WorkerAssignment list \<Rightarrow> PlanDisk \<Rightarrow> (SubmitError + SubmitTaskResult list) \<times> PlanDisk" where
  "commit_fill ok others clock opts tasks state idx nameToID assignments disk1 =
     (let disk2 = fo_before others disk1; am = assign_map assignments in
      case writeQueueEntriesLocked ok assignments tasks nameToID (so_CommandID opts) (fc_written clock) (pd_Queues disk2) of
        (False, queues) \<Rightarrow>
          (Inl QueueNotWritten, rollbackFullPhaseFill ok (\<lambda>d. fo_rollback others (fo_after others d)) (fo_revert others)
             (fc_undone clock) state idx tasks nameToID am (disk2\<lparr>pd_Queues := queues\<rparr>))
      | (True, queues) \<Rightarrow>
      (let disk3 = fo_after others (disk2\<lparr>pd_Queues := queues\<rparr>) in
      case reloadPhaseFillState (so_PhaseName opts) (fc_started clock) disk3 of
        Inl e \<Rightarrow> (Inl e, undo_queues ok others tasks nameToID am disk3)
      | Inr (state1, idx1) \<Rightarrow>
      (case applyPhaseFillTasks idx1 nameToID (fc_applied clock) tasks state1 of
         Inl e \<Rightarrow> (Inl e, undo_queues ok others tasks nameToID am disk3)
       | Inr state2 \<Rightarrow>
           (let state3 = activate_filled idx1 (fc_written clock) state2 in
            if ok SaveFilled then (task_results nameToID am tasks, disk3\<lparr>pd_State := Some state3\<rparr>)
            else (Inl StateNotSaved, rollbackFullPhaseFill ok (fo_rollback others) (fo_revert others)
                    (fc_undone clock) state3 idx1 tasks nameToID am disk3)))))"

definition submitPhaseFill ::
  "io \<Rightarrow> FillOthers \<Rightarrow> FillClock \<Rightarrow> SubmitOptions \<Rightarrow> string list \<Rightarrow> SubmitInput \<Rightarrow> PlanDisk \<Rightarrow>
   (SubmitError + SubmitTaskResult list) \<times> PlanDisk" where
  "submitPhaseFill ok others clock opts ids input disk =
     (let tasks = si_Tasks input in
      case check_fill opts input disk of
        Inl e \<Rightarrow> (Inl e, disk)
      | Inr (state0, idx) \<Rightarrow>
      if so_DryRun opts then (Inr [], disk)
      else if \<not> ok SaveFilling then (Inl StateNotSaved, disk)
      else let state = start_filling idx (fc_started clock) state0; disk1 = disk\<lparr>pd_State := Some state\<rparr>;
               awaiting = rollbackPhaseFillToAwaiting ok (fc_undone clock) idx state disk1 in
      case resolveAndAssignTasks opts (pd_Queues disk1) tasks ids of
        Inl e \<Rightarrow> (Inl e, awaiting)
      | Inr (nameToID, assignments) \<Rightarrow>
      if exceeds_constraints (Phases state ! idx) tasks then (Inl ConstraintExceeded, awaiting)
      else commit_fill ok others clock opts tasks state idx nameToID assignments disk1)"

section \<open>What a fill adds and takes back\<close>

definition grow_phase :: "nat \<Rightarrow> string list \<Rightarrow> Phase list \<Rightarrow> Phase list" where
  "grow_phase idx ids phases = phases[idx := (phases ! idx)\<lparr>ph_TaskIDs := ph_TaskIDs (phases ! idx) @ ids\<rparr>]"

definition filled :: "nat \<Rightarrow> (string \<Rightarrow> string) \<Rightarrow> stamp \<Rightarrow> TaskInput list \<Rightarrow> CommandState \<Rightarrow> CommandState" where
  "filled idx f now tasks state =
     count_tasks ((registered f now tasks state)\<lparr>Phases := grow_phase idx (map (\<lambda>t. f (ti_Name t)) tasks) (Phases state)\<rparr>)"

lemma grow_grow: "idx < length phases \<Longrightarrow> grow_phase idx js (grow_phase idx is phases) = grow_phase idx (is @ js) phases"
  by (simp add: grow_phase_def)

lemma grow_Nil: "grow_phase idx [] phases = phases"
  by (simp add: grow_phase_def list_update_id)

lemma fill_tasks_run:
  assumes "\<forall>t \<in> set ts. set (ti_BlockedBy t) \<subseteq> fst ` set m" and "distinct (map (\<lambda>t. zget [] m (ti_Name t)) ts)"
    and "untouched ((\<lambda>t. zget [] m (ti_Name t)) ` set ts) state" and "idx < length (Phases state)"
  shows "fill_tasks idx m now ts state = Inr ((registered (zget [] m) now ts state)
    \<lparr>Phases := grow_phase idx (map (\<lambda>t. zget [] m (ti_Name t)) ts) (Phases state)\<rparr>)"
  using assms
proof (induction ts arbitrary: state)
  case Nil
  then show ?case by (simp add: registered_def grow_Nil)
next
  case (Cons t ts)
  let ?f = "zget [] m" and ?g = "change_phase idx (\<lambda>p. p\<lparr>ph_TaskIDs := ph_TaskIDs p @ [zget [] m (ti_Name t)]\<rparr>) state"
  let ?s = "registered ?f now [t] ?g"
  have g: "?g = state\<lparr>Phases := grow_phase idx [?f (ti_Name t)] (Phases state)\<rparr>" by (simp add: change_phase_def grow_phase_def)
  have "untouched {?f (ti_Name t)} ?g" using Cons.prems(3) by (auto simp: untouched_def g)
  then have r: "register_task m now t ?g = Inr ?s" using register_task_run [of t m ?g now] Cons.prems(1) by simp
  have u: "untouched ((\<lambda>t. ?f (ti_Name t)) ` set ts) ?s"
    using Cons.prems(2,3) by (auto simp: untouched_def registered_def g)
  have l: "idx < length (Phases ?s)" using Cons.prems(4) by (simp add: g grow_phase_def)
  have "fill_tasks idx m now ts ?s = Inr ((registered ?f now ts ?s)\<lparr>Phases := grow_phase idx (map (\<lambda>t. ?f (ti_Name t)) ts) (Phases ?s)\<rparr>)"
    using Cons.prems u l by (intro Cons.IH) auto
  also have "(registered ?f now ts ?s)\<lparr>Phases := grow_phase idx (map (\<lambda>t. ?f (ti_Name t)) ts) (Phases ?s)\<rparr>
      = (registered ?f now (t # ts) state)\<lparr>Phases := grow_phase idx (map (\<lambda>t. ?f (ti_Name t)) (t # ts)) (Phases state)\<rparr>"
    using grow_grow [OF Cons.prems(4)] by (simp add: registered_def g)
  finally show ?case using r by simp
qed

lemma apply_run:
  assumes "\<forall>t \<in> set ts. set (ti_BlockedBy t) \<subseteq> fst ` set m" and "distinct (map (\<lambda>t. zget [] m (ti_Name t)) ts)"
    and "untouched ((\<lambda>t. zget [] m (ti_Name t)) ` set ts) state" and "idx < length (Phases state)"
  shows "applyPhaseFillTasks idx m now ts state = Inr (filled idx (zget [] m) now ts state)"
  unfolding applyPhaseFillTasks_def fill_tasks_run [OF assms] by (simp add: filled_def)

lemma unfill_tasks:
  "idx < length (Phases state) \<Longrightarrow> fold (unfill_task idx) ids state =
     state\<lparr>Phases := (Phases state)[idx := (Phases state ! idx)\<lparr>ph_TaskIDs := filter (\<lambda>i. i \<notin> set ids) (ph_TaskIDs (Phases state ! idx))\<rparr>],
       RequiredTaskIDs := filter (\<lambda>i. i \<notin> set ids) (RequiredTaskIDs state),
       OptionalTaskIDs := filter (\<lambda>i. i \<notin> set ids) (OptionalTaskIDs state),
       TaskStates := filter (\<lambda>(i, _). i \<notin> set ids) (TaskStates state),
       TaskStatusChangedAt := filter (\<lambda>(i, _). i \<notin> set ids) (TaskStatusChangedAt state),
       TaskDependencies := filter (\<lambda>(i, _). i \<notin> set ids) (TaskDependencies state)\<rparr>"
proof (induction ids arbitrary: state)
  case Nil
  show ?case by (simp add: case_prod_beta)
next
  case (Cons j ids)
  have "idx < length (Phases (unfill_task idx j state))" using Cons.prems by (simp add: unfill_task_def change_phase_def Let_def)
  from Cons.IH [OF this] have step: "fold (unfill_task idx) (j # ids) state = (unfill_task idx j state)
      \<lparr>Phases := (Phases (unfill_task idx j state))[idx := (Phases (unfill_task idx j state) ! idx)
        \<lparr>ph_TaskIDs := filter (\<lambda>i. i \<notin> set ids) (ph_TaskIDs (Phases (unfill_task idx j state) ! idx))\<rparr>],
       RequiredTaskIDs := filter (\<lambda>i. i \<notin> set ids) (RequiredTaskIDs (unfill_task idx j state)),
       OptionalTaskIDs := filter (\<lambda>i. i \<notin> set ids) (OptionalTaskIDs (unfill_task idx j state)),
       TaskStates := filter (\<lambda>(i, _). i \<notin> set ids) (TaskStates (unfill_task idx j state)),
       TaskStatusChangedAt := filter (\<lambda>(i, _). i \<notin> set ids) (TaskStatusChangedAt (unfill_task idx j state)),
       TaskDependencies := filter (\<lambda>(i, _). i \<notin> set ids) (TaskDependencies (unfill_task idx j state))\<rparr>"
    by simp
  show ?case unfolding step using Cons.prems
    by (simp add: unfill_task_def change_phase_def Let_def removeFromSlice_def AList.delete_eq conj_commute case_prod_beta eq_commute [of j])
qed

lemma rollback_run:
  "idx < length (Phases state) \<Longrightarrow> rollbackPhaseFillState idx tasks m state =
     count_tasks (fold (unfill_task idx) (map (\<lambda>t. zget [] m (ti_Name t)) tasks) state)"
  by (simp add: rollbackPhaseFillState_def fold_map comp_def)

lemma filter_gone: "(\<And>x. x \<in> set xs \<Longrightarrow> \<not> P x) \<Longrightarrow> filter P xs = []"
  by (induction xs) auto

lemma filter_kept: "(\<And>x. x \<in> set xs \<Longrightarrow> P x) \<Longrightarrow> filter P xs = xs"
  by (induction xs) auto

lemma filter_keys_kept: "fst ` set xs \<inter> set ids = {} \<Longrightarrow> filter (\<lambda>(i, _). i \<notin> set ids) xs = xs"
  by (rule filter_kept) auto

lemma unfill_filled:
  assumes idx: "idx < length (Phases state)" and wf: "plan_wf state"
    and fresh: "(\<lambda>t. f (ti_Name t)) ` set tasks \<inter> (known_tasks state \<union> fst ` set (TaskStatusChangedAt state)) = {}"
  shows "count_tasks (fold (unfill_task idx) (map (\<lambda>t. f (ti_Name t)) tasks) (filled idx f now tasks state)) = state"
proof -
  let ?ids = "map (\<lambda>t. f (ti_Name t)) tasks"
  have dep: "fst ` set (TaskDependencies state) \<subseteq> known_tasks state" using wf unfolding plan_wf_def graph_wf_def by fastforce
  have ro: "set (RequiredTaskIDs state) \<union> set (OptionalTaskIDs state) \<subseteq> known_tasks state" using wf unfolding plan_wf_def by auto
  have ph: "set (ph_TaskIDs (Phases state ! idx)) \<subseteq> known_tasks state"
    using wf nth_mem [OF idx] unfolding plan_wf_def by fastforce
  have new: "x \<notin> set ?ids" if "x \<in> known_tasks state \<or> x \<in> fst ` set (TaskStatusChangedAt state)" for x
    using that fresh by auto
  have k1: "filter (\<lambda>i. i \<notin> set ?ids) (RequiredTaskIDs state) = RequiredTaskIDs state"
    "filter (\<lambda>i. i \<notin> set ?ids) (OptionalTaskIDs state) = OptionalTaskIDs state"
    "filter (\<lambda>i. i \<notin> set ?ids) (ph_TaskIDs (Phases state ! idx)) = ph_TaskIDs (Phases state ! idx)"
    by (rule filter_kept, rule new, use ro ph in blast)+
  have disj: "A \<inter> set ?ids = {}" if "A \<subseteq> known_tasks state \<union> fst ` set (TaskStatusChangedAt state)" for A
    using that new by blast
  have k2: "filter (\<lambda>(i, _). i \<notin> set ?ids) (TaskStates state) = TaskStates state"
    "filter (\<lambda>(i, _). i \<notin> set ?ids) (TaskStatusChangedAt state) = TaskStatusChangedAt state"
    "filter (\<lambda>(i, _). i \<notin> set ?ids) (TaskDependencies state) = TaskDependencies state"
    by (rule filter_keys_kept, rule disj, use dep in \<open>unfold known_tasks_def, blast\<close>)+
  have g1: "filter (\<lambda>i. i \<notin> set ?ids) ?ids = []" "filter (\<lambda>i. i \<notin> set ?ids) (map (\<lambda>t. f (ti_Name t)) (filter P tasks)) = []" for P
    by (rule filter_gone, auto)+
  have g2: "filter (\<lambda>(i, _). i \<notin> set ?ids) (map (\<lambda>t. (f (ti_Name t), h t)) (filter P tasks)) = []" for P and h :: "TaskInput \<Rightarrow> 'b"
    by (rule filter_gone) auto
  have g3: "filter (\<lambda>(i, _). i \<notin> set ?ids) (map (\<lambda>t. (f (ti_Name t), h t)) tasks) = []" for h :: "TaskInput \<Rightarrow> 'b"
    by (rule filter_gone) auto
  have c: "ExpectedTaskCount state = int (length (RequiredTaskIDs state)) + int (length (OptionalTaskIDs state))"
    using wf unfolding plan_wf_def by blast
  have l: "idx < length (Phases (filled idx f now tasks state))" using idx by (simp add: filled_def count_tasks_def grow_phase_def)
  show ?thesis
    unfolding unfill_tasks [OF l]
    using idx c by (simp add: filled_def count_tasks_def registered_def grow_phase_def k1 k2 g1 g2 g3 del: set_map)
qed

section \<open>Changing one phase\<close>

lemma change_phase_wf:
  assumes "plan_wf state" and "\<And>p. phase_shape (f p) = phase_shape p \<and> ph_TaskIDs (f p) = ph_TaskIDs p"
  shows "plan_wf ((change_phase idx f state)\<lparr>PlanVersion := v, cs_UpdatedAt := at\<rparr>)"
proof (cases "idx < length (Phases state)")
  case True
  have m: "map phase_shape ((Phases state)[idx := f (Phases state ! idx)]) = map phase_shape (Phases state)"
    "map ph_TaskIDs ((Phases state)[idx := f (Phases state ! idx)]) = map ph_TaskIDs (Phases state)"
    using assms(2) by (simp_all add: map_same_update True)
  show ?thesis by (rule plan_wf_cong [OF _ _ _ _ _ _ _ _ assms(1)]) (simp_all add: change_phase_def m)
next
  case False
  show ?thesis by (rule plan_wf_cong [OF _ _ _ _ _ _ _ _ assms(1)]) (use False in \<open>simp_all add: change_phase_def list_update_beyond\<close>)
qed

section \<open>A fill keeps the plan well formed\<close>

lemma grow_phase_props:
  assumes "idx < length phases"
  shows "map phase_shape (grow_phase idx ids phases) = map phase_shape phases"
    and "mset (concat (map ph_TaskIDs (grow_phase idx ids phases))) = mset (concat (map ph_TaskIDs phases)) + mset ids"
    and "i < length phases \<Longrightarrow> set (ph_TaskIDs (grow_phase idx ids phases ! i))
      = set (ph_TaskIDs (phases ! i)) \<union> (if i = idx then set ids else {})"
    and "length (grow_phase idx ids phases) = length phases"
proof -
  show "map phase_shape (grow_phase idx ids phases) = map phase_shape phases"
    unfolding grow_phase_def by (rule map_same_update [OF assms]) (simp add: phase_shape_def)
  show "mset (concat (map ph_TaskIDs (grow_phase idx ids phases))) = mset (concat (map ph_TaskIDs phases)) + mset ids"
    using assms
  proof (induction phases arbitrary: idx)
    case (Cons p phases)
    show ?case
    proof (cases idx)
      case (Suc k)
      then show ?thesis using Cons.IH [of k] Cons.prems by (simp add: grow_phase_def)
    qed (simp add: grow_phase_def)
  qed simp
qed (auto simp: grow_phase_def nth_list_update)

lemma filled_wf:
  assumes wf: "plan_wf state" and idx: "idx < length (Phases state)" and l: "listed ti_Name ti_BlockedBy tasks names"
    and di: "distinct (map (\<lambda>t. f (ti_Name t)) tasks)"
    and fresh: "(\<lambda>t. f (ti_Name t)) ` set tasks \<inter> known_tasks state = {}"
  shows "plan_wf (filled idx f now tasks state)"
proof -
  let ?r = "registered f now tasks state" and ?ids = "map (\<lambda>t. f (ti_Name t)) tasks"
  define s where "s = filled idx f now tasks state"
  have fields: "TaskStates s = TaskStates ?r" "TaskDependencies s = TaskDependencies ?r" "RequiredTaskIDs s = RequiredTaskIDs ?r"
    "OptionalTaskIDs s = OptionalTaskIDs ?r" "SystemCommitTaskID s = SystemCommitTaskID state" "Phases s = grow_phase idx ?ids (Phases state)"
    "ExpectedTaskCount s = int (length (RequiredTaskIDs s)) + int (length (OptionalTaskIDs s))"
    by (simp_all add: s_def filled_def count_tasks_def)
  have gw0: "graph_wf state" and mut0: "ValidateTaskDAGAfterMutation state = Inr ()"
    and pd: "distinct (concat (map ph_TaskIDs (Phases state)))" and ps: "set (concat (map ph_TaskIDs (Phases state))) \<subseteq> known_tasks state"
    and ro: "distinct (RequiredTaskIDs state @ OptionalTaskIDs state)" "set (RequiredTaskIDs state @ OptionalTaskIDs state) \<subseteq> known_tasks state"
    and sys: "\<forall>c. SystemCommitTaskID state = Some c \<longrightarrow> c \<in> set (RequiredTaskIDs state)"
    using wf unfolding plan_wf_def by blast+
  obtain order where o: "task_order state order" using mutation_okD(1) [OF mut0 gw0] by blast
  have dn: "distinct (map ti_Name tasks)" using di distinct_map [of f "map ti_Name tasks"] by (simp add: comp_def)
  have refs: "\<forall>t \<in> set tasks. set (ti_BlockedBy t) \<subseteq> ti_Name ` set tasks" using listed_refs [OF dn l] by blast
  have gr: "graph_wf ?r" by (rule registered_graph_wf [OF gw0 di fresh refs])
  have gw: "graph_wf s" using gr graph_wf_cong [OF fields(1,2)] by simp
  have kn: "known_tasks s = known_tasks state \<union> set ?ids" using known_tasks_cong [OF fields(1)] by simp
  note gp = grow_phase_props [OF idx, where ids = ?ids]
  have gd: "distinct (concat (map ph_TaskIDs (Phases s)))"
  proof -
    have "distinct (concat (map ph_TaskIDs (Phases state)) @ ?ids)"
      using pd di ps fresh unfolding distinct_append set_map by blast
    moreover have "mset (concat (map ph_TaskIDs (Phases s))) = mset (concat (map ph_TaskIDs (Phases state)) @ ?ids)"
      unfolding fields(6) gp(2) by simp
    ultimately show ?thesis using mset_eq_imp_distinct_iff by blast
  qed
  have gs: "set (concat (map ph_TaskIDs (Phases s))) \<subseteq> known_tasks s"
  proof -
    have "set (concat (map ph_TaskIDs (Phases s))) = set (concat (map ph_TaskIDs (Phases state))) \<union> set ?ids"
      using arg_cong [OF gp(2), of set_mset] unfolding fields(6) by simp
    then show ?thesis using ps kn by blast
  qed
  have dep: "fst ` set (TaskDependencies state) \<subseteq> known_tasks state" using gw0 unfolding graph_wf_def by fastforce
  have place: "i < length (Phases state) \<and> x \<in> set (ph_TaskIDs (Phases state ! i)) \<union> (if i = idx then set ?ids else {})"
    if "map_of (task_phase (Phases s)) x = Some i" for x i
    using task_phase_in [OF that] gp(3) [where i = i] gp(4) unfolding fields(6) by auto
  have cross: "validateCrossPhaseRefs s = Inr ()"
  proof (rule cross_ok_shape [OF mutation_okD(2) [OF mut0 gw0]])
    show "map phase_shape (Phases s) = map phase_shape (Phases state)" unfolding fields(6) by (rule gp(1))
    fix t ds d i j assume e: "(t, ds) \<in> set (TaskDependencies s)" "d \<in> set ds"
      and i: "map_of (task_phase (Phases s)) t = Some i" and j: "map_of (task_phase (Phases s)) d = Some j" and ne: "i \<noteq> j"
    consider (old) "(t, ds) \<in> set (TaskDependencies state)"
      | (new) u where "u \<in> set tasks" "t = f (ti_Name u)" "ds = map f (ti_BlockedBy u)"
      using e(1) unfolding fields(2) by (auto simp: registered_def)
    then show "(t, ds) \<in> set (TaskDependencies state) \<and> map_of (task_phase (Phases state)) t = Some i
        \<and> map_of (task_phase (Phases state)) d = Some j"
    proof cases
      case old
      have k: "t \<in> known_tasks state" "d \<in> known_tasks state" using old gw0 e(2) unfolding graph_wf_def by blast+
      have n: "t \<notin> set ?ids" "d \<notin> set ?ids" using k fresh by auto
      have "i < length (Phases state) \<and> t \<in> set (ph_TaskIDs (Phases state ! i))"
        "j < length (Phases state) \<and> d \<in> set (ph_TaskIDs (Phases state ! j))"
        using place [OF i] place [OF j] n by (auto split: if_splits)
      then show ?thesis using old unfolding task_phase_iff [OF pd] by blast
    next
      case new
      have "d \<in> f ` (ti_Name ` set tasks)" using new(3) e(2) bspec [OF refs new(1)] unfolding new(3) set_map by blast
      then have n: "t \<in> set ?ids" "d \<in> set ?ids" using new(1,2) by auto
      have "x \<notin> set (ph_TaskIDs (Phases state ! k))" if "x \<in> set ?ids" "k < length (Phases state)" for x k
        using that ps fresh nth_mem [OF that(2)] by fastforce
      then have "i = idx" "j = idx" using place [OF i] place [OF j] n by (auto split: if_splits)
      then show ?thesis using ne by simp
    qed
  qed
  have ok: "ValidateTaskDAGAfterMutation s = Inr ()"
  proof (rule mutation_ok [OF gw _ cross])
    show "task_order s (order @ map f names)"
      using registered_order [OF gw0 o l di fresh] task_order_cong [OF fields(1,2)] by simp
  qed
  have dr: "distinct (RequiredTaskIDs s @ OptionalTaskIDs s)"
  proof -
    have "distinct (map (\<lambda>t. f (ti_Name t)) (filter ti_Required tasks) @ map (\<lambda>t. f (ti_Name t)) (filter (\<lambda>t. \<not> ti_Required t) tasks))"
      by (rule distinct_partition [OF di])
    moreover have "set (RequiredTaskIDs state @ OptionalTaskIDs state) \<inter> set ?ids = {}" using ro(2) fresh by auto
    ultimately show ?thesis using ro(1) unfolding fields(3,4) by (auto simp: registered_def)
  qed
  have sr: "set (RequiredTaskIDs s @ OptionalTaskIDs s) \<subseteq> known_tasks s"
    using ro(2) unfolding kn fields(3,4) by (auto simp: registered_def)
  have sy: "\<forall>c. SystemCommitTaskID s = Some c \<longrightarrow> c \<in> set (RequiredTaskIDs s)"
    using sys unfolding fields(3,5) by (simp add: registered_def)
  have "plan_wf s" unfolding plan_wf_def using dr sr fields(7) gw gd gs sy ok by blast
  then show ?thesis by (simp add: s_def)
qed

section \<open>Outcomes\<close>

definition new_ids :: "string set \<Rightarrow> CommandState \<Rightarrow> bool" where
  "new_ids ids state = (ids \<inter> (known_tasks state \<union> fst ` set (TaskStatusChangedAt state)) = {})"

lemma new_ids_untouched: "new_ids ids state \<Longrightarrow> graph_wf state \<Longrightarrow> untouched ids state"
proof -
  assume n: "new_ids ids state" and w: "graph_wf state"
  have "fst ` set (TaskDependencies state) \<subseteq> known_tasks state" using w unfolding graph_wf_def by fastforce
  then show "untouched ids state" using n unfolding new_ids_def untouched_def known_tasks_def by blast
qed

text \<open>Ids and workers for a task set that passed the checks.\<close>

lemma fill_assigned:
  assumes "task_set_ok tasks" and "resolveAndAssignTasks opts queues tasks ids = Inr (m, as)" and "distinct ids"
  obtains names where "map wa_TaskName as = map ti_Name tasks" and "distinct (map ti_Name tasks)"
    and "listed ti_Name ti_BlockedBy tasks names" and "fst ` set m = ti_Name ` set tasks"
    and "distinct (map (\<lambda>t. zget [] m (ti_Name t)) tasks)" and "(\<lambda>t. zget [] m (ti_Name t)) ` set tasks \<subseteq> set ids"
    and "\<forall>t \<in> set tasks. set (ti_BlockedBy t) \<subseteq> fst ` set m"
proof -
  have d: "distinct (map ti_Name tasks)" using assms(1) unfolding task_set_ok_def by blast
  obtain names where l: "listed ti_Name ti_BlockedBy tasks names" using assms(1) unfolding task_set_ok_def by blast
  obtain rest states where r: "resolveNames tasks ids [] = Inr (m, rest)" "assign_for opts states (map assign_request tasks) = Inr as"
    using assms(2) by (auto simp: resolveAndAssignTasks_def split: sum.splits option.splits)
  note n = resolveNames_Inr [OF r(1) d]
  have k: "fst ` set m = ti_Name ` set tasks" using n by simp
  have i: "map (\<lambda>t. zget [] m (ti_Name t)) tasks @ rest = ids" using n by blast
  show thesis
  proof (rule that)
    show "map wa_TaskName as = map ti_Name tasks" using assign_for_names [OF r(2)] by (simp add: assign_request_def comp_def)
    show "distinct (map (\<lambda>t. zget [] m (ti_Name t)) tasks)" using i assms(3) by (metis distinct_append)
    show "(\<lambda>t. zget [] m (ti_Name t)) ` set tasks \<subseteq> set ids" using i by (metis Un_upper1 image_set set_append)
    show "\<forall>t \<in> set tasks. set (ti_BlockedBy t) \<subseteq> fst ` set m" using listed_refs [OF d l] k by auto
  qed (fact d l k)+
qed

lemma check_fill_ok:
  assumes "check_fill opts input disk = Inr (state, idx)"
  shows "pd_State disk = Some state" and "cs_PlanStatus state = PlanStatusSealed" and "idx < length (Phases state)"
    and "find_index (\<lambda>p. ph_Name p = so_PhaseName opts) (Phases state) = Some idx"
    and "ph_Status (Phases state ! idx) = PhaseStatusAwaitingFill" and "task_set_ok (si_Tasks input)"
proof -
  have p: "si_Phases input = []" using assms by (simp add: check_fill_def split: if_split_asm)
  obtain s where s: "pd_State disk = Some s" using assms p by (cases "pd_State disk") (simp_all add: check_fill_def)
  have q: "cs_PlanStatus s = PlanStatusSealed" using assms p s by (simp add: check_fill_def split: if_split_asm)
  obtain u where u: "ValidateNotCancelled s = Inr u"
    using assms p s q by (cases "ValidateNotCancelled s") (simp_all add: check_fill_def)
  obtain i where i: "find_index (\<lambda>p. ph_Name p = so_PhaseName opts) (Phases s) = Some i"
    using assms p s q u by (cases "find_index (\<lambda>p. ph_Name p = so_PhaseName opts) (Phases s)") (simp_all add: check_fill_def)
  have e: "s = state" "i = idx" "ph_Status (Phases s ! i) = PhaseStatusAwaitingFill"
    "ValidatePhaseFillInput (si_Tasks input) (Phases s ! i) = []"
    using assms p s q u i by (simp_all add: check_fill_def Let_def split: if_split_asm)
  have t: "task_set_ok (si_Tasks input)" using e(4) unfolding fill_input_Nil by blast
  show "pd_State disk = Some state" "cs_PlanStatus state = PlanStatusSealed" "idx < length (Phases state)"
    "find_index (\<lambda>p. ph_Name p = so_PhaseName opts) (Phases state) = Some idx"
    "ph_Status (Phases state ! idx) = PhaseStatusAwaitingFill" "task_set_ok (si_Tasks input)"
    using s q i e t find_index_Some [OF i] by simp_all
qed

lemma reload_ok:
  assumes "reloadPhaseFillState name epoch disk = Inr (state, idx)"
  shows "pd_State disk = Some state" and "idx < length (Phases state)" and "ph_Name (Phases state ! idx) = name"
    and "ph_Status (Phases state ! idx) = PhaseStatusFilling" and "ph_FillingStartedAt (Phases state ! idx) = Some epoch"
  using assms find_index_Some
  by (auto simp: reloadPhaseFillState_def Let_def split: if_splits option.splits)

text \<open>What a fill that took effect made of the state it reloaded.\<close>

definition fill_done :: "string \<Rightarrow> stamp \<Rightarrow> TaskInput list \<Rightarrow> string set \<Rightarrow> CommandState \<Rightarrow> CommandState \<Rightarrow> bool" where
  "fill_done name at tasks ids before after =
     (\<exists>idx new. idx < length (Phases before) \<and> ph_Name (Phases before ! idx) = name
        \<and> ph_Status (Phases before ! idx) = PhaseStatusFilling
        \<and> length new = length tasks \<and> distinct new \<and> set new \<subseteq> ids
        \<and> Phases after = (Phases before)[idx := (Phases before ! idx)
            \<lparr>ph_TaskIDs := ph_TaskIDs (Phases before ! idx) @ new, ph_Status := PhaseStatusActive, ph_ActivatedAt := Some at\<rparr>]
        \<and> TaskStates after = TaskStates before @ map (\<lambda>i. (i, StatusPlanned)) new
        \<and> PlanVersion after = PlanVersion before + 1)"

lemma activated_done:
  assumes "idx < length (Phases s)" and "ph_Name (Phases s ! idx) = name" and "ph_Status (Phases s ! idx) = PhaseStatusFilling"
    and "distinct (map (\<lambda>t. f (ti_Name t)) tasks)" and "(\<lambda>t. f (ti_Name t)) ` set tasks \<subseteq> ids"
  shows "fill_done name at tasks ids s (activate_filled idx at (filled idx f now tasks s))"
  unfolding fill_done_def
proof (intro exI conjI)
  show "idx < length (Phases s)" by (rule assms)
  show "length (map (\<lambda>t. f (ti_Name t)) tasks) = length tasks" by simp
  show "Phases (activate_filled idx at (filled idx f now tasks s)) = (Phases s)[idx := (Phases s ! idx)
      \<lparr>ph_TaskIDs := ph_TaskIDs (Phases s ! idx) @ map (\<lambda>t. f (ti_Name t)) tasks, ph_Status := PhaseStatusActive, ph_ActivatedAt := Some at\<rparr>]"
    using assms(1) by (simp add: activate_filled_def change_phase_def filled_def count_tasks_def grow_phase_def)
  show "TaskStates (activate_filled idx at (filled idx f now tasks s))
      = TaskStates s @ map (\<lambda>i. (i, StatusPlanned)) (map (\<lambda>t. f (ti_Name t)) tasks)"
    by (simp add: activate_filled_def change_phase_def filled_def count_tasks_def registered_def comp_def)
  show "PlanVersion (activate_filled idx at (filled idx f now tasks s)) = PlanVersion s + 1"
    by (simp add: activate_filled_def change_phase_def filled_def count_tasks_def registered_def)
qed (use assms in simp_all)

text \<open>The stages of a run that got past its checks.\<close>

lemma fill_stages:
  assumes run: "submitPhaseFill ok others clock opts ids input disk = (r, disk')" and "\<not> so_DryRun opts"
  obtains (refused) e where "r = Inl e" "disk' = disk"
  | (unassigned) state0 idx e where "check_fill opts input disk = Inr (state0, idx)" "r = Inl e"
      "disk' = rollbackPhaseFillToAwaiting ok (fc_undone clock) idx (start_filling idx (fc_started clock) state0)
         (disk\<lparr>pd_State := Some (start_filling idx (fc_started clock) state0)\<rparr>)"
  | (assigned) state0 idx m as where "check_fill opts input disk = Inr (state0, idx)"
      "resolveAndAssignTasks opts (pd_Queues disk) (si_Tasks input) ids = Inr (m, as)"
      "commit_fill ok others clock opts (si_Tasks input) (start_filling idx (fc_started clock) state0) idx m as
         (disk\<lparr>pd_State := Some (start_filling idx (fc_started clock) state0)\<rparr>) = (r, disk')"
proof (cases "check_fill opts input disk")
  case (Inl e)
  then have "r = Inl e" "disk' = disk" using run by (simp_all add: submitPhaseFill_def)
  then show thesis by (rule refused)
next
  case (Inr si)
  obtain state0 idx where c: "check_fill opts input disk = Inr (state0, idx)" using Inr by (cases si) auto
  show thesis
  proof (cases "ok SaveFilling")
    case False
    then have "r = Inl StateNotSaved" "disk' = disk" using run c assms(2) by (simp_all add: submitPhaseFill_def)
    then show thesis by (rule refused)
  next
    case True
    show thesis
    proof (cases "resolveAndAssignTasks opts (pd_Queues disk) (si_Tasks input) ids")
      case (Inl e)
      then have "r = Inl e" using run assms(2) True by (simp add: submitPhaseFill_def Let_def c)
      then show thesis using Inl run assms(2) True by (intro unassigned [OF c]) (simp_all add: submitPhaseFill_def Let_def c)
    next
      case (Inr ma)
      obtain m as where a: "resolveAndAssignTasks opts (pd_Queues disk) (si_Tasks input) ids = Inr (m, as)" using Inr by (cases ma) auto
      show thesis
      proof (cases "exceeds_constraints (Phases (start_filling idx (fc_started clock) state0) ! idx) (si_Tasks input)")
        case True': True
        then have "r = Inl ConstraintExceeded" using run assms(2) True by (simp add: submitPhaseFill_def Let_def c a)
        then show thesis using True' run assms(2) True by (intro unassigned [OF c]) (simp_all add: submitPhaseFill_def Let_def c a)
      next
        case False
        show thesis
          by (rule assigned [OF c a]) (use run c a assms(2) True False in \<open>simp add: submitPhaseFill_def Let_def\<close>)
      qed
    qed
  qed
qed

lemma commit_fill_stages:
  assumes "commit_fill ok others clock opts tasks state idx m as disk1 = (r, disk')"
    and "writeQueueEntriesLocked ok as tasks m (so_CommandID opts) (fc_written clock) (pd_Queues (fo_before others disk1)) = (okW, qs)"
    and "disk3 = fo_after others ((fo_before others disk1)\<lparr>pd_Queues := qs\<rparr>)"
  obtains (unwritten) "\<not> okW" "r = Inl QueueNotWritten"
      "disk' = rollbackFullPhaseFill ok (\<lambda>d. fo_rollback others (fo_after others d)) (fo_revert others)
         (fc_undone clock) state idx tasks m (assign_map as) ((fo_before others disk1)\<lparr>pd_Queues := qs\<rparr>)"
  | (overtaken) e where "okW" "reloadPhaseFillState (so_PhaseName opts) (fc_started clock) disk3 = Inl e" "r = Inl e"
      "disk' = undo_queues ok others tasks m (assign_map as) disk3"
  | (unapplied) s i e where "okW" "reloadPhaseFillState (so_PhaseName opts) (fc_started clock) disk3 = Inr (s, i)"
      "applyPhaseFillTasks i m (fc_applied clock) tasks s = Inl e" "r = Inl e"
      "disk' = undo_queues ok others tasks m (assign_map as) disk3"
  | (unsaved) s i s' where "okW" "reloadPhaseFillState (so_PhaseName opts) (fc_started clock) disk3 = Inr (s, i)"
      "applyPhaseFillTasks i m (fc_applied clock) tasks s = Inr s'" "r = Inl StateNotSaved"
      "disk' = rollbackFullPhaseFill ok (fo_rollback others) (fo_revert others) (fc_undone clock)
         (activate_filled i (fc_written clock) s') i tasks m (assign_map as) disk3"
  | (saved) s i s' where "okW" "reloadPhaseFillState (so_PhaseName opts) (fc_started clock) disk3 = Inr (s, i)"
      "applyPhaseFillTasks i m (fc_applied clock) tasks s = Inr s'" "r = task_results m (assign_map as) tasks"
      "disk' = disk3\<lparr>pd_State := Some (activate_filled i (fc_written clock) s')\<rparr>"
proof (cases okW)
  case False
  then show thesis using assms(1,2) by (intro unwritten) (simp_all add: commit_fill_def Let_def)
next
  case True
  have run: "(case reloadPhaseFillState (so_PhaseName opts) (fc_started clock) disk3 of
        Inl e \<Rightarrow> (Inl e, undo_queues ok others tasks m (assign_map as) disk3)
      | Inr (state1, idx1) \<Rightarrow>
      (case applyPhaseFillTasks idx1 m (fc_applied clock) tasks state1 of
         Inl e \<Rightarrow> (Inl e, undo_queues ok others tasks m (assign_map as) disk3)
       | Inr state2 \<Rightarrow>
           if ok SaveFilled then (task_results m (assign_map as) tasks, disk3\<lparr>pd_State := Some (activate_filled idx1 (fc_written clock) state2)\<rparr>)
            else (Inl StateNotSaved, rollbackFullPhaseFill ok (fo_rollback others) (fo_revert others)
                    (fc_undone clock) (activate_filled idx1 (fc_written clock) state2) idx1 tasks m (assign_map as) disk3))) = (r, disk')"
    using assms(1,2) True unfolding commit_fill_def Let_def assms(3) by simp
  show thesis
  proof (cases "reloadPhaseFillState (so_PhaseName opts) (fc_started clock) disk3")
    case (Inl e)
    have "r = Inl e" "disk' = undo_queues ok others tasks m (assign_map as) disk3" using run Inl by simp_all
    then show thesis by (rule overtaken [OF True Inl])
  next
    case (Inr si)
    obtain s i where rl: "reloadPhaseFillState (so_PhaseName opts) (fc_started clock) disk3 = Inr (s, i)" using Inr by (cases si) auto
    show thesis
    proof (cases "applyPhaseFillTasks i m (fc_applied clock) tasks s")
      case (Inl e)
      have "r = Inl e" "disk' = undo_queues ok others tasks m (assign_map as) disk3" using run Inl rl by simp_all
      then show thesis by (rule unapplied [OF True rl Inl])
    next
      case (Inr s')
      show thesis
      proof (cases "ok SaveFilled")
        case sf: True
        show thesis by (rule saved [OF True rl Inr]) (use run rl Inr sf in simp_all)
      next
        case False
        show thesis by (rule unsaved [OF True rl Inr]) (use run rl Inr False in simp_all)
      qed
    qed
  qed
qed

lemma start_filling_wf: "plan_wf state \<Longrightarrow> plan_wf (start_filling idx now state)"
proof -
  assume wf: "plan_wf state"
  let ?f = "\<lambda>p. p\<lparr>ph_Status := PhaseStatusFilling, ph_FillingStartedAt := Some now,
        ph_AwaitingFillSince := None, ph_AwaitingFillStallNotifiedAt := None\<rparr>"
  have "plan_wf ((change_phase idx ?f state)\<lparr>PlanVersion := PlanVersion (change_phase idx ?f state), cs_UpdatedAt := now\<rparr>)"
    by (rule change_phase_wf [OF wf]) (simp add: phase_shape_def)
  then show ?thesis by (simp add: start_filling_def)
qed

text \<open>A disk on which a fill that draws these ids may work.\<close>

definition plan_ready :: "string set \<Rightarrow> PlanDisk \<Rightarrow> bool" where
  "plan_ready ids disk = (\<forall>s. pd_State disk = Some s \<longrightarrow> plan_wf s \<and> new_ids ids s)"

lemma fill_success:
  assumes run: "submitPhaseFill ok others clock opts ids input disk = (Inr rs, disk')" and dry: "\<not> so_DryRun opts" and ids: "distinct ids"
    and ready: "plan_ready (set ids) disk"
    and others: "\<forall>d. plan_ready (set ids) d \<longrightarrow> plan_ready (set ids) (fo_before others d) \<and> plan_ready (set ids) (fo_after others d)"
  shows "\<exists>d s s'. pd_State (fo_after others d) = Some s \<and> pd_State disk' = Some s' \<and> plan_wf s'
    \<and> fill_done (so_PhaseName opts) (fc_written clock) (si_Tasks input) (set ids) s s'"
  using run dry
proof (cases rule: fill_stages)
  case (assigned state0 idx m as)
  let ?tasks = "si_Tasks input" and ?f = "zget [] m"
  have ts: "task_set_ok ?tasks" using check_fill_ok(6) [OF assigned(1)] .
  obtain names where A: "distinct (map ti_Name ?tasks)" "listed ti_Name ti_BlockedBy ?tasks names"
    "distinct (map (\<lambda>t. ?f (ti_Name t)) ?tasks)" "(\<lambda>t. ?f (ti_Name t)) ` set ?tasks \<subseteq> set ids"
    "\<forall>t \<in> set ?tasks. set (ti_BlockedBy t) \<subseteq> fst ` set m"
    by (rule fill_assigned [OF ts assigned(2) ids]) blast
  let ?d1 = "disk\<lparr>pd_State := Some (start_filling idx (fc_started clock) state0)\<rparr>"
  obtain okW qs where w: "writeQueueEntriesLocked ok as ?tasks m (so_CommandID opts) (fc_written clock) (pd_Queues (fo_before others ?d1)) = (okW, qs)"
    by fastforce
  from assigned(3) w refl show ?thesis
  proof (cases rule: commit_fill_stages)
    case (saved s i s')
    note rl = reload_ok [OF saved(2)]
    have "plan_ready (set ids) ?d1"
      using ready check_fill_ok(1) [OF assigned(1)] start_filling_wf unfolding plan_ready_def
      by (auto simp: new_ids_def known_tasks_def start_filling_def change_phase_def)
    then have "plan_ready (set ids) (fo_before others ?d1)" using others by blast
    then have "plan_ready (set ids) ((fo_before others ?d1)\<lparr>pd_Queues := qs\<rparr>)" by (simp add: plan_ready_def)
    then have "plan_ready (set ids) (fo_after others ((fo_before others ?d1)\<lparr>pd_Queues := qs\<rparr>))" using others by blast
    then have wf: "plan_wf s" and new: "new_ids (set ids) s" using rl(1) unfolding plan_ready_def by blast+
    have gw: "graph_wf s" using wf unfolding plan_wf_def by blast
    have fresh: "(\<lambda>t. ?f (ti_Name t)) ` set ?tasks \<inter> known_tasks s = {}" using new A(4) unfolding new_ids_def by blast
    have ap: "s' = filled i ?f (fc_applied clock) ?tasks s"
      using apply_run [OF A(5,3) untouched_mono [OF new_ids_untouched [OF new gw] A(4)] rl(2)] saved(3) by simp
    have "plan_wf s'" unfolding ap by (rule filled_wf [OF wf rl(2) A(2,3) fresh])
    then have "plan_wf (activate_filled i (fc_written clock) s')"
      unfolding activate_filled_def by (rule change_phase_wf) (simp_all add: phase_shape_def)
    moreover have "fill_done (so_PhaseName opts) (fc_written clock) ?tasks (set ids) s (activate_filled i (fc_written clock) s')"
      unfolding ap by (rule activated_done [OF rl(2-4) A(3,4)])
    ultimately show ?thesis using rl(1) saved(5) by (intro exI conjI) simp_all
  qed simp_all
qed simp_all

section \<open>A failed fill\<close>

lemma unfill_nothing:
  assumes idx: "idx < length (Phases state)" and wf: "plan_wf state" and fresh: "new_ids (set ids) state"
  shows "count_tasks (fold (unfill_task idx) ids state) = state"
proof -
  have dep: "fst ` set (TaskDependencies state) \<subseteq> known_tasks state" using wf unfolding plan_wf_def graph_wf_def by fastforce
  have ro: "set (RequiredTaskIDs state) \<union> set (OptionalTaskIDs state) \<subseteq> known_tasks state" using wf unfolding plan_wf_def by auto
  have ph: "set (ph_TaskIDs (Phases state ! idx)) \<subseteq> known_tasks state"
    using wf nth_mem [OF idx] unfolding plan_wf_def by fastforce
  have new: "x \<notin> set ids" if "x \<in> known_tasks state \<or> x \<in> fst ` set (TaskStatusChangedAt state)" for x
    using that fresh unfolding new_ids_def by auto
  have k1: "filter (\<lambda>i. i \<notin> set ids) (RequiredTaskIDs state) = RequiredTaskIDs state"
    "filter (\<lambda>i. i \<notin> set ids) (OptionalTaskIDs state) = OptionalTaskIDs state"
    "filter (\<lambda>i. i \<notin> set ids) (ph_TaskIDs (Phases state ! idx)) = ph_TaskIDs (Phases state ! idx)"
    by (rule filter_kept, rule new, use ro ph in blast)+
  have disj: "A \<inter> set ids = {}" if "A \<subseteq> known_tasks state \<union> fst ` set (TaskStatusChangedAt state)" for A
    using that new by blast
  have k2: "filter (\<lambda>(i, _). i \<notin> set ids) (TaskStates state) = TaskStates state"
    "filter (\<lambda>(i, _). i \<notin> set ids) (TaskStatusChangedAt state) = TaskStatusChangedAt state"
    "filter (\<lambda>(i, _). i \<notin> set ids) (TaskDependencies state) = TaskDependencies state"
    by (rule filter_keys_kept, rule disj, use dep in \<open>unfold known_tasks_def, blast\<close>)+
  have c: "ExpectedTaskCount state = int (length (RequiredTaskIDs state)) + int (length (OptionalTaskIDs state))"
    using wf unfolding plan_wf_def by blast
  show ?thesis unfolding unfill_tasks [OF idx] using c by (simp add: count_tasks_def k1 k2)
qed

definition alone :: FillOthers where
  "alone = \<lparr>fo_before = id, fo_after = id, fo_rollback = id, fo_revert = id\<rparr>"

definition awaiting_again :: "nat \<Rightarrow> FillClock \<Rightarrow> CommandState \<Rightarrow> CommandState" where
  "awaiting_again idx clock state =
     (change_phase idx (back_to_awaiting (fc_undone clock)) (start_filling idx (fc_started clock) state))
       \<lparr>cs_UpdatedAt := fc_undone clock\<rparr>"

lemma find_index_distinct:
  "distinct (map g xs) \<Longrightarrow> i < length xs \<Longrightarrow> find_index (\<lambda>x. g x = g (xs ! i)) xs = Some i"
proof (induction xs arbitrary: i)
  case (Cons x xs)
  show ?case
  proof (cases i)
    case (Suc k)
    then have "xs ! k \<in> set xs" using Cons.prems by simp
    then have "g x \<noteq> g (xs ! k)" using Cons.prems(1) by (metis distinct.simps(2) imageI list.simps(9) set_map)
    then show ?thesis using Cons Suc by simp
  qed simp
qed simp

lemma find_index_same_names:
  assumes "find_index (\<lambda>p. g p = x) ps = Some i" and "map g ps' = map g ps"
  shows "find_index (\<lambda>p. g p = x) ps' = Some i"
proof -
  have e: "find_index (\<lambda>p. g p = x) qs = find_index (\<lambda>y. y = x) (map g qs)" for qs
    by (induction qs) simp_all
  show ?thesis using assms(1) unfolding e assms(2) .
qed

text \<open>The full rollback of a fill whose state is still on disk as it was saved when the filling started.\<close>

lemma full_rollback_alone:
  assumes idx: "idx < length (Phases state0)" and wf: "plan_wf state0" and new: "new_ids (set ids) state0"
    and pids: "distinct (map ph_PhaseID (Phases state0))" and sub: "(\<lambda>t. zget [] m (ti_Name t)) ` set tasks \<subseteq> set ids"
    and ok: "ok SaveRolledBack" and disk: "pd_State disk = Some (start_filling idx (fc_started clock) state0)"
    and ph: "idx < length (Phases s) \<and> ph_PhaseID (Phases s ! idx) = ph_PhaseID (Phases state0 ! idx)"
  shows "rollbackFullPhaseFill ok id id (fc_undone clock) s idx tasks m am disk
    = \<lparr>pd_State = Some (awaiting_again idx clock state0), pd_Queues = rollbackQueueEntriesLocked ok tasks m am (pd_Queues disk)\<rparr>"
proof -
  let ?s = "start_filling idx (fc_started clock) state0"
  let ?a = "change_phase idx (back_to_awaiting (fc_undone clock)) ?s"
  have st: "Phases ?s ! idx = (Phases state0 ! idx)\<lparr>ph_Status := PhaseStatusFilling, ph_FillingStartedAt := Some (fc_started clock),
        ph_AwaitingFillSince := None, ph_AwaitingFillStallNotifiedAt := None\<rparr>" "length (Phases ?s) = length (Phases state0)"
    using idx by (simp_all add: start_filling_def change_phase_def)
  have "map ph_PhaseID (Phases ?s) = map ph_PhaseID (Phases state0)"
    using idx unfolding start_filling_def change_phase_def by (simp add: map_same_update)
  then have f: "find_index (\<lambda>p. ph_PhaseID p = ph_PhaseID (Phases s ! idx)) (Phases ?s) = Some idx"
    using find_index_distinct [of ph_PhaseID "Phases ?s" idx] pids idx st ph by simp
  have wfs: "plan_wf ?s" by (rule start_filling_wf [OF wf])
  have wfa: "plan_wf ?a"
    using change_phase_wf [OF wfs, where f = "back_to_awaiting (fc_undone clock)" and idx = idx and v = "PlanVersion ?a" and at = "cs_UpdatedAt ?a"]
    by (simp add: phase_shape_def back_to_awaiting_def)
  have na: "new_ids (set (map (\<lambda>t. zget [] m (ti_Name t)) tasks)) ?a"
    using new sub by (auto simp: new_ids_def known_tasks_def change_phase_def start_filling_def)
  have la: "idx < length (Phases ?a)" using idx by (simp add: change_phase_def start_filling_def)
  have r: "rollbackPhaseFillState idx tasks m ?a = ?a"
    unfolding rollback_run [OF la] by (rule unfill_nothing [OF la wfa na])
  show ?thesis
    using ok disk f r st by (cases disk) (simp add: rollbackFullPhaseFill_def Let_def awaiting_again_def)
qed

lemma fill_failure:
  assumes run: "submitPhaseFill ok alone clock opts ids input disk = (Inl e, disk')" and dry: "\<not> so_DryRun opts" and ids: "distinct ids"
    and plan: "\<forall>s. pd_State disk = Some s \<longrightarrow> plan_wf s \<and> new_ids (set ids) s \<and> distinct (map ph_PhaseID (Phases s))"
    and fresh: "fresh_ids (set ids) (pd_Queues disk)" and ok: "\<forall>w. ok (RollbackQueue w)" "ok SaveRolledBack"
  shows "(\<forall>w. rows_of (pd_Queues disk') w = rows_of (pd_Queues disk) w)
    \<and> (pd_State disk' = pd_State disk
       \<or> (\<exists>state idx. check_fill opts input disk = Inr (state, idx) \<and> pd_State disk' = Some (awaiting_again idx clock state)))"
  using run dry
proof (cases rule: fill_stages)
  case refused
  then show ?thesis by simp
next
  case (unassigned state0 idx e')
  then show ?thesis using ok by (simp add: rollbackPhaseFillToAwaiting_def awaiting_again_def)
next
  case (assigned state0 idx m as)
  let ?tasks = "si_Tasks input" and ?f = "zget [] m" and ?s = "start_filling idx (fc_started clock) state0"
  note cf = check_fill_ok [OF assigned(1)]
  have wf: "plan_wf state0" "new_ids (set ids) state0" "distinct (map ph_PhaseID (Phases state0))" using plan cf(1) by blast+
  obtain names where A: "map wa_TaskName as = map ti_Name ?tasks" "distinct (map ti_Name ?tasks)"
    "distinct (map (\<lambda>t. ?f (ti_Name t)) ?tasks)" "(\<lambda>t. ?f (ti_Name t)) ` set ?tasks \<subseteq> set ids"
    "\<forall>t \<in> set ?tasks. set (ti_BlockedBy t) \<subseteq> fst ` set m"
    by (rule fill_assigned [OF cf(6) assigned(2) ids]) blast
  have al: "fo_before alone = id" "fo_after alone = id" "fo_rollback alone = id" "fo_revert alone = id" by (simp_all add: alone_def)
  obtain okW qs where w: "writeQueueEntriesLocked ok as ?tasks m (so_CommandID opts) (fc_written clock) (pd_Queues disk) = (okW, qs)"
    "\<forall>w. rows_of qs w \<in> {rows_of (pd_Queues disk) w, rows_of (pd_Queues disk) w @ rows_for (so_CommandID opts) (fc_written clock) ?f ?tasks as w}"
    "\<forall>w. w \<notin> wa_WorkerID ` set as \<longrightarrow> rows_of qs w = rows_of (pd_Queues disk) w"
    by (rule write_entries_run [OF A(1,2,5), where ok = ok and c = "so_CommandID opts" and now = "fc_written clock" and queues = "pd_Queues disk"])
  have w1: "writeQueueEntriesLocked ok as ?tasks m (so_CommandID opts) (fc_written clock)
      (pd_Queues (fo_before alone (disk\<lparr>pd_State := Some ?s\<rparr>))) = (okW, qs)" using w(1) by (simp add: al)
  have undone: "rows_of (rollbackQueueEntriesLocked ok ?tasks m (assign_map as) qs) w = rows_of (pd_Queues disk) w" for w
    by (rule rollback_entries_rows [OF A(1,2) ok(1) fresh_ids_mono [OF fresh A(4)] spec [OF w(2)] spec [OF w(3)]])
  have st: "Phases ?s ! idx = (Phases state0 ! idx)\<lparr>ph_Status := PhaseStatusFilling, ph_FillingStartedAt := Some (fc_started clock),
        ph_AwaitingFillSince := None, ph_AwaitingFillStallNotifiedAt := None\<rparr>" "length (Phases ?s) = length (Phases state0)"
    using cf(3) by (simp_all add: start_filling_def change_phase_def)
  let ?d3 = "\<lparr>pd_State = Some ?s, pd_Queues = qs\<rparr>"
  have d3: "?d3 = fo_after alone ((fo_before alone (disk\<lparr>pd_State := Some ?s\<rparr>))\<lparr>pd_Queues := qs\<rparr>)" by (cases disk) (simp add: al)
  have d3s: "pd_State ?d3 = Some ?s" by simp
  have rb: "rollbackFullPhaseFill ok id id (fc_undone clock) s' idx ?tasks m (assign_map as) ?d3
    = \<lparr>pd_State = Some (awaiting_again idx clock state0), pd_Queues = rollbackQueueEntriesLocked ok ?tasks m (assign_map as) qs\<rparr>"
    if "idx < length (Phases s') \<and> ph_PhaseID (Phases s' ! idx) = ph_PhaseID (Phases state0 ! idx)" for s'
    using full_rollback_alone [where ok = ok and disk = ?d3 and s = s' and clock = clock and m = m and tasks = ?tasks and am = "assign_map as", OF cf(3) wf A(4) ok(2) d3s that] by simp
  have names: "find_index (\<lambda>p. ph_Name p = so_PhaseName opts) (Phases ?s) = Some idx"
    using find_index_same_names [OF cf(4), of "Phases ?s"] cf(3)
    unfolding start_filling_def change_phase_def by (simp add: map_same_update)
  have reload: "reloadPhaseFillState (so_PhaseName opts) (fc_started clock) ?d3 = Inr (?s, idx)"
    using cf(2) st names by (simp add: reloadPhaseFillState_def Let_def) (simp add: start_filling_def change_phase_def)
  have gw: "graph_wf ?s" using start_filling_wf [OF wf(1)] unfolding plan_wf_def by blast
  have ns: "new_ids (set ids) ?s" using wf(2) by (simp add: new_ids_def known_tasks_def start_filling_def change_phase_def)
  have ls: "idx < length (Phases ?s)" using cf(3) st by simp
  have appl: "applyPhaseFillTasks idx m (fc_applied clock) ?tasks ?s = Inr (filled idx ?f (fc_applied clock) ?tasks ?s)"
    by (rule apply_run [OF A(5,3) untouched_mono [OF new_ids_untouched [OF ns gw] A(4)] ls])
  have nm: "set (map ti_Name ?tasks) \<subseteq> fst ` set (assign_map as)" using assign_map_workers(1) [of as] A(1) by (metis list.set_map order_refl)
  from assigned(3) w1 d3 show ?thesis
  proof (cases rule: commit_fill_stages)
    case unwritten
    have "disk' = rollbackFullPhaseFill ok id id (fc_undone clock) ?s idx ?tasks m (assign_map as) ?d3"
      using unwritten(3) by (cases disk) (simp add: al id_def)
    then show ?thesis using rb [of ?s] st cf(3) assigned(1) undone by auto
  next
    case (unsaved s i s')
    have i: "i = idx" "s = ?s" "s' = filled idx ?f (fc_applied clock) ?tasks ?s" using unsaved(2,3) reload appl by auto
    have "idx < length (Phases (activate_filled idx (fc_written clock) s'))
        \<and> ph_PhaseID (Phases (activate_filled idx (fc_written clock) s') ! idx) = ph_PhaseID (Phases state0 ! idx)"
      using ls st by (simp add: i activate_filled_def change_phase_def filled_def count_tasks_def grow_phase_def)
    from rb [OF this] unsaved(5) show ?thesis using i assigned(1) undone by (auto simp: al)
  next
    case (saved s i s')
    then show ?thesis using task_results_ok [OF nm, of m] by auto
  qed (use reload appl in simp_all)
qed

section \<open>Properties\<close>

text \<open>
  C5. A fill that reports success has activated the phase with exactly one new task per input, and the plan stays
  well formed, whatever other holders of the state lock did while the queues were written, as long as they leave a
  well-formed plan that does not use the ids drawn for this fill.
\<close>

theorem fill_keeps_plan:
  assumes "submitPhaseFill ok others clock opts ids input disk = (Inr rs, disk')" and "\<not> so_DryRun opts" and "distinct ids"
    and "plan_ready (set ids) disk"
    and "\<forall>d. plan_ready (set ids) d \<longrightarrow> plan_ready (set ids) (fo_before others d) \<and> plan_ready (set ids) (fo_after others d)"
  shows "\<exists>d s s'. pd_State (fo_after others d) = Some s \<and> pd_State disk' = Some s' \<and> plan_wf s'
    \<and> fill_done (so_PhaseName opts) (fc_written clock) (si_Tasks input) (set ids) s s'"
  by (rule fill_success [OF assms])


text \<open>
  C7. Taking a fill back undoes it exactly: for a well-formed plan and tasks that passed the checks, with ids new to
  the plan, the tasks can be added to the phase, and removing them again gives the state there was, field by field.
\<close>

theorem fill_roundtrip:
  assumes "plan_wf state" and "idx < length (Phases state)" and "ValidatePhaseFillInput tasks phase = []"
    and "resolveNames tasks ids [] = Inr (nameToID, rest)" and "distinct ids" and "new_ids (set ids) state"
  shows "\<exists>state'. applyPhaseFillTasks idx nameToID now tasks state = Inr state' \<and> plan_wf state'
    \<and> rollbackPhaseFillState idx tasks nameToID state' = state"
proof -
  let ?f = "zget [] nameToID"
  have ts: "task_set_ok tasks" using assms(3) unfolding fill_input_Nil by blast
  have d: "distinct (map ti_Name tasks)" using ts unfolding task_set_ok_def by blast
  obtain names where l: "listed ti_Name ti_BlockedBy tasks names" using ts unfolding task_set_ok_def by blast
  note n = resolveNames_Inr [OF assms(4) d]
  have i: "map (\<lambda>t. ?f (ti_Name t)) tasks @ rest = ids" using n by blast
  have di: "distinct (map (\<lambda>t. ?f (ti_Name t)) tasks)" using i assms(5) by (metis distinct_append)
  have sub: "(\<lambda>t. ?f (ti_Name t)) ` set tasks \<subseteq> set ids" using i by (metis Un_upper1 image_set set_append)
  have refs: "\<forall>t \<in> set tasks. set (ti_BlockedBy t) \<subseteq> fst ` set nameToID" using listed_refs [OF d l] n by auto
  have gw: "graph_wf state" using assms(1) unfolding plan_wf_def by blast
  have ap: "applyPhaseFillTasks idx nameToID now tasks state = Inr (filled idx ?f now tasks state)"
    by (rule apply_run [OF refs di untouched_mono [OF new_ids_untouched [OF assms(6) gw] sub] assms(2)])
  have fresh: "(\<lambda>t. ?f (ti_Name t)) ` set tasks \<inter> (known_tasks state \<union> fst ` set (TaskStatusChangedAt state)) = {}"
    using assms(6) sub unfolding new_ids_def by blast
  have l': "idx < length (Phases (filled idx ?f now tasks state))" using assms(2) by (simp add: filled_def count_tasks_def grow_phase_def)
  have "rollbackPhaseFillState idx tasks nameToID (filled idx ?f now tasks state) = state"
    unfolding rollback_run [OF l'] by (rule unfill_filled [OF assms(2,1) fresh])
  moreover have "plan_wf (filled idx ?f now tasks state)"
    by (rule filled_wf [OF assms(1,2) l di]) (use fresh in blast)
  ultimately show ?thesis using ap by blast
qed

definition demo_plan :: CommandState where
  "demo_plan = (zero_CommandState ''c'' PlanStatusSealed)
     \<lparr>RequiredTaskIDs := [''0''], ExpectedTaskCount := 1, TaskStates := [(''0'', StatusCompleted)],
      Phases := [(zero_Phase ''p1'' PhaseStatusCompleted [''0''])\<lparr>ph_Name := ''build'', ph_Type := ''concrete''\<rparr>,
        (zero_Phase ''p2'' PhaseStatusAwaitingFill [])\<lparr>ph_Name := ''fix'', ph_Type := ''deferred'', ph_DependsOnPhases := [''build''],
          ph_Constraints := Some \<lparr>MaxTasks = 3, AllowedBloomLevels = [2, 3], TimeoutMinutes = 60\<rparr>\<rparr>]\<rparr>"

definition demo_fill :: SubmitInput where
  "demo_fill = \<lparr>si_Tasks = [demo_input ''a'' [''b''], demo_input ''b'' []], si_Phases = []\<rparr>"

definition demo_fill_options :: SubmitOptions where
  "demo_fill_options = demo_options\<lparr>so_PhaseName := ''fix''\<rparr>"

definition demo_fill_disk :: PlanDisk where
  "demo_fill_disk = \<lparr>pd_State = Some demo_plan, pd_Queues = [(''worker2'', [zero_Task ''old'' StatusPending])]\<rparr>"

definition demo_clock :: FillClock where
  "demo_clock = \<lparr>fc_started = Stamp 1, fc_written = Stamp 2, fc_applied = Stamp 3, fc_undone = Stamp 4\<rparr>"

lemma demo_plan_wf: "plan_wf demo_plan" "new_ids (set [''1'', ''2'']) demo_plan" "distinct (map ph_PhaseID (Phases demo_plan))"
proof -
  have "ValidateTaskDAGAfterMutation demo_plan = Inr ()" by code_simp
  then show "plan_wf demo_plan"
    unfolding plan_wf_def
    by (simp add: demo_plan_def graph_wf_def known_tasks_def zero_CommandState_def zero_Phase_def)
qed (simp_all add: demo_plan_def new_ids_def known_tasks_def zero_CommandState_def zero_Phase_def)

lemma fill_roundtrip_witness:
  "\<exists>m s'. resolveNames (si_Tasks demo_fill) [''1'', ''2''] [] = Inr (m, []) \<and> applyPhaseFillTasks 1 m (Stamp 3) (si_Tasks demo_fill) demo_plan = Inr s'
    \<and> rollbackPhaseFillState 1 (si_Tasks demo_fill) m s' = demo_plan"
proof -
  have v: "ValidatePhaseFillInput (si_Tasks demo_fill) (Phases demo_plan ! 1) = []" by code_simp
  have r: "resolveNames (si_Tasks demo_fill) [''1'', ''2''] [] = Inr ([(''a'', ''1''), (''b'', ''2'')], [])" by code_simp
  have l: "1 < length (Phases demo_plan)" by (simp add: demo_plan_def)
  show ?thesis using fill_roundtrip [OF demo_plan_wf(1) l v r _ demo_plan_wf(2)] r by force
qed

lemma fill_keeps_plan_witness:
  "\<exists>s'. pd_State (snd (submitPhaseFill (\<lambda>_. True) alone demo_clock demo_fill_options [''1'', ''2''] demo_fill demo_fill_disk)) = Some s'
    \<and> plan_wf s'"
proof -
  let ?r = "submitPhaseFill (\<lambda>_. True) alone demo_clock demo_fill_options [''1'', ''2''] demo_fill demo_fill_disk"
  have "succeeds (fst ?r)" by code_simp
  then obtain rs where "fst ?r = Inr rs" by (auto simp: succeeds_def split: sum.splits)
  then have r: "?r = (Inr rs, snd ?r)" by (metis prod.collapse)
  have "plan_ready (set [''1'', ''2'']) demo_fill_disk" using demo_plan_wf by (simp add: plan_ready_def demo_fill_disk_def)
  from fill_keeps_plan [OF r _ _ this] show ?thesis
    by (auto simp: demo_fill_options_def demo_options_def alone_def)
qed


end
