(* ===== verification/Retry.thy ===== *)
theory Retry imports Phase_Fill Lineage begin

text \<open>
  The retry of a task (\<open>internal/plan/retry.go\<close>, \<open>retry_cascade.go\<close>, \<open>retry_queue.go\<close>): the replacement in the
  plan, the recovery of the tasks that were cancelled because of the retried one, and the writes to the queues and
  the state with their rollback. Ids and instants are drawn from lists. Where the code hands the same slice of
  dependencies to the state and to the new queue row, the row reads the state, which the cascade rewrites in place.
\<close>

section \<open>Replacement in the plan\<close>

definition findPhaseForTask :: "CommandState \<Rightarrow> string \<Rightarrow> nat option" where
  "findPhaseForTask state taskID = find_index (\<lambda>p. taskID \<in> set (ph_TaskIDs p)) (Phases state)"

fun replace_first :: "string \<Rightarrow> string \<Rightarrow> string list \<Rightarrow> string list" where
  "replace_first old new [] = []"
| "replace_first old new (x # xs) = (if x = old then new # xs else x # replace_first old new xs)"

definition replaceInRequiredOrOptional :: "string \<Rightarrow> string \<Rightarrow> CommandState \<Rightarrow> CommandState" where
  "replaceInRequiredOrOptional oldID newID state =
     (let state1 = (if oldID \<in> set (RequiredTaskIDs state)
                    then state\<lparr>RequiredTaskIDs := replace_first oldID newID (RequiredTaskIDs state)\<rparr>
                    else state\<lparr>OptionalTaskIDs := replace_first oldID newID (OptionalTaskIDs state)\<rparr>) in
      if SystemCommitTaskID state = Some oldID then state1\<lparr>SystemCommitTaskID := Some newID\<rparr> else state1)"

definition rename_dep :: "string \<Rightarrow> string \<Rightarrow> string \<Rightarrow> string" where
  "rename_dep oldID newID dep = (if dep = oldID then newID else dep)"

definition rewriteDependencies :: "string \<Rightarrow> string \<Rightarrow> CommandState \<Rightarrow> CommandState" where
  "rewriteDependencies oldID newID state =
     state\<lparr>TaskDependencies := map (\<lambda>(t, deps). (t, map (rename_dep oldID newID) deps)) (TaskDependencies state)\<rparr>"

definition maxLineageDepth :: nat where
  "maxLineageDepth = 1000"

datatype RetryError =
    BadBloom int | BadSchema verrors | NoStateFile | RetryNotSealed PlanStatus | RetryCancelled SubmitError
  | RetryTaskUnknown string | CandidateUnresolved string | CandidateSuperseded string | NotEligible Status
  | ActiveRetry string | PhaseClosed PhaseStatus | LineageCycle string | LineageTooDeep string
  | ResolvedUnknown string | BlockerOutsidePhase string | BlockerUnknown string | NoRetryWorkers
  | RetryNotAssigned AssignError | NoRetryIds | RetryGraph MutationError | CannotReopen PhaseStatus
  | CascadeTooDeep string | OriginalsNotRead | RowNotWritten string | OriginalNotCancelled | RetryNotSaved

function latest_desc :: "(string, string) gomap \<Rightarrow> string \<Rightarrow> string list \<Rightarrow> RetryError + string" where
  "latest_desc succs cur visited =
     (if cur \<in> set visited then Inl (LineageCycle cur)
      else if maxLineageDepth \<le> length visited then Inl (LineageTooDeep cur)
      else (case map_of succs cur of
              None \<Rightarrow> Inr cur
            | Some nxt \<Rightarrow> latest_desc succs nxt (cur # visited)))"
  by pat_completeness auto
termination by (relation "measure (\<lambda>(succs, cur, visited). maxLineageDepth - length visited)") auto

declare latest_desc.simps [simp del]

definition getLatestDescendant :: "string \<Rightarrow> (string, string) gomap \<Rightarrow> RetryError + string" where
  "getLatestDescendant taskID reverseLineage = latest_desc reverseLineage taskID []"

fun resolve_all :: "(string, string) gomap \<Rightarrow> string list \<Rightarrow> RetryError + string list" where
  "resolve_all succs [] = Inr []"
| "resolve_all succs (d # ds) =
     (case getLatestDescendant d succs of
        Inl e \<Rightarrow> Inl e
      | Inr r \<Rightarrow> (case resolve_all succs ds of Inl e \<Rightarrow> Inl e | Inr rs \<Rightarrow> Inr (r # rs)))"

definition resolveBlockedByViaLineage :: "string list \<Rightarrow> (string, string) gomap \<Rightarrow> RetryError + string list" where
  "resolveBlockedByViaLineage blockedBy lineage = resolve_all (buildSuccessorMap lineage) blockedBy"

definition reopenPhase :: "nat \<Rightarrow> stamp \<Rightarrow> CommandState \<Rightarrow> RetryError + CommandState" where
  "reopenPhase idx now state =
     (if ph_Status (Phases state ! idx) \<noteq> PhaseStatusFailed then Inl (CannotReopen (ph_Status (Phases state ! idx)))
      else Inr (change_phase idx (\<lambda>p. p\<lparr>ph_Status := PhaseStatusActive, ph_ReopenedAt := Some now, ph_CompletedAt := None\<rparr>) state))"

text \<open>The new task joins the phase of the old one, which is reopened when it had failed.\<close>

definition join_phase :: "nat option \<Rightarrow> string \<Rightarrow> stamp \<Rightarrow> CommandState \<Rightarrow> RetryError + CommandState" where
  "join_phase phaseIdx newID now state =
     (case phaseIdx of
        None \<Rightarrow> Inr state
      | Some idx \<Rightarrow>
          (let state1 = change_phase idx (\<lambda>p. p\<lparr>ph_TaskIDs := ph_TaskIDs p @ [newID]\<rparr>) state in
           if ph_Status (Phases state ! idx) = PhaseStatusFailed then reopenPhase idx now state1 else Inr state1))"

section \<open>Cascade recovery\<close>

definition maxCascadeRecoverDepth :: nat where
  "maxCascadeRecoverDepth = 10"

definition findCascadeCandidates :: "CommandState \<Rightarrow> string \<Rightarrow> string list" where
  "findCascadeCandidates state failedTaskID =
     map fst (filter (\<lambda>(_, reason). reason = CascadeBlockedReasonPrefix @ failedTaskID) (CancelledReasons state))"

definition mutation_checked :: "CommandState \<Rightarrow> RetryError + CommandState" where
  "mutation_checked state =
     (case ValidateTaskDAGAfterMutation state of Inl e \<Rightarrow> Inl (RetryGraph e) | Inr _ \<Rightarrow> Inr state)"

text \<open>What the primary retry and a recovery share: slot, lineage, dependencies, status.\<close>

definition replace_task :: "string \<Rightarrow> string \<Rightarrow> string list \<Rightarrow> stamp \<Rightarrow> CommandState \<Rightarrow> CommandState" where
  "replace_task oldID newID deps now state =
     (let state1 = replaceInRequiredOrOptional oldID newID state;
          state2 = state1\<lparr>RetryLineage := AList.update newID oldID (RetryLineage state1)\<rparr>;
          state3 = SetTaskState newID StatusPlanned now (rewriteDependencies oldID newID state2) in
      state3\<lparr>TaskDependencies := AList.update newID deps (TaskDependencies state3)\<rparr>)"

definition updateTaskStateForCascade :: "string \<Rightarrow> string \<Rightarrow> string list \<Rightarrow> stamp \<Rightarrow> stamp \<Rightarrow> CommandState \<Rightarrow> RetryError + CommandState" where
  "updateTaskStateForCascade cancelledTaskID newTaskID newDeps now reopenedAt state =
     (case join_phase (findPhaseForTask state cancelledTaskID) newTaskID reopenedAt
             (replace_task cancelledTaskID newTaskID newDeps now state) of
        Inl e \<Rightarrow> Inl e
      | Inr state' \<Rightarrow> mutation_checked state')"

record CascadeRecoveredTask =
  cr_TaskID :: string
  cr_Worker :: string
  cr_Model :: string
  cr_Replaced :: string

record RetryFleet =
  rf_Workers :: WorkerConfig
  rf_MaxPending :: int
  rf_Selector :: "(int \<Rightarrow> string \<Rightarrow> string) option"

definition assign_one_to :: "RetryFleet \<Rightarrow> WorkerState list \<Rightarrow> string \<Rightarrow> int \<Rightarrow> RetryError + WorkerAssignment" where
  "assign_one_to fleet states name bloom =
     (case AssignWorkers (rf_Workers fleet) (rf_MaxPending fleet) states (rf_Selector fleet)
             [\<lparr>ar_Name = name, ar_BloomLevel = bloom, ar_PinnedWorkerID = [], ar_RequireClaudeRuntime = False,
               ar_RequiredCapabilities = [], ar_PreferredCapabilities = []\<rparr>] of
        Inl e \<Rightarrow> Inl (RetryNotAssigned e)
      | Inr [] \<Rightarrow> Inl NoRetryWorkers
      | Inr (a # _) \<Rightarrow> Inr a)"

text \<open>What the recovery threads through: the state, the workers, the recovered tasks, the ids and instants to come.\<close>

record CascadeRun =
  cs_state :: CommandState
  cs_workers :: "WorkerState list"
  cs_recovered :: "CascadeRecoveredTask list"
  cs_fresh :: "(string \<times> stamp \<times> stamp) list"

definition recover_one :: "RetryFleet \<Rightarrow> (string, Task) gomap \<Rightarrow> string \<Rightarrow> string \<Rightarrow> string \<Rightarrow> CascadeRun \<Rightarrow> RetryError + (string \<times> CascadeRun)" where
  "recover_one fleet cache failedTaskID newRetryTaskID cancelledTaskID run =
     (case cs_fresh run of
        [] \<Rightarrow> Inl NoRetryIds
      | (newTaskID, now, reopenedAt) # fresh \<Rightarrow>
          (case resolveBlockedByViaLineage (zget [] (TaskDependencies (cs_state run)) cancelledTaskID) (RetryLineage (cs_state run)) of
             Inl e \<Rightarrow> Inl e
           | Inr deps \<Rightarrow>
               (let newDeps = map (rename_dep failedTaskID newRetryTaskID) deps;
                    bloom = (case map_of cache cancelledTaskID of None \<Rightarrow> 3 | Some orig \<Rightarrow> tk_BloomLevel orig) in
                case assign_one_to fleet (cs_workers run) ''__cascade_recovery'' bloom of
                  Inl e \<Rightarrow> Inl e
                | Inr a \<Rightarrow>
                    (case updateTaskStateForCascade cancelledTaskID newTaskID newDeps now reopenedAt (cs_state run) of
                       Inl e \<Rightarrow> Inl e
                     | Inr state' \<Rightarrow>
                         Inr (newTaskID,
                           \<lparr>cs_state = state', cs_workers = bump_worker (wa_WorkerID a) (cs_workers run),
                            cs_recovered = cs_recovered run @ [\<lparr>cr_TaskID = newTaskID, cr_Worker = wa_WorkerID a,
                              cr_Model = wa_Model a, cr_Replaced = cancelledTaskID\<rparr>],
                            cs_fresh = fresh\<rparr>)))))"

text \<open>
  The loop over the candidates of one task, with the depth that is left below them: a recovered task recurses, and
  at no depth left the recursion is the error of the depth limit.
\<close>

function recover_each ::
  "RetryFleet \<Rightarrow> (string, Task) gomap \<Rightarrow> nat \<Rightarrow> string \<Rightarrow> string \<Rightarrow> string list \<Rightarrow> CascadeRun \<Rightarrow> RetryError + CascadeRun" where
  "recover_each fleet cache d failed new [] run = Inr run"
| "recover_each fleet cache d failed new (c # cands) run =
     (if map_of (CancelledReasons (cs_state run)) c = Some ''command_cancel_requested''
      then recover_each fleet cache d failed new cands run
      else case recover_one fleet cache failed new c run of
        Inl e \<Rightarrow> Inl e
      | Inr (newID, run1) \<Rightarrow>
          (case d of
             0 \<Rightarrow> Inl (CascadeTooDeep c)
           | Suc d' \<Rightarrow>
               (case recover_each fleet cache d' c newID (findCascadeCandidates (cs_state run1) c) run1 of
                  Inl e \<Rightarrow> Inl e
                | Inr run2 \<Rightarrow> recover_each fleet cache d failed new cands run2)))"
  by pat_completeness auto
termination
  by (relation "inv_image (less_than <*lex*> less_than) (\<lambda>(fleet, cache, d, failed, new, cands, run). (d, length cands))") auto

definition cascadeRecoverRecursive ::
  "RetryFleet \<Rightarrow> (string, Task) gomap \<Rightarrow> string \<Rightarrow> string \<Rightarrow> CascadeRun \<Rightarrow> RetryError + CascadeRun" where
  "cascadeRecoverRecursive fleet cache failed new run =
     recover_each fleet cache (maxCascadeRecoverDepth - 1) failed new (findCascadeCandidates (cs_state run) failed) run"

definition cascadeRecover ::
  "RetryFleet \<Rightarrow> (string, Task) gomap \<Rightarrow> WorkerState list \<Rightarrow> (string \<times> stamp \<times> stamp) list \<Rightarrow> string \<Rightarrow> string \<Rightarrow> CommandState \<Rightarrow>
   RetryError + (CommandState \<times> CascadeRecoveredTask list)" where
  "cascadeRecover fleet cache workers fresh failed new state =
     (case cascadeRecoverRecursive fleet cache failed new
             \<lparr>cs_state = state, cs_workers = workers, cs_recovered = [], cs_fresh = fresh\<rparr> of
        Inl e \<Rightarrow> Inl e
      | Inr run \<Rightarrow> Inr (cs_state run, cs_recovered run))"

text \<open>Entries of finished predecessors go; the lineage itself stays.\<close>

definition purgeSupersededRetryEntries :: "CommandState \<Rightarrow> CommandState" where
  "purgeSupersededRetryEntries state =
     (let gone = (\<lambda>i. i \<in> snd ` set (RetryLineage state)
            \<and> (case map_of (TaskStates state) i of None \<Rightarrow> False | Some st \<Rightarrow> IsTerminal st)) in
      state\<lparr>TaskDependencies := filter (\<lambda>(i, _). \<not> gone i) (TaskDependencies state),
        CancelledReasons := filter (\<lambda>(i, _). \<not> gone i) (CancelledReasons state)\<rparr>)"

section \<open>The request\<close>

record RetryOptions =
  ro_CommandID :: string
  ro_RetryOf :: string
  ro_Purpose :: string
  ro_Content :: string
  ro_AcceptanceCriteria :: string
  ro_DefinitionOfDone :: "string list"
  ro_Constraints :: "string list option"
  ro_BlockedBy :: "string list"
  ro_BloomLevel :: int
  ro_ToolsHint :: "string list option"
  ro_PersonaHint :: string
  ro_SkillRefs :: "string list option"
  ro_ExpectedPaths :: "string list option"
  ro_DefinitionOfAbort :: "DefinitionOfAbort option"
  ro_ResumeHint :: string
  ro_Fleet :: RetryFleet

text \<open>One pass over the lineage in map order, and the passes until nothing changes.\<close>

definition chain_pass :: "(string, string) gomap \<Rightarrow> string list \<Rightarrow> string list" where
  "chain_pass lineage chain =
     fold (\<lambda>(desc, pred) ch. if pred \<in> set ch \<and> desc \<notin> set ch then ch @ [desc] else ch) lineage chain"

lemma chain_pass_grows:
  "set chain \<subseteq> set (chain_pass lineage chain) \<and> set (chain_pass lineage chain) \<subseteq> set chain \<union> fst ` set lineage"
proof -
  let ?f = "\<lambda>(desc, pred) ch. if pred \<in> set ch \<and> desc \<notin> set ch then ch @ [desc] else ch"
  have "set chain \<subseteq> set (fold ?f xs chain) \<and> set (fold ?f xs chain) \<subseteq> set chain \<union> fst ` set xs" for xs chain
  proof (induction xs arbitrary: chain)
    case (Cons x xs)
    obtain a b where x: "x = (a, b)" by fastforce
    from Cons [of "?f x chain"] show ?case by (auto simp: x split: if_splits)
  qed simp
  then show ?thesis by (simp add: chain_pass_def)
qed

function retry_chain :: "(string, string) gomap \<Rightarrow> string list \<Rightarrow> string list" where
  "retry_chain lineage chain =
     (if set (chain_pass lineage chain) = set chain then chain
      else retry_chain lineage (chain_pass lineage chain))"
  by pat_completeness auto
termination
proof (relation "measure (\<lambda>(lineage, chain). card (fst ` set lineage - set chain))")
  fix lineage :: "(string, string) gomap" and chain
  assume "set (chain_pass lineage chain) \<noteq> set chain"
  then have "fst ` set lineage - set (chain_pass lineage chain) \<subset> fst ` set lineage - set chain"
    using chain_pass_grows [of chain lineage] by blast
  then have "card (fst ` set lineage - set (chain_pass lineage chain)) < card (fst ` set lineage - set chain)"
    by (intro psubset_card_mono) simp_all
  then show "((lineage, chain_pass lineage chain), lineage, chain)
      \<in> measure (\<lambda>(lineage, chain). card (fst ` set lineage - set chain))" by simp
qed simp

declare retry_chain.simps [simp del]

definition active_retry :: "CommandState \<Rightarrow> string \<Rightarrow> string option" where
  "active_retry state taskID =
     find (\<lambda>i. i \<noteq> taskID \<and> (case map_of (TaskStates state) i of None \<Rightarrow> False | Some st \<Rightarrow> \<not> IsTerminal st))
       (retry_chain (RetryLineage state) [taskID])"

definition check_candidate :: "CommandState \<Rightarrow> string \<Rightarrow> RetryError + unit" where
  "check_candidate state taskID =
     (case FindCandidateGroupByTask state taskID of
        None \<Rightarrow> Inr ()
      | Some (gid, None) \<Rightarrow> Inr ()
      | Some (gid, Some g) \<Rightarrow>
          if IsUnresolved (cg_Status g) then Inl (CandidateUnresolved gid)
          else let surviving = (if cg_Status g = ABGroupResolved \<and> WinnerTaskID g \<noteq> [] then WinnerTaskID g else CanonicalTaskID g) in
            if taskID \<noteq> surviving then Inl (CandidateSuperseded gid) else Inr ())"

definition retry_eligible :: "Status \<Rightarrow> string \<Rightarrow> bool" where
  "retry_eligible st reason =
     (st = StatusFailed \<or> st = StatusPausedForReplan \<or> st = StatusRepairPending
      \<or> st = StatusCancelled \<and> reason \<noteq> ''command_cancel_requested''
         \<and> \<not> has_prefix reason ''superseded_by_retry'' \<and> \<not> has_prefix reason ''superseded_by_verify_repair'')"

definition validateRetryBlockedBy :: "CommandState \<Rightarrow> nat option \<Rightarrow> string list \<Rightarrow> RetryError + unit" where
  "validateRetryBlockedBy state phaseIdx blockedBy =
     (case phaseIdx of
        Some idx \<Rightarrow>
          (case find (\<lambda>d. d \<notin> set (ph_TaskIDs (Phases state ! idx)) \<and> SystemCommitTaskID state \<noteq> Some d) blockedBy of
             Some d \<Rightarrow> Inl (BlockerOutsidePhase d) | None \<Rightarrow> Inr ())
      | None \<Rightarrow>
          (case find (\<lambda>d. map_of (TaskStates state) d = None) blockedBy of
             Some d \<Rightarrow> Inl (BlockerUnknown d) | None \<Rightarrow> Inr ()))"

definition retry_blockers :: "CommandState \<Rightarrow> RetryOptions \<Rightarrow> RetryError + string list" where
  "retry_blockers state opts =
     (if ro_BlockedBy opts \<noteq> [] then Inr (ro_BlockedBy opts)
      else case map_of (TaskDependencies state) (ro_RetryOf opts) of
        None \<Rightarrow> Inr []
      | Some deps \<Rightarrow>
          (case resolveBlockedByViaLineage deps (RetryLineage state) of
             Inl e \<Rightarrow> Inl e
           | Inr ds \<Rightarrow>
               (case find (\<lambda>d. map_of (TaskStates state) d = None) ds of
                  Some d \<Rightarrow> Inl (ResolvedUnknown d) | None \<Rightarrow> Inr ds)))"

definition validateRetryRequest :: "RetryOptions \<Rightarrow> CommandState option \<Rightarrow> RetryError + (CommandState \<times> nat option \<times> string list)" where
  "validateRetryRequest opts stored =
     (let schema = validateInjectedSchemaFields (ro_ExpectedPaths opts) (ro_DefinitionOfAbort opts) (ro_DefinitionOfDone opts);
          old = ro_RetryOf opts in
      if ro_BloomLevel opts < BloomLevelMin \<or> BloomLevelMax < ro_BloomLevel opts then Inl (BadBloom (ro_BloomLevel opts))
      else if schema \<noteq> [] then Inl (BadSchema schema)
      else case stored of
        None \<Rightarrow> Inl NoStateFile
      | Some state \<Rightarrow>
      if cs_PlanStatus state \<noteq> PlanStatusSealed then Inl (RetryNotSealed (cs_PlanStatus state))
      else case ValidateNotCancelled state of
        Inl e \<Rightarrow> Inl (RetryCancelled e)
      | Inr _ \<Rightarrow>
      (case map_of (TaskStates state) old of
        None \<Rightarrow> Inl (RetryTaskUnknown old)
      | Some st \<Rightarrow>
      (case check_candidate state old of
        Inl e \<Rightarrow> Inl e
      | Inr _ \<Rightarrow>
      if \<not> retry_eligible st (zget [] (CancelledReasons state) old) then Inl (NotEligible st)
      else case active_retry state old of
        Some i \<Rightarrow> Inl (ActiveRetry i)
      | None \<Rightarrow>
      (let phaseIdx = findPhaseForTask state old;
           closed = (case phaseIdx of None \<Rightarrow> None | Some idx \<Rightarrow>
             let ps = ph_Status (Phases state ! idx) in
             if ps \<noteq> PhaseStatusActive \<and> ps \<noteq> PhaseStatusFailed then Some ps else None) in
       case closed of
         Some ps \<Rightarrow> Inl (PhaseClosed ps)
       | None \<Rightarrow>
       (case retry_blockers state opts of
          Inl e \<Rightarrow> Inl e
        | Inr blockedBy \<Rightarrow>
            (case validateRetryBlockedBy state phaseIdx blockedBy of
               Inl e \<Rightarrow> Inl e
             | Inr _ \<Rightarrow> Inr (state, phaseIdx, blockedBy)))))))"

definition supersede_paused :: "string \<Rightarrow> string \<Rightarrow> stamp \<Rightarrow> CommandState \<Rightarrow> CommandState" where
  "supersede_paused oldID newID now state =
     (if map_of (TaskStates state) oldID = Some StatusPausedForReplan
      then (SetTaskState oldID StatusCancelled now state)
             \<lparr>CancelledReasons := AList.update oldID (''superseded_by_retry:'' @ newID) (CancelledReasons state)\<rparr>
      else state)"

definition applyRetryStateChanges ::
  "RetryOptions \<Rightarrow> (string, Task) gomap \<Rightarrow> WorkerState list \<Rightarrow> (string \<times> stamp \<times> stamp) list \<Rightarrow> string \<Rightarrow> stamp \<Rightarrow> nat option \<Rightarrow>
   string list \<Rightarrow> CommandState \<Rightarrow> RetryError + (CommandState \<times> CascadeRecoveredTask list)" where
  "applyRetryStateChanges opts cache workers fresh newID now phaseIdx blockedBy state =
     (let old = ro_RetryOf opts in
      case mutation_checked (supersede_paused old newID now (replace_task old newID blockedBy now state)) of
        Inl e \<Rightarrow> Inl e
      | Inr state1 \<Rightarrow>
      (case join_phase phaseIdx newID now state1 of
        Inl e \<Rightarrow> Inl e
      | Inr state2 \<Rightarrow>
      (case cascadeRecover (ro_Fleet opts) cache workers fresh old newID state2 of
        Inl e \<Rightarrow> Inl e
      | Inr (state3, recovered) \<Rightarrow>
      (case mutation_checked state3 of
        Inl e \<Rightarrow> Inl e
      | Inr state4 \<Rightarrow> Inr ((purgeSupersededRetryEntries state4)\<lparr>cs_UpdatedAt := now\<rparr>, recovered)))))"

section \<open>The structure of the plan\<close>

text \<open>Well-formedness without the graph check, which the code runs itself, and with the lineage known.\<close>

definition plan_struct :: "CommandState \<Rightarrow> bool" where
  "plan_struct state =
     (distinct (RequiredTaskIDs state @ OptionalTaskIDs state)
      \<and> set (RequiredTaskIDs state @ OptionalTaskIDs state) \<subseteq> known_tasks state
      \<and> ExpectedTaskCount state = int (length (RequiredTaskIDs state)) + int (length (OptionalTaskIDs state))
      \<and> graph_wf state
      \<and> distinct (concat (map ph_TaskIDs (Phases state)))
      \<and> set (concat (map ph_TaskIDs (Phases state))) \<subseteq> known_tasks state
      \<and> (\<forall>c. SystemCommitTaskID state = Some c \<longrightarrow> c \<in> set (RequiredTaskIDs state))
      \<and> fst ` set (RetryLineage state) \<subseteq> known_tasks state)"

definition lineage_known :: "CommandState \<Rightarrow> bool" where
  "lineage_known state = (fst ` set (RetryLineage state) \<subseteq> known_tasks state)"

lemma plan_struct_wf:
  "plan_wf state \<and> lineage_known state \<longleftrightarrow> plan_struct state \<and> ValidateTaskDAGAfterMutation state = Inr ()"
  unfolding plan_wf_def plan_struct_def lineage_known_def by blast

lemma replace_first_member: "old \<notin> set xs \<Longrightarrow> replace_first old new xs = xs"
  by (induction xs) auto

lemma replace_first_props:
  "length (replace_first old new xs) = length xs"
  "new \<notin> set xs \<Longrightarrow> distinct xs \<Longrightarrow> distinct (replace_first old new xs)"
  "distinct xs \<Longrightarrow> old \<in> set xs \<Longrightarrow> set (replace_first old new xs) = insert new (set xs - {old})"
  "set (replace_first old new xs) \<subseteq> insert new (set xs)"
proof -
  show s: "set (replace_first old new xs) \<subseteq> insert new (set xs)" for xs by (induction xs) auto
  show "length (replace_first old new xs) = length xs" by (induction xs) auto
  show "new \<notin> set xs \<Longrightarrow> distinct xs \<Longrightarrow> distinct (replace_first old new xs)"
  proof (induction xs)
    case (Cons x xs)
    then show ?case using s [of xs] by (cases "x = old") auto
  qed simp
  show "distinct xs \<Longrightarrow> old \<in> set xs \<Longrightarrow> set (replace_first old new xs) = insert new (set xs - {old})"
    by (induction xs) auto
qed

lemma replace_slots:
  fixes state :: CommandState
  assumes d: "distinct (RequiredTaskIDs state @ OptionalTaskIDs state)" and new: "new \<notin> set (RequiredTaskIDs state @ OptionalTaskIDs state)"
    and sys: "\<forall>c. SystemCommitTaskID state = Some c \<longrightarrow> c \<in> set (RequiredTaskIDs state)"
    and s_def: "s = replaceInRequiredOrOptional old new state"
  shows "distinct (RequiredTaskIDs s @ OptionalTaskIDs s)"
    and "set (RequiredTaskIDs s @ OptionalTaskIDs s) \<subseteq> insert new (set (RequiredTaskIDs state @ OptionalTaskIDs state))"
    and "length (RequiredTaskIDs s) = length (RequiredTaskIDs state)" and "length (OptionalTaskIDs s) = length (OptionalTaskIDs state)"
    and "\<forall>c. SystemCommitTaskID s = Some c \<longrightarrow> c \<in> set (RequiredTaskIDs s)"
proof -
  have dr: "distinct (RequiredTaskIDs state)" "distinct (OptionalTaskIDs state)"
    "set (RequiredTaskIDs state) \<inter> set (OptionalTaskIDs state) = {}" "new \<notin> set (RequiredTaskIDs state)" "new \<notin> set (OptionalTaskIDs state)"
    using d new by auto
  have f: "RequiredTaskIDs s = (if old \<in> set (RequiredTaskIDs state) then replace_first old new (RequiredTaskIDs state) else RequiredTaskIDs state)"
    "OptionalTaskIDs s = (if old \<in> set (RequiredTaskIDs state) then OptionalTaskIDs state else replace_first old new (OptionalTaskIDs state))"
    "SystemCommitTaskID s = (if SystemCommitTaskID state = Some old then Some new else SystemCommitTaskID state)"
    by (simp_all add: s_def replaceInRequiredOrOptional_def Let_def)
  note rr = replace_first_props [where old = old and new = new and xs = "RequiredTaskIDs state"] and ro = replace_first_props [where old = old and new = new and xs = "OptionalTaskIDs state"]
  show "length (RequiredTaskIDs s) = length (RequiredTaskIDs state)" "length (OptionalTaskIDs s) = length (OptionalTaskIDs state)"
    using rr(1) ro(1) by (simp_all add: f)
  show "set (RequiredTaskIDs s @ OptionalTaskIDs s) \<subseteq> insert new (set (RequiredTaskIDs state @ OptionalTaskIDs state))"
    using rr(4) ro(4) unfolding f by auto
  show "distinct (RequiredTaskIDs s @ OptionalTaskIDs s)"
    using rr(2) [OF dr(4,1)] ro(2) [OF dr(5,2)] rr(4) ro(4) dr unfolding f by auto
  show "\<forall>c. SystemCommitTaskID s = Some c \<longrightarrow> c \<in> set (RequiredTaskIDs s)"
    using sys rr(3) [OF dr(1)] unfolding f by auto
qed

lemma replace_task_fields:
  "TaskStates (replace_task old new deps now state) = AList.update new StatusPlanned (TaskStates state)"
  "TaskDependencies (replace_task old new deps now state)
     = AList.update new deps (map (\<lambda>(t, ds). (t, map (rename_dep old new) ds)) (TaskDependencies state))"
  "RetryLineage (replace_task old new deps now state) = AList.update new old (RetryLineage state)"
  "Phases (replace_task old new deps now state) = Phases state"
  "CancelledReasons (replace_task old new deps now state) = CancelledReasons state"
  "RequiredTaskIDs (replace_task old new deps now state) = RequiredTaskIDs (replaceInRequiredOrOptional old new state)"
  "OptionalTaskIDs (replace_task old new deps now state) = OptionalTaskIDs (replaceInRequiredOrOptional old new state)"
  "SystemCommitTaskID (replace_task old new deps now state) = SystemCommitTaskID (replaceInRequiredOrOptional old new state)"
  "ExpectedTaskCount (replace_task old new deps now state) = ExpectedTaskCount state"
  by (simp_all add: replace_task_def rewriteDependencies_def SetTaskState_def replaceInRequiredOrOptional_def Let_def)

lemma set_update_subset: "set (AList.update k v xs) \<subseteq> insert (k, v) (set xs)"
  by (induction xs) auto

lemma replace_task_struct:
  assumes wf: "plan_struct state" and new: "new \<notin> known_tasks state" and deps: "set deps \<subseteq> known_tasks state"
  shows "plan_struct (replace_task old new deps now state)"
    and "known_tasks (replace_task old new deps now state) = insert new (known_tasks state)"
proof -
  define s where "s = replace_task old new deps now state"
  note f = replace_task_fields [where old = old and new = new and deps = deps and now = now and state = state, folded s_def]
  have w: "distinct (RequiredTaskIDs state @ OptionalTaskIDs state)" "set (RequiredTaskIDs state @ OptionalTaskIDs state) \<subseteq> known_tasks state"
    "ExpectedTaskCount state = int (length (RequiredTaskIDs state)) + int (length (OptionalTaskIDs state))" "graph_wf state"
    "distinct (concat (map ph_TaskIDs (Phases state)))" "set (concat (map ph_TaskIDs (Phases state))) \<subseteq> known_tasks state"
    "\<forall>c. SystemCommitTaskID state = Some c \<longrightarrow> c \<in> set (RequiredTaskIDs state)" "fst ` set (RetryLineage state) \<subseteq> known_tasks state"
    using wf unfolding plan_struct_def by blast+
  have k: "known_tasks s = insert new (known_tasks state)" by (simp add: known_tasks_def f(1) dom_update)
  have "new \<notin> set (RequiredTaskIDs state @ OptionalTaskIDs state)" using w(2) new by blast
  note sl = replace_slots [OF w(1) this w(7) refl, where old = old, folded f(6-8)]
  have dm: "map fst (map (\<lambda>(t, ds). (t, map (rename_dep old new) ds)) (TaskDependencies state)) = map fst (TaskDependencies state)"
    by (simp add: comp_def case_prod_beta)
  have entry: "insert t (set ds) \<subseteq> known_tasks s" if "(t, ds) \<in> set (TaskDependencies s)" for t ds
  proof -
    from that consider "t = new" "ds = deps" | ds0 where "(t, ds0) \<in> set (TaskDependencies state)" "ds = map (rename_dep old new) ds0"
      unfolding f(2) by (auto dest!: set_update_subset [THEN subsetD])
    then show ?thesis
    proof cases
      case 1
      then show ?thesis using deps k by auto
    next
      case 2
      have "insert t (set ds0) \<subseteq> known_tasks state" using w(4) 2(1) unfolding graph_wf_def by blast
      then show ?thesis using 2(2) k by (auto simp: rename_dep_def)
    qed
  qed
  have gw: "graph_wf s"
    unfolding graph_wf_def
  proof (intro conjI)
    show "distinct (map fst (TaskStates s))" using w(4) unfolding f(1) graph_wf_def by (simp add: distinct_update)
    show "distinct (map fst (TaskDependencies s))" using w(4) unfolding f(2) graph_wf_def by (intro distinct_update) (simp only: dm)
    show "\<forall>(t, ds) \<in> set (TaskDependencies s). insert t (set ds) \<subseteq> known_tasks s" using entry by blast
  qed
  have "fst ` set (RetryLineage s) \<subseteq> known_tasks s" using w(8) unfolding f(3) k by (auto simp: dom_update)
  then have "plan_struct s" unfolding plan_struct_def f(4,9) using sl w(2,3,5,6) gw k by auto
  with k show "plan_struct (replace_task old new deps now state)"
    "known_tasks (replace_task old new deps now state) = insert new (known_tasks state)" by (simp_all add: s_def)
qed

lemma change_phase_fields [simp]:
  "TaskStates (change_phase idx f state) = TaskStates state" "TaskDependencies (change_phase idx f state) = TaskDependencies state"
  "RequiredTaskIDs (change_phase idx f state) = RequiredTaskIDs state" "OptionalTaskIDs (change_phase idx f state) = OptionalTaskIDs state"
  "RetryLineage (change_phase idx f state) = RetryLineage state" "SystemCommitTaskID (change_phase idx f state) = SystemCommitTaskID state"
  "ExpectedTaskCount (change_phase idx f state) = ExpectedTaskCount state" "CancelledReasons (change_phase idx f state) = CancelledReasons state"
  "known_tasks (change_phase idx f state) = known_tasks state" "length (Phases (change_phase idx f state)) = length (Phases state)"
  by (simp_all add: change_phase_def known_tasks_def)

lemma plan_struct_phases:
  assumes "plan_struct state" and "TaskStates s = TaskStates state" "TaskDependencies s = TaskDependencies state"
    "RequiredTaskIDs s = RequiredTaskIDs state" "OptionalTaskIDs s = OptionalTaskIDs state" "RetryLineage s = RetryLineage state"
    "SystemCommitTaskID s = SystemCommitTaskID state" "ExpectedTaskCount s = ExpectedTaskCount state"
    and "distinct (concat (map ph_TaskIDs (Phases s)))" and "set (concat (map ph_TaskIDs (Phases s))) \<subseteq> known_tasks state"
  shows "plan_struct s"
  using assms(1,9,10) unfolding plan_struct_def known_tasks_cong [OF assms(2)] graph_wf_cong [OF assms(2,3)] assms(4-8) by blast

lemma join_phase_struct:
  assumes wf: "plan_struct state" and new: "new \<in> known_tasks state" "new \<notin> set (concat (map ph_TaskIDs (Phases state)))"
    and idx: "\<And>i. phaseIdx = Some i \<Longrightarrow> i < length (Phases state)" and run: "join_phase phaseIdx new now state = Inr s"
  shows "plan_struct s" and "known_tasks s = known_tasks state" and "CancelledReasons s = CancelledReasons state"
    and "TaskStates s = TaskStates state" and "TaskDependencies s = TaskDependencies state" and "RetryLineage s = RetryLineage state"
    and "RequiredTaskIDs s = RequiredTaskIDs state" and "OptionalTaskIDs s = OptionalTaskIDs state"
proof -
  have "plan_struct s \<and> known_tasks s = known_tasks state \<and> CancelledReasons s = CancelledReasons state \<and> TaskStates s = TaskStates state
    \<and> TaskDependencies s = TaskDependencies state \<and> RetryLineage s = RetryLineage state
    \<and> RequiredTaskIDs s = RequiredTaskIDs state \<and> OptionalTaskIDs s = OptionalTaskIDs state"
  proof (cases phaseIdx)
    case None
    then show ?thesis using wf run by (simp add: join_phase_def)
  next
    case (Some i)
    let ?s1 = "change_phase i (\<lambda>p. p\<lparr>ph_TaskIDs := ph_TaskIDs p @ [new]\<rparr>) state"
    have i: "i < length (Phases state)" using idx Some by blast
    have p1: "Phases ?s1 = grow_phase i [new] (Phases state)" by (simp add: change_phase_def grow_phase_def)
    note gp = grow_phase_props [OF i, where ids = "[new]"]
    have pd: "distinct (concat (map ph_TaskIDs (Phases state)))" "set (concat (map ph_TaskIDs (Phases state))) \<subseteq> known_tasks state"
      using wf unfolding plan_struct_def by blast+
    have m: "mset (concat (map ph_TaskIDs (Phases ?s1))) = mset (concat (map ph_TaskIDs (Phases state)) @ [new])"
      unfolding p1 gp(2) by simp
    have "distinct (concat (map ph_TaskIDs (Phases state)) @ [new])" using pd(1) new(2) by simp
    then have d1: "distinct (concat (map ph_TaskIDs (Phases ?s1)))" using m mset_eq_imp_distinct_iff by blast
    have s1: "set (concat (map ph_TaskIDs (Phases ?s1))) \<subseteq> known_tasks state"
      using mset_eq_setD [OF m] pd(2) new(1) by auto
    consider "s = ?s1" | "s = change_phase i (\<lambda>p. p\<lparr>ph_Status := PhaseStatusActive, ph_ReopenedAt := Some now, ph_CompletedAt := None\<rparr>) ?s1"
      using run Some by (auto simp: join_phase_def reopenPhase_def Let_def split: if_splits)
    then show ?thesis
    proof cases
      case 1
      have "plan_struct ?s1" by (rule plan_struct_phases [OF wf _ _ _ _ _ _ _ d1 s1]) simp_all
      then show ?thesis by (simp add: 1)
    next
      case 2
      have e: "map ph_TaskIDs (Phases s) = map ph_TaskIDs (Phases ?s1)"
        unfolding 2 change_phase_def using i by (simp add: map_update)
      have "plan_struct s" by (rule plan_struct_phases [OF wf]) (use d1 s1 e in \<open>simp_all add: 2\<close>)
      then show ?thesis by (simp add: 2)
    qed
  qed
  then show "plan_struct s" and "known_tasks s = known_tasks state" and "CancelledReasons s = CancelledReasons state"
    and "TaskStates s = TaskStates state" and "TaskDependencies s = TaskDependencies state" and "RetryLineage s = RetryLineage state"
    and "RequiredTaskIDs s = RequiredTaskIDs state" and "OptionalTaskIDs s = OptionalTaskIDs state" by blast+
qed

text \<open>Resolution stays within the known tasks.\<close>

lemma build_successor_values: "snd ` set (build_successor succs xs) \<subseteq> snd ` set succs \<union> fst ` set xs"
proof (induction succs xs rule: build_successor.induct)
  case (2 succs newID oldID rest)
  have u: "snd ` set (AList.update oldID newID succs) \<subseteq> insert newID (snd ` set succs)"
    using set_update_subset [of oldID newID succs] by auto
  show ?case
  proof (cases "map_of succs oldID")
    case None
    then show ?thesis using 2(1) [OF None] u by auto
  next
    case (Some cur)
    then show ?thesis using 2(2,3) [OF Some] u by (cases "newID \<le> cur") auto
  qed
qed simp

lemma latest_desc_in: "latest_desc succs cur visited = Inr d \<Longrightarrow> d = cur \<or> d \<in> snd ` set succs"
proof (induction succs cur visited rule: latest_desc.induct)
  case (1 succs cur visited)
  show ?case
  proof (cases "map_of succs cur")
    case None
    then show ?thesis using 1(2) by (subst (asm) latest_desc.simps) (auto split: if_splits)
  next
    case (Some nxt)
    have "cur \<notin> set visited" "\<not> maxLineageDepth \<le> length visited" "latest_desc succs nxt (cur # visited) = Inr d"
      using 1(2) Some by (subst (asm) latest_desc.simps, auto split: if_splits)+
    from 1(1) [OF this(1,2) Some this(3)] map_of_SomeD [OF Some] show ?thesis by force
  qed
qed

lemma resolved_known:
  assumes "resolveBlockedByViaLineage ds lineage = Inr rs" and "set ds \<subseteq> K" and "fst ` set lineage \<subseteq> K"
  shows "set rs \<subseteq> K"
proof -
  have v: "snd ` set (buildSuccessorMap lineage) \<subseteq> K" using build_successor_values [of "[]" lineage] assms(3) by (auto simp: buildSuccessorMap_def)
  have "resolve_all (buildSuccessorMap lineage) ds = Inr rs \<Longrightarrow> set ds \<subseteq> K \<Longrightarrow> set rs \<subseteq> K"
  proof (induction ds arbitrary: rs)
    case (Cons d ds)
    then obtain r rs' where "getLatestDescendant d (buildSuccessorMap lineage) = Inr r" "resolve_all (buildSuccessorMap lineage) ds = Inr rs'" "rs = r # rs'"
      by (auto split: sum.splits)
    moreover have "r \<in> K" using latest_desc_in [OF calculation(1) [unfolded getLatestDescendant_def]] v Cons.prems(2) by auto
    ultimately show ?case using Cons by auto
  qed simp
  then show ?thesis using assms(1,2) by (simp add: resolveBlockedByViaLineage_def)
qed

section \<open>What a recovery keeps\<close>

definition fresh_ok :: "CommandState \<Rightarrow> (string \<times> stamp \<times> stamp) list \<Rightarrow> bool" where
  "fresh_ok state fresh = (distinct (map fst fresh) \<and> fst ` set fresh \<inter> known_tasks state = {})"

definition recovered_ok :: "CommandState \<Rightarrow> CascadeRecoveredTask list \<Rightarrow> bool" where
  "recovered_ok state rs =
     (\<forall>r \<in> set rs. map_of (TaskStates state) (cr_TaskID r) = Some StatusPlanned
        \<and> map_of (RetryLineage state) (cr_TaskID r) = Some (cr_Replaced r))"

text \<open>Seen from an earlier state: nothing known is lost, and statuses, lineage and slots of what was not a
  candidate are as they were.\<close>

definition keeps_task :: "CommandState \<Rightarrow> CommandState \<Rightarrow> string \<Rightarrow> bool" where
  "keeps_task s0 s x =
     (map_of (TaskStates s) x = map_of (TaskStates s0) x \<and> map_of (RetryLineage s) x = map_of (RetryLineage s0) x
      \<and> (x \<in> set (RequiredTaskIDs s) \<longrightarrow> x \<in> set (RequiredTaskIDs s0))
      \<and> (x \<in> set (OptionalTaskIDs s) \<longrightarrow> x \<in> set (OptionalTaskIDs s0))
      \<and> (x \<notin> fst ` set (CancelledReasons s0) \<longrightarrow>
           (x \<in> set (RequiredTaskIDs s0) \<longrightarrow> x \<in> set (RequiredTaskIDs s))
           \<and> (x \<in> set (OptionalTaskIDs s0) \<longrightarrow> x \<in> set (OptionalTaskIDs s))))"

definition extends_plan :: "CommandState \<Rightarrow> CommandState \<Rightarrow> bool" where
  "extends_plan s0 s =
     (known_tasks s0 \<subseteq> known_tasks s \<and> CancelledReasons s = CancelledReasons s0 \<and> (\<forall>x \<in> known_tasks s0. keeps_task s0 s x))"

lemma extends_refl [simp]: "extends_plan s s"
  by (simp add: extends_plan_def keeps_task_def)

lemma extends_trans: "extends_plan a b \<Longrightarrow> extends_plan b c \<Longrightarrow> extends_plan a c"
proof -
  assume ab: "extends_plan a b" and bc: "extends_plan b c"
  have cr: "CancelledReasons b = CancelledReasons a" using ab unfolding extends_plan_def by blast
  have "keeps_task a c x" if "x \<in> known_tasks a" for x
  proof -
    have "keeps_task a b x" "keeps_task b c x" using ab bc that unfolding extends_plan_def by blast+
    then show ?thesis unfolding keeps_task_def cr by (elim conjE, intro conjI impI; (simp only:)?; blast?)
  qed
  then show "extends_plan a c" using ab bc unfolding extends_plan_def by auto
qed

definition cascade_ok :: "CommandState \<Rightarrow> CascadeRun \<Rightarrow> bool" where
  "cascade_ok s0 run =
     (plan_struct (cs_state run) \<and> fresh_ok (cs_state run) (cs_fresh run) \<and> recovered_ok (cs_state run) (cs_recovered run)
      \<and> extends_plan s0 (cs_state run))"

lemma replace_first_keeps: "x \<in> set xs \<Longrightarrow> x \<noteq> old \<Longrightarrow> x \<in> set (replace_first old new xs)"
  by (induction xs) auto

lemma replace_task_extends:
  assumes "new \<notin> known_tasks state" and "plan_struct state" and "old \<in> fst ` set (CancelledReasons state)"
  shows "extends_plan state (replace_task old new deps now state)"
proof -
  let ?s = "replace_task old new deps now state" and ?r = "replaceInRequiredOrOptional old new state"
  note f = replace_task_fields [where old = old and new = new and deps = deps and now = now and state = state]
  have k: "known_tasks ?s = insert new (known_tasks state)" by (simp add: known_tasks_def f(1) dom_update)
  have slots: "set (RequiredTaskIDs ?r) \<subseteq> insert new (set (RequiredTaskIDs state))" "set (OptionalTaskIDs ?r) \<subseteq> insert new (set (OptionalTaskIDs state))"
    using replace_first_props(4) [of old new] by (auto simp: replaceInRequiredOrOptional_def Let_def)
  have keep: "x \<noteq> old \<Longrightarrow> x \<in> set (RequiredTaskIDs state) \<Longrightarrow> x \<in> set (RequiredTaskIDs ?r)"
    "x \<noteq> old \<Longrightarrow> x \<in> set (OptionalTaskIDs state) \<Longrightarrow> x \<in> set (OptionalTaskIDs ?r)" for x
    by (simp_all add: replaceInRequiredOrOptional_def Let_def replace_first_keeps)
  have one: "keeps_task state ?s x" if x: "x \<in> known_tasks state" for x
  proof -
    have xn: "x \<noteq> new" using x assms(1) by blast
    have xo: "x \<notin> fst ` set (CancelledReasons state) \<Longrightarrow> x \<noteq> old" using assms(3) by blast
    show ?thesis unfolding keeps_task_def f(1,3,6,7) using xn slots keep [of x] xo by auto
  qed
  show ?thesis unfolding extends_plan_def k f(5) using one by blast
qed

lemma mutation_checked_Inr: "mutation_checked s = Inr s' \<longleftrightarrow> s' = s \<and> ValidateTaskDAGAfterMutation s = Inr ()"
  by (auto simp: mutation_checked_def split: sum.splits)

lemma findPhase_bound: "findPhaseForTask state t = Some i \<Longrightarrow> i < length (Phases state)"
  unfolding findPhaseForTask_def by (drule find_index_Some) blast

lemma recovered_ok_extends:
  assumes "recovered_ok s rs" and "extends_plan s s'"
  shows "recovered_ok s' rs"
proof -
  have "map_of (TaskStates s') (cr_TaskID r) = Some StatusPlanned \<and> map_of (RetryLineage s') (cr_TaskID r) = Some (cr_Replaced r)"
    if r: "r \<in> set rs" for r
  proof -
    have o: "map_of (TaskStates s) (cr_TaskID r) = Some StatusPlanned" "map_of (RetryLineage s) (cr_TaskID r) = Some (cr_Replaced r)"
      using assms(1) r unfolding recovered_ok_def by blast+
    have "cr_TaskID r \<in> known_tasks s" using map_of_SomeD [OF o(1)] unfolding known_tasks_def by force
    then have "keeps_task s s' (cr_TaskID r)" using assms(2) unfolding extends_plan_def by blast
    then show ?thesis using o unfolding keeps_task_def by simp
  qed
  then show ?thesis unfolding recovered_ok_def by blast
qed

lemma recover_one_ok:
  assumes run: "recover_one fleet cache failed new c run = Inr (newID, run')" and ok: "cascade_ok s0 run"
    and known: "new \<in> known_tasks (cs_state run)" and c: "c \<in> fst ` set (CancelledReasons s0)"
  shows "cascade_ok s0 run'" and "newID \<in> known_tasks (cs_state run')"
    and "map cr_Replaced (cs_recovered run') = map cr_Replaced (cs_recovered run) @ [c]"
    and "extends_plan (cs_state run) (cs_state run')"
proof -
  let ?s = "cs_state run"
  obtain id now re fresh where f: "cs_fresh run = (id, now, re) # fresh" using run by (auto simp: recover_one_def split: list.splits)
  obtain deps where d: "resolveBlockedByViaLineage (zget [] (TaskDependencies ?s) c) (RetryLineage ?s) = Inr deps"
    using run f by (auto simp: recover_one_def split: sum.splits)
  let ?deps = "map (rename_dep failed new) deps"
  obtain a where a: "assign_one_to fleet (cs_workers run) ''__cascade_recovery''
      (case map_of cache c of None \<Rightarrow> 3 | Some orig \<Rightarrow> tk_BloomLevel orig) = Inr a"
    using run f d by (auto simp: recover_one_def Let_def split: sum.splits)
  obtain s' where r: "updateTaskStateForCascade c id ?deps now re ?s = Inr s'" "newID = id"
    "run' = \<lparr>cs_state = s', cs_workers = bump_worker (wa_WorkerID a) (cs_workers run),
      cs_recovered = cs_recovered run @ [\<lparr>cr_TaskID = id, cr_Worker = wa_WorkerID a, cr_Model = wa_Model a, cr_Replaced = c\<rparr>],
      cs_fresh = fresh\<rparr>"
    using run f d a by (auto simp: recover_one_def Let_def split: sum.splits)
  have w: "plan_struct ?s" "fresh_ok ?s (cs_fresh run)" "recovered_ok ?s (cs_recovered run)" "extends_plan s0 ?s"
    using ok unfolding cascade_ok_def by blast+
  have id: "id \<notin> known_tasks ?s" "distinct (map fst fresh)" "id \<notin> fst ` set fresh" "fst ` set fresh \<inter> known_tasks ?s = {}"
    using w(2) unfolding fresh_ok_def f by auto
  have gw: "graph_wf ?s" and lk: "fst ` set (RetryLineage ?s) \<subseteq> known_tasks ?s"
    and ph: "set (concat (map ph_TaskIDs (Phases ?s))) \<subseteq> known_tasks ?s"
    using w(1) unfolding plan_struct_def by blast+
  have "set deps \<subseteq> known_tasks ?s" by (rule resolved_known [OF d graph_refs [OF gw] lk])
  then have dk: "set ?deps \<subseteq> known_tasks ?s" using known by (auto simp: rename_dep_def)
  let ?s1 = "replace_task c id ?deps now ?s"
  note rt = replace_task_struct [OF w(1) id(1) dk, where old = c and now = now]
  obtain s2 where j: "join_phase (findPhaseForTask ?s c) id re ?s1 = Inr s2" "s' = s2"
    using r(1) by (auto simp: updateTaskStateForCascade_def mutation_checked_Inr split: sum.splits)
  have p1: "Phases ?s1 = Phases ?s" by (rule replace_task_fields)
  note js = join_phase_struct [OF rt(1) _ _ _ j(1)]
  have jp: "plan_struct s2" "known_tasks s2 = known_tasks ?s1" "CancelledReasons s2 = CancelledReasons ?s1" "TaskStates s2 = TaskStates ?s1"
    "RetryLineage s2 = RetryLineage ?s1" "RequiredTaskIDs s2 = RequiredTaskIDs ?s1" "OptionalTaskIDs s2 = OptionalTaskIDs ?s1"
    using id(1) ph findPhase_bound rt(2) unfolding p1 by (intro js; (unfold p1)?; auto)+
  have cr: "CancelledReasons ?s = CancelledReasons s0" using w(4) unfolding extends_plan_def by blast
  have "extends_plan ?s ?s1" by (rule replace_task_extends [OF id(1) w(1)]) (use c cr in simp)
  then show ex: "extends_plan (cs_state run) (cs_state run')" unfolding r(3) j(2) extends_plan_def keeps_task_def by (simp add: jp)
  have kn: "known_tasks s' = insert id (known_tasks ?s)" using jp(2) rt(2) j(2) by simp
  show "newID \<in> known_tasks (cs_state run')" unfolding r(2,3) using kn by simp
  show "map cr_Replaced (cs_recovered run') = map cr_Replaced (cs_recovered run) @ [c]" unfolding r(3) by simp
  have e0: "extends_plan s0 (cs_state run')" by (rule extends_trans [OF w(4) ex])
  have "recovered_ok (cs_state run') (cs_recovered run)" by (rule recovered_ok_extends [OF w(3) ex])
  moreover have "map_of (TaskStates s') id = Some StatusPlanned" "map_of (RetryLineage s') id = Some c"
    unfolding j(2) jp(4,5) replace_task_fields by simp_all
  ultimately have "recovered_ok (cs_state run') (cs_recovered run')" unfolding r(3) recovered_ok_def by auto
  moreover have "fresh_ok (cs_state run') (cs_fresh run')" unfolding r(3) fresh_ok_def using id kn by auto
  moreover have "plan_struct (cs_state run')" unfolding r(3) using jp(1) j(2) by simp
  ultimately show "cascade_ok s0 run'" using e0 unfolding cascade_ok_def by blast
qed

text \<open>Which cancelled task names which failed one as its cause.\<close>

definition caused :: "CommandState \<Rightarrow> (string \<times> string) set" where
  "caused state = {(d, c). map_of (CancelledReasons state) c = Some (CascadeBlockedReasonPrefix @ d)}"

lemma candidates_caused:
  assumes "distinct (map fst (CancelledReasons state))"
  shows "set (findCascadeCandidates state d) = caused state `` {d}"
  using assms by (auto simp: findCascadeCandidates_def caused_def map_of_eq_Some_iff image_iff)

lemma not_command_cancel: "''command_cancel_requested'' \<noteq> CascadeBlockedReasonPrefix @ d"
  by (simp add: CascadeBlockedReasonPrefix_def)

lemma recover_each_ok:
  assumes "recover_each fleet cache d failed new cands run = Inr run'" and "cascade_ok s0 run"
    and "distinct (map fst (CancelledReasons s0))" and "set cands \<subseteq> caused s0 `` {failed}" and "new \<in> known_tasks (cs_state run)"
  shows "cascade_ok s0 run' \<and> known_tasks (cs_state run) \<subseteq> known_tasks (cs_state run')
    \<and> set (map cr_Replaced (cs_recovered run')) = set (map cr_Replaced (cs_recovered run)) \<union> (caused s0)\<^sup>* `` set cands"
  using assms
proof (induction fleet cache d failed new cands run arbitrary: run' rule: recover_each.induct)
  case (2 fleet cache d failed new c cands run)
  have cr: "CancelledReasons (cs_state run) = CancelledReasons s0"
    using 2(5) unfolding cascade_ok_def extends_plan_def by blast
  have cc: "(failed, c) \<in> caused s0" using 2(7) by auto
  have reason: "map_of (CancelledReasons s0) c = Some (CascadeBlockedReasonPrefix @ failed)" using cc by (simp add: caused_def)
  have noskip: "map_of (CancelledReasons (cs_state run)) c \<noteq> Some ''command_cancel_requested''"
    using reason not_command_cancel [of failed] by (simp add: cr)
  obtain newID run1 where one: "recover_one fleet cache failed new c run = Inr (newID, run1)"
    using 2(4) noskip by (auto split: sum.splits prod.splits)
  obtain d' where d': "d = Suc d'" using 2(4) noskip one by (cases d) auto
  obtain run2 where r2: "recover_each fleet cache d' c newID (findCascadeCandidates (cs_state run1) c) run1 = Inr run2"
    using 2(4) noskip one d' by (auto split: sum.splits)
  have r3: "recover_each fleet cache d failed new cands run2 = Inr run'" using 2(4) noskip one d' r2 by simp
  have ck: "c \<in> fst ` set (CancelledReasons s0)" using map_of_SomeD [OF reason] by force
  note ro = recover_one_ok [OF one 2(5,8) ck]
  have cr1: "CancelledReasons (cs_state run1) = CancelledReasons s0" using ro(1) unfolding cascade_ok_def extends_plan_def by blast
  have cands1: "set (findCascadeCandidates (cs_state run1) c) = caused s0 `` {c}"
    using candidates_caused [of s0 c] 2(6) by (simp add: findCascadeCandidates_def cr1)
  have k1: "known_tasks (cs_state run) \<subseteq> known_tasks (cs_state run1)" using ro(4) unfolding extends_plan_def by blast
  have ih1: "cascade_ok s0 run2 \<and> known_tasks (cs_state run1) \<subseteq> known_tasks (cs_state run2)
    \<and> set (map cr_Replaced (cs_recovered run2)) = set (map cr_Replaced (cs_recovered run1)) \<union> (caused s0)\<^sup>* `` (caused s0 `` {c})"
    using 2(2) [OF noskip one refl d' r2 ro(1) 2(6) _ ro(2)] unfolding cands1 by blast
  have ih2: "cascade_ok s0 run' \<and> known_tasks (cs_state run2) \<subseteq> known_tasks (cs_state run')
    \<and> set (map cr_Replaced (cs_recovered run')) = set (map cr_Replaced (cs_recovered run2)) \<union> (caused s0)\<^sup>* `` set cands"
  proof -
    have n2: "new \<in> known_tasks (cs_state run2)" using 2(8) k1 ih1 by blast
    have ok2: "cascade_ok s0 run2" using ih1 by blast
    have c2: "set cands \<subseteq> caused s0 `` {failed}" using 2(7) by simp
    show ?thesis by (rule 2(3) [OF noskip one refl d' r2 r3 ok2 2(6) c2 n2])
  qed
  have star: "(caused s0)\<^sup>* `` set (c # cands) = {c} \<union> (caused s0)\<^sup>* `` (caused s0 `` {c}) \<union> (caused s0)\<^sup>* `` set cands"
    by (auto elim: converse_rtranclE intro: converse_rtrancl_into_rtrancl)
  show ?case using ih1 ih2 k1 ro(3) unfolding star by auto
qed auto

lemma cascadeRecover_ok:
  assumes run: "cascadeRecover fleet cache workers fresh failed new state = Inr (state', recovered)" and wf: "plan_struct state"
    and fresh: "fresh_ok state fresh" and reasons: "distinct (map fst (CancelledReasons state))" and new: "new \<in> known_tasks state"
  shows "plan_struct state'" and "extends_plan state state'" and "recovered_ok state' recovered"
    and "set (map cr_Replaced recovered) = (caused state)\<^sup>+ `` {failed}"
proof -
  let ?run = "\<lparr>cs_state = state, cs_workers = workers, cs_recovered = [], cs_fresh = fresh\<rparr>"
  obtain run' where r: "recover_each fleet cache (maxCascadeRecoverDepth - 1) failed new (findCascadeCandidates state failed) ?run = Inr run'"
    "state' = cs_state run'" "recovered = cs_recovered run'"
    using run by (auto simp: cascadeRecover_def cascadeRecoverRecursive_def split: sum.splits)
  have ok: "cascade_ok state ?run" using wf fresh by (simp add: cascade_ok_def recovered_ok_def)
  note c = candidates_caused [OF reasons, of failed]
  have "cascade_ok state run' \<and> set (map cr_Replaced (cs_recovered run')) = (caused state)\<^sup>* `` (caused state `` {failed})"
    using recover_each_ok [OF r(1) ok reasons _ ] c new by simp
  moreover have "(caused state)\<^sup>* `` (caused state `` {failed}) = (caused state)\<^sup>+ `` {failed}"
    by (auto simp: trancl_unfold_left elim: converse_rtranclE dest: rtrancl_into_trancl2 tranclD)
  ultimately show "plan_struct state'" "extends_plan state state'" "recovered_ok state' recovered"
    "set (map cr_Replaced recovered) = (caused state)\<^sup>+ `` {failed}"
    unfolding r(2,3) cascade_ok_def by simp_all
qed

section \<open>The state after a retry\<close>

lemma supersede_fields:
  "known_tasks (supersede_paused old new now state) \<subseteq> known_tasks state" "known_tasks state \<subseteq> known_tasks (supersede_paused old new now state)"
  "TaskDependencies (supersede_paused old new now state) = TaskDependencies state"
  "RequiredTaskIDs (supersede_paused old new now state) = RequiredTaskIDs state" "OptionalTaskIDs (supersede_paused old new now state) = OptionalTaskIDs state"
  "RetryLineage (supersede_paused old new now state) = RetryLineage state" "SystemCommitTaskID (supersede_paused old new now state) = SystemCommitTaskID state"
  "ExpectedTaskCount (supersede_paused old new now state) = ExpectedTaskCount state" "Phases (supersede_paused old new now state) = Phases state"
  "i \<noteq> old \<Longrightarrow> map_of (TaskStates (supersede_paused old new now state)) i = map_of (TaskStates state) i"
proof -
  have "old \<in> fst ` set (TaskStates state)" if "map_of (TaskStates state) old = Some st" for st
    using map_of_SomeD [OF that] by force
  then show "known_tasks (supersede_paused old new now state) \<subseteq> known_tasks state" "known_tasks state \<subseteq> known_tasks (supersede_paused old new now state)"
    by (auto simp: supersede_paused_def SetTaskState_def known_tasks_def dom_update)
qed (simp_all add: supersede_paused_def SetTaskState_def)

lemma supersede_graph: "graph_wf state \<Longrightarrow> graph_wf (supersede_paused old new now state)"
proof -
  assume w: "graph_wf state"
  have k: "known_tasks (supersede_paused old new now state) = known_tasks state" using supersede_fields(1,2) by (rule subset_antisym)
  have "distinct (map fst (TaskStates (supersede_paused old new now state)))"
    using w by (simp add: supersede_paused_def SetTaskState_def graph_wf_def distinct_update)
  then show ?thesis using w unfolding graph_wf_def k supersede_fields(3) by blast
qed

lemma supersede_struct: "plan_struct state \<Longrightarrow> plan_struct (supersede_paused old new now state)"
proof -
  assume w: "plan_struct state"
  have k: "known_tasks (supersede_paused old new now state) = known_tasks state" using supersede_fields(1,2) by (rule subset_antisym)
  show ?thesis using w supersede_graph [where state = state and old = old and new = new and now = now] unfolding plan_struct_def k supersede_fields(3-9) by blast
qed

lemma supersede_reasons:
  assumes "distinct (map fst (CancelledReasons state))"
  shows "distinct (map fst (CancelledReasons (supersede_paused old new now state)))"
    and "fst ` set (CancelledReasons (supersede_paused old new now state)) \<subseteq> insert old (fst ` set (CancelledReasons state))"
    and "map_of (TaskStates state) old \<noteq> Some StatusPausedForReplan \<or> map_of (CancelledReasons state) old = None \<Longrightarrow>
      caused (supersede_paused old new now state) = caused state"
proof -
  show "distinct (map fst (CancelledReasons (supersede_paused old new now state)))"
    using assms by (simp add: supersede_paused_def distinct_update)
  show "fst ` set (CancelledReasons (supersede_paused old new now state)) \<subseteq> insert old (fst ` set (CancelledReasons state))"
    by (auto simp: supersede_paused_def dom_update)
  have "''superseded_by_retry:'' @ x \<noteq> CascadeBlockedReasonPrefix @ d" for x d by (simp add: CascadeBlockedReasonPrefix_def)
  then show "caused (supersede_paused old new now state) = caused state"
    if "map_of (TaskStates state) old \<noteq> Some StatusPausedForReplan \<or> map_of (CancelledReasons state) old = None"
    using that by (auto simp: caused_def supersede_paused_def)
qed

lemma purge_fields [simp]:
  "TaskStates (purgeSupersededRetryEntries state) = TaskStates state" "RetryLineage (purgeSupersededRetryEntries state) = RetryLineage state"
  "RequiredTaskIDs (purgeSupersededRetryEntries state) = RequiredTaskIDs state" "OptionalTaskIDs (purgeSupersededRetryEntries state) = OptionalTaskIDs state"
  "SystemCommitTaskID (purgeSupersededRetryEntries state) = SystemCommitTaskID state" "Phases (purgeSupersededRetryEntries state) = Phases state"
  "ExpectedTaskCount (purgeSupersededRetryEntries state) = ExpectedTaskCount state" "known_tasks (purgeSupersededRetryEntries state) = known_tasks state"
  by (simp_all add: purgeSupersededRetryEntries_def Let_def known_tasks_def)

lemma purge_wf:
  assumes "plan_wf state"
  shows "plan_wf (purgeSupersededRetryEntries state)"
proof -
  let ?s = "purgeSupersededRetryEntries state"
  have gw: "graph_wf state" and mut: "ValidateTaskDAGAfterMutation state = Inr ()" using assms unfolding plan_wf_def by blast+
  obtain P where P: "TaskDependencies ?s = filter P (TaskDependencies state)" by (simp add: purgeSupersededRetryEntries_def Let_def)
  have sub: "set (TaskDependencies ?s) \<subseteq> set (TaskDependencies state)" unfolding P by auto
  have dd: "distinct (map fst (TaskDependencies ?s))" unfolding P using gw by (simp add: graph_wf_def distinct_map_filter)
  have gs: "graph_wf ?s" using gw sub dd unfolding graph_wf_def purge_fields by blast
  have fewer: "set (zget [] (TaskDependencies ?s) t) \<subseteq> set (zget [] (TaskDependencies state) t)" for t
  proof (cases "zget [] (TaskDependencies ?s) t = []")
    case False
    from zget_In [OF this] sub have "(t, zget [] (TaskDependencies ?s) t) \<in> set (TaskDependencies state)" by blast
    then have "zget [] (TaskDependencies state) t = zget [] (TaskDependencies ?s) t"
      using gw by (intro zget_Some map_of_is_SomeI) (simp add: graph_wf_def)
    then show ?thesis by simp
  qed simp
  obtain order where o: "task_order state order" using mutation_okD(1) [OF mut gw] by blast
  have "task_order ?s order" by (rule task_order_fewer [OF o gw _ fewer]) simp
  moreover have "validateCrossPhaseRefs ?s = Inr ()"
    by (rule cross_ok_shape [OF mutation_okD(2) [OF mut gw]]) (use sub in auto)
  ultimately have "ValidateTaskDAGAfterMutation ?s = Inr ()" by (intro mutation_ok [OF gs])
  then show ?thesis using assms gs unfolding plan_wf_def by simp
qed

definition slot_taken :: "string \<Rightarrow> string \<Rightarrow> CommandState \<Rightarrow> CommandState \<Rightarrow> bool" where
  "slot_taken old new s s' =
     ((old \<in> set (RequiredTaskIDs s) \<longrightarrow> new \<in> set (RequiredTaskIDs s') \<and> old \<notin> set (RequiredTaskIDs s'))
      \<and> (old \<in> set (OptionalTaskIDs s) \<longrightarrow> new \<in> set (OptionalTaskIDs s') \<and> old \<notin> set (OptionalTaskIDs s')))"

lemma replace_slot_taken:
  assumes "plan_struct state" and "new \<notin> known_tasks state"
  shows "slot_taken old new state (replace_task old new deps now state)"
proof -
  have d: "distinct (RequiredTaskIDs state)" "distinct (OptionalTaskIDs state)" "set (RequiredTaskIDs state) \<inter> set (OptionalTaskIDs state) = {}"
    "set (RequiredTaskIDs state @ OptionalTaskIDs state) \<subseteq> known_tasks state"
    using assms(1) unfolding plan_struct_def by auto
  show ?thesis
  proof (cases "new = old")
    case True
    then show ?thesis using assms(2) d(4) by (auto simp: slot_taken_def)
  next
    case False
    note rr = replace_first_props(3) [OF d(1), where old = old and new = new] and ro = replace_first_props(3) [OF d(2), where old = old and new = new]
    show ?thesis using rr ro d(3) False
      by (auto simp: slot_taken_def replace_task_fields replaceInRequiredOrOptional_def Let_def)
  qed
qed

lemma apply_retry_ok:
  assumes run: "applyRetryStateChanges opts cache workers fresh new now phaseIdx blockedBy state = Inr (s', recovered)"
    and wf: "plan_wf state" "lineage_known state" and fresh: "fresh_ok state ((new, now, now) # fresh)"
    and reasons: "distinct (map fst (CancelledReasons state))" "new \<notin> fst ` set (CancelledReasons state)"
    and old: "ro_RetryOf opts = old" "old \<in> known_tasks state" "phaseIdx = findPhaseForTask state old"
    and deps: "set blockedBy \<subseteq> known_tasks state"
    and paused: "map_of (TaskStates state) old \<noteq> Some StatusPausedForReplan \<or> map_of (CancelledReasons state) old = None"
  shows "plan_wf s'" and "lineage_known s'" and "slot_taken old new state s'"
    and "recovered_ok s' (\<lparr>cr_TaskID = new, cr_Worker = w, cr_Model = m, cr_Replaced = old\<rparr> # recovered)"
    and "set (map cr_Replaced recovered) = (caused state)\<^sup>+ `` {old}"
proof -
  let ?s0 = "replace_task old new blockedBy now state"
  let ?s1 = "supersede_paused old new now ?s0"
  have new: "new \<notin> known_tasks state" "distinct (map fst fresh)" "new \<notin> fst ` set fresh" "fst ` set fresh \<inter> known_tasks state = {}"
    using fresh unfolding fresh_ok_def by auto
  have st: "plan_struct state" using wf plan_struct_wf by blast
  have on: "old \<noteq> new" using new(1) old(2) by blast
  obtain s2 s3 where s2: "join_phase phaseIdx new now ?s1 = Inr s2" and cas: "cascadeRecover (ro_Fleet opts) cache workers fresh old new s2 = Inr (s3, recovered)"
    and v3: "ValidateTaskDAGAfterMutation s3 = Inr ()" and s': "s' = (purgeSupersededRetryEntries s3)\<lparr>cs_UpdatedAt := now\<rparr>"
    using run by (auto simp: applyRetryStateChanges_def Let_def old(1) mutation_checked_Inr split: sum.splits prod.splits)
  note r0 = replace_task_struct [OF st new(1) deps, where old = old and now = now]
  have st1: "plan_struct ?s1" by (rule supersede_struct [OF r0(1)])
  have k1: "known_tasks ?s1 = insert new (known_tasks state)" using supersede_fields(1,2) [where old = old and new = new and now = now and state = ?s0] r0(2) by blast
  have p1: "Phases ?s1 = Phases state" unfolding supersede_fields(9) replace_task_fields(4) ..
  have pk: "set (concat (map ph_TaskIDs (Phases state))) \<subseteq> known_tasks state" using st unfolding plan_struct_def by blast
  have nin: "new \<in> known_tasks ?s1" "new \<notin> set (concat (map ph_TaskIDs (Phases ?s1)))" using k1 pk new(1) unfolding p1 by blast+
  have bound: "\<And>i. phaseIdx = Some i \<Longrightarrow> i < length (Phases ?s1)" unfolding p1 using findPhase_bound old(3) by metis
  have j: "plan_struct s2" "known_tasks s2 = known_tasks ?s1" "CancelledReasons s2 = CancelledReasons ?s1" "TaskStates s2 = TaskStates ?s1"
    "TaskDependencies s2 = TaskDependencies ?s1" "RetryLineage s2 = RetryLineage ?s1"
    "RequiredTaskIDs s2 = RequiredTaskIDs ?s1" "OptionalTaskIDs s2 = OptionalTaskIDs ?s1"
    by (rule join_phase_struct [OF st1 nin _ s2], erule bound)+
  have cr0: "CancelledReasons ?s0 = CancelledReasons state" by (rule replace_task_fields)
  note sr = supersede_reasons [where state = ?s0 and old = old and new = new and now = now, unfolded cr0, OF reasons(1)]
  have crd: "distinct (map fst (CancelledReasons s2))" unfolding j(3) by (rule sr(1))
  have crn: "new \<notin> fst ` set (CancelledReasons s2)" using sr(2) reasons(2) on unfolding j(3) by blast
  have ts0: "map_of (TaskStates ?s0) old = map_of (TaskStates state) old" using on by (simp add: replace_task_fields)
  have "caused ?s1 = caused ?s0" using sr(3) paused unfolding ts0 by blast
  then have cau: "caused s2 = caused state" by (simp add: caused_def j(3) cr0)
  have fr2: "fresh_ok s2 fresh" using new unfolding fresh_ok_def j(2) k1 by auto
  have n2: "new \<in> known_tasks s2" using nin(1) unfolding j(2) .
  note c = cascadeRecover_ok [OF cas j(1) fr2 crd n2]
  have w3: "plan_wf s3" "lineage_known s3" using c(1) v3 plan_struct_wf by blast+
  have "plan_wf ((purgeSupersededRetryEntries s3)\<lparr>cs_UpdatedAt := now\<rparr>)" by (rule plan_wf_cong [OF _ _ _ _ _ _ _ _ purge_wf [OF w3(1)]]) simp_all
  then show "plan_wf s'" unfolding s' .
  show "lineage_known s'" using w3(2) unfolding lineage_known_def s' by (simp add: known_tasks_def)
  show "set (map cr_Replaced recovered) = (caused state)\<^sup>+ `` {old}" using c(4) unfolding cau .
  have keep: "keeps_task s2 s3 new" "keeps_task s2 s3 old" using c(2) n2 old(2) k1 j(2) unfolding extends_plan_def by blast+
  have slot1: "slot_taken old new state ?s1"
    using replace_slot_taken [OF st new(1), where old = old and deps = blockedBy and now = now] by (simp only: slot_taken_def supersede_fields)
  have sl2: "slot_taken old new state s2" using slot1 unfolding slot_taken_def j(7,8) .
  have "slot_taken old new state s3" using sl2 keep crn unfolding slot_taken_def keeps_task_def by blast
  then show "slot_taken old new state s'" unfolding s' slot_taken_def by simp
  have t1: "map_of (TaskStates ?s1) new = Some StatusPlanned" "map_of (RetryLineage ?s1) new = Some old"
    using supersede_fields(10) [where i = new and old = old and new = new and now = now and state = ?s0] on by (simp_all add: supersede_fields(6) replace_task_fields)
  have "map_of (TaskStates s3) new = Some StatusPlanned" "map_of (RetryLineage s3) new = Some old"
    using keep(1) t1 unfolding keeps_task_def j(4,6) by simp_all
  then show "recovered_ok s' (\<lparr>cr_TaskID = new, cr_Worker = w, cr_Model = m, cr_Replaced = old\<rparr> # recovered)"
    using c(3) unfolding recovered_ok_def s' by simp
qed

end
