(* ===== verification/Retry_Queue.thy ===== *)
theory Retry_Queue imports Retry begin

text \<open>
  The queue rows of a retry (\<open>internal/plan/retry_queue.go\<close>, the second half of \<open>retry.go\<close>): the row of the
  replacement and of every recovered task, the mark on the row of the retried task, the save of the state with its
  time limit, and the rollback of all of it. A write that fails is one its name says fails. A corrupt queue
  file, which the reader of the originals skips, is not part of the disk.
\<close>

section \<open>Rows\<close>

record retryQueueTask =
  rq_taskID :: string
  rq_commandID :: string
  rq_purpose :: string
  rq_content :: string
  rq_acceptanceCriteria :: string
  rq_definitionOfDone :: "string list"
  rq_constraints :: "string list"
  rq_blockedBy :: "string list"
  rq_bloomLevel :: int
  rq_toolsHint :: "string list"
  rq_personaHint :: string
  rq_skillRefs :: "string list"
  rq_expectedPaths :: "string list"
  rq_definitionOfAbort :: "DefinitionOfAbort option"
  rq_workerID :: string
  rq_runOnMain :: bool
  rq_runOnIntegration :: bool
  rq_operationType :: string
  rq_resumeHint :: string

definition retry_row :: "retryQueueTask \<Rightarrow> stamp \<Rightarrow> Task" where
  "retry_row t now =
     (zero_Task (rq_taskID t) StatusPending)
       \<lparr>q_Priority := 100, q_CreatedAt := now, q_UpdatedAt := now, tk_CommandID := rq_commandID t,
        tk_Purpose := rq_purpose t, tk_Content := rq_content t, tk_AcceptanceCriteria := rq_acceptanceCriteria t,
        tk_DefinitionOfDone := rq_definitionOfDone t, tk_Constraints := rq_constraints t, tk_BlockedBy := rq_blockedBy t,
        tk_BloomLevel := rq_bloomLevel t, tk_ToolsHint := rq_toolsHint t, tk_PersonaHint := rq_personaHint t,
        tk_SkillRefs := rq_skillRefs t, tk_ExpectedPaths := rq_expectedPaths t,
        tk_DefinitionOfAbort := rq_definitionOfAbort t, tk_RunOnMain := rq_runOnMain t,
        tk_RunOnIntegration := rq_runOnIntegration t, tk_OperationType := rq_operationType t,
        tk_ResumeHint := rq_resumeHint t\<rparr>"

definition writeRetryQueueEntry :: "retryQueueTask \<Rightarrow> stamp \<Rightarrow> (string, Task list) gomap \<Rightarrow> (string, Task list) gomap" where
  "writeRetryQueueEntry t now queues =
     AList.update (rq_workerID t) (rows_of queues (rq_workerID t) @ [retry_row t now]) queues"

text \<open>The queue files of the workers, in the order of the directory; a later row of the same id wins.\<close>

definition worker_files :: "(string, Task list) gomap \<Rightarrow> string list" where
  "worker_files queues = sort_key (\<lambda>w. w @ ''.yaml'') (filter (\<lambda>w. has_prefix w ''worker'') (map fst queues))"

definition loadOriginalTasksFromQueue :: "string \<Rightarrow> (string, Task list) gomap \<Rightarrow> (string, Task) gomap" where
  "loadOriginalTasksFromQueue commandID queues =
     fold (\<lambda>t m. AList.update (q_ID t) t m)
       (filter (\<lambda>t. tk_CommandID t = commandID) (concat (map (rows_of queues) (worker_files queues)))) []"

text \<open>What was not given is taken from the row of the original; an empty list that was given stays.\<close>

definition inheritRetryFieldsFromOriginal :: "RetryOptions \<Rightarrow> (string, Task) gomap \<Rightarrow> RetryOptions" where
  "inheritRetryFieldsFromOriginal opts cache =
     (case map_of cache (ro_RetryOf opts) of
        None \<Rightarrow> opts
      | Some orig \<Rightarrow>
          opts\<lparr>ro_Constraints := (if ro_Constraints opts = None then Some (tk_Constraints orig) else ro_Constraints opts),
            ro_ToolsHint := (if ro_ToolsHint opts = None then Some (tk_ToolsHint orig) else ro_ToolsHint opts),
            ro_PersonaHint := (if ro_PersonaHint opts = [] then tk_PersonaHint orig else ro_PersonaHint opts),
            ro_SkillRefs := (if ro_SkillRefs opts = None then Some (tk_SkillRefs orig) else ro_SkillRefs opts),
            ro_ResumeHint := (if ro_ResumeHint opts = [] then tk_ResumeHint orig else ro_ResumeHint opts)\<rparr>)"

definition or_empty :: "'a list option \<Rightarrow> 'a list" where
  "or_empty xs = (case xs of None \<Rightarrow> [] | Some ys \<Rightarrow> ys)"

definition buildPrimaryRetryTask :: "RetryOptions \<Rightarrow> string \<Rightarrow> string list \<Rightarrow> string \<Rightarrow> retryQueueTask" where
  "buildPrimaryRetryTask opts taskID blockedBy workerID =
     \<lparr>rq_taskID = taskID, rq_commandID = ro_CommandID opts, rq_purpose = ro_Purpose opts, rq_content = ro_Content opts,
      rq_acceptanceCriteria = ro_AcceptanceCriteria opts, rq_definitionOfDone = ro_DefinitionOfDone opts,
      rq_constraints = or_empty (ro_Constraints opts), rq_blockedBy = blockedBy, rq_bloomLevel = ro_BloomLevel opts,
      rq_toolsHint = or_empty (ro_ToolsHint opts), rq_personaHint = ro_PersonaHint opts,
      rq_skillRefs = or_empty (ro_SkillRefs opts), rq_expectedPaths = or_empty (ro_ExpectedPaths opts),
      rq_definitionOfAbort = ro_DefinitionOfAbort opts, rq_workerID = workerID, rq_runOnMain = False,
      rq_runOnIntegration = False, rq_operationType = ''repair'', rq_resumeHint = ro_ResumeHint opts\<rparr>"

definition buildCascadeQueueTask :: "CascadeRecoveredTask \<Rightarrow> RetryOptions \<Rightarrow> CommandState \<Rightarrow> (string, Task) gomap \<Rightarrow> retryQueueTask" where
  "buildCascadeQueueTask cr opts state cache =
     (let purpose = ''cascade recovery of '' @ cr_Replaced cr;
          bare = \<lparr>rq_taskID = cr_TaskID cr, rq_commandID = ro_CommandID opts, rq_purpose = purpose, rq_content = purpose,
            rq_acceptanceCriteria = purpose, rq_definitionOfDone = [], rq_constraints = [],
            rq_blockedBy = zget [] (TaskDependencies state) (cr_TaskID cr), rq_bloomLevel = ro_BloomLevel opts, rq_toolsHint = [],
            rq_personaHint = [], rq_skillRefs = [], rq_expectedPaths = or_empty (ro_ExpectedPaths opts),
            rq_definitionOfAbort = ro_DefinitionOfAbort opts, rq_workerID = cr_Worker cr, rq_runOnMain = False,
            rq_runOnIntegration = False, rq_operationType = ''repair'', rq_resumeHint = []\<rparr> in
      case map_of cache (cr_Replaced cr) of
        None \<Rightarrow> bare
      | Some orig \<Rightarrow>
          bare\<lparr>rq_purpose := tk_Purpose orig, rq_content := tk_Content orig,
            rq_acceptanceCriteria := tk_AcceptanceCriteria orig, rq_definitionOfDone := tk_DefinitionOfDone orig,
            rq_constraints := tk_Constraints orig, rq_bloomLevel := tk_BloomLevel orig,
            rq_toolsHint := tk_ToolsHint orig, rq_personaHint := tk_PersonaHint orig, rq_skillRefs := tk_SkillRefs orig,
            rq_expectedPaths := tk_ExpectedPaths orig,
            rq_definitionOfAbort := (case tk_DefinitionOfAbort orig of None \<Rightarrow> ro_DefinitionOfAbort opts | Some d \<Rightarrow> Some d),
            rq_resumeHint := tk_ResumeHint orig\<rparr>)"

section \<open>The mark on the original row\<close>

definition is_row :: "string \<Rightarrow> string \<Rightarrow> Task \<Rightarrow> bool" where
  "is_row taskID commandID t = (q_ID t = taskID \<and> tk_CommandID t = commandID)"

fun mark_row :: "string \<Rightarrow> string \<Rightarrow> Status \<Rightarrow> stamp \<Rightarrow> Task list \<Rightarrow> Task list" where
  "mark_row taskID commandID st now [] = []"
| "mark_row taskID commandID st now (t # ts) =
     (if is_row taskID commandID t then t\<lparr>q_Status := st, q_UpdatedAt := now\<rparr> # ts
      else t # mark_row taskID commandID st now ts)"

text \<open>Every file on the way is written back; the first that holds the row ends the search.\<close>

fun mark_files ::
  "(string \<Rightarrow> bool) \<Rightarrow> string \<Rightarrow> string \<Rightarrow> Status \<Rightarrow> stamp \<Rightarrow> string list \<Rightarrow> (string, Task list) gomap \<Rightarrow>
   (string + Status option) \<times> (string, Task list) gomap" where
  "mark_files ok taskID commandID st now [] queues = (Inr None, queues)"
| "mark_files ok taskID commandID st now (w # ws) queues =
     (if \<not> ok w then (Inl w, queues)
      else case find (is_row taskID commandID) (rows_of queues w) of
        None \<Rightarrow> mark_files ok taskID commandID st now ws queues
      | Some t \<Rightarrow> (Inr (Some (q_Status t)), AList.update w (mark_row taskID commandID st now (rows_of queues w)) queues))"

definition updateOriginalTaskInQueue ::
  "(string \<Rightarrow> bool) \<Rightarrow> string \<Rightarrow> string \<Rightarrow> Status \<Rightarrow> stamp \<Rightarrow> (string, Task list) gomap \<Rightarrow>
   (string + Status option) \<times> (string, Task list) gomap" where
  "updateOriginalTaskInQueue ok taskID commandID st now queues =
     mark_files ok taskID commandID st now (worker_files queues) queues"

section \<open>Writing, saving, rolling back\<close>

definition rollbackRetryQueueEntries :: "io \<Rightarrow> retryQueueTask list \<Rightarrow> (string, Task list) gomap \<Rightarrow> (string, Task list) gomap" where
  "rollbackRetryQueueEntries ok written queues =
     fold (\<lambda>w. rollback_queue ok (map rq_taskID (filter (\<lambda>t. rq_workerID t = w) written)) w)
       (remdups (map rq_workerID written)) queues"

text \<open>The rows in order up to the first that cannot be written: its id, the rows written, the queues.\<close>

fun write_entries ::
  "io \<Rightarrow> stamp \<Rightarrow> retryQueueTask list \<Rightarrow> (string, Task list) gomap \<Rightarrow>
   string option \<times> retryQueueTask list \<times> (string, Task list) gomap" where
  "write_entries ok now [] queues = (None, [], queues)"
| "write_entries ok now (t # ts) queues =
     (if \<not> ok (AppendRow (rq_taskID t)) then (Some (rq_taskID t), [], queues)
      else case write_entries ok now ts (writeRetryQueueEntry t now queues) of
        (failed, written, queues') \<Rightarrow> (failed, t # written, queues'))"

text \<open>A save that ran out of time may still land after the caller has returned.\<close>

datatype SaveOutcome = SaveLanded | SaveFailed | SaveLate bool

definition saveStateWithContext :: "SaveOutcome \<Rightarrow> CommandState \<Rightarrow> CommandState option \<Rightarrow> bool \<times> CommandState option" where
  "saveStateWithContext out state stored =
     (case out of SaveLanded \<Rightarrow> (True, Some state) | SaveFailed \<Rightarrow> (False, stored)
      | SaveLate landed \<Rightarrow> (False, if landed then Some state else stored))"

definition resaveRollbackSnapshotIfCurrentMatches :: "io \<Rightarrow> CommandState \<Rightarrow> CommandState \<Rightarrow> CommandState option \<Rightarrow> CommandState option" where
  "resaveRollbackSnapshotIfCurrentMatches ok orig attempted current =
     (if current = Some attempted \<and> ok ResaveOriginal then Some orig else current)"

definition late_resave :: "io \<Rightarrow> SaveOutcome \<Rightarrow> CommandState \<Rightarrow> CommandState \<Rightarrow> CommandState option \<Rightarrow> CommandState option" where
  "late_resave ok out orig attempted current =
     (case out of SaveLate _ \<Rightarrow> resaveRollbackSnapshotIfCurrentMatches ok orig attempted current | _ \<Rightarrow> current)"

definition writeAndCommitRetryQueue ::
  "io \<Rightarrow> SaveOutcome \<Rightarrow> RetryOptions \<Rightarrow> CommandState \<Rightarrow> CommandState \<Rightarrow> retryQueueTask \<Rightarrow> CascadeRecoveredTask list \<Rightarrow>
   (string, Task) gomap \<Rightarrow> stamp \<Rightarrow> PlanDisk \<Rightarrow> RetryError option \<times> PlanDisk" where
  "writeAndCommitRetryQueue ok out opts orig state primary recovered cache now disk =
     (let rows = primary # map (\<lambda>cr. buildCascadeQueueTask cr opts state cache) recovered in
      case write_entries ok now rows (pd_Queues disk) of
        (Some t, written, queues) \<Rightarrow> (Some (RowNotWritten t), disk\<lparr>pd_Queues := rollbackRetryQueueEntries ok written queues\<rparr>)
      | (None, written, queues) \<Rightarrow>
          (case updateOriginalTaskInQueue (\<lambda>w. ok (MarkOriginal w)) (ro_RetryOf opts) (ro_CommandID opts) StatusCancelled now queues of
             (Inl w, queues1) \<Rightarrow> (Some OriginalNotCancelled, disk\<lparr>pd_Queues := rollbackRetryQueueEntries ok written queues1\<rparr>)
           | (Inr prev, queues1) \<Rightarrow>
               (case saveStateWithContext out state (pd_State disk) of
                  (True, stored) \<Rightarrow> (None, disk\<lparr>pd_State := stored, pd_Queues := queues1\<rparr>)
                | (False, stored) \<Rightarrow>
                    (let queues2 = (case prev of None \<Rightarrow> queues1
                         | Some st \<Rightarrow> snd (updateOriginalTaskInQueue (\<lambda>w. ok (RestoreOriginal w)) (ro_RetryOf opts) (ro_CommandID opts) st now queues1)) in
                     (Some RetryNotSaved,
                      \<lparr>pd_State = late_resave ok out orig state stored,
                       pd_Queues = rollbackRetryQueueEntries ok written queues2\<rparr>)))))"

section \<open>The retry\<close>

record RetryResult =
  rr_TaskID :: string
  rr_Worker :: string
  rr_Model :: string
  rr_Replaced :: string
  rr_CascadeRecovered :: "CascadeRecoveredTask list"

definition assignWorkerForRetry :: "RetryOptions \<Rightarrow> (string, Task list) gomap \<Rightarrow> RetryError + (WorkerAssignment \<times> WorkerState list)" where
  "assignWorkerForRetry opts queues =
     (case BuildWorkerStates (map_of queues) (rf_Workers (ro_Fleet opts)) of
        None \<Rightarrow> Inl NoRetryWorkers
      | Some states \<Rightarrow>
          (case assign_one_to (ro_Fleet opts) states ''__retry'' (ro_BloomLevel opts) of
             Inl e \<Rightarrow> Inl e
           | Inr a \<Rightarrow> Inr (a, bump_worker (wa_WorkerID a) states)))"

definition AddRetryTask ::
  "io \<Rightarrow> SaveOutcome \<Rightarrow> RetryOptions \<Rightarrow> string \<Rightarrow> stamp \<Rightarrow> (string \<times> stamp \<times> stamp) list \<Rightarrow> PlanDisk \<Rightarrow>
   (RetryError + RetryResult) \<times> PlanDisk" where
  "AddRetryTask ok out opts newID now fresh disk =
     (case assignWorkerForRetry opts (pd_Queues disk) of
        Inl e \<Rightarrow> (Inl e, disk)
      | Inr (a, workers) \<Rightarrow>
     (case validateRetryRequest opts (pd_State disk) of
        Inl e \<Rightarrow> (Inl e, disk)
      | Inr (state, phaseIdx, blockedBy) \<Rightarrow>
     (if \<not> ok ReadOriginals then (Inl OriginalsNotRead, disk)
      else let cache = loadOriginalTasksFromQueue (ro_CommandID opts) (pd_Queues disk) in
      case applyRetryStateChanges opts cache workers fresh newID now phaseIdx blockedBy state of
        Inl e \<Rightarrow> (Inl e, disk)
      | Inr (state', recovered) \<Rightarrow>
          (let primary = buildPrimaryRetryTask (inheritRetryFieldsFromOriginal opts cache) newID
                 (zget [] (TaskDependencies state') newID) (wa_WorkerID a) in
           case writeAndCommitRetryQueue ok out opts state state' primary recovered cache now disk of
             (Some e, disk') \<Rightarrow> (Inl e, disk')
           | (None, disk') \<Rightarrow>
               (Inr \<lparr>rr_TaskID = newID, rr_Worker = wa_WorkerID a, rr_Model = wa_Model a,
                  rr_Replaced = ro_RetryOf opts, rr_CascadeRecovered = recovered\<rparr>, disk')))))"

section \<open>What the writes do to the rows\<close>

lemma rows_update: "rows_of (AList.update v rows queues) w = (if w = v then rows else rows_of queues w)"
  by (simp add: rows_of_def)

lemma retry_row_fields [simp]:
  "q_ID (retry_row t now) = rq_taskID t" "q_Status (retry_row t now) = StatusPending" "tk_BlockedBy (retry_row t now) = rq_blockedBy t"
  "tk_CommandID (retry_row t now) = rq_commandID t" "tk_OperationType (retry_row t now) = rq_operationType t"
  by (simp_all add: retry_row_def zero_Task_def)

lemma write_entries_rows:
  "write_entries ok now ts queues = (failed, written, queues') \<Longrightarrow>
     set written \<subseteq> set ts
     \<and> rows_of queues' w = rows_of queues w @ map (\<lambda>t. retry_row t now) (filter (\<lambda>t. rq_workerID t = w) written)
     \<and> (failed = None \<longrightarrow> written = ts)"
proof (induction ts arbitrary: queues written)
  case (Cons t ts)
  show ?case
  proof (cases "ok (AppendRow (rq_taskID t))")
    case True
    then obtain ws where ws: "write_entries ok now ts (writeRetryQueueEntry t now queues) = (failed, ws, queues')" "written = t # ws"
      using Cons.prems by (auto split: prod.splits)
    show ?thesis using Cons.IH [OF ws(1)] ws(2) by (auto simp: writeRetryQueueEntry_def rows_update)
  next
    case False
    then show ?thesis using Cons.prems by auto
  qed
qed simp

lemma retry_rollback_rows:
  assumes ok: "\<forall>w. ok (RollbackQueue w)"
  shows "rows_of (rollbackRetryQueueEntries ok written queues) w
    = filter (\<lambda>t. q_ID t \<notin> rq_taskID ` {t \<in> set written. rq_workerID t = w}) (rows_of queues w)"
proof -
  let ?ids = "\<lambda>w. map rq_taskID (filter (\<lambda>t. rq_workerID t = w) written)"
  have "distinct ws \<Longrightarrow> rows_of (fold (\<lambda>w. rollback_queue ok (?ids w) w) ws queues) w
      = (if w \<in> set ws then filter (\<lambda>t. q_ID t \<notin> set (?ids w)) (rows_of queues w) else rows_of queues w)" for ws queues
    using ok by (induction ws arbitrary: queues) (auto simp: rollback_queue_rows)
  from this [OF distinct_remdups, of "map rq_workerID written" queues]
  have r: "rows_of (rollbackRetryQueueEntries ok written queues) w
      = (if w \<in> rq_workerID ` set written then filter (\<lambda>t. q_ID t \<notin> set (?ids w)) (rows_of queues w) else rows_of queues w)"
    by (simp add: rollbackRetryQueueEntries_def)
  have ids: "set (?ids w) = rq_taskID ` {t \<in> set written. rq_workerID t = w}" by auto
  show ?thesis
  proof (cases "w \<in> rq_workerID ` set written")
    case False
    then have e: "rq_taskID ` {t \<in> set written. rq_workerID t = w} = {}" by auto
    show ?thesis unfolding e using r False by simp
  qed (use r ids in simp)
qed

lemma mark_files_run:
  "mark_files ok T C st now ws queues = (Inr (Some prev), queues') \<Longrightarrow>
     \<exists>pre v post t. ws = pre @ v # post \<and> (\<forall>w \<in> set pre. find (is_row T C) (rows_of queues w) = None)
       \<and> find (is_row T C) (rows_of queues v) = Some t \<and> prev = q_Status t
       \<and> queues' = AList.update v (mark_row T C st now (rows_of queues v)) queues"
proof (induction ws)
  case (Cons w ws)
  have okw: "ok w" using Cons.prems by (auto split: if_splits)
  show ?case
  proof (cases "find (is_row T C) (rows_of queues w)")
    case None
    then have "mark_files ok T C st now ws queues = (Inr (Some prev), queues')" using Cons.prems okw by simp
    from Cons.IH [OF this] obtain pre v post t where p: "ws = pre @ v # post" "\<forall>w \<in> set pre. find (is_row T C) (rows_of queues w) = None"
      "find (is_row T C) (rows_of queues v) = Some t" "prev = q_Status t"
      "queues' = AList.update v (mark_row T C st now (rows_of queues v)) queues" by blast
    then have "w # ws = (w # pre) @ v # post" "\<forall>w \<in> set (w # pre). find (is_row T C) (rows_of queues w) = None" using None by simp_all
    then show ?thesis using p(3-5) by blast
  next
    case (Some t)
    then have "prev = q_Status t" "queues' = AList.update w (mark_row T C st now (rows_of queues w)) queues" using Cons.prems okw by simp_all
    moreover have "w # ws = [] @ w # ws" "\<forall>w \<in> set []. find (is_row T C) (rows_of queues w) = None" by simp_all
    ultimately show ?thesis using Some by blast
  qed
qed simp

lemma mark_files_at:
  assumes "\<forall>w. ok w" and "\<forall>w \<in> set pre. find (is_row T C) (rows_of queues w) = None" and "find (is_row T C) (rows_of queues v) = Some t"
  shows "mark_files ok T C st now (pre @ v # post) queues
    = (Inr (Some (q_Status t)), AList.update v (mark_row T C st now (rows_of queues v)) queues)"
  using assms by (induction pre) auto

lemma mark_files_none:
  "mark_files ok T C st now ws queues = (r, queues') \<Longrightarrow> (\<forall>prev. r \<noteq> Inr (Some prev)) \<Longrightarrow> queues' = queues"
  by (induction ws) (auto split: if_splits option.splits)

text \<open>Rows up to the time of the last change of the retried one.\<close>

definition untimed :: "string \<Rightarrow> Task \<Rightarrow> Task" where
  "untimed T t = (if q_ID t = T then t\<lparr>q_UpdatedAt := BadStamp []\<rparr> else t)"

lemma untimed_id [simp]: "q_ID (untimed T t) = q_ID t"
  by (simp add: untimed_def)

lemma mark_back:
  "find (is_row T C) rows = Some t \<Longrightarrow>
     map (untimed T) (mark_row T C (q_Status t) later (mark_row T C st now rows)) = map (untimed T) rows"
  by (induction rows) (auto simp: untimed_def is_row_def split: if_splits)

lemma mark_finds: "find (is_row T C) rows = Some t \<Longrightarrow> \<exists>t'. find (is_row T C) (mark_row T C st now rows) = Some t' \<and> q_Status t' = st"
  by (induction rows) (auto simp: is_row_def)

lemma mark_keeps: "r \<in> set rows \<Longrightarrow> q_ID r \<noteq> T \<Longrightarrow> r \<in> set (mark_row T C st now rows)"
  by (induction rows) (auto simp: is_row_def)

lemma worker_files_update: "v \<in> set (worker_files queues) \<Longrightarrow> worker_files (AList.update v rows queues) = worker_files queues"
proof -
  assume "v \<in> set (worker_files queues)"
  then have "v \<in> fst ` set queues" by (auto simp: worker_files_def)
  then have "map fst (AList.update v rows queues) = map fst queues" by (simp add: update_keys)
  then show ?thesis by (simp add: worker_files_def)
qed

lemma mark_restore:
  assumes mark: "updateOriginalTaskInQueue ok T C st now queues = (Inr (Some prev), queues1)" and ok': "\<forall>w. ok' w"
  shows "map (untimed T) (rows_of (snd (updateOriginalTaskInQueue ok' T C prev later queues1)) w) = map (untimed T) (rows_of queues w)"
proof -
  obtain pre v post t where p: "worker_files queues = pre @ v # post" "\<forall>w \<in> set pre. find (is_row T C) (rows_of queues w) = None"
    "find (is_row T C) (rows_of queues v) = Some t" "prev = q_Status t"
    "queues1 = AList.update v (mark_row T C st now (rows_of queues v)) queues"
    using mark_files_run [OF mark [unfolded updateOriginalTaskInQueue_def]] by blast
  have wf: "worker_files queues1 = pre @ v # post" unfolding p(5) by (subst worker_files_update) (simp_all add: p(1))
  have vp: "v \<notin> set pre" using p(2,3) by force
  have pre1: "\<forall>w \<in> set pre. find (is_row T C) (rows_of queues1 w) = None" using p(2) vp by (auto simp: p(5) rows_update)
  have r1: "rows_of queues1 v = mark_row T C st now (rows_of queues v)" by (simp add: p(5) rows_update)
  obtain t' where t': "find (is_row T C) (rows_of queues1 v) = Some t'" using mark_finds [OF p(3)] unfolding r1 by blast
  have "updateOriginalTaskInQueue ok' T C prev later queues1
      = (Inr (Some (q_Status t')), AList.update v (mark_row T C prev later (rows_of queues1 v)) queues1)"
    unfolding updateOriginalTaskInQueue_def wf by (rule mark_files_at [OF ok' pre1 t'])
  then show ?thesis using mark_back [OF p(3), of later st now] unfolding r1 p(4) by (simp add: rows_update p(5))
qed

lemma mark_rows_keep:
  assumes "updateOriginalTaskInQueue ok T C st now queues = (Inr prev, queues1)" and "r \<in> set (rows_of queues w)" and "q_ID r \<noteq> T"
  shows "r \<in> set (rows_of queues1 w)"
proof (cases prev)
  case None
  then show ?thesis using mark_files_none [of ok T C st now "worker_files queues" queues] assms by (simp add: updateOriginalTaskInQueue_def)
next
  case (Some p)
  from mark_files_run [OF assms(1) [unfolded Some updateOriginalTaskInQueue_def]] assms(2,3) show ?thesis
    by (auto simp: rows_update intro: mark_keeps)
qed

section \<open>A retry that fails\<close>

lemma rollback_undoes:
  assumes wr: "write_entries ok now ts queues = (failed, written, queues1)" and ok: "\<forall>w. ok (RollbackQueue w)"
    and fresh: "fresh_ids (rq_taskID ` set ts) queues"
    and same: "\<And>w. map (untimed T) (rows_of queues2 w) = map (untimed T) (rows_of queues1 w)"
  shows "map (untimed T) (rows_of (rollbackRetryQueueEntries ok written queues2) w) = map (untimed T) (rows_of queues w)"
proof -
  let ?ids = "rq_taskID ` {t \<in> set written. rq_workerID t = w}"
  note we = write_entries_rows [OF wr, of w]
  have commute: "map (untimed T) (filter (\<lambda>t. q_ID t \<notin> ?ids) rows) = filter (\<lambda>t. q_ID t \<notin> ?ids) (map (untimed T) rows)" for rows
    by (simp add: filter_map comp_def)
  have old: "filter (\<lambda>t. q_ID t \<notin> ?ids) (rows_of queues w) = rows_of queues w"
    using fresh we unfolding fresh_ids_def by (intro filter_True) blast
  have new: "filter (\<lambda>t. q_ID t \<notin> ?ids) (map (\<lambda>t. retry_row t now) (filter (\<lambda>t. rq_workerID t = w) written)) = []"
    by (auto simp: filter_empty_conv)
  have "filter (\<lambda>t. q_ID t \<notin> ?ids) (rows_of queues1 w) = rows_of queues w"
    unfolding conjunct1 [OF conjunct2 [OF we]] filter_append old new by simp
  then show ?thesis unfolding retry_rollback_rows [OF ok] commute same [of w] by (simp only: commute [symmetric])
qed

lemma commit_fails:
  assumes run: "writeAndCommitRetryQueue ok out opts orig state primary recovered cache now disk = (Some e, disk')"
    and stored: "pd_State disk = Some orig"
    and ok: "\<forall>w. ok (RollbackQueue w)" "\<forall>w. ok (RestoreOriginal w)" "ok ResaveOriginal"
    and fresh: "fresh_ids (insert (rq_taskID primary) (cr_TaskID ` set recovered)) (pd_Queues disk)"
  shows "pd_State disk' = Some orig \<and> map (untimed (ro_RetryOf opts)) (rows_of (pd_Queues disk') w)
    = map (untimed (ro_RetryOf opts)) (rows_of (pd_Queues disk) w)"
proof -
  let ?rows = "primary # map (\<lambda>cr. buildCascadeQueueTask cr opts state cache) recovered"
  let ?T = "ro_RetryOf opts"
  have id: "rq_taskID (buildCascadeQueueTask cr opts state cache) = cr_TaskID cr" for cr
    by (simp add: buildCascadeQueueTask_def Let_def split: option.split)
  have fr: "fresh_ids (rq_taskID ` set ?rows) (pd_Queues disk)" using fresh by (simp add: image_image id)
  obtain failed written queues where w: "write_entries ok now ?rows (pd_Queues disk) = (failed, written, queues)" by (metis prod_cases3)
  note undo = rollback_undoes [OF w ok(1) fr, where T = ?T]
  show ?thesis
  proof (cases failed)
    case (Some t)
    then have "disk' = disk\<lparr>pd_Queues := rollbackRetryQueueEntries ok written queues\<rparr>"
      using run w by (simp add: writeAndCommitRetryQueue_def Let_def)
    then show ?thesis using undo [OF refl, of w] stored by simp
  next
    case None
    obtain r queues1 where u: "updateOriginalTaskInQueue (\<lambda>w. ok (MarkOriginal w)) ?T (ro_CommandID opts) StatusCancelled now queues = (r, queues1)"
      by (metis surj_pair)
    have unmarked: "\<forall>prev. r \<noteq> Inr (Some prev) \<Longrightarrow> queues1 = queues" using mark_files_none u unfolding updateOriginalTaskInQueue_def by blast
    show ?thesis
    proof (cases r)
      case (Inl v)
      then have "disk' = disk\<lparr>pd_Queues := rollbackRetryQueueEntries ok written queues1\<rparr>"
        using run w None u by (simp add: writeAndCommitRetryQueue_def Let_def)
      then show ?thesis using undo [OF refl, of w] stored unmarked Inl by simp
    next
      case (Inr prev)
      define queues2 where "queues2 = (case prev of None \<Rightarrow> queues1
        | Some st \<Rightarrow> snd (updateOriginalTaskInQueue (\<lambda>w. ok (RestoreOriginal w)) ?T (ro_CommandID opts) st now queues1))"
      have same: "map (untimed ?T) (rows_of queues2 v) = map (untimed ?T) (rows_of queues v)" for v
      proof (cases prev)
        case None
        then show ?thesis using unmarked Inr by (simp add: queues2_def)
      next
        case (Some st)
        show ?thesis using mark_restore [OF u [unfolded Inr Some], where ok' = "\<lambda>w. ok (RestoreOriginal w)" and later = now and w = v] ok(2)
          by (simp add: queues2_def Some)
      qed
      have "\<not> fst (saveStateWithContext out state (pd_State disk))"
        using run w None u Inr by (auto simp: writeAndCommitRetryQueue_def Let_def split: prod.splits bool.splits)
      then obtain kept where o: "saveStateWithContext out state (pd_State disk) = (False, kept)" "late_resave ok out orig state kept = Some orig"
        using stored ok(3) by (cases out) (auto simp: saveStateWithContext_def late_resave_def resaveRollbackSnapshotIfCurrentMatches_def)
      have "disk' = \<lparr>pd_State = Some orig, pd_Queues = rollbackRetryQueueEntries ok written queues2\<rparr>"
        using run w None u Inr o by (simp add: writeAndCommitRetryQueue_def Let_def queues2_def)
      then show ?thesis using undo [OF same, of w] by simp
    qed
  qed
qed

lemma recover_one_ids:
  "recover_one fleet cache failed new c run = Inr (newID, run') \<Longrightarrow>
     (\<exists>f. cs_fresh run = f # cs_fresh run' \<and> map cr_TaskID (cs_recovered run') = map cr_TaskID (cs_recovered run) @ [fst f])"
  by (auto simp: recover_one_def Let_def split: list.splits sum.splits)

lemma recover_each_ids:
  "recover_each fleet cache d failed new cands run = Inr run' \<Longrightarrow>
     \<exists>fs. cs_fresh run = fs @ cs_fresh run' \<and> map cr_TaskID (cs_recovered run') = map cr_TaskID (cs_recovered run) @ map fst fs"
proof (induction fleet cache d failed new cands run arbitrary: run' rule: recover_each.induct)
  case (2 fleet cache d failed new c cands run)
  show ?case
  proof (cases "map_of (CancelledReasons (cs_state run)) c = Some ''command_cancel_requested''")
    case True
    then show ?thesis using 2(1) [OF True] 2(4) by simp
  next
    case False
    obtain newID run1 where one: "recover_one fleet cache failed new c run = Inr (newID, run1)"
      using 2(4) False by (auto split: sum.splits)
    obtain d' where d': "d = Suc d'" using 2(4) False one by (cases d) auto
    obtain run2 where r2: "recover_each fleet cache d' c newID (findCascadeCandidates (cs_state run1) c) run1 = Inr run2"
      and r3: "recover_each fleet cache d failed new cands run2 = Inr run'"
      using 2(4) False one d' by (auto split: sum.splits)
    obtain f where f: "cs_fresh run = f # cs_fresh run1" "map cr_TaskID (cs_recovered run1) = map cr_TaskID (cs_recovered run) @ [fst f]"
      using recover_one_ids [OF one] by blast
    obtain fs where fs: "cs_fresh run1 = fs @ cs_fresh run2" "map cr_TaskID (cs_recovered run2) = map cr_TaskID (cs_recovered run1) @ map fst fs"
      using 2(2) [OF False one refl d' r2] by blast
    obtain gs where gs: "cs_fresh run2 = gs @ cs_fresh run'" "map cr_TaskID (cs_recovered run') = map cr_TaskID (cs_recovered run2) @ map fst gs"
      using 2(3) [OF False one refl d' r2 r3] by blast
    show ?thesis by (intro exI [of _ "f # fs @ gs"]) (simp add: f fs gs)
  qed
qed auto

lemma apply_retry_cascade:
  assumes run: "applyRetryStateChanges opts cache workers fresh new now phaseIdx blockedBy state = Inr (state', recovered)"
  obtains s2 s3 where "cascadeRecover (ro_Fleet opts) cache workers fresh (ro_RetryOf opts) new s2 = Inr (s3, recovered)"
proof -
  let ?m = "mutation_checked (supersede_paused (ro_RetryOf opts) new now (replace_task (ro_RetryOf opts) new blockedBy now state))"
  obtain s1 where s1: "?m = Inr s1" using run by (cases ?m) (simp_all add: applyRetryStateChanges_def Let_def)
  obtain s2 where s2: "join_phase phaseIdx new now s1 = Inr s2"
    using run s1 by (cases "join_phase phaseIdx new now s1") (simp_all add: applyRetryStateChanges_def Let_def)
  obtain p where p: "cascadeRecover (ro_Fleet opts) cache workers fresh (ro_RetryOf opts) new s2 = Inr p"
    using run s1 s2 by (cases "cascadeRecover (ro_Fleet opts) cache workers fresh (ro_RetryOf opts) new s2") (simp_all add: applyRetryStateChanges_def Let_def)
  obtain s3 r where sr: "p = (s3, r)" by (rule prod.exhaust)
  have "r = recovered" using run s1 s2 p unfolding sr
    by (cases "mutation_checked s3") (simp_all add: applyRetryStateChanges_def Let_def)
  then show thesis using that p unfolding sr by blast
qed

lemma recovered_ids:
  "applyRetryStateChanges opts cache workers fresh new now phaseIdx blockedBy state = Inr (state', recovered)
     \<Longrightarrow> cr_TaskID ` set recovered \<subseteq> fst ` set fresh"
proof -
  assume "applyRetryStateChanges opts cache workers fresh new now phaseIdx blockedBy state = Inr (state', recovered)"
  then obtain s2 s3 where cas: "cascadeRecover (ro_Fleet opts) cache workers fresh (ro_RetryOf opts) new s2 = Inr (s3, recovered)"
    by (rule apply_retry_cascade)
  then obtain run' where "recover_each (ro_Fleet opts) cache (maxCascadeRecoverDepth - 1) (ro_RetryOf opts) new
      (findCascadeCandidates s2 (ro_RetryOf opts)) \<lparr>cs_state = s2, cs_workers = workers, cs_recovered = [], cs_fresh = fresh\<rparr> = Inr run'"
    and r: "recovered = cs_recovered run'"
    by (auto simp: cascadeRecover_def cascadeRecoverRecursive_def split: sum.splits)
  from recover_each_ids [OF this(1)] obtain fs where f: "fresh = fs @ cs_fresh run'" "map cr_TaskID recovered = map fst fs"
    using r by auto
  have "cr_TaskID ` set recovered = fst ` set fs" using arg_cong [where f = set, OF f(2)] by simp
  then show ?thesis unfolding f(1) by auto
qed

section \<open>What a retry starts from\<close>

lemma validate_retry_state:
  assumes "validateRetryRequest opts stored = Inr (state, phaseIdx, blockedBy)"
  shows "stored = Some state" and "ro_RetryOf opts \<in> known_tasks state" and "phaseIdx = findPhaseForTask state (ro_RetryOf opts)"
    and "validateRetryBlockedBy state phaseIdx blockedBy = Inr ()" and "cs_PlanStatus state = PlanStatusSealed"
proof -
  have "\<exists>s. stored = Some s" using assms by (cases stored) (auto simp: validateRetryRequest_def Let_def split: if_splits)
  then obtain s where s: "stored = Some s" by blast
  have v: "s = state \<and> phaseIdx = findPhaseForTask s (ro_RetryOf opts) \<and> map_of (TaskStates s) (ro_RetryOf opts) \<noteq> None
      \<and> validateRetryBlockedBy s phaseIdx blockedBy = Inr () \<and> cs_PlanStatus s = PlanStatusSealed"
    using assms unfolding s validateRetryRequest_def Let_def
    by (simp split: if_splits sum.splits option.splits)
  then have "ro_RetryOf opts \<in> dom (map_of (TaskStates state))" by auto
  then have "ro_RetryOf opts \<in> known_tasks state" by (simp add: known_tasks_def dom_map_of_conv_image_fst)
  with v s show "stored = Some state" "ro_RetryOf opts \<in> known_tasks state" "phaseIdx = findPhaseForTask state (ro_RetryOf opts)"
    "validateRetryBlockedBy state phaseIdx blockedBy = Inr ()" "cs_PlanStatus state = PlanStatusSealed" by auto
qed

lemma validated_blockers_known:
  assumes "validateRetryBlockedBy state phaseIdx blockedBy = Inr ()" and "plan_wf state" and "phaseIdx = findPhaseForTask state old"
  shows "set blockedBy \<subseteq> known_tasks state"
proof (cases phaseIdx)
  case None
  then have "\<forall>d \<in> set blockedBy. map_of (TaskStates state) d \<noteq> None"
    using assms(1) by (auto simp: validateRetryBlockedBy_def find_None_iff split: option.splits)
  then have "\<forall>d \<in> set blockedBy. d \<in> dom (map_of (TaskStates state))" by blast
  then show ?thesis by (auto simp: known_tasks_def dom_map_of_conv_image_fst)
next
  case (Some idx)
  have w: "set (concat (map ph_TaskIDs (Phases state))) \<subseteq> known_tasks state" "set (RequiredTaskIDs state @ OptionalTaskIDs state) \<subseteq> known_tasks state"
    "\<forall>c. SystemCommitTaskID state = Some c \<longrightarrow> c \<in> set (RequiredTaskIDs state)"
    using assms(2) unfolding plan_wf_def by blast+
  have i: "Phases state ! idx \<in> set (Phases state)" using findPhase_bound assms(3) Some by (metis nth_mem)
  have "d \<in> set (ph_TaskIDs (Phases state ! idx)) \<or> SystemCommitTaskID state = Some d" if "d \<in> set blockedBy" for d
    using assms(1) that Some by (auto simp: validateRetryBlockedBy_def find_None_iff split: option.splits)
  moreover have "set (ph_TaskIDs (Phases state ! idx)) \<subseteq> known_tasks state" by (rule subset_trans [OF _ w(1)]) (use i in auto)
  moreover have "d \<in> known_tasks state" if "SystemCommitTaskID state = Some d" for d using w(2,3) that by auto
  ultimately show ?thesis by blast
qed

lemma AddRetryTask_steps:
  assumes run: "AddRetryTask ok out opts newID now fresh disk = (r, disk')" and moved: "disk' \<noteq> disk \<or> (\<exists>x. r = Inr x)"
    and cache: "cache = loadOriginalTasksFromQueue (ro_CommandID opts) (pd_Queues disk)"
  obtains a :: WorkerAssignment and workers state phaseIdx blockedBy state' recovered primary where
    "validateRetryRequest opts (pd_State disk) = Inr (state, phaseIdx, blockedBy)"
    and "applyRetryStateChanges opts cache workers fresh newID now phaseIdx blockedBy state = Inr (state', recovered)"
    and "primary = buildPrimaryRetryTask (inheritRetryFieldsFromOriginal opts cache) newID
      (zget [] (TaskDependencies state') newID) (wa_WorkerID a)"
    and "writeAndCommitRetryQueue ok out opts state state' primary recovered cache now disk
      = (case r of Inl e \<Rightarrow> Some e | Inr _ \<Rightarrow> None, disk')"
    and "\<forall>x. r = Inr x \<longrightarrow> x = \<lparr>rr_TaskID = newID, rr_Worker = wa_WorkerID a, rr_Model = wa_Model a, rr_Replaced = ro_RetryOf opts,
      rr_CascadeRecovered = recovered\<rparr>"
proof -
  from run moved obtain a workers where a: "assignWorkerForRetry opts (pd_Queues disk) = Inr (a, workers)"
    by (cases "assignWorkerForRetry opts (pd_Queues disk)") (auto simp: AddRetryTask_def)
  from run moved a obtain state phaseIdx blockedBy where v: "validateRetryRequest opts (pd_State disk) = Inr (state, phaseIdx, blockedBy)"
    by (cases "validateRetryRequest opts (pd_State disk)") (auto simp: AddRetryTask_def)
  from run moved a v have ok: "ok ReadOriginals" by (cases "ok ReadOriginals") (auto simp: AddRetryTask_def)
  from run moved a v ok obtain state' recovered where s: "applyRetryStateChanges opts cache workers fresh newID now phaseIdx blockedBy state = Inr (state', recovered)"
    by (cases "applyRetryStateChanges opts cache workers fresh newID now phaseIdx blockedBy state") (auto simp: AddRetryTask_def cache)
  let ?primary = "buildPrimaryRetryTask (inheritRetryFieldsFromOriginal opts cache) newID (zget [] (TaskDependencies state') newID) (wa_WorkerID a)"
  obtain err d where c: "writeAndCommitRetryQueue ok out opts state state' ?primary recovered cache now disk = (err, d)" by (metis surj_pair)
  have "(case err of None \<Rightarrow> (Inr \<lparr>rr_TaskID = newID, rr_Worker = wa_WorkerID a, rr_Model = wa_Model a, rr_Replaced = ro_RetryOf opts,
      rr_CascadeRecovered = recovered\<rparr>, d) | Some e \<Rightarrow> (Inl e, d)) = (r, disk')"
    using run a v ok s c by (cases err) (simp_all add: AddRetryTask_def Let_def cache)
  then have e: "err = (case r of Inl e \<Rightarrow> Some e | Inr _ \<Rightarrow> None)" "d = disk'"
    and x: "\<forall>x. r = Inr x \<longrightarrow> x = \<lparr>rr_TaskID = newID, rr_Worker = wa_WorkerID a, rr_Model = wa_Model a, rr_Replaced = ro_RetryOf opts,
      rr_CascadeRecovered = recovered\<rparr>"
    by (cases err; force)+
  from c have c': "writeAndCommitRetryQueue ok out opts state state' ?primary recovered cache now disk
      = (case r of Inl e \<Rightarrow> Some e | Inr _ \<Rightarrow> None, disk')" unfolding e .
  show thesis by (rule that [OF v s refl c' x])
qed

lemma AddRetryTask_failed:
  assumes run: "AddRetryTask ok out opts newID now fresh disk = (Inl e, disk')" and moved: "disk' \<noteq> disk"
    and cache: "cache = loadOriginalTasksFromQueue (ro_CommandID opts) (pd_Queues disk)"
  obtains workers state phaseIdx blockedBy state' recovered primary where
    "validateRetryRequest opts (pd_State disk) = Inr (state, phaseIdx, blockedBy)"
    and "applyRetryStateChanges opts cache workers fresh newID now phaseIdx blockedBy state = Inr (state', recovered)"
    and "rq_taskID primary = newID"
    and "writeAndCommitRetryQueue ok out opts state state' primary recovered cache now disk = (Some e, disk')"
proof -
  have m: "disk' \<noteq> disk \<or> (\<exists>x. Inl e = (Inr x :: RetryError + RetryResult))" using moved by blast
  show thesis
  proof (rule AddRetryTask_steps [OF run m cache])
    fix a workers state phaseIdx blockedBy state' recovered primary
    assume v: "validateRetryRequest opts (pd_State disk) = Inr (state, phaseIdx, blockedBy)"
      and s: "applyRetryStateChanges opts cache workers fresh newID now phaseIdx blockedBy state = Inr (state', recovered)"
      and p: "primary = buildPrimaryRetryTask (inheritRetryFieldsFromOriginal opts cache) newID (zget [] (TaskDependencies state') newID) (wa_WorkerID a)"
      and c: "writeAndCommitRetryQueue ok out opts state state' primary recovered cache now disk
        = (case Inl e :: RetryError + RetryResult of Inl e \<Rightarrow> Some e | Inr _ \<Rightarrow> None, disk')"
    have "rq_taskID primary = newID" unfolding p by (simp add: buildPrimaryRetryTask_def)
    from that [OF v s this] c show thesis by simp
  qed
qed

text \<open>A retry that succeeds: the steps, and the row of the replacement.\<close>

lemma AddRetryTask_succeeded:
  assumes run: "AddRetryTask ok out opts newID now fresh disk = (Inr res, disk')"
    and cache: "cache = loadOriginalTasksFromQueue (ro_CommandID opts) (pd_Queues disk)"
  obtains workers state phaseIdx blockedBy state' primary where
    "validateRetryRequest opts (pd_State disk) = Inr (state, phaseIdx, blockedBy)"
    and "applyRetryStateChanges opts cache workers fresh newID now phaseIdx blockedBy state = Inr (state', rr_CascadeRecovered res)"
    and "primary = buildPrimaryRetryTask (inheritRetryFieldsFromOriginal opts cache) newID (zget [] (TaskDependencies state') newID) (rr_Worker res)"
    and "writeAndCommitRetryQueue ok out opts state state' primary (rr_CascadeRecovered res) cache now disk = (None, disk')"
    and "rr_TaskID res = newID"
proof -
  have m: "disk' \<noteq> disk \<or> (\<exists>x. (Inr res :: RetryError + RetryResult) = Inr x)" by blast
  show thesis
  proof (rule AddRetryTask_steps [OF run m cache])
    fix a workers state phaseIdx blockedBy state' recovered primary
    assume v: "validateRetryRequest opts (pd_State disk) = Inr (state, phaseIdx, blockedBy)"
      and s: "applyRetryStateChanges opts cache workers fresh newID now phaseIdx blockedBy state = Inr (state', recovered)"
      and p: "primary = buildPrimaryRetryTask (inheritRetryFieldsFromOriginal opts cache) newID (zget [] (TaskDependencies state') newID) (wa_WorkerID a)"
      and c: "writeAndCommitRetryQueue ok out opts state state' primary recovered cache now disk
        = (case Inr res :: RetryError + RetryResult of Inl e \<Rightarrow> Some e | Inr _ \<Rightarrow> None, disk')"
      and r: "\<forall>x. (Inr res :: RetryError + RetryResult) = Inr x \<longrightarrow> x = \<lparr>rr_TaskID = newID, rr_Worker = wa_WorkerID a, rr_Model = wa_Model a,
        rr_Replaced = ro_RetryOf opts, rr_CascadeRecovered = recovered\<rparr>"
    have res: "rr_Worker res = wa_WorkerID a" "rr_CascadeRecovered res = recovered" "rr_TaskID res = newID" using r by auto
    show thesis by (rule that [where workers = workers]) (use v s p c res in simp_all)
  qed
qed

lemma commit_saved:
  assumes "writeAndCommitRetryQueue ok out opts orig state primary recovered cache now disk = (None, disk')"
  obtains queues prev where
    "write_entries ok now (primary # map (\<lambda>cr. buildCascadeQueueTask cr opts state cache) recovered) (pd_Queues disk)
       = (None, primary # map (\<lambda>cr. buildCascadeQueueTask cr opts state cache) recovered, queues)"
    and "updateOriginalTaskInQueue (\<lambda>w. ok (MarkOriginal w)) (ro_RetryOf opts) (ro_CommandID opts) StatusCancelled now queues = (Inr prev, pd_Queues disk')"
    and "pd_State disk' = Some state"
proof -
  let ?rows = "primary # map (\<lambda>cr. buildCascadeQueueTask cr opts state cache) recovered"
  obtain failed written queues where w: "write_entries ok now ?rows (pd_Queues disk) = (failed, written, queues)" by (metis prod_cases3)
  have f: "failed = None" using assms w by (cases failed) (simp_all add: writeAndCommitRetryQueue_def Let_def)
  have ww: "written = ?rows" using write_entries_rows [OF w] f by blast
  obtain r queues1 where u: "updateOriginalTaskInQueue (\<lambda>w. ok (MarkOriginal w)) (ro_RetryOf opts) (ro_CommandID opts) StatusCancelled now queues = (r, queues1)"
    by (metis surj_pair)
  obtain prev where r: "r = Inr prev" using assms w f u by (cases r) (simp_all add: writeAndCommitRetryQueue_def Let_def)
  obtain b kept where b: "saveStateWithContext out state (pd_State disk) = (b, kept)" by (metis surj_pair)
  have bt: "b" using assms w f u r b by (cases b) (simp_all add: writeAndCommitRetryQueue_def Let_def)
  have k: "kept = Some state" using b bt by (cases out) (auto simp: saveStateWithContext_def)
  have "disk' = disk\<lparr>pd_State := Some state, pd_Queues := queues1\<rparr>"
    using assms w f u r b bt k by (simp add: writeAndCommitRetryQueue_def Let_def)
  then show thesis using that [of queues prev] w f ww u r by simp
qed

section \<open>Properties\<close>


text \<open>Where a retry starts: a well-formed plan, ids that are new to it, and a reason for a task that was cancelled only.\<close>

definition retry_ready :: "string \<Rightarrow> string \<Rightarrow> (string \<times> stamp \<times> stamp) list \<Rightarrow> CommandState \<Rightarrow> bool" where
  "retry_ready old newID fresh state =
     (plan_wf state \<and> lineage_known state \<and> distinct (newID # map fst fresh)
      \<and> set (newID # map fst fresh) \<inter> known_tasks state = {}
      \<and> distinct (map fst (CancelledReasons state)) \<and> newID \<notin> fst ` set (CancelledReasons state)
      \<and> (map_of (TaskStates state) old = Some StatusPausedForReplan \<longrightarrow> map_of (CancelledReasons state) old = None))"

lemma retry_runs:
  assumes run: "AddRetryTask ok out opts newID now fresh disk = (Inr res, disk')" and stored: "pd_State disk = Some state"
    and ready: "retry_ready (ro_RetryOf opts) newID fresh state"
  obtains state' where "pd_State disk' = Some state'" and "plan_wf state'" and "lineage_known state'"
    and "slot_taken (ro_RetryOf opts) newID state state'"
    and "recovered_ok state' (\<lparr>cr_TaskID = newID, cr_Worker = rr_Worker res, cr_Model = rr_Model res, cr_Replaced = ro_RetryOf opts\<rparr> # rr_CascadeRecovered res)"
    and "set (map cr_Replaced (rr_CascadeRecovered res)) = (caused state)\<^sup>+ `` {ro_RetryOf opts}"
proof -
  have wf: "plan_wf state" "lineage_known state"
    and reasons: "distinct (map fst (CancelledReasons state))" "newID \<notin> fst ` set (CancelledReasons state)"
    and paused: "map_of (TaskStates state) (ro_RetryOf opts) \<noteq> Some StatusPausedForReplan \<or> map_of (CancelledReasons state) (ro_RetryOf opts) = None"
    and fresh: "fresh_ok state ((newID, now, now) # fresh)"
    using ready unfolding retry_ready_def fresh_ok_def by auto
  obtain workers st phaseIdx blockedBy state' primary where
    v: "validateRetryRequest opts (pd_State disk) = Inr (st, phaseIdx, blockedBy)"
    and s: "applyRetryStateChanges opts (loadOriginalTasksFromQueue (ro_CommandID opts) (pd_Queues disk)) workers fresh newID now phaseIdx blockedBy st
      = Inr (state', rr_CascadeRecovered res)"
    and c: "writeAndCommitRetryQueue ok out opts st state' primary (rr_CascadeRecovered res)
      (loadOriginalTasksFromQueue (ro_CommandID opts) (pd_Queues disk)) now disk = (None, disk')"
    by (rule AddRetryTask_succeeded [OF run refl])
  note vs = validate_retry_state [OF v]
  have st: "st = state" using vs(1) stored by simp
  have deps: "set blockedBy \<subseteq> known_tasks state" using validated_blockers_known [OF vs(4) _ vs(3)] wf(1) st by simp
  note ok = apply_retry_ok [OF s [unfolded st] wf fresh reasons refl vs(2) [unfolded st] vs(3) [unfolded st] deps paused]
  have "pd_State disk' = Some state'" by (rule commit_saved [OF c])
  from that [OF this ok] show thesis .
qed

text \<open>
  C8. A retry keeps the plan: after it succeeds the stored plan is well formed again (slots distinct and known, the
  count right, the dependencies acyclic and within their phases), the lineage names known tasks only, and the new task
  has the slot of the retried one, required or optional, which leaves it.
\<close>

theorem retry_keeps_plan:
  assumes "AddRetryTask ok out opts newID now fresh disk = (Inr res, disk')" and "pd_State disk = Some state"
    and "retry_ready (ro_RetryOf opts) newID fresh state"
  shows "\<exists>state'. pd_State disk' = Some state' \<and> plan_wf state' \<and> lineage_known state'
    \<and> slot_taken (ro_RetryOf opts) newID state state'"
  by (rule retry_runs [OF assms]) blast

text \<open>
  C9. The cascade of a retry is complete and no more: the recovered tasks are exactly those that were cancelled because
  of the retried task, or because of one of them, at any distance; each of them and the retried task itself has a
  replacement that is planned and whose lineage names it.
\<close>

theorem retry_recovers_cascade:
  assumes "AddRetryTask ok out opts newID now fresh disk = (Inr res, disk')" and "pd_State disk = Some state"
    and "retry_ready (ro_RetryOf opts) newID fresh state"
  shows "set (map cr_Replaced (rr_CascadeRecovered res)) = (caused state)\<^sup>+ `` {ro_RetryOf opts}
    \<and> (\<exists>state'. pd_State disk' = Some state' \<and> recovered_ok state' (\<lparr>cr_TaskID = newID, cr_Worker = rr_Worker res,
        cr_Model = rr_Model res, cr_Replaced = ro_RetryOf opts\<rparr> # rr_CascadeRecovered res))"
  by (rule retry_runs [OF assms]) blast

lemma mark_files_all: "mark_files ok T C st now ws queues = (Inr None, queues') \<Longrightarrow> w \<in> set ws \<Longrightarrow> find (is_row T C) (rows_of queues w) = None"
  by (induction ws) (auto split: if_splits option.splits)

lemma worker_files_In: "w \<in> set (worker_files queues) \<longleftrightarrow> w \<in> fst ` set queues \<and> has_prefix w ''worker''"
  by (simp add: worker_files_def)

lemma write_entries_files: "write_entries ok now ts queues = (failed, written, queues') \<Longrightarrow> fst ` set queues \<subseteq> fst ` set queues'"
proof (induction ts arbitrary: queues written)
  case (Cons t ts)
  show ?case
  proof (cases "ok (AppendRow (rq_taskID t))")
    case True
    then obtain ws where ws: "write_entries ok now ts (writeRetryQueueEntry t now queues) = (failed, ws, queues')"
      using Cons.prems by (auto split: prod.splits)
    show ?thesis using Cons.IH [OF ws] by (auto simp: writeRetryQueueEntry_def dom_update)
  next
    case False
    then show ?thesis using Cons.prems by auto
  qed
qed simp

lemma marked_row:
  assumes mark: "updateOriginalTaskInQueue ok T C st now queues = (Inr prev, queues1)"
    and row: "w \<in> set (worker_files queues)" "t \<in> set (rows_of queues w)" "is_row T C t"
  shows "\<exists>v. \<exists>t' \<in> set (rows_of queues1 v). is_row T C t' \<and> q_Status t' = st"
proof -
  have "prev \<noteq> None"
  proof
    assume n: "prev = None"
    from mark_files_all [OF mark [unfolded updateOriginalTaskInQueue_def n] row(1)] row(2,3) show False by (auto simp: find_None_iff)
  qed
  then obtain p where "prev = Some p" by blast
  from mark_files_run [OF mark [unfolded this updateOriginalTaskInQueue_def]] obtain v t0 where
    v: "find (is_row T C) (rows_of queues v) = Some t0" "queues1 = AList.update v (mark_row T C st now (rows_of queues v)) queues" by blast
  from mark_finds [OF v(1), of st now] obtain t' where t': "find (is_row T C) (rows_of queues1 v) = Some t'" "q_Status t' = st"
    by (auto simp: v(2) rows_update)
  have "t' \<in> set (rows_of queues1 v) \<and> is_row T C t'" using t'(1) by (auto simp: find_Some_iff)
  then show ?thesis using t'(2) by blast
qed

text \<open>
  A retry puts every new task in its queue: the replacement and each recovered task has a pending row in the queue
  of the worker it was given, as a repair of this command, blocked by exactly what the stored plan says. Rows of other
  tasks stay, and a row of the retried task is cancelled.
\<close>

theorem retry_writes_rows:
  assumes "AddRetryTask ok out opts newID now fresh disk = (Inr res, disk')" and "pd_State disk = Some state"
    and "retry_ready (ro_RetryOf opts) newID fresh state"
  shows "\<exists>state'. pd_State disk' = Some state'
    \<and> (\<forall>(i, w) \<in> set ((newID, rr_Worker res) # map (\<lambda>r. (cr_TaskID r, cr_Worker r)) (rr_CascadeRecovered res)).
         \<exists>t \<in> set (rows_of (pd_Queues disk') w). q_ID t = i \<and> q_Status t = StatusPending \<and> tk_CommandID t = ro_CommandID opts
           \<and> tk_OperationType t = ''repair'' \<and> tk_BlockedBy t = zget [] (TaskDependencies state') i)
    \<and> (\<forall>w. \<forall>t \<in> set (rows_of (pd_Queues disk) w). q_ID t \<noteq> ro_RetryOf opts \<longrightarrow> t \<in> set (rows_of (pd_Queues disk') w))
    \<and> (\<forall>w \<in> set (worker_files (pd_Queues disk)). \<forall>t \<in> set (rows_of (pd_Queues disk) w). is_row (ro_RetryOf opts) (ro_CommandID opts) t \<longrightarrow>
         (\<exists>v. \<exists>t' \<in> set (rows_of (pd_Queues disk') v). is_row (ro_RetryOf opts) (ro_CommandID opts) t' \<and> q_Status t' = StatusCancelled))"
proof -
  define cache where "cache = loadOriginalTasksFromQueue (ro_CommandID opts) (pd_Queues disk)"
  obtain workers st phaseIdx blockedBy state' primary where
    v: "validateRetryRequest opts (pd_State disk) = Inr (st, phaseIdx, blockedBy)"
    and s: "applyRetryStateChanges opts cache workers fresh newID now phaseIdx blockedBy st = Inr (state', rr_CascadeRecovered res)"
    and p: "primary = buildPrimaryRetryTask (inheritRetryFieldsFromOriginal opts cache) newID (zget [] (TaskDependencies state') newID) (rr_Worker res)"
    and c: "writeAndCommitRetryQueue ok out opts st state' primary (rr_CascadeRecovered res) cache now disk = (None, disk')"
    by (rule AddRetryTask_succeeded [OF assms(1) cache_def])
  let ?T = "ro_RetryOf opts" and ?C = "ro_CommandID opts"
  let ?casc = "\<lambda>cr. buildCascadeQueueTask cr opts state' cache"
  let ?rows = "primary # map ?casc (rr_CascadeRecovered res)"
  obtain queues prev where w: "write_entries ok now ?rows (pd_Queues disk) = (None, ?rows, queues)"
    and m: "updateOriginalTaskInQueue (\<lambda>w. ok (MarkOriginal w)) ?T ?C StatusCancelled now queues = (Inr prev, pd_Queues disk')"
    and sv: "pd_State disk' = Some state'"
    by (rule commit_saved [OF c])
  have rows: "rows_of queues x = rows_of (pd_Queues disk) x @ map (\<lambda>t. retry_row t now) (filter (\<lambda>t. rq_workerID t = x) ?rows)" for x
    using write_entries_rows [OF w] by blast
  have primary: "rq_taskID primary = newID" "rq_workerID primary = rr_Worker res" "rq_commandID primary = ?C" "rq_operationType primary = ''repair''"
    "rq_blockedBy primary = zget [] (TaskDependencies state') newID"
    unfolding p by (simp_all add: buildPrimaryRetryTask_def inheritRetryFieldsFromOriginal_def split: option.split)
  have casc: "rq_taskID (?casc r) = cr_TaskID r" "rq_workerID (?casc r) = cr_Worker r" "rq_commandID (?casc r) = ?C"
    "rq_operationType (?casc r) = ''repair''" "rq_blockedBy (?casc r) = zget [] (TaskDependencies state') (cr_TaskID r)" for r
    by (simp_all add: buildCascadeQueueTask_def Let_def split: option.split)
  have old: "?T \<in> known_tasks state" using validate_retry_state(1,2) [OF v] assms(2) by simp
  have ids: "set (newID # map fst fresh) \<inter> known_tasks state = {}" using assms(3) unfolding retry_ready_def by blast
  have nT: "newID \<noteq> ?T" using ids old by auto
  have new: "cr_TaskID r \<noteq> ?T" if r: "r \<in> set (rr_CascadeRecovered res)" for r
  proof -
    have "cr_TaskID r \<in> fst ` set fresh" using recovered_ids [OF s] r by blast
    then show ?thesis using ids old by auto
  qed
  have put: "retry_row q now \<in> set (rows_of (pd_Queues disk') (rq_workerID q))" if "q \<in> set ?rows" "rq_taskID q \<noteq> ?T" for q
    by (rule mark_rows_keep [OF m]) (use that in \<open>auto simp: rows\<close>)
  have one: "\<exists>t \<in> set (rows_of (pd_Queues disk') x). q_ID t = i \<and> q_Status t = StatusPending \<and> tk_CommandID t = ?C
      \<and> tk_OperationType t = ''repair'' \<and> tk_BlockedBy t = zget [] (TaskDependencies state') i"
    if "(i, x) \<in> set ((newID, rr_Worker res) # map (\<lambda>r. (cr_TaskID r, cr_Worker r)) (rr_CascadeRecovered res))" for i x
  proof -
    from that consider "i = newID" "x = rr_Worker res" | r where "r \<in> set (rr_CascadeRecovered res)" "i = cr_TaskID r" "x = cr_Worker r" by auto
    then show ?thesis
    proof cases
      case 1
      then show ?thesis using put [of primary] nT primary by (intro bexI [of _ "retry_row primary now"]) simp_all
    next
      case 2
      then show ?thesis using put [of "?casc r"] new [OF 2(1)] casc [of r] by (intro bexI [of _ "retry_row (?casc r) now"]) simp_all
    qed
  qed
  have keep: "t \<in> set (rows_of (pd_Queues disk') x)" if "t \<in> set (rows_of (pd_Queues disk) x)" "q_ID t \<noteq> ?T" for t x
    by (rule mark_rows_keep [OF m _ that(2)]) (use that(1) in \<open>simp add: rows\<close>)
  have gone: "\<exists>v. \<exists>t' \<in> set (rows_of (pd_Queues disk') v). is_row ?T ?C t' \<and> q_Status t' = StatusCancelled"
    if "x \<in> set (worker_files (pd_Queues disk))" "t \<in> set (rows_of (pd_Queues disk) x)" "is_row ?T ?C t" for x t
  proof (rule marked_row [OF m _ _ that(3)])
    show "x \<in> set (worker_files queues)" using that(1) write_entries_files [OF w] unfolding worker_files_In by blast
    show "t \<in> set (rows_of queues x)" using that(2) by (simp add: rows)
  qed
  show ?thesis using sv one keep gone by blast
qed

section \<open>A retry on a small plan\<close>

definition demo_retry_plan :: CommandState where
  "demo_retry_plan = (zero_CommandState ''c'' PlanStatusSealed)
     \<lparr>RequiredTaskIDs := [''0'', ''1'', ''2''], ExpectedTaskCount := 3,
      TaskStates := [(''0'', StatusFailed), (''1'', StatusCancelled), (''2'', StatusCancelled)],
      TaskDependencies := [(''1'', [''0'']), (''2'', [''1''])],
      CancelledReasons := [(''1'', CascadeBlockedReasonPrefix @ ''0''), (''2'', CascadeBlockedReasonPrefix @ ''1'')],
      Phases := [zero_Phase ''p1'' PhaseStatusFailed [''0'', ''1'', ''2'']]\<rparr>"

definition demo_retry_disk :: PlanDisk where
  "demo_retry_disk = \<lparr>pd_State = Some demo_retry_plan,
     pd_Queues = [(''worker1'', [(zero_Task ''0'' StatusFailed)\<lparr>tk_CommandID := ''c''\<rparr>]), (''worker2'', [zero_Task ''9'' StatusPending])]\<rparr>"

definition demo_retry :: RetryOptions where
  "demo_retry = \<lparr>ro_CommandID = ''c'', ro_RetryOf = ''0'', ro_Purpose = ''p'', ro_Content = ''x'', ro_AcceptanceCriteria = ''a'',
     ro_DefinitionOfDone = [''done''], ro_Constraints = None, ro_BlockedBy = [], ro_BloomLevel = 3, ro_ToolsHint = None,
     ro_PersonaHint = [], ro_SkillRefs = None, ro_ExpectedPaths = Some [''a.go''],
     ro_DefinitionOfAbort = Some DefaultDefinitionOfAbort, ro_ResumeHint = [],
     ro_Fleet = \<lparr>rf_Workers = demo_workers, rf_MaxPending = 5, rf_Selector = None\<rparr>\<rparr>"

definition demo_fresh :: "(string \<times> stamp \<times> stamp) list" where
  "demo_fresh = [(''6'', Stamp 2, Stamp 3), (''7'', Stamp 4, Stamp 5)]"

definition demo_retried :: "(RetryError + RetryResult) \<times> PlanDisk" where
  "demo_retried = AddRetryTask (\<lambda>_. True) SaveLanded demo_retry ''5'' (Stamp 1) demo_fresh demo_retry_disk"

definition demo_result :: RetryResult where
  "demo_result = (case fst demo_retried of Inr r \<Rightarrow> r
     | Inl _ \<Rightarrow> \<lparr>rr_TaskID = [], rr_Worker = [], rr_Model = [], rr_Replaced = [], rr_CascadeRecovered = []\<rparr>)"

lemma demo_retry_ready: "retry_ready (ro_RetryOf demo_retry) ''5'' demo_fresh demo_retry_plan"
proof -
  have "ValidateTaskDAGAfterMutation demo_retry_plan = Inr ()" by code_simp
  then show ?thesis
    unfolding retry_ready_def plan_wf_def lineage_known_def
    by (simp add: demo_retry_plan_def demo_retry_def demo_fresh_def graph_wf_def known_tasks_def zero_CommandState_def zero_Phase_def)
qed

lemma demo_retry_runs: "AddRetryTask (\<lambda>_. True) SaveLanded demo_retry ''5'' (Stamp 1) demo_fresh demo_retry_disk = (Inr demo_result, snd demo_retried)"
proof -
  have e: "(case fst demo_retried of Inr r \<Rightarrow> True | Inl _ \<Rightarrow> False)" by code_simp
  then obtain r where "fst demo_retried = Inr r" by (auto split: sum.splits)
  then have "demo_retried = (Inr demo_result, snd demo_retried)" by (simp add: demo_result_def prod_eq_iff)
  then show ?thesis by (simp add: demo_retried_def [symmetric])
qed

lemma retry_keeps_plan_witness: "\<exists>s. pd_State (snd demo_retried) = Some s \<and> plan_wf s \<and> ''5'' \<in> set (RequiredTaskIDs s)"
proof -
  have "pd_State demo_retry_disk = Some demo_retry_plan" by (simp add: demo_retry_disk_def)
  from retry_keeps_plan [OF demo_retry_runs this demo_retry_ready] show ?thesis
    by (auto simp: slot_taken_def demo_retry_def demo_retry_plan_def)
qed

lemma retry_recovers_cascade_witness: "set (map cr_Replaced (rr_CascadeRecovered demo_result)) = (caused demo_retry_plan)\<^sup>+ `` {''0''}
    \<and> map cr_Replaced (rr_CascadeRecovered demo_result) = [''1'', ''2'']"
proof -
  have s: "pd_State demo_retry_disk = Some demo_retry_plan" by (simp add: demo_retry_disk_def)
  have r: "map cr_Replaced (rr_CascadeRecovered demo_result) = [''1'', ''2'']" by code_simp
  have o: "ro_RetryOf demo_retry = ''0''" by (simp add: demo_retry_def)
  show ?thesis using retry_recovers_cascade [OF demo_retry_runs s demo_retry_ready] r unfolding o by blast
qed

lemma retry_writes_rows_witness:
  "\<exists>t \<in> set (rows_of (pd_Queues (snd demo_retried)) (rr_Worker demo_result)). q_ID t = ''5'' \<and> q_Status t = StatusPending"
proof -
  have s: "pd_State demo_retry_disk = Some demo_retry_plan" by (simp add: demo_retry_disk_def)
  show ?thesis using retry_writes_rows [OF demo_retry_runs s demo_retry_ready] by force
qed


text \<open>
  A retried task that was paused is marked as superseded, but the purge at the end of the same call removes the mark
  with the other entries of replaced tasks. Once the replacement is completed the task passes the request check again.
\<close>

definition demo_paused_disk :: PlanDisk where
  "demo_paused_disk = demo_retry_disk\<lparr>pd_State := Some (demo_retry_plan\<lparr>
     TaskStates := [(''0'', StatusPausedForReplan), (''1'', StatusCancelled), (''2'', StatusCancelled)],
     Phases := [zero_Phase ''p1'' PhaseStatusActive [''0'', ''1'', ''2'']]\<rparr>)\<rparr>"

lemma superseded_retried_again:
  "case pd_State (snd (AddRetryTask (\<lambda>_. True) SaveLanded demo_retry ''5'' (Stamp 1) demo_fresh demo_paused_disk)) of
     None \<Rightarrow> False
   | Some s \<Rightarrow> map_of (TaskStates s) ''0'' = Some StatusCancelled \<and> map_of (CancelledReasons s) ''0'' = None
       \<and> (case validateRetryRequest demo_retry (Some (SetTaskState ''5'' StatusCompleted (Stamp 9) s)) of Inl _ \<Rightarrow> False | Inr _ \<Rightarrow> True)"
  by code_simp

end
