(* ===== verification/Inject.thy ===== *)
theory Inject imports Retry_Queue begin

text \<open>
  The injection of a single task into a sealed plan (\<open>internal/plan/inject.go\<close>): the request checks, the choice of
  the worker and the phase, the cap on the tasks of a phase, the reopening of a finished phase, the key that makes
  a repeated request return the first task. The call gives up the state lock once; an argument says what others do to
  the disk meanwhile, and the checks run again on what they left. What the file of the worktree holds is an
  argument, one for each round of checks. The maestro directory is given.
\<close>

section \<open>The request\<close>

record InjectOptions =
  ij_CommandID :: string
  ij_Purpose :: string
  ij_Content :: string
  ij_AcceptanceCriteria :: string
  ij_DefinitionOfDone :: "string list"
  ij_Constraints :: "string list"
  ij_BlockedBy :: "string list"
  ij_BloomLevel :: int
  ij_Required :: bool
  ij_ToolsHint :: "string list"
  ij_PersonaHint :: string
  ij_SkillRefs :: "string list"
  ij_ExpectedPaths :: "string list option"
  ij_DefinitionOfAbort :: "DefinitionOfAbort option"
  ij_TargetWorkerID :: string
  ij_TargetPhase :: string
  ij_IdempotencyKey :: string
  ij_RunOnMain :: bool
  ij_RunOnIntegration :: bool
  ij_OperationType :: string
  ij_WorktreeEnabled :: bool
  ij_Fleet :: RetryFleet

record InjectResult =
  jr_TaskID :: string
  jr_Worker :: string
  jr_Model :: string
  jr_Deduplicated :: bool

datatype WorktreeStat = WorktreeFound | WorktreeAbsent | WorktreeStatFailed
datatype WorktreeFile = WorktreeUnreadable | WorktreeUnparsable | WorktreeIntegration IntegrationStatus

datatype InjectError =
    NoPlan | NoPlanReloaded | InjectNotSealed PlanStatus | BadOperationType string | WorktreeDisabled | WorktreeCleanedUp
  | WorktreeMissing | GateUnreadable | GateUnparsable | NotPublished IntegrationStatus | InjectCancelled SubmitError
  | InjectBadBloom int | MissingText string | TextTooShort string | InjectBlockerUnknown string | TargetPhaseUnknown string
  | InjectBadSchema verrors | TargetWorkerUnknown string | TargetNotClaude string | InjectNoWorkers
  | InjectNotAssigned RetryError | NoInjectId | AllPhasesTerminal | PhaseFull string int int | PhaseCancelled string
  | InjectRowNotWritten | InjectNotSaved

definition hasIntegrationCleanedUp :: "CommandState \<Rightarrow> bool" where
  "hasIntegrationCleanedUp state =
     (cs_PlanStatus state = PlanStatusCompleted
      \<or> cs_PlanStatus state = PlanStatusSealed \<and> Phases state \<noteq> [] \<and> list_all (\<lambda>p. IsPhaseTerminal (ph_Status p)) (Phases state))"

definition validateRunOnMainPublishGate :: "WorktreeFile \<Rightarrow> InjectError + unit" where
  "validateRunOnMainPublishGate file =
     (case file of
        WorktreeUnreadable \<Rightarrow> Inl GateUnreadable
      | WorktreeUnparsable \<Rightarrow> Inl GateUnparsable
      | WorktreeIntegration st \<Rightarrow> if st \<noteq> IntegrationStatusPublished then Inl (NotPublished st) else Inr ())"

definition MinInjectedPurposeBytes :: nat where "MinInjectedPurposeBytes = 4"
definition MinInjectedContentBytes :: nat where "MinInjectedContentBytes = 4"
definition MinInjectedAcceptanceCriteriaBytes :: nat where "MinInjectedAcceptanceCriteriaBytes = 4"

definition check_worktree :: "CommandState \<Rightarrow> InjectOptions \<Rightarrow> WorktreeStat \<times> WorktreeFile \<Rightarrow> InjectError + unit" where
  "check_worktree state opts view =
     (if \<not> (ij_RunOnIntegration opts \<or> ij_RunOnMain opts) then Inr ()
      else if \<not> ij_WorktreeEnabled opts then Inl WorktreeDisabled
      else if ij_CommandID opts = [] then Inr ()
      else if fst view = WorktreeAbsent then
        (if IsPlanTerminal (cs_PlanStatus state) \<or> hasIntegrationCleanedUp state then Inl WorktreeCleanedUp else Inl WorktreeMissing)
      else if ij_RunOnMain opts then validateRunOnMainPublishGate (snd view)
      else Inr ())"

definition check_texts :: "InjectOptions \<Rightarrow> InjectError + unit" where
  "check_texts opts =
     (if ij_Purpose opts = [] then Inl (MissingText ''purpose'')
      else if ij_Content opts = [] then Inl (MissingText ''content'')
      else if ij_AcceptanceCriteria opts = [] then Inl (MissingText ''acceptance_criteria'')
      else if length (ij_Purpose opts) < MinInjectedPurposeBytes then Inl (TextTooShort ''purpose'')
      else if length (ij_Content opts) < MinInjectedContentBytes then Inl (TextTooShort ''content'')
      else if length (ij_AcceptanceCriteria opts) < MinInjectedAcceptanceCriteriaBytes then Inl (TextTooShort ''acceptance_criteria'')
      else Inr ())"

definition validateInjectRequest :: "CommandState \<Rightarrow> InjectOptions \<Rightarrow> WorktreeStat \<times> WorktreeFile \<Rightarrow> InjectError + unit" where
  "validateInjectRequest state opts view =
     (if cs_PlanStatus state \<noteq> PlanStatusSealed then Inl (InjectNotSealed (cs_PlanStatus state))
      else if ij_OperationType opts \<notin> {[], ''verify'', ''repair''} then Inl (BadOperationType (ij_OperationType opts))
      else case check_worktree state opts view of
        Inl e \<Rightarrow> Inl e
      | Inr _ \<Rightarrow>
      (case ValidateNotCancelled state of
        Inl e \<Rightarrow> Inl (InjectCancelled e)
      | Inr _ \<Rightarrow>
      if ij_BloomLevel opts < BloomLevelMin \<or> BloomLevelMax < ij_BloomLevel opts then Inl (InjectBadBloom (ij_BloomLevel opts))
      else case check_texts opts of
        Inl e \<Rightarrow> Inl e
      | Inr _ \<Rightarrow>
      (case find (\<lambda>d. map_of (TaskStates state) d = None) (ij_BlockedBy opts) of
        Some d \<Rightarrow> Inl (InjectBlockerUnknown d)
      | None \<Rightarrow>
      if ij_TargetPhase opts \<noteq> [] \<and> PhaseIndex (ij_TargetPhase opts) state = None then Inl (TargetPhaseUnknown (ij_TargetPhase opts))
      else let schema = validateInjectedSchemaFields (ij_ExpectedPaths opts) (ij_DefinitionOfAbort opts) (ij_DefinitionOfDone opts) in
      if schema \<noteq> [] then Inl (InjectBadSchema schema) else Inr ())))"

section \<open>Workers\<close>

definition worker_ids :: "WorkerConfig \<Rightarrow> string list" where
  "worker_ids config = map (\<lambda>i. ''worker'' @ show_int i) [1..wc_Count config]"

definition lookupTaskAssignment :: "(string, Task list) gomap \<Rightarrow> string \<Rightarrow> WorkerConfig \<Rightarrow> string \<times> string" where
  "lookupTaskAssignment queues taskID config =
     (case find (\<lambda>w. list_ex (\<lambda>t. q_ID t = taskID) (rows_of queues w)) (worker_ids config) of
        None \<Rightarrow> ([], [])
      | Some w \<Rightarrow> (w, ModelFor config w))"

text \<open>The answer to a key that was used before.\<close>

definition first_task :: "InjectOptions \<Rightarrow> PlanDisk \<Rightarrow> CommandState \<Rightarrow> InjectResult option" where
  "first_task opts disk state =
     (if ij_IdempotencyKey opts = [] then None
      else case map_of (IdempotencyKeys state) (ij_IdempotencyKey opts) of
        None \<Rightarrow> None
      | Some taskID \<Rightarrow>
          (let (worker, mdl) = lookupTaskAssignment (pd_Queues disk) taskID (rf_Workers (ij_Fleet opts)) in
           Some \<lparr>jr_TaskID = taskID, jr_Worker = (if worker = [] then ''unknown'' else worker),
             jr_Model = (if mdl = [] then GetModelForBloomLevel (ij_BloomLevel opts) (wc_Boost (rf_Workers (ij_Fleet opts))) else mdl),
             jr_Deduplicated = True\<rparr>))"

definition inject_worker :: "InjectOptions \<Rightarrow> (string, Task list) gomap \<Rightarrow> InjectError + (string \<times> string)" where
  "inject_worker opts queues =
     (let fleet = ij_Fleet opts; target = ij_TargetWorkerID opts in
      if target \<noteq> [] then
        (if target \<notin> set (worker_ids (rf_Workers fleet)) then Inl (TargetWorkerUnknown target)
         else let mdl = ModelFor (rf_Workers fleet) target in
           if ij_RunOnMain opts \<and> \<not> isClaudeRuntimeModel mdl then Inl (TargetNotClaude mdl) else Inr (target, mdl))
      else case BuildWorkerStates (map_of queues) (rf_Workers fleet) of
        None \<Rightarrow> Inl InjectNoWorkers
      | Some states \<Rightarrow>
          (case AssignWorkers (rf_Workers fleet) (rf_MaxPending fleet) states (rf_Selector fleet)
               [\<lparr>ar_Name = ''__inject'', ar_BloomLevel = ij_BloomLevel opts, ar_PinnedWorkerID = [],
                 ar_RequireClaudeRuntime = ij_RunOnMain opts, ar_RequiredCapabilities = [], ar_PreferredCapabilities = []\<rparr>] of
             Inl e \<Rightarrow> Inl (InjectNotAssigned (RetryNotAssigned e))
           | Inr [] \<Rightarrow> Inl InjectNoWorkers
           | Inr (a # _) \<Rightarrow> Inr (wa_WorkerID a, wa_Model a)))"

section \<open>The phase\<close>

definition findPhaseForWorker :: "CommandState \<Rightarrow> (string, Task list) gomap \<Rightarrow> string \<Rightarrow> nat option" where
  "findPhaseForWorker state queues workerID =
     (let ids = map q_ID (filter (\<lambda>t. tk_CommandID t = cs_CommandID state) (rows_of queues workerID)) in
      fold (\<lambda>(i, p) best. if list_ex (\<lambda>t. t \<in> set ids) (ph_TaskIDs p) then Some i else best) (enumerate 0 (Phases state)) None)"

definition findFirstNonTerminalPhase :: "Phase list \<Rightarrow> nat option" where
  "findFirstNonTerminalPhase phases = find_index (\<lambda>p. \<not> IsPhaseTerminal (ph_Status p)) phases"

definition open_phase :: "InjectOptions \<Rightarrow> CommandState \<Rightarrow> InjectError + nat option" where
  "open_phase opts state =
     (if Phases state = [] then Inr None
      else case findFirstNonTerminalPhase (Phases state) of
        Some i \<Rightarrow> Inr (Some i)
      | None \<Rightarrow>
          if \<not> ij_RunOnMain opts \<and> \<not> ij_RunOnIntegration opts then Inl AllPhasesTerminal
          else Inr (Some (length (Phases state) - 1)))"

definition select_phase :: "InjectOptions \<Rightarrow> (string, Task list) gomap \<Rightarrow> CommandState \<Rightarrow> InjectError + nat option" where
  "select_phase opts queues state =
     (if ij_TargetPhase opts \<noteq> [] then Inr (PhaseIndex (ij_TargetPhase opts) state)
      else if ij_BlockedBy opts \<noteq> [] then Inr (findPhaseForTask state (hd (ij_BlockedBy opts)))
      else if ij_TargetWorkerID opts \<noteq> [] then
        (case findPhaseForWorker state queues (ij_TargetWorkerID opts) of Some i \<Rightarrow> Inr (Some i) | None \<Rightarrow> open_phase opts state)
      else open_phase opts state)"

text \<open>The cap counts the new task; a recovery task is exempt. A finished phase is reopened, a cancelled one refuses.\<close>

definition over_cap :: "InjectOptions \<Rightarrow> Phase \<Rightarrow> bool" where
  "over_cap opts p =
     (case ph_Constraints p of
        None \<Rightarrow> False
      | Some c \<Rightarrow> 0 < MaxTasks c \<and> MaxTasks c < int (length (ph_TaskIDs p)) \<and> \<not> (ij_RunOnMain opts \<or> ij_RunOnIntegration opts))"

definition enter_phase :: "InjectOptions \<Rightarrow> nat option \<Rightarrow> string \<Rightarrow> stamp \<Rightarrow> CommandState \<Rightarrow> InjectError + CommandState" where
  "enter_phase opts idx newID reopenedAt state =
     (case idx of
        None \<Rightarrow> Inr state
      | Some i \<Rightarrow>
          (let state1 = change_phase i (\<lambda>p. p\<lparr>ph_TaskIDs := ph_TaskIDs p @ [newID]\<rparr>) state; p = Phases state1 ! i in
           if over_cap opts p then
             Inl (PhaseFull (ph_PhaseID p) (case ph_Constraints p of None \<Rightarrow> 0 | Some c \<Rightarrow> MaxTasks c) (int (length (ph_TaskIDs p)) - 1))
           else if ph_Status p = PhaseStatusCompleted \<or> ph_Status p = PhaseStatusFailed then
             Inr (change_phase i (\<lambda>p. p\<lparr>ph_Status := PhaseStatusActive, ph_CompletedAt := None, ph_ReopenedAt := Some reopenedAt\<rparr>) state1)
           else if ph_Status p = PhaseStatusCancelled then Inl (PhaseCancelled (ph_PhaseID p))
           else Inr state1))"

section \<open>The injection\<close>

definition add_injected :: "InjectOptions \<Rightarrow> string \<Rightarrow> stamp \<Rightarrow> CommandState \<Rightarrow> CommandState" where
  "add_injected opts newID now state =
     (let state1 = (if ij_Required opts then state\<lparr>RequiredTaskIDs := RequiredTaskIDs state @ [newID]\<rparr>
                    else state\<lparr>OptionalTaskIDs := OptionalTaskIDs state @ [newID]\<rparr>);
          state2 = SetTaskState newID StatusPlanned now (count_tasks state1) in
      if ij_BlockedBy opts \<noteq> [] then state2\<lparr>TaskDependencies := AList.update newID (ij_BlockedBy opts) (TaskDependencies state2)\<rparr>
      else state2)"

record InjectClock =
  ic_planned :: stamp
  ic_reopened :: stamp
  ic_written :: stamp

definition inject_state ::
  "InjectOptions \<Rightarrow> string \<Rightarrow> InjectClock \<Rightarrow> (string, Task list) gomap \<Rightarrow> CommandState \<Rightarrow> InjectError + CommandState" where
  "inject_state opts newID clock queues state =
     (case select_phase opts queues state of
        Inl e \<Rightarrow> Inl e
      | Inr idx \<Rightarrow>
          (case enter_phase opts idx newID (ic_reopened clock) (add_injected opts newID (ic_planned clock) state) of
             Inl e \<Rightarrow> Inl e
           | Inr state1 \<Rightarrow>
               Inr (state1\<lparr>IdempotencyKeys := (if ij_IdempotencyKey opts = [] then IdempotencyKeys state1
                            else AList.update (ij_IdempotencyKey opts) newID (IdempotencyKeys state1)),
                      PlanVersion := PlanVersion state1 + 1, cs_UpdatedAt := ic_written clock\<rparr>)))"

definition inject_row :: "InjectOptions \<Rightarrow> string \<Rightarrow> string \<Rightarrow> retryQueueTask" where
  "inject_row opts newID workerID =
     \<lparr>rq_taskID = newID, rq_commandID = ij_CommandID opts, rq_purpose = ij_Purpose opts, rq_content = ij_Content opts,
      rq_acceptanceCriteria = ij_AcceptanceCriteria opts, rq_definitionOfDone = ij_DefinitionOfDone opts,
      rq_constraints = ij_Constraints opts, rq_blockedBy = ij_BlockedBy opts, rq_bloomLevel = ij_BloomLevel opts,
      rq_toolsHint = ij_ToolsHint opts, rq_personaHint = ij_PersonaHint opts, rq_skillRefs = ij_SkillRefs opts,
      rq_expectedPaths = or_empty (ij_ExpectedPaths opts), rq_definitionOfAbort = ij_DefinitionOfAbort opts,
      rq_workerID = workerID, rq_runOnMain = ij_RunOnMain opts, rq_runOnIntegration = ij_RunOnIntegration opts,
      rq_operationType = (if ij_OperationType opts \<noteq> [] then ij_OperationType opts
        else if ij_RunOnMain opts then ''verify'' else if ij_RunOnIntegration opts then ''repair'' else []),
      rq_resumeHint = []\<rparr>"

text \<open>With the queue and the state locked: the second round, the row, the state; a failed save takes the row back.\<close>

definition inject_locked ::
  "io \<Rightarrow> InjectOptions \<Rightarrow> WorktreeStat \<times> WorktreeFile \<Rightarrow> string \<Rightarrow> InjectClock \<Rightarrow> string \<times> string \<Rightarrow> PlanDisk \<Rightarrow>
   (InjectError + InjectResult) \<times> PlanDisk" where
  "inject_locked ok opts view newID clock assigned disk =
     (case pd_State disk of
        None \<Rightarrow> (Inl NoPlanReloaded, disk)
      | Some state \<Rightarrow>
     (case validateInjectRequest state opts view of
        Inl e \<Rightarrow> (Inl e, disk)
      | Inr _ \<Rightarrow>
     (case first_task opts disk state of
        Some r \<Rightarrow> (Inr r, disk)
      | None \<Rightarrow>
     (case inject_state opts newID clock (pd_Queues disk) state of
        Inl e \<Rightarrow> (Inl e, disk)
      | Inr state' \<Rightarrow>
          (let row = inject_row opts newID (fst assigned) in
           if \<not> ok (AppendRow newID) then (Inl InjectRowNotWritten, disk)
           else let disk1 = disk\<lparr>pd_Queues := writeRetryQueueEntry row (ic_written clock) (pd_Queues disk)\<rparr> in
             if ok SaveSealed then
               (Inr \<lparr>jr_TaskID = newID, jr_Worker = fst assigned, jr_Model = snd assigned, jr_Deduplicated = False\<rparr>,
                disk1\<lparr>pd_State := Some state'\<rparr>)
             else (Inl InjectNotSaved, disk1\<lparr>pd_Queues := rollbackRetryQueueEntries ok [row] (pd_Queues disk1)\<rparr>))))))"

definition AddTask ::
  "io \<Rightarrow> (PlanDisk \<Rightarrow> PlanDisk) \<Rightarrow> InjectOptions \<Rightarrow> WorktreeStat \<times> WorktreeFile \<Rightarrow> WorktreeStat \<times> WorktreeFile \<Rightarrow> string option \<Rightarrow> InjectClock \<Rightarrow>
   PlanDisk \<Rightarrow> (InjectError + InjectResult) \<times> PlanDisk" where
  "AddTask ok others opts view1 view2 newID clock disk =
     (case pd_State disk of
        None \<Rightarrow> (Inl NoPlan, disk)
      | Some state \<Rightarrow>
     (case validateInjectRequest state opts view1 of
        Inl e \<Rightarrow> (Inl e, disk)
      | Inr _ \<Rightarrow>
     (case first_task opts disk state of
        Some r \<Rightarrow> (Inr r, disk)
      | None \<Rightarrow>
     (case inject_worker opts (pd_Queues disk) of
        Inl e \<Rightarrow> (Inl e, disk)
      | Inr assigned \<Rightarrow>
     (case newID of
        None \<Rightarrow> (Inl NoInjectId, disk)
      | Some i \<Rightarrow> inject_locked ok opts view2 i clock assigned (others disk))))))"

section \<open>What an injection changes\<close>

text \<open>A well-formed plan but for the references between phases, which the code does not check here.\<close>

definition plan_core :: "CommandState \<Rightarrow> bool" where
  "plan_core state =
     (distinct (RequiredTaskIDs state @ OptionalTaskIDs state)
      \<and> set (RequiredTaskIDs state @ OptionalTaskIDs state) \<subseteq> known_tasks state
      \<and> ExpectedTaskCount state = int (length (RequiredTaskIDs state)) + int (length (OptionalTaskIDs state))
      \<and> graph_wf state
      \<and> distinct (concat (map ph_TaskIDs (Phases state)))
      \<and> set (concat (map ph_TaskIDs (Phases state))) \<subseteq> known_tasks state
      \<and> (\<forall>c. SystemCommitTaskID state = Some c \<longrightarrow> c \<in> set (RequiredTaskIDs state))
      \<and> (\<exists>order. task_order state order))"

lemma plan_wf_core: "plan_wf state \<longleftrightarrow> plan_core state \<and> validateCrossPhaseRefs state = Inr ()"
proof
  assume w: "plan_wf state"
  then have g: "graph_wf state" "ValidateTaskDAGAfterMutation state = Inr ()" unfolding plan_wf_def by blast+
  show "plan_core state \<and> validateCrossPhaseRefs state = Inr ()"
    using w mutation_okD [OF g(2,1)] unfolding plan_wf_def plan_core_def by blast
next
  assume c: "plan_core state \<and> validateCrossPhaseRefs state = Inr ()"
  then obtain order where "graph_wf state" "task_order state order" unfolding plan_core_def by blast
  then have "ValidateTaskDAGAfterMutation state = Inr ()" using c by (intro mutation_ok) simp_all
  then show "plan_wf state" using c unfolding plan_wf_def plan_core_def by blast
qed

lemma fold_best: "fold (\<lambda>(i, p) best. if P p then Some i else best) ips b = Some k \<Longrightarrow> b = Some k \<or> k \<in> fst ` set ips"
proof (induction ips arbitrary: b)
  case (Cons ip ips)
  from Cons.IH [of "case ip of (i, p) \<Rightarrow> if P p then Some i else b"] Cons.prems show ?case
    by (cases ip) (auto split: if_splits)
qed simp

lemma select_phase_bound: "select_phase opts queues state = Inr (Some i) \<Longrightarrow> i < length (Phases state)"
proof -
  assume sel: "select_phase opts queues state = Inr (Some i)"
  have o: "i < length (Phases state)" if "open_phase opts state = Inr (Some i)"
    using that by (auto simp: open_phase_def findFirstNonTerminalPhase_def split: if_splits option.splits dest: find_index_Some)
  have w: "i < length (Phases state)" if "findPhaseForWorker state queues (ij_TargetWorkerID opts) = Some i"
    using fold_best [OF that [unfolded findPhaseForWorker_def Let_def]] by (auto simp: in_set_enumerate_eq)
  have t: "i < length (Phases state)" if "PhaseIndex (ij_TargetPhase opts) state = Some i"
    using find_index_Some that unfolding PhaseIndex_def by blast
  show ?thesis using sel o w t findPhase_bound by (auto simp: select_phase_def split: if_splits option.splits)
qed

lemma add_injected_fields:
  "Phases (add_injected opts new now state) = Phases state"
  "TaskStates (add_injected opts new now state) = AList.update new StatusPlanned (TaskStates state)"
  "TaskDependencies (add_injected opts new now state)
     = (if ij_BlockedBy opts = [] then TaskDependencies state else AList.update new (ij_BlockedBy opts) (TaskDependencies state))"
  "RequiredTaskIDs (add_injected opts new now state) = RequiredTaskIDs state @ (if ij_Required opts then [new] else [])"
  "OptionalTaskIDs (add_injected opts new now state) = OptionalTaskIDs state @ (if ij_Required opts then [] else [new])"
  "ExpectedTaskCount (add_injected opts new now state)
     = int (length (RequiredTaskIDs (add_injected opts new now state))) + int (length (OptionalTaskIDs (add_injected opts new now state)))"
  "SystemCommitTaskID (add_injected opts new now state) = SystemCommitTaskID state"
  "IdempotencyKeys (add_injected opts new now state) = IdempotencyKeys state"
  by (simp_all add: add_injected_def count_tasks_def SetTaskState_def Let_def)

lemma over_cap_cong: "ph_Constraints p = ph_Constraints q \<Longrightarrow> ph_TaskIDs p = ph_TaskIDs q \<Longrightarrow> over_cap opts p = over_cap opts q"
  by (simp add: over_cap_def split: option.split)

lemma change_phase_keys [simp]: "IdempotencyKeys (change_phase i f state) = IdempotencyKeys state"
  by (simp add: change_phase_def)

lemma enter_phase_run:
  assumes run: "enter_phase opts idx new at state = Inr s" and idx: "\<And>i. idx = Some i \<Longrightarrow> i < length (Phases state)"
  shows "TaskStates s = TaskStates state" and "TaskDependencies s = TaskDependencies state" and "RequiredTaskIDs s = RequiredTaskIDs state"
    and "OptionalTaskIDs s = OptionalTaskIDs state" and "ExpectedTaskCount s = ExpectedTaskCount state"
    and "SystemCommitTaskID s = SystemCommitTaskID state" and "IdempotencyKeys s = IdempotencyKeys state"
    and "map phase_shape (Phases s) = map phase_shape (Phases state)"
    and "map ph_TaskIDs (Phases s) = map ph_TaskIDs (case idx of None \<Rightarrow> Phases state | Some i \<Rightarrow> grow_phase i [new] (Phases state))"
    and "idx = Some i \<Longrightarrow> \<not> over_cap opts (Phases s ! i) \<and> ph_Status (Phases s ! i) \<notin> {PhaseStatusCompleted, PhaseStatusFailed, PhaseStatusCancelled}"
    and "idx \<noteq> Some k \<Longrightarrow> Phases s ! k = Phases state ! k"
proof -
  have "TaskStates s = TaskStates state \<and> TaskDependencies s = TaskDependencies state \<and> RequiredTaskIDs s = RequiredTaskIDs state
    \<and> OptionalTaskIDs s = OptionalTaskIDs state \<and> ExpectedTaskCount s = ExpectedTaskCount state
    \<and> SystemCommitTaskID s = SystemCommitTaskID state \<and> IdempotencyKeys s = IdempotencyKeys state
    \<and> map phase_shape (Phases s) = map phase_shape (Phases state)
    \<and> map ph_TaskIDs (Phases s) = map ph_TaskIDs (case idx of None \<Rightarrow> Phases state | Some i \<Rightarrow> grow_phase i [new] (Phases state))
    \<and> (\<forall>i. idx = Some i \<longrightarrow> \<not> over_cap opts (Phases s ! i) \<and> ph_Status (Phases s ! i) \<notin> {PhaseStatusCompleted, PhaseStatusFailed, PhaseStatusCancelled})
    \<and> (\<forall>k. idx \<noteq> Some k \<longrightarrow> Phases s ! k = Phases state ! k)"
  proof (cases idx)
    case None
    then show ?thesis using run by (simp add: enter_phase_def)
  next
    case (Some i)
    let ?p = "Phases state ! i"
    let ?s1 = "change_phase i (\<lambda>p. p\<lparr>ph_TaskIDs := ph_TaskIDs p @ [new]\<rparr>) state"
    let ?f = "\<lambda>p. p\<lparr>ph_Status := PhaseStatusActive, ph_CompletedAt := None, ph_ReopenedAt := Some at\<rparr>"
    have i: "i < length (Phases state)" using idx Some by blast
    have p1: "Phases ?s1 = grow_phase i [new] (Phases state)" "Phases ?s1 = (Phases state)[i := ?p\<lparr>ph_TaskIDs := ph_TaskIDs ?p @ [new]\<rparr>]"
      by (simp_all add: change_phase_def grow_phase_def)
    note gp = grow_phase_props [OF i, where ids = "[new]"]
    have q: "Phases ?s1 ! i = ?p\<lparr>ph_TaskIDs := ph_TaskIDs ?p @ [new]\<rparr>" unfolding p1(2) by (simp add: i)
    have cap: "\<not> over_cap opts (Phases ?s1 ! i)" using run Some by (auto simp: enter_phase_def Let_def split: if_splits)
    consider "s = change_phase i ?f ?s1" | "s = ?s1" "ph_Status (Phases ?s1 ! i) \<notin> {PhaseStatusCompleted, PhaseStatusFailed, PhaseStatusCancelled}"
      using run Some by (auto simp: enter_phase_def Let_def split: if_splits)
    then show ?thesis
    proof cases
      case 1
      have ps: "Phases s = (Phases ?s1)[i := ?f (Phases ?s1 ! i)]" unfolding 1 by (simp add: change_phase_def)
      have l: "i < length (Phases ?s1)" unfolding p1(2) by (simp add: i)
      have m: "map phase_shape (Phases s) = map phase_shape (Phases ?s1)" "map ph_TaskIDs (Phases s) = map ph_TaskIDs (Phases ?s1)"
        unfolding ps by (rule map_same_update [OF l]; simp add: phase_shape_def)+
      have at: "Phases s ! i = ?f (Phases ?s1 ! i)" unfolding ps by (rule nth_list_update_eq [OF l])
      have "over_cap opts (Phases s ! i) = over_cap opts (Phases ?s1 ! i)" unfolding at by (rule over_cap_cong) simp_all
      with cap have "\<not> over_cap opts (Phases s ! i)" by blast
      moreover have "Phases s ! k = Phases state ! k" if "k \<noteq> i" for k using that unfolding ps p1(2) by simp
      ultimately show ?thesis using Some m gp(1) at unfolding p1(1) by (simp add: 1)
    next
      case 2
      have "Phases s ! k = Phases state ! k" if "k \<noteq> i" for k using that unfolding 2(1) p1(2) by simp
      then show ?thesis using Some gp(1) cap 2 p1(1) by simp
    qed
  qed
  then show "TaskStates s = TaskStates state" and "TaskDependencies s = TaskDependencies state" and "RequiredTaskIDs s = RequiredTaskIDs state"
    and "OptionalTaskIDs s = OptionalTaskIDs state" and "ExpectedTaskCount s = ExpectedTaskCount state"
    and "SystemCommitTaskID s = SystemCommitTaskID state" and "IdempotencyKeys s = IdempotencyKeys state"
    and "map phase_shape (Phases s) = map phase_shape (Phases state)"
    and "map ph_TaskIDs (Phases s) = map ph_TaskIDs (case idx of None \<Rightarrow> Phases state | Some i \<Rightarrow> grow_phase i [new] (Phases state))"
    and "idx = Some i \<Longrightarrow> \<not> over_cap opts (Phases s ! i) \<and> ph_Status (Phases s ! i) \<notin> {PhaseStatusCompleted, PhaseStatusFailed, PhaseStatusCancelled}"
    and "idx \<noteq> Some k \<Longrightarrow> Phases s ! k = Phases state ! k" by blast+
qed

lemma inject_state_run:
  assumes "inject_state opts new clock queues state = Inr s"
  obtains idx s1 where "select_phase opts queues state = Inr idx"
    and "enter_phase opts idx new (ic_reopened clock) (add_injected opts new (ic_planned clock) state) = Inr s1"
    and "s = s1\<lparr>IdempotencyKeys := (if ij_IdempotencyKey opts = [] then IdempotencyKeys s1
           else AList.update (ij_IdempotencyKey opts) new (IdempotencyKeys s1)),
         PlanVersion := PlanVersion s1 + 1, cs_UpdatedAt := ic_written clock\<rparr>"
proof -
  obtain idx where i: "select_phase opts queues state = Inr idx"
    using assms by (cases "select_phase opts queues state") (simp_all add: inject_state_def)
  obtain s1 where e: "enter_phase opts idx new (ic_reopened clock) (add_injected opts new (ic_planned clock) state) = Inr s1"
    using assms i by (cases "enter_phase opts idx new (ic_reopened clock) (add_injected opts new (ic_planned clock) state)") (simp_all add: inject_state_def)
  show thesis by (rule that [OF i e]) (use assms i e in \<open>simp add: inject_state_def\<close>)
qed

text \<open>The state after an injection, field by field.\<close>

lemma inject_state_fields:
  assumes run: "inject_state opts new clock queues state = Inr s"
  obtains idx where "select_phase opts queues state = Inr idx"
    and "TaskStates s = AList.update new StatusPlanned (TaskStates state)"
    and "TaskDependencies s = (if ij_BlockedBy opts = [] then TaskDependencies state else AList.update new (ij_BlockedBy opts) (TaskDependencies state))"
    and "RequiredTaskIDs s = RequiredTaskIDs state @ (if ij_Required opts then [new] else [])"
    and "OptionalTaskIDs s = OptionalTaskIDs state @ (if ij_Required opts then [] else [new])"
    and "ExpectedTaskCount s = int (length (RequiredTaskIDs s)) + int (length (OptionalTaskIDs s))"
    and "SystemCommitTaskID s = SystemCommitTaskID state"
    and "IdempotencyKeys s = (if ij_IdempotencyKey opts = [] then IdempotencyKeys state
           else AList.update (ij_IdempotencyKey opts) new (IdempotencyKeys state))"
    and "map phase_shape (Phases s) = map phase_shape (Phases state)"
    and "map ph_TaskIDs (Phases s) = map ph_TaskIDs (case idx of None \<Rightarrow> Phases state | Some i \<Rightarrow> grow_phase i [new] (Phases state))"
    and "\<forall>i. idx = Some i \<longrightarrow> i < length (Phases state) \<and> \<not> over_cap opts (Phases s ! i)
           \<and> ph_Status (Phases s ! i) \<notin> {PhaseStatusCompleted, PhaseStatusFailed, PhaseStatusCancelled}"
    and "\<forall>k. idx \<noteq> Some k \<longrightarrow> Phases s ! k = Phases state ! k"
proof -
  let ?a = "add_injected opts new (ic_planned clock) state"
  note a = add_injected_fields [where opts = opts and new = new and now = "ic_planned clock" and state = state]
  obtain idx s1 where i: "select_phase opts queues state = Inr idx" and e: "enter_phase opts idx new (ic_reopened clock) ?a = Inr s1"
    and s: "s = s1\<lparr>IdempotencyKeys := (if ij_IdempotencyKey opts = [] then IdempotencyKeys s1
           else AList.update (ij_IdempotencyKey opts) new (IdempotencyKeys s1)),
         PlanVersion := PlanVersion s1 + 1, cs_UpdatedAt := ic_written clock\<rparr>"
    by (rule inject_state_run [OF run])
  have b: "k < length (Phases ?a)" if "idx = Some k" for k using select_phase_bound [OF i [unfolded that]] unfolding a(1) .
  note r = enter_phase_run [OF e b, simplified a]
  have sel: "TaskStates s = TaskStates s1" "TaskDependencies s = TaskDependencies s1" "RequiredTaskIDs s = RequiredTaskIDs s1"
    "OptionalTaskIDs s = OptionalTaskIDs s1" "ExpectedTaskCount s = ExpectedTaskCount s1" "SystemCommitTaskID s = SystemCommitTaskID s1"
    "Phases s = Phases s1" "IdempotencyKeys s = (if ij_IdempotencyKey opts = [] then IdempotencyKeys s1
           else AList.update (ij_IdempotencyKey opts) new (IdempotencyKeys s1))" by (simp_all add: s)
  show thesis
    by (rule that [OF i]; unfold sel; (intro allI impI conjI)?)
      (use r b a in \<open>simp_all\<close>)
qed

section \<open>What an injection keeps\<close>

lemma validate_inject:
  assumes "validateInjectRequest state opts view = Inr ()"
  shows "set (ij_BlockedBy opts) \<subseteq> known_tasks state" and "cs_PlanStatus state = PlanStatusSealed"
proof -
  have f: "find (\<lambda>d. map_of (TaskStates state) d = None) (ij_BlockedBy opts) = None" and s: "cs_PlanStatus state = PlanStatusSealed"
    using assms unfolding validateInjectRequest_def by (simp_all split: if_splits sum.splits option.splits)
  have "\<forall>d \<in> set (ij_BlockedBy opts). d \<in> dom (map_of (TaskStates state))" using f by (auto simp: find_None_iff)
  then show "set (ij_BlockedBy opts) \<subseteq> known_tasks state" by (auto simp: known_tasks_def dom_map_of_conv_image_fst)
  show "cs_PlanStatus state = PlanStatusSealed" by (rule s)
qed

lemma injected_core:
  assumes run: "inject_state opts new clock queues state = Inr s" and core: "plan_core state"
    and new: "new \<notin> known_tasks state" and deps: "set (ij_BlockedBy opts) \<subseteq> known_tasks state"
  shows "plan_core s" and "known_tasks s = insert new (known_tasks state)"
proof -
  obtain idx where sel: "select_phase opts queues state = Inr idx" and ts: "TaskStates s = AList.update new StatusPlanned (TaskStates state)"
    and td: "TaskDependencies s = (if ij_BlockedBy opts = [] then TaskDependencies state else AList.update new (ij_BlockedBy opts) (TaskDependencies state))"
    and rq: "RequiredTaskIDs s = RequiredTaskIDs state @ (if ij_Required opts then [new] else [])"
    and op: "OptionalTaskIDs s = OptionalTaskIDs state @ (if ij_Required opts then [] else [new])"
    and ex: "ExpectedTaskCount s = int (length (RequiredTaskIDs s)) + int (length (OptionalTaskIDs s))"
    and sy: "SystemCommitTaskID s = SystemCommitTaskID state"
    and ph: "map ph_TaskIDs (Phases s) = map ph_TaskIDs (case idx of None \<Rightarrow> Phases state | Some i \<Rightarrow> grow_phase i [new] (Phases state))"
    and ix: "\<forall>i. idx = Some i \<longrightarrow> i < length (Phases state) \<and> \<not> over_cap opts (Phases s ! i)
           \<and> ph_Status (Phases s ! i) \<notin> {PhaseStatusCompleted, PhaseStatusFailed, PhaseStatusCancelled}"
    by (rule inject_state_fields [OF run])
  have c: "distinct (RequiredTaskIDs state @ OptionalTaskIDs state)" "set (RequiredTaskIDs state @ OptionalTaskIDs state) \<subseteq> known_tasks state"
    "graph_wf state" "distinct (concat (map ph_TaskIDs (Phases state)))" "set (concat (map ph_TaskIDs (Phases state))) \<subseteq> known_tasks state"
    "\<forall>c. SystemCommitTaskID state = Some c \<longrightarrow> c \<in> set (RequiredTaskIDs state)" "\<exists>order. task_order state order"
    using core unfolding plan_core_def by blast+
  show k: "known_tasks s = insert new (known_tasks state)" by (simp add: known_tasks_def ts dom_update)
  have nd: "new \<notin> fst ` set (TaskDependencies state)" using c(3) new unfolding graph_wf_def by fastforce
  have td': "TaskDependencies s = TaskDependencies state @ (if ij_BlockedBy opts = [] then [] else [(new, ij_BlockedBy opts)])"
    unfolding td by (simp add: update_fresh [OF nd])
  have gw: "graph_wf s"
    unfolding graph_wf_def
  proof (intro conjI)
    show "distinct (map fst (TaskStates s))" using c(3) unfolding ts graph_wf_def by (simp add: distinct_update)
    show "distinct (map fst (TaskDependencies s))" using c(3) nd unfolding td' graph_wf_def by auto
    show "\<forall>(t, ds) \<in> set (TaskDependencies s). insert t (set ds) \<subseteq> known_tasks s"
      using c(3) deps unfolding td' graph_wf_def k by (auto split: if_splits)
  qed
  obtain order where o: "task_order state order" using c(7) by blast
  note od = task_orderD [OF o c(3)]
  have dep_new: "zget [] (TaskDependencies s) new = ij_BlockedBy opts"
    unfolding td' by (simp add: zget_append nd) (simp add: zget_def)
  have dep_old: "zget [] (TaskDependencies s) t = zget [] (TaskDependencies state) t" if "t \<noteq> new" for t
    unfolding td using that by simp
  have new_order: "task_order s (order @ [new])"
  proof (rule task_orderI)
    show "distinct (order @ [new])" using od(1,2) new by simp
    show "set (order @ [new]) = known_tasks s" using od(2) k by simp
    show "distinct (map fst (TaskStates s))" using gw unfolding graph_wf_def by blast
    fix t before after assume e: "order @ [new] = before @ t # after"
    show "set (zget [] (TaskDependencies s) t) \<subseteq> set before"
    proof (cases after rule: rev_cases)
      case Nil
      then show ?thesis using e dep_new deps od(2) by simp
    next
      case (snoc xs x)
      then have e': "order = before @ t # xs" using e by simp
      then have "t \<noteq> new" using od(2) new by auto
      then show ?thesis using od(3) [OF e'] dep_old by simp
    qed
  qed
  have phs: "distinct (concat (map ph_TaskIDs (Phases s))) \<and> set (concat (map ph_TaskIDs (Phases s))) \<subseteq> known_tasks s"
  proof (cases idx)
    case None
    then show ?thesis using ph c(4,5) k by auto
  next
    case (Some i)
    then have i: "i < length (Phases state)" using ix by blast
    have m: "mset (concat (map ph_TaskIDs (Phases s))) = mset (concat (map ph_TaskIDs (Phases state)) @ [new])"
      unfolding ph using grow_phase_props(2) [OF i, of "[new]"] by (simp add: Some)
    have "distinct (concat (map ph_TaskIDs (Phases state)) @ [new])" using c(4,5) new by auto
    then have "distinct (concat (map ph_TaskIDs (Phases s)))" using m mset_eq_imp_distinct_iff by blast
    moreover have "set (concat (map ph_TaskIDs (Phases s))) \<subseteq> known_tasks s" using mset_eq_setD [OF m] c(5) k by auto
    ultimately show ?thesis by blast
  qed
  have ro: "distinct (RequiredTaskIDs s @ OptionalTaskIDs s)" "set (RequiredTaskIDs s @ OptionalTaskIDs s) \<subseteq> known_tasks s"
    using c(1,2) new unfolding rq op k by auto
  show "plan_core s"
    unfolding plan_core_def using ro ex gw phs c(6) new_order unfolding sy rq by auto
qed

lemma injected_cross:
  assumes run: "inject_state opts new clock queues state = Inr s" and wf: "plan_wf state"
    and new: "new \<notin> known_tasks state" and deps: "set (ij_BlockedBy opts) \<subseteq> known_tasks state"
    and sel: "select_phase opts queues state = Inr idx"
    and inside: "\<And>i. idx = Some i \<Longrightarrow> set (ij_BlockedBy opts) \<subseteq> set (ph_TaskIDs (Phases state ! i))"
  shows "validateCrossPhaseRefs s = Inr ()"
proof -
  have core: "plan_core state" and cross: "validateCrossPhaseRefs state = Inr ()" using wf plan_wf_core by blast+
  note ic = injected_core [OF run core new deps]
  obtain idx' where sel': "select_phase opts queues state = Inr idx'"
    and td: "TaskDependencies s = (if ij_BlockedBy opts = [] then TaskDependencies state else AList.update new (ij_BlockedBy opts) (TaskDependencies state))"
    and sh: "map phase_shape (Phases s) = map phase_shape (Phases state)"
    and ph: "map ph_TaskIDs (Phases s) = map ph_TaskIDs (case idx' of None \<Rightarrow> Phases state | Some i \<Rightarrow> grow_phase i [new] (Phases state))"
    and ix: "\<forall>i. idx' = Some i \<longrightarrow> i < length (Phases state) \<and> \<not> over_cap opts (Phases s ! i)
           \<and> ph_Status (Phases s ! i) \<notin> {PhaseStatusCompleted, PhaseStatusFailed, PhaseStatusCancelled}"
    by (rule inject_state_fields [OF run])
  have e: "idx' = idx" using sel sel' by simp
  have l: "length (Phases s) = length (Phases state)" using sh by (metis length_map)
  have d: "distinct (concat (map ph_TaskIDs (Phases state)))" "distinct (concat (map ph_TaskIDs (Phases s)))"
    and pk: "set (concat (map ph_TaskIDs (Phases state))) \<subseteq> known_tasks state" and gw: "graph_wf state"
    using core ic(1) unfolding plan_core_def by blast+
  have at: "set (ph_TaskIDs (Phases s ! k)) = set (ph_TaskIDs (Phases state ! k)) \<union> (if idx = Some k then {new} else {})"
    if k: "k < length (Phases state)" for k
  proof -
    have "ph_TaskIDs (Phases s ! k) = map ph_TaskIDs (Phases s) ! k" using k l by simp
    also have "\<dots> = map ph_TaskIDs (case idx of None \<Rightarrow> Phases state | Some i \<Rightarrow> grow_phase i [new] (Phases state)) ! k" unfolding ph e ..
    finally have a: "ph_TaskIDs (Phases s ! k) = map ph_TaskIDs (case idx of None \<Rightarrow> Phases state | Some i \<Rightarrow> grow_phase i [new] (Phases state)) ! k" .
    show ?thesis
    proof (cases idx)
      case None
      then show ?thesis using a k by simp
    next
      case (Some i)
      then have i: "i < length (Phases state)" using ix e by blast
      show ?thesis using a grow_phase_props(3) [OF i k, of "[new]"] grow_phase_props(4) [OF i, of "[new]"] k by (simp add: Some)
    qed
  qed
  have old: "map_of (task_phase (Phases state)) x = Some k" if "map_of (task_phase (Phases s)) x = Some k" "x \<noteq> new" for x k
    using that at [of k] l unfolding task_phase_iff [OF d(1)] task_phase_iff [OF d(2)] by (auto split: if_splits)
  have here: "idx = Some k" if "map_of (task_phase (Phases s)) new = Some k" for k
  proof -
    have "k < length (Phases state)" "new \<in> set (ph_TaskIDs (Phases s ! k))" using that l unfolding task_phase_iff [OF d(2)] by simp_all
    moreover have "new \<notin> set (ph_TaskIDs (Phases state ! k))" using new pk calculation(1) nth_mem by fastforce
    ultimately show ?thesis using at by (auto split: if_splits)
  qed
  show ?thesis
  proof (rule cross_ok_shape [OF cross sh])
    fix t ds x i j
    assume t: "(t, ds) \<in> set (TaskDependencies s)" and x: "x \<in> set ds" and i: "map_of (task_phase (Phases s)) t = Some i"
      and j: "map_of (task_phase (Phases s)) x = Some j" and ij: "i \<noteq> j"
    have nd: "new \<notin> fst ` set (TaskDependencies state)" using gw new unfolding graph_wf_def by fastforce
    from t consider "(t, ds) \<in> set (TaskDependencies state)" | "t = new" "ds = ij_BlockedBy opts"
      unfolding td using update_fresh [OF nd] by (auto split: if_splits)
    then show "(t, ds) \<in> set (TaskDependencies state) \<and> map_of (task_phase (Phases state)) t = Some i \<and> map_of (task_phase (Phases state)) x = Some j"
    proof cases
      case 1
      have "insert t (set ds) \<subseteq> known_tasks state" using gw 1 unfolding graph_wf_def by blast
      then have "t \<noteq> new" "x \<noteq> new" using new x by blast+
      then show ?thesis using 1 old [OF i] old [OF j] by blast
    next
      case 2
      have xn: "x \<noteq> new" using 2 x deps new by blast
      have "idx = Some i" using here i 2(1) by blast
      then have "x \<in> set (ph_TaskIDs (Phases state ! i))" "i < length (Phases state)" using inside x 2(2) ix e by blast+
      moreover have "j < length (Phases state)" "x \<in> set (ph_TaskIDs (Phases state ! j))"
        using old [OF j xn] unfolding task_phase_iff [OF d(1)] by simp_all
      ultimately show ?thesis using phases_disjoint [OF d(1)] ij by blast
    qed
  qed
qed

section \<open>Runs\<close>

lemma AddTask_locked:
  assumes "AddTask ok others opts v1 v2 newID clock disk = (r, disk')"
    and "disk' \<noteq> disk \<or> (\<exists>x. r = Inr x \<and> \<not> jr_Deduplicated x)"
  obtains i assigned where "newID = Some i" and "inject_locked ok opts v2 i clock assigned (others disk) = (r, disk')"
proof -
  have nd: "first_task opts disk s = Some x \<Longrightarrow> jr_Deduplicated x" for s x
    by (auto simp: first_task_def Let_def split: if_splits option.splits prod.splits)
  show thesis using assms that nd
    by (auto simp: AddTask_def split: option.splits sum.splits)
qed

lemma inject_locked_done:
  assumes run: "inject_locked ok opts view i clock assigned disk = (Inr r, disk')" and fresh: "\<not> jr_Deduplicated r"
  obtains state state' where "pd_State disk = Some state" and "validateInjectRequest state opts view = Inr ()"
    and "inject_state opts i clock (pd_Queues disk) state = Inr state'" and "pd_State disk' = Some state'"
    and "pd_Queues disk' = writeRetryQueueEntry (inject_row opts i (fst assigned)) (ic_written clock) (pd_Queues disk)"
    and "r = \<lparr>jr_TaskID = i, jr_Worker = fst assigned, jr_Model = snd assigned, jr_Deduplicated = False\<rparr>"
proof -
  obtain state where s: "pd_State disk = Some state" using run by (cases "pd_State disk") (simp_all add: inject_locked_def)
  have v: "validateInjectRequest state opts view = Inr ()" using run s by (cases "validateInjectRequest state opts view") (simp_all add: inject_locked_def)
  have "first_task opts disk state = Some x \<Longrightarrow> jr_Deduplicated x" for x
    by (auto simp: first_task_def Let_def split: if_splits option.splits prod.splits)
  then have f: "first_task opts disk state = None" using run s v fresh by (cases "first_task opts disk state") (auto simp: inject_locked_def)
  obtain state' where i: "inject_state opts i clock (pd_Queues disk) state = Inr state'"
    using run s v f by (cases "inject_state opts i clock (pd_Queues disk) state") (simp_all add: inject_locked_def)
  have a: "ok (AppendRow i)" using run s v f i by (cases "ok (AppendRow i)") (simp_all add: inject_locked_def)
  have sv: "ok SaveSealed" using run s v f i a by (cases "ok SaveSealed") (simp_all add: inject_locked_def Let_def)
  show thesis by (rule that [OF s v i]) (use run s v f i a sv in \<open>auto simp: inject_locked_def Let_def\<close>)
qed

lemma inject_locked_fails:
  assumes run: "inject_locked ok opts view i clock assigned disk = (Inl e, disk')" and ok: "\<forall>w. ok (RollbackQueue w)"
    and fresh: "fresh_ids {i} (pd_Queues disk)"
  shows "pd_State disk' = pd_State disk \<and> (\<forall>w. rows_of (pd_Queues disk') w = rows_of (pd_Queues disk) w)"
proof (cases "disk' = disk")
  case False
  let ?row = "inject_row opts i (fst assigned)"
  let ?qs = "writeRetryQueueEntry ?row (ic_written clock) (pd_Queues disk)"
  obtain state where s: "pd_State disk = Some state" using run False by (cases "pd_State disk") (simp_all add: inject_locked_def)
  have v: "validateInjectRequest state opts view = Inr ()" using run s False by (cases "validateInjectRequest state opts view") (simp_all add: inject_locked_def)
  have f: "first_task opts disk state = None" using run s v by (cases "first_task opts disk state") (auto simp: inject_locked_def)
  obtain state' where ins: "inject_state opts i clock (pd_Queues disk) state = Inr state'"
    using run s v f False by (cases "inject_state opts i clock (pd_Queues disk) state") (simp_all add: inject_locked_def)
  have a: "ok (AppendRow i)" using run s v f ins False by (cases "ok (AppendRow i)") (simp_all add: inject_locked_def)
  have "disk' = disk\<lparr>pd_Queues := rollbackRetryQueueEntries ok [?row] ?qs\<rparr>"
    using run s v f ins a by (cases "ok SaveSealed") (simp_all add: inject_locked_def Let_def)
  moreover have "rows_of (rollbackRetryQueueEntries ok [?row] ?qs) w = rows_of (pd_Queues disk) w" for w
  proof -
    have id: "rq_taskID ?row = i" by (simp add: inject_row_def)
    have ids: "rq_taskID ` {t \<in> set [?row]. rq_workerID t = w} = (if rq_workerID ?row = w then {i} else {})" using id by auto
    have fr: "filter (\<lambda>t. q_ID t \<noteq> i) (rows_of (pd_Queues disk) w) = rows_of (pd_Queues disk) w"
      using fresh unfolding fresh_ids_def by (intro filter_True) blast
    show ?thesis unfolding retry_rollback_rows [OF ok] ids
      by (cases "rq_workerID ?row = w") (simp_all add: writeRetryQueueEntry_def rows_update id fr)
  qed
  ultimately show ?thesis by simp
qed simp

lemma first_task_key:
  "first_task opts disk state = Some r \<Longrightarrow> ij_IdempotencyKey opts \<noteq> [] \<and> map_of (IdempotencyKeys state) (ij_IdempotencyKey opts) = Some (jr_TaskID r) \<and> jr_Deduplicated r"
  by (auto simp: first_task_def Let_def split: if_splits option.splits prod.splits)

lemma key_recorded:
  assumes run: "AddTask ok others opts v1 v2 newID clock disk = (Inr r, disk')" and key: "ij_IdempotencyKey opts \<noteq> []"
  shows "\<exists>s. pd_State disk' = Some s \<and> map_of (IdempotencyKeys s) (ij_IdempotencyKey opts) = Some (jr_TaskID r)"
proof (cases "jr_Deduplicated r")
  case False
  then obtain i assigned where l: "inject_locked ok opts v2 i clock assigned (others disk) = (Inr r, disk')" by (metis AddTask_locked [OF run])
  show ?thesis
  proof (rule inject_locked_done [OF l False])
    fix state state' assume i: "inject_state opts i clock (pd_Queues (others disk)) state = Inr state'" and s: "pd_State disk' = Some state'"
      and r: "r = \<lparr>jr_TaskID = i, jr_Worker = fst assigned, jr_Model = snd assigned, jr_Deduplicated = False\<rparr>"
    obtain idx where "IdempotencyKeys state' = (if ij_IdempotencyKey opts = [] then IdempotencyKeys state
           else AList.update (ij_IdempotencyKey opts) i (IdempotencyKeys state))" by (rule inject_state_fields [OF i])
    then show ?thesis using s r key by simp
  qed
next
  case True
  obtain state where s: "pd_State disk = Some state" using run by (cases "pd_State disk") (simp_all add: AddTask_def)
  have v: "validateInjectRequest state opts v1 = Inr ()" using run s by (cases "validateInjectRequest state opts v1") (simp_all add: AddTask_def)
  show ?thesis
  proof (cases "first_task opts disk state")
    case (Some x)
    then have "x = r" "disk' = disk" using run s v by (simp_all add: AddTask_def)
    then show ?thesis using first_task_key [OF Some] s by auto
  next
    case None
    then obtain i assigned where l: "inject_locked ok opts v2 i clock assigned (others disk) = (Inr r, disk')"
      using run s v by (auto simp: AddTask_def split: sum.splits option.splits)
    let ?d = "others disk"
    obtain st where t: "pd_State ?d = Some st" using l by (cases "pd_State ?d") (simp_all add: inject_locked_def)
    have v2: "validateInjectRequest st opts v2 = Inr ()" using l t by (cases "validateInjectRequest st opts v2") (simp_all add: inject_locked_def)
    show ?thesis
    proof (cases "first_task opts ?d st")
      case (Some x)
      then have "x = r" "disk' = ?d" using l t v2 by (simp_all add: inject_locked_def)
      then show ?thesis using first_task_key [OF Some] t by auto
    next
      case None
      obtain st' where ins: "inject_state opts i clock (pd_Queues ?d) st = Inr st'"
        using l t v2 None by (cases "inject_state opts i clock (pd_Queues ?d) st") (simp_all add: inject_locked_def)
      have a: "ok (AppendRow i)" using l t v2 None ins by (cases "ok (AppendRow i)") (simp_all add: inject_locked_def)
      have "ok SaveSealed" using l t v2 None ins a by (cases "ok SaveSealed") (simp_all add: inject_locked_def Let_def)
      then have "\<not> jr_Deduplicated r" using l t v2 None ins a by (auto simp: inject_locked_def Let_def)
      then show ?thesis using True by blast
    qed
  qed
qed

section \<open>Properties\<close>



text \<open>
  A key is used once: after a request with a key succeeded, also when it found the task there, every later request of the same
  key that passes the checks answers with the same task as a duplicate and writes nothing, whatever else it asks for.
\<close>

theorem injected_once:
  assumes "AddTask ok others opts v1 v2 newID clock disk = (Inr r, disk')" and "ij_IdempotencyKey opts \<noteq> []"
    and "ij_IdempotencyKey opts' = ij_IdempotencyKey opts" and "AddTask ok' others' opts' v1' v2' newID' clock' disk' = (r', disk'')"
  shows "disk'' = disk' \<and> (\<forall>x. r' = Inr x \<longrightarrow> jr_TaskID x = jr_TaskID r \<and> jr_Deduplicated x)
    \<and> (\<forall>s. pd_State disk' = Some s \<and> validateInjectRequest s opts' v1' = Inr () \<longrightarrow> (\<exists>x. r' = Inr x))"
proof -
  obtain s where s: "pd_State disk' = Some s" "map_of (IdempotencyKeys s) (ij_IdempotencyKey opts) = Some (jr_TaskID r)"
    using key_recorded [OF assms(1,2)] by blast
  obtain x where x: "first_task opts' disk' s = Some x" "jr_TaskID x = jr_TaskID r" "jr_Deduplicated x"
    using s assms(2,3) by (cases "lookupTaskAssignment (pd_Queues disk') (jr_TaskID r) (rf_Workers (ij_Fleet opts'))")
      (simp add: first_task_def Let_def)
  show ?thesis using assms(4) s x by (cases "validateInjectRequest s opts' v1'") (auto simp: AddTask_def)
qed

text \<open>
  An injection that fails has written nothing: what is stored is what was there, or what others left while the lock was given
  up. The removal of a row is taken to succeed, and the new id not to be in a queue.
\<close>

theorem failed_injection:
  assumes "AddTask ok others opts v1 v2 newID clock disk = (Inl e, disk')" and "\<forall>w. ok (RollbackQueue w)"
    and "\<forall>i. newID = Some i \<longrightarrow> fresh_ids {i} (pd_Queues (others disk))"
  shows "disk' = disk \<or> pd_State disk' = pd_State (others disk)
    \<and> (\<forall>w. rows_of (pd_Queues disk') w = rows_of (pd_Queues (others disk)) w)"
proof (cases "disk' = disk")
  case False
  then obtain i assigned where "newID = Some i" and l: "inject_locked ok opts v2 i clock assigned (others disk) = (Inl e, disk')"
    by (metis AddTask_locked [OF assms(1)])
  then show ?thesis using inject_locked_fails [OF l assms(2)] assms(3) by blast
qed simp

section \<open>An injection into a small plan\<close>

definition demo_injection :: InjectOptions where
  "demo_injection = \<lparr>ij_CommandID = ''c'', ij_Purpose = ''repair'', ij_Content = ''merge'', ij_AcceptanceCriteria = ''builds'',
     ij_DefinitionOfDone = [''done''], ij_Constraints = [], ij_BlockedBy = [''0''], ij_BloomLevel = 3, ij_Required = True,
     ij_ToolsHint = [], ij_PersonaHint = [], ij_SkillRefs = [], ij_ExpectedPaths = Some [''a.go''],
     ij_DefinitionOfAbort = Some DefaultDefinitionOfAbort, ij_TargetWorkerID = [], ij_TargetPhase = [], ij_IdempotencyKey = ''k'',
     ij_RunOnMain = False, ij_RunOnIntegration = False, ij_OperationType = [], ij_WorktreeEnabled = False,
     ij_Fleet = \<lparr>rf_Workers = demo_workers, rf_MaxPending = 5, rf_Selector = None\<rparr>\<rparr>"

definition demo_inject_clock :: InjectClock where
  "demo_inject_clock = \<lparr>ic_planned = Stamp 1, ic_reopened = Stamp 2, ic_written = Stamp 3\<rparr>"

definition demo_view :: "WorktreeStat \<times> WorktreeFile" where
  "demo_view = (WorktreeAbsent, WorktreeUnreadable)"

definition demo_injected :: "(InjectError + InjectResult) \<times> PlanDisk" where
  "demo_injected = AddTask (\<lambda>_. True) id demo_injection demo_view demo_view (Some ''1'') demo_inject_clock demo_fill_disk"

definition demo_answer :: InjectResult where
  "demo_answer = (case fst demo_injected of Inr r \<Rightarrow> r | Inl _ \<Rightarrow> \<lparr>jr_TaskID = [], jr_Worker = [], jr_Model = [], jr_Deduplicated = True\<rparr>)"

lemma demo_injected_runs:
  "AddTask (\<lambda>_. True) id demo_injection demo_view demo_view (Some ''1'') demo_inject_clock demo_fill_disk = (Inr demo_answer, snd demo_injected)"
  "\<not> jr_Deduplicated demo_answer"
proof -
  have e: "(case fst demo_injected of Inr r \<Rightarrow> \<not> jr_Deduplicated r | Inl _ \<Rightarrow> False)" by code_simp
  then obtain r where r: "fst demo_injected = Inr r" by (auto split: sum.splits)
  then have "demo_injected = (Inr demo_answer, snd demo_injected)" by (simp add: demo_answer_def prod_eq_iff)
  then show "AddTask (\<lambda>_. True) id demo_injection demo_view demo_view (Some ''1'') demo_inject_clock demo_fill_disk = (Inr demo_answer, snd demo_injected)"
    by (simp add: demo_injected_def [symmetric])
  show "\<not> jr_Deduplicated demo_answer" using e r by (simp add: demo_answer_def)
qed


lemma injected_once_witness:
  "\<exists>r. fst (AddTask (\<lambda>_. True) id demo_injection demo_view demo_view (Some ''2'') demo_inject_clock (snd demo_injected)) = Inr r
    \<and> jr_TaskID r = ''1'' \<and> jr_Deduplicated r"
proof -
  let ?again = "AddTask (\<lambda>_. True) id demo_injection demo_view demo_view (Some ''2'') demo_inject_clock (snd demo_injected)"
  have id: "jr_TaskID demo_answer = ''1''" by code_simp
  have k: "ij_IdempotencyKey demo_injection \<noteq> []" by (simp add: demo_injection_def)
  have v: "(case pd_State (snd demo_injected) of None \<Rightarrow> False | Some s \<Rightarrow> validateInjectRequest s demo_injection demo_view = Inr ())" by code_simp
  show ?thesis using injected_once [OF demo_injected_runs(1) k refl prod.collapse [symmetric], where ok' = "\<lambda>_. True" and others' = id
      and v1' = demo_view and v2' = demo_view and newID' = "Some ''2''" and clock' = demo_inject_clock] v id
    by (auto split: option.splits)
qed

lemma failed_injection_witness:
  "\<forall>w. rows_of (pd_Queues (snd (AddTask (\<lambda>op. op \<noteq> SaveSealed) id demo_injection demo_view demo_view (Some ''1'') demo_inject_clock demo_fill_disk))) w
    = rows_of (pd_Queues demo_fill_disk) w"
proof -
  let ?r = "AddTask (\<lambda>op. op \<noteq> SaveSealed) id demo_injection demo_view demo_view (Some ''1'') demo_inject_clock demo_fill_disk"
  have e: "fst ?r = Inl InjectNotSaved" by code_simp
  have r: "?r = (Inl InjectNotSaved, snd ?r)" by (rule prod_eqI) (simp_all only: e fst_conv snd_conv)
  have f: "\<forall>i. Some ''1'' = Some i \<longrightarrow> fresh_ids {i} (pd_Queues (id demo_fill_disk))"
    by (auto simp: fresh_ids_def demo_fill_disk_def rows_of_def zget_def zero_Task_def split: if_splits)
  show ?thesis using failed_injection [OF r _ f] by auto
qed


text \<open>
  What the code leaves open. The references between phases are not checked again, so a task that is put into one phase and waits for
  a task of a later one is stored and every retry of the plan is refused from then on. A phase whose fill timed out
  takes the task and stays timed out.
\<close>

definition cross_plan :: CommandState where
  "cross_plan = demo_plan\<lparr>Phases := [(zero_Phase ''p1'' PhaseStatusActive [''0''])\<lparr>ph_Name := ''build''\<rparr>,
     (zero_Phase ''p2'' PhaseStatusActive [''8''])\<lparr>ph_Name := ''fix'', ph_DependsOnPhases := [''build'']\<rparr>,
     (zero_Phase ''p3'' PhaseStatusTimedOut [])\<lparr>ph_Name := ''late''\<rparr>],
     TaskStates := [(''0'', StatusPlanned), (''8'', StatusPlanned)], OptionalTaskIDs := [''8''], ExpectedTaskCount := 2\<rparr>"

lemma injection_breaks_phases:
  "ValidateTaskDAGAfterMutation cross_plan = Inr ()"
  "case pd_State (snd (AddTask (\<lambda>_. True) id (demo_injection\<lparr>ij_TargetPhase := ''p1'', ij_BlockedBy := [''8'']\<rparr>) demo_view demo_view
     (Some ''1'') demo_inject_clock (demo_fill_disk\<lparr>pd_State := Some cross_plan\<rparr>))) of
     None \<Rightarrow> False | Some s \<Rightarrow> map_of (TaskStates s) ''1'' = Some StatusPlanned \<and> ValidateTaskDAGAfterMutation s \<noteq> Inr ()"
  by code_simp+

lemma injection_into_timed_out:
  "case pd_State (snd (AddTask (\<lambda>_. True) id (demo_injection\<lparr>ij_TargetPhase := ''p3'', ij_BlockedBy := []\<rparr>) demo_view demo_view
     (Some ''1'') demo_inject_clock (demo_fill_disk\<lparr>pd_State := Some cross_plan\<rparr>))) of
     None \<Rightarrow> False | Some s \<Rightarrow> map_of (TaskStates s) ''1'' = Some StatusPlanned \<and> ph_TaskIDs (Phases s ! 2) = [''1'']
       \<and> ph_Status (Phases s ! 2) = PhaseStatusTimedOut"
  by code_simp

end
