(* ===== verification/Auto_Retry.thy ===== *)
theory Auto_Retry imports Inject Dispatch_Order Paths Completion begin

text \<open>
  The retries the daemon makes on its own (\<open>internal/model/retry_wiring.go\<close>,
  \<open>internal/daemon/task_retry_handler.go\<close>): whether a failed task is tried again, the row of the new attempt, its
  wiring into the command state, and the registration in state and queue with its rollback. A write that fails is
  one its name says fails; a reason is the constructor of its text.
\<close>

section \<open>Wiring\<close>

text \<open>The first list that holds the old id decides; \<open>None\<close> when no list does.\<close>

definition replaceTaskMembership :: "string \<Rightarrow> string \<Rightarrow> CommandState \<Rightarrow> CommandState option" where
  "replaceTaskMembership oldID newID state =
     (if oldID \<in> set (RequiredTaskIDs state)
      then Some (state\<lparr>RequiredTaskIDs := replace_first oldID newID (RequiredTaskIDs state)\<rparr>)
      else if oldID \<in> set (OptionalTaskIDs state)
      then Some (state\<lparr>OptionalTaskIDs := replace_first oldID newID (OptionalTaskIDs state)\<rparr>)
      else if SystemCommitTaskID state = Some oldID then Some (state\<lparr>SystemCommitTaskID := Some newID\<rparr>)
      else None)"

definition add_optional :: "string \<Rightarrow> CommandState \<Rightarrow> CommandState" where
  "add_optional taskID state = state\<lparr>OptionalTaskIDs := OptionalTaskIDs state @ [taskID]\<rparr>"

definition wire_phase :: "string \<Rightarrow> stamp \<Rightarrow> Phase \<Rightarrow> Phase" where
  "wire_phase retryID now p =
     (let p1 = p\<lparr>ph_TaskIDs := ph_TaskIDs p @ [retryID]\<rparr> in
      if ph_Status p = PhaseStatusFailed
      then p1\<lparr>ph_Status := PhaseStatusActive, ph_ReopenedAt := Some now, ph_CompletedAt := None\<rparr> else p1)"

definition inherit_from :: "string \<Rightarrow> string \<Rightarrow> stamp \<Rightarrow> CommandState \<Rightarrow> CommandState" where
  "inherit_from predecessor retryID now state =
     (let s1 = (case findPhaseForTask state predecessor of
                  None \<Rightarrow> state | Some i \<Rightarrow> change_phase i (wire_phase retryID now) state);
          deps = zget [] (TaskDependencies s1) predecessor;
          s2 = (if deps \<noteq> [] then s1\<lparr>TaskDependencies := AList.update retryID deps (TaskDependencies s1)\<rparr> else s1) in
      s2\<lparr>RetryLineage := AList.update retryID predecessor (RetryLineage s2)\<rparr>)"

definition WireRetryTaskIntoState :: "string \<Rightarrow> string \<Rightarrow> stamp \<Rightarrow> CommandState \<Rightarrow> bool \<times> CommandState" where
  "WireRetryTaskIntoState retryID predecessor now state =
     (let (membered, s1) =
        (if predecessor = [] then (False, add_optional retryID state)
         else case replaceTaskMembership predecessor retryID state of
           None \<Rightarrow> (False, add_optional retryID state) | Some s \<Rightarrow> (True, s));
          s2 = (if predecessor = [] then s1 else inherit_from predecessor retryID now s1) in
      (membered, (SetTaskState retryID StatusPlanned now s2)\<lparr>cs_UpdatedAt := now\<rparr>))"

definition forget_task :: "string \<Rightarrow> CommandState \<Rightarrow> CommandState" where
  "forget_task taskID state =
     state\<lparr>TaskStates := AList.delete taskID (TaskStates state),
           TaskStatusChangedAt := AList.delete taskID (TaskStatusChangedAt state),
           TaskDependencies := AList.delete taskID (TaskDependencies state),
           RetryLineage := AList.delete taskID (RetryLineage state)\<rparr>"

definition unwire_phase :: "string \<Rightarrow> Phase \<Rightarrow> Phase" where
  "unwire_phase retryID p =
     (if retryID \<in> set (ph_TaskIDs p)
      then p\<lparr>ph_TaskIDs := remove1 retryID (ph_TaskIDs p), ph_ReopenedAt := None\<rparr> else p)"

definition drop_optional :: "string \<Rightarrow> CommandState \<Rightarrow> CommandState" where
  "drop_optional taskID state = state\<lparr>OptionalTaskIDs := remove1 taskID (OptionalTaskIDs state)\<rparr>"

definition UnwireRetryTaskFromState :: "string \<Rightarrow> string \<Rightarrow> stamp \<Rightarrow> CommandState \<Rightarrow> CommandState" where
  "UnwireRetryTaskFromState retryID predecessor now state =
     (let s1 = forget_task retryID state;
          s2 = (if predecessor \<noteq> []
                then (case replaceTaskMembership retryID predecessor s1 of
                        None \<Rightarrow> drop_optional retryID s1 | Some s \<Rightarrow> s)
                else drop_optional retryID s1) in
      s2\<lparr>Phases := map (unwire_phase retryID) (Phases s2), cs_UpdatedAt := now\<rparr>)"

section \<open>Whether to try again\<close>

record TaskRetryConfig =
  tr_Enabled :: bool
  tr_RetryableExitCodes :: "int list"
  tr_MaxRetries :: int
  tr_CooldownSec :: int

datatype stop_reason =
    RetryDisabled | NotRetrySafe | MaxRetriesExceeded int int | ExitCodeNotRetryable int
  | MaxRepairCountExceeded int int | WallClockExceeded int | FailureConditionMatched string

definition matched_condition :: "string list \<Rightarrow> string \<Rightarrow> string option" where
  "matched_condition conds lastErr =
     find (\<lambda>c. c \<noteq> [] \<and> str_contains lastErr c) (map TrimSpace conds)"

definition wall_clock_over :: "int \<Rightarrow> int \<Rightarrow> stamp \<Rightarrow> bool" where
  "wall_clock_over now limit createdAt =
     (0 < limit \<and> (case parse_stamp createdAt of
        None \<Rightarrow> False | Some created \<Rightarrow> wrap64 (limit * 1000000000) \<le> since now created))"

definition shouldAbortByDefinition :: "int \<Rightarrow> DefinitionOfAbort \<Rightarrow> Task \<Rightarrow> stop_reason option" where
  "shouldAbortByDefinition now doa task =
     (if 0 < MaxRepairCount doa \<and> MaxRepairCount doa \<le> tk_ExecutionRetries task
      then Some (MaxRepairCountExceeded (tk_ExecutionRetries task) (MaxRepairCount doa))
      else if wall_clock_over now (MaxWallClockSec doa) (q_CreatedAt task)
      then Some (WallClockExceeded (MaxWallClockSec doa))
      else case q_LastError task of
        None \<Rightarrow> None
      | Some e \<Rightarrow> if e = [] then None
                  else map_option FailureConditionMatched (matched_condition (ExplicitFailureConditions doa) e))"

definition abort_reason :: "int \<Rightarrow> Task \<Rightarrow> stop_reason option" where
  "abort_reason now task =
     (case tk_DefinitionOfAbort task of None \<Rightarrow> None | Some doa \<Rightarrow> shouldAbortByDefinition now doa task)"

definition retries_used_up :: "TaskRetryConfig \<Rightarrow> Task \<Rightarrow> bool" where
  "retries_used_up cfg task = (0 < tr_MaxRetries cfg \<and> tr_MaxRetries cfg \<le> tk_ExecutionRetries task)"

text \<open>\<open>None\<close>: try again.\<close>

definition ShouldRetryTask :: "TaskRetryConfig \<Rightarrow> int \<Rightarrow> Task \<Rightarrow> int \<Rightarrow> bool \<Rightarrow> stop_reason option" where
  "ShouldRetryTask cfg now task exitCode retrySafe =
     (if \<not> tr_Enabled cfg then Some RetryDisabled
      else if \<not> retrySafe then Some NotRetrySafe
      else case abort_reason now task of
        Some r \<Rightarrow> Some r
      | None \<Rightarrow>
          if retries_used_up cfg task then Some (MaxRetriesExceeded (tk_ExecutionRetries task) (tr_MaxRetries cfg))
          else if exitCode \<notin> set (tr_RetryableExitCodes cfg) then Some (ExitCodeNotRetryable exitCode)
          else None)"

definition ShouldRepairTask :: "TaskRetryConfig \<Rightarrow> int \<Rightarrow> Task \<Rightarrow> string \<Rightarrow> stop_reason option" where
  "ShouldRepairTask cfg now task failureReason =
     (if \<not> tr_Enabled cfg then Some RetryDisabled
      else case abort_reason now (if failureReason \<noteq> [] then task\<lparr>q_LastError := Some failureReason\<rparr> else task) of
        Some r \<Rightarrow> Some r
      | None \<Rightarrow>
          if retries_used_up cfg task then Some (MaxRetriesExceeded (tk_ExecutionRetries task) (tr_MaxRetries cfg))
          else None)"

definition IsFutileIntegrationScopedRetry :: "Task \<Rightarrow> int \<Rightarrow> string list \<Rightarrow> bool \<Rightarrow> bool" where
  "IsFutileIntegrationScopedRetry task exitCode filesChanged partialChangesPossible =
     (tk_OperationType task = ''verify'' \<and> (tk_RunOnIntegration task \<or> tk_RunOnMain task)
      \<and> exitCode = 1 \<and> filesChanged = [] \<and> \<not> partialChangesPossible)"

definition IsAbortByMaxRepair :: "stop_reason \<Rightarrow> bool" where
  "IsAbortByMaxRepair r = (case r of MaxRepairCountExceeded _ _ \<Rightarrow> True | _ \<Rightarrow> False)"

section \<open>The row of the new attempt\<close>

definition retryMetaPrefix :: string where "retryMetaPrefix = ''retry_attempt=''"
definition maxRetryMeta :: nat where "maxRetryMeta = 5"
definition maxPrioritySteps :: int where "maxPrioritySteps = 3"

definition withCappedRetryMeta :: "string list \<Rightarrow> string \<Rightarrow> string list" where
  "withCappedRetryMeta constraints newMeta =
     (let (meta, plain) = partition (\<lambda>c. has_prefix c retryMetaPrefix) constraints;
          meta' = (if maxRetryMeta - 1 < length meta then drop (length meta - (maxRetryMeta - 1)) meta else meta) in
      plain @ meta' @ [newMeta])"

definition retry_meta :: "Task \<Rightarrow> int \<Rightarrow> string" where
  "retry_meta original exitCode =
     retryMetaPrefix @ show_int (tk_ExecutionRetries original + 1) @ '',original_task='' @ q_ID original
     @ '',exit_code='' @ show_int exitCode"

definition CreateRetryTask :: "TaskRetryConfig \<Rightarrow> int \<Rightarrow> string \<Rightarrow> Task \<Rightarrow> int \<Rightarrow> Task" where
  "CreateRetryTask cfg now retryID original exitCode =
     (let retries = tk_ExecutionRetries original + 1;
          fresh = original\<lparr>q_ID := retryID, q_Attempts := 0, tk_ExecutionRetries := retries,
            tk_OriginalTaskID := (if tk_OriginalTaskID original = [] then q_ID original else tk_OriginalTaskID original),
            q_Status := StatusPending, q_LeaseOwner := None, q_LeaseExpiresAt := None, q_LeaseEpoch := 0,
            tk_InProgressAt := None, tk_LastProgressEpoch := 0, tk_AttemptsChargedEpoch := 0,
            tk_ProgressInterrupts := 0, tk_ResumeAttempts := 0, tk_ResumeRequested := False,
            tk_OperationType := ''repair'', tk_ABGroupID := [], q_CreatedAt := fmt_stamp now, q_UpdatedAt := fmt_stamp now,
            tk_Constraints := withCappedRetryMeta (tk_Constraints original) (retry_meta original exitCode)\<rparr> in
      if 0 < tr_CooldownSec cfg
      then fresh\<lparr>tk_NotBefore := Some (fmt_stamp (now + seconds (tr_CooldownSec cfg))),
             q_Priority := (if retries \<le> maxPrioritySteps then q_Priority original + tr_CooldownSec cfg
                            else q_Priority original)\<rparr>
      else fresh)"

definition CreateVerifyRepairTask :: "TaskRetryConfig \<Rightarrow> int \<Rightarrow> string \<Rightarrow> Task \<Rightarrow> string \<Rightarrow> Task" where
  "CreateVerifyRepairTask cfg now retryID original failureReason =
     (let reason = (if TrimSpace failureReason = [] then ''verify_failed'' else TrimSpace failureReason) in
      (CreateRetryTask cfg now retryID original 1)\<lparr>tk_Content :=
         ''Repair the previous implementation because daemon verification failed.'' @ [CHR 0x0A, CHR 0x0A]
         @ ''Verification failure reason:'' @ [CHR 0x0A] @ reason @ [CHR 0x0A, CHR 0x0A] @ ''Original task:'' @ [CHR 0x0A]
         @ tk_Content original\<rparr>)"

section \<open>Registration\<close>

datatype RetryIo = RegisterInState | AddToQueue | RollbackState | MarkInState

type_synonym retry_io = "RetryIo \<Rightarrow> bool"

text \<open>What Go unmarshals when there is no file.\<close>

definition absent_state :: CommandState where
  "absent_state = (zero_CommandState [] (PlanStatusOther []))\<lparr>SchemaVersion := 0, FileType := []\<rparr>"

definition updateState :: "bool \<Rightarrow> (CommandState \<Rightarrow> CommandState) \<Rightarrow> PlanDisk \<Rightarrow> bool \<times> PlanDisk" where
  "updateState ok f disk =
     (if ok then (True, disk\<lparr>pd_State := Some (f (case pd_State disk of None \<Rightarrow> absent_state | Some s \<Rightarrow> s))\<rparr>)
      else (False, disk))"

definition RegisterRetryTaskInState :: "retry_io \<Rightarrow> stamp \<Rightarrow> string \<Rightarrow> string \<Rightarrow> PlanDisk \<Rightarrow> bool \<times> PlanDisk" where
  "RegisterRetryTaskInState ok now retryID predecessor disk =
     updateState (ok RegisterInState) (\<lambda>s. snd (WireRetryTaskIntoState retryID predecessor now s)) disk"

definition AddRetryTaskToQueue :: "retry_io \<Rightarrow> Task \<Rightarrow> string \<Rightarrow> PlanDisk \<Rightarrow> bool \<times> PlanDisk" where
  "AddRetryTaskToQueue ok task w disk =
     (if ok AddToQueue
      then (True, disk\<lparr>pd_Queues := AList.update w (rows_of (pd_Queues disk) w @ [task]) (pd_Queues disk)\<rparr>)
      else (False, disk))"

definition rollbackRetryTaskFromState :: "retry_io \<Rightarrow> stamp \<Rightarrow> string \<Rightarrow> string \<Rightarrow> PlanDisk \<Rightarrow> bool \<times> PlanDisk" where
  "rollbackRetryTaskFromState ok now retryID predecessor disk =
     updateState (ok RollbackState) (UnwireRetryTaskFromState retryID predecessor now) disk"

definition MarkRetryEnqueueFailed :: "retry_io \<Rightarrow> stamp \<Rightarrow> string \<Rightarrow> string \<Rightarrow> PlanDisk \<Rightarrow> bool \<times> PlanDisk" where
  "MarkRetryEnqueueFailed ok now retryID w disk =
     updateState (ok MarkInState)
       (\<lambda>s. s\<lparr>RetryEnqueueFailed := AList.update retryID w (RetryEnqueueFailed s), cs_UpdatedAt := now\<rparr>) disk"

datatype AtomicError = NotRegistered | QueueFailedRolledBack | QueueFailedMarked | QueueFailedUnmarked

definition RetryTaskAtomically ::
  "retry_io \<Rightarrow> stamp \<Rightarrow> Task \<Rightarrow> string \<Rightarrow> string \<Rightarrow> PlanDisk \<Rightarrow> AtomicError option \<times> PlanDisk" where
  "RetryTaskAtomically ok now task predecessor w disk =
     (case RegisterRetryTaskInState ok now (q_ID task) predecessor disk of
        (False, d) \<Rightarrow> (Some NotRegistered, d)
      | (True, d1) \<Rightarrow>
          (case AddRetryTaskToQueue ok task w d1 of
             (True, d2) \<Rightarrow> (None, d2)
           | (False, d2) \<Rightarrow>
               (case rollbackRetryTaskFromState ok now (q_ID task) predecessor d2 of
                  (True, d3) \<Rightarrow> (Some QueueFailedRolledBack, d3)
                | (False, d3) \<Rightarrow>
                    (case MarkRetryEnqueueFailed ok now (q_ID task) w d3 of
                       (True, d4) \<Rightarrow> (Some QueueFailedMarked, d4)
                     | (False, d4) \<Rightarrow> (Some QueueFailedUnmarked, d4)))))"

section \<open>What the wiring keeps\<close>

lemma replace_first_rename:
  "distinct xs \<Longrightarrow> replace_first old new xs = map (rename_dep old new) xs"
proof (induction xs)
  case (Cons x xs)
  then show ?case by (cases "x = old") (auto simp: rename_dep_def intro!: map_idI [symmetric])
qed simp

lemma replace_first_back: "new \<notin> set xs \<Longrightarrow> replace_first new old (replace_first old new xs) = xs"
  by (induction xs) auto

lemma replace_first_in: "new \<in> set (replace_first old new xs) \<longleftrightarrow> old \<in> set xs \<or> new \<in> set xs"
  by (induction xs) auto

lemma inherit_fields:
  "RequiredTaskIDs (inherit_from p r now s) = RequiredTaskIDs s" "OptionalTaskIDs (inherit_from p r now s) = OptionalTaskIDs s"
  "SystemCommitTaskID (inherit_from p r now s) = SystemCommitTaskID s" "ExpectedTaskCount (inherit_from p r now s) = ExpectedTaskCount s"
  "TaskStates (inherit_from p r now s) = TaskStates s"
  "RetryLineage (inherit_from p r now s) = AList.update r p (RetryLineage s)"
  "TaskDependencies (inherit_from p r now s) =
     (if zget [] (TaskDependencies s) p = [] then TaskDependencies s
      else AList.update r (zget [] (TaskDependencies s) p) (TaskDependencies s))"
  "Phases (inherit_from p r now s) =
     (case findPhaseForTask s p of None \<Rightarrow> Phases s | Some i \<Rightarrow> (Phases s)[i := wire_phase r now (Phases s ! i)])"
  by (auto simp: inherit_from_def Let_def change_phase_def split: option.split)

lemma membership_fields:
  assumes "replaceTaskMembership old new s = Some s'"
  shows "TaskStates s' = TaskStates s" "TaskDependencies s' = TaskDependencies s" "RetryLineage s' = RetryLineage s"
    "Phases s' = Phases s" "ExpectedTaskCount s' = ExpectedTaskCount s"
    "RequiredTaskIDs s' = replace_first old new (RequiredTaskIDs s)"
    "OptionalTaskIDs s' = (if old \<in> set (RequiredTaskIDs s) then OptionalTaskIDs s else replace_first old new (OptionalTaskIDs s))"
    "findPhaseForTask s' t = findPhaseForTask s t"
  using assms by (auto simp: replaceTaskMembership_def replace_first_member findPhaseForTask_def split: if_splits)

lemma wired_state:
  assumes "predecessor \<noteq> []" and "replaceTaskMembership predecessor retryID state = Some s1"
  shows "WireRetryTaskIntoState retryID predecessor now state =
    (True, (SetTaskState retryID StatusPlanned now (inherit_from predecessor retryID now s1))\<lparr>cs_UpdatedAt := now\<rparr>)"
  using assms by (simp add: WireRetryTaskIntoState_def)

lemma wire_phase_ids [simp]: "ph_TaskIDs (wire_phase r now p) = ph_TaskIDs p @ [r]"
  by (simp add: wire_phase_def Let_def)

lemma wired_phases_mset:
  assumes "i < length ps"
  shows "mset (concat (map ph_TaskIDs (ps[i := wire_phase r now (ps ! i)]))) = add_mset r (mset (concat (map ph_TaskIDs ps)))"
proof -
  have e: "concat (map ph_TaskIDs ps) = concat (map ph_TaskIDs (take i ps)) @ ph_TaskIDs (ps ! i) @ concat (map ph_TaskIDs (drop (Suc i) ps))"
    by (subst id_take_nth_drop [OF assms]) simp
  show ?thesis unfolding upd_conv_take_nth_drop [OF assms] e by simp
qed

text \<open>The wiring of a task with a slot: what the state lists afterwards.\<close>

definition wired :: "string \<Rightarrow> string \<Rightarrow> stamp \<Rightarrow> CommandState \<Rightarrow> CommandState" where
  "wired retryID predecessor now state = snd (WireRetryTaskIntoState retryID predecessor now state)"

definition has_slot :: "string \<Rightarrow> CommandState \<Rightarrow> bool" where
  "has_slot t state = (t \<in> set (RequiredTaskIDs state @ OptionalTaskIDs state))"

lemma slot_membership:
  fixes state :: CommandState
  assumes "has_slot old state"
  obtains s where "replaceTaskMembership old new state = Some s" "SystemCommitTaskID s = SystemCommitTaskID state"
proof (cases "old \<in> set (RequiredTaskIDs state)")
  case True
  then show ?thesis
    by (intro that [of "state\<lparr>RequiredTaskIDs := replace_first old new (RequiredTaskIDs state)\<rparr>"])
      (simp_all add: replaceTaskMembership_def)
next
  case False
  with assms show ?thesis
    by (intro that [of "state\<lparr>OptionalTaskIDs := replace_first old new (OptionalTaskIDs state)\<rparr>"])
      (simp_all add: replaceTaskMembership_def has_slot_def)
qed

lemma wired_fields:
  fixes state :: CommandState
  assumes "predecessor \<noteq> []" and "has_slot predecessor state"
    and "distinct (RequiredTaskIDs state @ OptionalTaskIDs state)"
  shows "TaskStates (wired r predecessor now state) = AList.update r StatusPlanned (TaskStates state)"
    and "TaskDependencies (wired r predecessor now state) =
      (if zget [] (TaskDependencies state) predecessor = [] then TaskDependencies state
       else AList.update r (zget [] (TaskDependencies state) predecessor) (TaskDependencies state))"
    and "RetryLineage (wired r predecessor now state) = AList.update r predecessor (RetryLineage state)"
    and "Phases (wired r predecessor now state) =
      (case findPhaseForTask state predecessor of None \<Rightarrow> Phases state
       | Some i \<Rightarrow> (Phases state)[i := wire_phase r now (Phases state ! i)])"
    and "ExpectedTaskCount (wired r predecessor now state) = ExpectedTaskCount state"
    and "RequiredTaskIDs (wired r predecessor now state) = map (rename_dep predecessor r) (RequiredTaskIDs state)"
    and "OptionalTaskIDs (wired r predecessor now state) = map (rename_dep predecessor r) (OptionalTaskIDs state)"
    and "SystemCommitTaskID (wired r predecessor now state) = SystemCommitTaskID state"
proof -
  obtain s1 where m: "replaceTaskMembership predecessor r state = Some s1" "SystemCommitTaskID s1 = SystemCommitTaskID state"
    using assms(2) by (rule slot_membership)
  note f = membership_fields [OF m(1)] and w = wired_state [OF assms(1) m(1), where now = now]
  have d: "distinct (RequiredTaskIDs state)" "distinct (OptionalTaskIDs state)"
    "predecessor \<in> set (RequiredTaskIDs state) \<Longrightarrow> predecessor \<notin> set (OptionalTaskIDs state)"
    using assms(3) by auto
  have u: "wired r predecessor now state = (SetTaskState r StatusPlanned now (inherit_from predecessor r now s1))\<lparr>cs_UpdatedAt := now\<rparr>"
    by (simp add: wired_def w)
  show "TaskStates (wired r predecessor now state) = AList.update r StatusPlanned (TaskStates state)"
    "RetryLineage (wired r predecessor now state) = AList.update r predecessor (RetryLineage state)"
    "ExpectedTaskCount (wired r predecessor now state) = ExpectedTaskCount state"
    "SystemCommitTaskID (wired r predecessor now state) = SystemCommitTaskID state"
    by (simp_all add: u inherit_fields f(1,3,5) m(2))
  show "TaskDependencies (wired r predecessor now state) =
      (if zget [] (TaskDependencies state) predecessor = [] then TaskDependencies state
       else AList.update r (zget [] (TaskDependencies state) predecessor) (TaskDependencies state))"
    by (simp add: u inherit_fields f(2))
  show "Phases (wired r predecessor now state) =
      (case findPhaseForTask state predecessor of None \<Rightarrow> Phases state
       | Some i \<Rightarrow> (Phases state)[i := wire_phase r now (Phases state ! i)])"
    by (simp add: u inherit_fields f(4,8) split: option.split)
  show "RequiredTaskIDs (wired r predecessor now state) = map (rename_dep predecessor r) (RequiredTaskIDs state)"
    by (simp add: u inherit_fields f(6) replace_first_rename [OF d(1)])
  have "OptionalTaskIDs (wired r predecessor now state) = replace_first predecessor r (OptionalTaskIDs state)"
    using d(3) by (auto simp: u inherit_fields f(7) replace_first_member)
  then show "OptionalTaskIDs (wired r predecessor now state) = map (rename_dep predecessor r) (OptionalTaskIDs state)"
    by (simp add: replace_first_rename [OF d(2)])
qed

lemma no_deps_yet:
  assumes "graph_wf state" and "r \<notin> known_tasks state"
  shows "zget [] (TaskDependencies state) r = []"
proof -
  have "fst ` set (TaskDependencies state) \<subseteq> known_tasks state" using assms(1) unfolding graph_wf_def by auto
  then show ?thesis using assms(2) by (metis map_of_eq_None_iff subsetD zget_None)
qed

lemma wired_graph:
  fixes state :: CommandState
  assumes g: "graph_wf state" and order: "task_order state order" and new: "r \<notin> known_tasks state"
    and s: "TaskStates s = AList.update r st (TaskStates state)"
      "TaskDependencies s = (if deps = [] then TaskDependencies state else AList.update r deps (TaskDependencies state))"
    and deps: "set deps \<subseteq> known_tasks state"
  shows "graph_wf s" and "task_order s (order @ [r])"
proof -
  have k: "known_tasks s = insert r (known_tasks state)" by (simp add: known_tasks_def s(1) dom_update)
  have z: "zget [] (TaskDependencies s) t = (if t = r then deps else zget [] (TaskDependencies state) t)" for t
    using no_deps_yet [OF g new] by (simp add: s(2))
  show g': "graph_wf s"
    unfolding graph_wf_def
  proof (intro conjI ballI)
    show "distinct (map fst (TaskStates s))" using g unfolding s(1) graph_wf_def by (simp add: distinct_update)
    show "distinct (map fst (TaskDependencies s))" using g unfolding s(2) graph_wf_def by (simp add: distinct_update)
    fix x assume "x \<in> set (TaskDependencies s)"
    then have "x \<in> set (TaskDependencies state) \<or> x = (r, deps)"
      using set_update_subset [of r deps "TaskDependencies state"] unfolding s(2) by (auto split: if_splits)
    then show "case x of (t, ds) \<Rightarrow> insert t (set ds) \<subseteq> known_tasks s"
      using g deps unfolding k graph_wf_def by auto
  qed
  note o = task_orderD [OF order g]
  show "task_order s (order @ [r])"
  proof (rule task_orderI)
    show "distinct (order @ [r])" using o(1,2) new by simp
    show "set (order @ [r]) = known_tasks s" using o(2) k by simp
    show "distinct (map fst (TaskStates s))" using g' by (simp add: graph_wf_def)
    fix t before after assume e: "order @ [r] = before @ t # after"
    show "set (zget [] (TaskDependencies s) t) \<subseteq> set before"
    proof (cases after rule: rev_cases)
      case Nil
      then show ?thesis using e deps o(2) by (simp add: z)
    next
      case (snoc after' a)
      with e have e': "order = before @ t # after'" by simp
      then have "t \<noteq> r" using o(2) new by auto
      then show ?thesis using o(3) [OF e'] by (simp add: z)
    qed
  qed
qed

lemma find_index_put: "i < length xs \<Longrightarrow> P y \<Longrightarrow> \<forall>x \<in> set xs. \<not> P x \<Longrightarrow> find_index P (xs[i := y]) = Some i"
  by (induction xs arbitrary: i) (auto split: nat.split)

lemma rename_slots:
  fixes state :: CommandState
  assumes "r \<notin> set (RequiredTaskIDs state @ OptionalTaskIDs state)" and "distinct (RequiredTaskIDs state @ OptionalTaskIDs state)"
  shows "distinct (map (rename_dep old r) (RequiredTaskIDs state @ OptionalTaskIDs state))"
  using assms by (auto simp: distinct_map inj_on_def rename_dep_def)

text \<open>C34. A task that has a slot and is not the system commit task is replaced by its retry: the retry is planned
  with the dependencies, the phase and the slot of the task, its lineage names the task, no other status changes, and
  the plan stays well formed with an acyclic graph.\<close>

theorem retry_wired:
  assumes "predecessor \<noteq> []" and "has_slot predecessor state" and "SystemCommitTaskID state \<noteq> Some predecessor"
    and "retryID \<notin> known_tasks state" and "plan_core state" and "lineage_known state"
  shows "plan_core (snd (WireRetryTaskIntoState retryID predecessor now state))
    \<and> lineage_known (snd (WireRetryTaskIntoState retryID predecessor now state))
    \<and> map_of (TaskStates (snd (WireRetryTaskIntoState retryID predecessor now state)))
        = (map_of (TaskStates state))(retryID \<mapsto> StatusPlanned)
    \<and> zget [] (TaskDependencies (snd (WireRetryTaskIntoState retryID predecessor now state))) retryID
        = zget [] (TaskDependencies state) predecessor
    \<and> map_of (RetryLineage (snd (WireRetryTaskIntoState retryID predecessor now state))) retryID = Some predecessor
    \<and> RequiredTaskIDs (snd (WireRetryTaskIntoState retryID predecessor now state))
        = map (rename_dep predecessor retryID) (RequiredTaskIDs state)
    \<and> OptionalTaskIDs (snd (WireRetryTaskIntoState retryID predecessor now state))
        = map (rename_dep predecessor retryID) (OptionalTaskIDs state)
    \<and> (\<forall>i. findPhaseForTask state predecessor = Some i \<longrightarrow>
        findPhaseForTask (snd (WireRetryTaskIntoState retryID predecessor now state)) retryID = Some i)"
proof -
  let ?s = "wired retryID predecessor now state"
  let ?deps = "zget [] (TaskDependencies state) predecessor"
  have c: "distinct (RequiredTaskIDs state @ OptionalTaskIDs state)"
    "set (RequiredTaskIDs state @ OptionalTaskIDs state) \<subseteq> known_tasks state"
    "ExpectedTaskCount state = int (length (RequiredTaskIDs state)) + int (length (OptionalTaskIDs state))"
    "graph_wf state" "distinct (concat (map ph_TaskIDs (Phases state)))"
    "set (concat (map ph_TaskIDs (Phases state))) \<subseteq> known_tasks state"
    "\<forall>c. SystemCommitTaskID state = Some c \<longrightarrow> c \<in> set (RequiredTaskIDs state)"
    using assms(5) unfolding plan_core_def by blast+
  obtain order where order: "task_order state order" using assms(5) unfolding plan_core_def by blast
  note f = wired_fields [OF assms(1,2) c(1), where r = retryID and now = now]
  note g = wired_graph [OF c(4) order assms(4) f(1,2) graph_refs [OF c(4)]]
  have k: "known_tasks ?s = insert retryID (known_tasks state)" by (simp add: known_tasks_def f(1) dom_update)
  have rn: "retryID \<notin> set (RequiredTaskIDs state @ OptionalTaskIDs state)" using c(2) assms(4) by blast
  have slots: "distinct (RequiredTaskIDs ?s @ OptionalTaskIDs ?s)"
    using rename_slots [OF rn c(1), of predecessor] by (simp add: f(6,7))
  have sub: "set (RequiredTaskIDs ?s @ OptionalTaskIDs ?s) \<subseteq> known_tasks ?s"
    using c(2) unfolding f(6,7) k by (auto simp: rename_dep_def)
  have nd: "distinct (retryID # concat (map ph_TaskIDs (Phases state)))" using c(5,6) assms(4) by auto
  have ph: "distinct (concat (map ph_TaskIDs (Phases ?s)))
      \<and> set (concat (map ph_TaskIDs (Phases ?s))) \<subseteq> set (retryID # concat (map ph_TaskIDs (Phases state)))"
  proof (cases "findPhaseForTask state predecessor")
    case None
    then show ?thesis using c(5) by (auto simp: f(4))
  next
    case (Some i)
    have m: "mset (concat (map ph_TaskIDs (Phases ?s))) = mset (retryID # concat (map ph_TaskIDs (Phases state)))"
      using wired_phases_mset [OF findPhase_bound [OF Some]] by (simp add: f(4) Some)
    show ?thesis using mset_eq_imp_distinct_iff [OF m] mset_eq_setD [OF m] nd by blast
  qed
  have ps: "set (concat (map ph_TaskIDs (Phases ?s))) \<subseteq> known_tasks ?s" 
    unfolding k using conjunct2 [OF ph] insert_mono [OF c(6), of retryID] by (metis list.simps(15) subset_trans)
  have sys: "\<forall>c. SystemCommitTaskID ?s = Some c \<longrightarrow> c \<in> set (RequiredTaskIDs ?s)"
    using c(7) assms(3) unfolding f(6,8) by (force simp: rename_dep_def)
  have "plan_core ?s"
    unfolding plan_core_def using slots sub c(3) g conjunct1 [OF ph] ps sys by (simp add: f(5,6,7)) blast
  moreover have "lineage_known ?s" using assms(6) by (auto simp: lineage_known_def f(3) k dom_update)
  moreover have "findPhaseForTask ?s retryID = Some i" if "findPhaseForTask state predecessor = Some i" for i
  proof -
    have i: "i < length (Phases state)" by (rule findPhase_bound [OF that])
    have no: "retryID \<notin> set (ph_TaskIDs p)" if "p \<in> set (Phases state)" for p using c(6) assms(4) that by auto
    have P: "Phases ?s = (Phases state)[i := wire_phase retryID now (Phases state ! i)]" by (simp add: f(4) that)
    show ?thesis
      unfolding findPhaseForTask_def P using i no by (intro find_index_put) auto
  qed
  moreover have "map_of (TaskStates ?s) = (map_of (TaskStates state))(retryID \<mapsto> StatusPlanned)"
    unfolding f(1) by (rule ext) simp
  ultimately show ?thesis
    using f(2,3,6,7) no_deps_yet [OF c(4) assms(4)] by (simp add: wired_def)
qed

section \<open>The rollback\<close>

definition rolled_back :: "string \<Rightarrow> Phase \<Rightarrow> Phase" where
  "rolled_back predecessor p =
     (if predecessor \<notin> set (ph_TaskIDs p) then p
      else if ph_Status p = PhaseStatusFailed
      then p\<lparr>ph_Status := PhaseStatusActive, ph_ReopenedAt := None, ph_CompletedAt := None\<rparr>
      else p\<lparr>ph_ReopenedAt := None\<rparr>)"

lemma inherit_update:
  "inherit_from p r now s = s\<lparr>
     TaskDependencies := (if zget [] (TaskDependencies s) p = [] then TaskDependencies s
       else AList.update r (zget [] (TaskDependencies s) p) (TaskDependencies s)),
     RetryLineage := AList.update r p (RetryLineage s),
     Phases := (case findPhaseForTask s p of None \<Rightarrow> Phases s
       | Some i \<Rightarrow> (Phases s)[i := wire_phase r now (Phases s ! i)])\<rparr>"
  by (simp add: inherit_from_def Let_def change_phase_def split: option.split)

lemma unwire_wire_phase:
  assumes "r \<notin> set (ph_TaskIDs p)" and "predecessor \<in> set (ph_TaskIDs p)"
  shows "unwire_phase r (wire_phase r now p) = rolled_back predecessor p"
  using assms by (simp add: unwire_phase_def wire_phase_def rolled_back_def Let_def remove1_append)

lemma unwired_phases:
  fixes state :: CommandState
  assumes d: "distinct (concat (map ph_TaskIDs (Phases state)))" and new: "r \<notin> set (concat (map ph_TaskIDs (Phases state)))"
    and ps: "ps = (case findPhaseForTask state predecessor of None \<Rightarrow> Phases state
      | Some i \<Rightarrow> (Phases state)[i := wire_phase r now (Phases state ! i)])"
  shows "map (unwire_phase r) ps = map (rolled_back predecessor) (Phases state)"
proof -
  have no: "unwire_phase r p = p" if "p \<in> set (Phases state)" for p using new that by (auto simp: unwire_phase_def)
  show ?thesis
  proof (cases "findPhaseForTask state predecessor")
    case None
    then have "rolled_back predecessor p = p" if "p \<in> set (Phases state)" for p
      using that by (auto simp: findPhaseForTask_def find_index_None rolled_back_def)
    with None no show ?thesis by (simp add: ps)
  next
    case (Some i)
    then have i: "i < length (Phases state)" "predecessor \<in> set (ph_TaskIDs (Phases state ! i))"
      unfolding findPhaseForTask_def by (auto dest: find_index_Some)
    show ?thesis
    proof (rule nth_equalityI)
      fix j assume "j < length (map (unwire_phase r) ps)"
      then have j: "j < length (Phases state)" by (simp add: ps Some)
      show "map (unwire_phase r) ps ! j = map (rolled_back predecessor) (Phases state) ! j"
      proof (cases "j = i")
        case True
        have "r \<notin> set (ph_TaskIDs (Phases state ! i))" using new nth_mem [OF i(1)] by auto
        then show ?thesis using i True by (simp add: ps Some unwire_wire_phase)
      next
        case False
        then have "predecessor \<notin> set (ph_TaskIDs (Phases state ! j))" using phases_disjoint [OF d j i(1) _ i(2)] by blast
        with False j show ?thesis by (simp add: ps Some no rolled_back_def)
      qed
    qed (simp add: ps Some)
  qed
qed

lemma forget_added:
  assumes "r \<notin> fst ` set m"
  shows "AList.delete r (AList.update r v m) = m"
  using assms by (induction m) auto

text \<open>Rolling back the registration of a retry restores the command state: only the time of the change, the
  reopening of a phase that had failed and the mark of an earlier reopening of the task's phase differ.\<close>

lemma wire_roundtrip:
  assumes "predecessor \<noteq> []" and "has_slot predecessor state" and "plan_core state" and "lineage_known state"
    and "retryID \<notin> known_tasks state" and "retryID \<notin> fst ` set (TaskStatusChangedAt state)"
  shows "UnwireRetryTaskFromState retryID predecessor later (snd (WireRetryTaskIntoState retryID predecessor now state))
    = state\<lparr>Phases := map (rolled_back predecessor) (Phases state), cs_UpdatedAt := later\<rparr>"
proof -
  have c: "distinct (RequiredTaskIDs state @ OptionalTaskIDs state)"
    "set (RequiredTaskIDs state @ OptionalTaskIDs state) \<subseteq> known_tasks state" "graph_wf state"
    "distinct (concat (map ph_TaskIDs (Phases state)))" "set (concat (map ph_TaskIDs (Phases state))) \<subseteq> known_tasks state"
    using assms(3) unfolding plan_core_def by blast+
  have fresh: "retryID \<notin> fst ` set (TaskStates state)" "retryID \<notin> fst ` set (TaskDependencies state)"
    "retryID \<notin> fst ` set (RetryLineage state)"
    using assms(4,5) c(3) unfolding known_tasks_def lineage_known_def graph_wf_def by auto
  have no: "retryID \<notin> set (RequiredTaskIDs state)" "retryID \<notin> set (OptionalTaskIDs state)" using c(2) assms(5) by auto
  have new: "retryID \<notin> set (concat (map ph_TaskIDs (Phases state)))" using c(5) assms(5) by blast
  note ph = unwired_phases [OF c(4) new refl, where predecessor = predecessor and now = now]
  note del = forget_added [OF fresh(1)] forget_added [OF fresh(2)] forget_added [OF fresh(3)] forget_added [OF assms(6)]
    delete_fresh [OF fresh(2)]
  define P where "P = (case findPhaseForTask state predecessor of None \<Rightarrow> Phases state
      | Some i \<Rightarrow> (Phases state)[i := wire_phase retryID now (Phases state ! i)])"
  define D where "D = (if zget [] (TaskDependencies state) predecessor = [] then TaskDependencies state
      else AList.update retryID (zget [] (TaskDependencies state) predecessor) (TaskDependencies state))"
  have D: "AList.delete retryID D = TaskDependencies state" by (simp add: D_def del)
  show ?thesis
  proof (cases "predecessor \<in> set (RequiredTaskIDs state)")
    case True
    let ?s1 = "state\<lparr>RequiredTaskIDs := replace_first predecessor retryID (RequiredTaskIDs state)\<rparr>"
    have m: "replaceTaskMembership predecessor retryID state = Some ?s1" using True by (simp add: replaceTaskMembership_def)
    have u: "inherit_from predecessor retryID now ?s1 = ?s1\<lparr>TaskDependencies := D,
        RetryLineage := AList.update retryID predecessor (RetryLineage state), Phases := P\<rparr>"
      by (simp add: inherit_update P_def D_def findPhaseForTask_def split: option.split)
    show ?thesis
      unfolding wired_state [OF assms(1) m] u UnwireRetryTaskFromState_def SetTaskState_def
      using assms(1) True no
      by (intro CommandState.equality)
        (simp_all add: replaceTaskMembership_def forget_task_def replace_first_in replace_first_back del D ph [folded P_def])
  next
    case False
    then have o: "predecessor \<in> set (OptionalTaskIDs state)" using assms(2) by (auto simp: has_slot_def)
    let ?s1 = "state\<lparr>OptionalTaskIDs := replace_first predecessor retryID (OptionalTaskIDs state)\<rparr>"
    have m: "replaceTaskMembership predecessor retryID state = Some ?s1" using False o by (simp add: replaceTaskMembership_def)
    have u: "inherit_from predecessor retryID now ?s1 = ?s1\<lparr>TaskDependencies := D,
        RetryLineage := AList.update retryID predecessor (RetryLineage state), Phases := P\<rparr>"
      by (simp add: inherit_update P_def D_def findPhaseForTask_def split: option.split)
    show ?thesis
      unfolding wired_state [OF assms(1) m] u UnwireRetryTaskFromState_def SetTaskState_def
      using assms(1) o no
      by (intro CommandState.equality)
        (simp_all add: replaceTaskMembership_def forget_task_def replace_first_in replace_first_back del D ph [folded P_def])
  qed
qed

section \<open>Registration in both stores\<close>

definition orphan_marked :: "string \<Rightarrow> string \<Rightarrow> CommandState \<Rightarrow> bool" where
  "orphan_marked retryID w state = (map_of (RetryEnqueueFailed state) retryID = Some w)"

text \<open>C36. Registering a retry either wires it into the state and adds its row, or leaves the queues alone and the state
  as the roundtrip says; when the rollback cannot be written the orphan is marked for the reconciler, and only when
  that write fails too is it left unmarked.\<close>

theorem registration_settles:
  assumes "pd_State disk = Some state" and "predecessor \<noteq> []" and "has_slot predecessor state" and "plan_core state"
    and "lineage_known state" and "q_ID task \<notin> known_tasks state" and "q_ID task \<notin> fst ` set (TaskStatusChangedAt state)"
    and "RetryTaskAtomically ok now task predecessor w disk = (e, disk')"
  shows "case e of
      None \<Rightarrow> pd_State disk' = Some (snd (WireRetryTaskIntoState (q_ID task) predecessor now state))
        \<and> pd_Queues disk' = AList.update w (rows_of (pd_Queues disk) w @ [task]) (pd_Queues disk)
    | Some NotRegistered \<Rightarrow> disk' = disk
    | Some QueueFailedRolledBack \<Rightarrow> pd_Queues disk' = pd_Queues disk
        \<and> pd_State disk' = Some (state\<lparr>Phases := map (rolled_back predecessor) (Phases state), cs_UpdatedAt := now\<rparr>)
    | Some QueueFailedMarked \<Rightarrow> pd_Queues disk' = pd_Queues disk
        \<and> (\<exists>s. pd_State disk' = Some s \<and> orphan_marked (q_ID task) w s
             \<and> TaskStates s = TaskStates (snd (WireRetryTaskIntoState (q_ID task) predecessor now state)))
    | Some QueueFailedUnmarked \<Rightarrow> \<not> ok RollbackState \<and> \<not> ok MarkInState \<and> pd_Queues disk' = pd_Queues disk"
proof -
  note rt = wire_roundtrip [OF assms(2-7), where later = now and now = now]
  show ?thesis
    using assms(1,8) rt
    by (cases "ok RegisterInState"; cases "ok AddToQueue"; cases "ok RollbackState"; cases "ok MarkInState")
      (auto simp: RetryTaskAtomically_def RegisterRetryTaskInState_def AddRetryTaskToQueue_def orphan_marked_def
        rollbackRetryTaskFromState_def MarkRetryEnqueueFailed_def updateState_def)
qed

section \<open>How often a task is tried\<close>

text \<open>Between its creation and its failure a row keeps its count and its limits.\<close>

definition same_budget :: "Task \<Rightarrow> Task \<Rightarrow> bool" where
  "same_budget t u = (tk_ExecutionRetries u = tk_ExecutionRetries t \<and> tk_DefinitionOfAbort u = tk_DefinitionOfAbort t)"

inductive next_attempt :: "TaskRetryConfig \<Rightarrow> Task \<Rightarrow> Task \<Rightarrow> bool" for cfg where
  after_failure: "same_budget t u \<Longrightarrow> ShouldRetryTask cfg now u exitCode retrySafe = None
    \<Longrightarrow> next_attempt cfg t (CreateRetryTask cfg later retryID u exitCode)"
| after_verification: "same_budget t u \<Longrightarrow> ShouldRepairTask cfg now u reason = None
    \<Longrightarrow> next_attempt cfg t (CreateVerifyRepairTask cfg later retryID u reason)"

inductive_simps next_attempt_iff: "next_attempt cfg t t'"

definition retry_limit :: "TaskRetryConfig \<Rightarrow> Task \<Rightarrow> int \<Rightarrow> bool" where
  "retry_limit cfg t n =
     (0 < n \<and> (n = tr_MaxRetries cfg \<or> (\<exists>doa. tk_DefinitionOfAbort t = Some doa \<and> n = MaxRepairCount doa)))"

lemma created_budget:
  "tk_ExecutionRetries (CreateRetryTask cfg now i u e) = tk_ExecutionRetries u + 1"
  "tk_DefinitionOfAbort (CreateRetryTask cfg now i u e) = tk_DefinitionOfAbort u"
  "tk_ExecutionRetries (CreateVerifyRepairTask cfg now i u r) = tk_ExecutionRetries u + 1"
  "tk_DefinitionOfAbort (CreateVerifyRepairTask cfg now i u r) = tk_DefinitionOfAbort u"
  by (simp_all add: CreateVerifyRepairTask_def CreateRetryTask_def Let_def)

lemma allowed_below_limit:
  assumes "retry_limit cfg u n" and "ShouldRetryTask cfg now u c safe = None \<or> ShouldRepairTask cfg now u reason = None"
  shows "tk_ExecutionRetries u < n"
  using assms by (auto simp: retry_limit_def ShouldRetryTask_def ShouldRepairTask_def abort_reason_def
      shouldAbortByDefinition_def retries_used_up_def split: if_splits option.splits)

lemma next_attempt_counts:
  assumes "next_attempt cfg t t'" and "retry_limit cfg t n"
  shows "tk_ExecutionRetries t' = tk_ExecutionRetries t + 1 \<and> tk_ExecutionRetries t < n \<and> retry_limit cfg t' n"
  using assms(1)
proof cases
  case (after_failure u now exitCode retrySafe later retryID)
  then have "retry_limit cfg u n" using assms(2) by (simp add: retry_limit_def same_budget_def)
  moreover from this have "tk_ExecutionRetries u < n" by (rule allowed_below_limit [OF _ disjI1]) (rule after_failure(3))
  ultimately show ?thesis using after_failure by (simp add: created_budget same_budget_def retry_limit_def)
next
  case (after_verification u now reason later retryID)
  then have "retry_limit cfg u n" using assms(2) by (simp add: retry_limit_def same_budget_def)
  moreover from this have "tk_ExecutionRetries u < n" by (rule allowed_below_limit [OF _ disjI2]) (rule after_verification(3))
  ultimately show ?thesis using after_verification by (simp add: created_budget same_budget_def retry_limit_def)
qed

text \<open>C35. With a global or a per-task limit a task is tried again at most as often as the smaller of the limits that are
  set leaves, whatever its attempts end with.\<close>

theorem retries_bounded:
  assumes "walk (next_attempt cfg) t ts" and "retry_limit cfg t n"
  shows "length ts \<le> nat (n - tk_ExecutionRetries t)"
  using assms
proof (induction ts arbitrary: t)
  case (Cons t' ts)
  from Cons.prems have n: "next_attempt cfg t t'" "walk (next_attempt cfg) t' ts" by simp_all
  note c = next_attempt_counts [OF n(1) Cons.prems(2)]
  have "length ts \<le> nat (n - tk_ExecutionRetries t')" using Cons.IH [OF n(2)] c by blast
  moreover have "nat (n - tk_ExecutionRetries t) = Suc (nat (n - tk_ExecutionRetries t'))" using c by auto
  ultimately show ?case by simp
qed simp

section \<open>Examples\<close>

definition demo_cfg :: TaskRetryConfig where
  "demo_cfg = \<lparr>tr_Enabled = True, tr_RetryableExitCodes = [1], tr_MaxRetries = 2, tr_CooldownSec = 30\<rparr>"

definition demo_state :: CommandState where
  "demo_state = (zero_CommandState ''c'' PlanStatusSealed)\<lparr>ExpectedTaskCount := 2, RequiredTaskIDs := [''a'', ''b''],
     TaskStates := [(''a'', StatusCompleted), (''b'', StatusFailed)], TaskDependencies := [(''b'', [''a''])],
     Phases := [zero_Phase ''p'' PhaseStatusFailed [''a'', ''b'']]\<rparr>"

lemma demo_state_wf: "plan_core demo_state \<and> lineage_known demo_state \<and> has_slot ''b'' demo_state \<and> ''r'' \<notin> known_tasks demo_state"
proof -
  have g: "graph_wf demo_state" by code_simp
  have "task_order demo_state [''a'', ''b'']"
    by (rule task_orderI) (auto simp: demo_state_def zero_CommandState_def known_tasks_def zget_def append_eq_Cons_conv Cons_eq_append_conv)
  then have "\<exists>order. task_order demo_state order" by blast
  moreover have "distinct (RequiredTaskIDs demo_state @ OptionalTaskIDs demo_state)
      \<and> set (RequiredTaskIDs demo_state @ OptionalTaskIDs demo_state) \<subseteq> known_tasks demo_state
      \<and> ExpectedTaskCount demo_state = int (length (RequiredTaskIDs demo_state)) + int (length (OptionalTaskIDs demo_state))
      \<and> distinct (concat (map ph_TaskIDs (Phases demo_state)))
      \<and> set (concat (map ph_TaskIDs (Phases demo_state))) \<subseteq> known_tasks demo_state
      \<and> SystemCommitTaskID demo_state = None" by code_simp
  ultimately have "plan_core demo_state" using g unfolding plan_core_def by simp
  moreover have "lineage_known demo_state \<and> has_slot ''b'' demo_state \<and> ''r'' \<notin> known_tasks demo_state" by code_simp
  ultimately show ?thesis by blast
qed

theorem retry_wired_witness:
  "findPhaseForTask (snd (WireRetryTaskIntoState ''r'' ''b'' (Stamp 5) demo_state)) ''r'' = Some 0
   \<and> plan_core (snd (WireRetryTaskIntoState ''r'' ''b'' (Stamp 5) demo_state))"
proof -
  have "SystemCommitTaskID demo_state \<noteq> Some ''b''" "findPhaseForTask demo_state ''b'' = Some 0" by code_simp+
  then show ?thesis using retry_wired [of "''b''" demo_state "''r''" "Stamp 5"] demo_state_wf by auto
qed

theorem registration_settles_witness:
  "pd_Queues (snd (RetryTaskAtomically (\<lambda>op. op \<noteq> AddToQueue) (Stamp 5) (zero_Task ''r'' StatusPending) ''b'' ''worker1''
     \<lparr>pd_State = Some demo_state, pd_Queues = []\<rparr>)) = []"
proof -
  let ?d = "\<lparr>pd_State = Some demo_state, pd_Queues = []\<rparr> :: PlanDisk"
  let ?r = "RetryTaskAtomically (\<lambda>op. op \<noteq> AddToQueue) (Stamp 5) (zero_Task ''r'' StatusPending) ''b'' ''worker1'' ?d"
  have e: "?r = (Some QueueFailedRolledBack, snd ?r)"
    by (simp add: RetryTaskAtomically_def RegisterRetryTaskInState_def AddRetryTaskToQueue_def
        rollbackRetryTaskFromState_def updateState_def)
  have "q_ID (zero_Task ''r'' StatusPending) \<notin> fst ` set (TaskStatusChangedAt demo_state)"
    "q_ID (zero_Task ''r'' StatusPending) \<notin> known_tasks demo_state"
    using demo_state_wf by (simp_all add: zero_Task_def demo_state_def zero_CommandState_def)
  then show ?thesis
    using registration_settles [OF _ _ _ _ _ _ _ e, of demo_state] demo_state_wf by simp
qed

definition demo_task :: Task where
  "demo_task = (zero_Task ''b'' StatusFailed)\<lparr>q_CreatedAt := Stamp 0,
     tk_DefinitionOfAbort := Some \<lparr>MaxRepairCount = 5, MaxWallClockSec = 100, ExplicitFailureConditions = []\<rparr>\<rparr>"

definition demo_retry :: "string \<Rightarrow> int \<Rightarrow> Task \<Rightarrow> Task" where
  "demo_retry i sec t = CreateRetryTask demo_cfg (seconds sec) i t 1"

text \<open>
  The limit on the wall clock starts again with every attempt: each attempt ends within its 100 seconds, the second one 180 seconds
  after the task was created.
\<close>

lemma demo_attempts:
  "ShouldRetryTask demo_cfg (seconds 90) demo_task 1 True = None
   \<and> ShouldRetryTask demo_cfg (seconds 180) (demo_retry ''r1'' 90 demo_task) 1 True = None"
  by code_simp

theorem retries_bounded_witness:
  "length [demo_retry ''r1'' 90 demo_task, demo_retry ''r2'' 180 (demo_retry ''r1'' 90 demo_task)]
   \<le> nat (2 - tk_ExecutionRetries demo_task)"
proof (rule retries_bounded)
  have r: "same_budget t t" for t by (simp add: same_budget_def)
  show "walk (next_attempt demo_cfg) demo_task
      [demo_retry ''r1'' 90 demo_task, demo_retry ''r2'' 180 (demo_retry ''r1'' 90 demo_task)]"
    unfolding walk.simps demo_retry_def
    by (intro conjI TrueI next_attempt.after_failure [OF r conjunct1 [OF demo_attempts]]
        next_attempt.after_failure [OF r conjunct2 [OF demo_attempts [unfolded demo_retry_def]]])
  show "retry_limit demo_cfg demo_task 2" by (simp add: retry_limit_def demo_cfg_def)
qed

lemma wall_clock_restarts:
  "tk_DefinitionOfAbort demo_task = Some \<lparr>MaxRepairCount = 5, MaxWallClockSec = 100, ExplicitFailureConditions = []\<rparr>
   \<and> q_CreatedAt demo_task = Stamp 0
   \<and> ShouldRetryTask demo_cfg (seconds 180) (demo_retry ''r1'' 90 demo_task) 1 True = None"
  using demo_attempts by (simp add: demo_task_def)

text \<open>The retry of the system commit task is not the system commit task.\<close>

lemma system_commit_left_behind:
  "let s = snd (WireRetryTaskIntoState ''r'' ''b'' (Stamp 5) (demo_state\<lparr>SystemCommitTaskID := Some ''b''\<rparr>)) in
   RequiredTaskIDs s = [''a'', ''r''] \<and> SystemCommitTaskID s = Some ''b''"
  by code_simp

text \<open>
  A task without a slot (already replaced by another retry) gives its retry an optional slot the expected count does not
  include, after which the command cannot complete; and the rollback leaves the task itself in that slot.
\<close>

definition demo_replaced :: CommandState where
  "demo_replaced = demo_state\<lparr>RequiredTaskIDs := [''a'', ''x''],
      TaskStates := [(''a'', StatusCompleted), (''x'', StatusCompleted), (''b'', StatusFailed)]\<rparr>"

lemma unmembered_retry:
  defines "t \<equiv> snd (WireRetryTaskIntoState ''r'' ''b'' (Stamp 5) demo_replaced)"
  shows "OptionalTaskIDs t = [''r'']" and "CanComplete t = Inl (TaskCountMismatch 3 2)"
    and "OptionalTaskIDs (UnwireRetryTaskFromState ''r'' ''b'' (Stamp 6) t) = [''b'']"
proof -
  have f: "cs_PlanStatus t = PlanStatusSealed" "RequiredTaskIDs t = [''a'', ''x'']" "OptionalTaskIDs t = [''r'']" "ExpectedTaskCount t = 2"
    unfolding t_def by code_simp+
  show "OptionalTaskIDs t = [''r'']" by (rule f)
  show "CanComplete t = Inl (TaskCountMismatch 3 2)" by (simp add: CanComplete_def f)
  show "OptionalTaskIDs (UnwireRetryTaskFromState ''r'' ''b'' (Stamp 6) t) = [''b'']" unfolding t_def by code_simp
qed

end
