(* ===== verification/Reconcile_Base.thy ===== *)
theory Reconcile_Base imports Auto_Retry Planner_Signals Scan_Recovery begin

text \<open>
  What the repair rules of \<open>internal/daemon/reconcile\<close> share: the files they read and write, the outcome of a rule, the
  run with its cached directory listings, and the small operations of \<open>run.go\<close>, \<open>run_state_ops.go\<close> and
  \<open>run_queue_ops.go\<close>. A rule takes its locks one at a time; what other holders of those locks do in between is the
  argument \<open>re_mid\<close>. A read or write fails when \<open>re_ok\<close> says so, for the occasion on which the rule makes it. A rule
  reads the clock once. The worktree state of \<open>internal/model/worktree.go\<close> is here too.
\<close>

section \<open>Files\<close>

record TaskResult = task_result +
  wr_ID :: string
  wr_RunOnIntegration :: bool
  wr_RunOnMain :: bool
  wr_VerifyOutcomeAppliedAt :: "stamp option"

record WorktreeState =
  wt_CommandID :: string
  wt_WorkerID :: string
  wt_Path :: string
  wt_Branch :: string
  wt_BaseSHA :: string
  wt_Status :: WorktreeStatus
  wt_ConflictResolutionAttempts :: int
  wt_ConflictBranchHead :: string
  wt_ConflictIntegrationHead :: string
  wt_ConflictEscalated :: bool
  wt_CreatedAt :: stamp
  wt_UpdatedAt :: stamp

record IntegrationState =
  ig_CommandID :: string
  ig_Branch :: string
  ig_BaseSHA :: string
  ig_Status :: IntegrationStatus
  ig_CreatedAt :: stamp
  ig_UpdatedAt :: stamp
  ig_MergeFailureCount :: int
  ig_QuarantinedAt :: stamp
  ig_QuarantineReason :: string
  ig_QuarantineSource :: string
  ig_PublishFailureCount :: int
  ig_NextPublishRetryAt :: stamp
  ig_StallSignaled :: bool
  ig_PublishConflictFiles :: "string list"
  ig_PublishConflictSignaled :: bool

record CandidateWorktree =
  cw_TaskID :: string
  cw_Path :: string
  cw_Branch :: string
  cw_BaseSHA :: string
  cw_CreatedAt :: stamp
  cw_UpdatedAt :: stamp

record ABSelectionMarker =
  as_GroupID :: string
  as_PreSHA :: string
  as_StartedAt :: stamp

record WorktreeCommandState =
  wc_SchemaVersion :: int
  wc_FileType :: string
  wc_CommandID :: string
  wc_Integration :: IntegrationState
  wc_Workers :: "WorktreeState list"
  wc_Candidates :: "CandidateWorktree list"
  wc_ABSelection :: "ABSelectionMarker option"
  wc_MergedPhases :: "(string, stamp) gomap"
  wc_CommitFailedWorkers :: "string list"
  wc_CreatedAt :: stamp
  wc_UpdatedAt :: stamp

text \<open>A file that is absent is a key that is absent; a dead letter entry is worker, task, command and reason.\<close>

record RDisk =
  rd_States :: "(string, CommandState) gomap"
  rd_Queues :: "(string, Task list) gomap"
  rd_Commands :: "Command list"
  rd_Results :: "(string, TaskResult list) gomap"
  rd_Planner :: "CommandResult list"
  rd_Quarantine :: "CommandResult list"
  rd_Signals :: "PlannerSignal list"
  rd_Worktrees :: "(string, WorktreeCommandState) gomap"
  rd_Notifications :: "Notification list"
  rd_DeadLetters :: "(string \<times> string \<times> string) list"

datatype RIo =
    RReadState string | RWriteState string | RDeleteState string | RStatState string
  | RReadQueue string | RWriteQueue string | RReadCommands | RWriteCommands
  | RReadResults string | RWriteResults string | RReadPlanner | RWritePlanner | RQuarantine string
  | RWriteSignals | RReadWorktree string | RWriteWorktree string | RReadNotifications | RDeadLetter string
  | RNotify string

section \<open>Outcomes\<close>

datatype RepairPatternID =
    PatternR0 | PatternR0Dispatch | PatternR0b | PatternR1 | PatternR2 | PatternR3 | PatternR4 | PatternR5
  | PatternR6 | PatternR7 | PatternR8 | PatternR9 | PatternR10

datatype NotificationKind = NotifyReFill | NotifyReEvaluate | NotifyConflictResolution

text \<open>A formatted detail is the constructor of its text.\<close>

datatype detail =
    PlanningRemoved int | DispatchReverted int | FillingReverted string int
  | QueueUpdated string Status | MarkerCleared
  | LedgerInQueue | LedgerDeadLettered int | LedgerNoOriginal | LedgerEnqueued string
  | StateUpdated Status Status
  | PlanStatusUpdated PlanStatus | ResultQuarantined CompleteError
  | NotificationReissued string
  | PhaseTimedOut string stamp | PhaseCascaded string string
  | WorkerEscalated string int | ResolutionDispatched string int
  | PublishQuarantined string
  | VerifyStalled int int | RepairOrphaned int
  | ReplanDeadLettered int int

record Repair =
  rep_Pattern :: RepairPatternID
  rep_CommandID :: string
  rep_TaskID :: string
  rep_Detail :: detail

record DeferredNotification =
  dn_Kind :: NotificationKind
  dn_CommandID :: string
  dn_Reason :: "CompleteError option"
  dn_WorkerID :: string

type_synonym outcome = "Repair list \<times> DeferredNotification list"

definition repair :: "RepairPatternID \<Rightarrow> string \<Rightarrow> string \<Rightarrow> detail \<Rightarrow> Repair" where
  "repair p c t d = \<lparr>rep_Pattern = p, rep_CommandID = c, rep_TaskID = t, rep_Detail = d\<rparr>"

section \<open>The environment of a rule\<close>

record renv =
  re_now :: int
  re_ok :: "nat \<Rightarrow> RIo \<Rightarrow> bool"
  re_mid :: "nat \<Rightarrow> string \<Rightarrow> RDisk \<Rightarrow> RDisk"
  re_DispatchLeaseSec :: int
  re_MaxInProgressMin :: "int option"
  re_PlannerBusy :: bool
  re_Executor :: bool
  re_CanComplete :: "(CommandState \<Rightarrow> CompleteError + PlanStatus) option"
  re_VerifyEnabled :: bool
  re_StallThresholdSec :: int
  re_ReplanDeadletterSec :: int
  re_TaskExecution :: TaskRetryConfig
  re_VerifyCommands :: "string \<Rightarrow> nat option"
  re_NewTaskID :: "string \<Rightarrow> string option"
  re_NewResultID :: "string \<Rightarrow> string option"

record Run =
  run_States :: "string list"
  run_Results :: "string list"
  run_Queues :: "string list"
  run_Worktrees :: "string list"

text \<open>The order of \<open>os.ReadDir\<close> is the order of the file names.\<close>

definition file_names :: "(string, 'a) gomap \<Rightarrow> string list" where
  "file_names m = sort_key (\<lambda>x. x @ ''.yaml'') (map fst m)"

definition worker_names :: "(string, 'a) gomap \<Rightarrow> string list" where
  "worker_names m = filter (\<lambda>w. has_prefix w ''worker'') (file_names m)"

text \<open>A directory is listed once per pass.\<close>

definition newRun :: "RDisk \<Rightarrow> Run" where
  "newRun disk = \<lparr>run_States = file_names (rd_States disk), run_Results = worker_names (rd_Results disk),
     run_Queues = worker_names (rd_Queues disk), run_Worktrees = file_names (rd_Worktrees disk)\<rparr>"

definition stuckThresholdSec :: "renv \<Rightarrow> int" where
  "stuckThresholdSec env =
     (if re_DispatchLeaseSec env \<le> 0 then 300 else re_DispatchLeaseSec env) * 2"

section \<open>Reading and writing\<close>

datatype 'a stored = Gone | Unreadable | Loaded 'a

definition read_file :: "bool \<Rightarrow> 'a option \<Rightarrow> 'a stored" where
  "read_file ok x = (case x of None \<Rightarrow> Gone | Some v \<Rightarrow> if ok then Loaded v else Unreadable)"

definition loadState :: "renv \<Rightarrow> nat \<Rightarrow> string \<Rightarrow> RDisk \<Rightarrow> CommandState stored" where
  "loadState env k commandID disk = read_file (re_ok env k (RReadState commandID)) (map_of (rd_States disk) commandID)"

definition writeState :: "renv \<Rightarrow> nat \<Rightarrow> string \<Rightarrow> CommandState \<Rightarrow> RDisk \<Rightarrow> bool \<times> RDisk" where
  "writeState env k commandID state disk =
     (if re_ok env k (RWriteState commandID)
      then (True, disk\<lparr>rd_States := AList.update commandID state (rd_States disk)\<rparr>) else (False, disk))"

definition loadQueue :: "renv \<Rightarrow> nat \<Rightarrow> string \<Rightarrow> RDisk \<Rightarrow> Task list stored" where
  "loadQueue env k w disk = read_file (re_ok env k (RReadQueue w)) (map_of (rd_Queues disk) w)"

definition writeQueue :: "renv \<Rightarrow> nat \<Rightarrow> string \<Rightarrow> Task list \<Rightarrow> RDisk \<Rightarrow> bool \<times> RDisk" where
  "writeQueue env k w tasks disk =
     (if re_ok env k (RWriteQueue w)
      then (True, disk\<lparr>rd_Queues := AList.update w tasks (rd_Queues disk)\<rparr>) else (False, disk))"

definition reconciled :: "stamp \<Rightarrow> CommandState \<Rightarrow> CommandState" where
  "reconciled now state = state\<lparr>LastReconciledAt := Some now, cs_UpdatedAt := now\<rparr>"

definition updateLastReconciledAt :: "renv \<Rightarrow> string \<Rightarrow> RDisk \<Rightarrow> RDisk" where
  "updateLastReconciledAt env commandID disk =
     (case loadState env 9 commandID disk of
        Loaded state \<Rightarrow> snd (writeState env 9 commandID (reconciled (fmt_stamp (re_now env)) state) disk)
      | _ \<Rightarrow> disk)"

text \<open>A signal with the same key is not queued again; a failed write is only logged.\<close>

definition upsertPlannerSignal_durable :: "renv \<Rightarrow> nat \<Rightarrow> PlannerSignal \<Rightarrow> RDisk \<Rightarrow> RDisk" where
  "upsertPlannerSignal_durable env k sig disk =
     (if signalDedupKey sig \<in> signalDedupKey ` set (rd_Signals disk) \<or> \<not> re_ok env k RWriteSignals then disk
      else disk\<lparr>rd_Signals := rd_Signals disk @ [sig]\<rparr>)"

definition removePlannerSignal :: "renv \<Rightarrow> nat \<Rightarrow> string \<Rightarrow> string \<Rightarrow> string \<Rightarrow> RDisk \<Rightarrow> RDisk" where
  "removePlannerSignal env k kind commandID workerID disk =
     (if \<not> re_ok env k RWriteSignals then disk
      else disk\<lparr>rd_Signals := filter (\<lambda>s. \<not> (sg_Kind s = kind \<and> sg_CommandID s = commandID \<and> sg_WorkerID s = workerID))
             (rd_Signals disk)\<rparr>)"

definition new_signal :: "string \<Rightarrow> string \<Rightarrow> string \<Rightarrow> stamp \<Rightarrow> PlannerSignal" where
  "new_signal kind commandID message now =
     \<lparr>sg_Kind = kind, sg_CommandID = commandID, sg_PhaseID = [], sg_PhaseName = [], sg_Message = message,
      sg_Attempts = 0, sg_CreatedAt = now, sg_UpdatedAt = now, sg_LastAttemptAt = None, sg_NextAttemptAt = None,
      sg_LastError = None, sg_WorkerID = [], sg_Reason = [], sg_ConflictBaseRef = [], sg_ConflictOursRef = [],
      sg_ConflictTheirsRef = [], sg_ConflictFiles = [], sg_ResolutionState = [], sg_ResolveAttempt = 0,
      sg_LastResolutionError = [], sg_ConflictGeneration = [], sg_ConflictType = []\<rparr>"

text \<open>
  The synthetic result of a planner that can no longer produce one: nothing is written when the command has a result
  already, when the file cannot be read or when no id is generated.
\<close>

definition failed_result :: "string \<Rightarrow> string \<Rightarrow> string \<Rightarrow> stamp \<Rightarrow> CommandResult" where
  "failed_result resultID commandID summary now =
     \<lparr>Notified = False, NotifyAttempts = 0, NotifyLeaseOwner = None, NotifyLeaseExpiresAt = None, NotifiedAt = None,
      NotifyLastError = None, NotifyDeadLettered = False, NotifyDeadLetteredAt = None, NotifyDeadLetterReason = None,
      cr_ID = resultID, cr_CommandID = commandID, cr_Status = StatusFailed, cr_Summary = summary,
      cr_TaskStats = \<lparr>Total = 0, TaskStats.Completed = 0, TaskStats.Failed = 0, TaskStats.Cancelled = 0\<rparr>,
      cr_Tasks = [], cr_CreatedAt = now\<rparr>"

definition writeSyntheticPlannerFailedResult :: "renv \<Rightarrow> string \<Rightarrow> string \<Rightarrow> RDisk \<Rightarrow> RDisk" where
  "writeSyntheticPlannerFailedResult env commandID summary disk =
     (if \<not> re_ok env 8 RReadPlanner \<or> (\<exists>r \<in> set (rd_Planner disk). cr_CommandID r = commandID) then disk
      else case re_NewResultID env commandID of
        None \<Rightarrow> disk
      | Some i \<Rightarrow>
          if re_ok env 8 RWritePlanner
          then disk\<lparr>rd_Planner := rd_Planner disk @ [failed_result i commandID summary (fmt_stamp (re_now env))]\<rparr>
          else disk)"

section \<open>Facts the rules share\<close>

lemma read_file_simps [simp]: "read_file ok None = Gone" "read_file True (Some x) = Loaded x" "read_file False (Some x) = Unreadable"
  by (simp_all add: read_file_def)

lemma read_file_Loaded: "read_file ok x = Loaded v \<longleftrightarrow> ok \<and> x = Some v"
  by (cases x) (auto simp: read_file_def)

lemma loadState_Loaded [simp]:
  "loadState env k c disk = Loaded s \<longleftrightarrow> re_ok env k (RReadState c) \<and> map_of (rd_States disk) c = Some s"
  by (simp add: loadState_def read_file_Loaded)

lemma loadQueue_Loaded [simp]:
  "loadQueue env k w disk = Loaded q \<longleftrightarrow> re_ok env k (RReadQueue w) \<and> map_of (rd_Queues disk) w = Some q"
  by (simp add: loadQueue_def read_file_Loaded)

lemma writeState_fields:
  "snd (writeState env k c s disk) = (if re_ok env k (RWriteState c)
     then disk\<lparr>rd_States := AList.update c s (rd_States disk)\<rparr> else disk)"
  "fst (writeState env k c s disk) \<longleftrightarrow> re_ok env k (RWriteState c)"
  by (simp_all add: writeState_def)

lemma upsert_keeps:
  "rd_States (upsertPlannerSignal_durable env k sig disk) = rd_States disk"
  "rd_Queues (upsertPlannerSignal_durable env k sig disk) = rd_Queues disk"
  "rd_Worktrees (upsertPlannerSignal_durable env k sig disk) = rd_Worktrees disk"
  "set (rd_Signals disk) \<subseteq> set (rd_Signals (upsertPlannerSignal_durable env k sig disk))"
  by (auto simp: upsertPlannerSignal_durable_def)

lemma upsert_queued:
  "re_ok env k RWriteSignals \<Longrightarrow>
     signalDedupKey sig \<in> signalDedupKey ` set (rd_Signals (upsertPlannerSignal_durable env k sig disk))"
  by (auto simp: upsertPlannerSignal_durable_def)

end
