(* ===== verification/Reconcile_Timeout.thy ===== *)
theory Reconcile_Timeout imports Reconcile_Base begin

text \<open>
  Expired fill deadlines (\<open>internal/daemon/reconcile/r6_fill_timeout.go\<close>): the signal to the planner is queued before the
  phase times out, and the phases that wait for it, directly or not, are cancelled.
\<close>

section \<open>Operations\<close>

record r6PhaseRef =
  pr_id :: string
  pr_name :: string
  pr_deadline :: stamp

definition fill_expired :: "int \<Rightarrow> Phase \<Rightarrow> stamp option" where
  "fill_expired now p =
     (if ph_Status p \<noteq> PhaseStatusAwaitingFill then None
      else case ph_FillDeadlineAt p of
        None \<Rightarrow> None
      | Some s \<Rightarrow> (case parse_stamp s of
          None \<Rightarrow> None | Some deadline \<Rightarrow> if now < deadline then None else Some s))"

definition r6_candidates :: "int \<Rightarrow> CommandState \<Rightarrow> r6PhaseRef list" where
  "r6_candidates now state =
     List.map_filter (\<lambda>p. map_option (\<lambda>s. \<lparr>pr_id = ph_PhaseID p, pr_name = ph_Name p, pr_deadline = s\<rparr>) (fill_expired now p))
       (Phases state)"

definition timeout_signal :: "stamp \<Rightarrow> string \<Rightarrow> r6PhaseRef \<Rightarrow> PlannerSignal" where
  "timeout_signal now commandID ref =
     (new_signal ''fill_timeout'' commandID
        (''[maestro] kind:fill_timeout command_id:'' @ commandID @ '' phase:'' @ pr_name ref @ [CHR 0x0A] @ ''fill deadline expired'') now)
       \<lparr>sg_PhaseID := pr_id ref, sg_PhaseName := pr_name ref\<rparr>"

definition queue_timeouts :: "renv \<Rightarrow> string \<Rightarrow> r6PhaseRef list \<Rightarrow> RDisk \<Rightarrow> RDisk" where
  "queue_timeouts env commandID refs disk =
     fold (\<lambda>ref. upsertPlannerSignal_durable env 2 (timeout_signal (fmt_stamp (re_now env)) commandID ref)) refs disk"

text \<open>The phases, the names of those that timed out, and the repairs.\<close>

definition time_out :: "string \<Rightarrow> r6PhaseRef \<Rightarrow> CommandState \<times> string list \<times> Repair list \<Rightarrow> CommandState \<times> string list \<times> Repair list" where
  "time_out commandID ref = (\<lambda>(state, names, reps).
     case PhaseIndex (pr_id ref) state of
       None \<Rightarrow> (state, names, reps)
     | Some i \<Rightarrow>
         (let p = Phases state ! i in
          if ph_Status p \<noteq> PhaseStatusAwaitingFill then (state, names, reps)
          else (change_phase i (\<lambda>p. p\<lparr>ph_Status := PhaseStatusTimedOut\<rparr>) state, List.insert (ph_Name p) names,
                reps @ [repair PatternR6 commandID [] (PhaseTimedOut (ph_Name p) (pr_deadline ref))])))"

definition cancellable :: "Phase \<Rightarrow> bool" where
  "cancellable p = (ph_Status p = PhaseStatusPending \<or> ph_Status p = PhaseStatusAwaitingFill)"

fun cascade_phases :: "string list \<Rightarrow> Phase list \<Rightarrow> Phase list \<times> string list \<times> (string \<times> string) list" where
  "cascade_phases cancelled [] = ([], cancelled, [])"
| "cascade_phases cancelled (p # ps) =
     (case (if cancellable p then find (\<lambda>d. d \<in> set cancelled) (ph_DependsOnPhases p) else None) of
        None \<Rightarrow> (case cascade_phases cancelled ps of (ps', c, r) \<Rightarrow> (p # ps', c, r))
      | Some d \<Rightarrow>
          (case cascade_phases (List.insert (ph_Name p) cancelled) ps of
             (ps', c, r) \<Rightarrow> (p\<lparr>ph_Status := PhaseStatusCancelled\<rparr> # ps', c, (ph_Name p, d) # r)))"

lemma cascade_progress:
  assumes "cascade_phases c ps = (ps', c', r)"
  shows "length (filter cancellable ps') + length r = length (filter cancellable ps)"
  using assms
proof (induction c ps arbitrary: ps' c' r rule: cascade_phases.induct)
  case (2 c p ps)
  show ?case
  proof (cases "if cancellable p then find (\<lambda>d. d \<in> set c) (ph_DependsOnPhases p) else None")
    case None
    with 2(1,3) show ?thesis by (auto split: prod.splits)
  next
    case (Some d)
    then have "cancellable p" by (auto split: if_splits)
    with 2(2,3) Some show ?thesis by (auto simp: cancellable_def split: prod.splits)
  qed
qed simp

text \<open>The passes repeat until one cancels nothing.\<close>

function cascadeCancelTimedOutPhases ::
  "string list \<Rightarrow> Phase list \<Rightarrow> Phase list \<times> string list \<times> (string \<times> string) list" where
  "cascadeCancelTimedOutPhases cancelled ps =
     (case cascade_phases cancelled ps of
        (ps', c, r) \<Rightarrow>
          if r = [] then (ps', c, [])
          else (case cascadeCancelTimedOutPhases c ps' of (ps'', c', r') \<Rightarrow> (ps'', c', r @ r')))"
  by pat_completeness auto
termination
  by (relation "measure (\<lambda>(c, ps). length (filter cancellable ps))") (auto dest!: sym [THEN cascade_progress] simp flip: length_greater_0_conv)

declare cascadeCancelTimedOutPhases.simps [simp del]

definition r6_transition :: "string \<Rightarrow> r6PhaseRef list \<Rightarrow> CommandState \<Rightarrow> CommandState \<times> Repair list" where
  "r6_transition commandID refs state =
     (case fold (time_out commandID) refs (state, [], []) of
        (state1, names, reps) \<Rightarrow>
          if names = [] then (state1, reps)
          else (case cascadeCancelTimedOutPhases names (Phases state1) of
            (ps, _, cancelled) \<Rightarrow>
              (state1\<lparr>Phases := ps\<rparr>, reps @ map (\<lambda>(n, d). repair PatternR6 commandID [] (PhaseCascaded n d)) cancelled)))"

definition R6_command :: "renv \<Rightarrow> string \<Rightarrow> RDisk \<Rightarrow> RDisk \<times> Repair list" where
  "R6_command env commandID disk =
     (case loadState env 1 commandID disk of
        Loaded state \<Rightarrow>
          (let refs = r6_candidates (re_now env) state in
           if refs = [] then (disk, [])
           else (let disk2 = re_mid env 2 commandID (queue_timeouts env commandID refs (re_mid env 1 commandID disk)) in
             case loadState env 3 commandID disk2 of
               Loaded state2 \<Rightarrow>
                 (case r6_transition commandID refs state2 of
                    (state3, reps) \<Rightarrow>
                      if reps = [] then (disk2, [])
                      else (case writeState env 3 commandID (reconciled (fmt_stamp (re_now env)) state3) disk2 of
                              (True, disk3) \<Rightarrow> (disk3, reps) | (False, disk3) \<Rightarrow> (disk3, [])))
             | _ \<Rightarrow> (disk2, [])))
      | _ \<Rightarrow> (disk, []))"

definition fold_rule :: "(string \<Rightarrow> RDisk \<Rightarrow> RDisk \<times> 'o list) \<Rightarrow> string list \<Rightarrow> RDisk \<Rightarrow> RDisk \<times> 'o list" where
  "fold_rule f keys disk =
     fold (\<lambda>k (d, os). case f k d of (d', os') \<Rightarrow> (d', os @ os')) keys (disk, [])"

definition R6_Apply :: "renv \<Rightarrow> Run \<Rightarrow> RDisk \<Rightarrow> RDisk \<times> outcome" where
  "R6_Apply env run disk = (case fold_rule (R6_command env) (run_States run) disk of (d, reps) \<Rightarrow> (d, reps, []))"

section \<open>The cascade\<close>

text \<open>The names a timeout reaches: through phases that wait, along their dependencies.\<close>

inductive_set timeout_reach :: "string set \<Rightarrow> Phase set \<Rightarrow> string set" for C and ps where
  timed: "n \<in> C \<Longrightarrow> n \<in> timeout_reach C ps"
| waits: "p \<in> ps \<Longrightarrow> cancellable p \<Longrightarrow> d \<in> set (ph_DependsOnPhases p) \<Longrightarrow> d \<in> timeout_reach C ps
    \<Longrightarrow> ph_Name p \<in> timeout_reach C ps"

definition cancel_phase :: "Phase \<Rightarrow> Phase" where
  "cancel_phase p = p\<lparr>ph_Status := PhaseStatusCancelled\<rparr>"

definition cancel_reached :: "string set \<Rightarrow> Phase \<Rightarrow> Phase" where
  "cancel_reached S p = (if cancellable p \<and> set (ph_DependsOnPhases p) \<inter> S \<noteq> {} then cancel_phase p else p)"

text \<open>What the passes have done so far, seen from the phases they began with.\<close>

definition cascaded :: "string set \<Rightarrow> Phase \<Rightarrow> Phase \<Rightarrow> bool" where
  "cascaded C p0 p =
     (p = p0 \<or> (cancellable p0 \<and> set (ph_DependsOnPhases p0) \<inter> C \<noteq> {} \<and> ph_Name p0 \<in> C \<and> p = cancel_phase p0))"

lemma cancel_phase_not_cancellable [simp]: "\<not> cancellable (cancel_phase p)"
  by (simp add: cancellable_def cancel_phase_def)

lemma cascaded_mono: "cascaded C p0 p \<Longrightarrow> C \<subseteq> C' \<Longrightarrow> cascaded C' p0 p"
  by (auto simp: cascaded_def)

lemma cascade_pass:
  assumes "cascade_phases c ps = (ps', c', r)"
  shows "set c \<subseteq> set c'" and "list_all2 (cascaded (set c')) ps ps'"
    and "set c' \<subseteq> timeout_reach (set c) (set ps)"
    and "r = [] \<Longrightarrow> ps' = ps \<and> c' = c \<and> (\<forall>p \<in> set ps. cancellable p \<longrightarrow> set (ph_DependsOnPhases p) \<inter> set c = {})"
proof -
  have "set c \<subseteq> set c' \<and> list_all2 (cascaded (set c')) ps ps' \<and> (\<forall>C P. set c \<subseteq> timeout_reach C P \<longrightarrow> set ps \<subseteq> P \<longrightarrow> set c' \<subseteq> timeout_reach C P)
    \<and> (r = [] \<longrightarrow> ps' = ps \<and> c' = c \<and> (\<forall>p \<in> set ps. cancellable p \<longrightarrow> set (ph_DependsOnPhases p) \<inter> set c = {}))"
    using assms
  proof (induction c ps arbitrary: ps' c' r rule: cascade_phases.induct)
    case (2 c p ps)
    show ?case
    proof (cases "if cancellable p then find (\<lambda>d. d \<in> set c) (ph_DependsOnPhases p) else None")
      case None
      then have no: "cancellable p \<longrightarrow> set (ph_DependsOnPhases p) \<inter> set c = {}" by (auto simp: find_None_iff split: if_splits)
      obtain ps1 where e: "cascade_phases c ps = (ps1, c', r)" "ps' = p # ps1"
        using 2(3) None by (auto split: prod.splits)
      from 2(1) [OF None e(1)] show ?thesis using no e(2) by (auto simp: cascaded_def)
    next
      case (Some d)
      then have d: "cancellable p" "d \<in> set c" "d \<in> set (ph_DependsOnPhases p)" by (auto split: if_splits dest: find_cases)
      obtain ps1 r1 where e: "cascade_phases (List.insert (ph_Name p) c) ps = (ps1, c', r1)" "ps' = cancel_phase p # ps1" "r = (ph_Name p, d) # r1"
        using 2(3) Some by (auto simp: cancel_phase_def split: prod.splits)
      note ih = 2(2) [OF Some e(1)]
      have "cascaded (set c') p (cancel_phase p)" using d ih by (auto simp: cascaded_def)
      moreover have "set c' \<subseteq> timeout_reach C P" if "set c \<subseteq> timeout_reach C P" "set (p # ps) \<subseteq> P" for C P
      proof -
        have "ph_Name p \<in> timeout_reach C P" using timeout_reach.waits [of p P d C] d that by auto
        then show ?thesis using ih that by auto
      qed
      ultimately show ?thesis using ih e by auto
    qed
  qed simp
  then show "set c \<subseteq> set c'" "list_all2 (cascaded (set c')) ps ps'" "set c' \<subseteq> timeout_reach (set c) (set ps)"
    "r = [] \<Longrightarrow> ps' = ps \<and> c' = c \<and> (\<forall>p \<in> set ps. cancellable p \<longrightarrow> set (ph_DependsOnPhases p) \<inter> set c = {})"
    by (auto intro: timeout_reach.timed)
qed

lemma cascaded_cancellable: "cascaded C p0 p \<Longrightarrow> cancellable p \<Longrightarrow> p = p0"
  by (auto simp: cascaded_def)

lemma cascaded_trans:
  assumes "cascaded C p0 p" and "cascaded C' p q" and "C \<subseteq> C'"
  shows "cascaded C' p0 q"
  using assms by (auto simp: cascaded_def cancel_phase_def cancellable_def)

lemma reach_in_closed:
  assumes "C \<subseteq> S" and "\<And>p. p \<in> P \<Longrightarrow> cancellable p \<Longrightarrow> set (ph_DependsOnPhases p) \<inter> S \<noteq> {} \<Longrightarrow> ph_Name p \<in> S"
  shows "timeout_reach C P \<subseteq> S"
proof
  fix n assume "n \<in> timeout_reach C P"
  then show "n \<in> S" by induction (use assms in blast)+
qed

lemma list_all2_in:
  assumes "list_all2 R xs ys"
  shows "x \<in> set xs \<Longrightarrow> \<exists>y \<in> set ys. R x y" and "y \<in> set ys \<Longrightarrow> \<exists>x \<in> set xs. R x y"
  using assms by (metis in_set_conv_nth list_all2_conv_all_nth)+

lemma cascade_from:
  assumes "cascadeCancelTimedOutPhases c ps = (ps', c', r)" and "list_all2 (cascaded (set c)) ps0 ps"
    and "C0 \<subseteq> set c" and "set c \<subseteq> timeout_reach C0 (set ps0)"
  shows "ps' = map (cancel_reached (timeout_reach C0 (set ps0))) ps0 \<and> set c' = timeout_reach C0 (set ps0)"
  using assms
proof (induction c ps arbitrary: ps' c' r rule: cascadeCancelTimedOutPhases.induct)
  case (1 c ps)
  obtain ps1 c1 r1 where e: "cascade_phases c ps = (ps1, c1, r1)" by (metis prod_cases3)
  note cp = cascade_pass [OF e]
  have all: "list_all2 (cascaded (set c1)) ps0 ps1"
  proof (rule list_all2_all_nthI)
    show "length ps0 = length ps1" using "1.prems"(2) cp(2) by (simp add: list_all2_lengthD)
    fix i assume "i < length ps0"
    then show "cascaded (set c1) (ps0 ! i) (ps1 ! i)"
      using cascaded_trans [OF list_all2_nthD [OF "1.prems"(2)] list_all2_nthD [OF cp(2)] cp(1)]
        list_all2_lengthD [OF "1.prems"(2)] by simp
  qed
  have sub: "set c1 \<subseteq> timeout_reach C0 (set ps0)"
  proof -
    have "timeout_reach (set c) (set ps) \<subseteq> timeout_reach C0 (set ps0)"
    proof (rule reach_in_closed [OF "1.prems"(4)])
      fix p assume p: "p \<in> set ps" "cancellable p" "set (ph_DependsOnPhases p) \<inter> timeout_reach C0 (set ps0) \<noteq> {}"
      then obtain p0 where "p0 \<in> set ps0" "cascaded (set c) p0 p" using list_all2_in(2) [OF "1.prems"(2)] by blast
      then have "p \<in> set ps0" using cascaded_cancellable p(2) by blast
      then show "ph_Name p \<in> timeout_reach C0 (set ps0)" using p(2,3) by (auto intro: timeout_reach.waits)
    qed
    then show ?thesis using cp(3) by blast
  qed
  show ?case
  proof (cases "r1 = []")
    case False
    then obtain r2 where r2: "cascadeCancelTimedOutPhases c1 ps1 = (ps', c', r2)"
      using "1.prems"(1) e by (subst (asm) cascadeCancelTimedOutPhases.simps) (auto split: prod.splits)
    have "C0 \<subseteq> set c1" using "1.prems"(3) cp(1) by blast
    from "1.IH" [OF e [symmetric] refl False r2 all this sub] show ?thesis .
  next
    case True
    then have d: "ps' = ps" "c' = c" "\<forall>p \<in> set ps. cancellable p \<longrightarrow> set (ph_DependsOnPhases p) \<inter> set c = {}"
      using "1.prems"(1) e cp(4) by (subst (asm) cascadeCancelTimedOutPhases.simps, simp)+
    have closed: "timeout_reach C0 (set ps0) \<subseteq> set c"
    proof (rule reach_in_closed [OF "1.prems"(3)])
      fix p0 assume p0: "p0 \<in> set ps0" "cancellable p0" "set (ph_DependsOnPhases p0) \<inter> set c \<noteq> {}"
      then obtain p where "p \<in> set ps" "cascaded (set c) p0 p" using list_all2_in(1) [OF "1.prems"(2)] by blast
      then show "ph_Name p0 \<in> set c" using d(3) p0 by (auto simp: cascaded_def)
    qed
    have eq: "set c = timeout_reach C0 (set ps0)" using closed "1.prems"(4) by blast
    have "ps = map (cancel_reached (set c)) ps0"
    proof (rule nth_equalityI)
      show "length ps = length (map (cancel_reached (set c)) ps0)" using "1.prems"(2) by (simp add: list_all2_lengthD)
      fix i assume i: "i < length ps"
      then have "cascaded (set c) (ps0 ! i) (ps ! i)" using "1.prems"(2) by (simp add: list_all2_conv_all_nth)
      then show "ps ! i = map (cancel_reached (set c)) ps0 ! i"
        using i d(3) [THEN bspec, OF nth_mem [OF i]] list_all2_lengthD [OF "1.prems"(2)]
        by (auto simp: cascaded_def cancel_reached_def)
    qed
    then show ?thesis using d eq by simp
  qed
qed

lemma cascade_correct:
  assumes "cascadeCancelTimedOutPhases c ps = (ps', c', r)"
  shows "ps' = map (cancel_reached (timeout_reach (set c) (set ps))) ps"
proof -
  have "list_all2 (cascaded (set c)) ps ps" by (simp add: list_all2_refl cascaded_def)
  from cascade_from [OF assms this order_refl] show ?thesis by (auto intro: timeout_reach.timed)
qed

section \<open>What the rule does to one command\<close>

definition times_out :: "string set \<Rightarrow> Phase \<Rightarrow> bool" where
  "times_out ids p = (ph_Status p = PhaseStatusAwaitingFill \<and> ph_PhaseID p \<in> ids)"

definition timed_phase :: "string set \<Rightarrow> Phase \<Rightarrow> Phase" where
  "timed_phase ids p = (if times_out ids p then p\<lparr>ph_Status := PhaseStatusTimedOut\<rparr> else p)"

text \<open>The phases after a timeout: those timed out, those cancelled because they wait for one, the others.\<close>

definition after_timeout :: "string set \<Rightarrow> Phase list \<Rightarrow> Phase list" where
  "after_timeout ids ps =
     (let ps1 = map (timed_phase ids) ps; names = ph_Name ` {p \<in> set ps. times_out ids p} in
      map (cancel_reached (timeout_reach names (set ps1))) ps1)"

lemma timed_phase_id [simp]: "ph_PhaseID (timed_phase ids p) = ph_PhaseID p" "ph_Name (timed_phase ids p) = ph_Name p"
  by (simp_all add: timed_phase_def)

lemma timed_phase_empty [simp]: "timed_phase {} p = p"
  by (simp add: timed_phase_def times_out_def)

lemma timed_phase_insert: "timed_phase {i} (timed_phase ids p) = timed_phase (insert i ids) p"
  by (auto simp: timed_phase_def times_out_def)

lemma find_unique: "x \<in> set xs \<Longrightarrow> P x \<Longrightarrow> (\<And>y. y \<in> set xs \<Longrightarrow> P y \<Longrightarrow> y = x) \<Longrightarrow> find P xs = Some x"
proof (induction xs)
  case (Cons a xs)
  show ?case
  proof (cases "P a")
    case True
    then have "a = x" by (rule Cons.prems(3) [OF list.set_intros(1)])
    with True show ?thesis by simp
  next
    case False
    with Cons.prems(1,2) have "x \<in> set xs" by auto
    then have "find P xs = Some x" by (rule Cons.IH [OF _ Cons.prems(2)]) (rule Cons.prems(3) [OF list.set_intros(2)])
    with False show ?thesis by simp
  qed
qed simp

lemma same_id: "distinct (map f xs) \<Longrightarrow> x \<in> set xs \<Longrightarrow> y \<in> set xs \<Longrightarrow> f x = f y \<Longrightarrow> x = y"
  by (auto simp: distinct_map dest: inj_onD)

lemma time_out_one:
  fixes state :: CommandState
  assumes "distinct (map ph_PhaseID (Phases state))"
  shows "time_out c ref (state, names, reps) =
    (state\<lparr>Phases := map (timed_phase {pr_id ref}) (Phases state)\<rparr>,
     case find (times_out {pr_id ref}) (Phases state) of None \<Rightarrow> names | Some p \<Rightarrow> List.insert (ph_Name p) names,
     reps @ (case find (times_out {pr_id ref}) (Phases state) of None \<Rightarrow> []
       | Some p \<Rightarrow> [repair PatternR6 c [] (PhaseTimedOut (ph_Name p) (pr_deadline ref))]))"
proof (cases "PhaseIndex (pr_id ref) state")
  case None
  then have no: "\<And>p. p \<in> set (Phases state) \<Longrightarrow> \<not> times_out {pr_id ref} p"
    by (auto simp: PhaseIndex_def find_index_None times_out_def)
  then have "find (times_out {pr_id ref}) (Phases state) = None" by (simp add: find_None_iff)
  moreover have "map (timed_phase {pr_id ref}) (Phases state) = Phases state"
    by (rule map_idI) (simp add: timed_phase_def no)
  ultimately show ?thesis using None by (simp add: time_out_def)
next
  case (Some i)
  then have i: "i < length (Phases state)" "ph_PhaseID (Phases state ! i) = pr_id ref"
    unfolding PhaseIndex_def by (auto dest: find_index_Some)
  have only: "ph_PhaseID (Phases state ! j) \<noteq> pr_id ref" if "j < length (Phases state)" "j \<noteq> i" for j
    using nth_eq_iff_index_eq [OF assms, of j i] i that by simp
  show ?thesis
  proof (cases "ph_Status (Phases state ! i) = PhaseStatusAwaitingFill")
    case False
    then have no: "\<not> times_out {pr_id ref} p" if "p \<in> set (Phases state)" for p
      using same_id [OF assms that nth_mem [OF i(1)]] i(2) False by (auto simp: times_out_def)
    then have "find (times_out {pr_id ref}) (Phases state) = None" by (simp add: find_None_iff)
    moreover have "map (timed_phase {pr_id ref}) (Phases state) = Phases state"
      by (rule map_idI) (simp add: timed_phase_def no)
    ultimately show ?thesis using Some False by (simp add: time_out_def Let_def)
  next
    case True
    have m: "(Phases state)[i := (Phases state ! i)\<lparr>ph_Status := PhaseStatusTimedOut\<rparr>] = map (timed_phase {pr_id ref}) (Phases state)"
    proof (rule nth_equalityI)
      fix j assume "j < length ((Phases state)[i := (Phases state ! i)\<lparr>ph_Status := PhaseStatusTimedOut\<rparr>])"
      then have j: "j < length (Phases state)" by simp
      show "(Phases state)[i := (Phases state ! i)\<lparr>ph_Status := PhaseStatusTimedOut\<rparr>] ! j = map (timed_phase {pr_id ref}) (Phases state) ! j"
        using i True j only by (cases "j = i") (simp_all add: timed_phase_def times_out_def)
    qed simp
    have f: "find (times_out {pr_id ref}) (Phases state) = Some (Phases state ! i)"
    proof (rule find_unique)
      show "Phases state ! i \<in> set (Phases state)" using i(1) by (rule nth_mem)
      show "times_out {pr_id ref} (Phases state ! i)" using i(2) True by (simp add: times_out_def)
      show "q = Phases state ! i" if "q \<in> set (Phases state)" "times_out {pr_id ref} q" for q
        using that same_id [OF assms that(1) nth_mem [OF i(1)]] i(2) by (simp add: times_out_def)
    qed
    show ?thesis using Some True f by (simp add: time_out_def change_phase_def m Let_def)
  qed
qed

lemma time_out_all:
  fixes state :: CommandState
  assumes "distinct (map ph_PhaseID (Phases state))" and "fold (time_out c) refs (state, names, reps) = (state', names', reps')"
  shows "state' = state\<lparr>Phases := map (timed_phase (pr_id ` set refs)) (Phases state)\<rparr>
    \<and> set names' = set names \<union> ph_Name ` {p \<in> set (Phases state). times_out (pr_id ` set refs) p}
    \<and> (\<exists>added. reps' = reps @ added \<and> (added = [] \<longleftrightarrow> {p \<in> set (Phases state). times_out (pr_id ` set refs) p} = {}))"
  using assms
proof (induction refs arbitrary: state names reps)
  case Nil
  then show ?case by (simp add: times_out_def)
next
  case (Cons ref refs)
  let ?s1 = "state\<lparr>Phases := map (timed_phase {pr_id ref}) (Phases state)\<rparr>"
  let ?f = "find (times_out {pr_id ref}) (Phases state)"
  have d1: "distinct (map ph_PhaseID (Phases ?s1))" using Cons.prems(1) by (simp add: comp_def)
  obtain n1 r1 where one: "time_out c ref (state, names, reps) = (?s1, n1, reps @ r1)"
    and n1: "n1 = (case ?f of None \<Rightarrow> names | Some p \<Rightarrow> List.insert (ph_Name p) names)"
    and r1: "r1 = (case ?f of None \<Rightarrow> [] | Some p \<Rightarrow> [repair PatternR6 c [] (PhaseTimedOut (ph_Name p) (pr_deadline ref))])"
    using time_out_one [OF Cons.prems(1)] by blast
  have run: "fold (time_out c) refs (?s1, n1, reps @ r1) = (state', names', reps')" using Cons.prems(2) by (simp add: one)
  note ih = Cons.IH [OF d1 run]
  have split: "{p \<in> set (Phases state). times_out (pr_id ` set (ref # refs)) p}
      = {p \<in> set (Phases state). times_out {pr_id ref} p} \<union> {p \<in> set (Phases state). times_out (pr_id ` set refs) p}"
    by (auto simp: times_out_def)
  have mine: "ph_Name ` {p \<in> set (Phases state). times_out {pr_id ref} p} = (case ?f of None \<Rightarrow> {} | Some p \<Rightarrow> {ph_Name p})"
  proof (cases ?f)
    case None
    then have "{p \<in> set (Phases state). times_out {pr_id ref} p} = {}" by (auto simp: find_None_iff)
    then show ?thesis by (simp add: None)
  next
    case (Some p)
    then have p: "p \<in> set (Phases state)" "times_out {pr_id ref} p" by (auto dest: find_cases)
    have "{q \<in> set (Phases state). times_out {pr_id ref} q} = {p}"
      using p same_id [OF Cons.prems(1)] by (auto simp: times_out_def)
    then show ?thesis by (simp add: Some)
  qed
  have later: "ph_Name ` {p \<in> set (Phases ?s1). times_out (pr_id ` set refs) p} \<union> ph_Name ` {p \<in> set (Phases state). times_out {pr_id ref} p}
      = ph_Name ` {p \<in> set (Phases state). times_out (pr_id ` set (ref # refs)) p}"
    unfolding split image_Un by (force simp: timed_phase_def times_out_def image_iff)
  have "map (timed_phase (pr_id ` set refs)) (map (timed_phase {pr_id ref}) (Phases state)) = map (timed_phase (pr_id ` set (ref # refs))) (Phases state)"
    by (auto simp: timed_phase_def times_out_def)
  then have st: "state' = state\<lparr>Phases := map (timed_phase (pr_id ` set (ref # refs))) (Phases state)\<rparr>"
    using conjunct1 [OF ih] by simp
  have n1': "set n1 = set names \<union> ph_Name ` {p \<in> set (Phases state). times_out {pr_id ref} p}"
    unfolding mine n1 by (cases ?f) auto
  have "set names' = set n1 \<union> ph_Name ` {p \<in> set (Phases ?s1). times_out (pr_id ` set refs) p}"
    using conjunct1 [OF conjunct2 [OF ih]] .
  then have nm: "set names' = set names \<union> ph_Name ` {p \<in> set (Phases state). times_out (pr_id ` set (ref # refs)) p}"
    unfolding n1' later [symmetric] by (simp only: Un_assoc Un_commute [of "ph_Name ` {p \<in> set (Phases ?s1). times_out (pr_id ` set refs) p}"])
  have r1': "r1 = [] \<longleftrightarrow> ph_Name ` {p \<in> set (Phases state). times_out {pr_id ref} p} = {}"
    unfolding mine r1 by (cases ?f) simp_all
  obtain added where added: "reps' = (reps @ r1) @ added"
    "added = [] \<longleftrightarrow> ph_Name ` {p \<in> set (Phases ?s1). times_out (pr_id ` set refs) p} = {}"
    using conjunct2 [OF conjunct2 [OF ih]] by (simp only: image_is_empty) blast
  have "r1 @ added = [] \<longleftrightarrow> ph_Name ` {p \<in> set (Phases state). times_out (pr_id ` set (ref # refs)) p} = {}"
    unfolding later [symmetric] append_is_Nil_conv Un_empty using added(2) r1' by blast
  then show ?case using st nm added(1) by (simp only: image_is_empty append_assoc) blast
qed

definition any_timeout :: "r6PhaseRef list \<Rightarrow> CommandState \<Rightarrow> bool" where
  "any_timeout refs state = (\<exists>p \<in> set (Phases state). times_out (pr_id ` set refs) p)"

lemma r6_transition_spec:
  fixes state :: CommandState
  assumes "distinct (map ph_PhaseID (Phases state))" and "r6_transition c refs state = (state', reps)"
  shows "reps = [] \<longleftrightarrow> \<not> any_timeout refs state"
    and "any_timeout refs state \<Longrightarrow> state' = state\<lparr>Phases := after_timeout (pr_id ` set refs) (Phases state)\<rparr>"
proof -
  obtain s1 names r1 where run: "fold (time_out c) refs (state, [], []) = (s1, names, r1)" by (metis prod_cases3)
  note all = time_out_all [OF assms(1) run]
  have T: "{p \<in> set (Phases state). times_out (pr_id ` set refs) p} = {} \<longleftrightarrow> \<not> any_timeout refs state" by (auto simp: any_timeout_def)
  have r1: "r1 = [] \<longleftrightarrow> \<not> any_timeout refs state" using conjunct2 [OF conjunct2 [OF all]] unfolding T by simp
  have names: "set names = ph_Name ` {p \<in> set (Phases state). times_out (pr_id ` set refs) p}" using all by simp
  have n0: "names = [] \<longleftrightarrow> \<not> any_timeout refs state"
    unfolding set_empty [of names, symmetric] names image_is_empty by (rule T)
  have s1: "s1 = state\<lparr>Phases := map (timed_phase (pr_id ` set refs)) (Phases state)\<rparr>" using all by simp
  obtain ps x cs where cc: "cascadeCancelTimedOutPhases names (Phases s1) = (ps, x, cs)" by (metis prod_cases3)
  have out: "(state', reps) = (if names = [] then (s1, r1)
      else (s1\<lparr>Phases := ps\<rparr>, r1 @ map (\<lambda>(n, d). repair PatternR6 c [] (PhaseCascaded n d)) cs))"
    using assms(2) unfolding r6_transition_def run prod.case cc by (rule sym)
  show "reps = [] \<longleftrightarrow> \<not> any_timeout refs state"
    using out r1 n0 by (cases "names = []") simp_all
  assume "any_timeout refs state"
  then have "state' = s1\<lparr>Phases := ps\<rparr>" using out n0 by simp
  then show "state' = state\<lparr>Phases := after_timeout (pr_id ` set refs) (Phases state)\<rparr>"
    using cascade_correct [OF cc] by (simp add: s1 after_timeout_def Let_def names)
qed

definition signal_keys :: "RDisk \<Rightarrow> signalKey set" where
  "signal_keys disk = signalDedupKey ` set (rd_Signals disk)"

lemma upsert_keys: "signal_keys disk \<subseteq> signal_keys (upsertPlannerSignal_durable env k sig disk)"
  unfolding signal_keys_def by (rule image_mono) (rule upsert_keeps(4))

lemma queued_timeouts:
  assumes "re_ok env 2 RWriteSignals"
  shows "signal_keys disk \<union> (\<lambda>ref. signalDedupKey (timeout_signal (fmt_stamp (re_now env)) c ref)) ` set refs
    \<subseteq> signal_keys (queue_timeouts env c refs disk)"
  unfolding queue_timeouts_def
proof (induction refs arbitrary: disk)
  case (Cons ref refs)
  let ?sig = "timeout_signal (fmt_stamp (re_now env)) c ref"
  have "signalDedupKey ?sig \<in> signal_keys (upsertPlannerSignal_durable env 2 ?sig disk)"
    using upsert_queued [OF assms] by (simp add: signal_keys_def)
  then show ?case using Cons [of "upsertPlannerSignal_durable env 2 ?sig disk"] upsert_keys [of disk env 2 ?sig] by auto
qed simp

definition timeout_key :: "string \<Rightarrow> string \<Rightarrow> signalKey" where
  "timeout_key commandID phaseID = \<lparr>k_CommandID = commandID, k_PhaseID = phaseID, k_Kind = ''fill_timeout'',
     k_WorkerID = [], k_ConflictGeneration = []\<rparr>"

lemma timeout_signal_key: "signalDedupKey (timeout_signal now c ref) = timeout_key c (pr_id ref)"
  by (simp add: signalDedupKey_def timeout_signal_def new_signal_def timeout_key_def)

text \<open>The disk the last critical section of the rule works on.\<close>

definition r6_left :: "renv \<Rightarrow> string \<Rightarrow> r6PhaseRef list \<Rightarrow> RDisk \<Rightarrow> RDisk" where
  "r6_left env c refs disk = re_mid env 2 c (queue_timeouts env c refs (re_mid env 1 c disk))"


section \<open>Examples\<close>

definition demo_env :: "(nat \<Rightarrow> RIo \<Rightarrow> bool) \<Rightarrow> renv" where
  "demo_env ok = \<lparr>re_now = seconds 100, re_ok = ok, re_mid = (\<lambda>_ _ d. d), re_DispatchLeaseSec = 300,
     re_MaxInProgressMin = None, re_PlannerBusy = False, re_Executor = True, re_CanComplete = None,
     re_VerifyEnabled = True, re_StallThresholdSec = 600, re_ReplanDeadletterSec = 3600,
     re_TaskExecution = \<lparr>tr_Enabled = True, tr_RetryableExitCodes = [1], tr_MaxRetries = 2, tr_CooldownSec = 0\<rparr>,
     re_VerifyCommands = (\<lambda>_. None), re_NewTaskID = (\<lambda>_. None), re_NewResultID = (\<lambda>_. None)\<rparr>"

definition demo_chain :: CommandState where
  "demo_chain = (zero_CommandState ''c'' PlanStatusSealed)\<lparr>Phases :=
     [(zero_Phase ''late'' PhaseStatusPending [])\<lparr>ph_DependsOnPhases := [''next'']\<rparr>,
      (zero_Phase ''fill'' PhaseStatusAwaitingFill [])\<lparr>ph_FillDeadlineAt := Some (Stamp (seconds 60))\<rparr>,
      (zero_Phase ''next'' PhaseStatusPending [])\<lparr>ph_DependsOnPhases := [''fill'']\<rparr>]\<rparr>"

definition demo_disk :: RDisk where
  "demo_disk = \<lparr>rd_States = [(''c'', demo_chain)], rd_Queues = [], rd_Commands = [], rd_Results = [], rd_Planner = [],
     rd_Quarantine = [], rd_Signals = [], rd_Worktrees = [], rd_Notifications = [], rd_DeadLetters = []\<rparr>"

definition demo_statuses :: "RDisk \<Rightarrow> PhaseStatus list" where
  "demo_statuses disk = (case map_of (rd_States disk) ''c'' of None \<Rightarrow> [] | Some s \<Rightarrow> map ph_Status (Phases s))"

lemma timeouts_cascade:
  "demo_statuses (fst (R6_command (demo_env (\<lambda>_ _. True)) ''c'' demo_disk))
     = [PhaseStatusCancelled, PhaseStatusTimedOut, PhaseStatusCancelled]"
  by code_simp

text \<open>
  The write of the signal queue is not checked. When it fails the phase times out all the same: no signal is queued, and the rule does not
  look at the phase again.
\<close>

definition signals_unwritable :: "nat \<Rightarrow> RIo \<Rightarrow> bool" where
  "signals_unwritable k op = (case op of RWriteSignals \<Rightarrow> False | _ \<Rightarrow> True)"

lemma timeout_unreported:
  defines "disk \<equiv> fst (R6_command (demo_env signals_unwritable) ''c'' demo_disk)"
  shows "demo_statuses disk = [PhaseStatusCancelled, PhaseStatusTimedOut, PhaseStatusCancelled]" and "rd_Signals disk = []"
    and "R6_command (demo_env (\<lambda>_ _. True)) ''c'' disk = (disk, [])"
  unfolding disk_def by code_simp+


end
