(* ===== verification/Reconcile_Plan.thy ===== *)
theory Reconcile_Plan imports Reconcile_Base begin

text \<open>
  Planner results the plan status does not show (\<open>internal/daemon/reconcile/r4_plan_status.go\<close>): the plan is asked again
  whether it can complete; a final refusal moves the result into quarantine, a passing one waits. Commands whose check
  failed are skipped for some cycles. Counters are Go's 64-bit integers.
\<close>

section \<open>Backoff\<close>

record r4Backoff =
  bo_failures :: "64 word"
  bo_skipRemaining :: "64 word"

type_synonym BackoffTracker = "(string, r4Backoff) gomap"

definition r4BackoffCycles :: "64 word \<Rightarrow> 64 word" where
  "r4BackoffCycles failures =
     (if failures \<le>s 0 then 0
      else (let cycles = push_bit (unat (failures - 1)) 1 in if 8 <s cycles then 8 else cycles))"

definition tick_one :: "r4Backoff \<Rightarrow> r4Backoff" where
  "tick_one bo = (if 0 <s bo_skipRemaining bo then bo\<lparr>bo_skipRemaining := bo_skipRemaining bo - 1\<rparr> else bo)"

definition backoff_tick :: "BackoffTracker \<Rightarrow> BackoffTracker" where
  "backoff_tick bt = map (\<lambda>(c, bo). (c, tick_one bo)) bt"

definition isInBackoff :: "BackoffTracker \<Rightarrow> string \<Rightarrow> bool" where
  "isInBackoff bt commandID = (case map_of bt commandID of None \<Rightarrow> False | Some bo \<Rightarrow> 0 <s bo_skipRemaining bo)"

definition recordFailure :: "string \<Rightarrow> BackoffTracker \<Rightarrow> BackoffTracker" where
  "recordFailure commandID bt =
     (let failures = (case map_of bt commandID of None \<Rightarrow> 0 | Some bo \<Rightarrow> bo_failures bo) + 1 in
      AList.update commandID \<lparr>bo_failures = failures, bo_skipRemaining = r4BackoffCycles failures\<rparr> bt)"

definition clearBackoff :: "string \<Rightarrow> BackoffTracker \<Rightarrow> BackoffTracker" where
  "clearBackoff commandID bt = AList.delete commandID bt"

section \<open>The rule\<close>

text \<open>
  The copy is written before the lock of the result file is taken; the write of the file may fail after it. What others
  do to the disk before a lock is taken is \<open>re_mid\<close>: 1 before the state lock, 2 before the lock of the results.
\<close>

definition quarantineCommandResult :: "renv \<Rightarrow> CommandResult \<Rightarrow> RDisk \<Rightarrow> RDisk" where
  "quarantineCommandResult env result disk =
     (if \<not> re_ok env 2 (RQuarantine (cr_ID result)) then disk
      else (let disk1 = re_mid env 2 (cr_CommandID result) (disk\<lparr>rd_Quarantine := rd_Quarantine disk @ [result]\<rparr>) in
        if re_ok env 2 RReadPlanner \<and> re_ok env 2 RWritePlanner
        then disk1\<lparr>rd_Planner := filter (\<lambda>r. cr_ID r \<noteq> cr_ID result) (rd_Planner disk1)\<rparr>
        else disk1))"

text \<open>What one result leads to under the lock of its command.\<close>

datatype r4_verdict = R4Skip | R4Retryable | R4Refused CompleteError | R4Derived PlanStatus

definition r4_verdict_of :: "renv \<Rightarrow> CommandState stored \<Rightarrow> r4_verdict" where
  "r4_verdict_of env st =
     (case st of
        Loaded state \<Rightarrow>
          if IsPlanTerminal (cs_PlanStatus state) \<or> cs_PlanStatus state = PlanStatusPlanning then R4Skip
          else (case re_CanComplete env of
            None \<Rightarrow> R4Skip
          | Some canComplete \<Rightarrow>
              (case canComplete state of
                 Inl e \<Rightarrow> if IsRetryable e then R4Retryable else R4Refused e
               | Inr status \<Rightarrow> R4Derived status))
      | _ \<Rightarrow> R4Skip)"

definition R4_checked :: "renv \<Rightarrow> CommandResult \<Rightarrow> BackoffTracker \<Rightarrow> RDisk \<Rightarrow> (BackoffTracker \<times> RDisk) \<times> outcome" where
  "R4_checked env result bt disk =
     (let commandID = cr_CommandID result; now = fmt_stamp (re_now env) in
      case loadState env 1 commandID disk of
        Loaded state \<Rightarrow>
          (case r4_verdict_of env (Loaded state) of
             R4Skip \<Rightarrow> ((bt, disk), [], [])
           | R4Retryable \<Rightarrow> ((recordFailure commandID bt, disk), [], [])
           | R4Refused e \<Rightarrow>
               ((recordFailure commandID bt, quarantineCommandResult env result disk),
                [repair PatternR4 commandID [] (ResultQuarantined e)],
                [\<lparr>dn_Kind = NotifyReEvaluate, dn_CommandID = commandID, dn_Reason = Some e, dn_WorkerID = []\<rparr>])
           | R4Derived status \<Rightarrow>
               (case writeState env 1 commandID (reconciled now (state\<lparr>cs_PlanStatus := status\<rparr>)) disk of
                  (True, disk') \<Rightarrow> ((clearBackoff commandID bt, disk'), [repair PatternR4 commandID [] (PlanStatusUpdated status)], [])
                | (False, disk') \<Rightarrow> ((clearBackoff commandID bt, disk'), [], [])))
      | _ \<Rightarrow> ((bt, disk), [], []))"

definition R4_result :: "renv \<Rightarrow> CommandResult \<Rightarrow> BackoffTracker \<times> RDisk \<Rightarrow> (BackoffTracker \<times> RDisk) \<times> outcome" where
  "R4_result env result = (\<lambda>(bt, disk).
     if \<not> IsTerminal (cr_Status result) \<or> isInBackoff bt (cr_CommandID result) then ((bt, disk), [], [])
     else R4_checked env result bt (re_mid env 1 (cr_CommandID result) disk))"

fun R4_results :: "renv \<Rightarrow> CommandResult list \<Rightarrow> BackoffTracker \<times> RDisk \<Rightarrow> (BackoffTracker \<times> RDisk) \<times> outcome" where
  "R4_results env [] s = (s, [], [])"
| "R4_results env (r # rs) s =
     (case R4_result env r s of
        (s1, reps, msgs) \<Rightarrow> (case R4_results env rs s1 of (s2, reps', msgs') \<Rightarrow> (s2, reps @ reps', msgs @ msgs')))"

definition R4_Apply :: "renv \<Rightarrow> BackoffTracker \<times> RDisk \<Rightarrow> (BackoffTracker \<times> RDisk) \<times> outcome" where
  "R4_Apply env = (\<lambda>(bt, disk).
     if re_ok env 0 RReadPlanner then R4_results env (rd_Planner disk) (bt, disk) else ((bt, disk), [], []))"

section \<open>How long a command is skipped\<close>

lemma shift_one: "(push_bit n 1 :: 64 word) = (if n < 64 then word_of_int (2 ^ n) else 0)"
  by (auto simp: push_bit_eq_mult exp_eq_zero_iff)

text \<open>The windows of the first 63 failures are as the code says; then the shift overflows and no cycle is skipped.\<close>

lemma backoff_cycles:
  "map (\<lambda>n. sint (r4BackoffCycles (word_of_nat n))) [0..<6] = [0, 1, 2, 4, 8, 8]"
  "sint (r4BackoffCycles 63) = 8" "sint (r4BackoffCycles 64) = - (2 ^ 63)" "sint (r4BackoffCycles 65) = 0"
  by code_simp+

definition failed_times :: "64 word \<Rightarrow> BackoffTracker" where
  "failed_times n = [(''c'', \<lparr>bo_failures = n, bo_skipRemaining = 0\<rparr>)]"

lemma backoff_vanishes:
  "isInBackoff (recordFailure ''c'' (failed_times 62)) ''c''"
  "\<not> isInBackoff (recordFailure ''c'' (failed_times 63)) ''c''"
  "\<not> isInBackoff (recordFailure ''c'' (failed_times 64)) ''c''"
  by code_simp+

section \<open>No result is lost\<close>

definition results_known :: "RDisk \<Rightarrow> CommandResult set" where
  "results_known disk = set (rd_Planner disk) \<union> set (rd_Quarantine disk)"

definition ids_identify :: "RDisk \<Rightarrow> bool" where
  "ids_identify disk = inj_on cr_ID (results_known disk)"

text \<open>Others append results under ids of their own, and leave the quarantine alone.\<close>

definition others_append :: "renv \<Rightarrow> bool" where
  "others_append env = (\<forall>k c d. set (rd_Planner d) \<subseteq> set (rd_Planner (re_mid env k c d))
     \<and> rd_Quarantine (re_mid env k c d) = rd_Quarantine d \<and> (ids_identify d \<longrightarrow> ids_identify (re_mid env k c d)))"

text \<open>The plan of the command was asked in this state and refused for good.\<close>

definition finally_refused :: "renv \<Rightarrow> string \<Rightarrow> RDisk \<Rightarrow> CompleteError \<Rightarrow> bool" where
  "finally_refused env c disk e = (\<exists>state canComplete. map_of (rd_States disk) c = Some state
     \<and> \<not> IsPlanTerminal (cs_PlanStatus state) \<and> cs_PlanStatus state \<noteq> PlanStatusPlanning
     \<and> re_CanComplete env = Some canComplete \<and> canComplete state = Inl e \<and> \<not> IsRetryable e)"

text \<open>The disks on which the results of the file are looked at.\<close>

fun R4_visits :: "renv \<Rightarrow> CommandResult list \<Rightarrow> BackoffTracker \<times> RDisk \<Rightarrow> (CommandResult \<times> RDisk) list" where
  "R4_visits env [] s = []"
| "R4_visits env (r # rs) s =
     (r, re_mid env 1 (cr_CommandID r) (snd s)) # R4_visits env rs (fst (R4_result env r s))"

lemma refusal_is_final: "r4_verdict_of env (Loaded state) = R4Refused e \<Longrightarrow> map_of (rd_States disk) c = Some state \<Longrightarrow> finally_refused env c disk e"
  by (auto simp: r4_verdict_of_def finally_refused_def split: if_splits option.splits sum.splits)

lemma others_known:
  assumes "others_append env"
  shows "results_known d \<subseteq> results_known (re_mid env k c d)" "rd_Quarantine (re_mid env k c d) = rd_Quarantine d"
    "ids_identify d \<Longrightarrow> ids_identify (re_mid env k c d)"
  using assms by (fastforce simp: others_append_def results_known_def)+

text \<open>A result that is known may be moved to the quarantine: nothing else has its id.\<close>

lemma quarantine_keeps:
  assumes others: "others_append env" and ids: "ids_identify disk" and r: "r \<in> results_known disk"
  defines "disk' \<equiv> quarantineCommandResult env r disk"
  shows "results_known disk \<subseteq> results_known disk'" "ids_identify disk'"
    "set (rd_Quarantine disk') \<subseteq> insert r (set (rd_Quarantine disk))"
proof -
  define copied where "copied = disk\<lparr>rd_Quarantine := rd_Quarantine disk @ [r]\<rparr>"
  define mid where "mid = re_mid env 2 (cr_CommandID r) copied"
  define moved where "moved = mid\<lparr>rd_Planner := filter (\<lambda>x. cr_ID x \<noteq> cr_ID r) (rd_Planner mid)\<rparr>"
  have k0: "results_known copied = results_known disk" using r by (auto simp: results_known_def copied_def)
  have k1: "results_known disk \<subseteq> results_known mid" "ids_identify mid" "rd_Quarantine mid = rd_Quarantine disk @ [r]"
    using others_known [OF others, where d = copied and k = 2 and c = "cr_CommandID r"] k0 ids
    by (auto simp: mid_def ids_identify_def copied_def)
  have same: "x = r" if "x \<in> set (rd_Planner mid)" "cr_ID x = cr_ID r" for x
    using k1 that by (auto simp: ids_identify_def results_known_def inj_on_def)
  have k2: "results_known moved = results_known mid"
    using same k1(3) by (auto simp: results_known_def moved_def)
  have "disk' = disk \<or> disk' = mid \<or> disk' = moved"
    by (simp add: disk'_def quarantineCommandResult_def Let_def copied_def mid_def moved_def)
  then show "results_known disk \<subseteq> results_known disk'" "ids_identify disk'"
    "set (rd_Quarantine disk') \<subseteq> insert r (set (rd_Quarantine disk))"
    using k1 k2 ids by (auto simp: ids_identify_def moved_def)
qed

text \<open>One result: what is known stays known; only a final refusal moves it, with a repair and a notification.\<close>

lemma known_states [simp]: "results_known (disk\<lparr>rd_States := m\<rparr>) = results_known disk" "ids_identify (disk\<lparr>rd_States := m\<rparr>) = ids_identify disk"
  by (simp_all add: results_known_def ids_identify_def)

definition moves :: "Repair list \<Rightarrow> (string \<times> CompleteError) list" where
  "moves reps = List.map_filter (\<lambda>r. case rep_Detail r of ResultQuarantined e \<Rightarrow> Some (rep_CommandID r, e) | _ \<Rightarrow> None) reps"

definition told :: "DeferredNotification list \<Rightarrow> (string \<times> CompleteError) list" where
  "told msgs = List.map_filter (\<lambda>n. map_option (Pair (dn_CommandID n)) (dn_Reason n)) msgs"

lemma moves_append [simp]: "moves (xs @ ys) = moves xs @ moves ys" "moves [] = []"
  by (simp_all add: moves_def map_filter_def)

lemma told_append [simp]: "told (xs @ ys) = told xs @ told ys" "told [] = []"
  by (simp_all add: told_def map_filter_def)

lemma move_told [simp]:
  "moves [repair PatternR4 c t (ResultQuarantined e)] = [(c, e)]" "moves [repair PatternR4 c t (PlanStatusUpdated st)] = []"
  "told [\<lparr>dn_Kind = k, dn_CommandID = c, dn_Reason = Some e, dn_WorkerID = w\<rparr>] = [(c, e)]"
  by (simp_all add: moves_def told_def map_filter_def repair_def)

lemma backoff_others:
  "c' \<noteq> c \<Longrightarrow> isInBackoff (recordFailure c bt) c' = isInBackoff bt c'"
  "c' \<noteq> c \<Longrightarrow> isInBackoff (clearBackoff c bt) c' = isInBackoff bt c'"
  by (auto simp: isInBackoff_def recordFailure_def clearBackoff_def Let_def update_conv' delete_conv' split: option.splits)

lemma checked_keeps:
  assumes others: "others_append env" and ids: "ids_identify disk" and r: "r \<in> results_known disk"
    and res: "R4_checked env r bt disk = ((bt', disk'), reps, msgs)"
  shows "results_known disk \<subseteq> results_known disk'" "ids_identify disk'"
    "set (rd_Quarantine disk') \<subseteq> set (rd_Quarantine disk) \<or>
       set (rd_Quarantine disk') \<subseteq> insert r (set (rd_Quarantine disk)) \<and> (\<exists>e. finally_refused env (cr_CommandID r) disk e)"
    "moves reps = told msgs" "\<And>c. c \<noteq> cr_CommandID r \<Longrightarrow> isInBackoff bt' c = isInBackoff bt c"
proof -
  note q = quarantine_keeps [OF others ids r]
  have "results_known disk \<subseteq> results_known disk' \<and> ids_identify disk'
    \<and> (set (rd_Quarantine disk') \<subseteq> set (rd_Quarantine disk) \<or>
       set (rd_Quarantine disk') \<subseteq> insert r (set (rd_Quarantine disk)) \<and> (\<exists>e. finally_refused env (cr_CommandID r) disk e))
    \<and> moves reps = told msgs \<and> (\<forall>c. c \<noteq> cr_CommandID r \<longrightarrow> isInBackoff bt' c = isInBackoff bt c)"
  proof (cases "loadState env 1 (cr_CommandID r) disk")
    case (Loaded state)
    then have st: "map_of (rd_States disk) (cr_CommandID r) = Some state" by simp
    note res = res [unfolded R4_checked_def Let_def Loaded stored.case]
    show ?thesis
    proof (cases "r4_verdict_of env (Loaded state)")
      case (R4Refused e)
      with refusal_is_final [OF this st] q res show ?thesis by (auto simp: backoff_others)
    next
      case (R4Derived status)
      with res ids show ?thesis by (auto simp: writeState_def backoff_others split: if_splits)
    qed (use res ids in \<open>auto simp: backoff_others\<close>)
  qed (use res ids in \<open>auto simp: R4_checked_def Let_def\<close>)
  then show "results_known disk \<subseteq> results_known disk'" "ids_identify disk'"
    "set (rd_Quarantine disk') \<subseteq> set (rd_Quarantine disk) \<or>
       set (rd_Quarantine disk') \<subseteq> insert r (set (rd_Quarantine disk)) \<and> (\<exists>e. finally_refused env (cr_CommandID r) disk e)"
    "moves reps = told msgs" "\<And>c. c \<noteq> cr_CommandID r \<Longrightarrow> isInBackoff bt' c = isInBackoff bt c"
    by blast+
qed

lemma result_keeps:
  assumes others: "others_append env" and ids: "ids_identify disk" and r: "r \<in> results_known disk"
    and res: "R4_result env r (bt, disk) = ((bt', disk'), reps, msgs)"
  shows "results_known disk \<subseteq> results_known disk'" "ids_identify disk'" "moves reps = told msgs"
    "\<And>x. x \<in> set (rd_Quarantine disk') \<Longrightarrow> x \<notin> set (rd_Quarantine disk) \<Longrightarrow>
       x = r \<and> IsTerminal (cr_Status r) \<and> \<not> isInBackoff bt (cr_CommandID r)
       \<and> (\<exists>e. finally_refused env (cr_CommandID r) (re_mid env 1 (cr_CommandID r) disk) e)"
    "\<And>c. isInBackoff bt c \<Longrightarrow> isInBackoff bt' c"
proof -
  let ?mid = "re_mid env 1 (cr_CommandID r) disk"
  have mid: "results_known disk \<subseteq> results_known ?mid" "ids_identify ?mid" "rd_Quarantine ?mid = rd_Quarantine disk" "r \<in> results_known ?mid"
    using others_known [OF others] ids r by blast+
  have "results_known disk \<subseteq> results_known disk' \<and> ids_identify disk' \<and> moves reps = told msgs
    \<and> (\<forall>x. x \<in> set (rd_Quarantine disk') \<longrightarrow> x \<notin> set (rd_Quarantine disk) \<longrightarrow>
       x = r \<and> IsTerminal (cr_Status r) \<and> \<not> isInBackoff bt (cr_CommandID r)
       \<and> (\<exists>e. finally_refused env (cr_CommandID r) ?mid e))
    \<and> (\<forall>c. isInBackoff bt c \<longrightarrow> isInBackoff bt' c)"
  proof (cases "\<not> IsTerminal (cr_Status r) \<or> isInBackoff bt (cr_CommandID r)")
    case True
    with res ids show ?thesis by (auto simp: R4_result_def)
  next
    case False
    with res have "R4_checked env r bt ?mid = ((bt', disk'), reps, msgs)" by (simp add: R4_result_def)
    from checked_keeps [OF others mid(2,4) this] False mid(1,3) show ?thesis by (smt (verit) insert_iff subset_iff)
  qed
  then show "results_known disk \<subseteq> results_known disk'" "ids_identify disk'" "moves reps = told msgs"
    "\<And>x. x \<in> set (rd_Quarantine disk') \<Longrightarrow> x \<notin> set (rd_Quarantine disk) \<Longrightarrow>
       x = r \<and> IsTerminal (cr_Status r) \<and> \<not> isInBackoff bt (cr_CommandID r)
       \<and> (\<exists>e. finally_refused env (cr_CommandID r) ?mid e)"
    "\<And>c. isInBackoff bt c \<Longrightarrow> isInBackoff bt' c" by blast+
qed

lemma results_keep:
  assumes "others_append env" "ids_identify disk" "set rs \<subseteq> results_known disk"
    "R4_results env rs (bt, disk) = ((bt', disk'), reps, msgs)"
  shows "results_known disk \<subseteq> results_known disk' \<and> moves reps = told msgs
    \<and> (\<forall>x \<in> set (rd_Quarantine disk') - set (rd_Quarantine disk).
       x \<in> set rs \<and> IsTerminal (cr_Status x) \<and> \<not> isInBackoff bt (cr_CommandID x)
       \<and> (\<exists>d e. (x, d) \<in> set (R4_visits env rs (bt, disk)) \<and> finally_refused env (cr_CommandID x) d e))"
  using assms
proof (induction rs arbitrary: bt disk reps msgs)
  case (Cons r rs)
  obtain bt1 d1 reps1 notes1 where one: "R4_result env r (bt, disk) = ((bt1, d1), reps1, notes1)" by (metis surj_pair)
  obtain reps2 notes2 where rest: "R4_results env rs (bt1, d1) = ((bt', disk'), reps2, notes2)"
    and out: "reps = reps1 @ reps2" "msgs = notes1 @ notes2"
    using Cons.prems(4) one by (auto split: prod.splits)
  have r: "r \<in> results_known disk" using Cons.prems(3) by simp
  note first = result_keeps [OF Cons.prems(1,2) r one]
  have "set rs \<subseteq> results_known d1" using Cons.prems(3) first(1) by auto
  note IH = Cons.IH [OF Cons.prems(1) first(2) this rest]
  show ?case
  proof (intro conjI ballI)
    show "results_known disk \<subseteq> results_known disk'" using first(1) IH by blast
    show "moves reps = told msgs" using first(3) IH by (simp add: out)
    fix x assume x: "x \<in> set (rd_Quarantine disk') - set (rd_Quarantine disk)"
    have visits: "R4_visits env (r # rs) (bt, disk) = (r, re_mid env 1 (cr_CommandID r) disk) # R4_visits env rs (bt1, d1)"
      by (simp add: one)
    show "x \<in> set (r # rs)" "IsTerminal (cr_Status x)" "\<not> isInBackoff bt (cr_CommandID x)"
      "\<exists>d e. (x, d) \<in> set (R4_visits env (r # rs) (bt, disk)) \<and> finally_refused env (cr_CommandID x) d e"
      unfolding visits using first(4) [of x] first(5) IH x by (cases "x \<in> set (rd_Quarantine d1)"; fastforce)+
  qed
qed simp


section \<open>Examples\<close>

definition ask_env :: "(nat \<Rightarrow> string \<Rightarrow> RDisk \<Rightarrow> RDisk) \<Rightarrow> renv" where
  "ask_env mid = \<lparr>re_now = seconds 100, re_ok = (\<lambda>_ _. True), re_mid = mid, re_DispatchLeaseSec = 300,
     re_MaxInProgressMin = None, re_PlannerBusy = False, re_Executor = True, re_CanComplete = Some CanComplete,
     re_VerifyEnabled = True, re_StallThresholdSec = 600, re_ReplanDeadletterSec = 3600,
     re_TaskExecution = \<lparr>tr_Enabled = True, tr_RetryableExitCodes = [1], tr_MaxRetries = 2, tr_CooldownSec = 0\<rparr>,
     re_VerifyCommands = (\<lambda>_. None), re_NewTaskID = (\<lambda>_. None), re_NewResultID = (\<lambda>_. None)\<rparr>"

text \<open>A plan with a running task whose planner has already reported failure.\<close>

definition early_result :: CommandResult where
  "early_result = failed_result ''r1'' ''c'' ''gave up'' (Stamp 0)"

definition early_disk :: RDisk where
  "early_disk = \<lparr>rd_States = [(''c'', (zero_CommandState ''c'' PlanStatusSealed)\<lparr>RequiredTaskIDs := [''t''], ExpectedTaskCount := 1,
       TaskStates := [(''t'', StatusInProgress)]\<rparr>)],
     rd_Queues = [], rd_Commands = [], rd_Results = [], rd_Planner = [early_result],
     rd_Quarantine = [], rd_Signals = [], rd_Worktrees = [], rd_Notifications = [], rd_DeadLetters = []\<rparr>"

definition alone :: "nat \<Rightarrow> string \<Rightarrow> RDisk \<Rightarrow> RDisk" where
  "alone k c d = d"

lemma early_result_moves:
  "(let ((bt, d), _, _) = R4_Apply (ask_env alone) ([], early_disk) in (rd_Planner d, rd_Quarantine d, isInBackoff bt ''c''))
     = ([], [early_result], True)"
  by code_simp


text \<open>
  The result leaves the file by its id. When the planner's tool corrects the result in between, which keeps the id
  (\<open>reconcileCommandResultLocked\<close>), the correction is what the rule deletes: only the old text has a copy.
\<close>

definition corrected_result :: CommandResult where
  "corrected_result = early_result\<lparr>cr_Status := StatusCompleted, cr_Summary := ''done after all''\<rparr>"

definition corrects :: "nat \<Rightarrow> string \<Rightarrow> RDisk \<Rightarrow> RDisk" where
  "corrects k c d = (if k = 2 then d\<lparr>rd_Planner := map (\<lambda>r. if cr_CommandID r = c then corrected_result else r) (rd_Planner d)\<rparr> else d)"

lemma corrected_result_lost:
  "(let ((_, d), _, _) = R4_Apply (ask_env corrects) ([], early_disk) in (rd_Planner d, rd_Quarantine d)) = ([], [early_result])"
  by code_simp

end
