(* ===== verification/Spec2Isabelle.thy ===== *)
theory Spec2Isabelle imports Task_Advance Dag Lease Deferred_Publish State_Reader Result_Apply Task_Budget Cancel_Scan Planner_Signals Inject Reconcile_Timeout Reconcile_Plan begin

text \<open>
  Maestro v2: the orchestration core.

  Maestro runs a formation of agents: an orchestrator hands commands to a planner, the planner breaks a
  command into tasks, workers execute the tasks, each in a worktree of its own, and a daemon
  moves everything along. All state is in files: a queue per agent, a result file per agent, and one command
  state per command. The daemon scans the queues periodically, grants leases, dispatches, recovers
  from crashes and repairs disagreements; the planner's tools (plan submit, plan complete, add-retry-task)
  run against the same command states.

  What is modelled, by theory, in the order the code builds on it:

  \<^item> \<open>Maestro_Prelude\<close>: Go maps as association lists, timestamps as instants, results as sums, walks
    over a step relation, topological listings.
  \<^item> \<open>Config\<close>: the configuration accessors the components read (\<open>internal/model/config_types.go\<close>).
  \<^item> \<open>Status_Machine\<close>: the status types and transition tables of \<open>internal/model/status.go\<close> and
    \<open>worktree.go\<close>; runs of transitions and what they cannot do.
  \<^item> \<open>Command_State\<close>, \<open>Queue_Model\<close>: the records of \<open>internal/model/state.go\<close>, \<open>ab.go\<close>, \<open>queue.go\<close>
    and \<open>result.go\<close> with their methods.
  \<^item> \<open>Task_Advance\<close>: \<open>AdvanceTaskState\<close> and its breadth-first search (\<open>internal/model/state_advance.go\<close>).
  \<^item> \<open>Lineage\<close>: retry lineages and effective statuses (\<open>internal/plan/lineage.go\<close>).
  \<^item> \<open>Dag\<close>: the validation of task and phase graphs (\<open>internal/plan/dag.go\<close>).
  \<^item> \<open>Completion\<close>: when a plan may complete and with which status (\<open>internal/plan/state.go\<close>, and the
    state changes of \<open>internal/plan/complete.go\<close> that come before).
  \<^item> \<open>Base_Name\<close>, \<open>Finalize\<close>, \<open>Deferred_Publish\<close>: the write sequence that settles a command in three
    stores under a write-ahead intent, its recovery, and completions deferred until the publish
    (\<open>internal/plan/complete.go\<close>, \<open>complete_intent.go\<close>, \<open>deferred_complete.go\<close>).
  \<^item> \<open>State_Reader\<close>: the cached reader and writer of command states (\<open>internal/plan/state_reader.go\<close>).
  \<^item> \<open>Lease\<close>: the lease manager (\<open>internal/daemon/lease/manager.go\<close>).
  \<^item> \<open>Circuit_Breaker\<close>: the breaker of a command (\<open>internal/daemon/circuitbreaker\<close>).
  \<^item> \<open>Result_Apply\<close>: how a worker's result and its verification reach the command state
    (\<open>internal/daemon/result_write_phase_b.go\<close>).
  \<^item> \<open>Paths\<close>: expected paths and their overlap (\<open>internal/pathutil\<close>, \<open>internal/daemon/path_overlap.go\<close>).
  \<^item> \<open>Admission\<close>: the slots of verify and repair work (\<open>internal/daemon/admission/controller.go\<close>).
  \<^item> \<open>Dispatch_Order\<close>: priority aging and the dispatch order (\<open>internal/daemon/dispatch/sort.go\<close>).
  \<^item> \<open>Task_Lifecycle\<close>: how dispatch moves a task through the command state
    (\<open>internal/daemon/task_lifecycle.go\<close>).
  \<^item> \<open>Resolver\<close>: dependencies, failure cascade and phase transitions
    (\<open>internal/daemon/dependency_resolver.go\<close>).
  \<^item> \<open>Dispatch_Scan\<close>: the dispatch half of a scan with every gate (\<open>internal/daemon/queue_scan_collect.go\<close>).
  \<^item> \<open>Scan_Recovery\<close>, \<open>Dispatch_Result\<close>: the recovery half of a scan, blocked panes, and the outcomes of probes
    and deliveries behind their fences (\<open>queue_scan_collect.go\<close>, \<open>queue_scan_blocked_pane.go\<close>,
    \<open>queue_scan_apply.go\<close>).
  \<^item> \<open>Dead_Letter\<close>: rows that used up their attempts (\<open>internal/daemon/dead_letter.go\<close>).
  \<^item> \<open>Task_Budget\<close>: the events of one task row over those components, and the bound on its dispatches.
  \<^item> \<open>Cancel_Scan\<close>: cancellation of commands and tasks (\<open>internal/daemon/cancel_handler.go\<close> and the cancel steps
    of the scan phases).
  \<^item> \<open>Planner_Signals\<close>: the signals to the planner, their delivery and backoff (\<open>internal/daemon/queue_dispatch.go\<close>).
  \<^item> \<open>Worker_Assign\<close>: which worker a task goes to (\<open>internal/plan/worker_assign.go\<close>).
  \<^item> \<open>Validate\<close>: the rules of a submitted plan (\<open>internal/plan/validate.go\<close>), shown to accept exactly the
    inputs that are legal field by field and can be ordered.
  \<^item> \<open>Plan_Wf\<close>: when the command state of a plan is well formed, and what that depends on.
  \<^item> \<open>Submit\<close>, \<open>Submit_Correct\<close>: flat and phased submission with all writes and their rollback
    (\<open>internal/plan/submit*.go\<close>).
  \<^item> \<open>Phase_Fill\<close>: the fill of a deferred phase, with what others do to the disk while it gives up the state
    lock as an argument.
  \<^item> \<open>Retry\<close>, \<open>Retry_Queue\<close>: the retry of a task, the recovery of the tasks cancelled because of it, its queue rows
    and their rollback (\<open>internal/plan/retry*.go\<close>).
  \<^item> \<open>Inject\<close>: the injection of a single task (\<open>internal/plan/inject.go\<close>).
  \<^item> \<open>Auto_Retry\<close>: the retries the daemon makes on its own: the decision, the row of the new attempt, its wiring
    and its registration in state and queue (\<open>internal/model/retry_wiring.go\<close>,
    \<open>internal/daemon/task_retry_handler.go\<close>).
  \<^item> \<open>Reconcile_Base\<close>, \<open>Reconcile_Timeout\<close>, \<open>Reconcile_Plan\<close>: what the repair rules of
    \<open>internal/daemon/reconcile\<close> share, the rule on expired fill deadlines with its cascade, and the rule on plans
    whose planner has reported, with its backoff and quarantine.

  Conventions. A function that mutates a struct returns the new one; one that writes files returns
  the writes in order, so a crash is a prefix of them. The clock is an argument (nanoseconds); where the code
  reads it twice there are two arguments. A Go map is an association list, and a theorem about code that ranges
  over one holds for every order. Log lines and message texts are not modelled, and neither are mutexes: the
  operations run under the locks the code names, so each is one step. Where a repair rule or a phase fill takes its
  locks one after the other, what others do to the disk in between is an argument. Integers are unbounded, and where
  durations overflow the wrap-around is written out; the fingerprint of task results, the backoff of signals and the
  backoff of plan checks are on 64-bit words.

  Fuel appears in one place, the depth-first search of \<open>Dag\<close>: it is the number of edges and
  nodes, and the search is proved never to use it up. All other loops are total functions with a measure.

  Not modelled: processes, tmux and agents (\<open>internal/agent\<close>, \<open>internal/tmux\<close>, \<open>internal/formation\<close>),
  git (\<open>internal/daemon/worktree\<close>, of which only the state machine is here), YAML encoding, file locks, and the
  command line, because they are input and output; and the parts the manifest lists as planned.
\<close>

end
